(* ===== verification/Exfat_Prelude.thy ===== *)
theory Exfat_Prelude
  imports Main "HOL-Library.Word"
begin

unbundle bit_operations_syntax

text \<open>
  Shared vocabulary of the development: the machine integer types of the Rust source, the
  outcome of a fallible operation, the state-and-error monad in which the operations are
  written, little-endian byte encodings and the list slices the code reads and overwrites.

  Integer arithmetic follows the release profile of the source (overflow checks off): \<open>+\<close>,
  \<open>-\<close> and \<open>*\<close> on words wrap. Everything that panics in every profile (an index or slice out
  of range, \<open>assert!\<close>, \<open>unwrap\<close>, division by zero) is the outcome \<open>Panic\<close>.
\<close>

section \<open>Machine integers\<close>

type_synonym u8 = "8 word"
type_synonym u16 = "16 word"
type_synonym u32 = "32 word"
type_synonym u64 = "64 word"

text \<open>Facts collected for the automation of the component theories.\<close>

named_theorems monad_simps \<open>unfoldings of the state-and-error monad\<close>
named_theorems monad_okE \<open>eliminations of successful runs\<close>
named_theorems len_simps \<open>lengths of encoded data\<close>

section \<open>Outcomes and the state-and-error monad\<close>

text \<open>
  An operation of the source that returns \<open>Result<T, E>\<close> and mutates some state is a function
  from the state to an outcome and the new state. The state is returned on every outcome: an
  early return with \<open>?\<close> keeps the mutations made before it.  \<open>OutOfFuel\<close> is the outcome of a
  loop that did not finish within the fuel given to it.
\<close>

datatype ('a, 'e) outcome = Ok 'a | Err 'e | Panic | OutOfFuel

type_synonym ('s, 'a, 'e) op = "'s \<Rightarrow> ('a, 'e) outcome \<times> 's"

definition ret :: "'a \<Rightarrow> ('s, 'a, 'e) op" where
  [monad_simps]: "ret a s = (Ok a, s)"

definition fail :: "'e \<Rightarrow> ('s, 'a, 'e) op" where
  [monad_simps]: "fail e s = (Err e, s)"

definition panic :: "('s, 'a, 'e) op" where
  [monad_simps]: "panic s = (Panic, s)"

text \<open>\<open>andthen m f\<close> is \<open>let a = m?; f a\<close>: every outcome but \<open>Ok\<close> is returned at once.\<close>

definition andthen :: "('s, 'a, 'e) op \<Rightarrow> ('a \<Rightarrow> ('s, 'b, 'e) op) \<Rightarrow> ('s, 'b, 'e) op" where
  "andthen m f s = (case m s of
     (Ok a, t) \<Rightarrow> f a t
   | (Err e, t) \<Rightarrow> (Err e, t)
   | (Panic, t) \<Rightarrow> (Panic, t)
   | (OutOfFuel, t) \<Rightarrow> (OutOfFuel, t))"

definition gets :: "('s \<Rightarrow> 'a) \<Rightarrow> ('s, 'a, 'e) op" where
  [monad_simps]: "gets f s = (Ok (f s), s)"

definition modify :: "('s \<Rightarrow> 's) \<Rightarrow> ('s, unit, 'e) op" where
  [monad_simps]: "modify f s = (Ok (), f s)"

text \<open>An \<open>assert!\<close> of the source.\<close>

definition assert_that :: "bool \<Rightarrow> ('s, unit, 'e) op" where
  [monad_simps]: "assert_that b s = (if b then Ok () else Panic, s)"

text \<open>Lifts a computation on a part of the state (a field borrowed mutably) to the whole.\<close>

definition zoom :: "('s \<Rightarrow> 't) \<Rightarrow> ('t \<Rightarrow> 's \<Rightarrow> 's) \<Rightarrow> ('t, 'a, 'e) op \<Rightarrow> ('s, 'a, 'e) op" where
  [monad_simps]: "zoom get put m s = (case m (get s) of (r, t) \<Rightarrow> (r, put t s))"

text \<open>\<open>for x in xs { body x?; }\<close>\<close>

fun for_each :: "'x list \<Rightarrow> ('x \<Rightarrow> ('s, unit, 'e) op) \<Rightarrow> ('s, unit, 'e) op" where
  "for_each [] body = ret ()"
| "for_each (x # xs) body = andthen (body x) (\<lambda>_. for_each xs body)"

lemma andthen_Ok [monad_simps]: "m s = (Ok a, t) \<Longrightarrow> andthen m f s = f a t"
  by (simp add: andthen_def)

lemma andthen_Err [monad_simps]: "m s = (Err e, t) \<Longrightarrow> andthen m f s = (Err e, t)"
  by (simp add: andthen_def)

lemma andthen_Panic [monad_simps]: "m s = (Panic, t) \<Longrightarrow> andthen m f s = (Panic, t)"
  by (simp add: andthen_def)

lemma andthen_okE [monad_okE, consumes 1, case_names steps]:
  assumes "andthen m f s = (Ok b, u)"
  obtains a t where "m s = (Ok a, t)" and "f a t = (Ok b, u)"
  using assms by (auto simp: andthen_def split: prod.splits outcome.splits)

lemma andthen_Ok_iff:
  "andthen m f s = (Ok b, u) \<longleftrightarrow> (\<exists>a t. m s = (Ok a, t) \<and> f a t = (Ok b, u))"
  by (auto simp: andthen_def split: prod.splits outcome.splits)

lemma andthen_ret [simp]: "andthen (ret a) f = f a"
  by (rule ext) (simp add: andthen_def ret_def)

lemma andthen_fail [simp]: "andthen (fail e) f = fail e"
  by (rule ext) (simp add: andthen_def fail_def)

lemma andthen_panic [simp]: "andthen panic f = panic"
  by (rule ext) (simp add: andthen_def panic_def)

lemma andthen_if: "andthen (if b then m else n) f = (if b then andthen m f else andthen n f)"
  by simp

lemma if_op_apply: "(if b then m else n) s = (if b then m s else n s)"
  by simp

lemma andthen_gets [simp]: "andthen (gets g) f s = f (g s) s"
  by (simp add: andthen_def gets_def)

lemma andthen_modify [simp]: "andthen (modify g) f s = f () (g s)"
  by (simp add: andthen_def modify_def)

lemma andthen_assoc: "andthen (andthen m f) g = andthen m (\<lambda>a. andthen (f a) g)"
  by (rule ext) (auto simp: andthen_def split: prod.splits outcome.splits)

lemma zoom_okE [monad_okE]:
  assumes "zoom get put m s = (Ok a, u)"
  obtains t where "m (get s) = (Ok a, t)" and "u = put t s"
  using assms by (auto simp: zoom_def split: prod.splits)

text \<open>An invariant kept by every body of a loop is kept by the loop.\<close>

lemma for_each_invariant:
  assumes "for_each xs body s = (Ok (), t)" and "I s"
    and "\<And>x s t. x \<in> set xs \<Longrightarrow> I s \<Longrightarrow> body x s = (Ok (), t) \<Longrightarrow> I t"
  shows "I t"
  using assms
proof (induction xs arbitrary: s)
  case Nil
  then show ?case by (simp add: ret_def)
next
  case (Cons x xs)
  from Cons.prems(1) obtain u where u: "body x s = (Ok (), u)" "for_each xs body u = (Ok (), t)"
    by (auto elim: andthen_okE)
  then have "I u" using Cons.prems(2,3) by auto
  then show ?case using Cons.IH [OF u(2)] Cons.prems(3) by auto
qed

lemma for_each_append:
  "for_each (xs @ ys) body = andthen (for_each xs body) (\<lambda>_. for_each ys body)"
  by (induction xs) (simp_all add: andthen_assoc)

section \<open>Slices of byte arrays\<close>

text \<open>\<open>&xs[i..j]\<close>; \<open>None\<close> is the panic of an inverted or out-of-range slice.\<close>

definition slice :: "nat \<Rightarrow> nat \<Rightarrow> 'a list \<Rightarrow> 'a list option" where
  "slice i j xs = (if i \<le> j \<and> j \<le> length xs then Some (take (j - i) (drop i xs)) else None)"

text \<open>\<open>xs[i..i + ys.len()].copy_from_slice(ys)\<close>\<close>

definition splice :: "nat \<Rightarrow> 'a list \<Rightarrow> 'a list \<Rightarrow> 'a list option" where
  "splice i ys xs = (if i + length ys \<le> length xs
     then Some (take i xs @ ys @ drop (i + length ys) xs) else None)"

lemma splice_length [len_simps]: "splice i ys xs = Some zs \<Longrightarrow> length zs = length xs"
  by (auto simp: splice_def split: if_splits)

lemma splice_nth:
  "splice i ys xs = Some zs \<Longrightarrow> k < length xs \<Longrightarrow>
   zs ! k = (if i \<le> k \<and> k < i + length ys then ys ! (k - i) else xs ! k)"
  by (auto simp: splice_def nth_append min_def split: if_splits)

lemma splice_same:
  assumes "splice i ys xs = Some zs"
  shows "take (length ys) (drop i zs) = ys"
  using assms by (auto simp: splice_def split: if_splits)

lemma splice_disjoint:
  assumes "splice i ys xs = Some zs" and "j + n \<le> i \<or> i + length ys \<le> j"
  shows "take n (drop j zs) = take n (drop j xs)"
proof (rule nth_equalityI)
  show "length (take n (drop j zs)) = length (take n (drop j xs))"
    using splice_length [OF assms(1)] by simp
  fix k assume k: "k < length (take n (drop j zs))"
  then have "j + k < length xs" using splice_length [OF assms(1)] by auto
  then show "take n (drop j zs) ! k = take n (drop j xs) ! k"
    using k assms splice_nth [OF assms(1), of "j + k"] splice_length [OF assms(1)] by auto
qed

text \<open>\<open>xs.as_chunks::<n>().0\<close>: the full chunks, without the remainder\<close>

definition as_chunks :: "nat \<Rightarrow> 'a list \<Rightarrow> 'a list list" where
  "as_chunks n xs = map (\<lambda>i. take n (drop (n * i) xs)) [0..<length xs div n]"

lemma length_as_chunks [simp, len_simps]: "length (as_chunks n xs) = length xs div n"
  by (simp add: as_chunks_def)

lemma as_chunks_nth:
  "i < length xs div n \<Longrightarrow> as_chunks n xs ! i = take n (drop (n * i) xs)"
  by (simp add: as_chunks_def)

lemma as_chunks_end:
  assumes "i < length xs div n"
  shows "n * i + n \<le> length xs"
proof -
  have "n * Suc i \<le> n * (length xs div n)" using assms by (intro mult_le_mono2) simp
  also have "\<dots> \<le> length xs" by (rule times_div_less_eq_dividend)
  finally show ?thesis by simp
qed

lemma as_chunks_nth_length: "i < length xs div n \<Longrightarrow> length (as_chunks n xs ! i) = n"
  using as_chunks_end [of i xs n] by (simp add: as_chunks_nth)

lemma as_chunks_nth_nth:
  "i < length xs div n \<Longrightarrow> j < n \<Longrightarrow> as_chunks n xs ! i ! j = xs ! (n * i + j)"
  using as_chunks_end [of i xs n] by (simp add: as_chunks_nth)

section \<open>Little-endian encodings\<close>

text \<open>\<open>uN::from_le_bytes\<close> and \<open>uN::to_le_bytes\<close>: byte \<open>i\<close> holds bits \<open>8 i .. 8 i + 7\<close>.\<close>

fun from_le_bytes :: "u8 list \<Rightarrow> 'a::len word" where
  "from_le_bytes [] = 0"
| "from_le_bytes (b # bs) = ucast b OR push_bit 8 (from_le_bytes bs)"

definition to_le_bytes :: "nat \<Rightarrow> 'a::len word \<Rightarrow> u8 list" where
  "to_le_bytes n w = map (\<lambda>i. ucast (drop_bit (8 * i) w)) [0..<n]"

lemma length_to_le_bytes [simp, len_simps]: "length (to_le_bytes n w) = n"
  by (simp add: to_le_bytes_def)

lemma nth_to_le_bytes [simp]: "i < n \<Longrightarrow> to_le_bytes n w ! i = ucast (drop_bit (8 * i) w)"
  by (simp add: to_le_bytes_def)

lemma bit_from_le_bytes:
  "bit (from_le_bytes bs :: 'a::len word) k \<longleftrightarrow>
     k < LENGTH('a) \<and> k div 8 < length bs \<and> bit (bs ! (k div 8)) (k mod 8)"
proof (induction bs arbitrary: k)
  case Nil
  then show ?case by simp
next
  case (Cons b bs)
  show ?case
  proof (cases "k < 8")
    case True
    then show ?thesis by (auto simp: bit_or_iff bit_push_bit_iff bit_unsigned_iff)
  next
    case False
    then have d: "k div 8 = Suc ((k - 8) div 8)" and m: "k mod 8 = (k - 8) mod 8"
      by (simp_all add: le_div_geq le_mod_geq)
    have nb: "\<not> bit b k" using False by (auto dest: bit_imp_le_length)
    show ?thesis using Cons.IH [of "k - 8"] False nb
      by (auto simp: bit_or_iff bit_push_bit_iff bit_unsigned_iff d m)
  qed
qed

lemma from_to_le_bytes [simp]:
  assumes "LENGTH('a) \<le> 8 * n"
  shows "(from_le_bytes (to_le_bytes n w) :: 'a::len word) = w"
proof (rule bit_word_eqI)
  fix k assume k: "k < LENGTH('a)"
  then have "k div 8 < n" using assms by linarith
  moreover have "8 * (k div 8) + k mod 8 = k" by simp
  ultimately show "bit (from_le_bytes (to_le_bytes n w) :: 'a word) k = bit w k"
    using k by (simp add: bit_from_le_bytes bit_unsigned_iff bit_drop_bit_eq)
qed

lemma to_from_le_bytes [simp]:
  assumes "8 * length bs \<le> LENGTH('a)"
  shows "to_le_bytes (length bs) (from_le_bytes bs :: 'a::len word) = bs"
proof (rule nth_equalityI)
  show "length (to_le_bytes (length bs) (from_le_bytes bs :: 'a word)) = length bs" by simp
  fix i assume i: "i < length (to_le_bytes (length bs) (from_le_bytes bs :: 'a word))"
  show "to_le_bytes (length bs) (from_le_bytes bs :: 'a word) ! i = bs ! i"
  proof (rule bit_word_eqI)
    fix k assume k: "k < LENGTH(8)"
    have "8 * i + k < 8 * length bs" using i k by simp
    then show "bit (to_le_bytes (length bs) (from_le_bytes bs :: 'a word) ! i) k = bit (bs ! i) k"
      using i k assms by (simp add: bit_from_le_bytes bit_unsigned_iff bit_drop_bit_eq)
  qed
qed

section \<open>Words as natural numbers\<close>

lemma unat_less_length: "unat (a :: 'a::len word) < 2 ^ LENGTH('a)"
  by (rule unsigned_less)

lemma unat_ucast_up:
  fixes a :: "'a::len word"
  assumes "LENGTH('a) \<le> LENGTH('b::len)"
  shows "unat (ucast a :: 'b word) = unat a"
proof -
  have "unat a < 2 ^ LENGTH('b)"
    using unat_less_length [of a] assms by (meson less_le_trans one_le_numeral power_increasing)
  then show ?thesis by (simp add: unsigned_ucast_eq take_bit_nat_eq_self)
qed

lemma unat_add_no_overflow:
  fixes a b :: "'a::len word"
  shows "unat a + unat b < 2 ^ LENGTH('a) \<Longrightarrow> unat (a + b) = unat a + unat b"
  by (simp add: unat_word_ariths)

lemma unat_sub_no_underflow:
  fixes a b :: "'a::len word"
  shows "b \<le> a \<Longrightarrow> unat (a - b) = unat a - unat b"
  by (rule unat_sub)

text \<open>\<open>a.div_ceil(b)\<close>; division by zero panics in the callers.\<close>

definition div_ceil :: "'a::len word \<Rightarrow> 'a word \<Rightarrow> 'a word" where
  "div_ceil a b = (if a mod b = 0 then a div b else a div b + 1)"

lemma div_round_up_nat:
  fixes m n :: nat
  assumes "0 < n"
  shows "(m + n - 1) div n = (if m mod n = 0 then m div n else m div n + 1)"
proof -
  define q r where "q = m div n" and "r = m mod n"
  have m: "m = n * q + r" and r: "r < n" using assms by (simp_all add: q_def r_def)
  have "(n * q + r + n - 1) div n = (if r = 0 then q else q + 1)"
    using r by (intro div_nat_eqI) auto
  then show ?thesis by (simp add: m [symmetric] q_def [symmetric] r_def [symmetric])
qed

lemma unat_div_ceil:
  fixes a b :: "'a::len word"
  assumes "b \<noteq> 0"
  shows "unat (div_ceil a b) = (unat a + unat b - 1) div unat b"
proof -
  have b: "0 < unat b" using assms by (simp add: unat_gt_0)
  have z: "(a mod b = 0) = (unat a mod unat b = 0)"
    by (metis unat_0_iff unat_mod)
  have "unat (a div b + 1) = unat a div unat b + 1" if "unat a mod unat b \<noteq> 0"
  proof -
    have "unat a div unat b \<noteq> unat a" using that b
      by (metis div_less_dividend less_irrefl mod_0 mod_by_1 nat_neq_iff less_one not_gr0)
    then have "unat a div unat b + 1 < 2 ^ LENGTH('a)"
      using unat_less_length [of a] div_le_dividend [of "unat a" "unat b"] by linarith
    then show ?thesis by (simp add: unat_word_ariths unat_div)
  qed
  then show ?thesis using z div_round_up_nat [OF b, of "unat a"] by (simp add: div_ceil_def unat_div)
qed

section \<open>Bits and bounds\<close>

lemma high_bits_zero:
  fixes x :: "'a::len word"
  assumes "unat x < 2 ^ n" and "n \<le> m"
  shows "\<not> bit x m"
proof
  assume b: "bit x m"
  have "(2::nat) ^ n \<le> 2 ^ m" using assms(2) by simp
  with assms(1) have "unat x < 2 ^ m" by (rule less_le_trans)
  then have "unat x div 2 ^ m = 0" by (rule div_less)
  then have "unat (drop_bit m x) = 0"
    using unat_drop_bit_eq [of m x] by (simp only: drop_bit_eq_div [where 'a = nat])
  then have "drop_bit m x = 0" by (simp only: unat_0_iff)
  then show False using b by (simp add: bit_iff_odd_drop_bit)
qed

lemma bit_less: "unat x < 2 ^ n \<Longrightarrow> bit x m \<Longrightarrow> m < n"
  using high_bits_zero by (meson not_le_imp_less)

text \<open>Words that occupy disjoint bits are added by \<open>OR\<close>.\<close>

lemma or_eq_add:
  fixes a b :: "'a::len word"
  assumes "unat b < 2 ^ n"
  shows "push_bit n a OR b = push_bit n a + b"
proof (rule disjunctive_add [symmetric])
  fix k
  show "\<not> bit (push_bit n a) k \<or> \<not> bit b k"
    using bit_less [OF assms, of k] by (auto simp: bit_push_bit_iff)
qed

lemma unat_and_mask:
  fixes a :: "'a::len word"
  shows "unat (a AND mask n) = unat a mod 2 ^ n"
  by (simp only: take_bit_eq_mask [symmetric] unsigned_take_bit_eq) (simp only: take_bit_eq_mod)

end
