(* ===== verification/Block_Device.thy ===== *)
theory Block_Device
  imports Exfat_Prelude
begin

text \<open>
  The error values of the library (\<open>error.rs\<close> and the error enums of \<open>boot_sector.rs\<close> and
  \<open>directory_entry.rs\<close>) and the block device it is generic over (\<open>block_device.rs\<close>).

  A device is supplied by the user of the library, so it is a parameter of the model: the record
  \<open>platform\<close> holds the two operations of the \<open>BlockDevice\<close> trait the library calls, with the
  const generic \<open>SIZE\<close> and the width of \<open>usize\<close> on the target. What the trait documents of the
  operations is the locale \<open>block_device\<close>; \<open>reliable_device\<close> adds that requests within the
  capacity succeed. Both are interpreted on \<open>DummyBlockDevice\<close> of \<open>test_utils.rs\<close>.
\<close>

section \<open>Errors\<close>

text \<open>\<open>boot_sector::Error\<close>\<close>

datatype boot_sector_error =
    InvalidJumpBoot
  | InvalidFileSystemName
  | InvalidBootSignature
  | InvalidBytesPerSectorShift u8
  | InvalidSectorsPerClusterShift u8

text \<open>\<open>directory_entry::Error\<close>\<close>

datatype directory_entry_error = DirEntryInvalidUtf16String string

text \<open>\<open>ExFatError<E>\<close>\<close>

datatype 'e exfat_error =
    Io 'e
  | DirectoryEntry directory_entry_error
  | NotExFat boot_sector_error
  | EndOfFatChain
  | InvalidUtf16String string
  | InvalidFileName string
  | InvalidFileSystem string
  | FileNotFound
  | DirectoryNotFound
  | Utf8Error
  | DiskFull
  | InvalidClusterId u32
  | InvalidSectorId u32
  | DirectoryNotEmpty
  | WriteNotEnabled
  | ReadNotEnabled
  | AlreadyExists
  | SeekOutOfRange
  | InvalidAllocation u32 nat bool bool
  | InvalidOptions
  | Unexpected string
  | FileNameBufferTooSmall
  | DirectoryFull

section \<open>The device interface\<close>

type_synonym block = "u8 list"

text \<open>
  \<open>bd_read d s b\<close> is \<open>d.read(s, &mut [b])\<close>: the outcome, the buffer afterwards (on a failure the
  device may have overwritten part of it) and the device afterwards.  The library always
  transfers one block.
\<close>

record ('d, 'e) platform =
  SIZE :: nat
  usize_bits :: nat
  bd_read :: "'d \<Rightarrow> u32 \<Rightarrow> block \<Rightarrow> (unit, 'e) outcome \<times> block \<times> 'd"
  bd_write :: "'d \<Rightarrow> u32 \<Rightarrow> block \<Rightarrow> (unit, 'e) outcome \<times> 'd"

text \<open>The cast \<open>x as usize\<close> of a 64-bit value truncates to the width of the target.\<close>

definition as_usize :: "('d, 'e) platform \<Rightarrow> u64 \<Rightarrow> nat" where
  "as_usize P x = unat x mod 2 ^ usize_bits P"

lemma as_usize_id: "unat x < 2 ^ usize_bits P \<Longrightarrow> as_usize P x = unat x"
  by (simp add: as_usize_def)

text \<open>\<open>.map_err(ExFatError::Io)\<close>\<close>

fun map_err_io :: "('a, 'e) outcome \<Rightarrow> ('a, 'e exfat_error) outcome" where
  "map_err_io (Ok a) = Ok a"
| "map_err_io (Err e) = Err (Io e)"
| "map_err_io Panic = Panic"
| "map_err_io OutOfFuel = OutOfFuel"

lemma map_err_io_Ok [simp]: "map_err_io r = Ok a \<longleftrightarrow> r = Ok a"
  by (cases r) auto

text \<open>\<open>io.write(sector_id, &[block])\<close> on a device held by value\<close>

definition io_write :: "('d, 'e) platform \<Rightarrow> u32 \<Rightarrow> block \<Rightarrow> ('d, unit, 'e exfat_error) op" where
  "io_write P sector_id b d = (case bd_write P d sector_id b of (r, d') \<Rightarrow> (map_err_io r, d'))"

text \<open>\<open>let mut block = [0; SIZE]; io.read(sector_id, &mut block)?\<close>\<close>

definition io_read :: "('d, 'e) platform \<Rightarrow> u32 \<Rightarrow> ('d, block, 'e exfat_error) op" where
  "io_read P sector_id d = (case bd_read P d sector_id (replicate (SIZE P) 0) of
     (Ok _, b, d') \<Rightarrow> (Ok b, d')
   | (Err e, _, d') \<Rightarrow> (Err (Io e), d')
   | (Panic, _, d') \<Rightarrow> (Panic, d')
   | (OutOfFuel, _, d') \<Rightarrow> (OutOfFuel, d'))"

text \<open>
  What the trait promises. \<open>sector d s\<close> is the content of sector \<open>s\<close> of the device. A successful
  read returns it; no read changes the medium; a successful write replaces that one sector; a
  failed write leaves every other sector alone.
\<close>

locale block_device =
  fixes P :: "('d, 'e) platform"
    and sector :: "'d \<Rightarrow> u32 \<Rightarrow> block"
    and capacity :: "'d \<Rightarrow> nat"
    and dev_ok :: "'d \<Rightarrow> bool"
  assumes sector_length: "dev_ok d \<Longrightarrow> length (sector d s) = SIZE P"
    and read_frame: "dev_ok d \<Longrightarrow> bd_read P d s b = (r, b', d') \<Longrightarrow>
      dev_ok d' \<and> capacity d' = capacity d \<and> sector d' = sector d \<and> length b' = length b"
    and read_data: "dev_ok d \<Longrightarrow> bd_read P d s b = (Ok (), b', d') \<Longrightarrow> b' = sector d s"
    and write_frame: "dev_ok d \<Longrightarrow> length b = SIZE P \<Longrightarrow> bd_write P d s b = (r, d') \<Longrightarrow>
      dev_ok d' \<and> capacity d' = capacity d \<and> (\<forall>t. t \<noteq> s \<longrightarrow> sector d' t = sector d t)"
    and write_data: "dev_ok d \<Longrightarrow> length b = SIZE P \<Longrightarrow> bd_write P d s b = (Ok (), d') \<Longrightarrow>
      sector d' s = b"
begin

lemma write_sector:
  "dev_ok d \<Longrightarrow> length b = SIZE P \<Longrightarrow> bd_write P d s b = (Ok (), d') \<Longrightarrow>
   sector d' = (sector d)(s := b)"
  using write_frame [of d b s "Ok ()" d'] write_data [of d b s d'] by (auto simp: fun_eq_iff)

end

text \<open>A device that serves every request within its capacity.\<close>

locale reliable_device = block_device P sector capacity dev_ok
  for P :: "('d, 'e) platform" and sector and capacity :: "'d \<Rightarrow> nat" and dev_ok +
  assumes read_total: "dev_ok d \<Longrightarrow> unat s < capacity d \<Longrightarrow> length b = SIZE P \<Longrightarrow>
      fst (bd_read P d s b) = Ok ()"
    and write_total: "dev_ok d \<Longrightarrow> unat s < capacity d \<Longrightarrow> length b = SIZE P \<Longrightarrow>
      fst (bd_write P d s b) = Ok ()"
begin

lemma read_returns:
  assumes "dev_ok d" "unat s < capacity d" "length b = SIZE P"
  obtains d' where "bd_read P d s b = (Ok (), sector d s, d')" "dev_ok d'"
    "capacity d' = capacity d" "sector d' = sector d"
proof -
  obtain r b' d' where r: "bd_read P d s b = (r, b', d')" by (cases "bd_read P d s b") auto
  with read_total [OF assms] have "r = Ok ()" by simp
  with r that read_frame [OF assms(1)] read_data [OF assms(1)] show thesis by blast
qed

lemma write_returns:
  assumes "dev_ok d" "unat s < capacity d" "length b = SIZE P"
  obtains d' where "bd_write P d s b = (Ok (), d')" "dev_ok d'"
    "capacity d' = capacity d" "sector d' = (sector d)(s := b)"
proof -
  obtain r d' where r: "bd_write P d s b = (r, d')" by (cases "bd_write P d s b") auto
  with write_total [OF assms] have "r = Ok ()" by simp
  with r that write_frame [OF assms(1,3)] write_sector [OF assms(1,3)] show thesis by blast
qed

end

context reliable_device
begin

lemma io_read_returns:
  assumes "dev_ok d" "unat s < capacity d"
  obtains d' where "io_read P s d = (Ok (sector d s), d')" "dev_ok d'"
    "capacity d' = capacity d" "sector d' = sector d"
proof -
  obtain d' where "bd_read P d s (replicate (SIZE P) 0) = (Ok (), sector d s, d')" "dev_ok d'"
    "capacity d' = capacity d" "sector d' = sector d"
    using read_returns [OF assms, of "replicate (SIZE P) 0"] by auto
  then show thesis using that by (simp add: io_read_def)
qed

lemma io_write_returns:
  assumes "dev_ok d" "unat s < capacity d" "length b = SIZE P"
  obtains d' where "io_write P s b d = (Ok (), d')" "dev_ok d'"
    "capacity d' = capacity d" "sector d' = (sector d)(s := b)"
proof -
  obtain d' where "bd_write P d s b = (Ok (), d')" "dev_ok d'"
    "capacity d' = capacity d" "sector d' = (sector d)(s := b)"
    using write_returns [OF assms] by blast
  then show thesis using that by (simp add: io_write_def)
qed

end

section \<open>\<open>DummyBlockDevice\<close>\<close>

text \<open>
  The in-memory device of the test suite: a vector of blocks and a counter of writes. An address
  past the end of the vector panics. \<open>BLOCK_SIZE\<close> is 512 there; the model keeps it a parameter.
\<close>

record dummy_device =
  blocks :: "block list"
  write_count :: nat

definition dummy_new :: "nat \<Rightarrow> nat \<Rightarrow> dummy_device" where
  "dummy_new block_size count = \<lparr>blocks = replicate count (replicate block_size 0), write_count = 0\<rparr>"

definition dummy_read :: "dummy_device \<Rightarrow> u32 \<Rightarrow> block \<Rightarrow> (unit, unit) outcome \<times> block \<times> dummy_device" where
  "dummy_read d block_address data =
     (if unat block_address < length (blocks d) \<and> length (blocks d ! unat block_address) = length data
      then (Ok (), blocks d ! unat block_address, d)
      else (Panic, data, d))"

definition dummy_write :: "dummy_device \<Rightarrow> u32 \<Rightarrow> block \<Rightarrow> (unit, unit) outcome \<times> dummy_device" where
  "dummy_write d block_address data =
     (if unat block_address < length (blocks d) \<and> length (blocks d ! unat block_address) = length data
      then (Ok (), d\<lparr>blocks := (blocks d)[unat block_address := data], write_count := Suc (write_count d)\<rparr>)
      else (Panic, d))"

definition dummy_platform :: "nat \<Rightarrow> nat \<Rightarrow> (dummy_device, unit) platform" where
  "dummy_platform block_size bits =
     \<lparr>SIZE = block_size, usize_bits = bits, bd_read = dummy_read, bd_write = dummy_write\<rparr>"

lemma dummy_platform_simps [simp]:
  "SIZE (dummy_platform n bits) = n" "usize_bits (dummy_platform n bits) = bits"
  "bd_read (dummy_platform n bits) = dummy_read" "bd_write (dummy_platform n bits) = dummy_write"
  by (simp_all add: dummy_platform_def)

definition dummy_sector :: "nat \<Rightarrow> dummy_device \<Rightarrow> u32 \<Rightarrow> block" where
  "dummy_sector n d s = (if unat s < length (blocks d) then blocks d ! unat s else replicate n 0)"

definition dummy_capacity :: "dummy_device \<Rightarrow> nat" where
  "dummy_capacity d = length (blocks d)"

definition dummy_ok :: "nat \<Rightarrow> dummy_device \<Rightarrow> bool" where
  "dummy_ok n d = list_all (\<lambda>b. length b = n) (blocks d)"

lemma dummy_ok_new [simp]: "dummy_ok n (dummy_new n count)"
  by (simp add: dummy_ok_def dummy_new_def list_all_length)

lemma dummy_okD: "dummy_ok n d \<Longrightarrow> i < length (blocks d) \<Longrightarrow> length (blocks d ! i) = n"
  by (simp add: dummy_ok_def list_all_length)

interpretation dummy: reliable_device "dummy_platform n bits" "dummy_sector n" dummy_capacity "dummy_ok n"
  for n bits
proof (unfold_locales, goal_cases)
  case (1 d s)
  then show ?case by (simp add: dummy_sector_def dummy_okD)
next
  case (2 d s b r b' d')
  then show ?case by (auto simp: dummy_read_def split: if_splits)
next
  case (3 d s b b' d')
  then show ?case by (auto simp: dummy_read_def dummy_sector_def split: if_splits)
next
  case (4 d b s r d')
  then show ?case
    by (auto simp: dummy_write_def dummy_sector_def dummy_ok_def dummy_capacity_def list_all_length
        nth_list_update word_unat_eq_iff split: if_splits)
next
  case (5 d b s d')
  then show ?case by (auto simp: dummy_write_def dummy_sector_def split: if_splits)
next
  case (6 d s b)
  then show ?case by (simp add: dummy_read_def dummy_capacity_def dummy_okD)
next
  case (7 d s b)
  then show ?case by (simp add: dummy_write_def dummy_capacity_def dummy_okD)
qed

end
