(* ===== verification/Slot_Cache.thy ===== *)
theory Slot_Cache
  imports Block_Device
begin

text \<open>
  The sector cache of \<open>slot_cache.rs\<close>: a fixed array of slots replaced by the clock algorithm,
  written back on eviction and on flush. Three instances of it sit between the library and the
  device (\<open>Fat::cache\<close>, \<open>Allocator::cache\<close>, \<open>FileSystem::data_blocks\<close>).

  An operation runs on the pair of the cache and the device. A returned \<open>&mut Slot\<close> is the index
  of the slot. The abstraction \<open>cview\<close> is the content of the medium as seen through the cache;
  the lemmas show that reads return it, that a write through a slot changes it at that sector
  only, that evictions do not change it, and that a flush makes the medium equal to it.
\<close>

section \<open>Model\<close>

subsection \<open>\<open>Slot\<close> and \<open>SlotCache\<close>\<close>

record slot =
  sector_id :: u32
  is_dirty :: bool
  is_used :: bool
  is_valid :: bool
  slot_blocks :: block

record slot_cache =
  cache :: "slot list"
  hand :: nat

definition slot_new :: "nat \<Rightarrow> slot" where
  "slot_new sz = \<lparr>sector_id = 0, is_dirty = False, is_used = False, is_valid = False,
     slot_blocks = replicate sz 0\<rparr>"

definition slot_cache_new :: "nat \<Rightarrow> nat \<Rightarrow> slot_cache" where
  "slot_cache_new sz n = \<lparr>cache = replicate n (slot_new sz), hand = 0\<rparr>"

type_synonym ('d, 'e, 'a) cache_op = "(slot_cache \<times> 'd, 'a, 'e exfat_error) op"

text \<open>\<open>self.cache[i] = f(self.cache[i])\<close>\<close>

definition upd_slot :: "nat \<Rightarrow> (slot \<Rightarrow> slot) \<Rightarrow> slot_cache \<Rightarrow> slot_cache" where
  "upd_slot i f c = c\<lparr>cache := (cache c)[i := f (cache c ! i)]\<rparr>"

subsection \<open>Flushing\<close>

definition slot_flush :: "('d, 'e) platform \<Rightarrow> (slot \<times> 'd, unit, 'e exfat_error) op" where
  "slot_flush P = (\<lambda>(slot, d).
     if is_dirty slot then
       (case bd_write P d (sector_id slot) (slot_blocks slot) of
          (Ok _, d') \<Rightarrow> (Ok (), slot\<lparr>is_dirty := False\<rparr>, d')
        | (r, d') \<Rightarrow> (map_err_io r, slot, d'))
     else (Ok (), slot, d))"

fun flush_slots :: "('d, 'e) platform \<Rightarrow> (slot list \<times> 'd, unit, 'e exfat_error) op" where
  "flush_slots P ([], d) = (Ok (), [], d)"
| "flush_slots P (slot # slots, d) = (case slot_flush P (slot, d) of
     (Ok _, slot', d') \<Rightarrow> (case flush_slots P (slots, d') of (r, slots', d'') \<Rightarrow> (r, slot' # slots', d''))
   | (r, slot', d') \<Rightarrow> (r, slot' # slots, d'))"

definition cache_flush :: "('d, 'e) platform \<Rightarrow> ('d, 'e, unit) cache_op" where
  "cache_flush P = (\<lambda>(c, d). case flush_slots P (cache c, d) of
     (r, slots, d') \<Rightarrow> (r, c\<lparr>cache := slots\<rparr>, d'))"

text \<open>The loop of \<open>flush_sector\<close> stops at the first slot with that sector id.\<close>

fun flush_sector_slots :: "('d, 'e) platform \<Rightarrow> u32 \<Rightarrow> (slot list \<times> 'd, unit, 'e exfat_error) op" where
  "flush_sector_slots P sec ([], d) = (Ok (), [], d)"
| "flush_sector_slots P sec (slot # slots, d) =
     (if sector_id slot = sec
      then (case slot_flush P (slot, d) of (r, slot', d') \<Rightarrow> (r, slot' # slots, d'))
      else (case flush_sector_slots P sec (slots, d) of (r, slots', d') \<Rightarrow> (r, slot # slots', d')))"

definition cache_flush_sector :: "('d, 'e) platform \<Rightarrow> u32 \<Rightarrow> ('d, 'e, unit) cache_op" where
  "cache_flush_sector P sec = (\<lambda>(c, d). case flush_sector_slots P sec (cache c, d) of
     (r, slots, d') \<Rightarrow> (r, c\<lparr>cache := slots\<rparr>, d'))"

subsection \<open>Lookup\<close>

text \<open>
  \<open>self.hand += 1; if self.hand == N { self.hand = 0 }\<close>
\<close>

definition advance :: "slot_cache \<Rightarrow> slot_cache" where
  "advance c = c\<lparr>hand := if Suc (hand c) = length (cache c) then 0 else Suc (hand c)\<rparr>"

text \<open>
  The loop of \<open>cache_hit\<close> runs over the slots of \<open>right\<close> and then of \<open>left\<close>; the list holds their
  positions in the array.
\<close>

fun cache_hit_loop :: "nat list \<Rightarrow> u32 \<Rightarrow> slot_cache \<Rightarrow> nat option \<times> slot_cache" where
  "cache_hit_loop [] sec c = (None, c)"
| "cache_hit_loop (i # is) sec c =
     (if sector_id (cache c ! i) = sec \<and> is_valid (cache c ! i)
      then (Some (hand c), upd_slot i (\<lambda>slot. slot\<lparr>is_used := True\<rparr>) c)
      else cache_hit_loop is sec (advance c))"

definition cache_hit :: "u32 \<Rightarrow> slot_cache \<Rightarrow> nat option \<times> slot_cache" where
  "cache_hit sec c = cache_hit_loop ([hand c..<length (cache c)] @ [0..<hand c]) sec c"

subsection \<open>Eviction\<close>

definition write_back :: "('d, 'e) platform \<Rightarrow> (slot \<times> 'd, unit, 'e exfat_error) op" where
  "write_back P = (\<lambda>(slot, d).
     case bd_write P d (sector_id slot) (slot_blocks slot) of
       (Ok _, d') \<Rightarrow> (Ok (), slot\<lparr>is_dirty := False\<rparr>, d')
     | (r, d') \<Rightarrow> (map_err_io r, slot, d'))"

text \<open>
  Each turn of the loop either returns or clears one use mark, so the number of marked slots
  decreases. \<open>self.cache[i]\<close> panics when the hand is out of range (that is, when \<open>N = 0\<close>).
\<close>

definition used_slots :: "slot_cache \<Rightarrow> nat" where
  "used_slots c = length (filter is_used (cache c))"

lemma length_filter_list_update:
  "i < length xs \<Longrightarrow> p (xs ! i) \<Longrightarrow> \<not> p y \<Longrightarrow>
   length (filter p (xs[i := y])) < length (filter p xs)"
  by (induction xs arbitrary: i) (auto split: nat.splits simp: nth_Cons')

lemma used_slots_clear:
  assumes "hand c < length (cache c)" and "is_used (cache c ! hand c)"
  shows "used_slots (upd_slot (hand c) (\<lambda>slot. slot\<lparr>is_used := False\<rparr>) (advance c)) < used_slots c"
  using assms length_filter_list_update [of "hand c" "cache c" is_used]
  by (simp add: used_slots_def upd_slot_def advance_def)

function choose_victim :: "('d, 'e) platform \<Rightarrow> slot_cache \<times> 'd \<Rightarrow>
    (nat, 'e exfat_error) outcome \<times> slot_cache \<times> 'd" where
  "choose_victim P (c, d) =
     (let i = hand c; c1 = advance c in
      if i < length (cache c) then
        let slot = cache c ! i in
        if \<not> is_valid slot then (Ok i, c1, d)
        else if is_used slot then
          choose_victim P (upd_slot i (\<lambda>slot. slot\<lparr>is_used := False\<rparr>) c1, d)
        else if is_dirty slot then
          (case write_back P (slot, d) of
             (Ok _, slot', d') \<Rightarrow> (Ok i, upd_slot i (\<lambda>_. slot'\<lparr>is_dirty := False\<rparr>) c1, d')
           | (Err e, slot', d') \<Rightarrow> (Err e, upd_slot i (\<lambda>_. slot') c1, d')
           | (Panic, slot', d') \<Rightarrow> (Panic, upd_slot i (\<lambda>_. slot') c1, d')
           | (OutOfFuel, slot', d') \<Rightarrow> (OutOfFuel, upd_slot i (\<lambda>_. slot') c1, d'))
        else (Ok i, c1, d)
      else (Panic, c1, d))"
  by pat_completeness auto
termination
  by (relation "measure (\<lambda>(P, c, d). used_slots c)") (auto simp: used_slots_clear)

declare choose_victim.simps [simp del]

subsection \<open>Reading and writing\<close>

definition read_inner :: "('d, 'e) platform \<Rightarrow> u32 \<Rightarrow> ('d, 'e, nat) cache_op" where
  "read_inner P sec = (\<lambda>(c, d). case cache_hit sec c of
     (Some index, c1) \<Rightarrow> (Ok index, c1, d)
   | (None, c1) \<Rightarrow>
       andthen (choose_victim P) (\<lambda>index (c2, d2).
         case bd_read P d2 sec (slot_blocks (cache c2 ! index)) of
           (Ok _, data, d3) \<Rightarrow>
             (Ok index, upd_slot index (\<lambda>slot. slot\<lparr>slot_blocks := data, sector_id := sec,
                is_valid := True, is_used := True\<rparr>) c2, d3)
         | (r, data, d3) \<Rightarrow>
             (map_err_io (map_outcome (\<lambda>_. 0) id r),
              upd_slot index (\<lambda>slot. slot\<lparr>slot_blocks := data\<rparr>) c2, d3)) (c1, d))"

definition read_mut :: "('d, 'e) platform \<Rightarrow> u32 \<Rightarrow> ('d, 'e, nat) cache_op" where
  "read_mut P sec = read_inner P sec"

definition cache_read :: "('d, 'e) platform \<Rightarrow> u32 \<Rightarrow> ('d, 'e, nat) cache_op" where
  "cache_read P sec = andthen (read_inner P sec) ret"

text \<open>\<open>write\<close> puts a whole block on the medium at once.\<close>

definition cache_write :: "('d, 'e) platform \<Rightarrow> u32 \<Rightarrow> block \<Rightarrow> ('d, 'e, unit) cache_op" where
  "cache_write P sec b = (\<lambda>(c, d).
     let c' = (case cache_hit sec c of
         (Some index, c1) \<Rightarrow> upd_slot index (\<lambda>slot. slot\<lparr>slot_blocks := b, is_dirty := False\<rparr>) c1
       | (None, c1) \<Rightarrow> c1)
     in case bd_write P d sec b of (r, d') \<Rightarrow> (map_err_io r, c', d'))"

text \<open>
  What the clients do with a slot they were handed: \<open>slot.as_slice()\<close> reads its bytes;
  \<open>slot.as_mut_slice()\<close> marks it dirty and lets the client overwrite bytes (\<open>None\<close> is a panic of
  the overwriting code).
\<close>

definition as_slice :: "nat \<Rightarrow> ('d, 'e, block) cache_op" where
  "as_slice i = (\<lambda>(c, d). (Ok (slot_blocks (cache c ! i)), c, d))"

definition as_mut_slice :: "nat \<Rightarrow> (block \<Rightarrow> block option) \<Rightarrow> ('d, 'e, unit) cache_op" where
  "as_mut_slice i f = (\<lambda>(c, d).
     let c1 = upd_slot i (\<lambda>slot. slot\<lparr>is_dirty := True\<rparr>) c
     in case f (slot_blocks (cache c1 ! i)) of
          None \<Rightarrow> (Panic, c1, d)
        | Some b \<Rightarrow> (Ok (), upd_slot i (\<lambda>slot. slot\<lparr>slot_blocks := b\<rparr>) c1, d))"

text \<open>\<open>cache.read(sector_id, io)?.as_slice()\<close>\<close>

definition read_sector :: "('d, 'e) platform \<Rightarrow> u32 \<Rightarrow> ('d, 'e, block) cache_op" where
  "read_sector P sec = andthen (cache_read P sec) as_slice"

text \<open>\<open>f(cache.read_mut(sector_id, io)?.as_mut_slice())\<close>\<close>

definition update_sector ::
    "('d, 'e) platform \<Rightarrow> u32 \<Rightarrow> (block \<Rightarrow> block option) \<Rightarrow> ('d, 'e, unit) cache_op" where
  "update_sector P sec f = andthen (read_mut P sec) (\<lambda>i. as_mut_slice i f)"

section \<open>Invariant and abstraction\<close>

definition holds :: "slot_cache \<Rightarrow> u32 \<Rightarrow> nat \<Rightarrow> bool" where
  "holds c sec i \<longleftrightarrow> i < length (cache c) \<and> is_valid (cache c ! i) \<and> sector_id (cache c ! i) = sec"

text \<open>
  The invariant: the hand is in range and every slot below it has been filled; filled slots form a
  prefix of the array; no sector is held twice; a clean filled slot agrees with the medium; an
  unfilled slot is clean.
\<close>

definition cache_inv :: "nat \<Rightarrow> ('d \<Rightarrow> u32 \<Rightarrow> block) \<Rightarrow> ('d \<Rightarrow> bool) \<Rightarrow> slot_cache \<times> 'd \<Rightarrow> bool" where
  "cache_inv sz sector dev_ok = (\<lambda>(c, d).
     dev_ok d \<and> hand c < length (cache c) \<and>
     (\<forall>i < length (cache c). length (slot_blocks (cache c ! i)) = sz) \<and>
     (\<forall>i sec j. holds c sec i \<longrightarrow> holds c sec j \<longrightarrow> i = j) \<and>
     (\<forall>i sec. holds c sec i \<longrightarrow> \<not> is_dirty (cache c ! i) \<longrightarrow> slot_blocks (cache c ! i) = sector d sec) \<and>
     (\<forall>i < length (cache c). \<not> is_valid (cache c ! i) \<longrightarrow> \<not> is_dirty (cache c ! i)) \<and>
     (\<forall>i < length (cache c). is_valid (cache c ! i) \<longrightarrow> (\<forall>j < i. is_valid (cache c ! j))) \<and>
     (\<forall>i < hand c. is_valid (cache c ! i)))"

text \<open>The content of sector \<open>sec\<close> as the client sees it.\<close>

definition cview :: "('d \<Rightarrow> u32 \<Rightarrow> block) \<Rightarrow> slot_cache \<times> 'd \<Rightarrow> u32 \<Rightarrow> block" where
  "cview sector = (\<lambda>(c, d) sec.
     case find (\<lambda>slot. is_valid slot \<and> sector_id slot = sec) (cache c) of
       Some slot \<Rightarrow> slot_blocks slot
     | None \<Rightarrow> sector d sec)"

subsection \<open>Elementary facts\<close>

lemma upd_slot_simps [simp]:
  "hand (upd_slot i f c) = hand c"
  "length (cache (upd_slot i f c)) = length (cache c)"
  "i < length (cache c) \<Longrightarrow> cache (upd_slot i f c) ! j = (if i = j then f (cache c ! i) else cache c ! j)"
  by (simp_all add: upd_slot_def)

lemma advance_simps [simp]:
  "cache (advance c) = cache c"
  "hand c < length (cache c) \<Longrightarrow> hand (advance c) = Suc (hand c) mod length (cache c)"
  by (auto simp: advance_def)

lemma holdsD:
  assumes "holds c sec i"
  shows "i < length (cache c)" "is_valid (cache c ! i)" "sector_id (cache c ! i) = sec"
  using assms by (simp_all add: holds_def)

lemma cache_invI:
  assumes "dev_ok d" and "hand c < length (cache c)"
    and "\<And>i. i < length (cache c) \<Longrightarrow> length (slot_blocks (cache c ! i)) = sz"
    and "\<And>i sec j. holds c sec i \<Longrightarrow> holds c sec j \<Longrightarrow> i = j"
    and "\<And>i sec. holds c sec i \<Longrightarrow> \<not> is_dirty (cache c ! i) \<Longrightarrow> slot_blocks (cache c ! i) = sector d sec"
    and "\<And>i. i < length (cache c) \<Longrightarrow> \<not> is_valid (cache c ! i) \<Longrightarrow> \<not> is_dirty (cache c ! i)"
    and "\<And>i j. i < length (cache c) \<Longrightarrow> is_valid (cache c ! i) \<Longrightarrow> j < i \<Longrightarrow> is_valid (cache c ! j)"
    and "\<And>i. i < hand c \<Longrightarrow> is_valid (cache c ! i)"
  shows "cache_inv sz sector dev_ok (c, d)"
  unfolding cache_inv_def prod.case using assms by (intro conjI allI impI) assumption+

lemma cache_invD:
  assumes "cache_inv sz sector dev_ok (c, d)"
  shows "dev_ok d" and "hand c < length (cache c)"
    and "i < length (cache c) \<Longrightarrow> length (slot_blocks (cache c ! i)) = sz"
    and "holds c sec i \<Longrightarrow> holds c sec j \<Longrightarrow> i = j"
    and "holds c sec i \<Longrightarrow> \<not> is_dirty (cache c ! i) \<Longrightarrow> slot_blocks (cache c ! i) = sector d sec"
    and "i < length (cache c) \<Longrightarrow> \<not> is_valid (cache c ! i) \<Longrightarrow> \<not> is_dirty (cache c ! i)"
    and "i < length (cache c) \<Longrightarrow> is_valid (cache c ! i) \<Longrightarrow> j < i \<Longrightarrow> is_valid (cache c ! j)"
    and "i < hand c \<Longrightarrow> is_valid (cache c ! i)"
proof -
  note a = assms [unfolded cache_inv_def prod.case]
  note a2 = a [THEN conjunct2] note a3 = a2 [THEN conjunct2] note a4 = a3 [THEN conjunct2]
  note a5 = a4 [THEN conjunct2] note a6 = a5 [THEN conjunct2] note a7 = a6 [THEN conjunct2]
  show "dev_ok d" by (rule a [THEN conjunct1])
  show "hand c < length (cache c)" by (rule a2 [THEN conjunct1])
  show "i < length (cache c) \<Longrightarrow> length (slot_blocks (cache c ! i)) = sz"
    using a3 [THEN conjunct1] by blast
  show "holds c sec i \<Longrightarrow> holds c sec j \<Longrightarrow> i = j" using a4 [THEN conjunct1] by blast
  show "holds c sec i \<Longrightarrow> \<not> is_dirty (cache c ! i) \<Longrightarrow> slot_blocks (cache c ! i) = sector d sec"
    using a5 [THEN conjunct1] by blast
  show "i < length (cache c) \<Longrightarrow> \<not> is_valid (cache c ! i) \<Longrightarrow> \<not> is_dirty (cache c ! i)"
    using a6 [THEN conjunct1] by blast
  show "i < length (cache c) \<Longrightarrow> is_valid (cache c ! i) \<Longrightarrow> j < i \<Longrightarrow> is_valid (cache c ! j)"
    using a7 [THEN conjunct1] by blast
  show "i < hand c \<Longrightarrow> is_valid (cache c ! i)" using a7 [THEN conjunct2] by blast
qed

lemma cview_hit:
  assumes "cache_inv sz sector dev_ok (c, d)" and "holds c sec i"
  shows "cview sector (c, d) sec = slot_blocks (cache c ! i)"
proof (cases "find (\<lambda>slot. is_valid slot \<and> sector_id slot = sec) (cache c)")
  case None
  then show ?thesis using assms(2) by (auto simp: find_None_iff holds_def in_set_conv_nth)
next
  case (Some slot)
  then obtain j where "j < length (cache c)" "slot = cache c ! j" "holds c sec j"
    by (auto simp: find_Some_iff holds_def)
  then show ?thesis using cache_invD(4) [OF assms(1,2)] Some by (auto simp: cview_def)
qed

lemma cview_miss:
  assumes "\<And>i. \<not> holds c sec i"
  shows "cview sector (c, d) sec = sector d sec"
proof -
  have "find (\<lambda>slot. is_valid slot \<and> sector_id slot = sec) (cache c) = None"
    using assms by (auto simp: find_None_iff holds_def in_set_conv_nth)
  then show ?thesis by (simp add: cview_def)
qed

text \<open>Two caches with the same filled slots show the same medium.\<close>

lemma cview_cong:
  assumes "length (cache c') = length (cache c)"
    and "\<And>i. i < length (cache c) \<Longrightarrow> is_valid (cache c' ! i) = is_valid (cache c ! i) \<and>
      sector_id (cache c' ! i) = sector_id (cache c ! i) \<and> slot_blocks (cache c' ! i) = slot_blocks (cache c ! i)"
    and "cache_inv sz sector dev_ok (c, d)" and "cache_inv sz sector dev_ok (c', d')"
    and "\<And>s. (\<forall>i. \<not> holds c s i) \<Longrightarrow> sector d' s = sector d s"
  shows "cview sector (c', d') = cview sector (c, d)"
proof
  fix s
  show "cview sector (c', d') s = cview sector (c, d) s"
  proof (cases "\<exists>i. holds c s i")
    case True
    then obtain i where i: "holds c s i" ..
    with assms(1,2) have i': "holds c' s i" by (simp add: holds_def)
    show ?thesis using cview_hit [OF assms(3) i] cview_hit [OF assms(4) i'] assms(2) holdsD(1) [OF i]
      by simp
  next
    case False
    then have "\<not> (\<exists>i. holds c' s i)" using assms(1,2) by (auto simp: holds_def)
    with False assms(5) show ?thesis by (simp add: cview_miss)
  qed
qed

lemma holds_new [simp]: "\<not> holds (slot_cache_new sz n) sec i"
  by (auto simp: holds_def slot_cache_new_def slot_new_def)

lemma cache_inv_new:
  "0 < n \<Longrightarrow> dev_ok d \<Longrightarrow> cache_inv sz sector dev_ok (slot_cache_new sz n, d)"
  by (simp add: cache_inv_def) (auto simp: slot_cache_new_def slot_new_def)

lemma cview_new: "cview sector (slot_cache_new sz n, d) = sector d"
  by (rule ext, rule cview_miss) simp

subsection \<open>Lookup\<close>

lemma clock_order:
  assumes "h < n"
  shows "[h..<n] @ [0..<h] = map (\<lambda>j. (h + j) mod n) [0..<n]"
proof (rule nth_equalityI)
  show "length ([h..<n] @ [0..<h]) = length (map (\<lambda>j. (h + j) mod n) [0..<n])"
    using assms by simp
  fix i assume "i < length ([h..<n] @ [0..<h])"
  then have i: "i < n" using assms by simp
  show "([h..<n] @ [0..<h]) ! i = map (\<lambda>j. (h + j) mod n) [0..<n] ! i"
  proof (cases "h + i < n")
    case True
    then have "i < n - h" by arith
    then show ?thesis using True i by (simp add: nth_append)
  next
    case False
    then have "(h + i) mod n = h + i - n" using i assms by (simp add: mod_if)
    then show ?thesis using False i assms by (auto simp: nth_append)
  qed
qed

lemma clock_order_Suc:
  "map (\<lambda>j. (h + j) mod n) [0..<Suc k] = (h mod n) # map (\<lambda>j. (Suc h + j) mod n) [0..<k]"
  by (simp add: upt_conv_Cons map_Suc_upt [symmetric] del: upt_Suc)

lemma cache_hit_loop_None:
  assumes "cache_hit_loop (map (\<lambda>j. (h + j) mod length (cache c)) [0..<k]) sec c = (None, c')"
    and "hand c = h mod length (cache c)" and "cache c \<noteq> []"
  shows "c' = c\<lparr>hand := (h + k) mod length (cache c)\<rparr> \<and> (\<forall>j < k. \<not> holds c sec ((h + j) mod length (cache c)))"
  using assms
proof (induction k arbitrary: h c)
  case 0
  then show ?case by simp
next
  case (Suc k)
  let ?n = "length (cache c)"
  have h: "hand c < ?n" using Suc.prems(2,3) by simp
  have miss: "\<not> (sector_id (cache c ! (h mod ?n)) = sec \<and> is_valid (cache c ! (h mod ?n)))"
    using Suc.prems(1) by (auto simp: clock_order_Suc simp del: upt_Suc split: if_splits)
  have "cache_hit_loop (map (\<lambda>j. (Suc h + j) mod length (cache (advance c))) [0..<k]) sec (advance c) = (None, c')"
    using Suc.prems(1) miss by (simp add: clock_order_Suc del: upt_Suc)
  moreover have "hand (advance c) = Suc h mod length (cache (advance c))"
    using h Suc.prems(2) by (simp add: mod_Suc_eq)
  ultimately have IH: "c' = (advance c)\<lparr>hand := (Suc h + k) mod ?n\<rparr>"
      "\<forall>j < k. \<not> holds (advance c) sec ((Suc h + j) mod ?n)"
    using Suc.IH [of "Suc h" "advance c"] Suc.prems(3) by auto
  have "\<not> holds c sec ((h + j) mod ?n)" if "j < Suc k" for j
    using that miss IH(2) by (cases j) (auto simp: holds_def)
  moreover have "c' = c\<lparr>hand := (h + Suc k) mod ?n\<rparr>" using IH(1) by (simp add: advance_def)
  ultimately show ?case by blast
qed

lemma cache_hit_loop_Some:
  assumes "cache_hit_loop (map (\<lambda>j. (h + j) mod length (cache c)) [0..<k]) sec c = (Some i, c')"
    and "hand c = h mod length (cache c)" and "cache c \<noteq> []"
  shows "holds c sec i \<and> c' = (upd_slot i (\<lambda>slot. slot\<lparr>is_used := True\<rparr>) c)\<lparr>hand := i\<rparr>"
  using assms
proof (induction k arbitrary: h c)
  case 0
  then show ?case by simp
next
  case (Suc k)
  let ?n = "length (cache c)"
  have h: "hand c < ?n" using Suc.prems(2,3) by simp
  show ?case
  proof (cases "sector_id (cache c ! (h mod ?n)) = sec \<and> is_valid (cache c ! (h mod ?n))")
    case True
    then show ?thesis using Suc.prems h
      by (auto simp: clock_order_Suc holds_def upd_slot_def simp del: upt_Suc)
  next
    case False
    then have "cache_hit_loop (map (\<lambda>j. (Suc h + j) mod length (cache (advance c))) [0..<k]) sec (advance c) = (Some i, c')"
      using Suc.prems(1) by (auto simp add: clock_order_Suc simp del: upt_Suc)
    moreover have "hand (advance c) = Suc h mod length (cache (advance c))"
      using h Suc.prems(2) by (simp add: mod_Suc_eq)
    ultimately have "holds (advance c) sec i"
        "c' = (upd_slot i (\<lambda>slot. slot\<lparr>is_used := True\<rparr>) (advance c))\<lparr>hand := i\<rparr>"
      using Suc.IH [of "Suc h" "advance c"] Suc.prems(3) by auto
    then show ?thesis by (auto simp: holds_def upd_slot_def advance_def)
  qed
qed

text \<open>A miss changes nothing (the hand goes round once); a hit marks the slot and points the hand at it.\<close>

lemma cache_hit_None:
  assumes "cache_hit sec c = (None, c')" and "hand c < length (cache c)"
  shows "c' = c" and "\<not> holds c sec i"
proof -
  let ?n = "length (cache c)"
  have ne: "cache c \<noteq> []" using assms(2) by auto
  have "cache_hit_loop (map (\<lambda>j. (hand c + j) mod ?n) [0..<?n]) sec c = (None, c')"
    using assms by (simp add: cache_hit_def clock_order)
  then have r: "c' = c\<lparr>hand := (hand c + ?n) mod ?n\<rparr>" "\<forall>j < ?n. \<not> holds c sec ((hand c + j) mod ?n)"
    using cache_hit_loop_None [of "hand c" c ?n] assms(2) ne by auto
  then show "c' = c" using assms(2) by simp
  show "\<not> holds c sec i"
  proof
    assume hi: "holds c sec i"
    then have i: "i < ?n" by (rule holdsD)
    define j where "j = (if hand c \<le> i then i - hand c else ?n + i - hand c)"
    have "j < ?n" "(hand c + j) mod ?n = i" using i assms(2) by (auto simp: j_def mod_if)
    with r(2) hi show False by auto
  qed
qed

lemma cache_hit_Some:
  assumes "cache_hit sec c = (Some i, c')" and "hand c < length (cache c)"
  shows "holds c sec i" and "c' = (upd_slot i (\<lambda>slot. slot\<lparr>is_used := True\<rparr>) c)\<lparr>hand := i\<rparr>"
proof -
  have ne: "cache c \<noteq> []" using assms(2) by auto
  show "holds c sec i" "c' = (upd_slot i (\<lambda>slot. slot\<lparr>is_used := True\<rparr>) c)\<lparr>hand := i\<rparr>"
    using cache_hit_loop_Some [of "hand c" c "length (cache c)" sec i c'] assms ne
    by (auto simp: cache_hit_def clock_order)
qed

subsection \<open>Eviction\<close>

text \<open>The two caches hold the same sectors with the same bytes in the same slots.\<close>

definition same_slots :: "slot_cache \<Rightarrow> slot_cache \<Rightarrow> bool" where
  "same_slots c c' \<longleftrightarrow> length (cache c') = length (cache c) \<and>
     (\<forall>i < length (cache c). is_valid (cache c' ! i) = is_valid (cache c ! i) \<and>
        sector_id (cache c' ! i) = sector_id (cache c ! i) \<and>
        slot_blocks (cache c' ! i) = slot_blocks (cache c ! i))"

lemma same_slots_refl [simp]: "same_slots c c"
  by (simp add: same_slots_def)

lemma same_slots_trans: "same_slots a b \<Longrightarrow> same_slots b c \<Longrightarrow> same_slots a c"
  by (simp add: same_slots_def)

lemma same_slots_holds: "same_slots c c' \<Longrightarrow> holds c' sec i \<longleftrightarrow> holds c sec i"
  by (auto simp: same_slots_def holds_def)

lemma cache_inv_same_slots:
  assumes "cache_inv sz sector dev_ok (c, d)" and "same_slots c c'"
    and "\<And>i. i < length (cache c) \<Longrightarrow> is_dirty (cache c' ! i) = is_dirty (cache c ! i)"
    and "hand c' < length (cache c)" and "\<And>i. i < hand c' \<Longrightarrow> is_valid (cache c ! i)"
  shows "cache_inv sz sector dev_ok (c', d)"
proof -
  note I = cache_invD [OF assms(1)]
  have h: "holds c' sec i \<longleftrightarrow> holds c sec i" for sec i
    using assms(2) by (rule same_slots_holds)
  have l: "length (cache c') = length (cache c)"
    and e: "i < length (cache c) \<Longrightarrow> is_valid (cache c' ! i) = is_valid (cache c ! i)"
      "i < length (cache c) \<Longrightarrow> slot_blocks (cache c' ! i) = slot_blocks (cache c ! i)" for i
    using assms(2) by (simp_all add: same_slots_def)
  show ?thesis
  proof (rule cache_invI, unfold h l)
    show "slot_blocks (cache c' ! i) = sector d sec" if "holds c sec i" "\<not> is_dirty (cache c' ! i)" for i sec
      using that I(5) [OF that(1)] holdsD(1) [OF that(1)] by (simp add: e assms(3))
    show "is_valid (cache c' ! i)" if "i < hand c'" for i
      using that assms(4,5) e(1) by (meson order.strict_trans)
    show "is_valid (cache c' ! j)" if "i < length (cache c)" "is_valid (cache c' ! i)" "j < i" for i j
      using that I(7) e(1) by (meson order.strict_trans)
    show "\<not> is_dirty (cache c' ! i)" if "i < length (cache c)" "\<not> is_valid (cache c' ! i)" for i
      using that I(6) by (simp add: e assms(3))
    show "length (slot_blocks (cache c' ! i)) = sz" if "i < length (cache c)" for i
      using that I(3) by (simp add: e)
  qed (use I(1,4) assms(4) in blast)+
qed

lemma cache_inv_device:
  assumes "cache_inv sz sector dev_ok (c, d)" and "dev_ok d'"
    and "\<And>i t. holds c t i \<Longrightarrow> \<not> is_dirty (cache c ! i) \<Longrightarrow> sector d' t = sector d t"
  shows "cache_inv sz sector dev_ok (c, d')"
proof -
  note I = cache_invD [OF assms(1)]
  show ?thesis
  proof (rule cache_invI)
    show "slot_blocks (cache c ! i) = sector d' t" if "holds c t i" "\<not> is_dirty (cache c ! i)" for i t
      using I(5) [OF that] assms(3) [OF that] by simp
  qed (fact assms(2), fact I(2), (erule I; assumption)+)
qed

lemma cview_same_slots:
  assumes "cache_inv sz sector dev_ok (c, d)" and "cache_inv sz sector dev_ok (c', d)" and "same_slots c c'"
  shows "cview sector (c', d) = cview sector (c, d)"
  using assms by (intro cview_cong) (auto simp: same_slots_def)

context block_device
begin

abbreviation inv :: "slot_cache \<times> 'd \<Rightarrow> bool" where
  "inv \<equiv> cache_inv (SIZE P) sector dev_ok"

abbreviation view :: "slot_cache \<times> 'd \<Rightarrow> u32 \<Rightarrow> block" where
  "view \<equiv> cview sector"

text \<open>Eviction picks a slot in range, leaves it clean and changes at most its sector on the medium.\<close>

lemma choose_victim_ok:
  assumes "inv (c, d)" and "choose_victim P (c, d) = (Ok i, c', d')"
  shows "i < length (cache c) \<and> same_slots c c' \<and> \<not> is_dirty (cache c' ! i) \<and>
    hand c' = Suc i mod length (cache c) \<and> (\<forall>j < i. is_valid (cache c ! j)) \<and>
    (\<forall>j < length (cache c). j \<noteq> i \<longrightarrow> is_dirty (cache c' ! j) = is_dirty (cache c ! j)) \<and>
    dev_ok d' \<and> capacity d' = capacity d \<and>
    (sector d' = sector d \<or>
      is_valid (cache c ! i) \<and> sector d' = (sector d)(sector_id (cache c ! i) := slot_blocks (cache c ! i))) \<and>
    (is_valid (cache c ! i) \<longrightarrow> sector d' (sector_id (cache c ! i)) = slot_blocks (cache c ! i))"
  using assms
proof (induction P \<equiv> P "(c, d)" arbitrary: c d rule: choose_victim.induct)
  case (1 c d)
  let ?h = "hand c" and ?slot = "cache c ! hand c"
  have inv: "inv (c, d)" by fact
  have h: "?h < length (cache c)" and ok: "dev_ok d" and below: "\<forall>j < ?h. is_valid (cache c ! j)"
    and len: "length (slot_blocks ?slot) = SIZE P"
    using cache_invD(1,2,8) [OF inv] cache_invD(3) [OF inv cache_invD(2) [OF inv]] by blast+
  have clean: "\<not> is_dirty ?slot \<Longrightarrow> is_valid ?slot \<Longrightarrow> sector d (sector_id ?slot) = slot_blocks ?slot"
    using cache_invD(5) [OF inv, of "sector_id ?slot" ?h] h by (simp add: holds_def)
  have invalid_clean: "\<not> is_valid ?slot \<Longrightarrow> \<not> is_dirty ?slot" using cache_invD(6) [OF inv h] .
  consider (invalid) "\<not> is_valid ?slot" | (used) "is_valid ?slot" "is_used ?slot"
    | (dirty) "is_valid ?slot" "\<not> is_used ?slot" "is_dirty ?slot"
    | (clean) "is_valid ?slot" "\<not> is_used ?slot" "\<not> is_dirty ?slot" by blast
  then show ?case
  proof cases
    case invalid
    then have "i = ?h \<and> c' = advance c \<and> d' = d"
      using "1.prems"(2) h by (auto simp: choose_victim.simps Let_def)
    then show ?thesis using h ok below invalid invalid_clean by (auto simp: same_slots_def)
  next
    case clean': clean
    then have "i = ?h \<and> c' = advance c \<and> d' = d"
      using "1.prems"(2) h by (auto simp: choose_victim.simps Let_def)
    then show ?thesis using h ok below clean' clean by (auto simp: same_slots_def)
  next
    case dirty
    obtain d1 where w: "bd_write P d (sector_id ?slot) (slot_blocks ?slot) = (Ok (), d1)"
      and r: "i = ?h" "c' = upd_slot ?h (\<lambda>_. ?slot\<lparr>is_dirty := False\<rparr>) (advance c)" "d' = d1"
      using "1.prems"(2) h dirty
      by (auto simp: choose_victim.simps Let_def write_back_def split: prod.splits outcome.splits)
    have "sector d1 = (sector d)(sector_id ?slot := slot_blocks ?slot)"
      using write_sector [OF ok len w] .
    then show ?thesis using r h below write_frame [OF ok len w] dirty by (auto simp: same_slots_def)
  next
    case used
    let ?c1 = "upd_slot ?h (\<lambda>slot. slot\<lparr>is_used := False\<rparr>) (advance c)"
    have ne: "cache c \<noteq> []" using h by auto
    have same: "same_slots c ?c1" using h by (auto simp: same_slots_def)
    have l1: "length (cache ?c1) = length (cache c)" by simp
    have d1: "is_dirty (cache ?c1 ! j) = is_dirty (cache c ! j)" for j using h by simp
    have inv1: "inv (?c1, d)"
    proof (rule cache_inv_same_slots [OF inv same])
      show "hand ?c1 < length (cache c)" using h ne by simp
      show "is_valid (cache c ! j)" if "j < hand ?c1" for j
        using that h below used by (cases "Suc ?h = length (cache c)") (auto simp: less_Suc_eq)
    qed (rule d1)
    have cv: "choose_victim P (?c1, d) = (Ok i, c', d')"
      using "1.prems"(2) h used by (simp add: choose_victim.simps [of P c d] Let_def)
    have IH: "i < length (cache ?c1) \<and> same_slots ?c1 c' \<and> \<not> is_dirty (cache c' ! i) \<and>
      hand c' = Suc i mod length (cache ?c1) \<and> (\<forall>j < i. is_valid (cache ?c1 ! j)) \<and>
      (\<forall>j < length (cache ?c1). j \<noteq> i \<longrightarrow> is_dirty (cache c' ! j) = is_dirty (cache ?c1 ! j)) \<and>
      dev_ok d' \<and> capacity d' = capacity d \<and>
      (sector d' = sector d \<or>
        is_valid (cache ?c1 ! i) \<and> sector d' = (sector d)(sector_id (cache ?c1 ! i) := slot_blocks (cache ?c1 ! i))) \<and>
      (is_valid (cache ?c1 ! i) \<longrightarrow> sector d' (sector_id (cache ?c1 ! i)) = slot_blocks (cache ?c1 ! i))"
      by (rule "1.hyps" [OF refl refl h refl _ _ inv1 cv]) (use used in auto)
    have eq: "is_valid (cache ?c1 ! j) = is_valid (cache c ! j)"
      "sector_id (cache ?c1 ! j) = sector_id (cache c ! j)"
      "slot_blocks (cache ?c1 ! j) = slot_blocks (cache c ! j)" for j
      using h by simp_all
    from IH have IH': "same_slots ?c1 c'" by blast
    show ?thesis
      using IH same_slots_trans [OF same IH'] unfolding eq d1 l1 by blast
  qed
qed

lemma write_slot_inv:
  \<comment> \<open>replacing the whole content of a slot, when no other slot holds the new sector\<close>
  assumes "inv (c, d)" and "i < length (cache c)" and "\<And>j. j < i \<Longrightarrow> is_valid (cache c ! j)"
    and "is_valid new" and "length (slot_blocks new) = SIZE P"
    and "\<And>j. j \<noteq> i \<Longrightarrow> \<not> holds c (sector_id new) j"
    and "\<not> is_dirty new \<Longrightarrow> slot_blocks new = sector d' (sector_id new)"
    and "\<And>s j. j \<noteq> i \<Longrightarrow> holds c s j \<Longrightarrow> sector d' s = sector d s" and "dev_ok d'"
    and "h < length (cache c)" and "\<And>j. j < h \<Longrightarrow> j \<noteq> i \<Longrightarrow> is_valid (cache c ! j)"
  shows "inv ((upd_slot i (\<lambda>_. new) c)\<lparr>hand := h\<rparr>, d')"
proof -
  note I = cache_invD [OF assms(1)]
  let ?c = "(upd_slot i (\<lambda>_. new) c)\<lparr>hand := h\<rparr>"
  have n: "cache ?c ! j = (if i = j then new else cache c ! j)" for j using assms(2) by simp
  have l: "length (cache ?c) = length (cache c)" by simp
  have hd: "holds ?c s j \<longleftrightarrow> (if j = i then s = sector_id new else holds c s j)" for s j
    using assms(2,4) by (auto simp: holds_def)
  show ?thesis
  proof (rule cache_invI, unfold hd l)
    show "hand ?c < length (cache c)" using assms(10) by simp
    show "length (slot_blocks (cache ?c ! j)) = SIZE P" if "j < length (cache c)" for j
      unfolding n using I(3) [OF that] assms(5) by simp
    show "j = k" if "if j = i then s = sector_id new else holds c s j"
      "if k = i then s = sector_id new else holds c s k" for j s k
      using that assms(6) I(4) by (auto split: if_splits)
    show "slot_blocks (cache ?c ! j) = sector d' s"
      if "if j = i then s = sector_id new else holds c s j" "\<not> is_dirty (cache ?c ! j)" for j s
      using that assms(7,8) I(5) unfolding n by (auto split: if_splits)
    show "\<not> is_dirty (cache ?c ! j)" if "j < length (cache c)" "\<not> is_valid (cache ?c ! j)" for j
      using that assms(4) I(6) unfolding n by (auto split: if_splits)
    show "is_valid (cache ?c ! k)" if "j < length (cache c)" "is_valid (cache ?c ! j)" "k < j" for j k
      using that assms(3,4) I(7) unfolding n by (auto split: if_splits)
    show "is_valid (cache ?c ! j)" if "j < hand ?c" for j
      using that assms(4,11) unfolding n by auto
  qed (rule assms(9))
qed

lemma view_write_slot:
  assumes "inv (c, d)" and "inv (c', d')" and "holds c' s i" and "slot_blocks (cache c' ! i) = b"
    and "\<And>t. t \<noteq> s \<Longrightarrow> (\<exists>j. holds c t j \<and> holds c' t j \<and> slot_blocks (cache c' ! j) = slot_blocks (cache c ! j)) \<or>
      (\<forall>j. \<not> holds c' t j) \<and> sector d' t = view (c, d) t"
  shows "view (c', d') = (view (c, d))(s := b)"
proof
  fix t
  show "view (c', d') t = ((view (c, d))(s := b)) t"
  proof (cases "t = s")
    case True
    then show ?thesis using cview_hit [OF assms(2,3)] assms(4) by simp
  next
    case False
    with assms(5) [OF False] show ?thesis
      using cview_hit [OF assms(1)] cview_hit [OF assms(2)] cview_miss [of c' t sector d'] by auto
  qed
qed

text \<open>Loading the missing sector \<open>s\<close> into the evicted slot \<open>i\<close>.\<close>

lemma load_into_victim:
  assumes "inv (c, d)" and "i < length (cache c)" and same: "same_slots c c2" and "\<not> is_dirty (cache c2 ! i)"
    and "hand c2 = Suc i mod length (cache c)" and below: "\<And>j. j < i \<Longrightarrow> is_valid (cache c ! j)"
    and dirty: "\<And>j. j < length (cache c) \<Longrightarrow> j \<noteq> i \<Longrightarrow> is_dirty (cache c2 ! j) = is_dirty (cache c ! j)"
    and "dev_ok d2" and "capacity d2 = capacity d"
    and d2: "sector d2 = sector d \<or> is_valid (cache c ! i) \<and>
        sector d2 = (sector d)(sector_id (cache c ! i) := slot_blocks (cache c ! i))"
    and evicted: "is_valid (cache c ! i) \<Longrightarrow> sector d2 (sector_id (cache c ! i)) = slot_blocks (cache c ! i)"
    and "dev_ok d'" and "capacity d' = capacity d2" and d': "sector d' = sector d2"
    and data: "data = sector d2 s"
    and c': "c' = (upd_slot i (\<lambda>_. (cache c2 ! i)\<lparr>slot_blocks := data, sector_id := s,
                is_valid := True, is_used := True\<rparr>) c2)\<lparr>hand := Suc i mod length (cache c)\<rparr>"
    and miss: "\<And>j. \<not> holds c s j"
  shows "inv (c', d') \<and> view (c', d') = view (c, d) \<and> holds c' s i \<and> slot_blocks (cache c' ! i) = view (c, d) s"
proof -
  let ?new = "(cache c2 ! i)\<lparr>slot_blocks := data, sector_id := s, is_valid := True, is_used := True\<rparr>"
  note I = cache_invD [OF assms(1)]
  have l2: "length (cache c2) = length (cache c)" using same by (simp add: same_slots_def)
  have i2: "i < length (cache c2)" using assms(2) l2 by simp
  have ne: "cache c \<noteq> []" using assms(2) by auto
  have s_d2: "sector d2 s = sector d s"
    using d2 miss [of i] assms(2) by (auto simp: holds_def)
  have other: "sector d2 t = sector d t" if "holds c t j" "j \<noteq> i" for t j
    using d2 that I(4) [of t j i] assms(2) by (auto simp: holds_def)
  have eqs: "is_valid (cache c2 ! j) = is_valid (cache c ! j)"
    "sector_id (cache c2 ! j) = sector_id (cache c ! j)"
    "slot_blocks (cache c2 ! j) = slot_blocks (cache c ! j)" if "j < length (cache c)" for j
    using same that by (simp_all add: same_slots_def)
  have hc: "holds c2 t j \<longleftrightarrow> holds c t j" for t j by (rule same_slots_holds [OF same])
  have nn: "cache c' ! j = (if i = j then ?new else cache c2 ! j)" for j using c' i2 by simp
  have hc': "holds c' t j \<longleftrightarrow> (if j = i then t = s else holds c t j)" for t j
    using i2 by (auto simp: holds_def nn hc [unfolded holds_def] c')
  have inv': "inv (c', d')"
  proof (rule cache_invI, unfold hc')
    have lc: "length (cache c') = length (cache c)" by (simp add: c' l2)
    show "hand c' < length (cache c')" using ne by (simp add: c' l2)
    show "length (slot_blocks (cache c' ! j)) = SIZE P" if "j < length (cache c')" for j
      using that I(3) lc sector_length [OF \<open>dev_ok d2\<close>] by (simp add: nn eqs data)
    show "j = k" if "if j = i then t = s else holds c t j" "if k = i then t = s else holds c t k" for j t k
      using that miss I(4) by (auto split: if_splits)
    show "slot_blocks (cache c' ! j) = sector d' t"
      if hj: "if j = i then t = s else holds c t j" and nd: "\<not> is_dirty (cache c' ! j)" for j t
    proof (cases "j = i")
      case True
      then show ?thesis using hj by (simp add: nn data d')
    next
      case False
      then have "holds c t j" "j < length (cache c)" using hj holdsD(1) by auto
      then show ?thesis using False nd I(5) other d' dirty by (simp add: nn eqs)
    qed
    show "\<not> is_dirty (cache c' ! j)" if "j < length (cache c')" "\<not> is_valid (cache c' ! j)" for j
      using that lc I(6) dirty assms(4) by (auto simp: nn eqs split: if_splits)
    show "is_valid (cache c' ! k)" if "j < length (cache c')" "is_valid (cache c' ! j)" "k < j" for j k
      using that lc below I(7) by (auto simp: nn eqs split: if_splits)
    show "is_valid (cache c' ! j)" if "j < hand c'" for j
    proof -
      have "hand c' = Suc i mod length (cache c)" by (simp add: c')
      then have "j \<le> i" using that assms(2) by (auto simp: mod_Suc split: if_splits)
      then show ?thesis using below assms(2) by (cases "j = i") (simp_all add: nn eqs)
    qed
  qed fact
  have si: "holds c' s i" by (simp add: hc')
  have di: "slot_blocks (cache c' ! i) = view (c, d) s"
    using cview_miss [OF miss, of sector d] by (simp add: nn data s_d2)
  have "view (c', d') = (view (c, d))(s := view (c, d) s)"
  proof (rule view_write_slot [OF assms(1) inv' si di])
    fix t assume ts: "t \<noteq> s"
    show "(\<exists>j. holds c t j \<and> holds c' t j \<and> slot_blocks (cache c' ! j) = slot_blocks (cache c ! j)) \<or>
      (\<forall>j. \<not> holds c' t j) \<and> sector d' t = view (c, d) t"
    proof (cases "\<exists>j. holds c t j")
      case True
      then obtain j where j: "holds c t j" ..
      show ?thesis
      proof (cases "j = i")
        case True
        have "\<not> holds c' t k" for k using I(4) [OF j, of k] True ts by (auto simp: hc')
        moreover have "sector d' t = view (c, d) t"
          using cview_hit [OF assms(1) j] evicted True holdsD [OF j] d' by simp
        ultimately show ?thesis by blast
      next
        case False
        then have "holds c' t j" "slot_blocks (cache c' ! j) = slot_blocks (cache c ! j)"
          using j holdsD(1) [OF j] by (simp_all add: hc' nn eqs)
        then show ?thesis using j by blast
      qed
    next
      case False
      then have "sector d2 t = sector d t" using d2 assms(2) by (auto simp: holds_def)
      moreover have "\<not> holds c' t j" for j using False ts by (simp add: hc')
      ultimately show ?thesis using False d' cview_miss [of c t sector d] by simp
    qed
  qed
  then show ?thesis using inv' si di by (simp add: fun_upd_triv)
qed

text \<open>The reading loop of the cache: a hit, or a miss that loads the sector into the victim.\<close>

lemma read_inner_ok:
  assumes "inv (c, d)" and "read_inner P s (c, d) = (Ok i, c', d')"
  shows "inv (c', d')" and "view (c', d') = view (c, d)" and "holds c' s i"
    and "slot_blocks (cache c' ! i) = view (c, d) s" and "capacity d' = capacity d"
    and "length (cache c') = length (cache c)"
proof -
  have h: "hand c < length (cache c)" by (rule cache_invD(2) [OF assms(1)])
  have "inv (c', d') \<and> view (c', d') = view (c, d) \<and> holds c' s i \<and>
    slot_blocks (cache c' ! i) = view (c, d) s \<and> capacity d' = capacity d \<and>
    length (cache c') = length (cache c)"
  proof (cases "cache_hit s c")
    case (Pair r c1)
    show ?thesis
    proof (cases r)
      case (Some k)
      with Pair have hit: "cache_hit s c = (Some k, c1)" by simp
      have r: "k = i" "c1 = c'" "d' = d" using assms(2) hit by (auto simp: read_inner_def)
      note H = cache_hit_Some [OF hit h, unfolded r]
      have i: "i < length (cache c)" using holdsD(1) [OF H(1)] .
      have same: "same_slots c c'" using i by (auto simp: H(2) same_slots_def)
      have inv': "inv (c', d)"
      proof (rule cache_inv_same_slots [OF assms(1) same])
        show "is_dirty (cache c' ! j) = is_dirty (cache c ! j)" for j using i by (simp add: H(2))
        show "hand c' < length (cache c)" using i by (simp add: H(2))
        show "is_valid (cache c ! j)" if "j < hand c'" for j
          using that cache_invD(7) [OF assms(1) i holdsD(2) [OF H(1)]] by (simp add: H(2))
      qed
      have "holds c' s i" using same_slots_holds [OF same] H(1) by simp
      moreover have "slot_blocks (cache c' ! i) = view (c, d) s"
        using cview_hit [OF assms(1) H(1)] same i by (simp add: same_slots_def)
      ultimately show ?thesis
        using inv' cview_same_slots [OF assms(1) inv' same] same by (simp add: r same_slots_def)
    next
      case None
      with Pair have miss: "cache_hit s c = (None, c1)" by simp
      note M = cache_hit_None [OF miss h]
      obtain k c2 d2 where cv: "choose_victim P (c, d) = (Ok k, c2, d2)"
        and rest: "(case bd_read P d2 s (slot_blocks (cache c2 ! k)) of
           (Ok _, data, d3) \<Rightarrow>
             (Ok k, upd_slot k (\<lambda>slot. slot\<lparr>slot_blocks := data, sector_id := s,
                is_valid := True, is_used := True\<rparr>) c2, d3)
         | (r, data, d3) \<Rightarrow>
             (map_err_io (map_outcome (\<lambda>_. 0) id r),
              upd_slot k (\<lambda>slot. slot\<lparr>slot_blocks := data\<rparr>) c2, d3)) = (Ok i, c', d')"
        using assms(2) miss M(1) by (auto simp: read_inner_def elim!: andthen_okE)
      note V = choose_victim_ok [OF assms(1) cv]
      obtain data where rd: "bd_read P d2 s (slot_blocks (cache c2 ! k)) = (Ok (), data, d')"
        and r: "k = i" "c' = upd_slot k (\<lambda>slot. slot\<lparr>slot_blocks := data, sector_id := s,
                is_valid := True, is_used := True\<rparr>) c2"
        using rest by (auto split: prod.splits outcome.splits)
      let ?old = "cache c ! i" and ?new = "(cache c2 ! i)\<lparr>slot_blocks := data, sector_id := s,
                is_valid := True, is_used := True\<rparr>"
      have V': "i < length (cache c)" "same_slots c c2" "\<not> is_dirty (cache c2 ! i)"
        "hand c2 = Suc i mod length (cache c)" "\<And>j. j < i \<Longrightarrow> is_valid (cache c ! j)"
        "\<And>j. j < length (cache c) \<Longrightarrow> j \<noteq> i \<Longrightarrow> is_dirty (cache c2 ! j) = is_dirty (cache c ! j)"
        "dev_ok d2" "capacity d2 = capacity d"
        "sector d2 = sector d \<or> is_valid ?old \<and> sector d2 = (sector d)(sector_id ?old := slot_blocks ?old)"
        "is_valid ?old \<Longrightarrow> sector d2 (sector_id ?old) = slot_blocks ?old"
        using V r(1) by blast+
      have l2: "length (cache c2) = length (cache c)" using V'(2) by (simp add: same_slots_def)
      have F: "dev_ok d'" "capacity d' = capacity d2" "sector d' = sector d2" and data: "data = sector d2 s"
        using read_frame [OF V'(7) rd] read_data [OF V'(7) rd] by auto
      have c': "c' = (upd_slot i (\<lambda>_. ?new) c2)\<lparr>hand := Suc i mod length (cache c)\<rparr>"
        using r V'(4) by (simp add: upd_slot_def)
      show ?thesis
        using load_into_victim [OF assms(1) V' F data c' M(2)] l2 c' by (simp add: F V'(8))
    qed
  qed
  then show "inv (c', d')" and "view (c', d') = view (c, d)" and "holds c' s i"
    and "slot_blocks (cache c' ! i) = view (c, d) s" and "capacity d' = capacity d"
    and "length (cache c') = length (cache c)"
    by simp_all
qed

text \<open>Reading a sector returns its visible content and changes nothing the client can see.\<close>

lemma read_sector_ok:
  assumes "inv st" and "read_sector P s st = (Ok b, st')"
  shows "inv st'" and "view st' = view st" and "b = view st s"
    and "capacity (snd st') = capacity (snd st)"
proof -
  obtain c d where st: "st = (c, d)" by (cases st)
  from assms(2) obtain i c' d' where r: "read_inner P s (c, d) = (Ok i, c', d')"
    and "b = slot_blocks (cache c' ! i)" "st' = (c', d')"
    by (auto simp: st read_sector_def cache_read_def as_slice_def ret_def elim!: andthen_okE)
  with read_inner_ok [OF assms(1) [unfolded st] r] show "inv st'" and "view st' = view st"
    and "b = view st s" and "capacity (snd st') = capacity (snd st)"
    by (simp_all add: st)
qed

text \<open>Overwriting the bytes of a loaded sector.\<close>

lemma as_mut_slice_ok:
  assumes "inv (c, d)" and "holds c s i" and "as_mut_slice i f (c, d) = (Ok (), st')"
    and "\<And>b. f (view (c, d) s) = Some b \<Longrightarrow> length b = SIZE P"
  shows "inv st' \<and> snd st' = d \<and> (\<exists>b. f (view (c, d) s) = Some b \<and> view st' = (view (c, d))(s := b))"
proof -
  note I = cache_invD [OF assms(1)] and H = holdsD [OF assms(2)]
  have v: "view (c, d) s = slot_blocks (cache c ! i)" by (rule cview_hit [OF assms(1,2)])
  obtain b where b: "f (view (c, d) s) = Some b"
    and st': "st' = ((upd_slot i (\<lambda>_. (cache c ! i)\<lparr>is_dirty := True, slot_blocks := b\<rparr>) c)\<lparr>hand := hand c\<rparr>, d)"
    using assms(3) H(1) by (auto simp: as_mut_slice_def Let_def v upd_slot_def split: option.splits)
  let ?c' = "(upd_slot i (\<lambda>_. (cache c ! i)\<lparr>is_dirty := True, slot_blocks := b\<rparr>) c)\<lparr>hand := hand c\<rparr>"
  have inv': "inv (?c', d)"
  proof (rule write_slot_inv [OF assms(1) H(1)])
    show "\<not> holds c (sector_id ((cache c ! i)\<lparr>is_dirty := True, slot_blocks := b\<rparr>)) j" if "j \<noteq> i" for j
      using I(4) [OF assms(2), of j] that H(3) by auto
  qed (use I(7) [OF H(1,2)] I(1,2,8) H assms(4) [OF b] in auto)
  have "view (?c', d) = (view (c, d))(s := b)"
  proof (rule view_write_slot [OF assms(1) inv'])
    show "holds ?c' s i" using H by (simp add: holds_def)
    show "slot_blocks (cache ?c' ! i) = b" using H by simp
    fix t assume t: "t \<noteq> s"
    have hc: "holds ?c' t j \<longleftrightarrow> holds c t j" for j using t H by (auto simp: holds_def)
    show "(\<exists>j. holds c t j \<and> holds ?c' t j \<and> slot_blocks (cache ?c' ! j) = slot_blocks (cache c ! j)) \<or>
      (\<forall>j. \<not> holds ?c' t j) \<and> sector d t = view (c, d) t"
      unfolding hc using t H by (cases "\<exists>j. holds c t j") (auto simp: holds_def cview_miss)
  qed
  then show ?thesis using inv' b st' by simp
qed

lemma update_sector_ok:
  assumes "inv st" and "update_sector P s f st = (Ok (), st')"
    and "\<And>b. f (view st s) = Some b \<Longrightarrow> length b = SIZE P"
  obtains b where "f (view st s) = Some b" and "view st' = (view st)(s := b)" and "inv st'"
    and "capacity (snd st') = capacity (snd st)"
proof -
  obtain c d where st: "st = (c, d)" by (cases st)
  from assms(2) obtain i c1 d1 where r: "read_inner P s (c, d) = (Ok i, c1, d1)"
    and m: "(as_mut_slice i f :: ('d, 'e, unit) cache_op) (c1, d1) = (Ok (), st')"
    unfolding st update_sector_def read_mut_def andthen_Ok_iff by auto
  note R = read_inner_ok [OF assms(1) [unfolded st] r]
  show thesis
    using as_mut_slice_ok [OF R(1,3) m] assms(3) R that unfolding st by auto
qed

subsection \<open>Flushing\<close>

lemma slot_flush_ok:
  assumes "dev_ok d" and "length (slot_blocks x) = SIZE P" and "slot_flush P (x, d) = (Ok (), x', d')"
  shows "x' = x\<lparr>is_dirty := False\<rparr>" and "dev_ok d'" and "capacity d' = capacity d"
    and "sector d' = (if is_dirty x then (sector d)(sector_id x := slot_blocks x) else sector d)"
proof -
  have "x' = x\<lparr>is_dirty := False\<rparr> \<and> dev_ok d' \<and> capacity d' = capacity d \<and>
    sector d' = (if is_dirty x then (sector d)(sector_id x := slot_blocks x) else sector d)"
  proof (cases "is_dirty x")
    case True
    then have w: "bd_write P d (sector_id x) (slot_blocks x) = (Ok (), d')"
      and "x' = x\<lparr>is_dirty := False\<rparr>"
      using assms(3) by (auto simp: slot_flush_def split: prod.splits outcome.splits)
    then show ?thesis using write_frame [OF assms(1,2) w] write_sector [OF assms(1,2) w] True by simp
  next
    case False
    then show ?thesis using assms by (auto simp: slot_flush_def)
  qed
  then show "x' = x\<lparr>is_dirty := False\<rparr>" and "dev_ok d'" and "capacity d' = capacity d"
    and "sector d' = (if is_dirty x then (sector d)(sector_id x := slot_blocks x) else sector d)"
    by blast+
qed

lemma flush_slots_ok:
  assumes "dev_ok d" and "\<And>x. x \<in> set xs \<Longrightarrow> length (slot_blocks x) = SIZE P"
    and "sorted_wrt (\<lambda>a b. is_dirty a \<longrightarrow> is_dirty b \<longrightarrow> sector_id a \<noteq> sector_id b) xs"
    and "flush_slots P (xs, d) = (Ok (), xs', d')"
  shows "xs' = map (\<lambda>x. x\<lparr>is_dirty := False\<rparr>) xs \<and> dev_ok d' \<and> capacity d' = capacity d \<and>
    (\<forall>x \<in> set xs. is_dirty x \<longrightarrow> sector d' (sector_id x) = slot_blocks x) \<and>
    (\<forall>t. (\<forall>x \<in> set xs. is_dirty x \<longrightarrow> sector_id x \<noteq> t) \<longrightarrow> sector d' t = sector d t)"
  using assms
proof (induction xs arbitrary: d xs')
  case Nil
  then show ?case by simp
next
  case (Cons x xs)
  from Cons.prems(4) obtain x1 d1 ys where f: "slot_flush P (x, d) = (Ok (), x1, d1)"
    and g: "flush_slots P (xs, d1) = (Ok (), ys, d')" and xs': "xs' = x1 # ys"
    by (auto split: prod.splits outcome.splits)
  have lx: "length (slot_blocks x) = SIZE P" by (rule Cons.prems(2)) simp
  note F = slot_flush_ok [OF Cons.prems(1) lx f]
  have IH: "ys = map (\<lambda>x. x\<lparr>is_dirty := False\<rparr>) xs \<and> dev_ok d' \<and> capacity d' = capacity d1 \<and>
    (\<forall>x \<in> set xs. is_dirty x \<longrightarrow> sector d' (sector_id x) = slot_blocks x) \<and>
    (\<forall>t. (\<forall>x \<in> set xs. is_dirty x \<longrightarrow> sector_id x \<noteq> t) \<longrightarrow> sector d' t = sector d1 t)"
    by (rule Cons.IH [OF F(2) _ _ g]) (use Cons.prems in auto)
  have "sector d' (sector_id x) = slot_blocks x" if dx: "is_dirty x"
  proof -
    have "\<forall>y \<in> set xs. is_dirty y \<longrightarrow> sector_id y \<noteq> sector_id x"
      using Cons.prems(3) dx by fastforce
    then have "sector d' (sector_id x) = sector d1 (sector_id x)" using IH by blast
    then show ?thesis using F(4) dx by simp
  qed
  moreover have "sector d' t = sector d t" if "\<forall>y \<in> set (x # xs). is_dirty y \<longrightarrow> sector_id y \<noteq> t" for t
    using IH that F(4) by auto
  ultimately show ?case using IH F(1,3) xs' by auto
qed

lemma inv_dirty_distinct:
  assumes "inv (c, d)"
  shows "sorted_wrt (\<lambda>a b. is_dirty a \<longrightarrow> is_dirty b \<longrightarrow> sector_id a \<noteq> sector_id b) (cache c)"
proof -
  have "sector_id (cache c ! i) \<noteq> sector_id (cache c ! j)"
    if "i < j" "j < length (cache c)" "is_dirty (cache c ! i)" "is_dirty (cache c ! j)" for i j
  proof
    assume eq: "sector_id (cache c ! i) = sector_id (cache c ! j)"
    have "holds c (sector_id (cache c ! j)) i" "holds c (sector_id (cache c ! j)) j"
      using that eq cache_invD(6) [OF assms, of i] cache_invD(6) [OF assms, of j] by (auto simp: holds_def)
    then show False using cache_invD(4) [OF assms] that(1) by blast
  qed
  then show ?thesis by (simp add: sorted_wrt_iff_nth_less)
qed

lemma flush_ok:
  assumes "inv (c, d)" and "cache_flush P (c, d) = (Ok (), c', d')"
  shows "inv (c', d')" and "view (c', d') = view (c, d)" and "sector d' = view (c, d)"
    and "\<And>i. i < length (cache c') \<Longrightarrow> \<not> is_dirty (cache c' ! i)" and "capacity d' = capacity d"
proof -
  note I = cache_invD [OF assms(1)]
  obtain xs where fl: "flush_slots P (cache c, d) = (Ok (), xs, d')" and c': "c' = c\<lparr>cache := xs\<rparr>"
    using assms(2) by (auto simp: cache_flush_def split: prod.splits)
  have F: "xs = map (\<lambda>x. x\<lparr>is_dirty := False\<rparr>) (cache c) \<and> dev_ok d' \<and> capacity d' = capacity d \<and>
    (\<forall>x \<in> set (cache c). is_dirty x \<longrightarrow> sector d' (sector_id x) = slot_blocks x) \<and>
    (\<forall>t. (\<forall>x \<in> set (cache c). is_dirty x \<longrightarrow> sector_id x \<noteq> t) \<longrightarrow> sector d' t = sector d t)"
    by (rule flush_slots_ok [OF I(1) _ inv_dirty_distinct [OF assms(1)] fl])
      (use I(3) in \<open>auto simp: in_set_conv_nth\<close>)
  have xs: "xs = map (\<lambda>x. x\<lparr>is_dirty := False\<rparr>) (cache c)" using F by blast
  have med: "sector d' t = view (c, d) t" for t
  proof (cases "\<exists>i. holds c t i")
    case True
    then obtain i where i: "holds c t i" ..
    show ?thesis
    proof (cases "is_dirty (cache c ! i)")
      case True
      then show ?thesis using F cview_hit [OF assms(1) i] holdsD [OF i] by auto
    next
      case False
      have "sector_id x \<noteq> t" if "x \<in> set (cache c)" "is_dirty x" for x
      proof
        assume "sector_id x = t"
        with that obtain j where "j < length (cache c)" "x = cache c ! j" "holds c t j"
          using I(6) by (auto simp: in_set_conv_nth holds_def)
        then show False using I(4) [OF i] that(2) False by auto
      qed
      then have "sector d' t = sector d t" using F by blast
      then show ?thesis using I(5) [OF i False] cview_hit [OF assms(1) i] by simp
    qed
  next
    case none: False
    then have "sector_id x \<noteq> t" if "x \<in> set (cache c)" "is_dirty x" for x
      using that I(6) by (auto simp: in_set_conv_nth holds_def)
    then have "sector d' t = sector d t" using F by blast
    then show ?thesis using none by (simp add: cview_miss)
  qed
  then show m: "sector d' = view (c, d)" by blast
  show clean: "\<not> is_dirty (cache c' ! i)" if "i < length (cache c')" for i
    using that by (simp add: c' xs)
  show "capacity d' = capacity d" using F by blast
  have hc: "holds c' t i \<longleftrightarrow> holds c t i" for t i by (auto simp: holds_def c' xs)
  show inv': "inv (c', d')"
  proof (rule cache_invI, unfold hc)
    show "slot_blocks (cache c' ! i) = sector d' t" if "holds c t i" for t i
      using cview_hit [OF assms(1) that] holdsD(1) [OF that] m by (simp add: c' xs)
    show "is_valid (cache c' ! j)" if "i < length (cache c')" "is_valid (cache c' ! i)" "j < i" for i j
      using that I(7) [of i j] by (simp add: c' xs)
    show "is_valid (cache c' ! i)" if "i < hand c'" for i
      using that I(2) I(8) [of i] by (simp add: c' xs)
  qed (use F I(2,3) I(4) clean in \<open>auto simp: c' xs\<close>)
  show "view (c', d') = view (c, d)"
  proof (rule cview_cong [OF _ _ assms(1) inv'])
    show "sector d' t = sector d t" if "\<forall>i. \<not> holds c t i" for t
      using that m cview_miss [of c t sector d] by simp
  qed (simp_all add: c' xs)
qed

lemma flush_sector_slots_none:
  "\<forall>x \<in> set xs. sector_id x \<noteq> sec \<Longrightarrow> flush_sector_slots P sec (xs, d) = (Ok (), xs, d)"
  by (induction xs) auto

lemma flush_sector_slots_split:
  "\<forall>x \<in> set xs. sector_id x \<noteq> sec \<Longrightarrow> sector_id x = sec \<Longrightarrow>
   flush_sector_slots P sec (xs @ x # ys, d) =
     (case slot_flush P (x, d) of (r, x', d') \<Rightarrow> (r, xs @ x' # ys, d'))"
  by (induction xs) (auto split: prod.splits)

lemma flush_sector_ok:
  assumes "inv (c, d)" and "cache_flush_sector P sec (c, d) = (Ok (), c', d')"
  shows "inv (c', d')" and "view (c', d') = view (c, d)" and "sector d' = (sector d)(sec := view (c, d) sec)"
    and "capacity d' = capacity d"
proof -
  note I = cache_invD [OF assms(1)]
  have "inv (c', d') \<and> view (c', d') = view (c, d) \<and> sector d' = (sector d)(sec := view (c, d) sec) \<and>
    capacity d' = capacity d"
  proof (cases "\<exists>x \<in> set (cache c). sector_id x = sec")
    case False
    then have "c' = c" "d' = d" using assms(2) by (auto simp: cache_flush_sector_def flush_sector_slots_none)
    moreover have "\<not> holds c sec i" for i using False by (auto simp: holds_def)
    ultimately show ?thesis using assms(1) cview_miss [of c sec sector d] by auto
  next
    case True
    obtain xs x ys where split: "cache c = xs @ x # ys" "\<forall>y \<in> set xs. sector_id y \<noteq> sec" "sector_id x = sec"
      using split_list_first_prop [OF True] by blast
    let ?i = "length xs"
    have i: "?i < length (cache c)" "cache c ! ?i = x" using split(1) by auto
    obtain x' where fl: "slot_flush P (x, d) = (Ok (), x', d')" and c': "c' = c\<lparr>cache := xs @ x' # ys\<rparr>"
      using assms(2) flush_sector_slots_split [OF split(2,3), of ys d] split(1)
      by (auto simp: cache_flush_sector_def split: prod.splits)
    have lx: "length (slot_blocks x) = SIZE P" using I(3) [OF i(1)] i(2) by simp
    note F = slot_flush_ok [OF I(1) lx fl]
    have cu: "c' = upd_slot ?i (\<lambda>_. x\<lparr>is_dirty := False\<rparr>) c"
      using split(1) by (simp add: c' F(1) upd_slot_def)
    have same: "same_slots c c'" using i by (auto simp: cu same_slots_def)
    have hc: "holds c' t j \<longleftrightarrow> holds c t j" for t j by (rule same_slots_holds [OF same])
    have only: "j = ?i" if "holds c sec j" for j
    proof (rule ccontr)
      assume ne: "j \<noteq> ?i"
      have "cache c ! j \<in> set xs" if "j < ?i" using that split(1) by (simp add: nth_append)
      then have "\<not> j < ?i" using holdsD(3) [OF that] split(2) by blast
      with ne have "?i < j" by simp
      then have "is_valid x" using I(7) [OF holdsD(1) [OF that] holdsD(2) [OF that]] i(2) by auto
      then have "holds c sec ?i" using i split(3) by (simp add: holds_def)
      then show False using I(4) that ne by blast
    qed
    have med: "sector d' = (sector d)(sec := view (c, d) sec)"
    proof (cases "is_valid x")
      case True
      then have h: "holds c sec ?i" using i split(3) by (simp add: holds_def)
      have v: "view (c, d) sec = slot_blocks x" using cview_hit [OF assms(1) h] i(2) by simp
      show ?thesis
      proof (cases "is_dirty x")
        case True
        then show ?thesis using F(4) v split(3) by simp
      next
        case False
        then show ?thesis using F(4) v I(5) [OF h] i(2) by simp
      qed
    next
      case False
      then have "\<not> is_dirty x" using I(6) [OF i(1)] i(2) by simp
      moreover have "\<not> holds c sec j" for j using only False i(2) holdsD(2) by metis
      ultimately show ?thesis using F(4) cview_miss [of c sec sector d] by auto
    qed
    have inv': "inv (c', d')"
    proof (rule cache_invI, unfold hc)
      show "slot_blocks (cache c' ! j) = sector d' t" if h: "holds c t j" and nd: "\<not> is_dirty (cache c' ! j)" for t j
      proof (cases "t = sec")
        case True
        then show ?thesis using only h med cview_hit [OF assms(1) h] i by (simp add: cu)
      next
        case False
        then have "j \<noteq> ?i" using holdsD(3) [OF h] i(2) split(3) by auto
        then show ?thesis using False nd h I(5) med i by (simp add: cu)
      qed
      show "is_valid (cache c' ! j)" if "k < length (cache c')" "is_valid (cache c' ! k)" "j < k" for j k
        using that I(7) [of k j] i same by (simp add: same_slots_def)
      show "is_valid (cache c' ! j)" if "j < hand c'" for j
        using that I(2) I(8) [of j] i by (auto simp: cu)
      show "\<not> is_dirty (cache c' ! j)" if "j < length (cache c')" "\<not> is_valid (cache c' ! j)" for j
        using that I(6) [of j] i by (auto simp: cu split: if_splits)
      show "length (slot_blocks (cache c' ! j)) = SIZE P" if "j < length (cache c')" for j
        using that I(3) [of j] i by (auto simp: cu)
    qed (use F(2) I(2,4) in \<open>auto simp: cu\<close>)
    have "view (c', d') = view (c, d)"
    proof (rule cview_cong [OF _ _ assms(1) inv'])
      show "sector d' t = sector d t" if "\<forall>j. \<not> holds c t j" for t
        using that med cview_miss [of c t sector d] by auto
    qed (use same in \<open>auto simp: same_slots_def\<close>)
    then show ?thesis using inv' med F(3) by blast
  qed
  then show "inv (c', d')" and "view (c', d') = view (c, d)" and "sector d' = (sector d)(sec := view (c, d) sec)"
    and "capacity d' = capacity d" by blast+
qed

subsection \<open>Writing through\<close>

lemma cache_write_ok:
  assumes "inv (c, d)" and "length b = SIZE P" and "cache_write P s b (c, d) = (Ok (), c', d')"
  shows "inv (c', d')" and "view (c', d') = (view (c, d))(s := b)" and "sector d' s = b"
    and "capacity d' = capacity d"
proof -
  note I = cache_invD [OF assms(1)]
  obtain r c1 where hit: "cache_hit s c = (r, c1)" by (cases "cache_hit s c")
  have w: "bd_write P d s b = (Ok (), d')"
    using assms(3) by (auto simp: cache_write_def Let_def split: prod.splits)
  note W = write_frame [OF I(1) assms(2) w] write_sector [OF I(1) assms(2) w]
  have "inv (c', d') \<and> view (c', d') = (view (c, d))(s := b)"
  proof (cases r)
    case None
    with hit have miss: "cache_hit s c = (None, c1)" by simp
    note M = cache_hit_None [OF miss I(2)]
    have c': "c' = c" using assms(3) miss M(1) by (auto simp: cache_write_def Let_def split: prod.splits)
    have inv': "inv (c, d')"
      by (rule cache_inv_device [OF assms(1)]) (use W M(2) in auto)
    have "view (c, d') t = ((view (c, d))(s := b)) t" for t
      using cview_hit [OF assms(1), of t] cview_hit [OF inv', of t] M(2) W(2)
        cview_miss [of c t sector d] cview_miss [of c t sector d'] by (cases "\<exists>i. holds c t i") auto
    then show ?thesis using inv' c' by blast
  next
    case (Some i)
    with hit have h: "cache_hit s c = (Some i, c1)" by simp
    note H = cache_hit_Some [OF h I(2)]
    note Hi = holdsD [OF H(1)]
    let ?new = "(cache c ! i)\<lparr>is_used := True, slot_blocks := b, is_dirty := False\<rparr>"
    have c': "c' = (upd_slot i (\<lambda>_. ?new) c)\<lparr>hand := i\<rparr>"
      using assms(3) h Hi by (auto simp: cache_write_def Let_def H(2) upd_slot_def split: prod.splits)
    have inv': "inv (c', d')" unfolding c'
    proof (rule write_slot_inv [OF assms(1) Hi(1)])
      show "\<not> holds c (sector_id ?new) j" if "j \<noteq> i" for j
        using I(4) [OF H(1), of j] that Hi(3) by auto
      show "sector d' t = sector d t" if "j \<noteq> i" "holds c t j" for t j
        using that I(4) [OF H(1), of j] W(2) by auto
    qed (use I(7) [OF Hi(1,2)] Hi W assms(2) in auto)
    have "view (c', d') = (view (c, d))(s := b)"
    proof (rule view_write_slot [OF assms(1) inv'])
      show "holds c' s i" using Hi by (simp add: holds_def c')
      show "slot_blocks (cache c' ! i) = b" using Hi by (simp add: c')
      fix t assume t: "t \<noteq> s"
      have hc: "holds c' t j \<longleftrightarrow> holds c t j" for j using t Hi by (auto simp: holds_def c')
      show "(\<exists>j. holds c t j \<and> holds c' t j \<and> slot_blocks (cache c' ! j) = slot_blocks (cache c ! j)) \<or>
        (\<forall>j. \<not> holds c' t j) \<and> sector d' t = view (c, d) t"
        unfolding hc using t Hi W by (cases "\<exists>j. holds c t j") (auto simp: holds_def cview_miss c')
    qed
    then show ?thesis using inv' by blast
  qed
  then show "inv (c', d')" and "view (c', d') = (view (c, d))(s := b)" by blast+
  show "sector d' s = b" "capacity d' = capacity d" using W by simp_all
qed

end

subsection \<open>Success on a reliable device\<close>

text \<open>Every sector held by the cache lies on the device.\<close>

definition slots_within :: "nat \<Rightarrow> slot_cache \<Rightarrow> bool" where
  "slots_within cap c \<longleftrightarrow> (\<forall>i s. holds c s i \<longrightarrow> unat s < cap)"

definition cache_ready ::
    "nat \<Rightarrow> ('d \<Rightarrow> u32 \<Rightarrow> block) \<Rightarrow> ('d \<Rightarrow> nat) \<Rightarrow> ('d \<Rightarrow> bool) \<Rightarrow> slot_cache \<times> 'd \<Rightarrow> bool" where
  "cache_ready sz sector capacity dev_ok st \<longleftrightarrow>
     cache_inv sz sector dev_ok st \<and> slots_within (capacity (snd st)) (fst st)"

lemma cache_ready_new:
  "0 < n \<Longrightarrow> dev_ok d \<Longrightarrow> cache_ready sz sector capacity dev_ok (slot_cache_new sz n, d)"
  by (simp add: cache_ready_def cache_inv_new slots_within_def)

lemma slots_within_same: "same_slots c c' \<Longrightarrow> slots_within cap c' \<longleftrightarrow> slots_within cap c"
  by (simp add: slots_within_def same_slots_holds)

context reliable_device
begin

abbreviation ready :: "slot_cache \<times> 'd \<Rightarrow> bool" where
  "ready \<equiv> cache_ready (SIZE P) sector capacity dev_ok"

lemma choose_victim_total:
  assumes "inv (c, d)" and "slots_within (capacity d) c"
  shows "\<exists>i c' d'. choose_victim P (c, d) = (Ok i, c', d')"
  using assms
proof (induction P \<equiv> P "(c, d)" arbitrary: c d rule: choose_victim.induct)
  case (1 c d)
  let ?h = "hand c" and ?slot = "cache c ! hand c"
  note I = cache_invD [OF "1.prems"(1)]
  show ?case
  proof (cases "is_valid ?slot \<and> is_used ?slot")
    case True
    let ?c1 = "upd_slot ?h (\<lambda>slot. slot\<lparr>is_used := False\<rparr>) (advance c)"
    have ne: "cache c \<noteq> []" using I(2) by auto
    have same: "same_slots c ?c1" using I(2) by (auto simp: same_slots_def)
    have inv1: "inv (?c1, d)"
    proof (rule cache_inv_same_slots [OF "1.prems"(1) same])
      show "is_dirty (cache ?c1 ! j) = is_dirty (cache c ! j)" for j using I(2) by simp
      show "hand ?c1 < length (cache c)" using I(2) ne by simp
      show "is_valid (cache c ! j)" if "j < hand ?c1" for j
        using that I(2) I(8) True by (cases "Suc ?h = length (cache c)") (auto simp: less_Suc_eq)
    qed
    have "\<exists>i c' d'. choose_victim P (?c1, d) = (Ok i, c', d')"
      by (rule "1.hyps" [OF refl refl I(2) refl _ _ inv1])
        (use True "1.prems"(2) slots_within_same [OF same] in auto)
    then show ?thesis using True I(2) by (simp add: choose_victim.simps [of P c d] Let_def)
  next
    case False
    have lx: "length (slot_blocks ?slot) = SIZE P" using I(2,3) by blast
    show ?thesis
    proof (cases "is_valid ?slot \<and> is_dirty ?slot")
      case True
      then have "unat (sector_id ?slot) < capacity d"
        using "1.prems"(2) I(2) by (auto simp: slots_within_def holds_def)
      then obtain d' where "bd_write P d (sector_id ?slot) (slot_blocks ?slot) = (Ok (), d')"
        using write_returns [OF I(1) _ lx] by blast
      then show ?thesis using True False I(2)
        by (simp add: choose_victim.simps [of P c d] Let_def write_back_def)
    next
      case clean: False
      then show ?thesis using False I(2) by (auto simp: choose_victim.simps [of P c d] Let_def)
    qed
  qed
qed

lemma read_inner_total:
  assumes "ready (c, d)" and "unat s < capacity d"
  shows "\<exists>i c' d'. read_inner P s (c, d) = (Ok i, c', d')"
proof -
  have inv: "inv (c, d)" and w: "slots_within (capacity d) c"
    using assms(1) by (simp_all add: cache_ready_def)
  obtain r c1 where hit: "cache_hit s c = (r, c1)" by (cases "cache_hit s c")
  show ?thesis
  proof (cases r)
    case (Some i)
    then show ?thesis using hit by (simp add: read_inner_def)
  next
    case None
    note M = cache_hit_None [OF hit [unfolded None] cache_invD(2) [OF inv]]
    obtain i c2 d2 where cv: "choose_victim P (c, d) = (Ok i, c2, d2)"
      using choose_victim_total [OF inv w] by blast
    note V = choose_victim_ok [OF inv cv]
    have "length (slot_blocks (cache c2 ! i)) = SIZE P"
      using V cache_invD(3) [OF inv] by (auto simp: same_slots_def)
    then obtain d3 where "bd_read P d2 s (slot_blocks (cache c2 ! i)) = (Ok (), sector d2 s, d3)"
      using read_returns [of d2 s] V assms(2) by metis
    then show ?thesis using hit None M(1) cv by (simp add: read_inner_def andthen_def)
  qed
qed

lemma holds_read_inner:
  assumes "inv (c, d)" and "read_inner P s (c, d) = (Ok i, c', d')" and "holds c' t j"
  shows "t = s \<or> (\<exists>k. holds c t k)"
proof -
  note I = cache_invD [OF assms(1)]
  obtain r c1 where hit: "cache_hit s c = (r, c1)" by (cases "cache_hit s c")
  show ?thesis
  proof (cases r)
    case (Some k)
    note H = cache_hit_Some [OF hit [unfolded Some] I(2)]
    have "c' = c1" using assms(2) hit Some by (simp add: read_inner_def)
    then show ?thesis using assms(3) H holdsD(1) [OF H(1)] by (auto simp: holds_def split: if_splits)
  next
    case None
    note M = cache_hit_None [OF hit [unfolded None] I(2)]
    obtain k c2 d2 data where cv: "choose_victim P (c, d) = (Ok k, c2, d2)"
      and c': "c' = upd_slot k (\<lambda>slot. slot\<lparr>slot_blocks := data, sector_id := s,
                is_valid := True, is_used := True\<rparr>) c2"
      using assms(2) hit None M(1)
      by (auto simp: read_inner_def elim!: andthen_okE split: prod.splits outcome.splits)
    note V = choose_victim_ok [OF assms(1) cv]
    have k: "k < length (cache c2)" using V by (auto simp: same_slots_def)
    show ?thesis
    proof (cases "j = k")
      case True
      then show ?thesis using assms(3) c' k by (auto simp: holds_def)
    next
      case False
      then have "holds c2 t j" using assms(3) c' k by (auto simp: holds_def)
      then show ?thesis using V same_slots_holds [of c c2] by blast
    qed
  qed
qed

lemma read_inner_ready:
  assumes "ready (c, d)" and "unat s < capacity d" and r: "read_inner P s (c, d) = (Ok i, c', d')"
  shows "ready (c', d')"
proof -
  have inv: "inv (c, d)" and w: "slots_within (capacity d) c"
    using assms(1) by (simp_all add: cache_ready_def)
  note R = read_inner_ok [OF inv r]
  show ?thesis using R(1,5) holds_read_inner [OF inv r] w assms(2)
    by (auto simp: cache_ready_def slots_within_def)
qed

text \<open>The two client-facing operations succeed and are described by the visible medium.\<close>

lemma read_sector_total:
  assumes "ready st" and "unat s < capacity (snd st)"
  obtains st' where "read_sector P s st = (Ok (view st s), st')" and "ready st'"
    and "view st' = view st" and "capacity (snd st') = capacity (snd st)"
proof -
  obtain c d where st: "st = (c, d)" by (cases st)
  have inv: "inv (c, d)" using assms(1) by (simp add: st cache_ready_def)
  obtain i c' d' where r: "read_inner P s (c, d) = (Ok i, c', d')"
    using read_inner_total assms st by (metis snd_conv)
  note R = read_inner_ok [OF inv r]
  have "read_sector P s st = (Ok (view st s), (c', d'))"
    using r R(4) by (simp add: st read_sector_def cache_read_def as_slice_def andthen_def ret_def)
  then show thesis using that R read_inner_ready [OF _ _ r] assms by (simp add: st)
qed

lemma update_sector_total:
  assumes "ready st" and "unat s < capacity (snd st)" and "f (view st s) = Some b" and "length b = SIZE P"
  obtains st' where "update_sector P s f st = (Ok (), st')" and "ready st'"
    and "view st' = (view st)(s := b)" and "capacity (snd st') = capacity (snd st)"
proof -
  obtain c d where st: "st = (c, d)" by (cases st)
  have inv: "inv (c, d)" using assms(1) by (simp add: st cache_ready_def)
  obtain i c' d' where r: "read_inner P s (c, d) = (Ok i, c', d')"
    using read_inner_total assms(1,2) st by (metis snd_conv)
  note R = read_inner_ok [OF inv r]
  have i: "i < length (cache c')" using holdsD(1) [OF R(3)] .
  let ?c2 = "upd_slot i (\<lambda>slot. slot\<lparr>slot_blocks := b\<rparr>) (upd_slot i (\<lambda>slot. slot\<lparr>is_dirty := True\<rparr>) c')"
  have u: "update_sector P s f st = (Ok (), (?c2, d'))"
    using r R(4) assms(3) i
    by (simp add: st update_sector_def read_mut_def as_mut_slice_def andthen_def Let_def)
  have "holds ?c2 t j \<longleftrightarrow> holds c' t j" for t j using i by (auto simp: holds_def)
  then have w: "slots_within (capacity d') ?c2"
    using read_inner_ready [OF assms(1) [unfolded st] _ r] assms(2) by (simp add: st slots_within_def cache_ready_def)
  show thesis
  proof (rule update_sector_ok [OF _ u])
    show "inv st" using inv st by simp
    show "length b' = SIZE P" if "f (view st s) = Some b'" for b' using that assms(3,4) by simp
  next
    fix b' assume "f (view st s) = Some b'" "view (?c2, d') = (view st)(s := b')" "inv (?c2, d')"
      "capacity (snd (?c2, d')) = capacity (snd st)"
    then show thesis using that [OF u] w assms(3) by (simp add: cache_ready_def)
  qed
qed

lemma flush_slots_total:
  assumes "dev_ok d" and "\<And>x. x \<in> set xs \<Longrightarrow> length (slot_blocks x) = SIZE P"
    and "\<And>x. x \<in> set xs \<Longrightarrow> is_dirty x \<Longrightarrow> unat (sector_id x) < capacity d"
  shows "\<exists>xs' d'. flush_slots P (xs, d) = (Ok (), xs', d')"
  using assms
proof (induction xs arbitrary: d)
  case Nil
  then show ?case by simp
next
  case (Cons x xs)
  obtain x' d' where f: "slot_flush P (x, d) = (Ok (), x', d')"
  proof (cases "is_dirty x")
    case True
    then obtain d' where "bd_write P d (sector_id x) (slot_blocks x) = (Ok (), d')"
      using write_returns [of d "sector_id x" "slot_blocks x"] Cons.prems by (metis list.set_intros(1))
    then show thesis using that True by (simp add: slot_flush_def)
  next
    case False
    then show thesis using that by (simp add: slot_flush_def)
  qed
  note F = slot_flush_ok [OF Cons.prems(1) _ f]
  have "\<exists>xs' d''. flush_slots P (xs, d') = (Ok (), xs', d'')"
    by (rule Cons.IH) (use F Cons.prems in auto)
  then show ?case using f by auto
qed

lemma flush_total:
  assumes "ready (c, d)"
  obtains c' d' where "cache_flush P (c, d) = (Ok (), c', d')"
proof -
  have inv: "inv (c, d)" and w: "slots_within (capacity d) c"
    using assms(1) by (simp_all add: cache_ready_def)
  note I = cache_invD [OF inv]
  have "\<exists>xs d'. flush_slots P (cache c, d) = (Ok (), xs, d')"
  proof (rule flush_slots_total [OF I(1)])
    show "length (slot_blocks x) = SIZE P" if "x \<in> set (cache c)" for x
      using that I(3) by (auto simp: in_set_conv_nth)
    show "unat (sector_id x) < capacity d" if "x \<in> set (cache c)" "is_dirty x" for x
      using that I(6) w by (auto simp: in_set_conv_nth slots_within_def holds_def)
  qed
  then show thesis using that by (auto simp: cache_flush_def)
qed

end

end
