(* ===== verification/Sector_Store.thy ===== *)
theory Sector_Store
  imports Slot_Cache
begin

text \<open>
  The interface the FAT, the allocation bitmap and the directory code rely on: a store of sectors
  that can be read and overwritten in place. The locale states what they need of it; the slot cache
  on a reliable device provides it.
\<close>

locale sector_store =
  fixes rd :: "u32 \<Rightarrow> ('st, block, 'x) op"
    and upd :: "u32 \<Rightarrow> (block \<Rightarrow> block option) \<Rightarrow> ('st, unit, 'x) op"
    and content :: "'st \<Rightarrow> u32 \<Rightarrow> block"
    and usable :: "'st \<Rightarrow> bool"
    and extent :: "'st \<Rightarrow> nat"
    and sz :: nat
  assumes content_length: "usable st \<Longrightarrow> length (content st s) = sz"
    and rd_ok: "usable st \<Longrightarrow> unat s < extent st \<Longrightarrow>
      \<exists>st'. rd s st = (Ok (content st s), st') \<and> usable st' \<and> content st' = content st \<and> extent st' = extent st"
    and upd_ok: "usable st \<Longrightarrow> unat s < extent st \<Longrightarrow> f (content st s) = Some b \<Longrightarrow> length b = sz \<Longrightarrow>
      \<exists>st'. upd s f st = (Ok (), st') \<and> usable st' \<and> content st' = (content st)(s := b) \<and> extent st' = extent st"
begin

lemma rdE:
  assumes "usable st" and "unat s < extent st"
  obtains st' where "rd s st = (Ok (content st s), st')" and "usable st'"
    and "content st' = content st" and "extent st' = extent st"
  using rd_ok [OF assms] by blast

lemma updE:
  assumes "usable st" and "unat s < extent st" and "f (content st s) = Some b" and "length b = sz"
  obtains st' where "upd s f st = (Ok (), st')" and "usable st'"
    and "content st' = (content st)(s := b)" and "extent st' = extent st"
  using upd_ok [of st s f b] assms by blast

text \<open>What is read back after an update: the new bytes there, the old ones elsewhere.\<close>

lemma rd_after_upd:
  assumes "usable st" and "unat s < extent st" and "unat t < extent st"
    and "f (content st s) = Some b" and "length b = sz"
  shows "\<exists>st'. andthen (upd s f) (\<lambda>_. rd t) st = (Ok (if t = s then b else content st t), st')"
proof -
  obtain st1 where u: "upd s f st = (Ok (), st1)" "usable st1" "content st1 = (content st)(s := b)"
    "extent st1 = extent st" using upd_ok [of st s f b] assms by blast
  obtain st2 where "rd t st1 = (Ok (content st1 t), st2)" using rd_ok [OF u(2)] assms(3) u(4) by auto
  then show ?thesis using u by (auto simp: andthen_def)
qed

end

lemma cview_length:
  assumes "cache_inv sz sector dev_ok (c, d)" and "\<And>s. length (sector d s) = sz"
  shows "length (cview sector (c, d) s) = sz"
proof (cases "\<exists>i. holds c s i")
  case True
  then obtain i where i: "holds c s i" ..
  then show ?thesis using cview_hit [OF assms(1) i] cache_invD(3) [OF assms(1) holdsD(1) [OF i]] by simp
next
  case False
  then show ?thesis using cview_miss [of c s sector d] assms(2) by simp
qed

sublocale reliable_device \<subseteq> store: sector_store "read_sector P" "update_sector P" view ready
  "\<lambda>st. capacity (snd st)" "SIZE P"
proof (unfold_locales, goal_cases)
  case (1 st s)
  then show ?case using cview_length [of "SIZE P" sector dev_ok "fst st" "snd st" s] sector_length
      cache_invD(1) [of "SIZE P" sector dev_ok "fst st" "snd st"] by (simp add: cache_ready_def)
next
  case (2 st s)
  then show ?case by (metis read_sector_total)
next
  case (3 st s f b)
  then show ?case by (metis update_sector_total)
qed

text \<open>What a cache holds after an operation on one sector, and what becomes of a cache when the device changes elsewhere.\<close>

context reliable_device
begin

lemma update_sector_holds:
  assumes "ready st" and "update_sector P s f st = (Ok (), st')" and "holds (fst st') t j"
  shows "t = s \<or> (\<exists>k. holds (fst st) t k)"
proof -
  obtain c d where st: "st = (c, d)" by (cases st)
  have inv: "inv (c, d)" using assms(1) by (simp add: st cache_ready_def)
  obtain i q where "read_inner P s (c, d) = (Ok i, q)" "(as_mut_slice i f :: ('d, 'e, unit) cache_op) q = (Ok (), st')"
    using assms(2) unfolding update_sector_def read_mut_def st by (rule andthen_okE) (rule that)
  then obtain c1 d1 where r: "read_inner P s (c, d) = (Ok i, c1, d1)" and m: "(as_mut_slice i f :: ('d, 'e, unit) cache_op) (c1, d1) = (Ok (), st')"
    by (cases q) simp
  have i: "i < length (cache c1)" using holdsD(1) [OF read_inner_ok(3) [OF inv r]] .
  have "holds c1 t j" using m assms(3) i
    by (auto simp: as_mut_slice_def holds_def Let_def upd_slot_def nth_list_update split: option.splits if_splits)
  then show ?thesis using holds_read_inner [OF inv r] by (simp add: st)
qed

lemma read_sector_holds:
  assumes "ready st" and "read_sector P s st = (Ok b, st')" and "holds (fst st') t j"
  shows "t = s \<or> (\<exists>k. holds (fst st) t k)"
proof -
  obtain c d where st: "st = (c, d)" by (cases st)
  have inv: "inv (c, d)" using assms(1) by (simp add: st cache_ready_def)
  obtain i where r: "read_inner P s (c, d) = (Ok i, st')"
    using assms(2) by (auto simp: read_sector_def cache_read_def st as_slice_def ret_def elim!: andthen_okE)
  then show ?thesis using holds_read_inner [OF inv] assms(3) by (cases st') (simp add: st)
qed

lemma view_not_held: "\<not> (\<exists>i. holds c t i) \<Longrightarrow> view (c, d) t = sector d t"
  using cview_miss [of c t sector d] by blast

text \<open>A cache survives changes of the device where it holds nothing.\<close>

lemma cache_after:
  assumes "ready (c, d)" and "dev_ok d'" and "capacity d' = capacity d"
    and held: "\<And>t i. holds c t i \<Longrightarrow> R t" and same: "\<And>u. R u \<Longrightarrow> sector d' u = sector d u"
  shows "ready (c, d')" and "\<And>u. R u \<Longrightarrow> view (c, d') u = view (c, d) u"
proof -
  have inv: "inv (c, d)" using assms(1) by (simp add: cache_ready_def)
  have inv': "inv (c, d')"
    by (rule cache_inv_device [OF inv assms(2)]) (use held same in blast)
  then show "ready (c, d')" using assms(1,3) by (simp add: cache_ready_def)
  show "view (c, d') u = view (c, d) u" if "R u" for u
    using that same cview_hit [OF inv] cview_hit [OF inv'] view_not_held by (metis (no_types))
qed

end

end
