(* ===== verification/Touched.thy ===== *)
theory Touched
  imports Exfat_Prelude "HOL-Library.Product_Lexorder" "HOL-Library.Multiset"
begin

text \<open>
  The set of sectors a file or directory operation has modified in the caches (\<open>Touched\<close>,
  \<open>FileDirty\<close> in \<open>file.rs\<close>): at most \<open>DEFAULT_TOUCHED_SECTORS\<close> are recorded, after that only the
  fact that there were more. \<open>heapless::Vec\<close> is a list with that capacity; \<open>push\<close> on a full one
  is refused.
\<close>

datatype touched_kind = TkData | TkFat | TkBitmap | TkDir | TkNone

fun rank :: "touched_kind \<Rightarrow> u8" where
  "rank TkData = 0"
| "rank TkBitmap = 1"
| "rank TkFat = 2"
| "rank TkDir = 3"
| "rank TkNone = 4"

record touched_sector =
  ts_kind :: touched_kind
  ts_sector :: u32

definition touched_sector_new :: "touched_kind \<Rightarrow> u32 \<Rightarrow> touched_sector" where
  "touched_sector_new kind sec = \<lparr>ts_kind = kind, ts_sector = sec\<rparr>"

definition DEFAULT_TOUCHED_SECTORS :: nat where
  "DEFAULT_TOUCHED_SECTORS = 6"

record file_dirty =
  sectors :: "touched_sector list"
  overflowed :: bool
  is_dir_entry_dirty :: bool

definition file_dirty_new :: file_dirty where
  "file_dirty_new = \<lparr>sectors = [], overflowed = False, is_dir_entry_dirty = False\<rparr>"

definition touched_insert :: "touched_sector \<Rightarrow> file_dirty \<Rightarrow> file_dirty" where
  "touched_insert touched fd =
     (if find (\<lambda>x. ts_sector x = ts_sector touched) (sectors fd) = None
      then if length (sectors fd) < DEFAULT_TOUCHED_SECTORS
        then fd\<lparr>sectors := sectors fd @ [touched]\<rparr>
        else fd\<lparr>overflowed := True\<rparr>
      else fd)"

text \<open>\<open>sort_unstable_by_key\<close>: the keys are pairwise different, so stability does not matter.\<close>

definition touched_sort :: "file_dirty \<Rightarrow> file_dirty" where
  "touched_sort fd = fd\<lparr>sectors := sort_key (\<lambda>x. (rank (ts_kind x), ts_sector x)) (sectors fd)\<rparr>"

section \<open>Properties\<close>

definition touched_inv :: "file_dirty \<Rightarrow> bool" where
  "touched_inv fd \<longleftrightarrow> distinct (map ts_sector (sectors fd)) \<and> length (sectors fd) \<le> DEFAULT_TOUCHED_SECTORS"

text \<open>Sector \<open>s\<close> will be written by the next flush: it is recorded, or everything is flushed.\<close>

definition covers :: "file_dirty \<Rightarrow> u32 \<Rightarrow> bool" where
  "covers fd s \<longleftrightarrow> overflowed fd \<or> s \<in> ts_sector ` set (sectors fd)"

lemma touched_inv_new [simp]: "touched_inv file_dirty_new"
  by (simp add: touched_inv_def file_dirty_new_def)

lemma touched_insert_inv: "touched_inv fd \<Longrightarrow> touched_inv (touched_insert t fd)"
  by (auto simp: touched_inv_def touched_insert_def find_None_iff)

lemma covers_insert: "covers (touched_insert t fd) s \<longleftrightarrow> covers fd s \<or> s = ts_sector t \<or>
    (overflowed (touched_insert t fd))"
  by (force simp: covers_def touched_insert_def find_None_iff image_iff)

lemma covers_inserted: "covers (touched_insert t fd) (ts_sector t)"
  by (simp add: covers_insert)

lemma covers_mono: "covers fd s \<Longrightarrow> covers (touched_insert t fd) s"
  by (simp add: covers_insert)

lemma touched_insert_dir_dirty [simp]: "is_dir_entry_dirty (touched_insert t fd) = is_dir_entry_dirty fd"
  by (simp add: touched_insert_def)

lemma touched_sort_mset: "mset (sectors (touched_sort fd)) = mset (sectors fd)"
  by (simp add: touched_sort_def)

end
