(* ===== verification/Fat.thy ===== *)
theory Fat
  imports Sector_Store Touched
begin

text \<open>
  The file allocation table (\<open>fat.rs\<close>): entry \<open>c\<close> is a little-endian \<open>u32\<close> in sector
  \<open>start_of_fat_sector + c / num_entries\<close>. The abstraction \<open>fat_map\<close> is the table as a function from
  cluster to raw entry; \<open>set\<close> is a point update of it and \<open>next_cluster_in_fat_chain\<close> decodes one
  point.
\<close>

section \<open>Model\<close>

definition MIN_CLUSER_ID :: u32 where "MIN_CLUSER_ID = 2"
definition CLUSTER_LEN :: u32 where "CLUSTER_LEN = 0xFFFFFFF6"
definition ENTRY_SIZE :: nat where "ENTRY_SIZE = 4"
definition END_OF_CHAIN :: u32 where "END_OF_CHAIN = 0xFFFFFFFF"
definition NO_CLUSTER_ID :: u32 where "NO_CLUSTER_ID = 0"

record fat =
  start_of_fat_sector :: "u32 option"
  fat_cache :: slot_cache

definition fat_new :: "nat \<Rightarrow> nat \<Rightarrow> fat" where
  "fat_new sz n = \<lparr>start_of_fat_sector = None, fat_cache = slot_cache_new sz n\<rparr>"

definition num_entries :: "('d, 'e) platform \<Rightarrow> u32" where
  "num_entries P = of_nat (SIZE P div ENTRY_SIZE)"

text \<open>Division by zero, when a sector is shorter than one entry, panics.\<close>

definition get_sector_id :: "('d, 'e) platform \<Rightarrow> fat \<Rightarrow> u32 \<Rightarrow> (u32, 'e exfat_error) outcome" where
  "get_sector_id P f cluster_id = (case start_of_fat_sector f of
     Some fat_offset \<Rightarrow>
       if num_entries P = 0 then Panic else Ok (fat_offset + cluster_id div num_entries P)
   | None \<Rightarrow> Err (Unexpected ''attemt to access fat when not initialized''))"

text \<open>\<open>chunks[k].copy_from_slice(&v.to_le_bytes())\<close> and \<open>u32::from_le_bytes(chunks[k])\<close>\<close>

definition put_entry :: "nat \<Rightarrow> u32 \<Rightarrow> block \<Rightarrow> block option" where
  "put_entry k v b = (if k < length b div ENTRY_SIZE
     then splice (ENTRY_SIZE * k) (to_le_bytes ENTRY_SIZE v) b else None)"

definition get_entry :: "nat \<Rightarrow> block \<Rightarrow> u32 option" where
  "get_entry k b = (if k < length b div ENTRY_SIZE
     then Some (from_le_bytes (take ENTRY_SIZE (drop (ENTRY_SIZE * k) b))) else None)"

text \<open>Running a cache operation on the cache of the FAT.\<close>

definition fat_zoom :: "('d, 'e, 'a) cache_op \<Rightarrow> (fat \<times> 'd, 'a, 'e exfat_error) op" where
  [monad_simps]: "fat_zoom = zoom (\<lambda>(f, d). (fat_cache f, d)) (\<lambda>(c, d') (f, d). (f\<lparr>fat_cache := c\<rparr>, d'))"

definition fat_flush :: "('d, 'e) platform \<Rightarrow> (fat \<times> 'd, unit, 'e exfat_error) op" where
  "fat_flush P = fat_zoom (cache_flush P)"

definition fat_flush_sector :: "('d, 'e) platform \<Rightarrow> u32 \<Rightarrow> (fat \<times> 'd, unit, 'e exfat_error) op" where
  "fat_flush_sector P sec = fat_zoom (cache_flush_sector P sec)"

text \<open>\<open>Fat::set\<close>; the state also carries the record of touched sectors.\<close>

definition fat_set ::
    "('d, 'e) platform \<Rightarrow> u32 \<Rightarrow> u32 \<Rightarrow> (fat \<times> file_dirty \<times> 'd, unit, 'e exfat_error) op" where
  "fat_set P cluster_id cluster_id_to =
     andthen (assert_that (MIN_CLUSER_ID \<le> cluster_id)) (\<lambda>_.
     andthen (\<lambda>(f, t, d). (get_sector_id P f cluster_id, f, t, d)) (\<lambda>sector_id.
     andthen (modify (\<lambda>(f, t, d). (f, touched_insert (touched_sector_new TkFat sector_id) t, d))) (\<lambda>_.
     zoom (\<lambda>(f, t, d). (f, d)) (\<lambda>(f', d') (f, t, d). (f', t, d'))
       (fat_zoom (update_sector P sector_id
         (put_entry (unat (cluster_id mod num_entries P)) cluster_id_to))))))"

definition next_cluster_in_fat_chain ::
    "('d, 'e) platform \<Rightarrow> u32 \<Rightarrow> (fat \<times> 'd, u32 option, 'e exfat_error) op" where
  "next_cluster_in_fat_chain P cluster_id =
     andthen (assert_that (MIN_CLUSER_ID \<le> cluster_id)) (\<lambda>_.
     andthen (\<lambda>(f, d). (get_sector_id P f cluster_id, f, d)) (\<lambda>sector_id.
     andthen (fat_zoom (read_sector P sector_id)) (\<lambda>slot.
     case get_entry (unat (cluster_id mod num_entries P)) slot of
       None \<Rightarrow> panic
     | Some next_cluster_id \<Rightarrow>
         if MIN_CLUSER_ID \<le> next_cluster_id \<and> next_cluster_id \<le> CLUSTER_LEN
         then ret (Some next_cluster_id) else ret None)))"

section \<open>The table as a map\<close>

text \<open>The raw entry of a cluster in the visible content of the medium.\<close>

definition fat_entry_at :: "('d, 'e) platform \<Rightarrow> u32 \<Rightarrow> (u32 \<Rightarrow> block) \<Rightarrow> u32 \<Rightarrow> u32" where
  "fat_entry_at P off v c = from_le_bytes (take ENTRY_SIZE
     (drop (ENTRY_SIZE * unat (c mod num_entries P)) (v (off + c div num_entries P))))"

definition fat_sector_of :: "('d, 'e) platform \<Rightarrow> u32 \<Rightarrow> u32 \<Rightarrow> u32" where
  "fat_sector_of P off c = off + c div num_entries P"

text \<open>What an entry says about the chain: a successor, or the end of it.\<close>

definition decode_entry :: "u32 \<Rightarrow> u32 option" where
  "decode_entry e = (if MIN_CLUSER_ID \<le> e \<and> e \<le> CLUSTER_LEN then Some e else None)"

definition fat_sizes_ok :: "('d, 'e) platform \<Rightarrow> bool" where
  "fat_sizes_ok P \<longleftrightarrow> ENTRY_SIZE \<le> SIZE P \<and> SIZE P < 2 ^ 32"

lemma unat_num_entries: "fat_sizes_ok P \<Longrightarrow> unat (num_entries P) = SIZE P div 4"
proof -
  assume "fat_sizes_ok P"
  then have "SIZE P div 4 < 2 ^ 32" by (simp add: fat_sizes_ok_def) linarith
  then show ?thesis by (simp add: num_entries_def ENTRY_SIZE_def unat_of_nat)
qed

lemma num_entries_pos: "fat_sizes_ok P \<Longrightarrow> num_entries P \<noteq> 0"
proof
  assume "fat_sizes_ok P" "num_entries P = 0"
  with unat_num_entries [of P] have "SIZE P div 4 = 0" by simp
  then show False using \<open>fat_sizes_ok P\<close> by (simp add: fat_sizes_ok_def ENTRY_SIZE_def div_eq_0_iff)
qed

lemma entry_offset_less: "fat_sizes_ok P \<Longrightarrow> unat (c mod num_entries P) < SIZE P div 4"
  using num_entries_pos [of P] unat_num_entries [of P]
  by (metis mod_less_divisor unat_gt_0 unat_mod)

text \<open>Different clusters have different places.\<close>

lemma entry_place_inj:
  assumes "fat_sizes_ok P" and "c div num_entries P = c' div num_entries P"
    and "c mod num_entries P = c' mod num_entries P"
  shows "c = c'"
  using assms(2,3) by (metis mult_div_mod_eq)

lemma put_entry_length [len_simps]: "put_entry k v b = Some b' \<Longrightarrow> length b' = length b"
  by (auto simp: put_entry_def splice_length split: if_splits)

lemma put_entry_some:
  assumes "k < length b div ENTRY_SIZE"
  shows "\<exists>b'. put_entry k v b = Some b'"
proof -
  have "4 * k + 4 \<le> length b" using assms by (simp add: ENTRY_SIZE_def)
  then show ?thesis using assms by (simp add: put_entry_def splice_def ENTRY_SIZE_def)
qed

lemma get_put_entry_same:
  assumes "put_entry k v b = Some b'"
  shows "from_le_bytes (take ENTRY_SIZE (drop (ENTRY_SIZE * k) b')) = v"
proof -
  have "splice (ENTRY_SIZE * k) (to_le_bytes ENTRY_SIZE v) b = Some b'"
    using assms by (auto simp: put_entry_def split: if_splits)
  from splice_same [OF this] show ?thesis by (simp add: ENTRY_SIZE_def)
qed

lemma get_put_entry_other:
  assumes "put_entry k v b = Some b'" and "j \<noteq> k"
  shows "take ENTRY_SIZE (drop (ENTRY_SIZE * j) b') = take ENTRY_SIZE (drop (ENTRY_SIZE * j) b)"
proof -
  have s: "splice (ENTRY_SIZE * k) (to_le_bytes ENTRY_SIZE v) b = Some b'"
    using assms(1) by (auto simp: put_entry_def split: if_splits)
  have "ENTRY_SIZE * j + ENTRY_SIZE \<le> ENTRY_SIZE * k \<or> ENTRY_SIZE * k + ENTRY_SIZE \<le> ENTRY_SIZE * j"
    using assms(2) by (auto simp: ENTRY_SIZE_def)
  then show ?thesis using splice_disjoint [OF s] by simp
qed

text \<open>Writing an entry is a point update of the table.\<close>

lemma fat_entry_at_put:
  assumes "fat_sizes_ok P" and "put_entry (unat (c mod num_entries P)) v (m (fat_sector_of P off c)) = Some b"
  shows "fat_entry_at P off (m(fat_sector_of P off c := b)) = (fat_entry_at P off m)(c := v)"
proof
  fix c'
  show "fat_entry_at P off (m(fat_sector_of P off c := b)) c' = ((fat_entry_at P off m)(c := v)) c'"
  proof (cases "c' = c")
    case True
    then show ?thesis using get_put_entry_same [OF assms(2)] by (simp add: fat_entry_at_def fat_sector_of_def)
  next
    case False
    show ?thesis
    proof (cases "c' div num_entries P = c div num_entries P")
      case True
      then have "c' mod num_entries P \<noteq> c mod num_entries P" using False entry_place_inj [OF assms(1)] by blast
      then have "unat (c' mod num_entries P) \<noteq> unat (c mod num_entries P)"
        by (simp add: word_unat_eq_iff)
      then show ?thesis using True False get_put_entry_other [OF assms(2)]
        by (simp add: fat_entry_at_def fat_sector_of_def)
    next
      case other: False
      then show ?thesis using False by (simp add: fat_entry_at_def fat_sector_of_def)
    qed
  qed
qed

text \<open>Following a cluster decodes its entry in the sector that was read.\<close>

definition entry_in :: "('d, 'e) platform \<Rightarrow> u32 \<Rightarrow> block \<Rightarrow> u32" where
  "entry_in P c b = from_le_bytes (take ENTRY_SIZE (drop (ENTRY_SIZE * unat (c mod num_entries P)) b))"

lemma fat_entry_at_view: "fat_entry_at P off v c = entry_in P c (v (fat_sector_of P off c))"
  by (simp add: fat_entry_at_def entry_in_def fat_sector_of_def)

lemma next_cluster_eval:
  assumes "start_of_fat_sector f = Some off" and "fat_sizes_ok P" and "2 \<le> c"
    and "read_sector P (fat_sector_of P off c) (fat_cache f, d) = (Ok b, c', d')" and "length b = SIZE P"
  shows "next_cluster_in_fat_chain P c (f, d) = (Ok (decode_entry (entry_in P c b)), f\<lparr>fat_cache := c'\<rparr>, d')"
  using assms num_entries_pos [OF assms(2)] entry_offset_less [OF assms(2), of c]
  by (simp add: next_cluster_in_fat_chain_def assert_that_def MIN_CLUSER_ID_def get_sector_id_def andthen_def fat_zoom_def
      zoom_def fat_sector_of_def get_entry_def decode_entry_def entry_in_def ENTRY_SIZE_def ret_def)

context reliable_device
begin

lemma fat_set_total:
  assumes "ready (fat_cache f, d)" and "start_of_fat_sector f = Some off" and "fat_sizes_ok P"
    and "2 \<le> c" and "unat (fat_sector_of P off c) < capacity d"
  obtains f' d' where
    "fat_set P c v (f, t, d) =
       (Ok (), f', touched_insert (touched_sector_new TkFat (fat_sector_of P off c)) t, d')"
    and "ready (fat_cache f', d')" and "start_of_fat_sector f' = Some off"
    and "fat_entry_at P off (view (fat_cache f', d')) = (fat_entry_at P off (view (fat_cache f, d)))(c := v)"
    and "capacity d' = capacity d"
proof -
  let ?sec = "fat_sector_of P off c" and ?k = "unat (c mod num_entries P)"
  have lv: "length (view (fat_cache f, d) ?sec) = SIZE P" using store.content_length [OF assms(1)] .
  have "?k < length (view (fat_cache f, d) ?sec) div ENTRY_SIZE"
    using entry_offset_less [OF assms(3)] lv by (simp add: ENTRY_SIZE_def)
  then obtain b where b: "put_entry ?k v (view (fat_cache f, d) ?sec) = Some b"
    using put_entry_some by blast
  have "length b = SIZE P" using put_entry_length [OF b] lv by simp
  then obtain st' where u: "update_sector P ?sec (put_entry ?k v) (fat_cache f, d) = (Ok (), st')"
    "ready st'" "view st' = (view (fat_cache f, d))(?sec := b)" "capacity (snd st') = capacity d"
    using store.upd_ok [of "(fat_cache f, d)" ?sec "put_entry ?k v" b] assms(1,5) b by auto
  obtain c' d' where st': "st' = (c', d')" by (cases st')
  show thesis
  proof (rule that)
    show "fat_set P c v (f, t, d) =
        (Ok (), f\<lparr>fat_cache := c'\<rparr>, touched_insert (touched_sector_new TkFat ?sec) t, d')"
      using u(1) assms(2,4) num_entries_pos [OF assms(3)]
      by (simp add: fat_set_def assert_that_def MIN_CLUSER_ID_def get_sector_id_def andthen_def
          modify_def fat_zoom_def zoom_def fat_sector_of_def st')
  qed (use u st' assms(2) fat_entry_at_put [OF assms(3), where m = "view (fat_cache f, d)", OF b] in simp_all)
qed

lemma next_cluster_total:
  assumes "ready (fat_cache f, d)" and "start_of_fat_sector f = Some off" and "fat_sizes_ok P"
    and "2 \<le> c" and "unat (fat_sector_of P off c) < capacity d"
  obtains f' d' where
    "next_cluster_in_fat_chain P c (f, d) =
       (Ok (decode_entry (fat_entry_at P off (view (fat_cache f, d)) c)), f', d')"
    and "ready (fat_cache f', d')" and "start_of_fat_sector f' = Some off"
    and "view (fat_cache f', d') = view (fat_cache f, d)" and "capacity d' = capacity d"
proof -
  let ?sec = "fat_sector_of P off c"
  have lv: "length (view (fat_cache f, d) ?sec) = SIZE P" using store.content_length [OF assms(1)] .
  obtain st' where r: "read_sector P ?sec (fat_cache f, d) = (Ok (view (fat_cache f, d) ?sec), st')"
    "ready st'" "view st' = view (fat_cache f, d)" "capacity (snd st') = capacity d"
    using store.rd_ok [of "(fat_cache f, d)" ?sec] assms(1,5) by auto
  obtain c' d' where st': "st' = (c', d')" by (cases st')
  have "next_cluster_in_fat_chain P c (f, d) =
       (Ok (decode_entry (fat_entry_at P off (view (fat_cache f, d)) c)), f\<lparr>fat_cache := c'\<rparr>, d')"
    unfolding fat_entry_at_view by (rule next_cluster_eval) (use r(1) assms(2-4) lv st' in \<open>simp_all add: fat_sector_of_def\<close>)
  then show thesis by (rule that) (use r st' assms(2) in simp_all)
qed

end

end
