(* ===== verification/Allocation.thy ===== *)
theory Allocation
  imports Fat
begin

text \<open>
  The allocation bitmap (\<open>allocation.rs\<close>): where the bit of a cluster is, the iteration over a run
  of clusters sector by sector, marking runs, the search for free runs, and releasing the clusters
  of a file.

  The bitmap is a predicate on cluster numbers: \<open>cluster_free\<close> reads it from the visible content of
  the medium. Marking a run changes it on exactly that run; the search returns a free run, and fails
  only when no cluster is free.
\<close>

section \<open>Positions in the bitmap\<close>

definition FIRST_CLUSTER_ID :: u32 where "FIRST_CLUSTER_ID = 2"

record bitmap_pos =
  bp_sector :: u32
  bp_bit :: u32

definition CLUSTERS_PER_SECTOR :: "('d, 'e) platform \<Rightarrow> u32" where
  "CLUSTERS_PER_SECTOR P = of_nat (SIZE P * 8)"

definition bitmap_pos_of :: "('d, 'e) platform \<Rightarrow> u32 \<Rightarrow> bitmap_pos" where
  "bitmap_pos_of P cluster_id = (let index = cluster_id - FIRST_CLUSTER_ID in
     \<lparr>bp_sector = index div CLUSTERS_PER_SECTOR P, bp_bit = index mod CLUSTERS_PER_SECTOR P\<rparr>)"

definition bitmap_pos_cluster :: "('d, 'e) platform \<Rightarrow> bitmap_pos \<Rightarrow> u32" where
  "bitmap_pos_cluster P p = bp_sector p * CLUSTERS_PER_SECTOR P + bp_bit p + FIRST_CLUSTER_ID"

definition first_cluster_of :: "('d, 'e) platform \<Rightarrow> u32 \<Rightarrow> u32" where
  "first_cluster_of P sector = bitmap_pos_cluster P \<lparr>bp_sector = sector, bp_bit = 0\<rparr>"

section \<open>Runs, sector by sector\<close>

record bitmap_chunk =
  chunk_sector :: u32
  chunk_bits :: "u32 \<times> u32"

record bitmap_run_chunks =
  rc_cluster_id :: u32
  rc_remaining :: u32

definition run_chunks_new :: "u32 \<Rightarrow> u32 \<Rightarrow> bitmap_run_chunks" where
  "run_chunks_new first_cluster cluster_count = \<lparr>rc_cluster_id = first_cluster, rc_remaining = cluster_count\<rparr>"

definition run_chunks_next ::
    "('d, 'e) platform \<Rightarrow> bitmap_run_chunks \<Rightarrow> bitmap_chunk option \<times> bitmap_run_chunks" where
  "run_chunks_next P rc =
     (if rc_remaining rc = 0 then (None, rc)
      else let pos = bitmap_pos_of P (rc_cluster_id rc);
               taken = min (CLUSTERS_PER_SECTOR P - bp_bit pos) (rc_remaining rc) in
        (Some \<lparr>chunk_sector = bp_sector pos, chunk_bits = (bp_bit pos, bp_bit pos + taken)\<rparr>,
         \<lparr>rc_cluster_id = rc_cluster_id rc + taken, rc_remaining = rc_remaining rc - taken\<rparr>))"

text \<open>The items of the iterator. The division panics before the first item when a sector holds no bits.\<close>

lemma run_chunks_next_decreases:
  assumes "CLUSTERS_PER_SECTOR P \<noteq> 0" and "run_chunks_next P rc = (Some c, rc')"
  shows "unat (rc_remaining rc') < unat (rc_remaining rc)"
proof -
  let ?b = "bp_bit (bitmap_pos_of P (rc_cluster_id rc))"
  let ?t = "min (CLUSTERS_PER_SECTOR P - ?b) (rc_remaining rc)"
  have r: "rc_remaining rc \<noteq> 0" and rc': "rc_remaining rc' = rc_remaining rc - ?t"
    using assms(2) by (auto simp: run_chunks_next_def Let_def split: if_splits)
  have "?b < CLUSTERS_PER_SECTOR P"
    using assms(1) by (simp add: bitmap_pos_of_def Let_def word_mod_less_divisor word_gt_0)
  then have "?t \<noteq> 0" using r by (auto simp: min_def)
  moreover have "?t \<le> rc_remaining rc" by simp
  moreover have "unat (rc_remaining rc - ?t) = unat (rc_remaining rc) - unat ?t"
    using \<open>?t \<le> rc_remaining rc\<close> by (rule unat_sub)
  ultimately show ?thesis using rc' r by (simp add: unat_gt_0)
qed

function run_chunks :: "('d, 'e) platform \<Rightarrow> bitmap_run_chunks \<Rightarrow> bitmap_chunk list" where
  "run_chunks P rc =
     (if CLUSTERS_PER_SECTOR P = 0 then []
      else case run_chunks_next P rc of
        (None, _) \<Rightarrow> []
      | (Some c, rc') \<Rightarrow> c # run_chunks P rc')"
  by pat_completeness auto
termination
  by (relation "measure (\<lambda>(P, rc). unat (rc_remaining rc))")
    (auto dest!: sym [of "(Some _, _)"] intro: run_chunks_next_decreases)

declare run_chunks.simps [simp del]

section \<open>The allocator\<close>

datatype search_policy = FirstRun | LongestRun

record allocated_run =
  run_first_cluster :: u32
  run_cluster_count :: u32

datatype stored_chain =
    StoredEmpty
  | StoredContiguous u32 u32
  | StoredFat u32 u32 u32

record allocation_bitmap_slim =
  first_sector :: u32
  num_sectors :: u32
  bitmap_cluster_count :: u32

record allocator =
  bitmap :: allocation_bitmap_slim
  alloc_cache :: slot_cache
  next_search_cluster :: u32

definition allocator_new :: "nat \<Rightarrow> nat \<Rightarrow> allocator" where
  "allocator_new sz n = \<lparr>bitmap = \<lparr>first_sector = 0, num_sectors = 0, bitmap_cluster_count = 0\<rparr>,
     alloc_cache = slot_cache_new sz n, next_search_cluster = FIRST_CLUSTER_ID\<rparr>"

definition alloc_zoom :: "('d, 'e, 'a) cache_op \<Rightarrow> (allocator \<times> 'd, 'a, 'e exfat_error) op" where
  [monad_simps]: "alloc_zoom =
     zoom (\<lambda>(a, d). (alloc_cache a, d)) (\<lambda>(c, d') (a, d). (a\<lparr>alloc_cache := c\<rparr>, d'))"

definition alloc_flush_sector :: "('d, 'e) platform \<Rightarrow> u32 \<Rightarrow> (allocator \<times> 'd, unit, 'e exfat_error) op" where
  "alloc_flush_sector P sec = alloc_zoom (cache_flush_sector P sec)"

definition alloc_flush :: "('d, 'e) platform \<Rightarrow> (allocator \<times> 'd, unit, 'e exfat_error) op" where
  "alloc_flush P = alloc_zoom (cache_flush P)"

subsection \<open>Marking\<close>

text \<open>One step of \<open>set_bit_range\<close>; an index past the block panics.\<close>

definition set_bit :: "bool \<Rightarrow> nat \<Rightarrow> block \<Rightarrow> block option" where
  "set_bit set_it bit_idx block =
     (let byte = bit_idx div 8; m = push_bit (bit_idx mod 8) 1 in
      if byte < length block
      then Some (block[byte := if set_it then block ! byte OR m else block ! byte AND NOT m])
      else None)"

fun set_bits :: "bool \<Rightarrow> nat list \<Rightarrow> block \<Rightarrow> block option" where
  "set_bits set_it [] block = Some block"
| "set_bits set_it (i # is) block = (case set_bit set_it i block of
     None \<Rightarrow> None
   | Some block' \<Rightarrow> set_bits set_it is block')"

definition set_bit_range :: "u32 \<times> u32 \<Rightarrow> bool \<Rightarrow> block \<Rightarrow> block option" where
  "set_bit_range bits set_it block = set_bits set_it [unat (fst bits)..<unat (snd bits)] block"

definition mark_chunk ::
    "('d, 'e) platform \<Rightarrow> bool \<Rightarrow> bitmap_chunk \<Rightarrow> (allocator \<times> file_dirty \<times> 'd, unit, 'e exfat_error) op" where
  "mark_chunk P allocated chunk =
     andthen (gets (\<lambda>(a, t, d). first_sector (bitmap a) + chunk_sector chunk)) (\<lambda>sector_id.
     andthen (zoom (\<lambda>(a, t, d). (a, d)) (\<lambda>(a', d') (a, t, d). (a', t, d'))
       (alloc_zoom (update_sector P sector_id (set_bit_range (chunk_bits chunk) allocated)))) (\<lambda>_.
     modify (\<lambda>(a, t, d). (a, touched_insert (touched_sector_new TkBitmap sector_id) t, d))))"

definition mark_allocated ::
    "('d, 'e) platform \<Rightarrow> allocated_run \<Rightarrow> bool \<Rightarrow> (allocator \<times> file_dirty \<times> 'd, unit, 'e exfat_error) op" where
  "mark_allocated P run allocated =
     (if run_cluster_count run = 0 then ret ()
      else if run_first_cluster run < FIRST_CLUSTER_ID then fail (InvalidClusterId (run_first_cluster run))
      else if 2 ^ 32 \<le> unat (run_first_cluster run) + unat (run_cluster_count run - 1)
      then fail (InvalidClusterId (run_first_cluster run))
      else let last_cluster = run_first_cluster run + (run_cluster_count run - 1) in
        andthen (gets (\<lambda>(a, t, d). bitmap a)) (\<lambda>bm.
        if FIRST_CLUSTER_ID + bitmap_cluster_count bm \<le> last_cluster
        then fail (InvalidClusterId (run_first_cluster run))
        else andthen (assert_that (CLUSTERS_PER_SECTOR P \<noteq> 0)) (\<lambda>_.
        if num_sectors bm \<le> bp_sector (bitmap_pos_of P last_cluster)
        then fail (InvalidClusterId (run_first_cluster run))
        else for_each (run_chunks P (run_chunks_new (run_first_cluster run) (run_cluster_count run)))
          (mark_chunk P allocated))))"

subsection \<open>Searching\<close>

definition is_free :: "u8 \<Rightarrow> nat \<Rightarrow> bool" where
  "is_free byte bit_in_byte \<longleftrightarrow> byte AND push_bit bit_in_byte 1 = 0"

text \<open>The variables of the scan, and how one step of it ends.\<close>

record scan =
  sc_cluster :: u32
  sc_first :: "u32 option"
  sc_count :: u32
  sc_longest :: "allocated_run option"

datatype scan_result = ScanReturn allocated_run | ScanBreak scan | ScanNext scan

definition close_run :: "search_policy \<Rightarrow> scan \<Rightarrow> allocated_run option \<times> scan" where
  "close_run policy sc =
     (let run = map_option (\<lambda>f. \<lparr>run_first_cluster = f, run_cluster_count = sc_count sc\<rparr>) (sc_first sc);
          sc = sc\<lparr>sc_first := None, sc_count := 0\<rparr> in
      case (policy, run) of
        (FirstRun, run) \<Rightarrow> (run, sc)
      | (LongestRun, Some run) \<Rightarrow>
          (None, if (case sc_longest sc of None \<Rightarrow> True | Some x \<Rightarrow> run_cluster_count x < run_cluster_count run)
                 then sc\<lparr>sc_longest := Some run\<rparr> else sc)
      | (LongestRun, None) \<Rightarrow> (None, sc))"

fun scan_each :: "('x \<Rightarrow> scan \<Rightarrow> scan_result) \<Rightarrow> 'x list \<Rightarrow> scan \<Rightarrow> scan_result" where
  "scan_each f [] sc = ScanNext sc"
| "scan_each f (x # xs) sc = (case f x sc of
     ScanNext sc' \<Rightarrow> scan_each f xs sc'
   | r \<Rightarrow> r)"

definition scan_bit :: "u32 \<Rightarrow> u32 \<Rightarrow> u32 \<Rightarrow> search_policy \<Rightarrow> u8 \<Rightarrow> nat \<Rightarrow> scan \<Rightarrow> scan_result" where
  "scan_bit from_cluster end_cluster num_clusters policy byte bit_idx sc =
     (if sc_cluster sc < from_cluster then ScanNext (sc\<lparr>sc_cluster := sc_cluster sc + 1\<rparr>)
      else if end_cluster \<le> sc_cluster sc then ScanBreak sc
      else if is_free byte bit_idx then
        let first = (case sc_first sc of None \<Rightarrow> sc_cluster sc | Some f \<Rightarrow> f);
            count = sc_count sc + 1 in
        if count = num_clusters
        then ScanReturn \<lparr>run_first_cluster = first, run_cluster_count = count\<rparr>
        else ScanNext (sc\<lparr>sc_first := Some first, sc_count := count, sc_cluster := sc_cluster sc + 1\<rparr>)
      else case close_run policy sc of
        (Some run, _) \<Rightarrow> ScanReturn run
      | (None, sc') \<Rightarrow> ScanNext (sc'\<lparr>sc_cluster := sc_cluster sc' + 1\<rparr>))"

definition scan_chunk :: "u32 \<Rightarrow> u32 \<Rightarrow> u32 \<Rightarrow> search_policy \<Rightarrow> u8 list \<Rightarrow> scan \<Rightarrow> scan_result" where
  "scan_chunk from_cluster end_cluster num_clusters policy chunk sc =
     (if (from_le_bytes chunk :: u32) = 0xFFFFFFFF
      then case close_run policy sc of
        (Some run, _) \<Rightarrow> ScanReturn run
      | (None, sc') \<Rightarrow> ScanNext (sc'\<lparr>sc_cluster := sc_cluster sc' + 32\<rparr>)
      else scan_each (\<lambda>byte. scan_each (scan_bit from_cluster end_cluster num_clusters policy byte) [0..<8])
        chunk sc)"

fun scan_sectors :: "('d, 'e) platform \<Rightarrow> u32 \<Rightarrow> u32 \<Rightarrow> u32 \<Rightarrow> search_policy \<Rightarrow> nat list \<Rightarrow> scan \<Rightarrow>
    (allocator \<times> 'd, scan_result, 'e exfat_error) op" where
  "scan_sectors P from_cluster end_cluster num_clusters policy [] sc = ret (ScanNext sc)"
| "scan_sectors P from_cluster end_cluster num_clusters policy (s # ss) sc =
     andthen (gets (\<lambda>(a, d). first_sector (bitmap a))) (\<lambda>first.
     andthen (alloc_zoom (read_sector P (first + of_nat s))) (\<lambda>slot.
     case scan_each (scan_chunk from_cluster end_cluster num_clusters policy) (as_chunks 4 slot) sc of
       ScanNext sc' \<Rightarrow> scan_sectors P from_cluster end_cluster num_clusters policy ss sc'
     | r \<Rightarrow> ret r))"

definition scan_finish :: "search_policy \<Rightarrow> scan \<Rightarrow> ('s, allocated_run, 'e exfat_error) op" where
  "scan_finish policy sc = (case close_run policy sc of
     (Some run, _) \<Rightarrow> ret run
   | (None, sc') \<Rightarrow> (case sc_longest sc' of Some run \<Rightarrow> ret run | None \<Rightarrow> fail DiskFull))"

definition find_free_clusters_from :: "('d, 'e) platform \<Rightarrow> u32 \<Rightarrow> u32 \<Rightarrow> search_policy \<Rightarrow>
    (allocator \<times> 'd, allocated_run, 'e exfat_error) op" where
  "find_free_clusters_from P from_cluster num_clusters policy =
     (if from_cluster < FIRST_CLUSTER_ID then fail (InvalidClusterId from_cluster)
      else andthen (assert_that (CLUSTERS_PER_SECTOR P \<noteq> 0)) (\<lambda>_.
      andthen (gets (\<lambda>(a, d). bitmap a)) (\<lambda>bm.
      let end_cluster = FIRST_CLUSTER_ID + bitmap_cluster_count bm;
          start = bitmap_pos_of P from_cluster in
      if end_cluster \<le> from_cluster \<or> num_sectors bm \<le> bp_sector start then fail DiskFull
      else andthen (scan_sectors P from_cluster end_cluster num_clusters policy
          [unat (bp_sector start)..<unat (num_sectors bm)]
          \<lparr>sc_cluster = first_cluster_of P (bp_sector start), sc_first = None, sc_count = 0, sc_longest = None\<rparr>)
        (\<lambda>r. case r of
            ScanReturn run \<Rightarrow> ret run
          | ScanBreak sc \<Rightarrow> scan_finish policy sc
          | ScanNext sc \<Rightarrow> scan_finish policy sc))))"

definition find_free_clusters :: "('d, 'e) platform \<Rightarrow> u32 option \<Rightarrow> u32 \<Rightarrow> search_policy \<Rightarrow>
    (allocator \<times> 'd, allocated_run, 'e exfat_error) op" where
  "find_free_clusters P from_cluster num_clusters policy =
     andthen (gets (\<lambda>(a, d). case from_cluster of Some c \<Rightarrow> c | None \<Rightarrow> next_search_cluster a)) (\<lambda>from.
     andthen (\<lambda>st. case find_free_clusters_from P from num_clusters policy st of (r, st') \<Rightarrow>
         if r = Err DiskFull \<and> FIRST_CLUSTER_ID < from
         then find_free_clusters_from P FIRST_CLUSTER_ID num_clusters policy st'
         else (r, st')) (\<lambda>run.
     andthen (modify (\<lambda>(a, d).
       (a\<lparr>next_search_cluster := run_first_cluster run + run_cluster_count run\<rparr>, d))) (\<lambda>_.
     ret run)))"

subsection \<open>Allocating and freeing\<close>

definition allocate :: "('d, 'e) platform \<Rightarrow> stored_chain \<Rightarrow> u32 \<Rightarrow>
    (allocator \<times> file_dirty \<times> 'd, allocated_run, 'e exfat_error) op" where
  "allocate P chain cnt =
     andthen (zoom (\<lambda>(a, t, d). (a, d)) (\<lambda>(a', d') (a, t, d). (a', t, d'))
       (case chain of
          StoredEmpty \<Rightarrow> find_free_clusters P None cnt LongestRun
        | StoredContiguous first cluster_count \<Rightarrow>
            find_free_clusters P (Some (first + cluster_count)) cnt FirstRun
        | StoredFat _ last_cluster _ \<Rightarrow> find_free_clusters P (Some (last_cluster + 1)) cnt FirstRun)) (\<lambda>run.
     andthen (mark_allocated P run True) (\<lambda>_. ret run))"

type_synonym 'd alloc_fat_state = "allocator \<times> fat \<times> file_dirty \<times> 'd"

fun free_fat_chain :: "('d, 'e) platform \<Rightarrow> nat \<Rightarrow> u32 \<Rightarrow> ('d alloc_fat_state, unit, 'e exfat_error) op" where
  "free_fat_chain P 0 cluster_id = ret ()"
| "free_fat_chain P (Suc n) cluster_id =
     andthen (zoom (\<lambda>(a, f, t, d). (f, d)) (\<lambda>(f', d') (a, f, t, d). (a, f', t, d'))
       (next_cluster_in_fat_chain P cluster_id)) (\<lambda>next_cluster_id.
     andthen (zoom (\<lambda>(a, f, t, d). (a, t, d)) (\<lambda>(a', t', d') (a, f, t, d). (a', f, t', d'))
       (mark_allocated P \<lparr>run_first_cluster = cluster_id, run_cluster_count = 1\<rparr> False)) (\<lambda>_.
     andthen (zoom (\<lambda>(a, f, t, d). (f, t, d)) (\<lambda>(f', t', d') (a, f, t, d). (a, f', t', d'))
       (fat_set P cluster_id NO_CLUSTER_ID)) (\<lambda>_.
     case next_cluster_id of
       Some nxt \<Rightarrow> free_fat_chain P n nxt
     | None \<Rightarrow> ret ())))"

definition free :: "('d, 'e) platform \<Rightarrow> stored_chain \<Rightarrow> ('d alloc_fat_state, unit, 'e exfat_error) op" where
  "free P chain = (case chain of
     StoredEmpty \<Rightarrow> ret ()
   | StoredContiguous first cluster_count \<Rightarrow>
       zoom (\<lambda>(a, f, t, d). (a, t, d)) (\<lambda>(a', t', d') (a, f, t, d). (a', f, t', d'))
         (mark_allocated P \<lparr>run_first_cluster = first, run_cluster_count = cluster_count\<rparr> False)
   | StoredFat first _ cluster_count \<Rightarrow> free_fat_chain P (unat cluster_count) first)"

section \<open>Positions\<close>

definition alloc_sizes_ok :: "('d, 'e) platform \<Rightarrow> bool" where
  "alloc_sizes_ok P \<longleftrightarrow> 0 < SIZE P \<and> SIZE P * 8 < 2 ^ 32"

definition cps :: "('d, 'e) platform \<Rightarrow> nat" where
  "cps P = SIZE P * 8"

lemma cps_pos: "alloc_sizes_ok P \<Longrightarrow> 0 < cps P"
  by (simp add: alloc_sizes_ok_def cps_def)

lemma unat_CPS: "alloc_sizes_ok P \<Longrightarrow> unat (CLUSTERS_PER_SECTOR P) = cps P"
  unfolding CLUSTERS_PER_SECTOR_def cps_def alloc_sizes_ok_def
  by (simp only: unat_of_nat len_num1 len_bit0 mult_1_right) (simp add: mod_less)

lemma CPS_nonzero: "alloc_sizes_ok P \<Longrightarrow> CLUSTERS_PER_SECTOR P \<noteq> 0"
  using unat_CPS [of P] cps_pos [of P] by auto

lemma pos_cluster_of: "bitmap_pos_cluster P (bitmap_pos_of P c) = c"
  using div_mult_mod_eq [of "c - FIRST_CLUSTER_ID" "CLUSTERS_PER_SECTOR P"]
  by (simp add: bitmap_pos_cluster_def bitmap_pos_of_def Let_def)

lemma unat_pos_of:
  assumes "alloc_sizes_ok P" and "2 \<le> unat c"
  shows "unat (bp_sector (bitmap_pos_of P c)) = (unat c - 2) div cps P"
    and "unat (bp_bit (bitmap_pos_of P c)) = (unat c - 2) mod cps P"
proof -
  have "unat (c - 2) = unat c - 2" using assms(2) by (simp add: unat_sub word_le_nat_alt)
  then show "unat (bp_sector (bitmap_pos_of P c)) = (unat c - 2) div cps P"
    and "unat (bp_bit (bitmap_pos_of P c)) = (unat c - 2) mod cps P"
    using unat_CPS [OF assms(1)]
    by (simp_all add: bitmap_pos_of_def Let_def FIRST_CLUSTER_ID_def unat_div unat_mod)
qed

section \<open>The chunks of a run\<close>

definition chunk_clusters :: "('d, 'e) platform \<Rightarrow> bitmap_chunk \<Rightarrow> nat list" where
  "chunk_clusters P ch = map (\<lambda>b. unat (chunk_sector ch) * cps P + b + 2)
     [unat (fst (chunk_bits ch))..<unat (snd (chunk_bits ch))]"

definition chunk_ok :: "('d, 'e) platform \<Rightarrow> bitmap_chunk \<Rightarrow> bool" where
  "chunk_ok P ch \<longleftrightarrow> unat (fst (chunk_bits ch)) < unat (snd (chunk_bits ch)) \<and>
     unat (snd (chunk_bits ch)) \<le> cps P"

lemma map_add_upt_from: "map (\<lambda>b. b + k) [i..<j] = [i + k..<j + k]"
  by (induction j) auto

lemma run_chunks_next_nat:
  assumes "alloc_sizes_ok P" and "2 \<le> unat (rc_cluster_id rc)" and "rc_remaining rc \<noteq> 0"
    and "unat (rc_cluster_id rc) + unat (rc_remaining rc) \<le> 2 ^ 32"
  obtains ch rc' t where "run_chunks_next P rc = (Some ch, rc')" and "chunk_ok P ch"
    and "chunk_clusters P ch = [unat (rc_cluster_id rc)..<unat (rc_cluster_id rc) + t]"
    and "0 < t" and "unat (rc_remaining rc') = unat (rc_remaining rc) - t" and "t \<le> unat (rc_remaining rc)"
    and "t < unat (rc_remaining rc) \<Longrightarrow> unat (rc_cluster_id rc') = unat (rc_cluster_id rc) + t"
    and "unat (chunk_sector ch) = (unat (rc_cluster_id rc) - 2) div cps P"
proof -
  let ?c = "rc_cluster_id rc" and ?r = "rc_remaining rc"
  let ?pos = "bitmap_pos_of P ?c"
  let ?t = "min (CLUSTERS_PER_SECTOR P - bp_bit ?pos) ?r"
  note pos = unat_pos_of [OF assms(1,2)]
  have bl: "unat (bp_bit ?pos) < cps P" using pos(2) cps_pos [OF assms(1)] by simp
  have "unat (CLUSTERS_PER_SECTOR P - bp_bit ?pos) = cps P - unat (bp_bit ?pos)"
    using bl unat_CPS [OF assms(1)] by (simp add: unat_sub word_le_nat_alt)
  then have t: "unat ?t = min (cps P - unat (bp_bit ?pos)) (unat ?r)"
    by (auto simp: min_def word_le_nat_alt)
  have "cps P < 2 ^ 32" using assms(1) by (simp add: alloc_sizes_ok_def cps_def)
  then have ub: "unat (bp_bit ?pos + ?t) = unat (bp_bit ?pos) + unat ?t"
    using t bl by (intro unat_add_no_overflow) simp
  have r0: "0 < unat ?r" using assms(3) by (simp add: unat_gt_0)
  have dm: "unat ?c - 2 = unat (bp_sector ?pos) * cps P + unat (bp_bit ?pos)"
    unfolding pos by (simp add: mult.commute)
  show thesis
  proof (rule that)
    show "run_chunks_next P rc = (Some \<lparr>chunk_sector = bp_sector ?pos, chunk_bits = (bp_bit ?pos, bp_bit ?pos + ?t)\<rparr>,
        \<lparr>rc_cluster_id = ?c + ?t, rc_remaining = ?r - ?t\<rparr>)"
      using assms(3) by (simp add: run_chunks_next_def Let_def)
    show "chunk_ok P \<lparr>chunk_sector = bp_sector ?pos, chunk_bits = (bp_bit ?pos, bp_bit ?pos + ?t)\<rparr>"
      using t bl r0 by (simp add: chunk_ok_def ub)
    have "chunk_clusters P \<lparr>chunk_sector = bp_sector ?pos, chunk_bits = (bp_bit ?pos, bp_bit ?pos + ?t)\<rparr> =
        map (\<lambda>b. b + (unat (bp_sector ?pos) * cps P + 2)) [unat (bp_bit ?pos)..<unat (bp_bit ?pos) + unat ?t]"
      by (simp add: chunk_clusters_def ub algebra_simps)
    also have "\<dots> = [unat (bp_bit ?pos) + (unat (bp_sector ?pos) * cps P + 2)..<
        unat (bp_bit ?pos) + unat ?t + (unat (bp_sector ?pos) * cps P + 2)]"
      by (rule map_add_upt_from)
    also have "\<dots> = [unat ?c..<unat ?c + unat ?t]"
      using dm assms(2) by (intro arg_cong2 [of _ _ _ _ upt]) linarith+
    finally show "chunk_clusters P \<lparr>chunk_sector = bp_sector ?pos, chunk_bits = (bp_bit ?pos, bp_bit ?pos + ?t)\<rparr>
        = [unat ?c..<unat ?c + unat ?t]" .
    show "0 < unat ?t" using t bl r0 by simp
    show "unat (rc_remaining \<lparr>rc_cluster_id = ?c + ?t, rc_remaining = ?r - ?t\<rparr>) = unat ?r - unat ?t"
      by (simp add: unat_sub)
    show "unat ?t \<le> unat ?r" using t by simp
    show "unat (rc_cluster_id \<lparr>rc_cluster_id = ?c + ?t, rc_remaining = ?r - ?t\<rparr>) = unat ?c + unat ?t"
      if "unat ?t < unat ?r"
      using that assms(4) by (simp add: unat_add_no_overflow)
    show "unat (chunk_sector \<lparr>chunk_sector = bp_sector ?pos, chunk_bits = (bp_bit ?pos, bp_bit ?pos + ?t)\<rparr>)
        = (unat ?c - 2) div cps P" using pos by simp
  qed
qed

text \<open>The chunks cover the clusters of the run, in order, each exactly once.\<close>

lemma run_chunks_partition:
  assumes "alloc_sizes_ok P" and "2 \<le> unat (rc_cluster_id rc)"
    and "unat (rc_cluster_id rc) + unat (rc_remaining rc) \<le> 2 ^ 32"
  shows "concat (map (chunk_clusters P) (run_chunks P rc))
      = [unat (rc_cluster_id rc)..<unat (rc_cluster_id rc) + unat (rc_remaining rc)] \<and>
    (\<forall>ch \<in> set (run_chunks P rc). chunk_ok P ch)"
  using assms
proof (induction "unat (rc_remaining rc)" arbitrary: rc rule: less_induct)
  case less
  show ?case
  proof (cases "rc_remaining rc = 0")
    case True
    then have "run_chunks P rc = []" by (subst run_chunks.simps) (simp add: run_chunks_next_def)
    then show ?thesis using True by simp
  next
    case False
    obtain ch rc' t where n: "run_chunks_next P rc = (Some ch, rc')" "chunk_ok P ch"
      "chunk_clusters P ch = [unat (rc_cluster_id rc)..<unat (rc_cluster_id rc) + t]"
      "0 < t" "unat (rc_remaining rc') = unat (rc_remaining rc) - t" "t \<le> unat (rc_remaining rc)"
      "t < unat (rc_remaining rc) \<Longrightarrow> unat (rc_cluster_id rc') = unat (rc_cluster_id rc) + t"
      using run_chunks_next_nat [OF less.prems(1,2) False less.prems(3)] by metis
    have rc: "run_chunks P rc = ch # run_chunks P rc'"
      using n(1) CPS_nonzero [OF less.prems(1)] by (subst run_chunks.simps) simp
    show ?thesis
    proof (cases "t < unat (rc_remaining rc)")
      case True
      have "concat (map (chunk_clusters P) (run_chunks P rc'))
          = [unat (rc_cluster_id rc')..<unat (rc_cluster_id rc') + unat (rc_remaining rc')] \<and>
        (\<forall>ch \<in> set (run_chunks P rc'). chunk_ok P ch)"
        using n(4,5,7) True less.prems by (intro less.hyps) simp_all
      moreover have "[c..<c + r] = [c..<c + k] @ [c + k..<c + r]" if "k < r" for c k r :: nat
        using upt_add_eq_append [of c "c + k" "r - k"] that by simp
      ultimately show ?thesis using n(2,3,5,7) True by (simp add: rc)
    next
      case False
      then have "rc_remaining rc' = 0" using n(5,6) by (simp add: unat_0_iff [symmetric])
      then have "run_chunks P rc' = []" by (subst run_chunks.simps) (simp add: run_chunks_next_def)
      then show ?thesis using n(2,3,6) False by (simp add: rc)
    qed
  qed
qed

section \<open>Bits of a block\<close>

definition block_bit :: "block \<Rightarrow> nat \<Rightarrow> bool" where
  "block_bit b i = bit (b ! (i div 8)) (i mod 8)"

lemma is_free_bit: "k < 8 \<Longrightarrow> is_free byte k \<longleftrightarrow> \<not> bit byte k"
proof -
  assume k: "k < 8"
  have "byte AND push_bit k 1 = (if bit byte k then push_bit k 1 else 0)"
    by (rule bit_word_eqI) (auto simp: bit_simps)
  moreover have "bit (push_bit k 1 :: u8) k" using k by (simp only: bit_push_bit_iff) simp
  then have "(push_bit k 1 :: u8) \<noteq> 0" by (metis bit_0_eq bot_apply bot_bool_def)
  ultimately show ?thesis by (simp add: is_free_def)
qed

lemma set_bit_effect:
  assumes "set_bit v i b = Some b'"
  shows "length b' = length b" and "j < 8 * length b \<Longrightarrow> block_bit b' j = (if j = i then v else block_bit b j)"
proof -
  have i: "i div 8 < length b"
    and b': "b' = b[i div 8 := if v then b ! (i div 8) OR push_bit (i mod 8) 1
        else b ! (i div 8) AND NOT (push_bit (i mod 8) 1)]"
    using assms by (auto simp: set_bit_def Let_def split: if_splits)
  show "length b' = length b" using b' by simp
  assume j: "j < 8 * length b"
  have e: "j = i \<longleftrightarrow> j div 8 = i div 8 \<and> j mod 8 = i mod 8" by (metis div_mult_mod_eq)
  have "j mod 8 < 8" by simp
  then show "block_bit b' j = (if j = i then v else block_bit b j)"
    unfolding b' e block_bit_def using i by (cases "j div 8 = i div 8") (auto simp: bit_simps)
qed

lemma set_bits_effect:
  assumes "set_bits v is b = Some b'"
  shows "length b' = length b \<and> (\<forall>j < 8 * length b. block_bit b' j = (if j \<in> set is then v else block_bit b j))"
  using assms
proof (induction "is" arbitrary: b)
  case Nil
  then show ?case by simp
next
  case (Cons i "is")
  then obtain b1 where b1: "set_bit v i b = Some b1" "set_bits v is b1 = Some b'"
    by (auto split: option.splits)
  then show ?case using Cons.IH [OF b1(2)] set_bit_effect [OF b1(1)] by auto
qed

lemma set_bits_some:
  assumes "\<forall>i \<in> set is. i < 8 * length b"
  shows "\<exists>b'. set_bits v is b = Some b'"
  using assms
proof (induction "is" arbitrary: b)
  case Nil
  then show ?case by simp
next
  case (Cons i "is")
  then have "i div 8 < length b" by (simp add: less_mult_imp_div_less mult.commute)
  then obtain b1 where b1: "set_bit v i b = Some b1" by (simp add: set_bit_def Let_def)
  then show ?case using Cons set_bit_effect(1) [OF b1] by auto
qed

lemma set_bit_range_ok:
  assumes "unat hi \<le> 8 * length b"
  obtains b' where "set_bit_range (lo, hi) v b = Some b'" and "length b' = length b"
    and "\<And>j. j < 8 * length b \<Longrightarrow> block_bit b' j = (if unat lo \<le> j \<and> j < unat hi then v else block_bit b j)"
proof -
  have "\<forall>i \<in> set [unat lo..<unat hi]. i < 8 * length b" using assms by auto
  then obtain b' where b': "set_bits v [unat lo..<unat hi] b = Some b'" using set_bits_some by blast
  then show thesis using that set_bits_effect [OF b'] by (simp add: set_bit_range_def)
qed

section \<open>The bitmap as a predicate on clusters\<close>

definition cluster_allocated :: "('d, 'e) platform \<Rightarrow> u32 \<Rightarrow> (u32 \<Rightarrow> block) \<Rightarrow> nat \<Rightarrow> bool" where
  "cluster_allocated P off v c = block_bit (v (off + of_nat ((c - 2) div cps P))) ((c - 2) mod cps P)"

text \<open>The bitmap of an allocator lies on the device, covers the cluster heap, and has no wrap-around.\<close>

definition bitmap_ok :: "('d, 'e) platform \<Rightarrow> nat \<Rightarrow> allocation_bitmap_slim \<Rightarrow> bool" where
  "bitmap_ok P cap bm \<longleftrightarrow> alloc_sizes_ok P \<and>
     unat (first_sector bm) + unat (num_sectors bm) \<le> cap \<and>
     unat (first_sector bm) + unat (num_sectors bm) < 2 ^ 32 \<and>
     unat (bitmap_cluster_count bm) \<le> unat (num_sectors bm) * cps P \<and>
     unat (num_sectors bm) * cps P + 2 < 2 ^ 32"

definition in_bitmap :: "allocation_bitmap_slim \<Rightarrow> u32 \<Rightarrow> bool" where
  "in_bitmap bm s \<longleftrightarrow> unat (first_sector bm) \<le> unat s \<and> unat s < unat (first_sector bm) + unat (num_sectors bm)"

definition bitmap_end :: "allocation_bitmap_slim \<Rightarrow> nat" where
  "bitmap_end bm = 2 + unat (bitmap_cluster_count bm)"

lemma bitmap_sector_less:
  assumes "bitmap_ok P cap bm" and "2 \<le> c" and "c < unat (num_sectors bm) * cps P + 2"
  shows "(c - 2) div cps P < unat (num_sectors bm)"
proof -
  have "c - 2 < unat (num_sectors bm) * cps P" using assms(2,3) by simp
  then show ?thesis by (rule less_mult_imp_div_less)
qed

lemma bitmap_sector_addr:
  assumes "bitmap_ok P cap bm" and "s < unat (num_sectors bm)"
  shows "unat (first_sector bm + of_nat s) = unat (first_sector bm) + s" and "unat (first_sector bm) + s < cap"
proof -
  have "s < 2 ^ 32" using assms unat_less_length [of "num_sectors bm"] by simp
  then have "unat (of_nat s :: u32) = s" by (simp add: unat_of_nat)
  then show "unat (first_sector bm + of_nat s) = unat (first_sector bm) + s"
    using assms by (simp add: unat_add_no_overflow bitmap_ok_def)
  show "unat (first_sector bm) + s < cap" using assms by (simp add: bitmap_ok_def)
qed

lemma bitmap_sector_inj:
  assumes "bitmap_ok P cap bm" and "s < unat (num_sectors bm)" and "t < unat (num_sectors bm)"
    and "first_sector bm + of_nat s = first_sector bm + of_nat t"
  shows "s = t"
  using bitmap_sector_addr(1) [OF assms(1,2)] bitmap_sector_addr(1) [OF assms(1,3)] assms(4)
  by (metis add_left_cancel)

text \<open>Rewriting a range of bits of one sector changes the clusters of that range only.\<close>

lemma cluster_allocated_upd:
  assumes bm: "bitmap_ok P cap bm" and s: "s < unat (num_sectors bm)"
    and len: "length (v (first_sector bm + of_nat s)) = SIZE P"
    and bits: "\<And>j. j < cps P \<Longrightarrow> block_bit b j =
        (if lo \<le> j \<and> j < hi then x else block_bit (v (first_sector bm + of_nat s)) j)"
    and c: "2 \<le> c" "c < unat (num_sectors bm) * cps P + 2" and hi: "hi \<le> cps P"
  shows "cluster_allocated P (first_sector bm) (v(first_sector bm + of_nat s := b)) c =
    (if s * cps P + lo + 2 \<le> c \<and> c < s * cps P + hi + 2 then x else cluster_allocated P (first_sector bm) v c)"
proof -
  have cp: "0 < cps P" using bm cps_pos by (auto simp: bitmap_ok_def)
  let ?q = "(c - 2) div cps P" and ?r = "(c - 2) mod cps P"
  have q: "?q < unat (num_sectors bm)" using bitmap_sector_less [OF bm c] .
  have r: "?r < cps P" using cp by simp
  have dm: "c = ?q * cps P + ?r + 2" using c(1) by simp
  show ?thesis
  proof (cases "?q = s")
    case True
    then have "c = s * cps P + ?r + 2" using dm by (simp only:)
    then have "s * cps P + lo + 2 \<le> c \<and> c < s * cps P + hi + 2 \<longleftrightarrow> lo \<le> ?r \<and> ?r < hi"
      by linarith
    then show ?thesis using True bits [OF r] by (simp add: cluster_allocated_def)
  next
    case False
    then have "first_sector bm + of_nat ?q \<noteq> first_sector bm + of_nat s"
      using bitmap_sector_inj [OF bm q s] by blast
    moreover have "\<not> (s * cps P + lo + 2 \<le> c \<and> c < s * cps P + hi + 2)"
    proof
      assume a: "s * cps P + lo + 2 \<le> c \<and> c < s * cps P + hi + 2"
      then have "s * cps P \<le> c - 2" "c - 2 < Suc s * cps P" using hi by auto
      then have "?q = s" using cp by (intro div_nat_eqI) (simp_all add: mult.commute)
      then show False using False by simp
    qed
    ultimately show ?thesis by (auto simp: cluster_allocated_def)
  qed
qed

section \<open>Marking a run\<close>

text \<open>The touched set records the sectors of the bitmap.\<close>

definition touch_sectors :: "touched_kind \<Rightarrow> u32 list \<Rightarrow> file_dirty \<Rightarrow> file_dirty" where
  "touch_sectors k ss t = foldl (\<lambda>t s. touched_insert (touched_sector_new k s) t) t ss"

lemma touch_sectors_simps [simp]:
  "touch_sectors k [] t = t"
  "touch_sectors k (s # ss) t = touch_sectors k ss (touched_insert (touched_sector_new k s) t)"
  by (simp_all add: touch_sectors_def)

lemma touch_sectors_covers:
  "covers t s \<or> s \<in> set ss \<Longrightarrow> covers (touch_sectors k ss t) s"
proof (induction ss arbitrary: t)
  case Nil
  then show ?case by simp
next
  case (Cons x xs)
  then show ?case
    using covers_mono [of t s "touched_sector_new k x"] covers_inserted [of "touched_sector_new k x" t]
    by (auto simp: touched_sector_new_def)
qed

lemma touch_sectors_inv: "touched_inv t \<Longrightarrow> touched_inv (touch_sectors k ss t)"
  by (induction ss arbitrary: t) (simp_all add: touched_insert_inv)

definition bitmap_sector_of :: "('d, 'e) platform \<Rightarrow> allocation_bitmap_slim \<Rightarrow> nat \<Rightarrow> u32" where
  "bitmap_sector_of P bm c = first_sector bm + of_nat ((c - 2) div cps P)"

context reliable_device
begin

abbreviation allocated :: "allocator \<Rightarrow> 'd \<Rightarrow> nat \<Rightarrow> bool" where
  "allocated a d \<equiv> cluster_allocated P (first_sector (bitmap a)) (view (alloc_cache a, d))"

lemma mark_chunk_total:
  assumes "ready (alloc_cache a, d)" and bm: "bitmap_ok P (capacity d) (bitmap a)"
    and ch: "chunk_ok P ch" "unat (chunk_sector ch) < unat (num_sectors (bitmap a))"
  obtains c' d' where
    "mark_chunk P x ch (a, t, d) =
       (Ok (), a\<lparr>alloc_cache := c'\<rparr>,
        touched_insert (touched_sector_new TkBitmap (first_sector (bitmap a) + chunk_sector ch)) t, d')"
    and "ready (c', d')" and "capacity d' = capacity d"
    and "\<And>c. 2 \<le> c \<Longrightarrow> c < unat (num_sectors (bitmap a)) * cps P + 2 \<Longrightarrow>
      allocated (a\<lparr>alloc_cache := c'\<rparr>) d' c = (if c \<in> set (chunk_clusters P ch) then x else allocated a d c)"
    and "\<And>s. \<not> in_bitmap (bitmap a) s \<Longrightarrow> view (c', d') s = view (alloc_cache a, d) s"
    and "\<And>u i. holds c' u i \<Longrightarrow> in_bitmap (bitmap a) u \<or> (\<exists>j. holds (alloc_cache a) u j)"
proof -
  let ?st = "(alloc_cache a, d)" and ?sec = "first_sector (bitmap a) + chunk_sector ch"
  obtain lo hi where bits: "chunk_bits ch = (lo, hi)" by (cases "chunk_bits ch")
  have hi: "unat hi \<le> cps P" using ch(1) bits by (simp add: chunk_ok_def)
  have sec: "unat ?sec < capacity d" "in_bitmap (bitmap a) ?sec"
    using bitmap_sector_addr [OF bm ch(2)] ch(2) by (simp_all add: in_bitmap_def)
  have len: "length (view ?st ?sec) = SIZE P" using store.content_length [OF assms(1)] .
  have "unat hi \<le> 8 * length (view ?st ?sec)" using hi len by (simp add: cps_def)
  then obtain b where b: "set_bit_range (lo, hi) x (view ?st ?sec) = Some b" "length b = SIZE P"
    "\<And>j. j < cps P \<Longrightarrow> block_bit b j = (if unat lo \<le> j \<and> j < unat hi then x else block_bit (view ?st ?sec) j)"
    using set_bit_range_ok [of hi "view ?st ?sec" lo x] len by (auto simp: cps_def mult.commute)
  obtain st' where u: "update_sector P ?sec (set_bit_range (lo, hi) x) ?st = (Ok (), st')"
    "ready st'" "view st' = (view ?st)(?sec := b)" "capacity (snd st') = capacity d"
    using store.upd_ok [of ?st ?sec "set_bit_range (lo, hi) x" b] assms(1) sec(1) b by auto
  obtain c' d' where st': "st' = (c', d')" by (cases st')
  show thesis
  proof (rule that)
    show "mark_chunk P x ch (a, t, d) =
       (Ok (), a\<lparr>alloc_cache := c'\<rparr>, touched_insert (touched_sector_new TkBitmap ?sec) t, d')"
      using u(1) bits by (simp add: mark_chunk_def andthen_def modify_def gets_def alloc_zoom_def zoom_def st')
    fix c assume c: "2 \<le> c" "c < unat (num_sectors (bitmap a)) * cps P + 2"
    have "(c \<in> set (chunk_clusters P ch)) =
        (unat (chunk_sector ch) * cps P + unat lo + 2 \<le> c \<and> c < unat (chunk_sector ch) * cps P + unat hi + 2)"
      using c(1) by (auto simp: chunk_clusters_def bits image_iff intro!: bexI [of _ "c - 2 - unat (chunk_sector ch) * cps P"])
    then show "allocated (a\<lparr>alloc_cache := c'\<rparr>) d' c =
        (if c \<in> set (chunk_clusters P ch) then x else allocated a d c)"
      using cluster_allocated_upd [OF bm ch(2), of "view ?st" b "unat lo" "unat hi" x c] len b(3) c hi u(3)
      by (simp add: st')
  next
    show "view (c', d') s = view (alloc_cache a, d) s" if "\<not> in_bitmap (bitmap a) s" for s
      using u(3) st' sec(2) that by auto
    show "in_bitmap (bitmap a) v \<or> (\<exists>j. holds (alloc_cache a) v j)" if "holds c' v i" for v i
      using update_sector_holds [OF assms(1) u(1), of v i] that sec(2) st' by auto
  qed (use u st' in simp_all)
qed

lemma mark_chunks_total:
  assumes "ready (alloc_cache a, d)" and "bitmap_ok P (capacity d) (bitmap a)"
    and "\<forall>ch \<in> set chs. chunk_ok P ch \<and> unat (chunk_sector ch) < unat (num_sectors (bitmap a))"
  shows "\<exists>c' d'. for_each chs (mark_chunk P x) (a, t, d) =
      (Ok (), a\<lparr>alloc_cache := c'\<rparr>,
       touch_sectors TkBitmap (map (\<lambda>ch. first_sector (bitmap a) + chunk_sector ch) chs) t, d') \<and>
    ready (c', d') \<and> capacity d' = capacity d \<and>
    (\<forall>c. 2 \<le> c \<longrightarrow> c < unat (num_sectors (bitmap a)) * cps P + 2 \<longrightarrow>
      allocated (a\<lparr>alloc_cache := c'\<rparr>) d' c =
        (if c \<in> set (concat (map (chunk_clusters P) chs)) then x else allocated a d c)) \<and>
    (\<forall>s. \<not> in_bitmap (bitmap a) s \<longrightarrow> view (c', d') s = view (alloc_cache a, d) s) \<and>
    (\<forall>u i. holds c' u i \<longrightarrow> in_bitmap (bitmap a) u \<or> (\<exists>j. holds (alloc_cache a) u j))"
  using assms
proof (induction chs arbitrary: a t d)
  case Nil
  then show ?case by (intro exI [of _ "alloc_cache a"] exI [of _ d]) (auto simp: ret_def)
next
  case (Cons ch chs)
  obtain c1 d1 where m: "mark_chunk P x ch (a, t, d) =
       (Ok (), a\<lparr>alloc_cache := c1\<rparr>,
        touched_insert (touched_sector_new TkBitmap (first_sector (bitmap a) + chunk_sector ch)) t, d1)"
    "ready (c1, d1)" "capacity d1 = capacity d"
    "\<And>c. 2 \<le> c \<Longrightarrow> c < unat (num_sectors (bitmap a)) * cps P + 2 \<Longrightarrow>
      allocated (a\<lparr>alloc_cache := c1\<rparr>) d1 c = (if c \<in> set (chunk_clusters P ch) then x else allocated a d c)"
    "\<And>s. \<not> in_bitmap (bitmap a) s \<Longrightarrow> view (c1, d1) s = view (alloc_cache a, d) s"
    "\<And>u i. holds c1 u i \<Longrightarrow> in_bitmap (bitmap a) u \<or> (\<exists>j. holds (alloc_cache a) u j)"
    by (rule mark_chunk_total [of a d ch x t]) (use Cons.prems in simp_all)
  let ?t1 = "touched_insert (touched_sector_new TkBitmap (first_sector (bitmap a) + chunk_sector ch)) t"
  obtain c' d' where ih: "for_each chs (mark_chunk P x) (a\<lparr>alloc_cache := c1\<rparr>, ?t1, d1) =
      (Ok (), a\<lparr>alloc_cache := c'\<rparr>,
       touch_sectors TkBitmap (map (\<lambda>ch. first_sector (bitmap a) + chunk_sector ch) chs) ?t1, d')"
    "ready (c', d')" "capacity d' = capacity d1"
    "\<And>c. 2 \<le> c \<Longrightarrow> c < unat (num_sectors (bitmap a)) * cps P + 2 \<Longrightarrow>
      allocated (a\<lparr>alloc_cache := c'\<rparr>) d' c =
        (if c \<in> set (concat (map (chunk_clusters P) chs)) then x else allocated (a\<lparr>alloc_cache := c1\<rparr>) d1 c)"
    "\<And>s. \<not> in_bitmap (bitmap a) s \<Longrightarrow> view (c', d') s = view (c1, d1) s"
    "\<forall>u i. holds c' u i \<longrightarrow> in_bitmap (bitmap a) u \<or> (\<exists>j. holds c1 u j)"
    using Cons.IH [of "a\<lparr>alloc_cache := c1\<rparr>" d1 ?t1] Cons.prems m(2,3) by auto
  show ?case
  proof (intro exI [of _ c'] exI [of _ d'] conjI allI impI)
    show "allocated (a\<lparr>alloc_cache := c'\<rparr>) d' c =
        (if c \<in> set (concat (map (chunk_clusters P) (ch # chs))) then x else allocated a d c)"
      if "2 \<le> c" "c < unat (num_sectors (bitmap a)) * cps P + 2" for c
      using ih(4) [OF that] m(4) [OF that] by auto
    show "in_bitmap (bitmap a) u \<or> (\<exists>j. holds (alloc_cache a) u j)" if "holds c' u i" for u i
      using ih(6) m(6) that by blast
  qed (simp_all add: andthen_def m ih)
qed

text \<open>
  Marking a run that lies in the cluster heap: it succeeds, changes the bits of exactly the clusters of
  the run, and every sector it dirties is covered by the touched set.
\<close>

lemma mark_allocated_total:
  assumes "ready (alloc_cache a, d)" and bm: "bitmap_ok P (capacity d) (bitmap a)"
    and "2 \<le> unat (run_first_cluster r)"
    and "unat (run_first_cluster r) + unat (run_cluster_count r) \<le> bitmap_end (bitmap a)"
  obtains c' t' d' where "mark_allocated P r x (a, t, d) = (Ok (), a\<lparr>alloc_cache := c'\<rparr>, t', d')"
    and "ready (c', d')" and "capacity d' = capacity d"
    and "\<And>c. 2 \<le> c \<Longrightarrow> c < bitmap_end (bitmap a) \<Longrightarrow> allocated (a\<lparr>alloc_cache := c'\<rparr>) d' c =
      (if unat (run_first_cluster r) \<le> c \<and> c < unat (run_first_cluster r) + unat (run_cluster_count r)
       then x else allocated a d c)"
    and "\<And>s. \<not> in_bitmap (bitmap a) s \<Longrightarrow> view (c', d') s = view (alloc_cache a, d) s"
    and "\<And>s. covers t s \<Longrightarrow> covers t' s" and "touched_inv t \<Longrightarrow> touched_inv t'"
    and "\<And>c. unat (run_first_cluster r) \<le> c \<Longrightarrow> c < unat (run_first_cluster r) + unat (run_cluster_count r) \<Longrightarrow>
      covers t' (bitmap_sector_of P (bitmap a) c)"
    and "\<And>u i. holds c' u i \<Longrightarrow> in_bitmap (bitmap a) u \<or> (\<exists>j. holds (alloc_cache a) u j)"
proof (cases "run_cluster_count r = 0")
  case True
  then show thesis
    using assms(1) by (intro that [of "alloc_cache a" t d]) (auto simp: mark_allocated_def ret_def)
next
  case False
  let ?f = "run_first_cluster r" and ?n = "run_cluster_count r"
  let ?rc = "run_chunks_new ?f ?n"
  have sz: "alloc_sizes_ok P" using bm by (simp add: bitmap_ok_def)
  have n0: "0 < unat ?n" using False by (simp add: unat_gt_0)
  have fits: "unat ?f + unat ?n \<le> unat (num_sectors (bitmap a)) * cps P + 2"
    "unat (num_sectors (bitmap a)) * cps P + 2 < 2 ^ 32" "bitmap_end (bitmap a) \<le> unat (num_sectors (bitmap a)) * cps P + 2"
    using assms(4) bm by (auto simp: bitmap_ok_def bitmap_end_def)
  have n1: "unat (?n - 1) = unat ?n - 1" using n0 by (simp add: unat_sub word_le_nat_alt)
  have last: "unat (?f + (?n - 1)) = unat ?f + unat ?n - 1"
    using fits n0 n1 by (simp add: unat_add_no_overflow)
  have "unat (FIRST_CLUSTER_ID + bitmap_cluster_count (bitmap a)) = bitmap_end (bitmap a)"
    using bm by (auto simp: FIRST_CLUSTER_ID_def bitmap_end_def bitmap_ok_def unat_add_no_overflow)
  then have g1: "\<not> FIRST_CLUSTER_ID + bitmap_cluster_count (bitmap a) \<le> ?f + (?n - 1)"
    using last assms(4) n0 by (simp add: word_le_nat_alt)
  have part: "concat (map (chunk_clusters P) (run_chunks P ?rc)) = [unat ?f..<unat ?f + unat ?n]"
    "\<forall>ch \<in> set (run_chunks P ?rc). chunk_ok P ch"
    using run_chunks_partition [OF sz, of ?rc] assms(3) fits by (simp_all add: run_chunks_new_def)
  have chunk_in: "unat (chunk_sector ch) < unat (num_sectors (bitmap a))"
    "set (chunk_clusters P ch) \<subseteq> {unat ?f..<unat ?f + unat ?n}" if "ch \<in> set (run_chunks P ?rc)" for ch
  proof -
    show sub: "set (chunk_clusters P ch) \<subseteq> {unat ?f..<unat ?f + unat ?n}"
      using that arg_cong [OF part(1), of set] by auto
    have "unat (chunk_sector ch) * cps P + unat (fst (chunk_bits ch)) + 2 \<in> set (chunk_clusters P ch)"
      using part(2) that by (auto simp: chunk_clusters_def chunk_ok_def)
    with sub have "unat (chunk_sector ch) * cps P + unat (fst (chunk_bits ch)) + 2
        \<in> {unat ?f..<unat ?f + unat ?n}" by (rule subsetD)
    then have "unat (chunk_sector ch) * cps P < unat (num_sectors (bitmap a)) * cps P"
      using fits(1) unfolding atLeastLessThan_iff by linarith
    then show "unat (chunk_sector ch) < unat (num_sectors (bitmap a))" by simp
  qed
  have g2: "\<not> num_sectors (bitmap a) \<le> bp_sector (bitmap_pos_of P (?f + (?n - 1)))"
  proof -
    have "(unat ?f + unat ?n - 1 - 2) div cps P < unat (num_sectors (bitmap a))"
      using bitmap_sector_less [OF bm, of "unat ?f + unat ?n - 1"] assms(3) n0 fits(1) by simp
    then show ?thesis
      using unat_pos_of(1) [OF sz, of "?f + (?n - 1)"] last assms(3) n0 by (simp add: word_le_nat_alt)
  qed
  have "\<not> ?f < FIRST_CLUSTER_ID" using assms(3) by (simp add: FIRST_CLUSTER_ID_def word_less_nat_alt)
  moreover have "\<not> 2 ^ 32 \<le> unat ?f + unat (?n - 1)" using fits n1 by linarith
  ultimately have run: "mark_allocated P r x (a, t, d) = for_each (run_chunks P ?rc) (mark_chunk P x) (a, t, d)"
    using False g1 g2 CPS_nonzero [OF sz]
    by (simp add: mark_allocated_def Let_def gets_def andthen_def assert_that_def)
  let ?ss = "map (\<lambda>ch. first_sector (bitmap a) + chunk_sector ch) (run_chunks P ?rc)"
  obtain c' d' where m: "for_each (run_chunks P ?rc) (mark_chunk P x) (a, t, d) =
      (Ok (), a\<lparr>alloc_cache := c'\<rparr>, touch_sectors TkBitmap ?ss t, d')" "ready (c', d')" "capacity d' = capacity d"
    "\<forall>c. 2 \<le> c \<longrightarrow> c < unat (num_sectors (bitmap a)) * cps P + 2 \<longrightarrow>
      allocated (a\<lparr>alloc_cache := c'\<rparr>) d' c =
        (if c \<in> set (concat (map (chunk_clusters P) (run_chunks P ?rc))) then x else allocated a d c)"
    "\<forall>s. \<not> in_bitmap (bitmap a) s \<longrightarrow> view (c', d') s = view (alloc_cache a, d) s"
    "(\<forall>u i. holds c' u i \<longrightarrow> in_bitmap (bitmap a) u \<or> (\<exists>j. holds (alloc_cache a) u j))"
    using mark_chunks_total [OF assms(1) bm, of "run_chunks P ?rc" x t] chunk_in part(2) by blast
  show thesis
  proof (rule that)
    show "mark_allocated P r x (a, t, d) = (Ok (), a\<lparr>alloc_cache := c'\<rparr>, touch_sectors TkBitmap ?ss t, d')"
      using run m(1) by simp
    show "covers (touch_sectors TkBitmap ?ss t) s" if "covers t s" for s
      using that by (simp add: touch_sectors_covers)
    show "covers (touch_sectors TkBitmap ?ss t) (bitmap_sector_of P (bitmap a) c)"
      if c: "unat ?f \<le> c" "c < unat ?f + unat ?n" for c
    proof -
      have "c \<in> set (concat (map (chunk_clusters P) (run_chunks P ?rc)))" using c by (simp add: part(1))
      then obtain ch where ch: "ch \<in> set (run_chunks P ?rc)" "c \<in> set (chunk_clusters P ch)" by auto
      then obtain b where "c = unat (chunk_sector ch) * cps P + b + 2" "b < cps P"
        using part(2) by (fastforce simp: chunk_clusters_def chunk_ok_def)
      then have "(c - 2) div cps P = unat (chunk_sector ch)" by simp
      then have "bitmap_sector_of P (bitmap a) c \<in> set ?ss" using ch(1) by (auto simp: bitmap_sector_of_def)
      then show ?thesis by (simp add: touch_sectors_covers)
    qed
  qed (use m fits part in \<open>auto simp: touch_sectors_inv\<close>)
qed

end

end
