(* ===== verification/Allocation_Search.thy ===== *)
theory Allocation_Search
  imports Allocation
begin

text \<open>
  Correctness of the search for free clusters (\<open>find_free_clusters_from\<close> and \<open>find_free_clusters\<close> of
  \<open>allocation.rs\<close>). What a search must return is stated on the predicate of free clusters; the scan, which
  skips fully allocated words and stops at the padding bits, is shown to return exactly that.
\<close>

section \<open>What a search must return\<close>

definition free_run :: "(nat \<Rightarrow> bool) \<Rightarrow> nat \<Rightarrow> nat \<Rightarrow> nat \<Rightarrow> nat \<Rightarrow> bool" where
  "free_run fr lo hi a k \<longleftrightarrow> lo \<le> a \<and> a + k \<le> hi \<and> (\<forall>c. a \<le> c \<longrightarrow> c < a + k \<longrightarrow> fr c)"

record search =
  sp_from :: nat
  sp_end :: nat
  sp_num :: nat
  sp_policy :: search_policy
  sp_free :: "nat \<Rightarrow> bool"

abbreviation run_lo :: "allocated_run \<Rightarrow> nat" where "run_lo r \<equiv> unat (run_first_cluster r)"
abbreviation run_len :: "allocated_run \<Rightarrow> nat" where "run_len r \<equiv> unat (run_cluster_count r)"

text \<open>A non-empty free run in the range of the search, no longer than asked for.\<close>

definition good_run :: "search \<Rightarrow> allocated_run \<Rightarrow> bool" where
  "good_run sp r \<longleftrightarrow> 0 < run_len r \<and> free_run (sp_free sp) (sp_from sp) (sp_end sp) (run_lo r) (run_len r) \<and>
     (sp_num sp = 0 \<or> run_len r \<le> sp_num sp)"

text \<open>
  Under \<open>FirstRun\<close> it is the first free cluster and all that follows it, up to the number asked for;
  under \<open>LongestRun\<close> it has the number asked for or is the longest there is.
\<close>

definition search_ok :: "search \<Rightarrow> allocated_run \<Rightarrow> bool" where
  "search_ok sp r \<longleftrightarrow> good_run sp r \<and>
     (case sp_policy sp of
        FirstRun \<Rightarrow> (\<forall>c. sp_from sp \<le> c \<longrightarrow> c < run_lo r \<longrightarrow> \<not> sp_free sp c) \<and>
          (run_len r = sp_num sp \<or> run_lo r + run_len r = sp_end sp \<or> \<not> sp_free sp (run_lo r + run_len r))
      | LongestRun \<Rightarrow> run_len r = sp_num sp \<or>
          (\<forall>a k. free_run (sp_free sp) (sp_from sp) (sp_end sp) a k \<longrightarrow> k \<le> run_len r))"

section \<open>The invariant of the scan\<close>

definition scan_inv :: "search \<Rightarrow> nat \<Rightarrow> scan \<Rightarrow> bool" where
  "scan_inv sp n sc \<longleftrightarrow> unat (sc_cluster sc) = n \<and>
     (case sc_first sc of
        None \<Rightarrow> sc_count sc = 0
      | Some f \<Rightarrow> good_run sp \<lparr>run_first_cluster = f, run_cluster_count = sc_count sc\<rparr> \<and>
          unat f + unat (sc_count sc) = n \<and> unat (sc_count sc) \<noteq> sp_num sp) \<and>
     (sp_policy sp = FirstRun \<longrightarrow> sc_longest sc = None) \<and>
     (\<forall>r. sc_longest sc = Some r \<longrightarrow> good_run sp r) \<and>
     (let start = (case sc_first sc of None \<Rightarrow> n | Some f \<Rightarrow> unat f) in
        start \<le> sp_from sp \<or> sp_end sp < start \<or> \<not> sp_free sp (start - 1)) \<and>
     (\<forall>a k. 0 < k \<longrightarrow> free_run (sp_free sp) (sp_from sp) (min n (sp_end sp)) a k \<longrightarrow>
        (\<exists>f. sc_first sc = Some f \<and> unat f \<le> a) \<or> (\<exists>r. sc_longest sc = Some r \<and> k \<le> run_len r))"

lemma scan_invD:
  assumes "scan_inv sp n sc"
  shows "unat (sc_cluster sc) = n"
    and "sc_first sc = None \<Longrightarrow> sc_count sc = 0"
    and "sc_first sc = Some f \<Longrightarrow> good_run sp \<lparr>run_first_cluster = f, run_cluster_count = sc_count sc\<rparr>"
    and "sc_first sc = Some f \<Longrightarrow> unat f + unat (sc_count sc) = n"
    and "sc_first sc = Some f \<Longrightarrow> unat (sc_count sc) \<noteq> sp_num sp"
    and "sp_policy sp = FirstRun \<Longrightarrow> sc_longest sc = None"
    and "sc_longest sc = Some r \<Longrightarrow> good_run sp r"
    and "0 < k \<Longrightarrow> free_run (sp_free sp) (sp_from sp) (min n (sp_end sp)) a k \<Longrightarrow>
      (\<exists>f. sc_first sc = Some f \<and> unat f \<le> a) \<or> (\<exists>r. sc_longest sc = Some r \<and> k \<le> run_len r)"
    and "st = (case sc_first sc of None \<Rightarrow> n | Some f \<Rightarrow> unat f) \<Longrightarrow>
      st \<le> sp_from sp \<or> sp_end sp < st \<or> \<not> sp_free sp (st - 1)"
  using assms by (auto simp: scan_inv_def)

lemma scan_inv_start:
  assumes "unat (sc_cluster sc) = n" and "n \<le> sp_from sp" and "sc_first sc = None" and "sc_count sc = 0"
    and "sc_longest sc = None"
  shows "scan_inv sp n sc"
  using assms by (auto simp: scan_inv_def free_run_def)

text \<open>A first-run search has met no free cluster before the run in progress.\<close>

lemma first_run_prefix:
  assumes "scan_inv sp n sc" and "sp_policy sp = FirstRun" and "sp_from sp \<le> c" and "c < n"
    and "c < sp_end sp" and "sp_free sp c"
  shows "\<exists>f. sc_first sc = Some f \<and> unat f \<le> c"
proof -
  have "free_run (sp_free sp) (sp_from sp) (min n (sp_end sp)) c 1"
    using assms by (auto simp: free_run_def le_less_Suc_eq)
  then show ?thesis
    using scan_invD(8) [OF assms(1), of 1 c] scan_invD(6) [OF assms(1,2)] by auto
qed

text \<open>The clusters from \<open>n\<close> on, \<open>m\<close> of them, are allocated or padding: the run in progress ends.\<close>

lemma close_run_returns:
  assumes "scan_inv sp n sc" and "close_run (sp_policy sp) sc = (Some r, sc')"
    and "n < sp_end sp \<Longrightarrow> \<not> sp_free sp n"
  shows "search_ok sp r"
proof -
  obtain f where f: "sc_first sc = Some f" and pol: "sp_policy sp = FirstRun"
    and r: "r = \<lparr>run_first_cluster = f, run_cluster_count = sc_count sc\<rparr>"
    using assms(2) by (auto simp: close_run_def Let_def split: search_policy.splits option.splits)
  note I = scan_invD(3,4) [OF assms(1) f]
  have "unat f + unat (sc_count sc) \<le> sp_end sp" using I(1) by (simp add: good_run_def free_run_def)
  moreover have "\<not> sp_free sp c" if "sp_from sp \<le> c" "c < unat f" for c
    using first_run_prefix [OF assms(1) pol that(1)] that I f calculation by force
  ultimately show ?thesis using I assms(3) pol r by (auto simp: search_ok_def)
qed

lemma close_run_continues:
  assumes "scan_inv sp n sc" and "close_run (sp_policy sp) sc = (None, sc')"
    and "\<And>c. n \<le> c \<Longrightarrow> c < n + m \<Longrightarrow> c < sp_end sp \<Longrightarrow> \<not> sp_free sp c" and "n + m < 2 ^ 32" and "0 < m"
  shows "scan_inv sp (n + m) (sc'\<lparr>sc_cluster := sc_cluster sc' + of_nat m\<rparr>)"
proof -
  note I = scan_invD [OF assms(1)]
  have c': "sc_cluster sc' = sc_cluster sc" "sc_first sc' = None" "sc_count sc' = 0"
    using assms(2) by (auto simp: close_run_def Let_def split: search_policy.splits option.splits if_splits)
  have keep: "sc_longest sc' = sc_longest sc" if "sc_first sc = None"
    using assms(2) that by (auto simp: close_run_def Let_def split: search_policy.splits)
  have lg: "(\<exists>r'. sc_longest sc' = Some r' \<and> run_len r \<le> run_len r')" if "sc_longest sc = Some r" for r
    using assms(2) that
    by (auto simp: close_run_def Let_def word_less_nat_alt not_less split: search_policy.splits option.splits if_splits)
  have lf: "\<exists>r'. sc_longest sc' = Some r' \<and> unat (sc_count sc) \<le> run_len r'" if "sc_first sc = Some f" for f
    using assms(2) that
    by (auto simp: close_run_def Let_def word_less_nat_alt not_less split: search_policy.splits option.splits if_splits)
  have good: "good_run sp r" if "sc_longest sc' = Some r" for r
    using assms(2) that I(3,7)
    by (auto simp: close_run_def Let_def split: search_policy.splits option.splits if_splits)
  have um: "unat (sc_cluster sc + of_nat m) = n + m"
    using I(1) assms(4) by (subst unat_add_no_overflow) (simp_all add: unat_of_nat)
  have "\<exists>r. sc_longest sc' = Some r \<and> k \<le> run_len r"
    if k: "0 < k" and fr: "free_run (sp_free sp) (sp_from sp) (min (n + m) (sp_end sp)) a k" for a k
  proof -
    have "a + k \<le> n"
    proof (rule ccontr)
      assume "\<not> a + k \<le> n"
      then have "max a n < a + k" "n \<le> max a n" "a \<le> max a n" using k by auto
      moreover have "max a n < n + m" "max a n < sp_end sp" using fr calculation by (auto simp: free_run_def)
      ultimately show False using fr assms(3) [of "max a n"] by (auto simp: free_run_def)
    qed
    then have "free_run (sp_free sp) (sp_from sp) (min n (sp_end sp)) a k" using fr by (auto simp: free_run_def)
    from I(8) [OF k this] show ?thesis
    proof
      assume "\<exists>f. sc_first sc = Some f \<and> unat f \<le> a"
      then obtain f where f: "sc_first sc = Some f" "unat f \<le> a" by blast
      have "k \<le> unat (sc_count sc)" using I(4) [OF f(1)] f(2) \<open>a + k \<le> n\<close> by simp
      then show ?thesis using lf [OF f(1)] by fastforce
    next
      assume "\<exists>r. sc_longest sc = Some r \<and> k \<le> run_len r"
      then show ?thesis using lg by fastforce
    qed
  qed
  moreover have "sp_policy sp = FirstRun \<Longrightarrow> sc_longest sc' = None"
    using I(6) assms(2) by (auto simp: close_run_def Let_def)
  moreover have "sp_end sp < n + m \<or> \<not> sp_free sp (n + m - 1)"
  proof (cases "sp_end sp < n + m")
    case False
    then have "n \<le> n + m - 1" "n + m - 1 < n + m" "n + m - 1 < sp_end sp" using assms(5) by auto
    then show ?thesis using assms(3) by blast
  qed simp
  ultimately show ?thesis using c' um good by (auto simp: scan_inv_def)
qed

section \<open>One bit\<close>

definition scan_good :: "search \<Rightarrow> nat \<Rightarrow> scan_result \<Rightarrow> bool" where
  "scan_good sp n r = (case r of
     ScanReturn run \<Rightarrow> search_ok sp run
   | ScanBreak sc \<Rightarrow> \<exists>n' \<ge> sp_end sp. scan_inv sp n' sc
   | ScanNext sc \<Rightarrow> scan_inv sp n sc)"

lemma close_run_good:
  assumes "scan_inv sp n sc"
    and "\<And>c. n \<le> c \<Longrightarrow> c < n + m \<Longrightarrow> c < sp_end sp \<Longrightarrow> \<not> sp_free sp c" and "n + m < 2 ^ 32" and "0 < m"
  shows "scan_good sp (n + m) (case close_run (sp_policy sp) sc of
        (Some run, _) \<Rightarrow> ScanReturn run
      | (None, sc') \<Rightarrow> ScanNext (sc'\<lparr>sc_cluster := sc_cluster sc' + of_nat m\<rparr>))"
  using close_run_returns [OF assms(1)] close_run_continues [OF assms(1) _ assms(2-4)] assms(2) [of n] assms(4)
  by (auto simp: scan_good_def split: prod.splits option.splits)

text \<open>A free cluster extends the run in progress, or starts one.\<close>

lemma free_bit_good:
  assumes I: "scan_inv sp n sc" and "sp_from sp \<le> n" and "n < sp_end sp" and "sp_free sp n" and "n + 1 < 2 ^ 32"
    and first: "first = (case sc_first sc of None \<Rightarrow> sc_cluster sc | Some f \<Rightarrow> f)"
  defines "run \<equiv> \<lparr>run_first_cluster = first, run_cluster_count = sc_count sc + 1\<rparr>"
  shows "scan_good sp (n + 1) (if unat (sc_count sc + 1) = sp_num sp then ScanReturn run
    else ScanNext (sc\<lparr>sc_first := Some first, sc_count := sc_count sc + 1, sc_cluster := sc_cluster sc + 1\<rparr>))"
proof -
  note D = scan_invD [OF I]
  have pos: "unat first + unat (sc_count sc) = n"
    using D(1,2,4) first by (cases "sc_first sc") auto
  have free: "sp_free sp c" if "unat first \<le> c" "c < n" for c
    using D(2,3) pos that first by (cases "sc_first sc") (auto simp: good_run_def free_run_def)
  have lo: "sp_from sp \<le> unat first"
    using D(1,3) assms(2) first by (cases "sc_first sc") (auto simp: good_run_def free_run_def)
  have cnt: "unat (sc_count sc + 1) = unat (sc_count sc) + 1"
    using pos assms(5) by (subst unat_add_no_overflow) simp_all
  have clu: "unat (sc_cluster sc + 1) = n + 1"
    using D(1) assms(5) by (subst unat_add_no_overflow) simp_all
  have bound: "sp_num sp = 0 \<or> unat (sc_count sc) < sp_num sp"
  proof (cases "sc_first sc")
    case None
    then show ?thesis using D(2) by auto
  next
    case (Some f)
    then show ?thesis using D(3,5) [OF Some] by (auto simp: good_run_def)
  qed
  have g: "good_run sp run"
    using cnt pos lo bound assms(3,4) free
    by (auto simp: good_run_def run_def free_run_def less_Suc_eq)
  have pre: "\<not> sp_free sp c" if "sp_policy sp = FirstRun" "sp_from sp \<le> c" "c < unat first" for c
    using first_run_prefix [OF I that(1,2)] that pos assms(3) first by force
  show ?thesis
  proof (cases "unat (sc_count sc + 1) = sp_num sp")
    case True
    then have "search_ok sp run" using g pre by (auto simp: search_ok_def run_def split: search_policy.split)
    then show ?thesis using True by (simp add: scan_good_def)
  next
    case False
    have left: "unat first \<le> sp_from sp \<or> \<not> sp_free sp (unat first - 1)"
      using D(9) [OF refl] D(1) first pos assms(3) by (cases "sc_first sc") auto
    have cover: "unat first \<le> a \<or> (\<exists>r. sc_longest sc = Some r \<and> k \<le> run_len r)"
      if k: "0 < k" and fr: "free_run (sp_free sp) (sp_from sp) (min (n + 1) (sp_end sp)) a k" for a k
    proof (cases "a + k \<le> n")
      case True
      then have "free_run (sp_free sp) (sp_from sp) (min n (sp_end sp)) a k" using fr by (auto simp: free_run_def)
      from D(8) [OF k this] show ?thesis using first by auto
    next
      case False
      have "\<not> a < unat first"
      proof
        assume "a < unat first"
        then have "sp_free sp (unat first - 1)" "sp_from sp < unat first"
          using fr False pos by (auto simp: free_run_def)
        then show False using left by simp
      qed
      then show ?thesis by simp
    qed
    show ?thesis using False g D(6,7) cnt clu pos left cover
      by (auto simp: scan_good_def scan_inv_def run_def Let_def)
  qed
qed

lemma scan_bit_good:
  assumes "scan_inv sp n sc" and "n + 1 < 2 ^ 32"
    and "sp_from sp = unat from_cluster" and "sp_end sp = unat end_cluster" and "sp_num sp = unat num"
    and "sp_policy sp = policy" and "k < 8"
    and "sp_from sp \<le> n \<Longrightarrow> n < sp_end sp \<Longrightarrow> sp_free sp n \<longleftrightarrow> \<not> bit byte k"
  shows "scan_good sp (n + 1) (scan_bit from_cluster end_cluster num policy byte k sc)"
proof -
  note D = scan_invD [OF assms(1)]
  have c: "sc_cluster sc < from_cluster \<longleftrightarrow> n < sp_from sp" "end_cluster \<le> sc_cluster sc \<longleftrightarrow> sp_end sp \<le> n"
    using D(1) assms(3,4) by (simp_all add: word_less_nat_alt word_le_nat_alt)
  consider "n < sp_from sp" | "sp_from sp \<le> n" "sp_end sp \<le> n"
    | (free) "sp_from sp \<le> n" "n < sp_end sp" "\<not> bit byte k" | (used) "sp_from sp \<le> n" "n < sp_end sp" "bit byte k"
    by linarith
  then show ?thesis
  proof cases
    case 1
    have none: "sc_first sc = None"
    proof (cases "sc_first sc")
      case (Some f)
      then show ?thesis using D(3,4) [OF Some] 1 by (auto simp: good_run_def free_run_def)
    qed simp
    have "unat (sc_cluster sc + 1) = n + 1" using D(1) assms(2) by (subst unat_add_no_overflow) simp_all
    then have "scan_inv sp (n + 1) (sc\<lparr>sc_cluster := sc_cluster sc + 1\<rparr>)"
      using 1 none D(2,6,7) by (auto simp: scan_inv_def free_run_def)
    then show ?thesis using 1 c by (simp add: scan_bit_def scan_good_def)
  next
    case 2
    then show ?thesis using c assms(1) by (auto simp: scan_bit_def scan_good_def)
  next
    case free
    then show ?thesis
      using free_bit_good [OF assms(1) free(1,2) _ assms(2) refl] assms(8) c is_free_bit [OF assms(7)]
      by (simp add: scan_bit_def Let_def assms(5) word_unat_eq_iff)
  next
    case used
    have "scan_bit from_cluster end_cluster num policy byte k sc = (case close_run policy sc of
        (Some run, _) \<Rightarrow> ScanReturn run
      | (None, sc') \<Rightarrow> ScanNext (sc'\<lparr>sc_cluster := sc_cluster sc' + 1\<rparr>))"
      using used c is_free_bit [OF assms(7), of byte] by (simp add: scan_bit_def)
    then show ?thesis
      using close_run_good [OF assms(1), of 1, unfolded of_nat_1] used assms(2,6,8) by (auto simp: le_less_Suc_eq)
  qed
qed

section \<open>Words, sectors and the whole scan\<close>

lemma scan_each_good:
  assumes "\<And>i sc. i < length xs \<Longrightarrow> scan_inv sp (n + w * i) sc \<Longrightarrow> scan_good sp (n + w * Suc i) (f (xs ! i) sc)"
    and "scan_inv sp n sc"
  shows "scan_good sp (n + w * length xs) (scan_each f xs sc)"
  using assms
proof (induction xs arbitrary: n sc)
  case Nil
  then show ?case by (simp add: scan_good_def)
next
  case (Cons x xs)
  have hd: "scan_good sp (n + w) (f x sc)" using Cons.prems(1) [of 0 sc] Cons.prems(2) by simp
  show ?case
  proof (cases "f x sc")
    case (ScanNext sc')
    then have i: "scan_inv sp (n + w) sc'" using hd by (simp add: scan_good_def)
    have "scan_good sp (n + w + w * length xs) (scan_each f xs sc')"
    proof (rule Cons.IH [OF _ i])
      fix i s assume a: "i < length xs" "scan_inv sp (n + w + w * i) s"
      then show "scan_good sp (n + w + w * Suc i) (f (xs ! i) s)"
        using Cons.prems(1) [of "Suc i" s] by (simp add: algebra_simps)
    qed
    then show ?thesis using ScanNext by (simp add: algebra_simps)
  qed (use hd in \<open>simp_all add: scan_good_def\<close>)
qed

lemma all_ones_chunk:
  assumes "length ch = 4" and "(from_le_bytes ch :: u32) = 0xFFFFFFFF" and "i < 32"
  shows "bit (ch ! (i div 8)) (i mod 8)"
proof -
  have "(0xFFFFFFFF :: u32) = mask 32" by (simp add: mask_eq_exp_minus_1)
  then have "bit (from_le_bytes ch :: u32) i" using assms(2,3) by (simp only: bit_mask_iff) simp
  then show ?thesis by (simp add: bit_from_le_bytes)
qed

text \<open>A 32-bit word of the bitmap, on the fast path and on the slow one.\<close>

lemma scan_chunk_good:
  assumes "scan_inv sp n sc" and "n + 32 < 2 ^ 32" and "length ch = 4"
    and "sp_from sp = unat from_cluster" and "sp_end sp = unat end_cluster" and "sp_num sp = unat num"
    and "sp_policy sp = policy"
    and bits: "\<And>i. i < 32 \<Longrightarrow> n + i < sp_end sp \<Longrightarrow> sp_free sp (n + i) \<longleftrightarrow> \<not> bit (ch ! (i div 8)) (i mod 8)"
  shows "scan_good sp (n + 32) (scan_chunk from_cluster end_cluster num policy ch sc)"
proof (cases "(from_le_bytes ch :: u32) = 0xFFFFFFFF")
  case True
  have "\<not> sp_free sp c" if "n \<le> c" "c < n + 32" "c < sp_end sp" for c
    using bits [of "c - n"] all_ones_chunk [OF assms(3) True, of "c - n"] that by simp
  then show ?thesis
    using close_run_good [OF assms(1), of 32, unfolded of_nat_numeral] assms(2,7) True by (simp add: scan_chunk_def)
next
  case False
  let ?byte = "\<lambda>byte. scan_each (scan_bit from_cluster end_cluster num policy byte) [0..<8]"
  have "scan_good sp (n + 8 * length ch) (scan_each ?byte ch sc)"
  proof (rule scan_each_good [OF _ assms(1)])
    fix j s assume j: "j < length ch" and s: "scan_inv sp (n + 8 * j) s"
    have "scan_good sp (n + 8 * j + 1 * length [0..<8]) (?byte (ch ! j) s)"
    proof (rule scan_each_good [OF _ s])
      fix k s' assume k: "k < length [0..<8::nat]" and s': "scan_inv sp (n + 8 * j + 1 * k) s'"
      have "8 * j + k < 32" using j k assms(3) by simp
      then have "sp_free sp (n + 8 * j + k) \<longleftrightarrow> \<not> bit (ch ! j) k" if "n + 8 * j + k < sp_end sp"
        using bits [of "8 * j + k"] that k by (simp add: add.assoc)
      then have "scan_good sp (n + 8 * j + k + 1) (scan_bit from_cluster end_cluster num policy (ch ! j) k s')"
        using s' j k assms(2,3) by (intro scan_bit_good assms(4-7)) simp_all
      then show "scan_good sp (n + 8 * j + 1 * Suc k)
          (scan_bit from_cluster end_cluster num policy (ch ! j) ([0..<8] ! k) s')"
        using k by simp
    qed
    then show "scan_good sp (n + 8 * Suc j) (?byte (ch ! j) s)" by (simp add: algebra_simps)
  qed
  then show ?thesis using False assms(3) by (simp add: scan_chunk_def)
qed

lemma scan_block_good:
  assumes "scan_inv sp n sc" and "n + 8 * length b < 2 ^ 32" and "4 dvd length b"
    and "sp_from sp = unat from_cluster" and "sp_end sp = unat end_cluster" and "sp_num sp = unat num"
    and "sp_policy sp = policy"
    and bits: "\<And>i. i < 8 * length b \<Longrightarrow> n + i < sp_end sp \<Longrightarrow> sp_free sp (n + i) \<longleftrightarrow> \<not> block_bit b i"
  shows "scan_good sp (n + 8 * length b)
    (scan_each (scan_chunk from_cluster end_cluster num policy) (as_chunks 4 b) sc)"
proof -
  have "scan_good sp (n + 32 * length (as_chunks 4 b))
    (scan_each (scan_chunk from_cluster end_cluster num policy) (as_chunks 4 b) sc)"
  proof (rule scan_each_good [OF _ assms(1)])
    fix i s assume i: "i < length (as_chunks 4 b)" and s: "scan_inv sp (n + 32 * i) s"
    then have i': "i < length b div 4" by simp
    have e: "4 * i + 4 \<le> length b" using as_chunks_end [OF i'] by simp
    have "scan_good sp (n + 32 * i + 32) (scan_chunk from_cluster end_cluster num policy (as_chunks 4 b ! i) s)"
    proof (rule scan_chunk_good [OF s _ as_chunks_nth_length [OF i'] assms(4-7)])
      show "n + 32 * i + 32 < 2 ^ 32" using e assms(2) by linarith
      fix k :: nat assume k: "k < 32" "n + 32 * i + k < sp_end sp"
      have "as_chunks 4 b ! i ! (k div 8) = b ! (4 * i + k div 8)"
        using as_chunks_nth_nth [OF i', of "k div 8"] k by simp
      moreover have "(k + 8 * (4 * i)) div 8 = 4 * i + k div 8" by (rule div_mult_self2) simp
      then have "(32 * i + k) div 8 = 4 * i + k div 8" by (simp add: add.commute)
      moreover have "(k + 8 * (4 * i)) mod 8 = k mod 8" by (rule mod_mult_self2)
      then have "(32 * i + k) mod 8 = k mod 8" by (simp add: add.commute)
      ultimately show "sp_free sp (n + 32 * i + k) \<longleftrightarrow> \<not> bit (as_chunks 4 b ! i ! (k div 8)) (k mod 8)"
        using bits [of "32 * i + k"] k e by (simp add: block_bit_def add.assoc)
    qed
    then show "scan_good sp (n + 32 * Suc i) (scan_chunk from_cluster end_cluster num policy (as_chunks 4 b ! i) s)"
      by (simp add: algebra_simps)
  qed
  moreover have "32 * (length b div 4) = 8 * length b" using assms(3) by auto
  ultimately show ?thesis by simp
qed

text \<open>The search an allocator is asked for: a range of clusters, and the free ones of its bitmap.\<close>

definition bitmap_search :: "('d, 'e) platform \<Rightarrow> (u32 \<Rightarrow> block) \<Rightarrow> allocation_bitmap_slim \<Rightarrow> nat \<Rightarrow> u32 \<Rightarrow>
    search_policy \<Rightarrow> search" where
  "bitmap_search P v bm lo num policy = \<lparr>sp_from = lo, sp_end = bitmap_end bm, sp_num = unat num,
     sp_policy = policy, sp_free = (\<lambda>c. \<not> cluster_allocated P (first_sector bm) v c)\<rparr>"

lemma bitmap_search_simps [simp]:
  "sp_from (bitmap_search P v bm lo num policy) = lo" "sp_end (bitmap_search P v bm lo num policy) = bitmap_end bm"
  "sp_num (bitmap_search P v bm lo num policy) = unat num" "sp_policy (bitmap_search P v bm lo num policy) = policy"
  "sp_free (bitmap_search P v bm lo num policy) c = (\<not> cluster_allocated P (first_sector bm) v c)"
  by (simp_all add: bitmap_search_def)

definition alloc_start :: "stored_chain \<Rightarrow> allocator \<Rightarrow> u32" where
  "alloc_start chain a = (case chain of
     StoredEmpty \<Rightarrow> next_search_cluster a
   | StoredContiguous first n \<Rightarrow> first + n
   | StoredFat _ last_cluster _ \<Rightarrow> last_cluster + 1)"

definition alloc_policy :: "stored_chain \<Rightarrow> search_policy" where
  "alloc_policy chain = (case chain of StoredEmpty \<Rightarrow> LongestRun | _ \<Rightarrow> FirstRun)"

lemma scan_finish_ok:
  assumes "scan_inv sp n sc" and "sp_end sp \<le> n"
  shows "(\<exists>r. scan_finish (sp_policy sp) sc st = (Ok r, st) \<and> search_ok sp r) \<or>
    scan_finish (sp_policy sp) sc st = (Err DiskFull, st) \<and>
    (\<forall>c. sp_from sp \<le> c \<longrightarrow> c < sp_end sp \<longrightarrow> \<not> sp_free sp c)"
proof -
  note D = scan_invD [OF assms(1)]
  obtain o1 sc' where cr: "close_run (sp_policy sp) sc = (o1, sc')" by (cases "close_run (sp_policy sp) sc")
  show ?thesis
  proof (cases o1)
    case (Some r)
    then have "search_ok sp r" using close_run_returns [OF assms(1)] cr assms(2) by auto
    then show ?thesis using cr Some by (simp add: scan_finish_def ret_def)
  next
    case None
    have le: "\<exists>r. sc_longest sc' = Some r \<and> k \<le> run_len r"
      if "0 < k" "free_run (sp_free sp) (sp_from sp) (sp_end sp) a k" for a k
    proof -
      have "free_run (sp_free sp) (sp_from sp) (min n (sp_end sp)) a k" using that assms(2) by simp
      from D(8) [OF that(1) this] show ?thesis
      proof
        assume "\<exists>f. sc_first sc = Some f \<and> unat f \<le> a"
        then obtain f where f: "sc_first sc = Some f" "unat f \<le> a" by blast
        have "k \<le> unat (sc_count sc)" using D(4) [OF f(1)] f(2) that(2) assms(2) by (simp add: free_run_def)
        moreover have "\<exists>r. sc_longest sc' = Some r \<and> unat (sc_count sc) \<le> run_len r" using cr None f(1)
          by (auto simp: close_run_def Let_def word_less_nat_alt not_less
              split: search_policy.splits option.splits if_splits)
        ultimately show ?thesis by fastforce
      next
        assume "\<exists>r. sc_longest sc = Some r \<and> k \<le> run_len r"
        then show ?thesis using cr None
          by (auto simp: close_run_def Let_def word_less_nat_alt not_less
              split: search_policy.splits option.splits if_splits)
      qed
    qed
    show ?thesis
    proof (cases "sc_longest sc'")
      case l: None
      have "\<not> sp_free sp c" if "sp_from sp \<le> c" "c < sp_end sp" for c
      proof
        assume "sp_free sp c"
        then have "free_run (sp_free sp) (sp_from sp) (sp_end sp) c 1"
          using that by (auto simp: free_run_def le_less_Suc_eq)
        then show False using le [of 1 c] l by simp
      qed
      then show ?thesis using cr None l by (simp add: scan_finish_def fail_def)
    next
      case l: (Some r)
      have pol: "sp_policy sp = LongestRun" and "good_run sp r"
        using cr None l D(3,6,7)
        by (auto simp: close_run_def Let_def split: search_policy.splits option.splits if_splits)
      moreover have "k \<le> run_len r" if "free_run (sp_free sp) (sp_from sp) (sp_end sp) a k" for a k
        using le [OF _ that] l by (cases "k = 0") auto
      ultimately have "search_ok sp r" by (auto simp: search_ok_def)
      then show ?thesis using cr None l by (simp add: scan_finish_def ret_def)
    qed
  qed
qed

context reliable_device
begin

abbreviation search_of :: "allocator \<Rightarrow> 'd \<Rightarrow> nat \<Rightarrow> u32 \<Rightarrow> search_policy \<Rightarrow> search" where
  "search_of a d lo num policy \<equiv> bitmap_search P (view (alloc_cache a, d)) (bitmap a) lo num policy"

lemma scan_sectors_total:
  assumes "ready (alloc_cache a, d)" and "bitmap_ok P (capacity d) (bitmap a)" and "4 dvd SIZE P"
    and "sp = search_of a d (unat from_cluster) num policy" and "unat end_cluster = bitmap_end (bitmap a)"
    and "scan_inv sp (2 + s * cps P) sc" and "s \<le> unat (num_sectors (bitmap a))"
  shows "\<exists>r c' d'. scan_sectors P from_cluster end_cluster num policy [s..<unat (num_sectors (bitmap a))] sc (a, d)
      = (Ok r, a\<lparr>alloc_cache := c'\<rparr>, d') \<and> ready (c', d') \<and> view (c', d') = view (alloc_cache a, d) \<and>
    capacity d' = capacity d \<and> scan_good sp (2 + unat (num_sectors (bitmap a)) * cps P) r"
  using assms
proof (induction "unat (num_sectors (bitmap a)) - s" arbitrary: s sc a d)
  case 0
  then have "s = unat (num_sectors (bitmap a))" by simp
  then show ?case using 0
    by (intro exI [of _ "ScanNext sc"] exI [of _ "alloc_cache a"] exI [of _ d]) (simp add: ret_def scan_good_def)
next
  case (Suc k)
  let ?N = "unat (num_sectors (bitmap a))" and ?sec = "first_sector (bitmap a) + of_nat s"
  have s: "s < ?N" using Suc.hyps(2) by simp
  have sz: "0 < cps P" using Suc.prems(2) cps_pos by (auto simp: bitmap_ok_def)
  have len: "length (view (alloc_cache a, d) ?sec) = SIZE P" using store.content_length [OF Suc.prems(1)] .
  obtain st' where r: "read_sector P ?sec (alloc_cache a, d) = (Ok (view (alloc_cache a, d) ?sec), st')"
    "ready st'" "view st' = view (alloc_cache a, d)" "capacity (snd st') = capacity d"
    using store.rd_ok [of "(alloc_cache a, d)" ?sec] Suc.prems(1) bitmap_sector_addr [OF Suc.prems(2) s] by auto
  obtain c1 d1 where st': "st' = (c1, d1)" by (cases st')
  let ?r = "scan_each (scan_chunk from_cluster end_cluster num policy) (as_chunks 4 (view (alloc_cache a, d) ?sec)) sc"
  have N1: "Suc s * cps P \<le> ?N * cps P" using s by (intro mult_le_mono1) simp
  then have fit: "2 + s * cps P + cps P < 2 ^ 32" using Suc.prems(2) by (simp add: bitmap_ok_def)
  have "scan_good sp (2 + s * cps P + 8 * length (view (alloc_cache a, d) ?sec)) ?r"
  proof (rule scan_block_good [OF Suc.prems(6)])
    show "2 + s * cps P + 8 * length (view (alloc_cache a, d) ?sec) < 2 ^ 32"
      using fit len by (simp add: cps_def)
    fix i assume i: "i < 8 * length (view (alloc_cache a, d) ?sec)"
    then have "i < cps P" using len by (simp add: cps_def)
    then have "(2 + s * cps P + i - 2) div cps P = s" "(2 + s * cps P + i - 2) mod cps P = i" by simp_all
    then show "sp_free sp (2 + s * cps P + i) = (\<not> block_bit (view (alloc_cache a, d) ?sec) i)"
      using Suc.prems(4) by (simp add: cluster_allocated_def)
  qed (use Suc.prems len in simp_all)
  moreover have "2 + s * cps P + 8 * length (view (alloc_cache a, d) ?sec) = 2 + Suc s * cps P"
    using len by (simp add: cps_def)
  ultimately have g: "scan_good sp (2 + Suc s * cps P) ?r" by (simp only:)
  have step: "scan_sectors P from_cluster end_cluster num policy [s..<?N] sc (a, d) =
    (case ?r of
       ScanNext sc' \<Rightarrow> scan_sectors P from_cluster end_cluster num policy [Suc s..<?N] sc' (a\<lparr>alloc_cache := c1\<rparr>, d1)
     | r \<Rightarrow> (Ok r, a\<lparr>alloc_cache := c1\<rparr>, d1))"
    using r(1) s by (simp add: upt_conv_Cons andthen_def gets_def alloc_zoom_def zoom_def st' ret_def
        split: scan_result.split)
  show ?case
  proof (cases ?r)
    case (ScanNext sc')
    let ?a1 = "a\<lparr>alloc_cache := c1\<rparr>"
    have "\<exists>r c' d'. scan_sectors P from_cluster end_cluster num policy [Suc s..<unat (num_sectors (bitmap ?a1))] sc' (?a1, d1)
        = (Ok r, ?a1\<lparr>alloc_cache := c'\<rparr>, d') \<and> ready (c', d') \<and> view (c', d') = view (alloc_cache ?a1, d1) \<and>
      capacity d' = capacity d1 \<and> scan_good sp (2 + unat (num_sectors (bitmap ?a1)) * cps P) r"
    proof (rule Suc.hyps(1))
      show "sp = search_of ?a1 d1 (unat from_cluster) num policy"
        using Suc.prems(4) r(3) st' by (simp add: bitmap_search_def)
      show "scan_inv sp (2 + Suc s * cps P) sc'" using g ScanNext by (simp add: scan_good_def)
    qed (use Suc.hyps(2) Suc.prems r st' s in simp_all)
    then show ?thesis using step ScanNext r st' by auto
  qed (use g step r st' in \<open>auto simp: scan_good_def\<close>)
qed

lemma find_free_clusters_from_total:
  assumes "ready (alloc_cache a, d)" and bm: "bitmap_ok P (capacity d) (bitmap a)" and "4 dvd SIZE P"
    and lo: "2 \<le> unat from_cluster"
  shows "\<exists>res c' d'. find_free_clusters_from P from_cluster num policy (a, d) = (res, a\<lparr>alloc_cache := c'\<rparr>, d') \<and>
    ready (c', d') \<and> view (c', d') = view (alloc_cache a, d) \<and> capacity d' = capacity d \<and>
    ((\<exists>r. res = Ok r \<and> search_ok (search_of a d (unat from_cluster) num policy) r) \<or>
     res = Err DiskFull \<and> (\<forall>c. unat from_cluster \<le> c \<longrightarrow> c < bitmap_end (bitmap a) \<longrightarrow> allocated a d c))"
proof -
  let ?bm = "bitmap a" and ?E = "FIRST_CLUSTER_ID + bitmap_cluster_count (bitmap a)"
  let ?s = "bp_sector (bitmap_pos_of P from_cluster)"
  have sz: "alloc_sizes_ok P" using bm by (simp add: bitmap_ok_def)
  have E: "unat ?E = bitmap_end ?bm"
    using bm by (auto simp: FIRST_CLUSTER_ID_def bitmap_end_def bitmap_ok_def unat_add_no_overflow)
  have us: "unat ?s = (unat from_cluster - 2) div cps P" using unat_pos_of(1) [OF sz lo] .
  have nf: "\<not> from_cluster < FIRST_CLUSTER_ID" using lo by (simp add: FIRST_CLUSTER_ID_def word_less_nat_alt)
  show ?thesis
  proof (cases "bitmap_end ?bm \<le> unat from_cluster")
    case True
    then show ?thesis using nf CPS_nonzero [OF sz] E assms(1)
      by (intro exI [of _ "Err DiskFull"] exI [of _ "alloc_cache a"] exI [of _ d])
        (simp add: find_free_clusters_from_def andthen_def assert_that_def gets_def Let_def fail_def word_le_nat_alt)
  next
    case False
    have "unat from_cluster < unat (num_sectors ?bm) * cps P + 2"
      using False bm by (simp add: bitmap_end_def bitmap_ok_def)
    then have s: "unat ?s < unat (num_sectors ?bm)" using bitmap_sector_less [OF bm lo] us by simp
    let ?sc = "\<lparr>sc_cluster = first_cluster_of P ?s, sc_first = None, sc_count = 0, sc_longest = None\<rparr>"
    let ?sp = "search_of a d (unat from_cluster) num policy"
    have "unat ?s * cps P \<le> unat from_cluster - 2" using us by simp
    then have le: "2 + unat ?s * cps P \<le> unat from_cluster" using lo by simp
    have "unat (first_cluster_of P ?s) = 2 + unat ?s * cps P"
    proof -
      have "unat ?s * cps P + 2 < 2 ^ 32" using le unat_less_length [of from_cluster] by simp
      then have "unat (?s * CLUSTERS_PER_SECTOR P) = unat ?s * cps P"
        using unat_CPS [OF sz] by (simp add: unat_word_ariths)
      then show ?thesis
        using \<open>unat ?s * cps P + 2 < 2 ^ 32\<close>
        by (simp add: first_cluster_of_def bitmap_pos_cluster_def FIRST_CLUSTER_ID_def unat_add_no_overflow)
    qed
    then have inv: "scan_inv ?sp (2 + unat ?s * cps P) ?sc" using le by (intro scan_inv_start) simp_all
    obtain r c' d' where sc: "scan_sectors P from_cluster ?E num policy [unat ?s..<unat (num_sectors ?bm)] ?sc (a, d)
        = (Ok r, a\<lparr>alloc_cache := c'\<rparr>, d')" "ready (c', d')" "view (c', d') = view (alloc_cache a, d)"
      "capacity d' = capacity d" "scan_good ?sp (2 + unat (num_sectors ?bm) * cps P) r"
      using scan_sectors_total [OF assms(1-3) refl E inv] s by auto
    have "find_free_clusters_from P from_cluster num policy (a, d) = (case r of
        ScanReturn run \<Rightarrow> ret run | ScanBreak s \<Rightarrow> scan_finish policy s | ScanNext s \<Rightarrow> scan_finish policy s)
        (a\<lparr>alloc_cache := c'\<rparr>, d')"
      using nf CPS_nonzero [OF sz] E s False sc(1)
      by (simp add: find_free_clusters_from_def andthen_def assert_that_def gets_def Let_def word_le_nat_alt)
    moreover have "bitmap_end ?bm \<le> 2 + unat (num_sectors ?bm) * cps P"
      using bm by (simp add: bitmap_end_def bitmap_ok_def)
    ultimately show ?thesis
      using sc(2-5) scan_finish_ok [of ?sp _ _ "(a\<lparr>alloc_cache := c'\<rparr>, d')"]
      by (cases r) (fastforce simp: scan_good_def ret_def)+
  qed
qed

text \<open>
  The search that wraps around: it fails only when the whole heap is allocated, and moves the search
  position past the run it returns.
\<close>

lemma find_free_clusters_total:
  assumes "ready (alloc_cache a, d)" and bm: "bitmap_ok P (capacity d) (bitmap a)" and "4 dvd SIZE P"
    and lo: "2 \<le> unat from_cluster"
    and st: "from_cluster = (case start of Some c \<Rightarrow> c | None \<Rightarrow> next_search_cluster a)"
  shows "\<exists>res c' nx d'. find_free_clusters P start num policy (a, d) =
      (res, a\<lparr>alloc_cache := c', next_search_cluster := nx\<rparr>, d') \<and>
    ready (c', d') \<and> view (c', d') = view (alloc_cache a, d) \<and> capacity d' = capacity d \<and>
    ((\<exists>r. res = Ok r \<and> nx = run_first_cluster r + run_cluster_count r \<and>
        (search_ok (search_of a d (unat from_cluster) num policy) r \<or>
         search_ok (search_of a d 2 num policy) r \<and>
         (\<forall>c. unat from_cluster \<le> c \<longrightarrow> c < bitmap_end (bitmap a) \<longrightarrow> allocated a d c))) \<or>
     res = Err DiskFull \<and> nx = next_search_cluster a \<and>
       (\<forall>c. 2 \<le> c \<longrightarrow> c < bitmap_end (bitmap a) \<longrightarrow> allocated a d c))"
proof -
  obtain res c1 d1 where f: "find_free_clusters_from P from_cluster num policy (a, d) = (res, a\<lparr>alloc_cache := c1\<rparr>, d1)"
    "ready (c1, d1)" "view (c1, d1) = view (alloc_cache a, d)" "capacity d1 = capacity d"
    "(\<exists>r. res = Ok r \<and> search_ok (search_of a d (unat from_cluster) num policy) r) \<or>
     res = Err DiskFull \<and> (\<forall>c. unat from_cluster \<le> c \<longrightarrow> c < bitmap_end (bitmap a) \<longrightarrow> allocated a d c)"
    using find_free_clusters_from_total [OF assms(1-4), of num policy] by (elim exE conjE)
  let ?a1 = "a\<lparr>alloc_cache := c1\<rparr>"
  have head: "find_free_clusters P start num policy (a, d) =
    andthen (\<lambda>st. case find_free_clusters_from P from_cluster num policy st of (r, st') \<Rightarrow>
         if r = Err DiskFull \<and> FIRST_CLUSTER_ID < from_cluster
         then find_free_clusters_from P FIRST_CLUSTER_ID num policy st'
         else (r, st')) (\<lambda>run.
     andthen (modify (\<lambda>(a, d).
       (a\<lparr>next_search_cluster := run_first_cluster run + run_cluster_count run\<rparr>, d))) (\<lambda>_.
     ret run)) (a, d)"
    by (simp only: find_free_clusters_def andthen_gets prod.case st [symmetric])
  have finish: "a\<lparr>alloc_cache := c, next_search_cluster := next_search_cluster a\<rparr> = a\<lparr>alloc_cache := c\<rparr>" for c
    by simp
  from f(5) show ?thesis
  proof
    assume "\<exists>r. res = Ok r \<and> search_ok (search_of a d (unat from_cluster) num policy) r"
    then obtain r where r: "res = Ok r" "search_ok (search_of a d (unat from_cluster) num policy) r" by blast
    show ?thesis
      by (intro exI [of _ res] exI [of _ c1] exI [of _ "run_first_cluster r + run_cluster_count r"] exI [of _ d1])
        (use r f in \<open>simp add: head andthen_def modify_def ret_def\<close>)
  next
    assume full: "res = Err DiskFull \<and> (\<forall>c. unat from_cluster \<le> c \<longrightarrow> c < bitmap_end (bitmap a) \<longrightarrow> allocated a d c)"
    show ?thesis
    proof (cases "FIRST_CLUSTER_ID < from_cluster")
      case False
      then have "unat from_cluster = 2" using lo by (simp add: FIRST_CLUSTER_ID_def word_less_nat_alt)
      then show ?thesis
        by (intro exI [of _ "Err DiskFull"] exI [of _ c1] exI [of _ "next_search_cluster a"] exI [of _ d1])
          (use full f False in \<open>simp add: head andthen_def\<close>)
    next
      case True
      have "ready (alloc_cache ?a1, d1)" "bitmap_ok P (capacity d1) (bitmap ?a1)" "2 \<le> unat FIRST_CLUSTER_ID"
        using f bm by (simp_all add: FIRST_CLUSTER_ID_def)
      from find_free_clusters_from_total [OF this(1,2) assms(3) this(3), of num policy]
      obtain res2 c2 d2 where g: "find_free_clusters_from P FIRST_CLUSTER_ID num policy (?a1, d1)
          = (res2, a\<lparr>alloc_cache := c2\<rparr>, d2)" "ready (c2, d2)" "view (c2, d2) = view (c1, d1)" "capacity d2 = capacity d1"
        "(\<exists>r. res2 = Ok r \<and> search_ok (search_of ?a1 d1 2 num policy) r) \<or>
         res2 = Err DiskFull \<and> (\<forall>c. 2 \<le> c \<longrightarrow> c < bitmap_end (bitmap a) \<longrightarrow> allocated ?a1 d1 c)"
        by (auto simp: FIRST_CLUSTER_ID_def)
      have same: "search_of ?a1 d1 2 num policy = search_of a d 2 num policy" "allocated ?a1 d1 = allocated a d"
        using f(3) by (simp_all add: bitmap_search_def)
      from g(5) show ?thesis
      proof
        assume "\<exists>r. res2 = Ok r \<and> search_ok (search_of ?a1 d1 2 num policy) r"
        then obtain r where r: "res2 = Ok r" "search_ok (search_of a d 2 num policy) r" using same by auto
        show ?thesis
          by (intro exI [of _ res2] exI [of _ c2] exI [of _ "run_first_cluster r + run_cluster_count r"] exI [of _ d2])
            (use r f g True full in \<open>simp add: head andthen_def modify_def ret_def\<close>)
      next
        assume "res2 = Err DiskFull \<and> (\<forall>c. 2 \<le> c \<longrightarrow> c < bitmap_end (bitmap a) \<longrightarrow> allocated ?a1 d1 c)"
        then have r: "res2 = Err DiskFull" "\<forall>c. 2 \<le> c \<longrightarrow> c < bitmap_end (bitmap a) \<longrightarrow> allocated a d c"
          unfolding same by blast+
        show ?thesis
          by (intro exI [of _ res2] exI [of _ c2] exI [of _ "next_search_cluster a"] exI [of _ d2])
            (use r f g True full in \<open>simp add: head andthen_def modify_def ret_def\<close>)
      qed
    qed
  qed
qed

lemma allocate_total:
  assumes "ready (alloc_cache a, d)" and bm: "bitmap_ok P (capacity d) (bitmap a)" and "4 dvd SIZE P"
    and lo: "2 \<le> unat (alloc_start chain a)"
  obtains (found) r a' t' d' where "allocate P chain n (a, t, d) = (Ok r, a', t', d')"
      and "ready (alloc_cache a', d')" and "capacity d' = capacity d" and "bitmap a' = bitmap a"
      and "next_search_cluster a' = run_first_cluster r + run_cluster_count r"
      and "0 < run_len r" and "n = 0 \<or> run_len r \<le> unat n"
      and "2 \<le> run_lo r" and "run_lo r + run_len r \<le> bitmap_end (bitmap a)"
      and "\<And>c. run_lo r \<le> c \<Longrightarrow> c < run_lo r + run_len r \<Longrightarrow> \<not> allocated a d c"
      and "\<And>c. 2 \<le> c \<Longrightarrow> c < bitmap_end (bitmap a) \<Longrightarrow> allocated a' d' c =
        (run_lo r \<le> c \<and> c < run_lo r + run_len r \<or> allocated a d c)"
      and "\<And>s. \<not> in_bitmap (bitmap a) s \<Longrightarrow> view (alloc_cache a', d') s = view (alloc_cache a, d) s"
      and "\<And>s. covers t s \<Longrightarrow> covers t' s"
      and "\<And>c. run_lo r \<le> c \<Longrightarrow> c < run_lo r + run_len r \<Longrightarrow> covers t' (bitmap_sector_of P (bitmap a) c)"
      and "search_ok (search_of a d (unat (alloc_start chain a)) n (alloc_policy chain)) r \<or>
        (\<forall>c. unat (alloc_start chain a) \<le> c \<longrightarrow> c < bitmap_end (bitmap a) \<longrightarrow> allocated a d c)"
    | (full) a' d' where "allocate P chain n (a, t, d) = (Err DiskFull, a', t, d')"
      and "\<And>c. 2 \<le> c \<Longrightarrow> c < bitmap_end (bitmap a) \<Longrightarrow> allocated a d c"
proof -
  define policy where "policy = alloc_policy chain"
  define start where "start = (case chain of StoredEmpty \<Rightarrow> None | _ \<Rightarrow> Some (alloc_start chain a))"
  have st: "alloc_start chain a = (case start of Some c \<Rightarrow> c | None \<Rightarrow> next_search_cluster a)"
    by (simp add: start_def alloc_start_def split: stored_chain.split)
  obtain res c1 nx d1 where f: "find_free_clusters P start n policy (a, d) =
      (res, a\<lparr>alloc_cache := c1, next_search_cluster := nx\<rparr>, d1)" "ready (c1, d1)"
    "view (c1, d1) = view (alloc_cache a, d)" "capacity d1 = capacity d"
    "(\<exists>r. res = Ok r \<and> nx = run_first_cluster r + run_cluster_count r \<and>
        (search_ok (search_of a d (unat (alloc_start chain a)) n policy) r \<or>
         search_ok (search_of a d 2 n policy) r \<and>
         (\<forall>c. unat (alloc_start chain a) \<le> c \<longrightarrow> c < bitmap_end (bitmap a) \<longrightarrow> allocated a d c))) \<or>
     res = Err DiskFull \<and> nx = next_search_cluster a \<and>
       (\<forall>c. 2 \<le> c \<longrightarrow> c < bitmap_end (bitmap a) \<longrightarrow> allocated a d c)"
    using find_free_clusters_total [OF assms(1-4) st, of n policy] by (elim exE conjE)
  let ?a1 = "a\<lparr>alloc_cache := c1, next_search_cluster := nx\<rparr>"
  have al: "allocate P chain n (a, t, d) =
      (case res of Ok r \<Rightarrow> andthen (mark_allocated P r True) (\<lambda>_. ret r) (?a1, t, d1)
       | Err e \<Rightarrow> (Err e, ?a1, t, d1) | Panic \<Rightarrow> (Panic, ?a1, t, d1) | OutOfFuel \<Rightarrow> (OutOfFuel, ?a1, t, d1))"
    using f(1) by (simp add: allocate_def andthen_def zoom_def start_def policy_def alloc_policy_def alloc_start_def
        split: stored_chain.splits outcome.split)
  from f(5) show thesis
  proof
    assume "res = Err DiskFull \<and> nx = next_search_cluster a \<and>
       (\<forall>c. 2 \<le> c \<longrightarrow> c < bitmap_end (bitmap a) \<longrightarrow> allocated a d c)"
    then show thesis using al by (intro full [of ?a1 d1]) simp_all
  next
    assume "\<exists>r. res = Ok r \<and> nx = run_first_cluster r + run_cluster_count r \<and>
        (search_ok (search_of a d (unat (alloc_start chain a)) n policy) r \<or>
         search_ok (search_of a d 2 n policy) r \<and>
         (\<forall>c. unat (alloc_start chain a) \<le> c \<longrightarrow> c < bitmap_end (bitmap a) \<longrightarrow> allocated a d c))"
    then obtain r from2 where nx: "nx = run_first_cluster r + run_cluster_count r" and r: "res = Ok r" "good_run (search_of a d from2 n policy) r" "2 \<le> from2"
      "search_ok (search_of a d (unat (alloc_start chain a)) n policy) r \<or>
        (\<forall>c. unat (alloc_start chain a) \<le> c \<longrightarrow> c < bitmap_end (bitmap a) \<longrightarrow> allocated a d c)"
      using lo by (auto simp: search_ok_def)
    then have gr: "0 < run_len r" "n = 0 \<or> run_len r \<le> unat n" "2 \<le> run_lo r"
      "run_lo r + run_len r \<le> bitmap_end (bitmap a)"
      "\<And>c. run_lo r \<le> c \<Longrightarrow> c < run_lo r + run_len r \<Longrightarrow> \<not> allocated a d c"
      by (auto simp: good_run_def free_run_def unat_0_iff [symmetric])
    have r1: "ready (alloc_cache ?a1, d1)" "bitmap_ok P (capacity d1) (bitmap ?a1)"
      "run_lo r + run_len r \<le> bitmap_end (bitmap ?a1)" using f bm gr by simp_all
    obtain c' t' d' where m: "mark_allocated P r True (?a1, t, d1) = (Ok (), ?a1\<lparr>alloc_cache := c'\<rparr>, t', d')"
      "ready (c', d')" "capacity d' = capacity d1"
      "\<And>c. 2 \<le> c \<Longrightarrow> c < bitmap_end (bitmap ?a1) \<Longrightarrow> allocated (?a1\<lparr>alloc_cache := c'\<rparr>) d' c =
        (if run_lo r \<le> c \<and> c < run_lo r + run_len r then True else allocated ?a1 d1 c)"
      "\<And>s. \<not> in_bitmap (bitmap ?a1) s \<Longrightarrow> view (c', d') s = view (alloc_cache ?a1, d1) s"
      "\<And>s. covers t s \<Longrightarrow> covers t' s"
      "\<And>c. run_lo r \<le> c \<Longrightarrow> c < run_lo r + run_len r \<Longrightarrow> covers t' (bitmap_sector_of P (bitmap ?a1) c)"
      by (rule mark_allocated_total [OF r1(1,2) gr(3) r1(3), of True t]) (rule that; assumption)
    show thesis
    proof (rule found)
      show "allocate P chain n (a, t, d) = (Ok r, ?a1\<lparr>alloc_cache := c'\<rparr>, t', d')"
        using al r m(1) by (simp add: andthen_def ret_def)
      show "allocated (?a1\<lparr>alloc_cache := c'\<rparr>) d' c =
        (run_lo r \<le> c \<and> c < run_lo r + run_len r \<or> allocated a d c)"
        if "2 \<le> c" "c < bitmap_end (bitmap a)" for c
        using m(4) [of c] that f(3) by auto
    qed (use m gr f r(4) nx in \<open>simp_all add: policy_def\<close>)
  qed
qed

end

end
