(* ===== verification/Boot_Sector.thy ===== *)
theory Boot_Sector
  imports Block_Device
begin

text \<open>
  The boot sector (\<open>boot_sector.rs\<close>), the little-endian readers and the volume-dirty flag of
  \<open>utils.rs\<close>, and the volume geometry derived from the boot sector (\<open>FileSystemDetails\<close> of
  \<open>file_system.rs\<close>).
\<close>

section \<open>Readers\<close>

text \<open>\<open>value[i]\<close>\<close>

definition at :: "'a list \<Rightarrow> nat \<Rightarrow> ('s, 'a, 'e) op" where
  "at xs i = (if i < length xs then ret (xs ! i) else panic)"

definition read_le :: "nat \<Rightarrow> nat \<Rightarrow> u8 list \<Rightarrow> ('s, 'a::len word, 'e) op" where
  "read_le n index value = (case slice index (index + n) value of
     Some tmp \<Rightarrow> ret (from_le_bytes tmp)
   | None \<Rightarrow> panic)"

definition read_u16_le :: "nat \<Rightarrow> u8 list \<Rightarrow> ('s, u16, 'e) op" where
  "read_u16_le = read_le 2"

definition read_u32_le :: "nat \<Rightarrow> u8 list \<Rightarrow> ('s, u32, 'e) op" where
  "read_u32_le = read_le 4"

definition read_u64_le :: "nat \<Rightarrow> u8 list \<Rightarrow> ('s, u64, 'e) op" where
  "read_u64_le = read_le 8"

lemma at_in: "i < length xs \<Longrightarrow> at xs i = ret (xs ! i)"
  by (simp add: at_def)

lemma read_in:
  assumes "i + n \<le> length v"
  shows "read_le n i v = ret (from_le_bytes (take n (drop i v)))"
  using assms by (simp add: read_le_def slice_def)

section \<open>The boot sector\<close>

text \<open>\<open>VolumeFlags\<close>: the bits of the flag word the library knows of\<close>

type_synonym volume_flags = u16

definition FirstFat :: volume_flags where "FirstFat = 1"
definition VolumeDirty :: volume_flags where "VolumeDirty = 2"
definition MediaFailure :: volume_flags where "MediaFailure = 4"

definition volume_flags_from_bits_truncate :: "u16 \<Rightarrow> volume_flags" where
  "volume_flags_from_bits_truncate bits = bits AND (FirstFat OR VolumeDirty OR MediaFailure)"

text \<open>\<open>flags.set(other, value)\<close> of the \<open>bitflags\<close> type\<close>

definition volume_flags_set :: "volume_flags \<Rightarrow> bool \<Rightarrow> volume_flags \<Rightarrow> volume_flags" where
  "volume_flags_set other v flags = (if v then flags OR other else flags AND NOT other)"

record boot_sector =
  partition_offset :: u64
  volume_length :: u64
  fat_offset :: u32
  fat_length :: u32
  cluster_heap_offset :: u32
  cluster_count :: u32
  first_cluster_of_root_dir :: u32
  volume_serial_number :: u32
  file_system_revision :: u16
  boot_volume_flags :: volume_flags
  bytes_per_sector :: u16
  sectors_per_cluster :: u32
  number_of_fats :: u8
  drive_select :: u8
  percent_in_use :: u8

definition expect_at :: "u8 list \<Rightarrow> nat \<Rightarrow> u8 \<Rightarrow> 'e \<Rightarrow> ('s, unit, 'e) op" where
  "expect_at value i b e = andthen (at value i) (\<lambda>x. if x \<noteq> b then fail e else ret ())"

text \<open>The eight bytes of the name are compared as bytes: \<open>EXFAT\<close> and three spaces.\<close>

definition exfat_name :: "u8 list" where
  "exfat_name = [0x45, 0x58, 0x46, 0x41, 0x54, 0x20, 0x20, 0x20]"

definition check_is_valid :: "u8 list \<Rightarrow> ('s, unit, boot_sector_error) op" where
  "check_is_valid value =
     andthen (expect_at value 0 0xeb InvalidJumpBoot) (\<lambda>_.
     andthen (expect_at value 1 0x76 InvalidJumpBoot) (\<lambda>_.
     andthen (expect_at value 2 0x90 InvalidJumpBoot) (\<lambda>_.
     andthen (case slice 3 11 value of
         None \<Rightarrow> panic
       | Some s \<Rightarrow> if s \<noteq> exfat_name then fail InvalidFileSystemName else ret ()) (\<lambda>_.
     andthen (expect_at value 510 0x55 InvalidBootSignature) (\<lambda>_.
     expect_at value 511 0xaa InvalidBootSignature)))))"

definition boot_sector_try_from :: "u8 list \<Rightarrow> ('s, boot_sector, boot_sector_error) op" where
  "boot_sector_try_from value =
     andthen (check_is_valid value) (\<lambda>_.
     andthen (read_u64_le 64 value) (\<lambda>partition_offset'.
     andthen (read_u64_le 72 value) (\<lambda>volume_length'.
     andthen (read_u32_le 80 value) (\<lambda>fat_offset'.
     andthen (read_u32_le 84 value) (\<lambda>fat_length'.
     andthen (read_u32_le 88 value) (\<lambda>cluster_heap_offset'.
     andthen (read_u32_le 92 value) (\<lambda>cluster_count'.
     andthen (read_u32_le 96 value) (\<lambda>first_cluster_of_root_dir'.
     andthen (read_u32_le 100 value) (\<lambda>volume_serial_number'.
     andthen (read_u16_le 104 value) (\<lambda>file_system_revision'.
     andthen (read_u16_le 106 value) (\<lambda>flags.
     andthen (at value 108) (\<lambda>bytes_per_sector_shift.
     if \<not> (9 \<le> bytes_per_sector_shift \<and> bytes_per_sector_shift \<le> 12)
     then fail (InvalidBytesPerSectorShift bytes_per_sector_shift)
     else andthen (at value 109) (\<lambda>sectors_per_cluster_shift.
     if (ucast bytes_per_sector_shift :: u32) + ucast sectors_per_cluster_shift > 25
     then fail (InvalidSectorsPerClusterShift sectors_per_cluster_shift)
     else andthen (at value 110) (\<lambda>number_of_fats'.
     andthen (at value 111) (\<lambda>drive_select'.
     andthen (at value 112) (\<lambda>percent_in_use'.
     ret \<lparr>partition_offset = partition_offset', volume_length = volume_length',
          fat_offset = fat_offset', fat_length = fat_length',
          cluster_heap_offset = cluster_heap_offset', cluster_count = cluster_count',
          first_cluster_of_root_dir = first_cluster_of_root_dir',
          volume_serial_number = volume_serial_number',
          file_system_revision = file_system_revision',
          boot_volume_flags = volume_flags_from_bits_truncate flags,
          bytes_per_sector = push_bit (unat bytes_per_sector_shift) 1,
          sectors_per_cluster = push_bit (unat sectors_per_cluster_shift) 1,
          number_of_fats = number_of_fats', drive_select = drive_select',
          percent_in_use = percent_in_use'\<rparr>))))))))))))))))"

section \<open>The volume-dirty flag\<close>

definition set_volume_dirty :: "('d, 'e) platform \<Rightarrow> bool \<Rightarrow> ('d, unit, 'e exfat_error) op" where
  "set_volume_dirty P is_dirty =
     andthen (io_read P 0) (\<lambda>block.
     andthen (read_u16_le 106 block) (\<lambda>bits.
     let volume_flags = volume_flags_set VolumeDirty is_dirty (volume_flags_from_bits_truncate bits) in
     case splice 106 (to_le_bytes 2 volume_flags) block of
       None \<Rightarrow> panic
     | Some block' \<Rightarrow> io_write P 0 block'))"

section \<open>The volume geometry\<close>

record file_system_details =
  fsd_cluster_heap_offset :: u32
  fsd_fat_offset :: u32
  fsd_sectors_per_cluster :: u32
  fsd_cluster_length :: u32
  fsd_cluster_count :: u32
  fsd_first_cluster_of_root_dir :: u32

definition details_empty :: file_system_details where
  "details_empty = \<lparr>fsd_cluster_heap_offset = 0, fsd_fat_offset = 0, fsd_sectors_per_cluster = 64,
     fsd_cluster_length = 32768, fsd_cluster_count = 0, fsd_first_cluster_of_root_dir = 0\<rparr>"

definition details_new :: "boot_sector \<Rightarrow> file_system_details" where
  "details_new b = \<lparr>fsd_cluster_heap_offset = cluster_heap_offset b, fsd_fat_offset = fat_offset b,
     fsd_sectors_per_cluster = sectors_per_cluster b,
     fsd_cluster_length = ucast (bytes_per_sector b) * sectors_per_cluster b,
     fsd_cluster_count = cluster_count b,
     fsd_first_cluster_of_root_dir = first_cluster_of_root_dir b\<rparr>"

definition get_heap_sector_id :: "file_system_details \<Rightarrow> u32 \<Rightarrow> ('s, u32, 'e exfat_error) op" where
  "get_heap_sector_id fs cluster_id =
     (if cluster_id < 2 then fail (InvalidClusterId cluster_id)
      else ret (fsd_cluster_heap_offset fs + (cluster_id - 2) * fsd_sectors_per_cluster fs))"

section \<open>What an accepted boot sector guarantees\<close>

text \<open>The conditions under which a sector is accepted, on its bytes.\<close>

definition boot_sector_ok :: "u8 list \<Rightarrow> bool" where
  "boot_sector_ok v \<longleftrightarrow>
     take 3 v = [0xeb, 0x76, 0x90] \<and> take 8 (drop 3 v) = exfat_name \<and> take 2 (drop 510 v) = [0x55, 0xaa] \<and>
     v ! 108 \<in> {9..12} \<and> unat (v ! 108) + unat (v ! 109) \<le> 25"

lemma expect_at_in:
  "i < length v \<Longrightarrow> expect_at v i b e s = (if v ! i \<noteq> b then (Err e, s) else (Ok (), s))"
  by (simp add: expect_at_def at_in fail_def ret_def)

lemma check_is_valid_eq:
  assumes "512 \<le> length v"
  shows "check_is_valid v s =
    (if take 3 v \<noteq> [0xeb, 0x76, 0x90] then (Err InvalidJumpBoot, s)
     else if take 8 (drop 3 v) \<noteq> exfat_name then (Err InvalidFileSystemName, s)
     else if take 2 (drop 510 v) \<noteq> [0x55, 0xaa] then (Err InvalidBootSignature, s)
     else (Ok (), s))"
proof -
  have "take 3 v = [v ! 0, v ! 1, v ! 2]"
    using assms by (intro nth_equalityI) (auto simp: less_Suc_eq numeral_3_eq_3 numeral_2_eq_2)
  moreover have "take 2 (drop 510 v) = [v ! 510, v ! 511]"
    using assms by (intro nth_equalityI) (auto simp: less_Suc_eq numeral_2_eq_2)
  moreover have "v \<noteq> []" using assms by auto
  ultimately show ?thesis
    using assms
    by (simp add: check_is_valid_def andthen_def expect_at_in slice_def fail_def ret_def)
qed

lemma shift_sum: "(ucast (a :: u8) + ucast (b :: u8) > (25 :: u32)) = (unat a + unat b > 25)"
proof -
  have "unat ((ucast a :: u32) + ucast b) = unat a + unat b"
    using unat_less_length [of a] unat_less_length [of b] by (simp add: unat_word_ariths unat_ucast_up)
  then show ?thesis by (simp add: word_less_nat_alt)
qed

lemma boot_sector_accept:
  assumes "512 \<le> length v"
  shows "(\<exists>b. boot_sector_try_from v s = (Ok b, s)) \<longleftrightarrow> boot_sector_ok v"
  using assms shift_sum [of "v ! 108" "v ! 109"]
  by (simp add: boot_sector_try_from_def boot_sector_ok_def andthen_def check_is_valid_eq
      read_u64_le_def read_u32_le_def read_u16_le_def read_in at_in if_op_apply)
    (auto simp: ret_def fail_def)

lemma boot_sector_reject:
  assumes "512 \<le> length v" and "\<not> boot_sector_ok v"
  shows "\<exists>e. boot_sector_try_from v s = (Err e, s)"
  using assms shift_sum [of "v ! 108" "v ! 109"]
  by (simp add: boot_sector_try_from_def boot_sector_ok_def andthen_def check_is_valid_eq
      read_u64_le_def read_u32_le_def read_u16_le_def read_in at_in if_op_apply)
    (auto simp: ret_def fail_def)

lemma boot_sector_fields:
  assumes "boot_sector_try_from v s = (Ok b, s')" and "512 \<le> length v"
  shows "boot_sector_ok v" and "s' = s"
    and "bytes_per_sector b = push_bit (unat (v ! 108)) 1"
    and "sectors_per_cluster b = push_bit (unat (v ! 109)) 1"
    and "boot_volume_flags b = volume_flags_from_bits_truncate (from_le_bytes (take 2 (drop 106 v)))"
    and "cluster_count b = from_le_bytes (take 4 (drop 92 v))"
    and "fat_offset b = from_le_bytes (take 4 (drop 80 v))"
    and "cluster_heap_offset b = from_le_bytes (take 4 (drop 88 v))"
    and "first_cluster_of_root_dir b = from_le_bytes (take 4 (drop 96 v))"
proof -
  note steps = boot_sector_try_from_def andthen_def check_is_valid_eq
    read_u64_le_def read_u32_le_def read_u16_le_def read_in at_in ret_def fail_def
  show st: "s' = s" using assms by (auto simp: steps split: if_splits)
  show "boot_sector_ok v" using assms boot_sector_accept [of v s] st by blast
qed (use assms in \<open>auto simp: boot_sector_try_from_def andthen_def check_is_valid_eq
    read_u64_le_def read_u32_le_def read_u16_le_def read_in at_in ret_def fail_def split: if_splits\<close>)

lemma unat_shifted_one:
  assumes "k < LENGTH('a)"
  shows "unat (push_bit k 1 :: 'a::len word) = 2 ^ k"
proof -
  have "(2::nat) ^ k < 2 ^ LENGTH('a)" using assms by simp
  then have "take_bit LENGTH('a) ((2::nat) ^ k) = 2 ^ k" by (rule take_bit_nat_eq_self)
  then show ?thesis by (subst unsigned_push_bit_eq) (simp add: push_bit_eq_mult)
qed

text \<open>The geometry of an accepted volume: a cluster is at most 32 MiB, so its length fits 32 bits.\<close>

lemma boot_sector_geometry:
  assumes "boot_sector_try_from v s = (Ok b, s')" and "512 \<le> length v"
  shows "unat (bytes_per_sector b) \<in> {512, 1024, 2048, 4096}"
    and "unat (fsd_cluster_length (details_new b)) = unat (bytes_per_sector b) * unat (sectors_per_cluster b)"
    and "unat (fsd_cluster_length (details_new b)) \<le> 2 ^ 25" and "0 < unat (sectors_per_cluster b)"
proof -
  note f = boot_sector_fields [OF assms]
  let ?p = "unat (v ! 108)" and ?q = "unat (v ! 109)"
  have p: "9 \<le> ?p" "?p \<le> 12" and pq: "?p + ?q \<le> 25"
    using f(1) by (auto simp: boot_sector_ok_def word_le_nat_alt)
  have bps: "unat (bytes_per_sector b) = 2 ^ ?p" unfolding f(3) by (rule unat_shifted_one) (use p in simp)
  have spc: "unat (sectors_per_cluster b) = 2 ^ ?q" unfolding f(4) by (rule unat_shifted_one) (use p pq in simp)
  have "?p \<in> {9, 10, 11, 12}" using p by auto
  then show "unat (bytes_per_sector b) \<in> {512, 1024, 2048, 4096}" using bps by auto
  have le: "(2::nat) ^ ?p * 2 ^ ?q \<le> 2 ^ 25"
    unfolding power_add [symmetric] using pq by (rule power_increasing) simp
  then show cl: "unat (fsd_cluster_length (details_new b)) = unat (bytes_per_sector b) * unat (sectors_per_cluster b)"
    by (simp add: details_new_def unat_word_ariths unat_ucast_up bps spc)
  show "unat (fsd_cluster_length (details_new b)) \<le> 2 ^ 25" using le by (simp only: cl bps spc)
  show "0 < unat (sectors_per_cluster b)" using spc by simp
qed

section \<open>What marking the volume dirty changes\<close>

definition dirty_image :: "bool \<Rightarrow> u8 list \<Rightarrow> u8 list" where
  "dirty_image is_dirty v = take 106 v @
     to_le_bytes 2 (volume_flags_set VolumeDirty is_dirty
       (volume_flags_from_bits_truncate (from_le_bytes (take 2 (drop 106 v))))) @ drop 108 v"

context reliable_device
begin

lemma set_volume_dirty_total:
  assumes "dev_ok d" "0 < capacity d" "512 \<le> SIZE P"
  obtains d' where "set_volume_dirty P is_dirty d = (Ok (), d')" "dev_ok d'" "capacity d' = capacity d"
    "sector d' = (sector d)(0 := dirty_image is_dirty (sector d 0))"
proof -
  have len: "length (sector d 0) = SIZE P" using assms(1) by (rule sector_length)
  obtain d1 where d1: "io_read P 0 d = (Ok (sector d 0), d1)" "dev_ok d1"
    "capacity d1 = capacity d" "sector d1 = sector d"
    using io_read_returns [of d 0] assms by auto
  have l2: "length (dirty_image is_dirty (sector d 0)) = SIZE P"
    using len assms(3) by (simp add: dirty_image_def)
  obtain d2 where d2: "io_write P 0 (dirty_image is_dirty (sector d 0)) d1 = (Ok (), d2)" "dev_ok d2"
    "capacity d2 = capacity d1" "sector d2 = (sector d1)(0 := dirty_image is_dirty (sector d 0))"
    using io_write_returns [OF d1(2) _ l2, of 0] d1(3) assms(2) by auto
  have "set_volume_dirty P is_dirty d = (Ok (), d2)"
    using len assms(3) d2(1)
    by (simp add: set_volume_dirty_def andthen_Ok [where m = "io_read P 0", OF d1(1)] read_u16_le_def read_in Let_def
        splice_def dirty_image_def)
  then show thesis using that d1 d2 by simp
qed

end

lemma dirty_flags:
  "VolumeDirty AND volume_flags_set VolumeDirty is_dirty f = (if is_dirty then VolumeDirty else 0)"
  "volume_flags_set VolumeDirty is_dirty f AND (FirstFat OR MediaFailure) = f AND (FirstFat OR MediaFailure)"
  "volume_flags_from_bits_truncate (volume_flags_set VolumeDirty is_dirty (volume_flags_from_bits_truncate f))
    = volume_flags_set VolumeDirty is_dirty (volume_flags_from_bits_truncate f)"
proof -
  have c: "FirstFat = push_bit 0 1" "VolumeDirty = push_bit 1 1" "MediaFailure = push_bit 2 1"
    by (simp_all add: FirstFat_def VolumeDirty_def MediaFailure_def push_bit_eq_mult)
  note bs = c volume_flags_set_def volume_flags_from_bits_truncate_def
    bit_and_iff bit_or_iff bit_not_iff bit_push_bit_iff bit_1_iff if_distrib [of "\<lambda>w. bit w _"]
  show "VolumeDirty AND volume_flags_set VolumeDirty is_dirty f = (if is_dirty then VolumeDirty else 0)"
    by (rule bit_word_eqI, simp only: bs bit_0_eq bot_apply) (auto split: if_splits)
  show "volume_flags_set VolumeDirty is_dirty f AND (FirstFat OR MediaFailure) = f AND (FirstFat OR MediaFailure)"
    by (rule bit_word_eqI, simp only: bs) (auto split: if_splits)
  show "volume_flags_from_bits_truncate (volume_flags_set VolumeDirty is_dirty (volume_flags_from_bits_truncate f))
    = volume_flags_set VolumeDirty is_dirty (volume_flags_from_bits_truncate f)"
    by (rule bit_word_eqI, simp only: bs) (auto split: if_splits)
qed

lemma dirty_image_slices:
  assumes "512 \<le> length v"
  shows "length (dirty_image x v) = length v"
    and "i + n \<le> 106 \<Longrightarrow> take n (drop i (dirty_image x v)) = take n (drop i v)"
    and "108 \<le> i \<Longrightarrow> drop i (dirty_image x v) = drop i v"
    and "108 \<le> i \<Longrightarrow> dirty_image x v ! i = v ! i"
    and "take 2 (drop 106 (dirty_image x v)) = to_le_bytes 2 (volume_flags_set VolumeDirty x
       (volume_flags_from_bits_truncate (from_le_bytes (take 2 (drop 106 v)))))"
  using assms by (auto simp: dirty_image_def nth_append drop_take min_def)

text \<open>The rewritten sector parses to the same boot sector, but for the dirty bit.\<close>

lemma dirty_image_parses:
  assumes "boot_sector_try_from v s = (Ok b, s')" and "512 \<le> length v"
  shows "boot_sector_try_from (dirty_image x v) s =
    (Ok (b\<lparr>boot_volume_flags := volume_flags_set VolumeDirty x (boot_volume_flags b)\<rparr>), s)"
proof -
  note sl = dirty_image_slices [OF assms(2), where x = x]
  note f = boot_sector_fields [OF assms]
  have chk: "check_is_valid (dirty_image x v) s = check_is_valid v s"
    using assms(2) sl(2) [of 0 3] sl(2) [of 3 8] sl(3) [of 510] by (simp add: check_is_valid_eq sl(1))
  note steps = boot_sector_try_from_def andthen_def check_is_valid_eq [OF assms(2)]
    read_u64_le_def read_u32_le_def read_u16_le_def read_in at_in ret_def fail_def
  show ?thesis
    using assms
    by (auto simp: boot_sector_try_from_def andthen_def chk read_u64_le_def read_u32_le_def read_u16_le_def
        read_in at_in sl dirty_flags ret_def fail_def check_is_valid_eq split: if_splits)
qed

end
