(* ===== verification/Properties_Storage.thy ===== *)
theory Properties_Storage
  imports Allocation_Search Boot_Sector
begin

text \<open>
  The properties of the storage layer: the slot cache, the FAT, the allocation bitmap and the boot sector.
  Each is stated for an arbitrary device that satisfies the device interface and witnessed on
  \<open>DummyBlockDevice\<close>.
\<close>

section \<open>A concrete device\<close>

text \<open>A device of eight sectors of four bytes under a cache of two slots, after two updates.\<close>

definition ex_platform :: "(dummy_device, unit) platform" where
  "ex_platform = dummy_platform 4 64"

definition ex_cache :: "slot_cache \<times> dummy_device" where
  "ex_cache = (slot_cache_new 4 2, dummy_new 4 8)"

lemma ex_platform_reliable: "reliable_device ex_platform (dummy_sector 4) dummy_capacity (dummy_ok 4)"
  unfolding ex_platform_def by (rule dummy.reliable_device_axioms)

lemma ex_platform_device: "block_device ex_platform (dummy_sector 4) dummy_capacity (dummy_ok 4)"
  unfolding ex_platform_def by (rule dummy.block_device_axioms)

lemma ex_platform_size [simp]: "SIZE ex_platform = 4"
  by (simp add: ex_platform_def)

lemma ex_cache_inv: "cache_inv 4 (dummy_sector 4) (dummy_ok 4) ex_cache"
  unfolding ex_cache_def by (rule cache_inv_new) simp_all

lemma ex_cache_ready: "cache_ready 4 (dummy_sector 4) dummy_capacity (dummy_ok 4) ex_cache"
  unfolding ex_cache_def by (rule cache_ready_new) simp_all

lemma ex_cache_view: "cview (dummy_sector 4) ex_cache s = replicate 4 0"
proof -
  have "cview (dummy_sector 4) ex_cache = dummy_sector 4 (dummy_new 4 8)"
    unfolding ex_cache_def by (rule cview_new)
  then show ?thesis by (simp add: dummy_sector_def dummy_new_def)
qed

lemma ex_cache_capacity [simp]: "dummy_capacity (snd ex_cache) = 8"
  by (simp add: ex_cache_def dummy_capacity_def dummy_new_def)

text \<open>The same cache with two dirty slots.\<close>

definition ex_dirty :: "slot_cache \<times> dummy_device" where
  "ex_dirty = snd (update_sector ex_platform 2 (put_entry 0 9) (snd (update_sector ex_platform 5 (put_entry 0 7) ex_cache)))"

lemma put_entry_ex: "put_entry 0 7 [0, 0, 0, 0] = Some [7, 0, 0, 0]" "put_entry 0 9 [0, 0, 0, 0] = Some [9, 0, 0, 0]"
  by code_simp+

lemma ex_dirty_ready:
  "cache_ready 4 (dummy_sector 4) dummy_capacity (dummy_ok 4) ex_dirty"
  "cview (dummy_sector 4) ex_dirty = (cview (dummy_sector 4) ex_cache)(5 := [7, 0, 0, 0], 2 := [9, 0, 0, 0])"
  "dummy_capacity (snd ex_dirty) = 8"
proof -
  note upd = reliable_device.update_sector_total [OF ex_platform_reliable]
  have z: "cview (dummy_sector 4) ex_cache s = [0, 0, 0, 0]" for s
    unfolding ex_cache_view by code_simp
  obtain st1 where st1: "update_sector ex_platform 5 (put_entry 0 7) ex_cache = (Ok (), st1)"
    "cache_ready 4 (dummy_sector 4) dummy_capacity (dummy_ok 4) st1"
    "cview (dummy_sector 4) st1 = (cview (dummy_sector 4) ex_cache)(5 := [7, 0, 0, 0])" "dummy_capacity (snd st1) = 8"
    using upd [of ex_cache 5 "put_entry 0 7" "[7, 0, 0, 0]"] ex_cache_ready by (auto simp: z put_entry_ex)
  obtain st2 where st2: "update_sector ex_platform 2 (put_entry 0 9) st1 = (Ok (), st2)"
    "cache_ready 4 (dummy_sector 4) dummy_capacity (dummy_ok 4) st2"
    "cview (dummy_sector 4) st2 = (cview (dummy_sector 4) st1)(2 := [9, 0, 0, 0])"
    "dummy_capacity (snd st2) = dummy_capacity (snd st1)"
  proof (rule upd [of st1 2 "put_entry 0 9" "[9, 0, 0, 0]"])
    show "cache_ready (SIZE ex_platform) (dummy_sector 4) dummy_capacity (dummy_ok 4) st1" using st1(2) by simp
    show "put_entry 0 9 (cview (dummy_sector 4) st1 2) = Some [9, 0, 0, 0]" by (simp add: st1(3) z put_entry_ex)
  qed (use st1(4) in simp_all)
  have "ex_dirty = st2" using st1(1) st2(1) by (simp add: ex_dirty_def)
  then show "cache_ready 4 (dummy_sector 4) dummy_capacity (dummy_ok 4) ex_dirty"
    "cview (dummy_sector 4) ex_dirty = (cview (dummy_sector 4) ex_cache)(5 := [7, 0, 0, 0], 2 := [9, 0, 0, 0])"
    "dummy_capacity (snd ex_dirty) = 8"
    using st1 st2 by simp_all
qed

section \<open>The slot cache\<close>

text \<open>
  C16: reading through the cache. A successful read returns the content of the sector as the client sees it (the newest
  bytes written to it, whether or not they have reached the medium), and changes the content of no sector. On a device
  that serves requests within its capacity a read always succeeds: the search for a victim slot ends and dirty victims
  are written back.
\<close>

theorem cache_read_coherent:
  assumes "block_device P sector capacity dev_ok" and "cache_inv (SIZE P) sector dev_ok st"
  shows "(\<forall>b st'. read_sector P s st = (Ok b, st') \<longrightarrow>
      b = cview sector st s \<and> cview sector st' = cview sector st \<and> cache_inv (SIZE P) sector dev_ok st') \<and>
    (reliable_device P sector capacity dev_ok \<and> cache_ready (SIZE P) sector capacity dev_ok st \<and> unat s < capacity (snd st) \<longrightarrow>
      (\<exists>st'. read_sector P s st = (Ok (cview sector st s), st') \<and> cache_ready (SIZE P) sector capacity dev_ok st'))"
proof (intro conjI allI impI)
  show "reliable_device P sector capacity dev_ok \<and> cache_ready (SIZE P) sector capacity dev_ok st \<and> unat s < capacity (snd st) \<Longrightarrow>
      \<exists>st'. read_sector P s st = (Ok (cview sector st s), st') \<and> cache_ready (SIZE P) sector capacity dev_ok st'"
    using reliable_device.read_sector_total by metis
qed (use block_device.read_sector_ok [OF assms] in blast)+

theorem cache_read_coherent_witness:
  "\<exists>st'. read_sector ex_platform 3 ex_cache = (Ok (cview (dummy_sector 4) ex_cache 3), st') \<and>
   cview (dummy_sector 4) st' = cview (dummy_sector 4) ex_cache"
proof -
  note c = cache_read_coherent [OF ex_platform_device, of ex_cache 3]
  have "cache_inv (SIZE ex_platform) (dummy_sector 4) (dummy_ok 4) ex_cache" using ex_cache_inv by simp
  from c [OF this] show ?thesis using ex_platform_reliable ex_cache_ready by auto
qed

text \<open>
  C17: a successful in-place update through the cache replaces the content of that one sector by the updated
  bytes, as every later read sees it, and keeps the invariant of the cache.
\<close>

theorem cache_update_coherent:
  assumes "block_device P sector capacity dev_ok"
    and "cache_inv (SIZE P) sector dev_ok st" and "update_sector P s f st = (Ok (), st')"
    and "\<And>b. f (cview sector st s) = Some b \<Longrightarrow> length b = SIZE P"
  shows "\<exists>b. f (cview sector st s) = Some b \<and> cview sector st' = (cview sector st)(s := b) \<and>
    cache_inv (SIZE P) sector dev_ok st'"
  using block_device.update_sector_ok [OF assms] by blast

theorem cache_update_coherent_witness:
  "\<exists>b. put_entry 0 7 (cview (dummy_sector 4) ex_cache 5) = Some b \<and>
     cview (dummy_sector 4) (snd (update_sector ex_platform 5 (put_entry 0 7) ex_cache)) =
       (cview (dummy_sector 4) ex_cache)(5 := b)"
proof -
  have r: "fst (update_sector ex_platform 5 (put_entry 0 7) ex_cache) = Ok ()" by code_simp
  then have u: "update_sector ex_platform 5 (put_entry 0 7) ex_cache =
      (Ok (), snd (update_sector ex_platform 5 (put_entry 0 7) ex_cache))"
    by (simp add: prod_eq_iff)
  have "\<exists>b. put_entry 0 7 (cview (dummy_sector 4) ex_cache 5) = Some b \<and>
     cview (dummy_sector 4) (snd (update_sector ex_platform 5 (put_entry 0 7) ex_cache)) =
       (cview (dummy_sector 4) ex_cache)(5 := b) \<and>
     cache_inv (SIZE ex_platform) (dummy_sector 4) (dummy_ok 4) (snd (update_sector ex_platform 5 (put_entry 0 7) ex_cache))"
    by (rule cache_update_coherent [OF ex_platform_device _ u])
      (use ex_cache_inv in \<open>auto simp: ex_cache_view dest: put_entry_length\<close>)
  then show ?thesis by blast
qed

section \<open>The file allocation table\<close>

text \<open>
  C23: setting a FAT entry and then following it. The set succeeds, replaces that one entry of the table,
  records the sector it dirtied, and a lookup of any cluster afterwards decodes the updated table.
\<close>

theorem fat_set_then_next:
  assumes dev: "reliable_device P sector capacity dev_ok"
    and "cache_ready (SIZE P) sector capacity dev_ok (fat_cache f, d)"
    and "start_of_fat_sector f = Some off" and "fat_sizes_ok P"
    and "2 \<le> c" and "unat (fat_sector_of P off c) < capacity d"
    and "2 \<le> c2" and "unat (fat_sector_of P off c2) < capacity d"
  shows "\<exists>f' t' d' st. fat_set P c v (f, t, d) = (Ok (), f', t', d') \<and> covers t' (fat_sector_of P off c) \<and>
    fat_entry_at P off (cview sector (fat_cache f', d')) = (fat_entry_at P off (cview sector (fat_cache f, d)))(c := v) \<and>
    next_cluster_in_fat_chain P c2 (f', d') =
      (Ok (decode_entry (if c2 = c then v else fat_entry_at P off (cview sector (fat_cache f, d)) c2)), st)"
proof -
  obtain f' d' where s: "fat_set P c v (f, t, d) =
       (Ok (), f', touched_insert (touched_sector_new TkFat (fat_sector_of P off c)) t, d')"
    "cache_ready (SIZE P) sector capacity dev_ok (fat_cache f', d')" "start_of_fat_sector f' = Some off"
    "fat_entry_at P off (cview sector (fat_cache f', d')) = (fat_entry_at P off (cview sector (fat_cache f, d)))(c := v)"
    "capacity d' = capacity d"
    using reliable_device.fat_set_total [OF assms(1-6)] by metis
  obtain st where "next_cluster_in_fat_chain P c2 (f', d') =
      (Ok (decode_entry (fat_entry_at P off (cview sector (fat_cache f', d')) c2)), st)"
    using reliable_device.next_cluster_total [OF dev s(2,3) assms(4,7)] assms(8) s(5) by metis
  then show ?thesis using s covers_inserted [of "touched_sector_new TkFat (fat_sector_of P off c)" t]
    by (simp add: touched_sector_new_def)
qed

definition ex_fat :: fat where
  "ex_fat = \<lparr>start_of_fat_sector = Some 1, fat_cache = fst ex_dirty\<rparr>"

theorem fat_set_then_next_witness:
  "\<exists>f' t' d' st. fat_set ex_platform 4 6 (ex_fat, file_dirty_new, snd ex_dirty) = (Ok (), f', t', d') \<and>
    next_cluster_in_fat_chain ex_platform 4 (f', d') = (Ok (Some 6), st)"
proof -
  have "decode_entry 6 = Some 6" by code_simp
  moreover have "num_entries ex_platform = 1" by code_simp
  ultimately show ?thesis
    using fat_set_then_next [OF ex_platform_reliable, of ex_fat "snd ex_dirty" 1 4 4 6 file_dirty_new]
      ex_dirty_ready(1,3)
    by (auto simp: ex_fat_def fat_sizes_ok_def ENTRY_SIZE_def fat_sector_of_def)
qed

section \<open>The allocation bitmap\<close>

text \<open>
  C18: marking a run inside the cluster heap succeeds on a reliable device; it changes the bits of exactly the
  clusters of the run, and every bitmap sector it dirtied is recorded in the touched set.
\<close>

theorem mark_allocated_exact:
  assumes "reliable_device P sector capacity dev_ok"
    and "cache_ready (SIZE P) sector capacity dev_ok (alloc_cache a, d)" and "bitmap_ok P (capacity d) (bitmap a)"
    and "2 \<le> run_lo r" and "run_lo r + run_len r \<le> bitmap_end (bitmap a)"
  shows "\<exists>a' t' d'. mark_allocated P r x (a, t, d) = (Ok (), a', t', d') \<and> bitmap a' = bitmap a \<and>
    (\<forall>c. 2 \<le> c \<longrightarrow> c < bitmap_end (bitmap a) \<longrightarrow>
      cluster_allocated P (first_sector (bitmap a)) (cview sector (alloc_cache a', d')) c =
        (if run_lo r \<le> c \<and> c < run_lo r + run_len r then x
         else cluster_allocated P (first_sector (bitmap a)) (cview sector (alloc_cache a, d)) c)) \<and>
    (\<forall>c. run_lo r \<le> c \<longrightarrow> c < run_lo r + run_len r \<longrightarrow> covers t' (bitmap_sector_of P (bitmap a) c))"
proof (rule reliable_device.mark_allocated_total [OF assms, of x t])
  fix c' t' d'
  assume m: "mark_allocated P r x (a, t, d) = (Ok (), a\<lparr>alloc_cache := c'\<rparr>, t', d')"
    and b: "\<And>c. 2 \<le> c \<Longrightarrow> c < bitmap_end (bitmap a) \<Longrightarrow>
      cluster_allocated P (first_sector (bitmap (a\<lparr>alloc_cache := c'\<rparr>))) (cview sector (alloc_cache (a\<lparr>alloc_cache := c'\<rparr>), d')) c =
      (if run_lo r \<le> c \<and> c < run_lo r + run_len r then x
       else cluster_allocated P (first_sector (bitmap a)) (cview sector (alloc_cache a, d)) c)"
    and "\<And>c. run_lo r \<le> c \<Longrightarrow> c < run_lo r + run_len r \<Longrightarrow> covers t' (bitmap_sector_of P (bitmap a) c)"
  then show ?thesis
    by (intro exI [of _ "a\<lparr>alloc_cache := c'\<rparr>"] exI [of _ t'] exI [of _ d']) simp
qed

definition ex_alloc :: allocator where
  "ex_alloc = \<lparr>bitmap = \<lparr>first_sector = 5, num_sectors = 1, bitmap_cluster_count = 20\<rparr>,
     alloc_cache = fst ex_dirty, next_search_cluster = 2\<rparr>"

lemma ex_alloc_ok:
  "cache_ready (SIZE ex_platform) (dummy_sector 4) dummy_capacity (dummy_ok 4) (alloc_cache ex_alloc, snd ex_dirty)"
  "bitmap_ok ex_platform (dummy_capacity (snd ex_dirty)) (bitmap ex_alloc)" "bitmap_end (bitmap ex_alloc) = 22"
  using ex_dirty_ready(1,3)
  by (simp_all add: ex_alloc_def bitmap_ok_def alloc_sizes_ok_def cps_def bitmap_end_def)

theorem mark_allocated_exact_witness:
  "\<exists>a' t' d'. mark_allocated ex_platform \<lparr>run_first_cluster = 4, run_cluster_count = 3\<rparr> False
      (ex_alloc, file_dirty_new, snd ex_dirty) = (Ok (), a', t', d') \<and>
    \<not> cluster_allocated ex_platform 5 (cview (dummy_sector 4) (alloc_cache a', d')) 4 \<and>
    covers t' (bitmap_sector_of ex_platform (bitmap ex_alloc) 6)"
proof -
  let ?r = "\<lparr>run_first_cluster = 4, run_cluster_count = 3\<rparr> :: allocated_run"
  have fs: "first_sector (bitmap ex_alloc) = 5" by (simp add: ex_alloc_def)
  obtain a' t' d' where m: "mark_allocated ex_platform ?r False (ex_alloc, file_dirty_new, snd ex_dirty) = (Ok (), a', t', d')"
    "\<forall>c. 2 \<le> c \<longrightarrow> c < 22 \<longrightarrow> cluster_allocated ex_platform 5 (cview (dummy_sector 4) (alloc_cache a', d')) c =
        (if 4 \<le> c \<and> c < 7 then False
         else cluster_allocated ex_platform 5 (cview (dummy_sector 4) (alloc_cache ex_alloc, snd ex_dirty)) c)"
    "\<forall>c. 4 \<le> c \<longrightarrow> c < 7 \<longrightarrow> covers t' (bitmap_sector_of ex_platform (bitmap ex_alloc) c)"
    using mark_allocated_exact [OF ex_platform_reliable ex_alloc_ok(1,2), of ?r False file_dirty_new]
    by (auto simp: ex_alloc_ok(3) fs)
  then show ?thesis by (intro exI conjI) auto
qed

end
