(* ===== verification/Properties_Allocation.thy ===== *)
theory Properties_Allocation
  imports Properties_Storage
begin

text \<open>
  The properties of the cluster allocator (search and allocation over the bitmap), of the boot sector and of
  the touched-sector set, with their witnesses on \<open>DummyBlockDevice\<close>.
\<close>

section \<open>Searching and allocating\<close>



text \<open>
  C11: allocation hands out only free clusters. On a reliable device \<open>allocate\<close> returns a non-empty run of at most
  the requested number of clusters, all of them inside the heap and free before, and afterwards exactly those clusters
  have become allocated and their bitmap sectors are recorded for flushing; it fails with \<open>DiskFull\<close> only when the
  heap has no free cluster.
\<close>

theorem allocate_fresh:
  assumes "reliable_device P sector capacity dev_ok"
    and "cache_ready (SIZE P) sector capacity dev_ok (alloc_cache a, d)" and "bitmap_ok P (capacity d) (bitmap a)"
    and "4 dvd SIZE P" and "2 \<le> unat (alloc_start chain a)"
  shows "(\<exists>r a' t' d'. allocate P chain n (a, t, d) = (Ok r, a', t', d') \<and>
      0 < run_len r \<and> (n = 0 \<or> run_len r \<le> unat n) \<and> 2 \<le> run_lo r \<and> run_lo r + run_len r \<le> bitmap_end (bitmap a) \<and>
      (\<forall>c. run_lo r \<le> c \<longrightarrow> c < run_lo r + run_len r \<longrightarrow> covers t' (bitmap_sector_of P (bitmap a) c) \<and>
        \<not> cluster_allocated P (first_sector (bitmap a)) (cview sector (alloc_cache a, d)) c) \<and>
      (\<forall>c. 2 \<le> c \<longrightarrow> c < bitmap_end (bitmap a) \<longrightarrow>
        cluster_allocated P (first_sector (bitmap a')) (cview sector (alloc_cache a', d')) c =
          (run_lo r \<le> c \<and> c < run_lo r + run_len r \<or>
           cluster_allocated P (first_sector (bitmap a)) (cview sector (alloc_cache a, d)) c))) \<or>
    (\<exists>a' d'. allocate P chain n (a, t, d) = (Err DiskFull, a', t, d') \<and>
      (\<forall>c. 2 \<le> c \<longrightarrow> c < bitmap_end (bitmap a) \<longrightarrow>
        cluster_allocated P (first_sector (bitmap a)) (cview sector (alloc_cache a, d)) c))"
proof (rule reliable_device.allocate_total [OF assms, of n t], goal_cases)
  case (1 r a' t' d')
  then show ?case by (intro disjI1 exI [of _ r] exI [of _ a'] exI [of _ t'] exI [of _ d']) simp
next
  case (2 a' d')
  then show ?case by (intro disjI2 exI [of _ a'] exI [of _ d']) simp
qed

text \<open>The example bitmap marks three clusters; the heap is not full.\<close>

lemma ex_alloc_free: "\<not> cluster_allocated ex_platform 5 (cview (dummy_sector 4) (alloc_cache ex_alloc, snd ex_dirty)) 20"
proof -
  have "cview (dummy_sector 4) (alloc_cache ex_alloc, snd ex_dirty) 5 = [7, 0, 0, 0]"
    using ex_dirty_ready(2) by (simp add: ex_alloc_def)
  moreover have "\<not> block_bit [7, 0, 0, 0] 18" by code_simp
  ultimately show ?thesis by (simp add: cluster_allocated_def cps_def)
qed

theorem allocate_fresh_witness:
  "\<exists>r a' t' d'. allocate ex_platform StoredEmpty 2 (ex_alloc, file_dirty_new, snd ex_dirty) = (Ok r, a', t', d') \<and>
    0 < run_len r \<and> run_len r \<le> 2"
proof -
  have "alloc_start StoredEmpty ex_alloc = 2" by (simp add: alloc_start_def ex_alloc_def)
  then have "2 \<le> unat (alloc_start StoredEmpty ex_alloc)" by simp
  from allocate_fresh [OF ex_platform_reliable ex_alloc_ok(1,2) _ this, of 2 file_dirty_new] show ?thesis
  proof
    show "4 dvd SIZE ex_platform" by simp
  next
    assume "\<exists>a' d'. allocate ex_platform StoredEmpty 2 (ex_alloc, file_dirty_new, snd ex_dirty) =
        (Err DiskFull, a', file_dirty_new, d') \<and>
      (\<forall>c. 2 \<le> c \<longrightarrow> c < bitmap_end (bitmap ex_alloc) \<longrightarrow> cluster_allocated ex_platform (first_sector (bitmap ex_alloc))
        (cview (dummy_sector 4) (alloc_cache ex_alloc, snd ex_dirty)) c)"
    then have "\<forall>c. 2 \<le> c \<longrightarrow> c < bitmap_end (bitmap ex_alloc) \<longrightarrow> cluster_allocated ex_platform
        (first_sector (bitmap ex_alloc)) (cview (dummy_sector 4) (alloc_cache ex_alloc, snd ex_dirty)) c"
      by (elim exE conjE)
    then have "cluster_allocated ex_platform (first_sector (bitmap ex_alloc))
        (cview (dummy_sector 4) (alloc_cache ex_alloc, snd ex_dirty)) 20" by (simp add: ex_alloc_ok(3))
    moreover have "first_sector (bitmap ex_alloc) = 5" by (simp add: ex_alloc_def)
    ultimately show ?thesis using ex_alloc_free by simp
  qed (elim exE conjE, intro exI conjI, assumption, simp_all)
qed

text \<open>
  Marking refuses a run that starts before the first cluster or reaches past the last cluster of the heap, whatever
  the device does: the error names the run's first cluster and neither the caches, the device nor the touched set changes.
\<close>

lemma mark_allocated_out_of_heap:
  assumes "run_cluster_count r \<noteq> 0" and "bitmap_end (bitmap a) < 2 ^ 32"
    and "run_lo r < 2 \<or> bitmap_end (bitmap a) < run_lo r + run_len r"
  shows "mark_allocated P r x (a, t, d) = (Err (InvalidClusterId (run_first_cluster r)), a, t, d)"
proof -
  let ?l = "run_first_cluster r + (run_cluster_count r - 1)"
  have n0: "0 < run_len r" using assms(1) by (simp add: unat_gt_0)
  then have n1: "unat (run_cluster_count r - 1) = run_len r - 1" by (simp add: unat_sub word_le_nat_alt)
  have l: "unat ?l = run_lo r + (run_len r - 1)" if "run_lo r + (run_len r - 1) < 2 ^ 32"
    using that by (simp add: unat_word_ariths n1)
  have e: "unat (FIRST_CLUSTER_ID + bitmap_cluster_count (bitmap a)) = bitmap_end (bitmap a)"
    using assms(2) by (simp add: FIRST_CLUSTER_ID_def bitmap_end_def unat_word_ariths)
  show ?thesis
  proof (cases "run_lo r < 2 \<or> 2 ^ 32 \<le> run_lo r + (run_len r - 1)")
    case True
    then show ?thesis using assms(1) by (auto simp: mark_allocated_def fail_def FIRST_CLUSTER_ID_def word_less_nat_alt n1)
  next
    case False
    then have "FIRST_CLUSTER_ID + bitmap_cluster_count (bitmap a) \<le> ?l"
      using assms(3) n0 e l by (auto simp: word_le_nat_alt)
    then show ?thesis using assms(1) False
      by (auto simp: mark_allocated_def Let_def andthen_gets fail_def FIRST_CLUSTER_ID_def word_less_nat_alt n1)
  qed
qed

section \<open>The touched-sector set\<close>

text \<open>
  Inserting into the touched set never loses a sector. Whatever was inserted before, after any sequence of
  insertions every inserted sector is covered (recorded, or the overflow flag asks for a full flush), the recorded
  sectors are pairwise different and at most \<open>DEFAULT_TOUCHED_SECTORS\<close>; sorting permutes them into flush order.
\<close>

lemma touched_inserts_covered:
  "(\<forall>t \<in> set ts. covers (fold touched_insert ts file_dirty_new) (ts_sector t)) \<and>
    touched_inv (fold touched_insert ts file_dirty_new) \<and>
    mset (sectors (touched_sort fd)) = mset (sectors fd) \<and>
      sorted (map (\<lambda>x. (rank (ts_kind x), ts_sector x)) (sectors (touched_sort fd)))"
proof (intro conjI ballI)
  have keep: "covers fd s \<Longrightarrow> covers (fold touched_insert ts fd) s" for fd s ts
    by (induction ts arbitrary: fd) (simp_all add: covers_mono)
  show "covers (fold touched_insert ts fd) (ts_sector t)" if "t \<in> set ts" for t fd
    using that
    by (induction ts arbitrary: fd) (auto intro: keep covers_inserted)
  have "touched_inv fd \<Longrightarrow> touched_inv (fold touched_insert ts fd)" for fd
    by (induction ts arbitrary: fd) (simp_all add: touched_insert_inv)
  then show "touched_inv (fold touched_insert ts file_dirty_new)" by simp
qed (simp_all add: touched_sort_def)

section \<open>The boot sector\<close>

text \<open>
  C40: a sector is accepted as a boot sector exactly when its jump code, file system name and signature are right and
  its shifts are in range, and the geometry it yields is sound: the sector size is 512, 1024, 2048 or 4096 bytes and
  the cluster length, computed in 32 bits, is the true product and at most 32 MiB.
\<close>

theorem boot_sector_accepted:
  assumes "512 \<le> length v"
  shows "((\<exists>b. boot_sector_try_from v s = (Ok b, s)) \<longleftrightarrow> boot_sector_ok v) \<and>
    (\<forall>b s'. boot_sector_try_from v s = (Ok b, s') \<longrightarrow>
      unat (bytes_per_sector b) \<in> {512, 1024, 2048, 4096} \<and>
      unat (fsd_cluster_length (details_new b)) = unat (bytes_per_sector b) * unat (sectors_per_cluster b) \<and>
      0 < unat (fsd_cluster_length (details_new b)) \<and> unat (fsd_cluster_length (details_new b)) \<le> 2 ^ 25)"
proof (intro conjI [OF boot_sector_accept [OF assms]] allI impI)
  fix b s'
  assume "boot_sector_try_from v s = (Ok b, s')"
  note g = boot_sector_geometry [OF this assms]
  have "0 < unat (fsd_cluster_length (details_new b))" using g by auto
  then show "unat (bytes_per_sector b) \<in> {512, 1024, 2048, 4096} \<and>
      unat (fsd_cluster_length (details_new b)) = unat (bytes_per_sector b) * unat (sectors_per_cluster b) \<and>
      0 < unat (fsd_cluster_length (details_new b)) \<and> unat (fsd_cluster_length (details_new b)) \<le> 2 ^ 25"
    using g by (intro conjI)
qed

definition ex_boot :: "u8 list" where
  "ex_boot = [0xeb, 0x76, 0x90] @ exfat_name @ replicate 97 0 @ [9, 3] @ replicate 400 0 @ [0x55, 0xaa]"

lemma ex_boot_ok: "length ex_boot = 512" "boot_sector_ok ex_boot"
proof -
  have n: "length exfat_name = 8" by code_simp
  then show "length ex_boot = 512" by (simp add: ex_boot_def)
  have "take 8 (drop 3 ex_boot) = exfat_name" "take 2 (drop 510 ex_boot) = [0x55, 0xaa]"
    "take 3 ex_boot = [0xeb, 0x76, 0x90]" "ex_boot ! 108 = 9" "ex_boot ! 109 = 3"
    by (simp_all add: ex_boot_def n nth_append)
  then show "boot_sector_ok ex_boot" by (simp add: boot_sector_ok_def)
qed

theorem boot_sector_accepted_witness: "\<exists>b. boot_sector_try_from ex_boot () = (Ok b, ())"
  using boot_sector_accepted [of ex_boot "()"] ex_boot_ok by simp

text \<open>
  Marking the volume dirty or clean. On a reliable device it succeeds and rewrites sector 0 only; the rewritten
  sector parses to the same boot sector with exactly the dirty bit changed.
\<close>

lemma set_volume_dirty_exact:
  assumes "reliable_device P sector capacity dev_ok" and "dev_ok d" and "0 < capacity d" and "512 \<le> SIZE P"
    and "boot_sector_try_from (sector d 0) u = (Ok b, u')"
  shows "\<exists>d'. set_volume_dirty P x d = (Ok (), d') \<and> dev_ok d' \<and> (\<forall>s. s \<noteq> 0 \<longrightarrow> sector d' s = sector d s) \<and>
    boot_sector_try_from (sector d' 0) u =
      (Ok (b\<lparr>boot_volume_flags := volume_flags_set VolumeDirty x (boot_volume_flags b)\<rparr>), u) \<and>
    VolumeDirty AND volume_flags_set VolumeDirty x (boot_volume_flags b) = (if x then VolumeDirty else 0)"
proof -
  have "length (sector d 0) = SIZE P"
    using assms(1,2) unfolding reliable_device_def by (blast dest: block_device.sector_length)
  then have "512 \<le> length (sector d 0)" using assms(4) by simp
  note p = dirty_image_parses [OF assms(5) this, of x]
  obtain d' where "set_volume_dirty P x d = (Ok (), d')" "dev_ok d'"
    "sector d' = (sector d)(0 := dirty_image x (sector d 0))"
    by (rule reliable_device.set_volume_dirty_total [OF assms(1-4), of x])
  then show ?thesis using p by (simp add: dirty_flags)
qed

end
