(* ===== verification/Names.thy ===== *)
theory Names
  imports Exfat_Prelude
begin

text \<open>
  File names (\<open>utils.rs\<close>, \<open>upcase_table.rs\<close>): the up-case table, the name hash, the split of a
  path, and the chunks of fifteen UTF-16 units in which a name is stored.

  A Rust \<open>str\<close> is the list of its Unicode scalar values, each a 32-bit word; an iterator over the
  UTF-16 units of a string is the list of the units not yet taken.
\<close>

section \<open>Strings\<close>

type_synonym rstr = "u32 list"

definition scalar_value :: "u32 \<Rightarrow> bool" where
  "scalar_value c \<longleftrightarrow> c < 0xD800 \<or> 0xDFFF < c \<and> c < 0x110000"

text \<open>\<open>char::encode_utf16\<close> and \<open>str::encode_utf16\<close>\<close>

definition encode_utf16_char :: "u32 \<Rightarrow> u16 list" where
  "encode_utf16_char c =
     (if c < 0x10000 then [ucast c]
      else let v = c - 0x10000 in
        [0xD800 OR ucast (drop_bit 10 v), 0xDC00 OR (ucast v AND 0x3FF)])"

definition encode_utf16 :: "rstr \<Rightarrow> u16 list" where
  "encode_utf16 s = concat (map encode_utf16_char s)"

definition rstr_of :: "string \<Rightarrow> rstr" where
  "rstr_of s = map (\<lambda>c. of_nat (of_char c)) s"

section \<open>The up-case table\<close>

record upcase_table =
  mapping :: "u16 list"

definition upcase_default :: upcase_table where
  "upcase_default = \<lparr>mapping = map of_nat ([0..<97] @ [65..<91] @ [123..<128])\<rparr>"

definition upcase_empty :: upcase_table where
  "upcase_empty = \<lparr>mapping = replicate 128 0\<rparr>"

definition upcase :: "upcase_table \<Rightarrow> u16 \<Rightarrow> u16" where
  "upcase t utf16_char =
     (let index = unat utf16_char in
      if index < length (mapping t) then mapping t ! index else utf16_char)"

section \<open>Names and paths\<close>

definition is_illegal_name_char :: "u16 \<Rightarrow> bool" where
  "is_illegal_name_char c \<longleftrightarrow>
     c \<le> 0x001F \<or> c \<in> {0x0022, 0x002A, 0x002F, 0x003A, 0x003C, 0x003E, 0x003F, 0x005C, 0x007C}"

text \<open>One round of the hash; the additions wrap.\<close>

definition hash_byte :: "u16 \<Rightarrow> u8 \<Rightarrow> u16" where
  "hash_byte hash byte = (if hash AND 1 > 0 then 0x8000 else 0) + drop_bit 1 hash + ucast byte"

fun hash_loop :: "upcase_table \<Rightarrow> u16 list \<Rightarrow> u16 \<Rightarrow> nat \<Rightarrow> ('s, u16 \<times> nat, string) op" where
  "hash_loop t [] hash count =
     (if count = 0 then fail ''name is empty'' else ret (hash, count))"
| "hash_loop t (c # cs) hash count =
     (if is_illegal_name_char c then fail ''name contains an illegal character''
      else let c = upcase t c; byte0 = ucast (c AND 0xFF); byte1 = ucast (drop_bit 8 c) in
        hash_loop t cs (hash_byte (hash_byte hash byte0) byte1) (Suc count))"

definition encode_utf16_upcase_and_hash ::
    "rstr \<Rightarrow> upcase_table \<Rightarrow> ('s, u16 \<times> nat, string) op" where
  "encode_utf16_upcase_and_hash s t =
     (if s = rstr_of ''.'' \<or> s = rstr_of ''..'' then fail ''. and .. are reserved names''
      else hash_loop t (encode_utf16 s) 0 0)"

text \<open>\<open>path.rfind(['/', '\\'])\<close>: the index of the last separator\<close>

definition is_separator :: "u32 \<Rightarrow> bool" where
  "is_separator c \<longleftrightarrow> c = 0x2F \<or> c = 0x5C"

fun rfind_separator :: "rstr \<Rightarrow> nat option" where
  "rfind_separator [] = None"
| "rfind_separator (c # cs) = (case rfind_separator cs of
     Some i \<Rightarrow> Some (Suc i)
   | None \<Rightarrow> if is_separator c then Some 0 else None)"

definition split_path :: "rstr \<Rightarrow> rstr \<times> rstr" where
  "split_path path = (case rfind_separator path of
     None \<Rightarrow> ([], path)
   | Some index \<Rightarrow> (take index path, drop (index + 1) path))"

text \<open>The number of 32-byte entries of a directory entry set; the count is cast to \<open>u32\<close>.\<close>

definition calc_dir_entry_set_len :: "nat \<Rightarrow> nat" where
  "calc_dir_entry_set_len name_char_count = 2 + unat (div_ceil (of_nat name_char_count :: u32) 15)"

text \<open>\<open>Utf16Chunks::next_chunk\<close>: the filled chunk, how much of it is used, and the iterator\<close>

fun next_chunk_loop :: "nat \<Rightarrow> u16 list \<Rightarrow> u16 list \<Rightarrow> nat \<times> u16 list \<times> u16 list" where
  "next_chunk_loop index chunk [] = (index, chunk, [])"
| "next_chunk_loop index chunk (item # iter) =
     (if index < length chunk then next_chunk_loop (Suc index) (chunk[index := item]) iter
      else (index, chunk, item # iter))"

definition next_chunk :: "u16 list \<Rightarrow> (u16 list, nat option \<times> u16 list, 'e) op" where
  "next_chunk chunk iter =
     (if length chunk = 0 then (Panic, iter)
      else case next_chunk_loop 0 chunk iter of (index, chunk', iter') \<Rightarrow>
        if index = 0 then (Ok (None, chunk'), iter')
        else (Ok (Some index, take index chunk' @ replicate (length chunk' - index) 0), iter'))"

section \<open>The hash\<close>

text \<open>
  The hash of the exFAT specification: rotate right by one and add the next byte of the
  little-endian, up-cased name.
\<close>

definition rotate_add :: "u16 \<Rightarrow> u8 \<Rightarrow> u16" where
  "rotate_add hash byte = word_rotr 1 hash + ucast byte"

definition name_bytes :: "upcase_table \<Rightarrow> u16 list \<Rightarrow> u8 list" where
  "name_bytes t cs = concat (map (\<lambda>c. to_le_bytes 2 (upcase t c)) cs)"

lemma hash_byte_rotate: "hash_byte h b = rotate_add h b"
proof -
  have r: "word_rotr 1 h = push_bit 15 h OR drop_bit 1 h"
  proof (rule bit_word_eqI)
    fix n assume n: "n < LENGTH(16)"
    then have "n = 15 \<or> n < 15" by auto
    then show "bit (word_rotr 1 h) n = bit (push_bit 15 h OR drop_bit 1 h) n"
      using n bit_imp_le_length [of h 16]
      by (auto simp: bit_word_rotr_iff bit_or_iff bit_push_bit_iff bit_drop_bit_eq)
  qed
  have p: "push_bit 15 h = (if h AND 1 > 0 then 0x8000 else 0)"
  proof -
    have "push_bit 15 h = push_bit 15 (h AND 1)"
      by (rule bit_word_eqI, simp only: bit_push_bit_iff bit_and_iff bit_1_iff) auto
    moreover have "h AND 1 = 0 \<or> h AND 1 = 1" by (simp add: and_one_eq mod2_eq_if)
    ultimately show ?thesis by (auto simp: push_bit_eq_mult word_gt_0)
  qed
  have "push_bit 15 h AND drop_bit 1 h = 0"
    by (rule bit_word_eqI) (auto simp: bit_and_iff bit_push_bit_iff bit_drop_bit_eq dest: bit_imp_le_length)
  then have "push_bit 15 h OR drop_bit 1 h = push_bit 15 h + drop_bit 1 h"
    by (intro disjunctive_add [symmetric]) (metis bit_0_eq bit_and_iff bot_apply bot_bool_def)
  then show ?thesis by (simp only: hash_byte_def rotate_add_def r p [symmetric])
qed

lemma hash_loop_fold:
  "hash_loop t cs h n s =
     (if \<exists>c \<in> set cs. is_illegal_name_char c then (Err ''name contains an illegal character'', s)
      else if n + length cs = 0 then (Err ''name is empty'', s)
      else (Ok (foldl rotate_add h (name_bytes t cs), n + length cs), s))"
proof (induction cs arbitrary: h n)
  case Nil
  then show ?case by (simp add: name_bytes_def fail_def ret_def)
next
  case (Cons c cs)
  have "to_le_bytes 2 (upcase t c) = [ucast (upcase t c AND 0xFF), ucast (drop_bit 8 (upcase t c))]"
  proof -
    have "(ucast (upcase t c AND 0xFF) :: u8) = ucast (upcase t c)"
    proof (rule bit_word_eqI)
      fix n assume n: "n < LENGTH(8)"
      have "(0xFF :: u16) = mask 8" by (simp add: mask_eq_exp_minus_1)
      then show "bit (ucast (upcase t c AND 0xFF) :: u8) n = bit (ucast (upcase t c) :: u8) n"
        using n by (simp only: bit_unsigned_iff bit_and_iff bit_mask_iff) auto
    qed
    then show ?thesis by (simp add: to_le_bytes_def upt_rec)
  qed
  then show ?case using Cons.IH by (simp add: Let_def name_bytes_def hash_byte_rotate fail_def)
qed

lemma hash_total:
  "encode_utf16_upcase_and_hash nm t s =
     (if nm = rstr_of ''.'' \<or> nm = rstr_of ''..'' then (Err ''. and .. are reserved names'', s)
      else if \<exists>c \<in> set (encode_utf16 nm). is_illegal_name_char c
      then (Err ''name contains an illegal character'', s)
      else if encode_utf16 nm = [] then (Err ''name is empty'', s)
      else (Ok (foldl rotate_add 0 (name_bytes t (encode_utf16 nm)), length (encode_utf16 nm)), s))"
  by (simp add: encode_utf16_upcase_and_hash_def hash_loop_fold fail_def)

section \<open>Up-casing\<close>

lemma length_upcase_default [simp]: "length (mapping upcase_default) = 128"
  by (simp add: upcase_default_def)

lemma upcase_default_ascii:
  "upcase upcase_default c =
     (if 97 \<le> unat c \<and> unat c \<le> 122 then c - 32 else c)"
proof (cases "unat c < 128")
  case True
  then have "upcase upcase_default c = of_nat (([0..<97] @ [65..<91] @ [123..<128]) ! unat c)"
    unfolding upcase_def Let_def length_upcase_default upcase_default_def upcase_table.select_convs
    by (subst nth_map) simp_all
  also have "\<dots> = (if 97 \<le> unat c \<and> unat c \<le> 122 then c - 32 else c)"
    using True by (auto simp: nth_append of_nat_diff simp del: upt_rec_numeral)
  finally show ?thesis .
next
  case False
  then show ?thesis by (simp add: upcase_def Let_def)
qed

section \<open>Splitting a path\<close>

lemma rfind_separator_cases:
  "case rfind_separator p of
     None \<Rightarrow> \<forall>c \<in> set p. \<not> is_separator c
   | Some i \<Rightarrow> i < length p \<and> is_separator (p ! i) \<and> (\<forall>c \<in> set (drop (Suc i) p). \<not> is_separator c)"
  by (induction p) (auto split: option.splits)

lemma split_path_cases:
  obtains (bare) "split_path p = ([], p)" "\<forall>c \<in> set p. \<not> is_separator c"
    | (nested) dir c nm where "split_path p = (dir, nm)" "p = dir @ c # nm" "is_separator c"
        "\<forall>c \<in> set nm. \<not> is_separator c"
proof (cases "rfind_separator p")
  case None
  then show ?thesis using bare rfind_separator_cases [of p] by (simp add: split_path_def)
next
  case (Some i)
  then have i: "i < length p" "is_separator (p ! i)" "\<forall>c \<in> set (drop (Suc i) p). \<not> is_separator c"
    using rfind_separator_cases [of p] by auto
  have "split_path p = (take i p, drop (Suc i) p)" using Some by (simp add: split_path_def)
  moreover have "p = take i p @ p ! i # drop (Suc i) p" using i(1) by (rule id_take_nth_drop)
  ultimately show ?thesis using nested i by blast
qed

section \<open>Chunks\<close>

lemma next_chunk_loop_eq:
  "i \<le> length ch \<Longrightarrow>
   next_chunk_loop i ch iter =
     (let n = min (length ch - i) (length iter) in
      (i + n, take i ch @ take n iter @ drop (i + n) ch, drop n iter))"
proof (induction i ch iter rule: next_chunk_loop.induct)
  case (1 index chunk)
  then show ?case by simp
next
  case (2 index chunk item iter)
  show ?case
  proof (cases "index < length chunk")
    case True
    have "take (Suc index) (chunk[index := item]) = take index chunk @ [item]"
      using True by (simp add: take_Suc_conv_app_nth)
    moreover obtain k where "length chunk - index = Suc k" "length chunk - Suc index = k"
      using True by (metis Suc_diff_Suc)
    ultimately show ?thesis using 2 True by (simp add: Let_def)
  next
    case False
    then show ?thesis using 2 by simp
  qed
qed

lemma next_chunk_eq:
  assumes "ch \<noteq> []"
  shows "next_chunk ch iter =
    (if iter = [] then (Ok (None, ch), [])
     else (Ok (Some (min (length ch) (length iter)),
               take (length ch) iter @ replicate (length ch - length iter) 0),
           drop (length ch) iter))"
  using assms next_chunk_loop_eq [of 0 ch iter]
  by (auto simp: next_chunk_def Let_def min_def)

text \<open>The chunks a writer obtains by calling \<open>next_chunk\<close> until it returns \<open>None\<close>.\<close>

function all_chunks :: "nat \<Rightarrow> u16 list \<Rightarrow> u16 list list" where
  "all_chunks n iter =
     (case (next_chunk (replicate (Suc n) 0) iter :: (_, unit) outcome \<times> _) of
        (Ok (Some k, c), rest) \<Rightarrow> take k c # all_chunks n rest
      | _ \<Rightarrow> [])"
  by pat_completeness auto
termination
  by (relation "measure (\<lambda>(n, iter). length iter)") (auto simp: next_chunk_eq split: if_splits)

declare all_chunks.simps [simp del]

lemma all_chunks_eq:
  "all_chunks n iter = (if iter = [] then [] else take (Suc n) iter # all_chunks n (drop (Suc n) iter))"
  by (subst all_chunks.simps) (simp add: next_chunk_eq min_def del: replicate_Suc)

lemma all_chunks_concat: "concat (all_chunks n iter) = iter"
  by (induction n iter rule: all_chunks.induct) (subst all_chunks_eq, simp add: next_chunk_eq del: replicate_Suc)

lemma all_chunks_count: "length (all_chunks n iter) = (length iter + n) div Suc n"
proof (induction n iter rule: all_chunks.induct)
  case (1 n iter)
  show ?case
  proof (cases "iter = []")
    case True
    then show ?thesis by (subst all_chunks_eq) simp
  next
    case False
    have ih: "length (all_chunks n (drop (Suc n) iter)) = (length iter - Suc n + n) div Suc n"
      using 1 False by (simp add: next_chunk_eq del: replicate_Suc)
    have "(length iter + n) div Suc n = Suc ((length iter - Suc n + n) div Suc n)"
    proof (cases "Suc n \<le> length iter")
      case True
      then have "length iter + n = (length iter - Suc n + n) + Suc n" by simp
      then show ?thesis by (metis div_add_self2 Suc_eq_plus1 nat.distinct(1))
    next
      case f: False
      then have "(length iter - Suc n + n) div Suc n = 0" by simp
      moreover have "(length iter + n) div Suc n = 1"
        using f False by (intro div_nat_eqI) (auto simp: Suc_le_eq)
      ultimately show ?thesis by simp
    qed
    then show ?thesis using ih False by (subst all_chunks_eq) simp
  qed
qed

lemma calc_dir_entry_set_len_nat:
  "n < 2 ^ 32 \<Longrightarrow> calc_dir_entry_set_len n = 2 + (n + 14) div 15"
  by (simp add: calc_dir_entry_set_len_def unat_div_ceil unat_of_nat)

end
