(* ===== verification/Utf.thy ===== *)
theory Utf
  imports Names Block_Device
begin

text \<open>
  The text encodings used for names: the parts of Rust's \<open>core\<close> the source calls
  (\<open>char::decode_utf16\<close>, \<open>char::len_utf8\<close>, \<open>char::encode_utf8\<close>, \<open>str::from_utf8\<close>) and
  \<open>decode_utf16_to_utf8\<close> of \<open>directory_entry.rs\<close>.
\<close>

section \<open>Model\<close>

definition is_surrogate :: "u16 \<Rightarrow> bool" where
  "is_surrogate u \<longleftrightarrow> u AND 0xF800 = 0xD800"

definition is_trailing :: "u16 \<Rightarrow> bool" where
  "is_trailing u \<longleftrightarrow> 0xDC00 \<le> u \<and> u \<le> 0xDFFF"

definition combine_surrogates :: "u16 \<Rightarrow> u16 \<Rightarrow> u32" where
  "combine_surrogates u u2 = (push_bit 10 (ucast (u AND 0x3FF)) OR ucast (u2 AND 0x3FF)) + 0x10000"

text \<open>\<open>decode_utf16\<close>: \<open>None\<close> is an unpaired surrogate; the unit after one is decoded on its own.\<close>

fun decode_utf16 :: "u16 list \<Rightarrow> u32 option list" where
  "decode_utf16 [] = []"
| "decode_utf16 [u] = (if \<not> is_surrogate u then [Some (ucast u)] else [None])"
| "decode_utf16 (u # u2 # us) =
     (if \<not> is_surrogate u then Some (ucast u) # decode_utf16 (u2 # us)
      else if 0xDC00 \<le> u then None # decode_utf16 (u2 # us)
      else if \<not> is_trailing u2 then None # decode_utf16 (u2 # us)
      else Some (combine_surrogates u u2) # decode_utf16 us)"

definition len_utf8 :: "u32 \<Rightarrow> nat" where
  "len_utf8 c = (if c < 0x80 then 1 else if c < 0x800 then 2 else if c < 0x10000 then 3 else 4)"

definition encode_utf8_char :: "u32 \<Rightarrow> u8 list" where
  "encode_utf8_char c =
     (if c < 0x80 then [ucast c]
      else if c < 0x800 then [ucast (drop_bit 6 c) OR 0xC0, (ucast c AND 0x3F) OR 0x80]
      else if c < 0x10000 then
        [ucast (drop_bit 12 c) OR 0xE0, (ucast (drop_bit 6 c) AND 0x3F) OR 0x80, (ucast c AND 0x3F) OR 0x80]
      else [ucast (drop_bit 18 c) OR 0xF0, (ucast (drop_bit 12 c) AND 0x3F) OR 0x80,
            (ucast (drop_bit 6 c) AND 0x3F) OR 0x80, (ucast c AND 0x3F) OR 0x80])"

definition encode_utf8 :: "rstr \<Rightarrow> u8 list" where
  "encode_utf8 s = concat (map encode_utf8_char s)"

lemma length_encode_utf8_char [simp, len_simps]: "length (encode_utf8_char c) = len_utf8 c"
  by (simp add: encode_utf8_char_def len_utf8_def)

text \<open>The loop of \<open>decode_utf16_to_utf8\<close>; the state is the caller's buffer.\<close>

fun utf8_loop :: "u32 option list \<Rightarrow> nat \<Rightarrow> (u8 list, nat, 'e exfat_error) op" where
  "utf8_loop [] cursor utf8 = (Ok cursor, utf8)"
| "utf8_loop (None # chs) cursor utf8 =
     (Err (InvalidUtf16String ''file name contains an invalid utf16 character''), utf8)"
| "utf8_loop (Some ch # chs) cursor utf8 =
     (let needed = len_utf8 ch in
      if cursor + needed \<le> length utf8
      then utf8_loop chs (cursor + needed)
        (take cursor utf8 @ encode_utf8_char ch @ drop (cursor + needed) utf8)
      else (Err FileNameBufferTooSmall, utf8))"

definition decode_utf16_to_utf8 :: "u16 list \<Rightarrow> (u8 list, nat, 'e exfat_error) op" where
  "decode_utf16_to_utf8 utf16 = utf8_loop (decode_utf16 utf16) 0"

text \<open>
  \<open>str::from_utf8\<close>: the bytes must be the shortest encodings of scalar values.
\<close>

definition utf8_char_of :: "u8 list \<Rightarrow> u32" where
  "utf8_char_of bs = (case bs of
     [a] \<Rightarrow> ucast a
   | [a, b] \<Rightarrow> push_bit 6 (ucast (a AND 0x1F)) OR ucast (b AND 0x3F)
   | [a, b, c] \<Rightarrow> push_bit 12 (ucast (a AND 0x0F)) OR push_bit 6 (ucast (b AND 0x3F)) OR ucast (c AND 0x3F)
   | [a, b, c, d] \<Rightarrow> push_bit 18 (ucast (a AND 0x07)) OR push_bit 12 (ucast (b AND 0x3F))
       OR push_bit 6 (ucast (c AND 0x3F)) OR ucast (d AND 0x3F)
   | _ \<Rightarrow> 0)"

definition utf8_len_of :: "u8 \<Rightarrow> nat" where
  "utf8_len_of b = (if b < 0x80 then 1 else if b < 0xE0 then 2 else if b < 0xF0 then 3 else 4)"

function from_utf8 :: "u8 list \<Rightarrow> rstr option" where
  "from_utf8 [] = Some []"
| "from_utf8 (b # bs) =
     (let n = utf8_len_of b; c = utf8_char_of (take n (b # bs)) in
      if scalar_value c \<and> encode_utf8_char c = take n (b # bs)
      then map_option (Cons c) (from_utf8 (drop n (b # bs))) else None)"
  by pat_completeness auto
termination
  by (relation "measure length") (auto simp: utf8_len_of_def)

section \<open>UTF-16 round trip\<close>

lemma is_surrogate_nat: "is_surrogate u \<longleftrightarrow> 0xD800 \<le> unat u \<and> unat u \<le> 0xDFFF"
proof -
  have m: "(0xF800 :: u16) = NOT (mask 11)" by (simp add: mask_eq_exp_minus_1)
  have "u AND 0xF800 = push_bit 11 (drop_bit 11 u)" unfolding m
    by (rule bit_word_eqI) (simp add: bit_and_iff bit_not_iff bit_mask_iff bit_push_bit_iff bit_drop_bit_eq, auto simp: le_add_diff_inverse)
  moreover have "unat (push_bit 11 (drop_bit 11 u)) = 2048 * (unat u div 2048)"
  proof -
    have "2048 * (unat u div 2048) < 2 ^ 16" using unat_less_length [of u] by simp
    then show ?thesis by (simp add: push_bit_eq_mult drop_bit_eq_div unat_word_ariths unat_div)
  qed
  ultimately have "is_surrogate u \<longleftrightarrow> 2048 * (unat u div 2048) = 0xD800"
    by (simp add: is_surrogate_def word_unat_eq_iff)
  moreover obtain q r where "unat u div 2048 = q" "unat u = 2048 * q + r" "r < 2048"
    by (metis mod_less_divisor mult_div_mod_eq zero_less_numeral)
  ultimately show ?thesis by auto
qed

lemma unit_of_scalar:
  assumes "scalar_value c" and "c < 0x10000"
  shows "\<not> is_surrogate (ucast c)" and "ucast (ucast c :: u16) = c"
proof -
  have c: "unat c < 2 ^ 16" using assms(2) by (simp add: word_less_nat_alt)
  then show e: "ucast (ucast c :: u16) = c"
    by (intro bit_word_eqI) (auto simp: bit_unsigned_iff dest: bit_less [OF c])
  have "unat (ucast c :: u16) = unat c"
    using unat_ucast_up [of "ucast c :: u16", where ?'b = 32] e by simp
  then show "\<not> is_surrogate (ucast c)"
    using assms(1) by (auto simp: is_surrogate_nat scalar_value_def word_less_nat_alt)
qed

lemma pair_of_scalar:
  assumes "scalar_value c" and "\<not> c < 0x10000"
  defines "v \<equiv> c - 0x10000"
  defines "hi \<equiv> (0xD800 :: u16) OR ucast (drop_bit 10 v)" and "lo \<equiv> (0xDC00 :: u16) OR (ucast v AND 0x3FF)"
  shows "is_surrogate hi" and "\<not> 0xDC00 \<le> hi" and "is_trailing lo" and "combine_surrogates hi lo = c"
proof -
  have v: "unat v = unat c - 0x10000" "unat v < 2 ^ 20"
  proof -
    show "unat v = unat c - 0x10000" unfolding v_def using assms(2) by (subst unat_sub) (auto simp: word_less_nat_alt word_le_nat_alt)
    then show "unat v < 2 ^ 20" using assms(1,2) by (auto simp: scalar_value_def word_less_nat_alt)
  qed
  have d: "unat (drop_bit 10 v) = unat v div 1024" by (simp add: unat_div drop_bit_eq_div)
  have d10: "unat v div 1024 < 1024" using v(2) by simp
  have hi1: "unat (ucast (drop_bit 10 v) :: u16) = unat v div 1024"
    using d d10 by (simp add: unsigned_ucast_eq take_bit_eq_mod)
  have m: "(0x3FF :: u16) = mask 10" by (simp add: mask_eq_exp_minus_1)
  have lo1: "unat (ucast v AND 0x3FF :: u16) = unat v mod 1024"
    unfolding m unat_and_mask by (simp add: unsigned_ucast_eq take_bit_eq_mod mod_mod_cancel)
  have hi: "unat hi = 0xD800 + unat v div 1024"
  proof -
    have "hi = push_bit 10 54 + ucast (drop_bit 10 v)"
      unfolding hi_def using or_eq_add [of "ucast (drop_bit 10 v) :: u16" 10 54] hi1 d10 by (simp add: push_bit_eq_mult)
    then show ?thesis using hi1 d10 by (simp add: push_bit_eq_mult unat_add_no_overflow)
  qed
  have lo: "unat lo = 0xDC00 + unat v mod 1024"
  proof -
    have "lo = push_bit 10 55 + (ucast v AND 0x3FF)"
      unfolding lo_def using or_eq_add [of "ucast v AND 0x3FF :: u16" 10 55] lo1 by (simp add: push_bit_eq_mult)
    moreover have "unat v mod 1024 < 1024" by simp
    ultimately show ?thesis using lo1 by (simp add: push_bit_eq_mult unat_add_no_overflow)
  qed
  show "is_surrogate hi" "\<not> 0xDC00 \<le> hi" using hi d10 by (simp_all add: is_surrogate_nat word_le_nat_alt)
  have "unat v mod 1024 < 1024" by simp
  then show "is_trailing lo" using lo by (simp add: is_trailing_def word_le_nat_alt)
  have h: "unat (ucast (hi AND 0x3FF) :: u32) = unat v div 1024"
    unfolding m using mod_add_left_eq [of "0xD800" 1024 "unat v div 1024"] d10
    by (simp add: unat_ucast_up unat_and_mask hi)
  have l: "unat (ucast (lo AND 0x3FF) :: u32) = unat v mod 1024"
    unfolding m using mod_add_left_eq [of "0xDC00" 1024 "unat v mod 1024"]
    by (simp add: unat_ucast_up unat_and_mask lo)
  have "push_bit 10 (ucast (hi AND 0x3FF)) OR ucast (lo AND 0x3FF) = v"
  proof -
    have "unat (push_bit 10 (ucast (hi AND 0x3FF)) + (ucast (lo AND 0x3FF) :: u32)) = unat v"
      using h l v(2) by (simp add: push_bit_eq_mult unat_word_ariths)
    then show ?thesis using or_eq_add [of "ucast (lo AND 0x3FF) :: u32" 10] l
      by (simp add: word_unat_eq_iff)
  qed
  then show "combine_surrogates hi lo = c" by (simp add: combine_surrogates_def v_def)
qed

lemma decode_utf16_cons:
  assumes "\<not> is_surrogate u"
  shows "decode_utf16 (u # us) = Some (ucast u) # decode_utf16 us"
  using assms by (cases us) simp_all

lemma decode_encode_utf16:
  assumes "\<forall>c \<in> set s. scalar_value c"
  shows "decode_utf16 (encode_utf16 s) = map Some s"
  using assms
proof (induction s)
  case Nil
  then show ?case by (simp add: encode_utf16_def)
next
  case (Cons c s)
  then have sc: "scalar_value c" and ih: "decode_utf16 (encode_utf16 s) = map Some s" by simp_all
  have split: "encode_utf16 (c # s) = encode_utf16_char c @ encode_utf16 s" by (simp add: encode_utf16_def)
  show ?case
  proof (cases "c < 0x10000")
    case True
    then show ?thesis using unit_of_scalar [OF sc True] ih
      by (simp add: split encode_utf16_char_def decode_utf16_cons)
  next
    case False
    then show ?thesis using pair_of_scalar [OF sc False] ih
      by (simp add: split encode_utf16_char_def Let_def)
  qed
qed

section \<open>UTF-8\<close>

lemma utf8_masks:
  "(0x1F :: u8) = mask 5" "(0x0F :: u8) = mask 4" "(0x07 :: u8) = mask 3" "(0x3F :: u8) = mask 6"
  "(0x80 :: u8) = push_bit 7 1" "(0xC0 :: u8) = push_bit 6 (mask 2)" "(0xE0 :: u8) = push_bit 5 (mask 3)"
  "(0xF0 :: u8) = push_bit 4 (mask 4)"
  by (simp_all add: mask_eq_exp_minus_1 push_bit_eq_mult)

lemmas utf8_bits = bit_or_iff bit_and_iff bit_push_bit_iff bit_drop_bit_eq bit_mask_iff bit_unsigned_iff bit_1_iff

text \<open>The payload bits of a continuation byte, and of the lead bytes.\<close>

lemma utf8_payload:
  fixes c :: u32
  shows "bit (ucast ((((ucast (drop_bit k c) :: u8) AND 0x3F) OR 0x80) AND 0x3F) :: u32) n \<longleftrightarrow> n < 6 \<and> bit c (k + n)"
    and "bit (ucast (((ucast (drop_bit k c) :: u8) OR 0xC0) AND 0x1F) :: u32) n \<longleftrightarrow> n < 5 \<and> bit c (k + n)"
    and "bit (ucast (((ucast (drop_bit k c) :: u8) OR 0xE0) AND 0x0F) :: u32) n \<longleftrightarrow> n < 4 \<and> bit c (k + n)"
    and "bit (ucast (((ucast (drop_bit k c) :: u8) OR 0xF0) AND 0x07) :: u32) n \<longleftrightarrow> n < 3 \<and> bit c (k + n)"
  unfolding utf8_masks by (simp_all only: utf8_bits) auto

lemma utf8_payload0:
  fixes c :: u32
  shows "bit (ucast ((((ucast c :: u8) AND 0x3F) OR 0x80) AND 0x3F) :: u32) n \<longleftrightarrow> n < 6 \<and> bit c n"
  using utf8_payload(1) [of 0 c n] by simp

lemma utf8_decode2:
  assumes "unat c < 2 ^ 11"
  shows "utf8_char_of [ucast (drop_bit 6 c) OR 0xC0, (ucast c AND 0x3F) OR 0x80] = c"
proof (rule bit_word_eqI, goal_cases)
  case (1 n)
  have "n < 6 \<or> 6 \<le> n \<and> n < 12 \<or> 12 \<le> n \<and> n < 18 \<or> 18 \<le> n" by linarith
  then show ?case using bit_less [OF assms, of n]
    by (simp only: utf8_char_of_def list.case bit_or_iff bit_push_bit_iff utf8_payload utf8_payload0
        bit_drop_bit_eq) auto
qed

lemma utf8_decode3:
  assumes "unat c < 2 ^ 16"
  shows "utf8_char_of [ucast (drop_bit 12 c) OR 0xE0, (ucast (drop_bit 6 c) AND 0x3F) OR 0x80,
      (ucast c AND 0x3F) OR 0x80] = c"
proof (rule bit_word_eqI, goal_cases)
  case (1 n)
  have "n < 6 \<or> 6 \<le> n \<and> n < 12 \<or> 12 \<le> n \<and> n < 18 \<or> 18 \<le> n" by linarith
  then show ?case using bit_less [OF assms, of n]
    by (simp only: utf8_char_of_def list.case bit_or_iff bit_push_bit_iff utf8_payload utf8_payload0
        bit_drop_bit_eq) auto
qed

lemma utf8_decode4:
  assumes "unat c < 2 ^ 21"
  shows "utf8_char_of [ucast (drop_bit 18 c) OR 0xF0, (ucast (drop_bit 12 c) AND 0x3F) OR 0x80,
      (ucast (drop_bit 6 c) AND 0x3F) OR 0x80, (ucast c AND 0x3F) OR 0x80] = c"
proof (rule bit_word_eqI, goal_cases)
  case (1 n)
  have "n < 6 \<or> 6 \<le> n \<and> n < 12 \<or> 12 \<le> n \<and> n < 18 \<or> 18 \<le> n" by linarith
  then show ?case using bit_less [OF assms, of n]
    by (simp only: utf8_char_of_def list.case bit_or_iff bit_push_bit_iff utf8_payload utf8_payload0
        bit_drop_bit_eq) auto
qed

lemma utf8_char_roundtrip:
  assumes "scalar_value c"
  shows "utf8_char_of (encode_utf8_char c) = c"
proof -
  consider "unat c < 0x80" | "0x80 \<le> unat c" "unat c < 0x800" | "0x800 \<le> unat c" "unat c < 0x10000"
    | "0x10000 \<le> unat c" by linarith
  then show ?thesis
  proof cases
    case 1
    then have c: "unat c < 2 ^ 7" by simp
    have "ucast (ucast c :: u8) = c"
      by (rule bit_word_eqI) (auto simp: bit_unsigned_iff dest: bit_less [OF c])
    then show ?thesis using 1 by (simp add: encode_utf8_char_def utf8_char_of_def word_less_nat_alt)
  next
    case 2
    then show ?thesis using utf8_decode2 [of c] by (simp add: encode_utf8_char_def word_less_nat_alt)
  next
    case 3
    then show ?thesis using utf8_decode3 [of c] by (simp add: encode_utf8_char_def word_less_nat_alt)
  next
    case 4
    moreover have "unat c < 0x110000" using assms by (auto simp: scalar_value_def word_less_nat_alt)
    ultimately show ?thesis using utf8_decode4 [of c] by (simp add: encode_utf8_char_def word_less_nat_alt)
  qed
qed

text \<open>The first byte of an encoding tells its length.\<close>

lemma utf8_lead_byte:
  fixes c :: u32
  assumes "unat c div 2 ^ k < 2 ^ j" and "j \<le> 7"
  shows "unat ((ucast (drop_bit k c) :: u8) OR push_bit j m) = unat (push_bit j m + (ucast (drop_bit k c) :: u8))"
    and "unat (ucast (drop_bit k c) :: u8) = unat c div 2 ^ k"
proof -
  have dv: "unat (drop_bit k c) = unat c div 2 ^ k"
    by (metis unat_drop_bit_eq drop_bit_eq_div)
  have "(2::nat) ^ j \<le> 2 ^ 7" using assms(2) by (rule power_increasing) simp
  then have "unat c div 2 ^ k < 256" using assms(1) by simp
  then show u: "unat (ucast (drop_bit k c) :: u8) = unat c div 2 ^ k"
    using dv by (simp add: unsigned_ucast_eq take_bit_eq_mod)
  then show "unat ((ucast (drop_bit k c) :: u8) OR push_bit j m) = unat (push_bit j m + (ucast (drop_bit k c) :: u8))"
    using or_eq_add [of "ucast (drop_bit k c) :: u8" j m] assms(1) by (simp add: or.commute)
qed

lemma utf8_lead:
  assumes "scalar_value c" and "encode_utf8_char c = b # bs"
  shows "utf8_len_of b = len_utf8 c"
proof -
  consider "unat c < 0x80" | "0x80 \<le> unat c" "unat c < 0x800" | "0x800 \<le> unat c" "unat c < 0x10000"
    | "0x10000 \<le> unat c" by linarith
  then show ?thesis
  proof cases
    case 1
    then show ?thesis using assms utf8_lead_byte [of c 0 7]
      by (auto simp: encode_utf8_char_def utf8_len_of_def len_utf8_def word_less_nat_alt split: if_splits)
  next
    case 2
    then have "unat c div 2 ^ 6 < 2 ^ 5" by simp
    then have "unat b = 0xC0 + unat c div 64" using 2 assms utf8_lead_byte(1) [of c 6 5 6] utf8_lead_byte(2) [of c 6 5]
      by (auto simp: encode_utf8_char_def word_less_nat_alt push_bit_eq_mult unat_word_ariths split: if_splits)
    then show ?thesis using 2 by (simp add: utf8_len_of_def len_utf8_def word_less_nat_alt)
  next
    case 3
    then have "unat c div 2 ^ 12 < 2 ^ 4" by simp
    then have "unat b = 0xE0 + unat c div 4096" using 3 assms utf8_lead_byte(1) [of c 12 4 14] utf8_lead_byte(2) [of c 12 4]
      by (auto simp: encode_utf8_char_def word_less_nat_alt push_bit_eq_mult unat_word_ariths split: if_splits)
    then show ?thesis using 3 by (simp add: utf8_len_of_def len_utf8_def word_less_nat_alt)
  next
    case 4
    moreover have "unat c < 0x110000" using assms(1) by (auto simp: scalar_value_def word_less_nat_alt)
    then have "unat c div 2 ^ 18 < 2 ^ 3" by simp
    ultimately have "unat b = 0xF0 + unat c div 262144" using assms utf8_lead_byte(1) [of c 18 3 30] utf8_lead_byte(2) [of c 18 3]
      by (auto simp: encode_utf8_char_def word_less_nat_alt push_bit_eq_mult unat_word_ariths split: if_splits)
    then show ?thesis using 4 by (simp add: utf8_len_of_def len_utf8_def word_less_nat_alt)
  qed
qed

lemma from_encode_utf8:
  assumes "\<forall>c \<in> set s. scalar_value c"
  shows "from_utf8 (encode_utf8 s) = Some s"
  using assms
proof (induction s)
  case Nil
  then show ?case by (simp add: encode_utf8_def)
next
  case (Cons c s)
  then have sc: "scalar_value c" and ih: "from_utf8 (encode_utf8 s) = Some s" by simp_all
  have "0 < length (encode_utf8_char c)" by (simp add: len_utf8_def)
  then obtain b bs where e: "encode_utf8_char c = b # bs" by (cases "encode_utf8_char c") auto
  have all: "encode_utf8 (c # s) = b # (bs @ encode_utf8 s)" using e by (simp add: encode_utf8_def)
  have "utf8_len_of b = length (b # bs)" using utf8_lead [OF sc e] length_encode_utf8_char [of c] e by simp
  then have tk: "take (utf8_len_of b) (b # (bs @ encode_utf8 s)) = encode_utf8_char c"
    and dr: "drop (utf8_len_of b) (b # (bs @ encode_utf8 s)) = encode_utf8 s" using e by simp_all
  show ?case unfolding all
    by (simp only: from_utf8.simps Let_def tk dr ih utf8_char_roundtrip [OF sc]) (simp add: sc)
qed

section \<open>\<open>decode_utf16_to_utf8\<close>\<close>

lemma utf8_loop_ok:
  assumes "cursor + length (encode_utf8 s) \<le> length buf"
  shows "(utf8_loop (map Some s) cursor buf :: (nat, 'e exfat_error) outcome \<times> _) = (Ok (cursor + length (encode_utf8 s)),
    take cursor buf @ encode_utf8 s @ drop (cursor + length (encode_utf8 s)) buf)"
  using assms
proof (induction s arbitrary: cursor buf)
  case Nil
  then show ?case by (simp add: encode_utf8_def)
next
  case (Cons c s)
  let ?b = "take cursor buf @ encode_utf8_char c @ drop (cursor + len_utf8 c) buf"
  have sp: "encode_utf8 (c # s) = encode_utf8_char c @ encode_utf8 s" by (simp add: encode_utf8_def)
  have len: "cursor + len_utf8 c + length (encode_utf8 s) \<le> length buf" using Cons.prems by (simp add: sp)
  then have "length ?b = length buf" by simp
  then have "(utf8_loop (map Some s) (cursor + len_utf8 c) ?b :: (nat, 'e exfat_error) outcome \<times> _) = (Ok (cursor + len_utf8 c + length (encode_utf8 s)),
      take (cursor + len_utf8 c) ?b @ encode_utf8 s @ drop (cursor + len_utf8 c + length (encode_utf8 s)) ?b)"
    using Cons.IH [of "cursor + len_utf8 c" ?b] len by simp
  then show ?case using len by (simp add: sp Let_def min_def ac_simps)
qed

lemma utf8_loop_small:
  assumes "cursor \<le> length buf" and "length buf < cursor + length (encode_utf8 s)"
  shows "fst (utf8_loop (map Some s) cursor buf) = Err FileNameBufferTooSmall"
  using assms
proof (induction s arbitrary: cursor buf)
  case Nil
  then show ?case by (simp add: encode_utf8_def)
next
  case (Cons c s)
  then show ?case by (simp add: Let_def encode_utf8_def)
qed

text \<open>A name of \<open>n\<close> UTF-16 units needs at most \<open>3 n\<close> bytes.\<close>

lemma utf8_length_bound: "length (encode_utf8 s) \<le> 3 * length (encode_utf16 s)"
proof (induction s)
  case Nil
  then show ?case by (simp add: encode_utf8_def)
next
  case (Cons c s)
  have "len_utf8 c \<le> 3 * length (encode_utf16_char c)"
    by (auto simp: len_utf8_def encode_utf16_char_def Let_def)
  then show ?case using Cons by (simp add: encode_utf8_def encode_utf16_def)
qed

lemma name_roundtrip:
  assumes "\<forall>c \<in> set s. scalar_value c" and "length (encode_utf8 s) \<le> length buf"
  shows "decode_utf16_to_utf8 (encode_utf16 s) buf =
    (Ok (length (encode_utf8 s)), encode_utf8 s @ drop (length (encode_utf8 s)) buf)"
  using utf8_loop_ok [of 0 s buf] assms(2)
  by (simp add: decode_utf16_to_utf8_def decode_encode_utf16 [OF assms(1)])

end
