(* ===== verification/Timestamp.thy ===== *)
theory Timestamp
  imports Exfat_Prelude
begin

text \<open>
  Timestamps (\<open>timestamp.rs\<close>): the calendar record the user supplies, its validity, and the packed
  form stored in a directory entry (a 32-bit date and double-second time, a count of 10 ms and a
  UTC offset in quarter hours). An \<open>i8\<close> is an 8-bit word read with \<open>sint\<close>.
\<close>

section \<open>Model\<close>

definition MIN_TIMESTAMP :: u32 where "MIN_TIMESTAMP = 0x00210000"
definition MIN_YEAR :: u16 where "MIN_YEAR = 1980"
definition MAX_YEAR :: u16 where "MAX_YEAR = 2107"
definition UTC_OFFSET_VALID :: u8 where "UTC_OFFSET_VALID = 0x80"

record timestamp =
  year :: u16
  month :: u8
  day :: u8
  hour :: u8
  minute :: u8
  second :: u8
  centis :: u8
  utc_offset_15min :: "u8 option"

record encoded_timestamp =
  packed :: u32
  increment_10ms :: u8
  utc_offset :: u8

definition encoded_timestamp_default :: encoded_timestamp where
  "encoded_timestamp_default = \<lparr>packed = MIN_TIMESTAMP, increment_10ms = 0, utc_offset = 0\<rparr>"

definition is_leap_year :: "u16 \<Rightarrow> bool" where
  "is_leap_year y \<longleftrightarrow> y mod 4 = 0 \<and> (\<not> y mod 100 = 0 \<or> y mod 400 = 0)"

definition days_in_month :: "u16 \<Rightarrow> u8 \<Rightarrow> u8" where
  "days_in_month y m =
     (if m \<in> {1, 3, 5, 7, 8, 10, 12} then 31
      else if m \<in> {4, 6, 9, 11} then 30
      else if m = 2 then 28 + (if is_leap_year y then 1 else 0)
      else 0)"

definition timestamp_is_valid :: "timestamp \<Rightarrow> bool" where
  "timestamp_is_valid ts \<longleftrightarrow>
     MIN_YEAR \<le> year ts \<and> year ts \<le> MAX_YEAR \<and>
     1 \<le> day ts \<and> day ts \<le> days_in_month (year ts) (month ts) \<and>
     hour ts \<le> 23 \<and> minute ts \<le> 59 \<and> second ts \<le> 59 \<and> centis ts \<le> 99 \<and>
     (case utc_offset_15min ts of None \<Rightarrow> True | Some off \<Rightarrow> - 48 \<le> sint off \<and> sint off \<le> 56)"

text \<open>In a release build an invalid timestamp is encoded as the smallest one.\<close>

definition timestamp_encode :: "timestamp \<Rightarrow> encoded_timestamp" where
  "timestamp_encode ts =
     (if \<not> timestamp_is_valid ts then encoded_timestamp_default
      else \<lparr>packed = push_bit 25 (ucast (year ts - MIN_YEAR)) OR push_bit 21 (ucast (month ts))
              OR push_bit 16 (ucast (day ts)) OR push_bit 11 (ucast (hour ts))
              OR push_bit 5 (ucast (minute ts)) OR drop_bit 1 (ucast (second ts)),
            increment_10ms = (second ts AND 1) * 100 + centis ts,
            utc_offset = (case utc_offset_15min ts of
                Some off \<Rightarrow> UTC_OFFSET_VALID OR (off AND 0x7F)
              | None \<Rightarrow> 0)\<rparr>)"

definition timestamp_decode :: "encoded_timestamp \<Rightarrow> timestamp" where
  "timestamp_decode e =
     (let p = packed e; extra_secs = increment_10ms e div 100 in
      \<lparr>year = ucast (drop_bit 25 p) + MIN_YEAR,
       month = ucast (drop_bit 21 p) AND 0x0F,
       day = ucast (drop_bit 16 p) AND 0x1F,
       hour = ucast (drop_bit 11 p) AND 0x1F,
       minute = ucast (drop_bit 5 p) AND 0x3F,
       second = push_bit 1 (ucast p AND 0x1F) + extra_secs,
       centis = increment_10ms e mod 100,
       utc_offset_15min =
         (if utc_offset e AND UTC_OFFSET_VALID \<noteq> 0
          then Some (signed_drop_bit 1 (push_bit 1 (utc_offset e))) else None)\<rparr>)"

definition timestamp_default :: timestamp where
  "timestamp_default = timestamp_decode encoded_timestamp_default"

section \<open>Round trip\<close>

text \<open>The fields of a valid timestamp fit the bits reserved for them.\<close>

lemma valid_bounds:
  assumes "timestamp_is_valid ts"
  shows "unat (year ts - MIN_YEAR) < 2 ^ 7" and "unat (month ts) < 2 ^ 4" and "unat (day ts) < 2 ^ 5"
    and "unat (hour ts) < 2 ^ 5" and "unat (minute ts) < 2 ^ 6" and "unat (second ts) < 2 ^ 6"
    and "unat (centis ts) < 100"
proof -
  have y: "1980 \<le> year ts" "year ts \<le> 2107"
    using assms by (auto simp: timestamp_is_valid_def MIN_YEAR_def MAX_YEAR_def)
  have "unat (year ts - 1980) = unat (year ts) - 1980"
    using y(1) by (simp add: unat_sub)
  moreover have "unat (year ts) \<le> 2107" using y(2) by (simp add: word_le_nat_alt)
  ultimately show "unat (year ts - MIN_YEAR) < 2 ^ 7" by (simp add: MIN_YEAR_def)
  have d: "1 \<le> day ts" "day ts \<le> days_in_month (year ts) (month ts)"
    using assms by (auto simp: timestamp_is_valid_def)
  have "month ts \<in> {1, 3, 5, 7, 8, 10, 12, 4, 6, 9, 11, 2}"
  proof (rule ccontr)
    assume "month ts \<notin> {1, 3, 5, 7, 8, 10, 12, 4, 6, 9, 11, 2}"
    then have "days_in_month (year ts) (month ts) = 0" by (simp add: days_in_month_def)
    with d show False by (simp add: word_le_nat_alt)
  qed
  then show "unat (month ts) < 2 ^ 4" by auto
  have "days_in_month (year ts) (month ts) \<le> 31" by (simp add: days_in_month_def)
  with d(2) have "day ts \<le> 31" by (rule order.trans)
  then show "unat (day ts) < 2 ^ 5" by (simp add: word_le_nat_alt)
qed (use assms in \<open>auto simp: timestamp_is_valid_def word_le_nat_alt\<close>)

lemma mask_literals:
  "(0x0F :: u8) = mask 4" "(0x1F :: u8) = mask 5" "(0x3F :: u8) = mask 6" "(0x7F :: u8) = mask 7"
  by (simp_all add: mask_eq_exp_minus_1)

text \<open>Each field of the packed word can be read back: the fields do not overlap.\<close>

lemma packed_fields:
  fixes yr :: u16 and mo da ho mi se :: u8
  assumes "unat yr < 2 ^ 7" and "unat mo < 2 ^ 4" and "unat da < 2 ^ 5" and "unat ho < 2 ^ 5"
    and "unat mi < 2 ^ 6" and "unat se < 2 ^ 6"
  defines "p \<equiv> (push_bit 25 (ucast yr) OR push_bit 21 (ucast mo) OR push_bit 16 (ucast da)
      OR push_bit 11 (ucast ho) OR push_bit 5 (ucast mi) OR drop_bit 1 (ucast se) :: u32)"
  shows "ucast (drop_bit 25 p) = yr" and "ucast (drop_bit 21 p) AND mask 4 = mo"
    and "ucast (drop_bit 16 p) AND mask 5 = da" and "ucast (drop_bit 11 p) AND mask 5 = ho"
    and "ucast (drop_bit 5 p) AND mask 6 = mi" and "ucast p AND mask 5 = drop_bit 1 se"
proof -
  note b = high_bits_zero [OF assms(1)] high_bits_zero [OF assms(2)] high_bits_zero [OF assms(3)]
    high_bits_zero [OF assms(4)] high_bits_zero [OF assms(5)] high_bits_zero [OF assms(6)]
  note c = bit_less [OF assms(1)] bit_less [OF assms(2)] bit_less [OF assms(3)]
    bit_less [OF assms(4)] bit_less [OF assms(5)] bit_less [OF assms(6)]
  note bs = p_def bit_or_iff bit_push_bit_iff bit_unsigned_iff bit_drop_bit_eq bit_and_iff bit_mask_iff
  show "ucast (drop_bit 25 p) = yr"
    by (rule bit_word_eqI) (use b in \<open>auto simp: bs dest: c\<close>)
  show "ucast (drop_bit 21 p) AND mask 4 = mo"
    by (rule bit_word_eqI) (use b in \<open>auto simp: bs dest: c\<close>)
  show "ucast (drop_bit 16 p) AND mask 5 = da"
    by (rule bit_word_eqI) (use b in \<open>auto simp: bs dest: c\<close>)
  show "ucast (drop_bit 11 p) AND mask 5 = ho"
    by (rule bit_word_eqI) (use b in \<open>auto simp: bs dest: c\<close>)
  show "ucast (drop_bit 5 p) AND mask 6 = mi"
    by (rule bit_word_eqI) (use b in \<open>auto simp: bs dest: c\<close>)
  show "ucast p AND mask 5 = drop_bit 1 se"
    by (rule bit_word_eqI) (use b in \<open>auto simp: bs dest: c\<close>)
qed

text \<open>The odd second travels with the hundredths.\<close>

lemma increment_fields:
  fixes se ce :: u8
  assumes "unat se < 2 ^ 6" and "unat ce < 100"
  shows "((se AND 1) * 100 + ce) mod 100 = ce"
    and "push_bit 1 (drop_bit 1 se) + ((se AND 1) * 100 + ce) div 100 = se"
proof -
  have a: "unat (se AND 1) = unat se mod 2"
    by (simp add: and_one_eq unat_mod)
  have i: "unat ((se AND 1) * 100 + ce) = (unat se mod 2) * 100 + unat ce"
    using assms(2) a by (simp add: unat_word_ariths)
  show "((se AND 1) * 100 + ce) mod 100 = ce"
    using i assms(2) by (simp add: word_unat_eq_iff unat_mod)
  have "unat (push_bit 1 (drop_bit 1 se)) = 2 * (unat se div 2)"
    using assms(1) by (simp add: push_bit_eq_mult drop_bit_eq_div unat_word_ariths unat_div)
  moreover have "unat (((se AND 1) * 100 + ce) div 100) = unat se mod 2"
    using i assms(2) by (simp add: unat_div)
  ultimately show "push_bit 1 (drop_bit 1 se) + ((se AND 1) * 100 + ce) div 100 = se"
    using assms(1) by (simp add: word_unat_eq_iff unat_word_ariths)
qed

text \<open>Seven bits are enough for an offset: its two top bits agree.\<close>

lemma offset_sign_bits:
  fixes off :: u8
  assumes "- 64 \<le> sint off" and "sint off < 64"
  shows "bit off 7 = bit off 6"
proof -
  have "sint off div 64 = (if sint off < 0 then - 1 else 0)"
    using assms int_div_pos_eq [of "sint off" 64 "- 1" "sint off + 64"] by auto
  moreover have "sint off div 128 = (if sint off < 0 then - 1 else 0)"
    using assms int_div_pos_eq [of "sint off" 128 "- 1" "sint off + 128"] by auto
  ultimately have "sint off div 128 = sint off div 64" by simp
  then have "bit (sint off) 7 = bit (sint off) 6" by (simp add: bit_iff_odd)
  then show ?thesis by (simp add: bit_signed_iff)
qed

lemma offset_field:
  fixes off :: u8
  assumes "- 64 \<le> sint off" and "sint off < 64"
  shows "signed_drop_bit 1 (push_bit 1 (UTC_OFFSET_VALID OR (off AND mask 7))) = off"
    and "(UTC_OFFSET_VALID OR (off AND mask 7)) AND UTC_OFFSET_VALID \<noteq> 0"
proof -
  have v: "UTC_OFFSET_VALID = push_bit 7 1" by (simp add: UTC_OFFSET_VALID_def push_bit_eq_mult)
  show "signed_drop_bit 1 (push_bit 1 (UTC_OFFSET_VALID OR (off AND mask 7))) = off"
  proof (rule bit_word_eqI)
    fix n assume n: "n < LENGTH(8)"
    then have "n = 7 \<or> n = 6 \<or> n < 6" by auto
    then show "bit (signed_drop_bit 1 (push_bit 1 (UTC_OFFSET_VALID OR (off AND mask 7)))) n = bit off n"
      using offset_sign_bits [OF assms]
      by (elim disjE; simp only: v bit_signed_drop_bit_iff bit_push_bit_iff bit_or_iff bit_and_iff
          bit_mask_iff bit_1_iff) auto
  qed
  have "bit ((UTC_OFFSET_VALID OR (off AND mask 7)) AND UTC_OFFSET_VALID) 7"
    by (simp only: v bit_or_iff bit_and_iff bit_push_bit_iff) simp
  then show "(UTC_OFFSET_VALID OR (off AND mask 7)) AND UTC_OFFSET_VALID \<noteq> 0" by auto
qed

lemma decode_encode:
  assumes "timestamp_is_valid ts"
  shows "timestamp_decode (timestamp_encode ts) = ts"
proof -
  note vb = valid_bounds [OF assms]
  note pf = packed_fields [OF vb(1-6)]
  note inc = increment_fields [OF vb(6,7)]
  have off: "(if u AND UTC_OFFSET_VALID \<noteq> 0 then Some (signed_drop_bit 1 (push_bit 1 u)) else None)
      = utc_offset_15min ts"
    if "u = (case utc_offset_15min ts of Some off \<Rightarrow> UTC_OFFSET_VALID OR (off AND 0x7F) | None \<Rightarrow> 0)" for u
  proof (cases "utc_offset_15min ts")
    case None
    then show ?thesis using that by simp
  next
    case (Some o1)
    then have "- 64 \<le> sint o1" "sint o1 < 64" using assms by (auto simp: timestamp_is_valid_def)
    then show ?thesis using Some that offset_field [of o1] by (simp only: if_True option.case not_False_eq_True mask_literals)
  qed
  show ?thesis
    by (rule timestamp.equality, simp_all only: timestamp_decode_def timestamp_encode_def Let_def assms simp_thms if_False
        timestamp.select_convs encoded_timestamp.select_convs mask_literals(1-3) pf inc off [OF refl]
        diff_add_cancel) simp
qed

text \<open>A timestamp that is not valid is stored as the first instant of the calendar.\<close>

lemma default_is_epoch:
  "timestamp_default = \<lparr>year = 1980, month = 1, day = 1, hour = 0, minute = 0, second = 0,
     centis = 0, utc_offset_15min = None\<rparr>"
  by (simp add: timestamp_default_def encoded_timestamp_default_def timestamp_decode_def Let_def
      MIN_TIMESTAMP_def MIN_YEAR_def UTC_OFFSET_VALID_def drop_bit_eq_div)

lemma decode_encode_invalid:
  "\<not> timestamp_is_valid ts \<Longrightarrow> timestamp_decode (timestamp_encode ts) = timestamp_default"
  by (simp add: timestamp_encode_def timestamp_default_def)

end
