(* ===== verification/Entry_Format.thy ===== *)
theory Entry_Format
  imports Utf Timestamp Boot_Sector
begin

text \<open>
  The 32-byte directory entries (\<open>directory_entry.rs\<close>): entry types, the entries the library reads and
  writes, their serialisation and parsing, and the checksum of an entry set.

  A raw entry is a list of 32 bytes. \<open>le16\<close>, \<open>le32\<close> and \<open>le64\<close> are \<open>read_uN_le\<close> at an index of such an
  array; \<open>put\<close> is \<open>copy_from_slice\<close> into it. A \<open>bitflags\<close> value is its bits.
\<close>

section \<open>Raw entries\<close>

definition RAW_ENTRY_LEN :: nat where "RAW_ENTRY_LEN = 32"

type_synonym raw_dir_entry = "u8 list"

definition le16 :: "nat \<Rightarrow> raw_dir_entry \<Rightarrow> u16" where "le16 i v = from_le_bytes (take 2 (drop i v))"
definition le32 :: "nat \<Rightarrow> raw_dir_entry \<Rightarrow> u32" where "le32 i v = from_le_bytes (take 4 (drop i v))"
definition le64 :: "nat \<Rightarrow> raw_dir_entry \<Rightarrow> u64" where "le64 i v = from_le_bytes (take 8 (drop i v))"

definition put :: "nat \<Rightarrow> u8 list \<Rightarrow> raw_dir_entry \<Rightarrow> raw_dir_entry" where
  "put i bs raw = take i raw @ bs @ drop (i + length bs) raw"

definition raw_zero :: raw_dir_entry where "raw_zero = replicate RAW_ENTRY_LEN 0"

definition raw_ok :: "raw_dir_entry \<Rightarrow> bool" where "raw_ok raw \<longleftrightarrow> length raw = RAW_ENTRY_LEN"

section \<open>Entry types\<close>

datatype entry_type =
    EndOfDirectory
  | Unused u8
  | AllocationBitmap
  | UpcaseTable
  | VolumeLabel
  | FileAndDirectory
  | VolumeGuid
  | TexFATPadding
  | StreamExtension
  | Filename
  | Reserved u8

definition entry_type_from :: "u8 \<Rightarrow> entry_type" where
  "entry_type_from value =
     (if value = 0x00 then EndOfDirectory
      else if value AND 0x80 = 0 then Unused value
      else if value = 0x81 then AllocationBitmap
      else if value = 0x82 then UpcaseTable
      else if value = 0x83 then VolumeLabel
      else if value = 0x85 then FileAndDirectory
      else if value = 0xA0 then VolumeGuid
      else if value = 0xA1 then TexFATPadding
      else if value = 0xC0 then StreamExtension
      else if value = 0xC1 then Filename
      else Reserved value)"

fun entry_type_serialize :: "entry_type \<Rightarrow> u8" where
  "entry_type_serialize EndOfDirectory = 0x00"
| "entry_type_serialize (Unused x) = x"
| "entry_type_serialize AllocationBitmap = 0x81"
| "entry_type_serialize UpcaseTable = 0x82"
| "entry_type_serialize VolumeLabel = 0x83"
| "entry_type_serialize FileAndDirectory = 0x85"
| "entry_type_serialize VolumeGuid = 0xA0"
| "entry_type_serialize TexFATPadding = 0xA1"
| "entry_type_serialize StreamExtension = 0xC0"
| "entry_type_serialize Filename = 0xC1"
| "entry_type_serialize (Reserved x) = x"

section \<open>Flags\<close>

type_synonym bitmap_flags = u8
type_synonym general_secondary_flags = u8
type_synonym file_attributes = u16

definition FirstOrSecondBitmap :: bitmap_flags where "FirstOrSecondBitmap = 1"
definition AllocationPossible :: general_secondary_flags where "AllocationPossible = 1"
definition NoFatChain :: general_secondary_flags where "NoFatChain = 2"
definition ReadOnly :: file_attributes where "ReadOnly = 1"
definition Hidden :: file_attributes where "Hidden = 2"
definition System :: file_attributes where "System = 4"
definition Directory :: file_attributes where "Directory = 16"
definition Archive :: file_attributes where "Archive = 32"

definition secondary_flags_truncate :: "u8 \<Rightarrow> general_secondary_flags" where
  "secondary_flags_truncate b = b AND (AllocationPossible OR NoFatChain)"

definition file_attributes_truncate :: "u16 \<Rightarrow> file_attributes" where
  "file_attributes_truncate b = b AND (ReadOnly OR Hidden OR System OR Directory OR Archive)"

text \<open>\<open>flags.contains(other)\<close>\<close>

definition contains :: "'a::len word \<Rightarrow> 'a word \<Rightarrow> bool" where
  "contains flags other \<longleftrightarrow> flags AND other = other"

section \<open>Entries\<close>

record allocation_bitmap_dir_entry =
  ab_bitmap_flags :: bitmap_flags
  ab_first_cluster :: u32
  ab_data_length :: u64

definition allocation_bitmap_from :: "raw_dir_entry \<Rightarrow> allocation_bitmap_dir_entry" where
  "allocation_bitmap_from v = \<lparr>ab_bitmap_flags = v ! 1 AND FirstOrSecondBitmap,
     ab_first_cluster = le32 20 v, ab_data_length = le64 24 v\<rparr>"

record upcase_table_dir_entry =
  ut_table_checksum :: u32
  ut_first_cluster :: u32
  ut_data_length :: u64

definition upcase_table_from :: "raw_dir_entry \<Rightarrow> upcase_table_dir_entry" where
  "upcase_table_from v = \<lparr>ut_table_checksum = le32 4 v, ut_first_cluster = le32 20 v, ut_data_length = le64 24 v\<rparr>"

text \<open>
  \<open>decode_utf16_le::<N>\<close>: the characters are collected into a \<open>heapless::String<N>\<close>; collecting more bytes
  than its capacity panics.
\<close>

fun collect_chars :: "nat \<Rightarrow> u32 option list \<Rightarrow> rstr \<Rightarrow> ('s, rstr, directory_entry_error) op" where
  "collect_chars n [] acc = ret acc"
| "collect_chars n (None # chs) acc = fail (DirEntryInvalidUtf16String ''invalid u16 char detected'')"
| "collect_chars n (Some ch # chs) acc =
     (if length (encode_utf8 acc) + len_utf8 ch \<le> n then collect_chars n chs (acc @ [ch]) else panic)"

definition decode_utf16_le :: "nat \<Rightarrow> u8 list \<Rightarrow> ('s, rstr, directory_entry_error) op" where
  "decode_utf16_le n bytes = collect_chars n (decode_utf16 (map from_le_bytes (as_chunks 2 bytes))) []"

definition volume_label_try_from :: "raw_dir_entry \<Rightarrow> ('s, rstr, directory_entry_error) op" where
  "volume_label_try_from v =
     (let character_count = unat (v ! 1) in
      if character_count > 11 then fail (DirEntryInvalidUtf16String ''character count exceeds 11'')
      else decode_utf16_le 22 (take (character_count * 2) (drop 2 v)))"

record file_dir_entry =
  secondary_count :: u8
  set_checksum :: u16
  fd_file_attributes :: file_attributes
  create_timestamp :: u32
  last_modified_timestamp :: u32
  last_accessed_timestamp :: u32
  create_10ms_increment :: u8
  last_modified_10ms_increment :: u8
  create_utc_offset :: u8
  last_modified_utc_offset :: u8
  last_accessed_utc_offset :: u8

definition file_dir_serialize :: "file_dir_entry \<Rightarrow> raw_dir_entry" where
  "file_dir_serialize e =
     put 24 [last_accessed_utc_offset e] (put 23 [last_modified_utc_offset e] (put 22 [create_utc_offset e]
     (put 21 [last_modified_10ms_increment e] (put 20 [create_10ms_increment e]
     (put 16 (to_le_bytes 4 (last_accessed_timestamp e)) (put 12 (to_le_bytes 4 (last_modified_timestamp e))
     (put 8 (to_le_bytes 4 (create_timestamp e)) (put 4 (to_le_bytes 2 (fd_file_attributes e))
     (put 2 (to_le_bytes 2 (set_checksum e)) (put 1 [secondary_count e]
     (put 0 [entry_type_serialize FileAndDirectory] raw_zero)))))))))))"

definition file_dir_from :: "raw_dir_entry \<Rightarrow> file_dir_entry" where
  "file_dir_from v = \<lparr>secondary_count = v ! 1, set_checksum = le16 2 v,
     fd_file_attributes = file_attributes_truncate (le16 4 v),
     create_timestamp = le32 8 v, last_modified_timestamp = le32 12 v, last_accessed_timestamp = le32 16 v,
     create_10ms_increment = v ! 20, last_modified_10ms_increment = v ! 21, create_utc_offset = v ! 22,
     last_modified_utc_offset = v ! 23, last_accessed_utc_offset = v ! 24\<rparr>"

definition created :: "file_dir_entry \<Rightarrow> encoded_timestamp" where
  "created e = \<lparr>packed = create_timestamp e, increment_10ms = create_10ms_increment e,
     utc_offset = create_utc_offset e\<rparr>"

definition modified :: "file_dir_entry \<Rightarrow> encoded_timestamp" where
  "modified e = \<lparr>packed = last_modified_timestamp e, increment_10ms = last_modified_10ms_increment e,
     utc_offset = last_modified_utc_offset e\<rparr>"

definition accessed :: "file_dir_entry \<Rightarrow> encoded_timestamp" where
  "accessed e = \<lparr>packed = last_accessed_timestamp e, increment_10ms = 0,
     utc_offset = last_accessed_utc_offset e\<rparr>"

record stream_extension_dir_entry =
  se_flags :: general_secondary_flags
  name_length :: u8
  name_hash :: u16
  se_valid_data_length :: u64
  se_first_cluster :: u32
  se_data_length :: u64

definition stream_ext_serialize :: "stream_extension_dir_entry \<Rightarrow> raw_dir_entry" where
  "stream_ext_serialize e =
     put 24 (to_le_bytes 8 (se_data_length e)) (put 20 (to_le_bytes 4 (se_first_cluster e))
     (put 8 (to_le_bytes 8 (se_valid_data_length e)) (put 4 (to_le_bytes 2 (name_hash e))
     (put 3 [name_length e] (put 1 [se_flags e] (put 0 [entry_type_serialize StreamExtension] raw_zero))))))"

definition stream_ext_from :: "raw_dir_entry \<Rightarrow> stream_extension_dir_entry" where
  "stream_ext_from v = \<lparr>se_flags = secondary_flags_truncate (v ! 1), name_length = v ! 3, name_hash = le16 4 v,
     se_valid_data_length = le64 8 v, se_first_cluster = le32 20 v, se_data_length = le64 24 v\<rparr>"

record file_name_dir_entry =
  fn_flags :: general_secondary_flags
  file_name :: "u16 list"

definition file_name_serialize :: "file_name_dir_entry \<Rightarrow> raw_dir_entry" where
  "file_name_serialize e =
     put 2 (concat (map (to_le_bytes 2) (file_name e))) (put 1 [fn_flags e]
     (put 0 [entry_type_serialize Filename] raw_zero))"

definition file_name_from :: "raw_dir_entry \<Rightarrow> file_name_dir_entry" where
  "file_name_from v = \<lparr>fn_flags = secondary_flags_truncate (v ! 1),
     file_name = map from_le_bytes (as_chunks 2 (drop 2 v))\<rparr>"

definition is_end_of_directory :: "raw_dir_entry \<Rightarrow> bool" where
  "is_end_of_directory raw = list_all (\<lambda>x. x = 0) raw"

definition try_into :: "(raw_dir_entry \<Rightarrow> 't) \<Rightarrow> raw_dir_entry \<Rightarrow> entry_type \<Rightarrow> 't option" where
  "try_into conv raw et = (if entry_type_from (raw ! 0) = et then Some (conv raw) else None)"

section \<open>The checksum of an entry set\<close>

fun calc_checksum_loop :: "nat \<Rightarrow> raw_dir_entry \<Rightarrow> bool \<Rightarrow> u16 \<Rightarrow> u16" where
  "calc_checksum_loop i [] is_file_dir checksum = checksum"
| "calc_checksum_loop i (b # bs) is_file_dir checksum =
     (if is_file_dir \<and> (i = 2 \<or> i = 3) then calc_checksum_loop (Suc i) bs is_file_dir checksum
      else calc_checksum_loop (Suc i) bs is_file_dir (word_rotr 1 checksum + ucast b))"

definition calc_checksum :: "raw_dir_entry \<Rightarrow> bool \<Rightarrow> u16 \<Rightarrow> u16" where
  "calc_checksum raw is_file_dir checksum = calc_checksum_loop 0 raw is_file_dir checksum"

section \<open>Entry types: round trip\<close>

lemma entry_type_roundtrip: "entry_type_serialize (entry_type_from b) = b"
  by (simp add: entry_type_from_def)

lemma entry_type_in_use:
  "entry_type_from b = EndOfDirectory \<or> (\<exists>x. entry_type_from b = Unused x) \<longleftrightarrow> \<not> bit b 7"
proof -
  have m: "(0x80 :: u8) = push_bit 7 1" by (simp add: push_bit_eq_mult)
  have "b AND 0x80 = 0 \<longleftrightarrow> \<not> bit b 7"
  proof -
    have "b AND 0x80 = (if bit b 7 then 0x80 else 0)" unfolding m
    proof (rule bit_word_eqI, goal_cases)
      case (1 n)
      then have "n = 7 \<or> n < 7" by auto
      then show ?case
        by (elim disjE; simp only: bit_and_iff bit_push_bit_iff bit_1_iff if_distrib [of "\<lambda>w. bit w _"]
            bit_0_eq bot_apply) auto
    qed
    then show ?thesis by simp
  qed
  then show ?thesis by (auto simp: entry_type_from_def split: if_splits)
qed

text \<open>Clearing the in-use bit, as deletion does, frees the entry for reuse.\<close>

lemma cleared_entry_unused:
  "entry_type_from (b AND 0x7F) = EndOfDirectory \<or> (\<exists>x. entry_type_from (b AND 0x7F) = Unused x)"
proof -
  have m: "(0x7F :: u8) = mask 7" by (simp add: mask_eq_exp_minus_1)
  have "\<not> bit (b AND 0x7F) 7" unfolding m by (simp add: bit_and_iff bit_mask_iff)
  then show ?thesis using entry_type_in_use by blast
qed

section \<open>Round trips of the entries\<close>

lemma length_put [simp, len_simps]: "i + length bs \<le> length raw \<Longrightarrow> length (put i bs raw) = length raw"
  by (simp add: put_def)

lemma length_raw_zero [simp, len_simps]: "length raw_zero = 32"
  by (simp add: raw_zero_def RAW_ENTRY_LEN_def)

lemma put_slice_same: "i + length bs \<le> length raw \<Longrightarrow> n = length bs \<Longrightarrow> take n (drop i (put i bs raw)) = bs"
  by (simp add: put_def)

lemma put_slice_other:
  assumes "j + length bs \<le> length raw" and "i + n \<le> j \<or> j + length bs \<le> i"
  shows "take n (drop i (put j bs raw)) = take n (drop i raw)"
  using splice_disjoint [of j bs raw "put j bs raw" i n] assms by (simp add: splice_def put_def)

lemma put_slice_end: "i + length bs = length raw \<Longrightarrow> drop i (put i bs raw) = bs"
  by (simp add: put_def)

lemma put_nth_same: "i < length raw \<Longrightarrow> put i [b] raw ! i = b"
  by (simp add: put_def nth_append)

lemma put_nth_other:
  assumes "j + length bs \<le> length raw" and "i < j \<or> j + length bs \<le> i" and "i < length raw"
  shows "put j bs raw ! i = raw ! i"
  using assms by (auto simp: put_def nth_append)

lemmas put_simps = le16_def le32_def le64_def put_slice_same put_slice_other put_slice_end put_nth_same put_nth_other

text \<open>The layout of a serialized file entry.\<close>

lemma file_dir_layout:
  "file_dir_serialize e = [0x85, secondary_count e] @ to_le_bytes 2 (set_checksum e) @
     to_le_bytes 2 (fd_file_attributes e) @ [0, 0] @ to_le_bytes 4 (create_timestamp e) @
     to_le_bytes 4 (last_modified_timestamp e) @ to_le_bytes 4 (last_accessed_timestamp e) @
     [create_10ms_increment e, last_modified_10ms_increment e, create_utc_offset e, last_modified_utc_offset e,
      last_accessed_utc_offset e] @ replicate 7 0"
  by (simp add: file_dir_serialize_def put_def raw_zero_def RAW_ENTRY_LEN_def numeral_eq_Suc)

lemma file_dir_roundtrip:
  assumes "file_attributes_truncate (fd_file_attributes e) = fd_file_attributes e"
  shows "file_dir_from (file_dir_serialize e) = e"
  using assms by (simp add: file_dir_from_def file_dir_layout le16_def le32_def nth_append)

lemma stream_ext_roundtrip:
  assumes "secondary_flags_truncate (se_flags e) = se_flags e"
  shows "stream_ext_from (stream_ext_serialize e) = e"
  using assms by (simp add: stream_ext_from_def stream_ext_serialize_def put_simps)

lemma length_concat_units: "length (concat (map (to_le_bytes 2) (us :: u16 list))) = 2 * length us"
  by (induction us) simp_all

lemma units_chunk:
  assumes "i < length us"
  shows "take 2 (drop (2 * i) (concat (map (to_le_bytes 2) (us :: u16 list)))) = to_le_bytes 2 (us ! i)"
  using assms
proof (induction us arbitrary: i)
  case Nil
  then show ?case by simp
next
  case (Cons u us)
  then show ?case by (cases i) simp_all
qed

lemma as_chunks_units: "map from_le_bytes (as_chunks 2 (concat (map (to_le_bytes 2) us))) = (us :: u16 list)"
  by (rule nth_equalityI) (simp_all add: length_concat_units as_chunks_nth units_chunk)

lemma file_name_roundtrip:
  assumes "secondary_flags_truncate (fn_flags e) = fn_flags e" and "length (file_name e) = 15"
  shows "file_name_from (file_name_serialize e) = e"
proof -
  have "drop 2 (file_name_serialize e) = concat (map (to_le_bytes 2) (file_name e))"
    using assms(2) by (simp add: file_name_serialize_def put_def length_concat_units raw_zero_def RAW_ENTRY_LEN_def)
  then show ?thesis using assms
    by (simp add: file_name_from_def as_chunks_units) (simp add: file_name_serialize_def put_simps length_concat_units)
qed

lemma serialized_lengths [simp, len_simps]:
  "length (file_dir_serialize e) = 32" "length (stream_ext_serialize s) = 32"
  "length (file_name n) = 15 \<Longrightarrow> length (file_name_serialize n) = 32"
  by (simp_all add: file_dir_serialize_def stream_ext_serialize_def file_name_serialize_def length_concat_units)

lemma serialized_types:
  "entry_type_from (file_dir_serialize e ! 0) = FileAndDirectory"
  "entry_type_from (stream_ext_serialize s ! 0) = StreamExtension"
  "length (file_name n) = 15 \<Longrightarrow> entry_type_from (file_name_serialize n ! 0) = Filename"
  by (simp_all add: file_dir_serialize_def stream_ext_serialize_def file_name_serialize_def put_simps
      length_concat_units entry_type_from_def)

section \<open>The checksum does not depend on its own field\<close>

lemma calc_checksum_loop_tail:
  "4 \<le> i \<Longrightarrow> calc_checksum_loop i bs f c = foldl (\<lambda>c b. word_rotr 1 c + ucast b) c bs"
  by (induction bs arbitrary: i c) auto

lemma calc_checksum_field:
  assumes "length raw = 32" and "length cs = 2"
  shows "calc_checksum (put 2 cs raw) True c = calc_checksum raw True c"
proof -
  obtain b0 b1 b2 b3 bs where raw: "raw = b0 # b1 # b2 # b3 # bs"
    using assms(1) by (auto simp: length_Suc_conv numeral_eq_Suc)
  obtain c0 c1 where cs: "cs = [c0, c1]" using assms(2) by (auto simp: length_Suc_conv numeral_eq_Suc)
  show ?thesis
    by (simp add: raw cs calc_checksum_def put_def calc_checksum_loop_tail numeral_eq_Suc)
qed

end
