(* ===== verification/Fs_State.thy ===== *)
theory Fs_State
  imports Allocation Entry_Format
begin

text \<open>
  The state of a mounted file system (\<open>FileSystem\<close> of \<open>file_system.rs\<close>), the details of a file
  (\<open>FileDetails\<close>, \<open>Metadata\<close> of \<open>file.rs\<close>), the liftings of component operations to the whole state, and
  the write-back of the touched sectors (\<open>FileDirty::flush\<close>).
\<close>

section \<open>Records\<close>

record location =
  sector_id :: u32
  dir_entry_offset :: nat

record file_details =
  first_cluster :: u32
  data_length :: u64
  valid_data_length :: u64
  attributes :: file_attributes
  fd_location :: location
  flags :: general_secondary_flags
  fd_secondary_count :: u8
  fd_created :: encoded_timestamp
  fd_modified :: encoded_timestamp
  fd_accessed :: encoded_timestamp

text \<open>
  \<open>time_provider\<close> is a function pointer of the user: its \<open>k\<close>-th call returns \<open>f k\<close>, and \<open>clock\<close> counts
  the calls.
\<close>

record 'd file_system =
  fs_dev :: 'd
  is_mounted :: bool
  fs_details :: file_system_details
  fs_upcase :: upcase_table
  fs_allocator :: allocator
  fs_fat :: fat
  data_blocks :: slot_cache
  time_provider :: "(nat \<Rightarrow> timestamp) option"
  clock :: nat

definition file_system_new :: "('d, 'e) platform \<Rightarrow> nat \<Rightarrow> 'd \<Rightarrow> 'd file_system" where
  "file_system_new P n io = \<lparr>fs_dev = io, is_mounted = False, fs_details = details_empty,
     fs_upcase = upcase_empty, fs_allocator = allocator_new (SIZE P) n, fs_fat = fat_new (SIZE P) n,
     data_blocks = slot_cache_new (SIZE P) n, time_provider = None, clock = 0\<rparr>"

definition set_time_provider :: "(nat \<Rightarrow> timestamp) \<Rightarrow> 'd file_system \<Rightarrow> 'd file_system" where
  "set_time_provider f s = s\<lparr>time_provider := Some f\<rparr>"

type_synonym ('d, 'a, 'e) fs_op = "('d file_system, 'a, 'e exfat_error) op"

text \<open>The state of an operation that also records touched sectors.\<close>

type_synonym ('d, 'a, 'e) fst_op = "('d file_system \<times> file_dirty, 'a, 'e exfat_error) op"

definition get_current_timestamp :: "('d, encoded_timestamp, 'e) fs_op" where
  "get_current_timestamp s = (case time_provider s of
     Some get_timestamp \<Rightarrow> (Ok (timestamp_encode (get_timestamp (clock s))), s\<lparr>clock := Suc (clock s)\<rparr>)
   | None \<Rightarrow> (Ok encoded_timestamp_default, s))"

section \<open>Lifting component operations\<close>

definition on_data :: "('d, 'e, 'a) cache_op \<Rightarrow> ('d, 'a, 'e) fs_op" where
  [monad_simps]: "on_data = zoom (\<lambda>s. (data_blocks s, fs_dev s))
     (\<lambda>(c, d) s. s\<lparr>data_blocks := c, fs_dev := d\<rparr>)"

definition on_fat :: "(fat \<times> 'd, 'a, 'e exfat_error) op \<Rightarrow> ('d, 'a, 'e) fs_op" where
  [monad_simps]: "on_fat = zoom (\<lambda>s. (fs_fat s, fs_dev s)) (\<lambda>(f, d) s. s\<lparr>fs_fat := f, fs_dev := d\<rparr>)"

definition on_alloc :: "(allocator \<times> 'd, 'a, 'e exfat_error) op \<Rightarrow> ('d, 'a, 'e) fs_op" where
  [monad_simps]: "on_alloc = zoom (\<lambda>s. (fs_allocator s, fs_dev s))
     (\<lambda>(a, d) s. s\<lparr>fs_allocator := a, fs_dev := d\<rparr>)"

definition on_fs :: "('s, 'a, 'x) op \<Rightarrow> ('s \<times> 't, 'a, 'x) op" where
  [monad_simps]: "on_fs = zoom fst (\<lambda>s' (s, t). (s', t))"

definition on_fat_t :: "(fat \<times> file_dirty \<times> 'd, 'a, 'e exfat_error) op \<Rightarrow> ('d, 'a, 'e) fst_op" where
  [monad_simps]: "on_fat_t = zoom (\<lambda>(s, t). (fs_fat s, t, fs_dev s))
     (\<lambda>(f, t', d) (s, t). (s\<lparr>fs_fat := f, fs_dev := d\<rparr>, t'))"

definition on_alloc_t :: "(allocator \<times> file_dirty \<times> 'd, 'a, 'e exfat_error) op \<Rightarrow> ('d, 'a, 'e) fst_op" where
  [monad_simps]: "on_alloc_t = zoom (\<lambda>(s, t). (fs_allocator s, t, fs_dev s))
     (\<lambda>(a, t', d) (s, t). (s\<lparr>fs_allocator := a, fs_dev := d\<rparr>, t'))"

definition on_alloc_fat_t :: "('d alloc_fat_state, 'a, 'e exfat_error) op \<Rightarrow> ('d, 'a, 'e) fst_op" where
  [monad_simps]: "on_alloc_fat_t = zoom (\<lambda>(s, t). (fs_allocator s, fs_fat s, t, fs_dev s))
     (\<lambda>(a, f, t', d) (s, t). (s\<lparr>fs_allocator := a, fs_fat := f, fs_dev := d\<rparr>, t'))"

definition touch :: "touched_kind \<Rightarrow> u32 \<Rightarrow> ('d, unit, 'e) fst_op" where
  [monad_simps]: "touch kind sec = modify (\<lambda>(s, t). (s, touched_insert (touched_sector_new kind sec) t))"

section \<open>Writing back the touched sectors\<close>

definition flush_item :: "('d, 'e) platform \<Rightarrow> touched_sector \<Rightarrow> ('d, unit, 'e) fs_op" where
  "flush_item P item = (case ts_kind item of
     TkBitmap \<Rightarrow> on_alloc (alloc_flush_sector P (ts_sector item))
   | TkFat \<Rightarrow> on_fat (fat_flush_sector P (ts_sector item))
   | TkData \<Rightarrow> on_data (cache_flush_sector P (ts_sector item))
   | TkDir \<Rightarrow> on_data (cache_flush_sector P (ts_sector item))
   | TkNone \<Rightarrow> ret ())"

text \<open>\<open>fs.fat.flush(), fs.allocator.flush(), fs.data_blocks.flush()\<close>, also \<open>FileSystem::flush\<close>\<close>

definition fs_flush :: "('d, 'e) platform \<Rightarrow> ('d, unit, 'e) fs_op" where
  "fs_flush P = andthen (on_fat (fat_flush P)) (\<lambda>_.
     andthen (on_alloc (alloc_flush P)) (\<lambda>_. on_data (cache_flush P)))"

definition touched_flush :: "('d, 'e) platform \<Rightarrow> ('d, unit, 'e) fst_op" where
  "touched_flush P =
     andthen (gets (\<lambda>(s, t). overflowed t)) (\<lambda>ov.
     andthen (if ov then on_fs (fs_flush P)
       else andthen (modify (\<lambda>(s, t). (s, touched_sort t))) (\<lambda>_.
            andthen (gets (\<lambda>(s, t). sectors t)) (\<lambda>items.
            on_fs (for_each items (flush_item P))))) (\<lambda>_.
     modify (\<lambda>(s, t). (s, t\<lparr>sectors := [], overflowed := False, is_dir_entry_dirty := False\<rparr>))))"

text \<open>\<open>unmount\<close>: the caches are written back, a failure is only logged, and the device is returned.\<close>

definition unmount :: "('d, 'e) platform \<Rightarrow> 'd file_system \<Rightarrow> ('d, 'e exfat_error) outcome" where
  "unmount P s = (case fs_flush P s of
     (Ok _, s') \<Rightarrow> Ok (fs_dev s')
   | (Err _, s') \<Rightarrow> Ok (fs_dev s')
   | (Panic, _) \<Rightarrow> Panic
   | (OutOfFuel, _) \<Rightarrow> OutOfFuel)"

definition into_inner :: "'d file_system \<Rightarrow> 'd" where
  "into_inner s = fs_dev s"

section \<open>Metadata\<close>

definition metadata_len :: "file_details \<Rightarrow> u64" where "metadata_len d = data_length d"
definition metadata_is_empty :: "file_details \<Rightarrow> bool" where "metadata_is_empty d \<longleftrightarrow> data_length d = 0"
definition metadata_is_dir :: "file_details \<Rightarrow> bool" where "metadata_is_dir d = contains (attributes d) Directory"
definition metadata_is_file :: "file_details \<Rightarrow> bool" where "metadata_is_file d = contains (attributes d) Archive"
definition metadata_created :: "file_details \<Rightarrow> timestamp" where "metadata_created d = timestamp_decode (fd_created d)"
definition metadata_accessed :: "file_details \<Rightarrow> timestamp" where "metadata_accessed d = timestamp_decode (fd_accessed d)"
definition metadata_modified :: "file_details \<Rightarrow> timestamp" where "metadata_modified d = timestamp_decode (fd_modified d)"

end
