(* ===== verification/Directory_Chain.thy ===== *)
theory Directory_Chain
  imports Fs_State
begin

text \<open>
  Walking the entries of a directory (\<open>DirectoryEntryChain\<close> of \<open>directory_entry.rs\<close>), the name filters of
  \<open>directory.rs\<close>, and the writer of an entry set (\<open>DirSetWriter\<close>).

  A walk follows the FAT, which on a corrupt volume may be cyclic, so the loops over it take fuel and end in
  \<open>OutOfFuel\<close> when it does not suffice. The \<open>usize\<close> counters of a walk are natural numbers.
\<close>

section \<open>The walk\<close>

record dir_chain =
  dc_cluster_id :: u32
  dc_fs :: file_system_details
  dc_cluster_offset :: nat
  dc_dir_entry_offset :: nat
  dc_buf :: block
  dc_fetch_required :: bool
  dc_cursor :: nat
  dc_num_entries :: "nat option"

definition chain_new :: "('d, 'e) platform \<Rightarrow> u32 \<Rightarrow> file_system_details \<Rightarrow> dir_chain" where
  "chain_new P cluster_id fs = \<lparr>dc_cluster_id = cluster_id, dc_fs = fs, dc_cluster_offset = 0,
     dc_dir_entry_offset = 0, dc_buf = replicate (SIZE P) 0, dc_fetch_required = True, dc_cursor = 0,
     dc_num_entries = None\<rparr>"

text \<open>The divisions panic on a geometry without sectors.\<close>

definition chain_new_from_file_details ::
    "('d, 'e) platform \<Rightarrow> file_details \<Rightarrow> file_system_details \<Rightarrow> ('s, dir_chain, 'x) op" where
  "chain_new_from_file_details P details fs =
     andthen (assert_that (fsd_sectors_per_cluster fs \<noteq> 0)) (\<lambda>_.
     let sector_id_from_start = sector_id (fd_location details) - fsd_cluster_heap_offset fs in
     ret \<lparr>dc_cluster_id = 2 + sector_id_from_start div fsd_sectors_per_cluster fs, dc_fs = fs,
          dc_cluster_offset = unat (sector_id_from_start mod fsd_sectors_per_cluster fs),
          dc_dir_entry_offset = dir_entry_offset (fd_location details),
          dc_buf = replicate (SIZE P) 0, dc_fetch_required = True, dc_cursor = 0,
          dc_num_entries = Some (unat (fd_secondary_count details) + 1)\<rparr>)"

definition chain_current_sector_id :: "dir_chain \<Rightarrow> ('s, u32, 'e exfat_error) op" where
  "chain_current_sector_id ch =
     andthen (get_heap_sector_id (dc_fs ch) (dc_cluster_id ch)) (\<lambda>sector_id.
     ret (sector_id + of_nat (dc_cluster_offset ch)))"

definition dir_entries_per_block :: "('d, 'e) platform \<Rightarrow> nat" where
  "dir_entries_per_block P = SIZE P div RAW_ENTRY_LEN"

type_synonym ('d, 'a, 'e) chain_op = "(dir_chain \<times> 'd file_system, 'a, 'e exfat_error) op"

text \<open>The first part of \<open>next\<close>: the end of a sector.\<close>

definition chain_advance_sector :: "('d, 'e) platform \<Rightarrow> dir_chain \<Rightarrow> dir_chain" where
  "chain_advance_sector P ch =
     (if dir_entries_per_block P \<le> dc_dir_entry_offset ch
      then ch\<lparr>dc_cluster_offset := dc_cluster_offset ch + 1, dc_dir_entry_offset := 0, dc_fetch_required := True\<rparr>
      else ch)"

text \<open>The second part: the end of a cluster; \<open>False\<close> is the end of the chain.\<close>

definition chain_advance_cluster :: "('d, 'e) platform \<Rightarrow> ('d, bool, 'e) chain_op" where
  "chain_advance_cluster P =
     andthen (gets fst) (\<lambda>ch.
     if unat (fsd_sectors_per_cluster (dc_fs ch)) \<le> dc_cluster_offset ch
     then andthen (zoom snd (\<lambda>s' (c, s). (c, s')) (on_fat (next_cluster_in_fat_chain P (dc_cluster_id ch))))
       (\<lambda>cluster_id. case cluster_id of
          Some cluster_id \<Rightarrow>
            andthen (modify (\<lambda>(c, s). (c\<lparr>dc_cluster_id := cluster_id, dc_cluster_offset := 0,
              dc_dir_entry_offset := 0, dc_fetch_required := True\<rparr>, s))) (\<lambda>_. ret True)
        | None \<Rightarrow> ret False)
     else ret True)"

text \<open>The third part: the sector is fetched into the buffer of the walk.\<close>

definition chain_fetch :: "('d, 'e) platform \<Rightarrow> ('d, unit, 'e) chain_op" where
  "chain_fetch P =
     andthen (gets fst) (\<lambda>ch.
     if dc_fetch_required ch
     then andthen (chain_current_sector_id ch) (\<lambda>sector_id.
          andthen (zoom snd (\<lambda>s' (c, s). (c, s')) (on_data (read_sector P sector_id))) (\<lambda>slot.
          modify (\<lambda>(c, s). (c\<lparr>dc_buf := slot, dc_fetch_required := False\<rparr>, s))))
     else ret ())"

definition chain_next :: "('d, 'e) platform \<Rightarrow> ('d, (raw_dir_entry \<times> location) option, 'e) chain_op" where
  "chain_next P =
     andthen (gets fst) (\<lambda>ch0.
     if dc_num_entries ch0 = Some (dc_cursor ch0) then ret None
     else andthen (modify (\<lambda>(c, s). (chain_advance_sector P c, s))) (\<lambda>_.
     andthen (chain_advance_cluster P) (\<lambda>more.
     if \<not> more then ret None
     else andthen (chain_fetch P) (\<lambda>_.
     andthen (gets fst) (\<lambda>ch.
     andthen (at (as_chunks RAW_ENTRY_LEN (dc_buf ch)) (dc_dir_entry_offset ch)) (\<lambda>entry.
     andthen (chain_current_sector_id ch) (\<lambda>sec.
     andthen (modify (\<lambda>(c, s). (c\<lparr>dc_dir_entry_offset := dc_dir_entry_offset c + 1,
       dc_cursor := dc_cursor c + 1\<rparr>, s))) (\<lambda>_.
     ret (Some (entry, \<lparr>sector_id = sec, dir_entry_offset = dc_dir_entry_offset ch\<rparr>))))))))))"

fun next_file_dir_entry ::
    "('d, 'e) platform \<Rightarrow> nat \<Rightarrow> ('d, (file_dir_entry \<times> location) option, 'e) chain_op" where
  "next_file_dir_entry P 0 = (\<lambda>st. (OutOfFuel, st))"
| "next_file_dir_entry P (Suc fuel) =
     andthen (chain_next P) (\<lambda>e. case e of
       None \<Rightarrow> ret None
     | Some (entry, loc) \<Rightarrow>
         (let et = entry_type_from (entry ! 0) in
          if et = EndOfDirectory \<and> is_end_of_directory entry then ret None
          else if et = FileAndDirectory then ret (Some (file_dir_from entry, loc))
          else next_file_dir_entry P fuel))"

section \<open>Filters\<close>

text \<open>The trait \<open>DirectoryEntryFilter\<close>: its three methods.\<close>

record dir_filter =
  flt_hash :: "u16 \<Rightarrow> file_attributes \<Rightarrow> bool"
  flt_file_name_length :: "nat \<Rightarrow> bool"
  flt_file_name :: "u16 list \<Rightarrow> nat \<Rightarrow> upcase_table \<Rightarrow> bool"

definition all_pass_filter :: dir_filter where
  "all_pass_filter = \<lparr>flt_hash = (\<lambda>_ _. True), flt_file_name_length = (\<lambda>_. True),
     flt_file_name = (\<lambda>_ _ _. True)\<rparr>"

fun units_match :: "upcase_table \<Rightarrow> (u16 \<times> u16) list \<Rightarrow> bool" where
  "units_match t [] = True"
| "units_match t ((left, right) # us) = (if upcase t left \<noteq> upcase t right then False else units_match t us)"

definition exact_name_filter_new ::
    "rstr \<Rightarrow> upcase_table \<Rightarrow> file_attributes option \<Rightarrow> ('s, dir_filter, string) op" where
  "exact_name_filter_new nm t attrs =
     andthen (encode_utf16_upcase_and_hash nm t) (\<lambda>(file_name_hash, file_name_count).
     ret \<lparr>flt_hash = (\<lambda>h fa. case attrs of
              Some a \<Rightarrow> file_name_hash = h \<and> contains fa a
            | None \<Rightarrow> file_name_hash = h),
          flt_file_name_length = (\<lambda>n. file_name_count = n),
          flt_file_name = (\<lambda>part ordinal t'. units_match t' (zip (drop ordinal (encode_utf16 nm)) part))\<rparr>)"

section \<open>The next file of a directory\<close>

datatype name_result = NameMatched "u16 list" | NameRejected | NameBroken

text \<open>
  The inner loop over the name entries. It ends after at most \<open>name_length\<close> rounds, or one if the name is
  empty; \<open>units\<close> collects the name when a buffer was passed.
\<close>

fun name_loop :: "('d, 'e) platform \<Rightarrow> dir_filter \<Rightarrow> nat \<Rightarrow> bool \<Rightarrow> nat \<Rightarrow> nat \<Rightarrow> u16 list \<Rightarrow>
    ('d, name_result, 'e) chain_op" where
  "name_loop P filt nlen wanted 0 cursor units = (\<lambda>st. (OutOfFuel, st))"
| "name_loop P filt nlen wanted (Suc fuel) cursor units =
     andthen (chain_next P) (\<lambda>e. case e of
       None \<Rightarrow> ret NameBroken
     | Some (raw, _) \<Rightarrow>
         (case try_into file_name_from raw Filename of
            None \<Rightarrow> ret NameBroken
          | Some file_name_entry \<Rightarrow>
              let len = min (nlen - cursor) (length (file_name file_name_entry));
                  part = take len (file_name file_name_entry) in
              andthen (gets (\<lambda>(c, s). fs_upcase s)) (\<lambda>t.
              if \<not> flt_file_name filt part cursor t then ret NameRejected
              else let units' = (if wanted then take cursor units @ part @ drop (cursor + len) units else units) in
                if cursor + len = nlen then ret (NameMatched units')
                else name_loop P filt nlen wanted fuel (cursor + len) units')))"

definition details_of :: "file_dir_entry \<Rightarrow> stream_extension_dir_entry \<Rightarrow> location \<Rightarrow> file_details" where
  "details_of file_dir stream loc =
     \<lparr>first_cluster = se_first_cluster stream, data_length = se_data_length stream,
      valid_data_length = se_valid_data_length stream, attributes = fd_file_attributes file_dir,
      fd_location = loc, flags = se_flags stream, fd_secondary_count = secondary_count file_dir,
      fd_created = created file_dir, fd_modified = modified file_dir, fd_accessed = accessed file_dir\<rparr>"

text \<open>
  \<open>next_file_entry\<close>: the details, the number of bytes of the decoded name, and the caller's buffer
  afterwards (\<open>None\<close>, and zero bytes, when no buffer was passed).
\<close>

fun next_file_entry :: "('d, 'e) platform \<Rightarrow> nat \<Rightarrow> dir_filter \<Rightarrow> u8 list option \<Rightarrow>
    ('d, (file_details \<times> nat \<times> u8 list option) option, 'e) chain_op" where
  "next_file_entry P 0 filt name_buf = (\<lambda>st. (OutOfFuel, st))"
| "next_file_entry P (Suc fuel) filt name_buf =
     andthen (next_file_dir_entry P (Suc fuel)) (\<lambda>fde. case fde of
       None \<Rightarrow> ret None
     | Some (file_dir_entry, loc) \<Rightarrow>
       andthen (chain_next P) (\<lambda>e. case e of
         None \<Rightarrow> ret None
       | Some (raw, _) \<Rightarrow>
         (case try_into stream_ext_from raw StreamExtension of
            None \<Rightarrow> ret None
          | Some stream_entry \<Rightarrow>
            if \<not> flt_hash filt (name_hash stream_entry) (fd_file_attributes file_dir_entry)
            then next_file_entry P fuel filt name_buf
            else let nlen = unat (name_length stream_entry) in
            if \<not> flt_file_name_length filt nlen then next_file_entry P fuel filt name_buf
            else andthen (name_loop P filt nlen (name_buf \<noteq> None) (Suc nlen) 0 (replicate 255 0)) (\<lambda>r. case r of
                NameBroken \<Rightarrow> ret None
              | NameRejected \<Rightarrow> next_file_entry P fuel filt name_buf
              | NameMatched units \<Rightarrow>
                  let details = details_of file_dir_entry stream_entry loc in
                  (case name_buf of
                     None \<Rightarrow> ret (Some (details, 0, None))
                   | Some buf \<Rightarrow> (\<lambda>st. case decode_utf16_to_utf8 (take nlen units) buf of
                       (Ok n, buf') \<Rightarrow> (Ok (Some (details, n, Some buf')), st)
                     | (Err e, _) \<Rightarrow> (Err e, st)
                     | (Panic, _) \<Rightarrow> (Panic, st)
                     | (OutOfFuel, _) \<Rightarrow> (OutOfFuel, st)))))))"

section \<open>Writing an entry set\<close>

record dir_set_writer =
  dw_start :: location
  dw_current :: location
  dw_checksum :: u16

definition dir_set_writer_new :: "location \<Rightarrow> dir_set_writer" where
  "dir_set_writer_new loc = \<lparr>dw_start = loc, dw_current = loc, dw_checksum = 0\<rparr>"

definition next_dir_entry_location :: "('d, 'e) platform \<Rightarrow> location \<Rightarrow> location" where
  "next_dir_entry_location P loc =
     (let off = dir_entry_offset loc + 1 in
      if off = SIZE P div RAW_ENTRY_LEN then \<lparr>sector_id = sector_id loc + 1, dir_entry_offset = 0\<rparr>
      else loc\<lparr>dir_entry_offset := off\<rparr>)"

text \<open>\<open>add_no_write\<close>: the position moves on and the entry enters the checksum.\<close>

definition add_no_write :: "('d, 'e) platform \<Rightarrow> raw_dir_entry \<Rightarrow> bool \<Rightarrow> dir_set_writer \<Rightarrow> dir_set_writer" where
  "add_no_write P dir_entry is_file_dir w =
     w\<lparr>dw_current := next_dir_entry_location P (dw_current w),
       dw_checksum := calc_checksum dir_entry is_file_dir (dw_checksum w)\<rparr>"

definition writer_add :: "('d, 'e) platform \<Rightarrow> raw_dir_entry \<Rightarrow> bool \<Rightarrow> dir_set_writer \<Rightarrow>
    ('d, dir_set_writer, 'e) fst_op" where
  "writer_add P dir_entry is_file_dir w =
     (let sec = sector_id (dw_current w); off = dir_entry_offset (dw_current w) * RAW_ENTRY_LEN in
      andthen (on_fs (on_data (update_sector P sec (splice off dir_entry)))) (\<lambda>_.
      andthen (touch TkDir sec) (\<lambda>_.
      ret (add_no_write P dir_entry is_file_dir w))))"

definition writer_finish :: "('d, 'e) platform \<Rightarrow> raw_dir_entry \<Rightarrow> dir_set_writer \<Rightarrow> ('d, unit, 'e) fst_op" where
  "writer_finish P file_dir w =
     (let sec = sector_id (dw_start w); off = dir_entry_offset (dw_start w) * RAW_ENTRY_LEN in
      andthen (on_fs (on_data (update_sector P sec (\<lambda>b. case splice off file_dir b of
          None \<Rightarrow> None
        | Some b' \<Rightarrow> splice (off + 2) (to_le_bytes 2 (dw_checksum w)) b')))) (\<lambda>_.
      touch TkDir sec))"

end
