(* ===== verification/Name_Filter.thy ===== *)
theory Name_Filter
  imports Directory_Chain
begin

text \<open>
  What the filter for a name (\<open>ExactNameFilter\<close> of \<open>directory.rs\<close>) lets through: the names equal to it up to case.
\<close>

definition units_hash :: "upcase_table \<Rightarrow> u16 list \<Rightarrow> u16" where
  "units_hash t us = foldl rotate_add 0 (name_bytes t us)"

lemma hash_ok:
  assumes "encode_utf16_upcase_and_hash nm t s = (Ok (h, n), s')"
  shows "h = foldl rotate_add 0 (concat (map (to_le_bytes 2) (map (upcase t) (encode_utf16 nm))))"
    and "n = length (encode_utf16 nm)" and "s' = s"
  using assms by (auto simp: hash_total name_bytes_def comp_def split: if_splits)

lemma filter_ok:
  assumes "exact_name_filter_new nm t attrs s = (Ok flt, s')"
  obtains h where "encode_utf16_upcase_and_hash nm t s = (Ok (h, length (encode_utf16 nm)), s)"
    and "flt_hash flt = (\<lambda>h' fa. case attrs of Some a \<Rightarrow> h = h' \<and> contains fa a | None \<Rightarrow> h = h')"
    and "flt_file_name_length flt = (\<lambda>n. length (encode_utf16 nm) = n)"
    and "flt_file_name flt = (\<lambda>part ordinal t'. units_match t' (zip (drop ordinal (encode_utf16 nm)) part))"
proof -
  obtain h n s1 where h: "encode_utf16_upcase_and_hash nm t s = (Ok (h, n), s1)"
    using assms by (auto simp: exact_name_filter_new_def elim!: monad_okE)
  then have "n = length (encode_utf16 nm)" "s1 = s" using hash_ok(2,3) [OF h] by simp_all
  then show thesis
    using that [of h] h assms by (auto simp: exact_name_filter_new_def andthen_Ok [where m = "encode_utf16_upcase_and_hash nm t", OF h] ret_def)
qed

lemma units_match_iff: "units_match t us \<longleftrightarrow> list_all (\<lambda>(l, r). upcase t l = upcase t r) us"
  by (induction us rule: units_match.induct) auto

lemma units_match_parts:
  assumes "length us = length vs"
  shows "(\<forall>k < (length vs + 14) div 15. units_match t (zip (drop (15 * k) us) (take 15 (drop (15 * k) vs)))) \<longleftrightarrow>
    map (upcase t) us = map (upcase t) vs" (is "?L \<longleftrightarrow> ?R")
proof
  assume parts: ?L
  show ?R
  proof (intro nth_equalityI)
    fix i assume "i < length (map (upcase t) us)"
    then have i: "i < length us" by simp
    let ?k = "i div 15" and ?m = "i mod 15"
    have im: "15 * ?k + ?m = i" by simp
    have k: "?k < (length vs + 14) div 15" using i assms by linarith
    have "?m < 15" by simp
    then have m: "?m < length (zip (drop (15 * ?k) us) (take 15 (drop (15 * ?k) vs)))"
      unfolding length_zip length_take length_drop using i assms im by linarith
    have "case zip (drop (15 * ?k) us) (take 15 (drop (15 * ?k) vs)) ! ?m of (l, r) \<Rightarrow> upcase t l = upcase t r"
      using parts [rule_format, OF k] m by (simp only: units_match_iff list_all_length)
    then have "upcase t (us ! (15 * ?k + ?m)) = upcase t (vs ! (15 * ?k + ?m))"
      using m i assms by (simp only: nth_zip length_zip length_take length_drop nth_take nth_drop prod.case min_less_iff_conj
        length_drop im less_imp_le)
    then have "upcase t (us ! i) = upcase t (vs ! i)" by (simp only: im)
    then show "map (upcase t) us ! i = map (upcase t) vs ! i" using i assms by simp
  qed (use assms in simp)
next
  assume r: ?R
  have "upcase t (us ! i) = upcase t (vs ! i)" if "i < length us" for i
    using that assms arg_cong [OF r, of "\<lambda>xs. xs ! i"] by simp
  then show ?L using assms by (auto simp: units_match_iff list_all_length)
qed

text \<open>A stored name passes, with its hash and its parts, exactly if it is the wanted one up to case.\<close>

lemma filter_exact:
  assumes "exact_name_filter_new nm t attrs s = (Ok flt, s')"
  shows "flt_hash flt (units_hash t us) fa \<and> flt_file_name_length flt (length us) \<and>
      (\<forall>k < (length us + 14) div 15. flt_file_name flt (take 15 (drop (15 * k) us)) (15 * k) t) \<longleftrightarrow>
    map (upcase t) (encode_utf16 nm) = map (upcase t) us \<and> (case attrs of Some a \<Rightarrow> contains fa a | None \<Rightarrow> True)"
proof -
  obtain h1 where f: "encode_utf16_upcase_and_hash nm t s = (Ok (h1, length (encode_utf16 nm)), s)"
    "flt_hash flt = (\<lambda>h' fa. case attrs of Some a \<Rightarrow> h1 = h' \<and> contains fa a | None \<Rightarrow> h1 = h')"
    "flt_file_name_length flt = (\<lambda>n. length (encode_utf16 nm) = n)"
    "flt_file_name flt = (\<lambda>part ordinal t'. units_match t' (zip (drop ordinal (encode_utf16 nm)) part))"
    using filter_ok [OF assms(1)] .
  show ?thesis
  proof (cases "length (encode_utf16 nm) = length us")
    case True
    have "h1 = units_hash t us" if "map (upcase t) (encode_utf16 nm) = map (upcase t) us"
      using hash_ok(1) [OF f(1)] that by (simp add: units_hash_def name_bytes_def comp_def)
    then show ?thesis
      using units_match_parts [OF True, of t] True by (auto simp: f(2-4) split: option.splits)
  next
    case False
    then have "map (upcase t) (encode_utf16 nm) \<noteq> map (upcase t) us" using map_eq_imp_length_eq by blast
    then show ?thesis using False by (simp add: f(3))
  qed
qed

end
