(* ===== verification/Properties_Names.thy ===== *)
theory Properties_Names
  imports Name_Filter
begin

text \<open>
  The properties of the formats: timestamps, names and their hashes, paths, UTF-16 and UTF-8, and the directory
  entries.
\<close>

section \<open>Timestamps\<close>

text \<open>
  C37: a valid timestamp survives the packed on-disk form exactly (two-second field, 10 ms increment and signed
  quarter-hour offset included); an invalid one is stored as, and read back as, the epoch of the format.
\<close>

theorem timestamp_roundtrip:
  "timestamp_decode (timestamp_encode ts) = (if timestamp_is_valid ts then ts else
     \<lparr>year = 1980, month = 1, day = 1, hour = 0, minute = 0, second = 0, centis = 0, utc_offset_15min = None\<rparr>)"
  by (simp add: decode_encode decode_encode_invalid default_is_epoch)

definition ex_leap_day :: timestamp where
  "ex_leap_day = \<lparr>year = 2024, month = 2, day = 29, hour = 23, minute = 59, second = 59, centis = 99,
     utc_offset_15min = Some (- 22)\<rparr>"

theorem timestamp_roundtrip_witness:
  "timestamp_decode (timestamp_encode ex_leap_day) = ex_leap_day \<and>
   timestamp_decode (timestamp_encode (ex_leap_day\<lparr>year := 2023\<rparr>)) =
     \<lparr>year = 1980, month = 1, day = 1, hour = 0, minute = 0, second = 0, centis = 0, utc_offset_15min = None\<rparr>"
proof -
  have "timestamp_is_valid ex_leap_day" "\<not> timestamp_is_valid (ex_leap_day\<lparr>year := 2023\<rparr>)" by code_simp+
  then show ?thesis by (simp only: timestamp_roundtrip if_True if_False simp_thms)
qed

section \<open>Names\<close>

text \<open>
  The name hash. Every name is either rejected with the error its defect calls for (reserved, an illegal
  character, empty, in this order), or hashed: the hash is the rotate-and-add over the little-endian bytes of its
  upcased UTF-16 units, and the count is the number of units.
\<close>

lemma name_hash_spec:
  "encode_utf16_upcase_and_hash nm t s =
     (if nm = rstr_of ''.'' \<or> nm = rstr_of ''..'' then (Err ''. and .. are reserved names'', s)
      else if list_ex is_illegal_name_char (encode_utf16 nm) then (Err ''name contains an illegal character'', s)
      else if nm = [] then (Err ''name is empty'', s)
      else (Ok (foldl rotate_add 0 (name_bytes t (encode_utf16 nm)), length (encode_utf16 nm)), s))"
proof -
  have "encode_utf16 nm = [] \<longleftrightarrow> nm = []"
    by (cases nm) (auto simp: encode_utf16_def encode_utf16_char_def Let_def)
  then show ?thesis by (simp add: hash_total list_ex_iff)
qed

text \<open>
  C25: lookup by name is exactly equality up to case. An entry set written for the name \<open>other\<close> passes the filter
  made for \<open>nm\<close> (hash, attributes, length, and every fifteen-unit part of the stored name) if and only if the two
  names have the same upcased units and the entry has the wanted attributes.
\<close>

theorem name_filter_case_insensitive:
  assumes "exact_name_filter_new nm t attrs s = (Ok flt, s')"
    and "encode_utf16_upcase_and_hash other t s2 = (Ok (h, n), s2')" and "n < 2 ^ 32"
  shows "flt_hash flt h fa \<and> flt_file_name_length flt n \<and>
      (\<forall>k < calc_dir_entry_set_len n - 2. flt_file_name flt (take 15 (drop (15 * k) (encode_utf16 other))) (15 * k) t) \<longleftrightarrow>
    map (upcase t) (encode_utf16 nm) = map (upcase t) (encode_utf16 other) \<and>
      (case attrs of Some a \<Rightarrow> contains fa a | None \<Rightarrow> True)"
proof -
  have "n = length (encode_utf16 other)" "h = units_hash t (encode_utf16 other)"
    using hash_ok [OF assms(2)] by (simp_all add: units_hash_def name_bytes_def comp_def)
  then show ?thesis
    using filter_exact [OF assms(1), of "encode_utf16 other" fa] assms(3) by (simp add: calc_dir_entry_set_len_nat)
qed

theorem name_filter_case_insensitive_witness:
  "\<exists>flt. exact_name_filter_new (rstr_of ''Read.me'') upcase_default (Some Archive) () = (Ok flt, ()) \<and>
     encode_utf16_upcase_and_hash (rstr_of ''READ.ME'') upcase_default () = (Ok (17374, 7), ()) \<and>
     flt_hash flt 17374 Archive \<and> flt_file_name_length flt 7"
proof -
  have h: "encode_utf16_upcase_and_hash (rstr_of ''READ.ME'') upcase_default () = (Ok (17374, 7), ())"
    "encode_utf16_upcase_and_hash (rstr_of ''Read.me'') upcase_default () = (Ok (17374, 7), ())"
    by code_simp+
  then obtain flt where f: "exact_name_filter_new (rstr_of ''Read.me'') upcase_default (Some Archive) () = (Ok flt, ())"
    by (simp add: exact_name_filter_new_def andthen_def ret_def)
  have "map (upcase upcase_default) (encode_utf16 (rstr_of ''Read.me'')) =
      map (upcase upcase_default) (encode_utf16 (rstr_of ''READ.ME''))" "contains Archive Archive"
    by code_simp+
  then have "flt_hash flt 17374 Archive \<and> flt_file_name_length flt 7"
    using name_filter_case_insensitive [OF f h(1), of Archive] by simp
  then show ?thesis using f h(1) by blast
qed

text \<open>
  The file-name entries of a name. Reading a name in chunks of fifteen units yields every unit exactly once and in
  order, and the number of chunks is the entry-set length computed by \<open>calc_dir_entry_set_len\<close> less the file and stream
  entries.
\<close>

lemma name_chunks_fill_entry_set:
  assumes "length (encode_utf16 nm) < 2 ^ 32"
  shows "concat (all_chunks 14 (encode_utf16 nm)) = encode_utf16 nm \<and>
    calc_dir_entry_set_len (length (encode_utf16 nm)) = 2 + length (all_chunks 14 (encode_utf16 nm))"
  using assms by (simp add: all_chunks_concat all_chunks_count calc_dir_entry_set_len_nat)

section \<open>Paths\<close>

text \<open>
  Splitting a path at its last separator. The name part has no separator, and the path is the directory part, one
  separator and the name part, or the name alone when there is no separator at all.
\<close>

lemma split_path_exact:
  "case split_path p of (dir, nm) \<Rightarrow>
     list_all (\<lambda>c. \<not> is_separator c) nm \<and>
     (dir = [] \<and> p = nm \<or> (\<exists>c. is_separator c \<and> p = dir @ c # nm))"
proof (rule split_path_cases [of p], goal_cases)
  case 1
  then show ?case by (simp add: list_all_iff)
next
  case (2 dir c nm)
  then show ?case by (auto simp: list_all_iff)
qed

section \<open>UTF-16 and UTF-8\<close>

text \<open>
  Names survive the conversion from the stored UTF-16 to the UTF-8 handed to the user. A name of at most 255 units
  always fits the 765-byte buffer; with a buffer that is large enough the conversion writes exactly its UTF-8 encoding,
  which decodes to the name, and with a smaller one it fails with \<open>FileNameBufferTooSmall\<close>.
\<close>

lemma name_utf8_roundtrip:
  assumes "\<forall>c \<in> set nm. scalar_value c"
  shows "(length (encode_utf8 nm) \<le> length buf \<longrightarrow>
      decode_utf16_to_utf8 (encode_utf16 nm) buf =
        (Ok (length (encode_utf8 nm)), encode_utf8 nm @ drop (length (encode_utf8 nm)) buf)) \<and>
    (length buf < length (encode_utf8 nm) \<longrightarrow>
      fst (decode_utf16_to_utf8 (encode_utf16 nm) buf) = Err FileNameBufferTooSmall) \<and>
    from_utf8 (encode_utf8 nm) = Some nm \<and>
    (length (encode_utf16 nm) \<le> 255 \<longrightarrow> length (encode_utf8 nm) \<le> 765)"
proof (intro conjI impI)
  show "length (encode_utf8 nm) \<le> length buf \<Longrightarrow> decode_utf16_to_utf8 (encode_utf16 nm) buf =
        (Ok (length (encode_utf8 nm)), encode_utf8 nm @ drop (length (encode_utf8 nm)) buf)"
    using assms by (rule name_roundtrip)
  show "length buf < length (encode_utf8 nm) \<Longrightarrow>
      fst (decode_utf16_to_utf8 (encode_utf16 nm) buf) = Err FileNameBufferTooSmall"
    using assms utf8_loop_small [of 0 buf nm] by (simp add: decode_utf16_to_utf8_def decode_encode_utf16)
  show "from_utf8 (encode_utf8 nm) = Some nm" using assms by (rule from_encode_utf8)
  show "length (encode_utf16 nm) \<le> 255 \<Longrightarrow> length (encode_utf8 nm) \<le> 765"
    using utf8_length_bound [of nm] by linarith
qed

section \<open>Directory entries\<close>

text \<open>
  C38: the three entries of a file are read back as they were written: parsing the 32 bytes of a serialized file, stream
  extension or file name entry, with flags the parser keeps, gives the entry, and its first byte has the right type.
\<close>

theorem dir_entries_roundtrip:
  assumes "file_attributes_truncate (fd_file_attributes e) = fd_file_attributes e"
    and "secondary_flags_truncate (se_flags s) = se_flags s"
    and "secondary_flags_truncate (fn_flags n) = fn_flags n" and "length (file_name n) = 15"
  shows "try_into file_dir_from (file_dir_serialize e) FileAndDirectory = Some e \<and>
    try_into stream_ext_from (stream_ext_serialize s) StreamExtension = Some s \<and>
    try_into file_name_from (file_name_serialize n) Filename = Some n \<and>
    length (file_dir_serialize e) = 32 \<and> length (stream_ext_serialize s) = 32 \<and>
    length (file_name_serialize n) = 32"
  using assms by (simp add: try_into_def serialized_types file_dir_roundtrip stream_ext_roundtrip file_name_roundtrip)

definition ex_file_entry :: file_dir_entry where
  "ex_file_entry = \<lparr>secondary_count = 2, set_checksum = 0xBEEF, fd_file_attributes = Archive OR ReadOnly,
     create_timestamp = 0x58210000, last_modified_timestamp = 0x58210001, last_accessed_timestamp = 0x58210002,
     create_10ms_increment = 199, last_modified_10ms_increment = 7, create_utc_offset = 0x80,
     last_modified_utc_offset = 0x84, last_accessed_utc_offset = 0xFC\<rparr>"

definition ex_stream_entry :: stream_extension_dir_entry where
  "ex_stream_entry = \<lparr>se_flags = 3, name_length = 7, name_hash = 0x43DE, se_valid_data_length = 100,
     se_first_cluster = 9, se_data_length = 0x100000000\<rparr>"

definition ex_name_entry :: file_name_dir_entry where
  "ex_name_entry = \<lparr>fn_flags = 0, file_name = map of_nat [97..<112]\<rparr>"

theorem dir_entries_roundtrip_witness:
  "try_into file_dir_from (file_dir_serialize ex_file_entry) FileAndDirectory = Some ex_file_entry \<and>
   try_into stream_ext_from (stream_ext_serialize ex_stream_entry) StreamExtension = Some ex_stream_entry \<and>
   try_into file_name_from (file_name_serialize ex_name_entry) Filename = Some ex_name_entry"
proof -
  have "file_attributes_truncate (fd_file_attributes ex_file_entry) = fd_file_attributes ex_file_entry"
    "secondary_flags_truncate (se_flags ex_stream_entry) = se_flags ex_stream_entry"
    "secondary_flags_truncate (fn_flags ex_name_entry) = fn_flags ex_name_entry"
    "length (file_name ex_name_entry) = 15"
    by code_simp+
  from dir_entries_roundtrip [OF this] show ?thesis by simp
qed

end
