(* ===== verification/Directory.thy ===== *)
theory Directory
  imports Directory_Chain
begin

text \<open>
  Resolving paths and listing directories (\<open>directory.rs\<close>), and mounting a volume (\<open>mount\<close> and
  \<open>read_file_system_metadata\<close> of \<open>file_system.rs\<close>, \<open>UpcaseTable::load\<close>).
\<close>

section \<open>Errors of other types\<close>

text \<open>\<open>.map_err(f)\<close>, and the conversions of \<open>?\<close> (\<open>#[from]\<close> in \<open>error.rs\<close>)\<close>

definition map_err :: "('x \<Rightarrow> 'y) \<Rightarrow> ('s, 'a, 'x) op \<Rightarrow> ('s, 'a, 'y) op" where
  "map_err f m s = (case m s of
     (Ok a, s') \<Rightarrow> (Ok a, s')
   | (Err e, s') \<Rightarrow> (Err (f e), s')
   | (Panic, s') \<Rightarrow> (Panic, s')
   | (OutOfFuel, s') \<Rightarrow> (OutOfFuel, s'))"

section \<open>Paths\<close>

text \<open>\<open>path.split(['/', '\\'])\<close>\<close>

fun split_separators :: "rstr \<Rightarrow> rstr list" where
  "split_separators [] = [[]]"
| "split_separators (c # cs) =
     (if is_separator c then [] # split_separators cs
      else case split_separators cs of
        [] \<Rightarrow> [[c]]
      | p # ps \<Rightarrow> (c # p) # ps)"

text \<open>\<open>char::is_whitespace\<close>: the Unicode property \<open>White_Space\<close>\<close>

definition is_whitespace :: "u32 \<Rightarrow> bool" where
  "is_whitespace c \<longleftrightarrow> 0x9 \<le> c \<and> c \<le> 0xD \<or> c = 0x20 \<or> c = 0x85 \<or> c = 0xA0 \<or> c = 0x1680 \<or>
     0x2000 \<le> c \<and> c \<le> 0x200A \<or> c = 0x2028 \<or> c = 0x2029 \<or> c = 0x202F \<or> c = 0x205F \<or> c = 0x3000"

definition trim :: "rstr \<Rightarrow> rstr" where
  "trim s = rev (dropWhile is_whitespace (rev (dropWhile is_whitespace s)))"

definition path_to_iter :: "rstr \<Rightarrow> rstr list" where
  "path_to_iter path = map trim (filter (\<lambda>part. part \<noteq> []) (split_separators path))"

definition is_root_directory :: "rstr \<Rightarrow> bool" where
  "is_root_directory path \<longleftrightarrow> path_to_iter path = []"

section \<open>Looking up a path\<close>

text \<open>The walk of a fresh chain: the chain is local to the caller.\<close>

definition first_file_entry :: "('d, 'e) platform \<Rightarrow> nat \<Rightarrow> u32 \<Rightarrow> dir_filter \<Rightarrow> ('d, file_details option, 'e) fs_op" where
  "first_file_entry P fuel cluster_id filt s =
     (case next_file_entry P fuel filt None (chain_new P cluster_id (fs_details s), s) of
        (Ok r, (_, s')) \<Rightarrow> (Ok (map_option fst r), s')
      | (Err e, (_, s')) \<Rightarrow> (Err e, s')
      | (Panic, (_, s')) \<Rightarrow> (Panic, s')
      | (OutOfFuel, (_, s')) \<Rightarrow> (OutOfFuel, s'))"

fun leaf_loop :: "('d, 'e) platform \<Rightarrow> nat \<Rightarrow> file_attributes option \<Rightarrow> rstr list \<Rightarrow> u32 \<Rightarrow>
    ('d, file_details option, 'e) fs_op" where
  "leaf_loop P fuel attrs [] cluster_id = ret None"
| "leaf_loop P fuel attrs (part # rest) cluster_id =
     (let is_last = (rest = []);
          wanted = (if is_last then attrs else Some Directory) in
      andthen (gets fs_upcase) (\<lambda>t.
      andthen (map_err InvalidFileName (exact_name_filter_new part t wanted)) (\<lambda>filt.
      andthen (first_file_entry P fuel cluster_id filt) (\<lambda>r. case r of
        Some details \<Rightarrow>
          if is_last then ret (Some details)
          else if contains (attributes details) Directory
          then leaf_loop P fuel attrs rest (first_cluster details)
          else ret None
      | None \<Rightarrow> ret None))))"

definition get_leaf_file_entry :: "('d, 'e) platform \<Rightarrow> nat \<Rightarrow> rstr \<Rightarrow> file_attributes option \<Rightarrow>
    ('d, file_details option, 'e) fs_op" where
  "get_leaf_file_entry P fuel path attrs =
     andthen (gets (\<lambda>s. fsd_first_cluster_of_root_dir (fs_details s))) (\<lambda>cluster_id.
     leaf_loop P fuel attrs (path_to_iter path) cluster_id)"

section \<open>Listing\<close>

text \<open>\<open>directory_list\<close>: the iterator is the walk it starts with.\<close>

definition directory_list :: "('d, 'e) platform \<Rightarrow> nat \<Rightarrow> rstr \<Rightarrow> ('d, dir_chain, 'e) fs_op" where
  "directory_list P fuel path =
     andthen (if is_root_directory path
       then gets (\<lambda>s. fsd_first_cluster_of_root_dir (fs_details s))
       else andthen (get_leaf_file_entry P fuel path (Some Directory)) (\<lambda>r. case r of
           Some details \<Rightarrow>
             if contains (attributes details) Directory then ret (first_cluster details)
             else fail DirectoryNotFound
         | None \<Rightarrow> fail DirectoryNotFound)) (\<lambda>cluster_id.
     gets (\<lambda>s. chain_new P cluster_id (fs_details s)))"

text \<open>\<open>DirectoryIterator::next_entry\<close>: the metadata and the decoded name\<close>

definition next_entry :: "('d, 'e) platform \<Rightarrow> nat \<Rightarrow> u8 list \<Rightarrow> ('d, (file_details \<times> rstr) option, 'e) chain_op" where
  "next_entry P fuel name_buf =
     andthen (next_file_entry P fuel all_pass_filter (Some name_buf)) (\<lambda>r. case r of
       None \<Rightarrow> ret None
     | Some (details, utf8_name_len, buf') \<Rightarrow>
         (case from_utf8 (take utf8_name_len (the buf')) of
            Some nm \<Rightarrow> ret (Some (details, nm))
          | None \<Rightarrow> fail Utf8Error))"

section \<open>Mounting\<close>

text \<open>\<open>UpcaseTable::load\<close>: the first sector of the table replaces the first units of the mapping.\<close>

definition upcase_load :: "('d, 'e) platform \<Rightarrow> upcase_table_dir_entry \<Rightarrow> file_system_details \<Rightarrow> upcase_table \<Rightarrow>
    ('d, upcase_table, 'e exfat_error) op" where
  "upcase_load P dir_entry fs t =
     andthen (get_heap_sector_id fs (ut_first_cluster dir_entry)) (\<lambda>sec.
     andthen (io_read P sec) (\<lambda>block.
     let chars = map from_le_bytes (as_chunks 2 block); n = min (length (mapping t)) (length chars) in
     ret (t\<lparr>mapping := take n chars @ drop n (mapping t)\<rparr>)))"

definition read_boot_sector :: "('d, 'e) platform \<Rightarrow> u32 \<Rightarrow> ('d, boot_sector, 'e exfat_error) op" where
  "read_boot_sector P sec =
     andthen (io_read P sec) (\<lambda>data. map_err NotExFat (boot_sector_try_from data))"

record root_entries =
  re_bitmap :: "allocation_bitmap_dir_entry option"
  re_label :: "rstr option"
  re_upcase :: "upcase_table_dir_entry option"

text \<open>The scan of the first sector of the root directory.\<close>

fun scan_root :: "raw_dir_entry list \<Rightarrow> root_entries \<Rightarrow> ('s, root_entries, 'e exfat_error) op" where
  "scan_root [] re = ret re"
| "scan_root (chunk # chunks) re =
     (let et = entry_type_from (chunk ! 0);
          continue = (\<lambda>re'. if re_bitmap re' \<noteq> None \<and> re_upcase re' \<noteq> None \<and> re_label re' \<noteq> None
            then ret re' else scan_root chunks re') in
      if et = AllocationBitmap then continue (re\<lparr>re_bitmap := Some (allocation_bitmap_from chunk)\<rparr>)
      else if et = VolumeLabel
      then andthen (map_err DirectoryEntry (volume_label_try_from chunk)) (\<lambda>label.
        continue (re\<lparr>re_label := Some label\<rparr>))
      else if et = UpcaseTable then continue (re\<lparr>re_upcase := Some (upcase_table_from chunk)\<rparr>)
      else if et = EndOfDirectory \<and> is_end_of_directory chunk then ret re
      else continue re)"

record file_system_metadata =
  md_details :: file_system_details
  md_upcase_table :: upcase_table
  md_bitmap_first_cluster :: u32
  md_bitmap_num_sectors :: u32

text \<open>\<open>AllocationBitmap::new\<close>; dividing by the sector size panics when it is zero.\<close>

definition allocation_bitmap_new :: "('d, 'e) platform \<Rightarrow> allocation_bitmap_dir_entry \<Rightarrow> ('s, u32 \<times> u32, 'x) op" where
  "allocation_bitmap_new P e =
     andthen (assert_that ((of_nat (SIZE P) :: u64) \<noteq> 0)) (\<lambda>_.
     ret (ab_first_cluster e, ucast (div_ceil (ab_data_length e) (of_nat (SIZE P)))))"

definition read_file_system_metadata :: "('d, 'e) platform \<Rightarrow> ('d, file_system_metadata, 'e exfat_error) op" where
  "read_file_system_metadata P =
     andthen (read_boot_sector P 0) (\<lambda>boot.
     let details = details_new boot in
     andthen (get_heap_sector_id details (fsd_first_cluster_of_root_dir details)) (\<lambda>sec.
     andthen (io_read P sec) (\<lambda>data.
     andthen (scan_root (as_chunks RAW_ENTRY_LEN data) \<lparr>re_bitmap = None, re_label = None, re_upcase = None\<rparr>) (\<lambda>re.
     case re_upcase re of
       None \<Rightarrow> fail (InvalidFileSystem ''no upcase table found in root dir'')
     | Some upcase_entry \<Rightarrow>
       if re_label re = None then fail (InvalidFileSystem ''no volume label found in root dir'')
       else (case re_bitmap re of
          None \<Rightarrow> fail (InvalidFileSystem ''no allocation bitmap found in root dir'')
        | Some bitmap_entry \<Rightarrow>
          andthen (upcase_load P upcase_entry details upcase_default) (\<lambda>t.
          andthen (allocation_bitmap_new P bitmap_entry) (\<lambda>(first, num).
          ret \<lparr>md_details = details, md_upcase_table = t, md_bitmap_first_cluster = first,
               md_bitmap_num_sectors = num\<rparr>)))))))"

definition mount :: "('d, 'e) platform \<Rightarrow> ('d, unit, 'e) fs_op" where
  "mount P =
     andthen (gets is_mounted) (\<lambda>m.
     if m then ret ()
     else andthen (zoom fs_dev (\<lambda>d s. s\<lparr>fs_dev := d\<rparr>) (read_file_system_metadata P)) (\<lambda>md.
     andthen (modify (\<lambda>s. s\<lparr>fs_fat := (fs_fat s)\<lparr>start_of_fat_sector := Some (fsd_fat_offset (md_details md))\<rparr>,
       fs_allocator := (fs_allocator s)\<lparr>bitmap := (bitmap (fs_allocator s))
         \<lparr>bitmap_cluster_count := fsd_cluster_count (md_details md)\<rparr>\<rparr>,
       fs_details := md_details md\<rparr>)) (\<lambda>_.
     andthen (get_heap_sector_id (md_details md) (md_bitmap_first_cluster md)) (\<lambda>sec.
     modify (\<lambda>s. s\<lparr>fs_allocator := (fs_allocator s)\<lparr>bitmap := (bitmap (fs_allocator s))
         \<lparr>first_sector := sec, num_sectors := md_bitmap_num_sectors md\<rparr>\<rparr>,
       fs_upcase := md_upcase_table md, is_mounted := True\<rparr>)))))"

lemma mount_mounted: "is_mounted s \<Longrightarrow> mount P s = (Ok (), s)"
  by (simp add: mount_def andthen_def gets_def ret_def)

end
