(* ===== verification/Fs_Ops.thy ===== *)
theory Fs_Ops
  imports Directory
begin

text \<open>
  The internal operations of \<open>FileSystem\<close> (\<open>file_system.rs\<close>): stored chains, lookup, truncation, creation
  of directory entries and directories, deletion. Operations with a \<open>&mut impl Touched\<close> parameter run on the
  file system and the touched set; the public ones own a fresh touched set.
\<close>

section \<open>Running with a fresh touched set\<close>

definition with_touched :: "('d, 'a, 'e) fst_op \<Rightarrow> ('d, 'a, 'e) fs_op" where
  [monad_simps]: "with_touched m s = (case m (s, file_dirty_new) of (r, (s', _)) \<Rightarrow> (r, s'))"

section \<open>Chains of clusters\<close>

fun walk_fat :: "('d, 'e) platform \<Rightarrow> nat \<Rightarrow> u32 \<Rightarrow> ('d, u32, 'e) fs_op" where
  "walk_fat P 0 cluster_id = ret cluster_id"
| "walk_fat P (Suc n) cluster_id =
     andthen (on_fat (next_cluster_in_fat_chain P cluster_id)) (\<lambda>r. case r of
       Some x \<Rightarrow> walk_fat P n x
     | None \<Rightarrow> fail EndOfFatChain)"

text \<open>Division by a zero cluster length panics.\<close>

definition get_cluster_id_at :: "('d, 'e) platform \<Rightarrow> u64 \<Rightarrow> file_details \<Rightarrow> ('d, u32, 'e) fs_op" where
  "get_cluster_id_at P cursor details =
     (if cursor = 0 then ret (first_cluster details)
      else andthen (gets (\<lambda>s. fsd_cluster_length (fs_details s))) (\<lambda>cl.
      andthen (assert_that (cl \<noteq> 0)) (\<lambda>_.
      let num_clusters = ucast ((cursor - 1) div ucast cl) :: u32 in
      if contains (flags details) NoFatChain then ret (first_cluster details + num_clusters)
      else walk_fat P (unat num_clusters) (first_cluster details))))"

definition get_stored_chain :: "('d, 'e) platform \<Rightarrow> file_details \<Rightarrow> ('d, stored_chain, 'e) fs_op" where
  "get_stored_chain P details =
     andthen (gets (\<lambda>s. fsd_cluster_length (fs_details s))) (\<lambda>cl.
     andthen (assert_that (cl \<noteq> 0)) (\<lambda>_.
     let no_fat_chain = contains (flags details) NoFatChain;
         cluster_count = ucast (div_ceil (data_length details) (ucast cl)) :: u32;
         is_empty = (first_cluster details = NO_CLUSTER_ID \<or> cluster_count = 0) in
     if is_empty then ret StoredEmpty
     else if no_fat_chain then ret (StoredContiguous (first_cluster details) cluster_count)
     else andthen (get_cluster_id_at P (data_length details) details) (\<lambda>last_cluster.
       ret (StoredFat (first_cluster details) last_cluster cluster_count))))"

section \<open>Lookup\<close>

definition find_file_inner :: "('d, 'e) platform \<Rightarrow> nat \<Rightarrow> rstr \<Rightarrow> file_attributes option \<Rightarrow> ('d, file_details, 'e) fs_op" where
  "find_file_inner P fuel path attrs =
     andthen (get_leaf_file_entry P fuel path attrs) (\<lambda>r. case r of
       Some details \<Rightarrow> ret details
     | None \<Rightarrow> fail FileNotFound)"

definition find_file_or_directory :: "('d, 'e) platform \<Rightarrow> nat \<Rightarrow> rstr \<Rightarrow> file_attributes option \<Rightarrow>
    ('d, file_details, 'e) fs_op" where
  "find_file_or_directory P fuel path attrs = find_file_inner P fuel path attrs"

section \<open>Rewriting an entry set\<close>

text \<open>
  The loop \<open>while let Some((dir_entry, _)) = chain.next()\<close> over the entries of one set: \<open>body k entry\<close> handles
  the \<open>k\<close>-th. The walk is bounded by the number of entries of the set, so that many rounds, and one to find
  the end, are enough.
\<close>

fun set_loop :: "('d, 'e) platform \<Rightarrow> nat \<Rightarrow> nat \<Rightarrow> dir_chain \<Rightarrow>
    (nat \<Rightarrow> raw_dir_entry \<Rightarrow> 'w \<Rightarrow> ('d, 'w, 'e) fst_op) \<Rightarrow> 'w \<Rightarrow> ('d, 'w, 'e) fst_op" where
  "set_loop P 0 k ch body w = (\<lambda>st. (OutOfFuel, st))"
| "set_loop P (Suc fuel) k ch body w =
     andthen (\<lambda>(s, t). case chain_next P (ch, s) of (r, (ch', s')) \<Rightarrow>
         ((case r of Ok e \<Rightarrow> Ok (e, ch') | Err x \<Rightarrow> Err x | Panic \<Rightarrow> Panic | OutOfFuel \<Rightarrow> OutOfFuel), (s', t)))
       (\<lambda>(e, ch'). case e of
          None \<Rightarrow> ret w
        | Some (raw, _) \<Rightarrow> andthen (body k raw w) (\<lambda>w'. set_loop P fuel (Suc k) ch' body w'))"

type_synonym set_state = "dir_set_writer \<times> raw_dir_entry option"

definition truncate_body :: "('d, 'e) platform \<Rightarrow> file_details \<Rightarrow> nat \<Rightarrow> raw_dir_entry \<Rightarrow> set_state \<Rightarrow>
    ('d, set_state, 'e) fst_op" where
  "truncate_body P details k raw = (\<lambda>(w, file_dir).
     if k = 0 then ret (add_no_write P raw True w, Some raw)
     else if k = 1 then
       (let stream_ext = (stream_ext_from raw)\<lparr>se_data_length := data_length details,
          se_valid_data_length := valid_data_length details, se_first_cluster := first_cluster details\<rparr> in
        andthen (writer_add P (stream_ext_serialize stream_ext) False w) (\<lambda>w'. ret (w', file_dir)))
     else ret (add_no_write P raw False w, file_dir))"

text \<open>\<open>truncate_file\<close>: the updated details; a length other than zero is \<open>unimplemented!\<close>.\<close>

definition truncate_file :: "('d, 'e) platform \<Rightarrow> file_details \<Rightarrow> u64 \<Rightarrow> ('d, file_details, 'e) fs_op" where
  "truncate_file P details len =
     (if len > 0 then panic
      else with_touched (
        andthen (on_fs (get_stored_chain P details)) (\<lambda>stored_chain.
        let details' = details\<lparr>data_length := len, valid_data_length := min (valid_data_length details) len,
              first_cluster := NO_CLUSTER_ID\<rparr> in
        andthen (gets (\<lambda>(s, t). fs_details s)) (\<lambda>fsd.
        andthen (chain_new_from_file_details P details' fsd) (\<lambda>ch.
        andthen (set_loop P (unat (fd_secondary_count details) + 2) 0 ch (truncate_body P details')
          (dir_set_writer_new (fd_location details), None)) (\<lambda>(w, file_dir).
        andthen (case file_dir of Some raw \<Rightarrow> writer_finish P raw w | None \<Rightarrow> ret ()) (\<lambda>_.
        andthen (on_alloc_fat_t (free P stored_chain)) (\<lambda>_.
        andthen (touched_flush P) (\<lambda>_.
        ret details')))))))))"

section \<open>Creating entries\<close>

text \<open>\<open>find_empty_dir_entry_set\<close>: the loop carries the start of the run of free entries and its length.\<close>

fun find_empty_loop :: "('d, 'e) platform \<Rightarrow> nat \<Rightarrow> nat \<Rightarrow> nat \<Rightarrow> location option \<Rightarrow>
    ('d, location option, 'e) chain_op" where
  "find_empty_loop P 0 set_len counter start = (\<lambda>st. (OutOfFuel, st))"
| "find_empty_loop P (Suc fuel) set_len counter start =
     andthen (chain_next P) (\<lambda>e. case e of
       None \<Rightarrow> ret start
     | Some (entry, loc) \<Rightarrow>
         (case entry_type_from (entry ! 0) of
            EndOfDirectory \<Rightarrow>
              (let start' = (if start = None then Some loc else start) in
               if Suc counter = set_len then ret start' else find_empty_loop P fuel set_len (Suc counter) start')
          | Unused _ \<Rightarrow>
              (let start' = (if start = None then Some loc else start) in
               if Suc counter = set_len then ret start' else find_empty_loop P fuel set_len (Suc counter) start')
          | _ \<Rightarrow> find_empty_loop P fuel set_len 0 None))"

definition find_empty_dir_entry_set :: "('d, 'e) platform \<Rightarrow> nat \<Rightarrow> u32 \<Rightarrow> nat \<Rightarrow> ('d, location, 'e) fs_op" where
  "find_empty_dir_entry_set P fuel cluster_id set_len s =
     (case find_empty_loop P fuel set_len 0 None (chain_new P cluster_id (fs_details s), s) of
        (Ok (Some loc), (_, s')) \<Rightarrow> (Ok loc, s')
      | (Ok None, (_, s')) \<Rightarrow> (Err DirectoryFull, s')
      | (Err e, (_, s')) \<Rightarrow> (Err e, s')
      | (Panic, (_, s')) \<Rightarrow> (Panic, s')
      | (OutOfFuel, (_, s')) \<Rightarrow> (OutOfFuel, s'))"

text \<open>The entries of the name, fifteen units each.\<close>

fun name_entries_loop :: "('d, 'e) platform \<Rightarrow> nat \<Rightarrow> u16 list \<Rightarrow> dir_set_writer \<Rightarrow> ('d, dir_set_writer, 'e) fst_op" where
  "name_entries_loop P 0 iter w = (\<lambda>st. (OutOfFuel, st))"
| "name_entries_loop P (Suc fuel) iter w =
     (case next_chunk (replicate 15 0) iter of
        (Ok (Some _, chunk), iter') \<Rightarrow>
          andthen (writer_add P (file_name_serialize \<lparr>fn_flags = 0, file_name = chunk\<rparr>) False w)
            (\<lambda>w'. name_entries_loop P fuel iter' w')
      | (Ok (None, _), _) \<Rightarrow> ret w
      | (Err e, _) \<Rightarrow> fail e
      | (Panic, _) \<Rightarrow> panic
      | (OutOfFuel, _) \<Rightarrow> (\<lambda>st. (OutOfFuel, st)))"

definition create_file_dir_entry_at :: "('d, 'e) platform \<Rightarrow> nat \<Rightarrow> rstr \<Rightarrow> u32 \<Rightarrow> u32 \<Rightarrow> file_attributes \<Rightarrow>
    general_secondary_flags \<Rightarrow> u64 \<Rightarrow> u64 \<Rightarrow> ('d, file_details, 'e) fst_op" where
  "create_file_dir_entry_at P fuel nm directory_cluster_id first_cl attrs stream_ext_flags valid_len data_len =
     andthen (gets (\<lambda>(s, t). fs_upcase s)) (\<lambda>tbl.
     andthen (map_err InvalidFileName (encode_utf16_upcase_and_hash nm tbl)) (\<lambda>(hash, file_name_char_count).
     let dir_entry_set_len = calc_dir_entry_set_len file_name_char_count in
     andthen (on_fs (find_empty_dir_entry_set P fuel directory_cluster_id dir_entry_set_len)) (\<lambda>loc.
     let sec_count = of_nat dir_entry_set_len - 1 :: u8 in
     andthen (on_fs get_current_timestamp) (\<lambda>timestamp.
     let file_dir = file_dir_serialize \<lparr>secondary_count = sec_count, set_checksum = 0,
           fd_file_attributes = attrs, create_timestamp = packed timestamp,
           last_modified_timestamp = packed timestamp, last_accessed_timestamp = packed timestamp,
           create_10ms_increment = increment_10ms timestamp,
           last_modified_10ms_increment = increment_10ms timestamp,
           create_utc_offset = utc_offset timestamp, last_modified_utc_offset = utc_offset timestamp,
           last_accessed_utc_offset = utc_offset timestamp\<rparr> in
     andthen (writer_add P file_dir True (dir_set_writer_new loc)) (\<lambda>w1.
     andthen (writer_add P (stream_ext_serialize \<lparr>se_flags = stream_ext_flags,
         name_length = of_nat file_name_char_count, name_hash = hash, se_valid_data_length = valid_len,
         se_first_cluster = first_cl, se_data_length = data_len\<rparr>) False w1) (\<lambda>w2.
     andthen (name_entries_loop P (Suc (length (encode_utf16 nm))) (encode_utf16 nm) w2) (\<lambda>w3.
     andthen (writer_finish P file_dir w3) (\<lambda>_.
     ret \<lparr>first_cluster = first_cl, data_length = data_len, valid_data_length = valid_len, attributes = attrs,
          fd_location = loc, flags = stream_ext_flags, fd_secondary_count = sec_count,
          fd_created = timestamp, fd_modified = timestamp, fd_accessed = timestamp\<rparr>))))))))"

text \<open>\<open>zero_cluster\<close>; the end of the range of sectors wraps.\<close>

definition zero_cluster :: "('d, 'e) platform \<Rightarrow> u32 \<Rightarrow> ('d, unit, 'e) fst_op" where
  "zero_cluster P cluster_id =
     andthen (gets (\<lambda>(s, t). fs_details s)) (\<lambda>fsd.
     andthen (get_heap_sector_id fsd cluster_id) (\<lambda>first.
     for_each (map of_nat [unat first..<unat (first + fsd_sectors_per_cluster fsd)]) (\<lambda>sec.
       andthen (on_fs (on_data (update_sector P sec (\<lambda>b. Some (replicate (length b) 0))))) (\<lambda>_.
       touch TkDir sec))))"

definition default_flags :: general_secondary_flags where
  "default_flags = AllocationPossible OR NoFatChain"

fun get_or_create_loop :: "('d, 'e) platform \<Rightarrow> nat \<Rightarrow> rstr list \<Rightarrow> u32 \<Rightarrow> ('d, u32, 'e) fst_op" where
  "get_or_create_loop P fuel [] cluster_id = ret cluster_id"
| "get_or_create_loop P fuel (dir_name # names) cluster_id =
     andthen (gets (\<lambda>(s, t). fs_upcase s)) (\<lambda>tbl.
     andthen (map_err InvalidFileName (exact_name_filter_new dir_name tbl (Some Directory))) (\<lambda>filt.
     andthen (on_fs (first_file_entry P fuel cluster_id filt)) (\<lambda>r. case r of
       Some details \<Rightarrow> get_or_create_loop P fuel names (first_cluster details)
     | None \<Rightarrow>
         andthen (on_fs (on_alloc (find_free_clusters P None 1 LongestRun))) (\<lambda>run.
         andthen (on_alloc_t (mark_allocated P run True)) (\<lambda>_.
         andthen (zero_cluster P (run_first_cluster run)) (\<lambda>_.
         andthen (gets (\<lambda>(s, t). ucast (fsd_cluster_length (fs_details s)))) (\<lambda>cl.
         andthen (create_file_dir_entry_at P fuel dir_name cluster_id (run_first_cluster run) Directory
           default_flags cl cl) (\<lambda>_.
         get_or_create_loop P fuel names (run_first_cluster run)))))))))"

definition get_or_create_directory :: "('d, 'e) platform \<Rightarrow> nat \<Rightarrow> rstr \<Rightarrow> ('d, u32, 'e) fst_op" where
  "get_or_create_directory P fuel path =
     andthen (gets (\<lambda>(s, t). fsd_first_cluster_of_root_dir (fs_details s))) (\<lambda>root.
     get_or_create_loop P fuel (path_to_iter path) root)"

definition create_file :: "('d, 'e) platform \<Rightarrow> nat \<Rightarrow> rstr \<Rightarrow> ('d, file_details, 'e) fs_op" where
  "create_file P fuel path = (case split_path path of (dir_path, nm) \<Rightarrow>
     with_touched (
       andthen (get_or_create_directory P fuel dir_path) (\<lambda>directory_cluster_id.
       andthen (create_file_dir_entry_at P fuel nm directory_cluster_id NO_CLUSTER_ID Archive default_flags 0 0) (\<lambda>details.
       andthen (touched_flush P) (\<lambda>_. ret details)))))"

section \<open>Deleting\<close>

fun mark_unused_loop :: "('d, 'e) platform \<Rightarrow> nat \<Rightarrow> location \<Rightarrow> ('d, unit, 'e) fst_op" where
  "mark_unused_loop P 0 loc = ret ()"
| "mark_unused_loop P (Suc n) loc =
     (let loc' = (if dir_entry_offset loc = SIZE P div RAW_ENTRY_LEN
                  then \<lparr>sector_id = sector_id loc + 1, dir_entry_offset = 0\<rparr> else loc);
          i = dir_entry_offset loc' * RAW_ENTRY_LEN in
      andthen (on_fs (on_data (update_sector P (sector_id loc')
        (\<lambda>b. if i < length b then Some (b[i := b ! i AND 0x7F]) else None)))) (\<lambda>_.
      andthen (touch TkDir (sector_id loc')) (\<lambda>_.
      mark_unused_loop P n (loc'\<lparr>dir_entry_offset := dir_entry_offset loc' + 1\<rparr>))))"

definition mark_directory_entry_set_unused :: "('d, 'e) platform \<Rightarrow> location \<Rightarrow> nat \<Rightarrow> ('d, unit, 'e) fst_op" where
  "mark_directory_entry_set_unused P loc n = mark_unused_loop P n loc"

fun no_children_loop :: "('d, 'e) platform \<Rightarrow> nat \<Rightarrow> ('d, unit, 'e) chain_op" where
  "no_children_loop P 0 = (\<lambda>st. (OutOfFuel, st))"
| "no_children_loop P (Suc fuel) =
     andthen (chain_next P) (\<lambda>e. case e of
       None \<Rightarrow> ret ()
     | Some (entry, _) \<Rightarrow>
         (case entry_type_from (entry ! 0) of
            EndOfDirectory \<Rightarrow> if is_end_of_directory entry then ret () else no_children_loop P fuel
          | Unused _ \<Rightarrow> no_children_loop P fuel
          | _ \<Rightarrow> fail DirectoryNotEmpty))"

definition confirm_has_no_children :: "('d, 'e) platform \<Rightarrow> nat \<Rightarrow> file_details \<Rightarrow> ('d, unit, 'e) fs_op" where
  "confirm_has_no_children P fuel details s =
     (if contains (attributes details) Directory
      then case no_children_loop P fuel (chain_new P (first_cluster details) (fs_details s), s) of
        (r, (_, s')) \<Rightarrow> (r, s')
      else (Ok (), s))"

definition delete_inner :: "('d, 'e) platform \<Rightarrow> nat \<Rightarrow> file_details \<Rightarrow> ('d, unit, 'e) fs_op" where
  "delete_inner P fuel details =
     andthen (confirm_has_no_children P fuel details) (\<lambda>_.
     with_touched (
       andthen (on_fs (get_stored_chain P details)) (\<lambda>chain.
       andthen (on_alloc_fat_t (free P chain)) (\<lambda>_.
       andthen (mark_directory_entry_set_unused P (fd_location details) (unat (fd_secondary_count details) + 1)) (\<lambda>_.
       touched_flush P)))))"

end
