(* ===== verification/File.thy ===== *)
theory File
  imports Fs_Ops
begin

text \<open>
  Open files (\<open>file.rs\<close>): options, the cursor and the cluster it is in, reading, writing, seeking, the
  growth of the cluster chain and the update of the directory entry. An operation runs on the file and the file
  system; a user buffer is an argument and, where it is filled, part of the result.
\<close>

section \<open>Options and files\<close>

record open_options =
  opt_read :: bool
  opt_write :: bool
  opt_append :: bool
  opt_truncate :: bool
  opt_create :: bool
  opt_create_new :: bool

definition open_options_new :: open_options where
  "open_options_new = \<lparr>opt_read = False, opt_write = False, opt_append = False, opt_truncate = False,
     opt_create = False, opt_create_new = False\<rparr>"

definition options_read :: "bool \<Rightarrow> open_options \<Rightarrow> open_options" where
  "options_read b opts = opts\<lparr>opt_read := b\<rparr>"

definition options_write :: "bool \<Rightarrow> open_options \<Rightarrow> open_options" where
  "options_write b opts = opts\<lparr>opt_write := b\<rparr>"

definition options_append :: "bool \<Rightarrow> open_options \<Rightarrow> open_options" where
  "options_append b opts = opts\<lparr>opt_append := b\<rparr>"

definition options_truncate :: "bool \<Rightarrow> open_options \<Rightarrow> open_options" where
  "options_truncate b opts = opts\<lparr>opt_truncate := b\<rparr>"

definition options_create :: "bool \<Rightarrow> open_options \<Rightarrow> open_options" where
  "options_create b opts = opts\<lparr>opt_create := b\<rparr>"

definition options_create_new :: "bool \<Rightarrow> open_options \<Rightarrow> open_options" where
  "options_create_new b opts = opts\<lparr>opt_create_new := b\<rparr>"

record open_file =
  details :: file_details
  current_cluster :: u32
  remaining_bytes_in_cluster :: u32
  cursor :: u64
  open_options :: open_options
  chain :: stored_chain
  touched :: file_dirty

text \<open>\<open>File::new\<close>; the remainder by a zero cluster length panics.\<close>

definition file_new :: "file_details \<Rightarrow> u32 \<Rightarrow> u32 \<Rightarrow> open_options \<Rightarrow> stored_chain \<Rightarrow> ('s, open_file, 'x) op" where
  "file_new fd cluster_id cluster_length opts chn =
     (let cur = (if opt_append opts then valid_data_length fd else 0) in
      andthen (case chn of
          StoredEmpty \<Rightarrow> ret 0
        | _ \<Rightarrow> andthen (assert_that (cluster_length \<noteq> 0)) (\<lambda>_.
            ret (cluster_length - ucast (cur mod ucast cluster_length)))) (\<lambda>rem.
      ret \<lparr>details = fd, current_cluster = cluster_id, remaining_bytes_in_cluster = rem, cursor = cur,
           open_options = opts, chain = chn, touched = file_dirty_new\<rparr>))"

definition metadata :: "open_file \<Rightarrow> file_details" where
  "metadata f = details f"

type_synonym ('d, 'a, 'e) file_op = "(open_file \<times> 'd file_system, 'a, 'e exfat_error) op"

definition in_fs :: "('d, 'a, 'e) fs_op \<Rightarrow> ('d, 'a, 'e) file_op" where
  [monad_simps]: "in_fs = zoom snd (\<lambda>s' (f, s). (f, s'))"

definition in_fst :: "('d, 'a, 'e) fst_op \<Rightarrow> ('d, 'a, 'e) file_op" where
  [monad_simps]: "in_fst = zoom (\<lambda>(f, s). (s, touched f)) (\<lambda>(s', t') (f, s). (f\<lparr>touched := t'\<rparr>, s'))"

definition upd_file :: "(open_file \<Rightarrow> open_file) \<Rightarrow> ('d, unit, 'e) file_op" where
  [monad_simps]: "upd_file g = modify (\<lambda>(f, s). (g f, s))"

definition the_file :: "('d, open_file, 'e) file_op" where
  [monad_simps]: "the_file = gets fst"

definition cluster_length :: "('d, u32, 'e) file_op" where
  [monad_simps]: "cluster_length = gets (\<lambda>(f, s). fsd_cluster_length (fs_details s))"

section \<open>Flushing\<close>

definition flush_body :: "('d, 'e) platform \<Rightarrow> open_file \<Rightarrow> nat \<Rightarrow> raw_dir_entry \<Rightarrow> set_state \<Rightarrow> ('d, set_state, 'e) fst_op" where
  "flush_body P f k raw = (\<lambda>(w, file_dir).
     if k = 0 then
       andthen (on_fs get_current_timestamp) (\<lambda>ts.
       let fde = (file_dir_from raw)\<lparr>last_modified_timestamp := packed ts,
             last_modified_10ms_increment := increment_10ms ts, last_modified_utc_offset := utc_offset ts,
             last_accessed_timestamp := packed ts, last_accessed_utc_offset := utc_offset ts\<rparr>;
           raw' = file_dir_serialize fde in
       andthen (writer_add P raw' True w) (\<lambda>w'. ret (w', Some raw')))
     else if k = 1 then
       (let stream_ext = (stream_ext_from raw)\<lparr>
          se_first_cluster := (case chain f of
              StoredEmpty \<Rightarrow> NO_CLUSTER_ID
            | StoredContiguous first _ \<Rightarrow> first
            | StoredFat first _ _ \<Rightarrow> first),
          se_data_length := data_length (details f), se_valid_data_length := valid_data_length (details f),
          se_flags := flags (details f)\<rparr> in
        andthen (writer_add P (stream_ext_serialize stream_ext) False w) (\<lambda>w'. ret (w', file_dir)))
     else ret (add_no_write P raw False w, file_dir))"

definition file_flush :: "('d, 'e) platform \<Rightarrow> ('d, unit, 'e) file_op" where
  "file_flush P =
     andthen the_file (\<lambda>f.
     andthen (if is_dir_entry_dirty (touched f)
       then andthen (gets (\<lambda>(f, s). fs_details s)) (\<lambda>fsd.
            andthen (chain_new_from_file_details P (details f) fsd) (\<lambda>ch.
            andthen (in_fst (set_loop P (unat (fd_secondary_count (details f)) + 2) 0 ch (flush_body P f)
              (dir_set_writer_new (fd_location (details f)), None))) (\<lambda>(w, file_dir).
            case file_dir of
              Some raw \<Rightarrow> in_fst (writer_finish P raw w)
            | None \<Rightarrow> ret ())))
       else ret ()) (\<lambda>_.
     in_fst (touched_flush P)))"

definition file_close :: "('d, 'e) platform \<Rightarrow> ('d, unit, 'e) file_op" where
  "file_close P = file_flush P"

section \<open>The cursor\<close>

definition eof :: "open_file \<Rightarrow> bool" where
  "eof f \<longleftrightarrow> data_length (details f) \<le> cursor f"

definition move_file_cursor :: "nat \<Rightarrow> open_file \<Rightarrow> open_file" where
  "move_file_cursor num_bytes f = f\<lparr>cursor := cursor f + of_nat num_bytes,
     remaining_bytes_in_cluster := remaining_bytes_in_cluster f - of_nat num_bytes\<rparr>"

definition update_data_length :: "nat \<Rightarrow> open_file \<Rightarrow> open_file" where
  "update_data_length num_bytes f =
     (let valid = max (cursor f + of_nat num_bytes) (valid_data_length (details f)) in
      f\<lparr>details := (details f)\<lparr>data_length := max valid (data_length (details f)), valid_data_length := valid\<rparr>,
        touched := (touched f)\<lparr>is_dir_entry_dirty := True\<rparr>\<rparr>)"

text \<open>\<open>get_cluster_offset\<close>, and the remainder of the cursor used by \<open>get_current_sector_id\<close>\<close>

definition get_cluster_offset :: "('d, u32, 'e) file_op" where
  "get_cluster_offset =
     andthen the_file (\<lambda>f.
     andthen cluster_length (\<lambda>cl.
     andthen (assert_that (cl \<noteq> 0)) (\<lambda>_.
     ret (ucast (cursor f mod ucast cl)))))"

definition get_current_sector_id :: "('d, 'e) platform \<Rightarrow> ('d, u32, 'e) file_op" where
  "get_current_sector_id P =
     andthen the_file (\<lambda>f.
     andthen get_cluster_offset (\<lambda>cluster_offset_bytes.
     andthen (gets (\<lambda>(f, s). fs_details s)) (\<lambda>fsd.
     andthen (get_heap_sector_id fsd (current_cluster f)) (\<lambda>start_sector_id.
     andthen (assert_that ((of_nat (SIZE P) :: u32) \<noteq> 0)) (\<lambda>_.
     ret (start_sector_id + cluster_offset_bytes div of_nat (SIZE P)))))))"

definition num_clusters :: "('d, u32, 'e) file_op" where
  "num_clusters =
     andthen the_file (\<lambda>f.
     andthen cluster_length (\<lambda>cl.
     andthen (assert_that (cl \<noteq> 0)) (\<lambda>_.
     ret (ucast (div_ceil (data_length (details f)) (ucast cl))))))"

definition update_remaining_bytes_in_cluster :: "('d, unit, 'e) file_op" where
  "update_remaining_bytes_in_cluster =
     andthen cluster_length (\<lambda>cl.
     andthen (assert_that (cl \<noteq> 0)) (\<lambda>_.
     upd_file (\<lambda>f. f\<lparr>remaining_bytes_in_cluster := cl - ucast (cursor f mod ucast cl)\<rparr>)))"

definition next_cursor_id :: "('d, 'e) platform \<Rightarrow> ('d, u32, 'e) file_op" where
  "next_cursor_id P =
     andthen the_file (\<lambda>f. case chain f of
       StoredEmpty \<Rightarrow> fail EndOfFatChain
     | StoredContiguous first n_clusters \<Rightarrow>
         (let cursor_id = current_cluster f + 1 in
          if first \<le> cursor_id \<and> cursor_id < first + n_clusters then ret cursor_id
          else fail EndOfFatChain)
     | StoredFat _ _ _ \<Rightarrow>
         andthen (in_fs (on_fat (next_cluster_in_fat_chain P (current_cluster f)))) (\<lambda>r. case r of
           Some cluster_id \<Rightarrow> ret cluster_id
         | None \<Rightarrow> fail EndOfFatChain))"

definition next_cluster_if_required :: "('d, 'e) platform \<Rightarrow> ('d, unit, 'e) file_op" where
  "next_cluster_if_required P =
     andthen the_file (\<lambda>f.
     if remaining_bytes_in_cluster f = 0
     then andthen (next_cursor_id P) (\<lambda>c.
          andthen cluster_length (\<lambda>cl.
          upd_file (\<lambda>f. f\<lparr>current_cluster := c, remaining_bytes_in_cluster := cl\<rparr>)))
     else ret ())"

section \<open>Reading\<close>

text \<open>\<open>a.saturating_sub(b)\<close>\<close>

definition saturating_sub :: "u64 \<Rightarrow> u64 \<Rightarrow> u64" where
  "saturating_sub a b = (if b \<le> a then a - b else 0)"

text \<open>
  One round of the loop of \<open>read\<close>: the bytes are copied into the buffer at \<open>bytes_read\<close>. The loop ends when the
  buffer is full or the file ends; it takes fuel because a round may copy nothing.
\<close>

definition read_round :: "('d, 'e) platform \<Rightarrow> u8 list \<Rightarrow> nat \<Rightarrow> ('d, u8 list \<times> nat, 'e) file_op" where
  "read_round P buf bytes_read =
     andthen the_file (\<lambda>f0.
     let file_remainder = saturating_sub (data_length (details f0)) (cursor f0);
         valid_remainder = saturating_sub (valid_data_length (details f0)) (cursor f0) in
     andthen (next_cluster_if_required P) (\<lambda>_.
     andthen the_file (\<lambda>f.
     andthen get_cluster_offset (\<lambda>cluster_offset.
     andthen (gets (\<lambda>(f, s). fs_details s)) (\<lambda>fsd.
     andthen (get_heap_sector_id fsd (current_cluster f)) (\<lambda>start_sector_id.
     andthen (assert_that ((of_nat (SIZE P) :: u32) \<noteq> 0)) (\<lambda>_.
     let sec = start_sector_id + cluster_offset div of_nat (SIZE P);
         sector_offset = unat cluster_offset mod SIZE P;
         remainder_in_sector = SIZE P - sector_offset;
         chunk_bytes = as_usize P (min (min (of_nat remainder_in_sector) file_remainder)
           (of_nat (length buf - bytes_read))) in
     andthen (if valid_remainder > 0
       then let n = min chunk_bytes (as_usize P valid_remainder) in
         andthen (in_fs (on_data (read_sector P sec))) (\<lambda>slot.
         case slice sector_offset (sector_offset + n) slot of
           None \<Rightarrow> panic
         | Some bytes \<Rightarrow>
           (case splice bytes_read bytes buf of None \<Rightarrow> panic | Some buf' \<Rightarrow> ret (buf', n)))
       else (case splice bytes_read (replicate chunk_bytes 0) buf of
           None \<Rightarrow> panic
         | Some buf' \<Rightarrow> ret (buf', chunk_bytes))) (\<lambda>(buf', n).
     andthen (upd_file (move_file_cursor n)) (\<lambda>_.
     ret (buf', bytes_read + n))))))))))"

fun read_loop :: "('d, 'e) platform \<Rightarrow> nat \<Rightarrow> u8 list \<Rightarrow> nat \<Rightarrow> ('d, u8 list \<times> nat, 'e) file_op" where
  "read_loop P 0 buf bytes_read = (\<lambda>st. (OutOfFuel, st))"
| "read_loop P (Suc fuel) buf bytes_read =
     andthen (read_round P buf bytes_read) (\<lambda>(buf', n).
     andthen the_file (\<lambda>f.
     if n = length buf' \<or> eof f then ret (buf', n) else read_loop P fuel buf' n))"

text \<open>\<open>read\<close>: the number of bytes, \<open>None\<close> at the end of the file, and the buffer.\<close>

definition file_read :: "('d, 'e) platform \<Rightarrow> u8 list \<Rightarrow> ('d, nat option \<times> u8 list, 'e) file_op" where
  "file_read P buf =
     andthen (in_fs (mount P)) (\<lambda>_.
     andthen the_file (\<lambda>f.
     if \<not> opt_read (open_options f) then fail ReadNotEnabled
     else if eof f then ret (None, buf)
     else if buf = [] then ret (Some 0, buf)
     else andthen (read_loop P (length buf) buf 0) (\<lambda>(buf', n). ret (Some n, buf'))))"

fun read_to_end_loop :: "('d, 'e) platform \<Rightarrow> nat \<Rightarrow> u8 list \<Rightarrow> nat \<Rightarrow> ('d, u8 list \<times> nat, 'e) file_op" where
  "read_to_end_loop P 0 buf filled = (\<lambda>st. (OutOfFuel, st))"
| "read_to_end_loop P (Suc fuel) buf filled =
     (if filled < length buf
      then andthen (file_read P (drop filled buf)) (\<lambda>(r, tail). case r of
          Some n \<Rightarrow> if n > 0 then read_to_end_loop P fuel (take filled buf @ tail) (filled + n)
                    else ret (take filled buf @ tail, filled)
        | None \<Rightarrow> ret (take filled buf @ tail, filled))
      else ret (buf, filled))"

definition read_to_end_inner :: "('d, 'e) platform \<Rightarrow> u8 list \<Rightarrow> ('d, u8 list \<times> nat, 'e) file_op" where
  "read_to_end_inner P buf =
     andthen the_file (\<lambda>f.
     if \<not> opt_read (open_options f) then fail ReadNotEnabled
     else read_to_end_loop P (Suc (length buf)) buf 0)"

definition read_to_end :: "('d, 'e) platform \<Rightarrow> u8 list \<Rightarrow> ('d, u8 list \<times> nat, 'e) file_op" where
  "read_to_end P buf =
     andthen (in_fs (mount P)) (\<lambda>_.
     andthen the_file (\<lambda>f.
     let len = as_usize P (saturating_sub (data_length (details f)) (cursor f)) in
     andthen (read_to_end_inner P (replicate len 0)) (\<lambda>(tail, filled).
     ret (buf @ take filled tail, filled))))"

definition read_to_string :: "('d, 'e) platform \<Rightarrow> ('d, rstr, 'e) file_op" where
  "read_to_string P =
     andthen (in_fs (mount P)) (\<lambda>_.
     andthen the_file (\<lambda>f.
     let len = as_usize P (saturating_sub (valid_data_length (details f)) (cursor f)) in
     andthen (read_to_end_inner P (replicate len 0)) (\<lambda>(buf, filled).
     case from_utf8 (take filled buf) of
       Some s \<Rightarrow> ret s
     | None \<Rightarrow> fail Utf8Error)))"

section \<open>Growing the chain\<close>

definition should_convert_to_fat_chain :: "open_file \<Rightarrow> allocated_run \<Rightarrow> bool" where
  "should_convert_to_fat_chain f run = (case chain f of
     StoredEmpty \<Rightarrow> False
   | StoredContiguous first len \<Rightarrow>
       contains (flags (details f)) NoFatChain \<and> first + len \<noteq> run_first_cluster run
   | StoredFat _ _ _ \<Rightarrow> False)"

text \<open>\<open>for cluster_id in first..tail { fat.set(cluster_id, cluster_id + 1) }\<close>\<close>

definition convert_file_to_fat_chain_if_required :: "('d, 'e) platform \<Rightarrow> ('d, unit, 'e) file_op" where
  "convert_file_to_fat_chain_if_required P =
     andthen the_file (\<lambda>f.
     if contains (flags (details f)) NoFatChain
     then andthen (upd_file (\<lambda>f. f\<lparr>details := (details f)\<lparr>flags := flags (details f) AND NOT NoFatChain\<rparr>,
            touched := (touched f)\<lparr>is_dir_entry_dirty := True\<rparr>\<rparr>)) (\<lambda>_.
          case chain f of
            StoredContiguous first n_clusters \<Rightarrow>
              (let tail = first + n_clusters - 1 in
               in_fst (for_each (map of_nat [unat first..<unat tail])
                 (\<lambda>cluster_id. on_fat_t (fat_set P cluster_id (cluster_id + 1)))))
          | _ \<Rightarrow> ret ())
     else ret ())"

text \<open>The loop of \<open>update_chain\<close> that links the clusters of a run, and its last entry.\<close>

fun link_run :: "('d, 'e) platform \<Rightarrow> u32 list \<Rightarrow> u32 option \<Rightarrow> ('d, unit, 'e) fst_op" where
  "link_run P [] prev_cluster = ret ()"
| "link_run P (next_cluster # cs) prev_cluster =
     andthen (case prev_cluster of
         Some prev \<Rightarrow> on_fat_t (fat_set P prev next_cluster)
       | None \<Rightarrow> ret ()) (\<lambda>_.
     link_run P cs (Some next_cluster))"

definition run_clusters :: "allocated_run \<Rightarrow> u32 list" where
  "run_clusters run =
     map of_nat [unat (run_first_cluster run)..<unat (run_first_cluster run + run_cluster_count run)]"

definition update_chain :: "('d, 'e) platform \<Rightarrow> allocated_run \<Rightarrow> ('d, unit, 'e) file_op" where
  "update_chain P run =
     andthen the_file (\<lambda>f0.
     andthen (if should_convert_to_fat_chain f0 run then convert_file_to_fat_chain_if_required P else ret ()) (\<lambda>_.
     andthen the_file (\<lambda>f.
     let has_fat_chain = (\<not> contains (flags (details f)) NoFatChain);
         last_of_run = run_first_cluster run + run_cluster_count run - 1 in
     andthen (if has_fat_chain
       then andthen (in_fst (link_run P (run_clusters run) (case chain f of
                StoredEmpty \<Rightarrow> None
              | StoredContiguous first n_clusters \<Rightarrow> Some (first + n_clusters - 1)
              | StoredFat _ last_cluster _ \<Rightarrow> Some last_cluster))) (\<lambda>_.
            in_fst (on_fat_t (fat_set P last_of_run END_OF_CHAIN)))
       else ret ()) (\<lambda>_.
     andthen cluster_length (\<lambda>cl.
     upd_file (\<lambda>f. case chain f of
         StoredEmpty \<Rightarrow> f\<lparr>chain := StoredContiguous (run_first_cluster run) (run_cluster_count run),
           current_cluster := run_first_cluster run, remaining_bytes_in_cluster := cl\<rparr>
       | StoredContiguous first n_clusters \<Rightarrow>
           if has_fat_chain
           then f\<lparr>chain := StoredFat first last_of_run (n_clusters + run_cluster_count run)\<rparr>
           else f\<lparr>chain := StoredContiguous first (n_clusters + run_cluster_count run)\<rparr>
       | StoredFat first _ n_clusters \<Rightarrow>
           f\<lparr>chain := StoredFat first last_of_run (n_clusters + run_cluster_count run)\<rparr>))))))"

text \<open>
  \<open>allocate_clusters_for\<close>: runs are taken until there are enough clusters. Every run has at least one, so
  \<open>cluster_count\<close> rounds are enough.
\<close>

fun allocate_loop :: "('d, 'e) platform \<Rightarrow> nat \<Rightarrow> u32 \<Rightarrow> ('d, unit, 'e) file_op" where
  "allocate_loop P 0 n_clusters = (\<lambda>st. (OutOfFuel, st))"
| "allocate_loop P (Suc fuel) n_clusters =
     andthen the_file (\<lambda>f.
     andthen (in_fst (on_alloc_t (allocate P (chain f) n_clusters))) (\<lambda>run.
     andthen (update_chain P run) (\<lambda>_.
     if n_clusters - run_cluster_count run = 0 then ret ()
     else allocate_loop P fuel (n_clusters - run_cluster_count run))))"

definition allocate_clusters_for :: "('d, 'e) platform \<Rightarrow> nat \<Rightarrow> ('d, unit, 'e) file_op" where
  "allocate_clusters_for P num_bytes =
     andthen cluster_length (\<lambda>cl.
     andthen (assert_that (cl \<noteq> 0)) (\<lambda>_.
     let n = (num_bytes + unat cl - 1) div unat cl in
     allocate_loop P (Suc n) (of_nat n)))"

section \<open>Writing\<close>

definition write_partial_sector :: "('d, 'e) platform \<Rightarrow> u8 list \<Rightarrow> ('d, nat, 'e) file_op" where
  "write_partial_sector P buf =
     (if buf = [] then ret 0
      else andthen the_file (\<lambda>f.
      andthen (assert_that ((of_nat (SIZE P) :: u64) \<noteq> 0)) (\<lambda>_.
      let start_index = unat (cursor f mod of_nat (SIZE P));
          end_index = min (SIZE P) (start_index + length buf) in
      andthen (get_current_sector_id P) (\<lambda>sec.
      if 0 < start_index \<or> end_index < SIZE P
      then let len = end_index - start_index in
        andthen (in_fs (on_data (update_sector P sec (splice start_index (take len buf))))) (\<lambda>_.
        andthen (in_fst (touch TkData sec)) (\<lambda>_.
        andthen (upd_file (move_file_cursor len)) (\<lambda>_.
        ret len)))
      else ret 0))))"

definition write_block :: "('d, 'e) platform \<Rightarrow> block \<Rightarrow> ('d, unit, 'e) file_op" where
  "write_block P b =
     andthen (next_cluster_if_required P) (\<lambda>_.
     andthen (get_current_sector_id P) (\<lambda>sec.
     andthen (in_fs (on_data (cache_write P sec b))) (\<lambda>_.
     upd_file (move_file_cursor (length b)))))"

definition file_write :: "('d, 'e) platform \<Rightarrow> u8 list \<Rightarrow> ('d, unit, 'e) file_op" where
  "file_write P buf =
     (if buf = [] then ret ()
      else andthen (in_fs (mount P)) (\<lambda>_.
      andthen the_file (\<lambda>f.
      if \<not> opt_write (open_options f) then fail WriteNotEnabled
      else andthen cluster_length (\<lambda>cl32.
      andthen (assert_that (cl32 \<noteq> 0)) (\<lambda>_.
      let cl = ucast cl32 :: u64;
          capacity = div_ceil (data_length (details f)) cl * cl;
          end_of_write = cursor f + of_nat (length buf) in
      andthen (if end_of_write > capacity
        then allocate_clusters_for P (as_usize P (end_of_write - capacity)) else ret ()) (\<lambda>_.
      andthen (upd_file (update_data_length (length buf))) (\<lambda>_.
      andthen (next_cluster_if_required P) (\<lambda>_.
      andthen (write_partial_sector P buf) (\<lambda>len.
      if len < length buf
      then let rest = drop len buf; blocks = as_chunks (SIZE P) rest;
               remainder = drop (SIZE P * length blocks) rest in
        andthen (for_each blocks (write_block P)) (\<lambda>_.
        andthen (write_partial_sector P remainder) (\<lambda>_. ret ()))
      else ret ())))))))))"

section \<open>Seeking\<close>

definition file_seek :: "('d, 'e) platform \<Rightarrow> u64 \<Rightarrow> ('d, unit, 'e) file_op" where
  "file_seek P cur =
     andthen (in_fs (mount P)) (\<lambda>_.
     andthen the_file (\<lambda>f.
     if valid_data_length (details f) < cur then fail SeekOutOfRange
     else andthen (upd_file (\<lambda>f. f\<lparr>cursor := cur\<rparr>)) (\<lambda>_.
     andthen cluster_length (\<lambda>cl.
     andthen (assert_that (cl \<noteq> 0)) (\<lambda>_.
     let num = ucast (cur div ucast cl) :: u32 in
     case chain f of
       StoredEmpty \<Rightarrow>
         upd_file (\<lambda>f. f\<lparr>current_cluster := first_cluster (details f), remaining_bytes_in_cluster := 0\<rparr>)
     | StoredContiguous first _ \<Rightarrow>
         andthen (upd_file (\<lambda>f. f\<lparr>current_cluster := first + num\<rparr>)) (\<lambda>_.
         update_remaining_bytes_in_cluster)
     | StoredFat first _ _ \<Rightarrow>
         andthen (in_fs (walk_fat P (unat num) first)) (\<lambda>c.
         andthen (upd_file (\<lambda>f. f\<lparr>current_cluster := c\<rparr>)) (\<lambda>_.
         update_remaining_bytes_in_cluster)))))))"

section \<open>Copying\<close>

fun copy_loop :: "('d, 'e) platform \<Rightarrow> nat \<Rightarrow> u32 \<Rightarrow> block \<Rightarrow> ('d, unit, 'e) file_op" where
  "copy_loop P 0 sec buf = (\<lambda>st. (OutOfFuel, st))"
| "copy_loop P (Suc fuel) sec buf =
     andthen (file_read P buf) (\<lambda>(r, buf'). case r of
       None \<Rightarrow> ret ()
     | Some _ \<Rightarrow>
         andthen (in_fs (on_data (cache_write P sec buf'))) (\<lambda>_.
         copy_loop P fuel (sec + 1) buf'))"

definition copy_to :: "('d, 'e) platform \<Rightarrow> nat \<Rightarrow> rstr \<Rightarrow> ('d, unit, 'e) file_op" where
  "copy_to P fuel to_path = (case split_path to_path of (dir_path, nm) \<Rightarrow>
     andthen num_clusters (\<lambda>n.
     andthen (in_fs (on_alloc (find_free_clusters P None n LongestRun))) (\<lambda>run.
     if run_cluster_count run \<noteq> n then fail DiskFull
     else andthen (in_fst (get_or_create_directory P fuel dir_path)) (\<lambda>directory_cluster_id.
     andthen the_file (\<lambda>f.
     andthen (in_fst (create_file_dir_entry_at P fuel nm directory_cluster_id (run_first_cluster run)
       (attributes (details f)) default_flags (valid_data_length (details f)) (data_length (details f)))) (\<lambda>_.
     andthen (in_fst (on_alloc_t (mark_allocated P run True))) (\<lambda>_.
     andthen (gets (\<lambda>(f, s). fs_details s)) (\<lambda>fsd.
     andthen (get_heap_sector_id fsd (run_first_cluster run)) (\<lambda>sec.
     copy_loop P fuel sec (replicate (SIZE P) 0))))))))))"

end
