(* ===== verification/File_System.thy ===== *)
theory File_System
  imports File
begin

text \<open>
  The public operations of \<open>FileSystem\<close> (\<open>file_system.rs\<close>). The fuel bounds the walks over directories.
\<close>

definition fs_open :: "('d, 'e) platform \<Rightarrow> nat \<Rightarrow> rstr \<Rightarrow> open_options \<Rightarrow> ('d, open_file, 'e) fs_op" where
  "fs_open P fuel path opts =
     andthen (mount P) (\<lambda>_.
     andthen (\<lambda>s. case find_file_or_directory P fuel path (Some Archive) s of
         (Ok fd, s') \<Rightarrow>
           if opt_create_new opts then (Err AlreadyExists, s')
           else if opt_truncate opts then truncate_file P fd 0 s'
           else (Ok fd, s')
       | (Err e, s') \<Rightarrow>
           if e = FileNotFound \<and> (opt_create opts \<or> opt_create_new opts) then create_file P fuel path s'
           else (Err e, s')
       | (Panic, s') \<Rightarrow> (Panic, s')
       | (OutOfFuel, s') \<Rightarrow> (OutOfFuel, s')) (\<lambda>fd.
     andthen (get_stored_chain P fd) (\<lambda>chn.
     let cluster_id = (if opt_append opts
           then case chn of
               StoredEmpty \<Rightarrow> first_cluster fd
             | StoredContiguous first n \<Rightarrow> first + n - 1
             | StoredFat _ last_cluster _ \<Rightarrow> last_cluster
           else first_cluster fd) in
     andthen (gets (\<lambda>s. fsd_cluster_length (fs_details s))) (\<lambda>cl.
     file_new fd cluster_id cl opts chn))))"

text \<open>Running an operation on a file owned by the caller: the file itself is dropped afterwards.\<close>

definition with_file :: "open_file \<Rightarrow> ('d, 'a, 'e) file_op \<Rightarrow> ('d, 'a, 'e) fs_op" where
  [monad_simps]: "with_file f m s = (case m (f, s) of (r, (_, s')) \<Rightarrow> (r, s'))"

definition fs_exists :: "('d, 'e) platform \<Rightarrow> nat \<Rightarrow> rstr \<Rightarrow> ('d, bool, 'e) fs_op" where
  "fs_exists P fuel path =
     andthen (mount P) (\<lambda>_ s. case find_file_or_directory P fuel path None s of
         (Ok _, s') \<Rightarrow> (Ok True, s')
       | (Err e, s') \<Rightarrow> if e = FileNotFound \<or> e = DirectoryNotFound then (Ok False, s') else (Err e, s')
       | (Panic, s') \<Rightarrow> (Panic, s')
       | (OutOfFuel, s') \<Rightarrow> (OutOfFuel, s'))"

definition read_options :: open_options where
  "read_options = options_read True open_options_new"

definition write_options :: open_options where
  "write_options = options_write True (options_truncate True (options_create True open_options_new))"

definition fs_read :: "('d, 'e) platform \<Rightarrow> nat \<Rightarrow> rstr \<Rightarrow> ('d, u8 list, 'e) fs_op" where
  "fs_read P fuel path =
     andthen (mount P) (\<lambda>_.
     andthen (fs_open P fuel path read_options) (\<lambda>f.
     with_file f (andthen (read_to_end P []) (\<lambda>(buf, _).
       andthen (file_close P) (\<lambda>_. ret buf)))))"

definition fs_read_to_string :: "('d, 'e) platform \<Rightarrow> nat \<Rightarrow> rstr \<Rightarrow> ('d, rstr, 'e) fs_op" where
  "fs_read_to_string P fuel path =
     andthen (mount P) (\<lambda>_.
     andthen (fs_open P fuel path read_options) (\<lambda>f.
     with_file f (andthen (read_to_string P) (\<lambda>s.
       andthen (file_close P) (\<lambda>_. ret s)))))"

definition read_dir :: "('d, 'e) platform \<Rightarrow> nat \<Rightarrow> rstr \<Rightarrow> ('d, dir_chain, 'e) fs_op" where
  "read_dir P fuel path = andthen (mount P) (\<lambda>_. directory_list P fuel path)"

definition remove_file :: "('d, 'e) platform \<Rightarrow> nat \<Rightarrow> rstr \<Rightarrow> ('d, unit, 'e) fs_op" where
  "remove_file P fuel path =
     andthen (mount P) (\<lambda>_.
     andthen (find_file_inner P fuel path (Some Archive)) (\<lambda>fd.
     delete_inner P fuel fd))"

definition create_directory :: "('d, 'e) platform \<Rightarrow> nat \<Rightarrow> rstr \<Rightarrow> ('d, unit, 'e) fs_op" where
  "create_directory P fuel path =
     andthen (mount P) (\<lambda>_.
     with_touched (
       andthen (get_or_create_directory P fuel path) (\<lambda>_.
       touched_flush P)))"

definition fs_copy :: "('d, 'e) platform \<Rightarrow> nat \<Rightarrow> rstr \<Rightarrow> rstr \<Rightarrow> ('d, unit, 'e) fs_op" where
  "fs_copy P fuel from_path to_path =
     andthen (mount P) (\<lambda>_.
     if from_path = to_path then fail (InvalidFileName ''cannot copy file to the same exact location'')
     else andthen (fs_open P fuel from_path read_options) (\<lambda>f.
     with_file f (andthen (copy_to P fuel to_path) (\<lambda>_. file_close P))))"

definition fs_rename :: "('d, 'e) platform \<Rightarrow> nat \<Rightarrow> rstr \<Rightarrow> rstr \<Rightarrow> ('d, unit, 'e) fs_op" where
  "fs_rename P fuel from_path to_path =
     andthen (mount P) (\<lambda>_.
     andthen (find_file_inner P fuel from_path None) (\<lambda>fd.
     andthen (\<lambda>s. case find_file_inner P fuel to_path None s of
         (Ok _, s') \<Rightarrow> (Err AlreadyExists, s')
       | (Err _, s') \<Rightarrow> (Ok (), s')
       | (Panic, s') \<Rightarrow> (Panic, s')
       | (OutOfFuel, s') \<Rightarrow> (OutOfFuel, s')) (\<lambda>_.
     case split_path to_path of (dir_path, nm) \<Rightarrow>
     with_touched (
       andthen (get_or_create_directory P fuel dir_path) (\<lambda>directory_cluster_id.
       andthen (create_file_dir_entry_at P fuel nm directory_cluster_id (first_cluster fd) (attributes fd)
         (flags fd) (valid_data_length fd) (data_length fd)) (\<lambda>_.
       andthen (mark_directory_entry_set_unused P (fd_location fd) (unat (fd_secondary_count fd) + 1)) (\<lambda>_.
       touched_flush P)))))))"

definition remove_dir :: "('d, 'e) platform \<Rightarrow> nat \<Rightarrow> rstr \<Rightarrow> ('d, unit, 'e) fs_op" where
  "remove_dir P fuel path =
     andthen (mount P) (\<lambda>_.
     andthen (find_file_inner P fuel path (Some Directory)) (\<lambda>fd.
     delete_inner P fuel fd))"

definition fs_write :: "('d, 'e) platform \<Rightarrow> nat \<Rightarrow> rstr \<Rightarrow> u8 list \<Rightarrow> ('d, unit, 'e) fs_op" where
  "fs_write P fuel path contents =
     andthen (mount P) (\<lambda>_.
     andthen (fs_open P fuel path write_options) (\<lambda>f.
     with_file f (andthen (file_write P contents) (\<lambda>_. file_close P))))"

end
