(* ===== verification/Handles.thy ===== *)
theory Handles
  imports Block_Device
begin

text \<open>
  The errors of the shared file system and its tables of handles (\<open>Error\<close>, \<open>From<ExFatError>\<close> and \<open>Handles\<close>
  of \<open>fs.rs\<close>). The \<open>BTreeMap\<close> of a table is an association list kept in ascending order of its keys.
\<close>

section \<open>Errors\<close>

datatype fs_error =
    FsIo u8
  | NoCard
  | FsDirectoryEntry directory_entry_error
  | FsNotExFat boot_sector_error
  | FsEndOfFatChain
  | FsInvalidUtf16String string
  | FsInvalidFileName string
  | FsInvalidFileSystem string
  | FsFileNotFound
  | FsDirectoryNotFound
  | FsUtf8Error
  | FsDiskFull
  | FsInvalidClusterId u32
  | FsInvalidSectorId u32
  | FsDirectoryNotEmpty
  | FsWriteNotEnabled
  | FsReadNotEnabled
  | FsAlreadyExists
  | FsSeekOutOfRange
  | FsInvalidAllocation bool bool nat u32
  | FsInvalidOptions
  | UnexpectedResponse
  | ExhaustedFileHandles
  | InvalidFileHandle
  | FsUnexpected string
  | FsFileNameBufferTooSmall
  | FsDirectoryFull

text \<open>The trait \<open>BlockDeviceError\<close>, implemented by the user for the errors of the device\<close>

record 'e device_error =
  to_error_code :: "'e \<Rightarrow> u8"
  no_card :: "'e \<Rightarrow> bool"

fun error_from :: "'e device_error \<Rightarrow> 'e exfat_error \<Rightarrow> fs_error" where
  "error_from E (Io e) = (if no_card E e then NoCard else FsIo (to_error_code E e))"
| "error_from E AlreadyExists = FsAlreadyExists"
| "error_from E (DirectoryEntry e) = FsDirectoryEntry e"
| "error_from E DirectoryNotEmpty = FsDirectoryNotEmpty"
| "error_from E DirectoryNotFound = FsDirectoryNotFound"
| "error_from E DiskFull = FsDiskFull"
| "error_from E EndOfFatChain = FsEndOfFatChain"
| "error_from E FileNotFound = FsFileNotFound"
| "error_from E (InvalidAllocation lba index allocated allocated_new) =
     FsInvalidAllocation allocated allocated_new index lba"
| "error_from E (InvalidClusterId c) = FsInvalidClusterId c"
| "error_from E (InvalidFileName reason) = FsInvalidFileName reason"
| "error_from E (InvalidFileSystem reason) = FsInvalidFileSystem reason"
| "error_from E InvalidOptions = FsInvalidOptions"
| "error_from E (InvalidSectorId s) = FsInvalidSectorId s"
| "error_from E (InvalidUtf16String reason) = FsInvalidUtf16String reason"
| "error_from E (NotExFat e) = FsNotExFat e"
| "error_from E ReadNotEnabled = FsReadNotEnabled"
| "error_from E SeekOutOfRange = FsSeekOutOfRange"
| "error_from E Utf8Error = FsUtf8Error"
| "error_from E WriteNotEnabled = FsWriteNotEnabled"
| "error_from E (Unexpected reason) = FsUnexpected reason"
| "error_from E FileNameBufferTooSmall = FsFileNameBufferTooSmall"
| "error_from E DirectoryFull = FsDirectoryFull"

section \<open>Handles\<close>

record 'a handles =
  hd_map :: "(u32 \<times> 'a) list"
  next_handle :: u32

definition handles_new :: "'a handles" where
  "handles_new = \<lparr>hd_map = [], next_handle = 0\<rparr>"

definition handles_clear :: "'a handles \<Rightarrow> 'a handles" where
  "handles_clear h = h\<lparr>hd_map := []\<rparr>"

text \<open>Insertion into the \<open>BTreeMap\<close> at a key that is absent.\<close>

definition btree_insert :: "u32 \<Rightarrow> 'a \<Rightarrow> (u32 \<times> 'a) list \<Rightarrow> (u32 \<times> 'a) list" where
  "btree_insert k x m = takeWhile (\<lambda>p. fst p < k) m @ (k, x) # dropWhile (\<lambda>p. fst p < k) m"

text \<open>\<open>add\<close>: handles are tried in sequence, wrapping, until a vacant one is found.\<close>

function add_loop :: "'a \<Rightarrow> u32 \<Rightarrow> 'a handles \<Rightarrow> (u32, fs_error) outcome \<times> 'a handles" where
  "add_loop item counter h =
     (let handle = next_handle h + 1; h' = h\<lparr>next_handle := handle\<rparr> in
      case map_of (hd_map h') handle of
        None \<Rightarrow> (Ok handle, h'\<lparr>hd_map := btree_insert handle item (hd_map h')\<rparr>)
      | Some _ \<Rightarrow>
          if counter + 1 = - 1 then (Err ExhaustedFileHandles, h')
          else add_loop item (counter + 1) h')"
  by pat_completeness auto

text \<open>The rounds left: the loop stops when the counter reaches \<open>u32::MAX\<close>.\<close>

definition rounds_left :: "u32 \<Rightarrow> nat" where
  "rounds_left counter = unat (- 2 - counter)"

lemma rounds_left_last: "counter + 1 = - 1 \<longleftrightarrow> rounds_left counter = 0"
proof -
  have "counter + 1 = - 1 \<longleftrightarrow> counter + 1 - - 1 = 0" by (rule eq_iff_diff_eq_0)
  also have "counter + 1 - - 1 = - (- 2 - counter)" by simp
  also have "\<dots> = 0 \<longleftrightarrow> - 2 - counter = 0" by (rule neg_equal_0_iff_equal)
  finally have "counter + 1 = - 1 \<longleftrightarrow> - 2 - counter = 0" .
  then show ?thesis by (simp only: rounds_left_def unat_0_iff)
qed

lemma rounds_left_Suc:
  assumes "counter + 1 \<noteq> - 1"
  shows "rounds_left counter = Suc (rounds_left (counter + 1))"
proof -
  have "- 2 - (counter + 1) = - 2 - counter - 1" by simp
  moreover have n: "- 2 - counter \<noteq> 0" using assms unfolding rounds_left_last rounds_left_def unat_0_iff .
  moreover have "0 < unat (- 2 - counter)" using n by (simp only: unat_gt_0 not_False_eq_True)
  ultimately show ?thesis
    unfolding rounds_left_def using unat_minus_one [OF n] by simp
qed

termination add_loop
proof (relation "measure (\<lambda>(_, counter, _). rounds_left counter)", goal_cases)
  case (2 item counter h)
  then show ?case unfolding in_measure prod.case using rounds_left_Suc [of counter] by linarith
qed (rule wf_measure)

declare add_loop.simps [simp del]

definition handles_add :: "'a \<Rightarrow> ('a handles, u32, fs_error) op" where
  "handles_add item = add_loop item 0"

definition handles_remove :: "u32 \<Rightarrow> ('a handles, 'a, fs_error) op" where
  "handles_remove handle h = (case map_of (hd_map h) handle of
     Some x \<Rightarrow> (Ok x, h\<lparr>hd_map := filter (\<lambda>p. fst p \<noteq> handle) (hd_map h)\<rparr>)
   | None \<Rightarrow> (Err InvalidFileHandle, h))"

text \<open>\<open>get\<close> lends the item; what the caller makes of it is stored by \<open>handles_put\<close>.\<close>

definition handles_get :: "u32 \<Rightarrow> ('a handles, 'a, fs_error) op" where
  "handles_get handle h = (case map_of (hd_map h) handle of
     Some x \<Rightarrow> (Ok x, h) | None \<Rightarrow> (Err InvalidFileHandle, h))"

definition handles_put :: "u32 \<Rightarrow> 'a \<Rightarrow> 'a handles \<Rightarrow> 'a handles" where
  "handles_put handle x h = h\<lparr>hd_map := map (\<lambda>(k, y). (k, if k = handle then x else y)) (hd_map h)\<rparr>"

definition take_any :: "'a handles \<Rightarrow> 'a option \<times> 'a handles" where
  "take_any h = (case hd_map h of
     [] \<Rightarrow> (None, h)
   | (_, item) # m \<Rightarrow> (Some item, h\<lparr>hd_map := m\<rparr>))"

section \<open>What a table promises\<close>

text \<open>The files and directories of the manager are reached through this interface.\<close>

locale handle_table =
  fixes lookup :: "'t \<Rightarrow> u32 \<Rightarrow> 'a option"
    and add :: "'a \<Rightarrow> ('t, u32, fs_error) op"
    and remove :: "u32 \<Rightarrow> ('t, 'a, fs_error) op"
    and valid :: "'t \<Rightarrow> bool"
  assumes add_ok: "valid t \<Longrightarrow> add x t = (Ok k, t') \<Longrightarrow>
      valid t' \<and> lookup t k = None \<and> lookup t' = (lookup t)(k := Some x)"
    and remove_ok: "valid t \<Longrightarrow> lookup t k = Some x \<Longrightarrow>
      \<exists>t'. remove k t = (Ok x, t') \<and> valid t' \<and> lookup t' = (lookup t)(k := None)"
    and remove_absent: "lookup t k = None \<Longrightarrow> remove k t = (Err InvalidFileHandle, t)"
begin

text \<open>A handle is good for one close: the second is refused and changes nothing.\<close>

lemma remove_twice:
  assumes "valid t" and "remove k t = (Ok x, t')"
  shows "remove k t' = (Err InvalidFileHandle, t')"
proof -
  have "lookup t k \<noteq> None" using assms(2) remove_absent by force
  then obtain y where "lookup t k = Some y" by blast
  from remove_ok [OF assms(1) this] assms(2) have "lookup t' k = None" by auto
  then show ?thesis by (rule remove_absent)
qed

text \<open>Opening and closing give back what was there before, and leave the other handles alone.\<close>

lemma add_remove:
  assumes "valid t" and "add x t = (Ok k, t')"
  shows "\<exists>t''. remove k t' = (Ok x, t'') \<and> valid t'' \<and> lookup t'' = lookup t"
proof -
  have a: "valid t'" "lookup t k = None" "lookup t' = (lookup t)(k := Some x)" using add_ok [OF assms] by auto
  then obtain t'' where "remove k t' = (Ok x, t'')" "valid t''" "lookup t'' = (lookup t')(k := None)"
    using remove_ok [OF a(1), of k x] by auto
  moreover have "(lookup t)(k := Some x, k := None) = lookup t" using a(2) by (simp add: fun_upd_idem)
  ultimately show ?thesis using a(3) by auto
qed

end

definition handles_inv :: "'a handles \<Rightarrow> bool" where
  "handles_inv h \<longleftrightarrow> sorted_wrt (<) (map fst (hd_map h))"

lemma handles_inv_new [simp]: "handles_inv handles_new" "handles_inv (handles_clear h)"
  by (simp_all add: handles_inv_def handles_new_def handles_clear_def)

lemma handles_inv_distinct: "handles_inv h \<Longrightarrow> distinct (map fst (hd_map h))"
  by (simp add: handles_inv_def strict_sorted_iff)

lemma btree_split: "m = takeWhile (\<lambda>p. fst p < k) m @ dropWhile (\<lambda>p. fst p < k) m"
  by simp

lemma btree_insert_keys: "set (map fst (btree_insert k x m)) = insert k (set (map fst m))"
proof -
  have "set m = set (takeWhile (\<lambda>p. fst p < k) m) \<union> set (dropWhile (\<lambda>p. fst p < k) m)"
    by (metis btree_split set_append)
  then show ?thesis by (auto simp: btree_insert_def)
qed

lemma btree_insert_sorted:
  assumes "sorted_wrt (<) (map fst m)" and "k \<notin> set (map fst m)"
  shows "sorted_wrt (<) (map fst (btree_insert k x m))"
  using assms
proof (induction m)
  case (Cons p m)
  then have IH: "sorted_wrt (<) (map fst (btree_insert k x m))" by simp
  show ?case
  proof (cases "fst p < k")
    case True
    have "\<forall>y \<in> set (map fst (btree_insert k x m)). fst p < y"
      using Cons.prems True unfolding btree_insert_keys by auto
    then show ?thesis using True IH by (simp add: btree_insert_def)
  next
    case False
    then have "k < fst p" using Cons.prems(2) by (cases "k = fst p") auto
    then show ?thesis using False Cons.prems by (auto simp: btree_insert_def)
  qed
qed (simp add: btree_insert_def)

lemma btree_insert_lookup:
  assumes "map_of m k = None"
  shows "map_of (btree_insert k x m) = (map_of m)(k := Some x)"
proof -
  have m: "m = takeWhile (\<lambda>p. fst p < k) m @ dropWhile (\<lambda>p. fst p < k) m" by (rule btree_split)
  have "map_of (takeWhile (\<lambda>p. fst p < k) m) k = None"
    using assms by (auto simp: map_of_eq_None_iff dest: set_takeWhileD)
  moreover have "map_of m = map_of (dropWhile (\<lambda>p. fst p < k) m) ++ map_of (takeWhile (\<lambda>p. fst p < k) m)"
    by (metis m map_of_append)
  ultimately show ?thesis by (auto simp: btree_insert_def map_add_def fun_eq_iff split: option.splits)
qed

lemma add_loop_ok:
  assumes "handles_inv h" and "add_loop x counter h = (Ok k, h')"
  shows "handles_inv h' \<and> map_of (hd_map h) k = None \<and> map_of (hd_map h') = (map_of (hd_map h))(k := Some x)"
  using assms
proof (induction x counter h rule: add_loop.induct)
  case (1 item counter h)
  let ?k = "next_handle h + 1"
  show ?case
  proof (cases "map_of (hd_map h) ?k")
    case None
    then have "k = ?k" "h' = h\<lparr>next_handle := ?k, hd_map := btree_insert ?k item (hd_map h)\<rparr>"
      using "1.prems"(2) by (auto simp: add_loop.simps Let_def)
    then show ?thesis
      using None "1.prems"(1) btree_insert_sorted [of "hd_map h" ?k item]
      by (simp add: handles_inv_def btree_insert_lookup map_of_eq_None_iff)
  next
    case (Some y)
    let ?h = "h\<lparr>next_handle := ?k\<rparr>"
    have c: "counter + 1 \<noteq> - 1" using Some "1.prems"(2) by (auto simp: add_loop.simps [of item counter] Let_def)
    then have "add_loop item (counter + 1) ?h = (Ok k, h')"
      using Some "1.prems"(2) by (simp add: add_loop.simps [of item counter] Let_def)
    moreover have "handles_inv ?h" using "1.prems"(1) by (simp add: handles_inv_def)
    ultimately show ?thesis using "1.IH" [OF refl refl _ c, of y] Some by simp
  qed
qed

lemma map_of_filter_key: "map_of (filter (\<lambda>p. fst p \<noteq> k) m) = (map_of m)(k := None)"
  by (induction m) (auto simp: fun_eq_iff)

interpretation table: handle_table "\<lambda>h. map_of (hd_map h)" handles_add handles_remove handles_inv
proof (unfold_locales, goal_cases)
  case (1 t x k t')
  then show ?case using add_loop_ok [of t x 0 k t'] by (simp add: handles_add_def)
next
  case (2 t k x)
  then have "handles_inv (t\<lparr>hd_map := filter (\<lambda>p. fst p \<noteq> k) (hd_map t)\<rparr>)"
    by (simp add: handles_inv_def sorted_wrt_map sorted_wrt_filter)
  then show ?case using 2 by (simp add: handles_remove_def map_of_filter_key)
next
  case (3 t k)
  then show ?case by (simp add: handles_remove_def)
qed

section \<open>Exhaustion\<close>

text \<open>A loop that has tried \<open>counter\<close> handles in vain has seen that many live ones.\<close>

lemma add_loop_full:
  assumes "\<And>k. fst (add_loop x counter h) \<noteq> Ok k"
  shows "fst (add_loop x counter h) = Err ExhaustedFileHandles \<and>
    (\<forall>i. 1 \<le> i \<longrightarrow> i \<le> rounds_left counter + 1 \<longrightarrow> next_handle h + of_nat i \<in> fst ` set (hd_map h))"
  using assms
proof (induction x counter h rule: add_loop.induct)
  case (1 item counter h)
  let ?k = "next_handle h + 1"
  let ?h = "h\<lparr>next_handle := ?k\<rparr>"
  note step = add_loop.simps [of item counter h, unfolded Let_def]
  obtain y where y: "map_of (hd_map h) ?k = Some y"
    using "1.prems" [of ?k] by (cases "map_of (hd_map h) ?k") (simp_all add: step)
  then have in1: "?k \<in> fst ` set (hd_map h)" by (auto dest!: map_of_SomeD intro: rev_image_eqI)
  show ?case
  proof (cases "counter + 1 = - 1")
    case True
    then have "rounds_left counter = 0" using rounds_left_last by blast
    moreover have "fst (add_loop item counter h) = Err ExhaustedFileHandles"
      unfolding step using True y by (simp del: add_left_cancel)
    ultimately show ?thesis using in1 by (auto dest!: le_antisym)
  next
    case False
    have e: "add_loop item counter h = add_loop item (counter + 1) ?h"
      unfolding step using False y by simp
    have "\<And>k. fst (add_loop item (counter + 1) ?h) \<noteq> Ok k" using "1.prems" e by simp
    then have IH: "fst (add_loop item (counter + 1) ?h) = Err ExhaustedFileHandles"
      "\<And>i. 1 \<le> i \<Longrightarrow> i \<le> rounds_left (counter + 1) + 1 \<Longrightarrow> ?k + of_nat i \<in> fst ` set (hd_map h)"
      using "1.IH" [OF refl refl _ False, of y] y by simp_all
    have "next_handle h + of_nat i \<in> fst ` set (hd_map h)" if "1 \<le> i" "i \<le> rounds_left counter + 1" for i
    proof (cases "i = 1")
      case True
      then show ?thesis using in1 by simp
    next
      case ne: False
      then have "?k + of_nat (i - 1) \<in> fst ` set (hd_map h)"
        using that rounds_left_Suc [OF False] by (intro IH(2)) auto
      moreover have "of_nat i = (1 :: u32) + of_nat (i - 1)" using that(1) by (simp add: of_nat_diff)
      ultimately show ?thesis by (simp add: algebra_simps)
    qed
    then show ?thesis using IH(1) e by auto
  qed
qed

text \<open>So a table with fewer live handles than there are values, less one, always has one to give.\<close>

lemma handles_add_total:
  assumes "length (hd_map h) < 2 ^ 32 - 1"
  shows "\<exists>k h'. handles_add x h = (Ok k, h')"
proof (rule ccontr)
  assume "\<not> ?thesis"
  then have "\<And>k. fst (add_loop x 0 h) \<noteq> Ok k" by (metis handles_add_def prod.collapse)
  from add_loop_full [OF this]
  have all: "\<And>i. 1 \<le> i \<Longrightarrow> i \<le> rounds_left 0 + 1 \<Longrightarrow> next_handle h + of_nat i \<in> fst ` set (hd_map h)" by blast
  have r: "rounds_left 0 + 1 = 2 ^ 32 - 1" by (simp add: rounds_left_def)
  let ?f = "\<lambda>i. next_handle h + of_nat i :: u32"
  have "inj_on ?f {1..2 ^ 32 - 1}"
  proof (rule inj_onI)
    fix i j :: nat
    assume "i \<in> {1..2 ^ 32 - 1}" "j \<in> {1..2 ^ 32 - 1}" "?f i = ?f j"
    then have "(of_nat i :: u32) = of_nat j" "i < 2 ^ 32" "j < 2 ^ 32" by auto
    then have "unat (of_nat i :: u32) = unat (of_nat j :: u32)" "i < 2 ^ 32" "j < 2 ^ 32" by simp_all
    then show "i = j" by (simp add: unat_of_nat)
  qed
  then have c: "card (?f ` {1..2 ^ 32 - 1}) = 2 ^ 32 - 1" by (simp add: card_image)
  have "?f ` {1..2 ^ 32 - 1} \<subseteq> fst ` set (hd_map h)" using all r by auto
  then have "card (?f ` {1..2 ^ 32 - 1}) \<le> card (fst ` set (hd_map h))" by (intro card_mono) simp_all
  also have "\<dots> \<le> card (set (hd_map h))" by (rule card_image_le) simp
  also have "\<dots> \<le> length (hd_map h)" by (rule card_length)
  finally show False using assms c by linarith
qed

end
