(* ===== verification/Fs_Manager.thy ===== *)
theory Fs_Manager
  imports File_System Handles
begin

text \<open>
  The manager behind the shared file system (\<open>FsManager\<close>, \<open>handle_req\<close> and the body of \<open>fs_actor_task\<close> in
  \<open>fs.rs\<close>), and the requests and replies it exchanges with its clients. A \<open>DirectoryIterator\<close> is the walk it
  stands at; \<open>Metadata\<close> is a copy of the file details.
\<close>

section \<open>Requests and replies\<close>

datatype request_op =
    OpReadToString rstr
  | OpRead rstr
  | OpOpenFile rstr open_options
  | OpReadFile u32 nat
  | OpReadFileToEnd u32
  | OpReadFileToString u32
  | OpWriteFile u32 "u8 list"
  | OpSeekFile u32 u64
  | OpCloseFile u32
  | OpFlushFile u32
  | OpMetadata u32
  | OpOpenDirectory rstr
  | OpDirectoryNextEntry u32
  | OpExists rstr
  | OpRemoveFile rstr
  | OpCreateDirectory rstr
  | OpCopy rstr rstr
  | OpRename rstr rstr
  | OpRemoveDir rstr
  | OpWrite rstr "u8 list"
  | OpCloseDirectory u32
  | OpShutdown

datatype resp =
    RespOk
  | RespReadToString rstr
  | RespRead "u8 list"
  | RespFileOpen u32
  | RespDirectoryOpen u32
  | RespMetadata file_details
  | RespDirectoryEntry "(file_details \<times> rstr) option"
  | RespExists bool

section \<open>The manager\<close>

text \<open>
  \<open>mg_clock\<close> carries the number of calls made to the time provider over a remount: the provider is one function,
  whichever file system calls it.
\<close>

record 'd fs_manager =
  mg_dev :: "'d option"
  mg_fs :: "'d file_system option"
  mg_files :: "open_file handles"
  mg_dirs :: "dir_chain handles"
  mg_time_provider :: "(nat \<Rightarrow> timestamp) option"
  mg_clock :: nat

definition manager_new :: "'d \<Rightarrow> (nat \<Rightarrow> timestamp) option \<Rightarrow> 'd fs_manager" where
  "manager_new dev tp = \<lparr>mg_dev = Some dev, mg_fs = None, mg_files = handles_new, mg_dirs = handles_new,
     mg_time_provider = tp, mg_clock = 0\<rparr>"

type_synonym ('d, 'a, 'x) mgr_op = "('d fs_manager, 'a, 'x) op"

definition clear_handles :: "'d fs_manager \<Rightarrow> 'd fs_manager" where
  "clear_handles m = m\<lparr>mg_files := handles_clear (mg_files m), mg_dirs := handles_clear (mg_dirs m)\<rparr>"

text \<open>\<open>N\<close> is the number of slots of each cache.\<close>

definition manager_mount :: "('d, 'e) platform \<Rightarrow> nat \<Rightarrow> ('d, unit, 'e exfat_error) mgr_op" where
  "manager_mount P N m = (case mg_dev m of
     Some dev \<Rightarrow>
       (let m' = m\<lparr>mg_dev := None\<rparr>;
            fs0 = (file_system_new P N dev)\<lparr>clock := mg_clock m\<rparr>;
            fs1 = (case mg_time_provider m of Some tp \<Rightarrow> set_time_provider tp fs0 | None \<Rightarrow> fs0) in
        case mount P fs1 of
          (Ok _, fs) \<Rightarrow> (Ok (), (clear_handles m')\<lparr>mg_fs := Some fs\<rparr>)
        | (Err e, fs) \<Rightarrow>
            (case unmount P fs of
               Ok dev' \<Rightarrow> (Err e, m'\<lparr>mg_dev := Some dev'\<rparr>)
             | Err e' \<Rightarrow> (Err e', m')
             | Panic \<Rightarrow> (Panic, m')
             | OutOfFuel \<Rightarrow> (OutOfFuel, m'))
        | (Panic, fs) \<Rightarrow> (Panic, m')
        | (OutOfFuel, fs) \<Rightarrow> (OutOfFuel, m'))
   | None \<Rightarrow> (case mg_fs m of Some _ \<Rightarrow> (Ok (), m) | None \<Rightarrow> (Panic, m)))"

definition manager_unmount :: "('d, 'e) platform \<Rightarrow> ('d, unit, 'e exfat_error) mgr_op" where
  "manager_unmount P m = (case mg_fs m of
     Some fs \<Rightarrow>
       (let m' = m\<lparr>mg_fs := None, mg_clock := clock fs\<rparr> in
        case unmount P fs of
          Ok dev \<Rightarrow> (Ok (), clear_handles (m'\<lparr>mg_dev := Some dev\<rparr>))
        | Err e \<Rightarrow> (Err e, m')
        | Panic \<Rightarrow> (Panic, m')
        | OutOfFuel \<Rightarrow> (OutOfFuel, m'))
   | None \<Rightarrow> (Ok (), clear_handles m))"

text \<open>The loop of \<open>shutdown\<close>: every open file is closed, the first error is remembered.\<close>

function shutdown_loop :: "('d, 'e) platform \<Rightarrow> (unit, 'e exfat_error) outcome \<Rightarrow> 'd file_system \<times> open_file handles \<Rightarrow>
    ((unit, 'e exfat_error) outcome, 'e exfat_error) outcome \<times> 'd file_system \<times> open_file handles" where
  "shutdown_loop P first_error (s, h) = (case take_any h of
     (None, h') \<Rightarrow> (Ok first_error, s, h')
   | (Some f, h') \<Rightarrow>
       (case file_close P (f, s) of
          (Ok _, (_, s')) \<Rightarrow> shutdown_loop P first_error (s', h')
        | (Err e, (_, s')) \<Rightarrow>
            shutdown_loop P (case first_error of Ok _ \<Rightarrow> Err e | _ \<Rightarrow> first_error) (s', h')
        | (Panic, (_, s')) \<Rightarrow> (Panic, s', h')
        | (OutOfFuel, (_, s')) \<Rightarrow> (OutOfFuel, s', h')))"
  by pat_completeness auto

lemma take_any_shorter: "take_any h = (Some f, h') \<Longrightarrow> length (hd_map h) = Suc (length (hd_map h'))"
  by (auto simp: take_any_def split: list.splits)

termination shutdown_loop
  by (relation "measure (\<lambda>(P, first_error, s, h). length (hd_map h))")
    (auto dest: take_any_shorter [OF sym])

declare shutdown_loop.simps [simp del]

definition manager_shutdown :: "('d, 'e) platform \<Rightarrow> ('d, unit, 'e exfat_error) mgr_op" where
  "manager_shutdown P =
     andthen (\<lambda>m. case mg_fs m of
         Some fs \<Rightarrow>
           (case shutdown_loop P (Ok ()) (fs, mg_files m) of (r, fs', h) \<Rightarrow>
              let m' = m\<lparr>mg_fs := Some fs', mg_files := h\<rparr> in
              case r of
                Ok first_error \<Rightarrow> (Ok first_error, m'\<lparr>mg_dirs := handles_clear (mg_dirs m')\<rparr>)
              | Err e \<Rightarrow> (Err e, m')
              | Panic \<Rightarrow> (Panic, m')
              | OutOfFuel \<Rightarrow> (OutOfFuel, m'))
       | None \<Rightarrow> (Ok (Ok ()), m)) (\<lambda>first_error.
     andthen (manager_unmount P) (\<lambda>_ m. (first_error, m)))"

section \<open>Serving a request\<close>

definition on_manager_fs :: "('d, 'a, 'e) fs_op \<Rightarrow> ('d, 'a, 'e exfat_error) mgr_op" where
  "on_manager_fs f m = (case mg_fs m of
     Some s \<Rightarrow> (case f s of (r, s') \<Rightarrow> (r, m\<lparr>mg_fs := Some s'\<rparr>))
   | None \<Rightarrow> (Panic, m))"

definition on_files :: "(open_file handles, 'a, 'x) op \<Rightarrow> ('d, 'a, 'x) mgr_op" where
  "on_files = zoom mg_files (\<lambda>h m. m\<lparr>mg_files := h\<rparr>)"

definition on_dirs :: "(dir_chain handles, 'a, 'x) op \<Rightarrow> ('d, 'a, 'x) mgr_op" where
  "on_dirs = zoom mg_dirs (\<lambda>h m. m\<lparr>mg_dirs := h\<rparr>)"

text \<open>\<open>let file = files.get(handle)?; file.op(file_system)?\<close>: the file in the table is the one operated on.\<close>

definition on_open_file :: "'e device_error \<Rightarrow> u32 \<Rightarrow> ('d, 'a, 'e) file_op \<Rightarrow> ('d, 'a, fs_error) mgr_op" where
  "on_open_file E handle g =
     andthen (on_files (handles_get handle)) (\<lambda>f.
     map_err (error_from E) (\<lambda>m. case mg_fs m of
       Some s \<Rightarrow> (case g (f, s) of (r, (f', s')) \<Rightarrow>
         (r, m\<lparr>mg_fs := Some s', mg_files := handles_put handle f' (mg_files m)\<rparr>))
     | None \<Rightarrow> (Panic, m)))"

definition on_open_dir :: "'e device_error \<Rightarrow> u32 \<Rightarrow> ('d, 'a, 'e) chain_op \<Rightarrow> ('d, 'a, fs_error) mgr_op" where
  "on_open_dir E handle g =
     andthen (on_dirs (handles_get handle)) (\<lambda>dir.
     map_err (error_from E) (\<lambda>m. case mg_fs m of
       Some s \<Rightarrow> (case g (dir, s) of (r, (dir', s')) \<Rightarrow>
         (r, m\<lparr>mg_fs := Some s', mg_dirs := handles_put handle dir' (mg_dirs m)\<rparr>))
     | None \<Rightarrow> (Panic, m)))"

definition MAX_NAME_LEN :: nat where "MAX_NAME_LEN = 765"

text \<open>The arms of the match, after the volume is mounted.\<close>

fun serve :: "('d, 'e) platform \<Rightarrow> 'e device_error \<Rightarrow> nat \<Rightarrow> request_op \<Rightarrow> ('d, resp, fs_error) mgr_op" where
  "serve P E fuel (OpReadToString path) =
     andthen (map_err (error_from E) (on_manager_fs (fs_read_to_string P fuel path))) (\<lambda>data. ret (RespReadToString data))"
| "serve P E fuel (OpRead path) =
     andthen (map_err (error_from E) (on_manager_fs (fs_read P fuel path))) (\<lambda>data. ret (RespRead data))"
| "serve P E fuel (OpOpenFile path options) =
     andthen (map_err (error_from E) (on_manager_fs (fs_open P fuel path options))) (\<lambda>f.
     andthen (on_files (handles_add f)) (\<lambda>handle. ret (RespFileOpen handle)))"
| "serve P E fuel (OpReadFileToString handle) =
     andthen (on_open_file E handle (read_to_string P)) (\<lambda>data. ret (RespReadToString data))"
| "serve P E fuel (OpReadFileToEnd handle) =
     andthen (on_open_file E handle (read_to_end P [])) (\<lambda>(data, _). ret (RespRead data))"
| "serve P E fuel (OpSeekFile handle position) =
     andthen (on_open_file E handle (file_seek P position)) (\<lambda>_. ret RespOk)"
| "serve P E fuel (OpReadFile handle len) =
     andthen (on_open_file E handle (file_read P (replicate len 0))) (\<lambda>(_, data). ret (RespRead data))"
| "serve P E fuel (OpWriteFile handle buffer) =
     andthen (on_open_file E handle (file_write P buffer)) (\<lambda>_. ret RespOk)"
| "serve P E fuel (OpCloseFile handle) =
     andthen (on_files (handles_remove handle)) (\<lambda>f.
     andthen (map_err (error_from E) (on_manager_fs (with_file f (file_close P)))) (\<lambda>_. ret RespOk))"
| "serve P E fuel (OpFlushFile handle) =
     andthen (on_open_file E handle (file_flush P)) (\<lambda>_. ret RespOk)"
| "serve P E fuel (OpMetadata handle) =
     andthen (on_files (handles_get handle)) (\<lambda>f. ret (RespMetadata (metadata f)))"
| "serve P E fuel (OpOpenDirectory path) =
     andthen (map_err (error_from E) (on_manager_fs (read_dir P fuel path))) (\<lambda>dir.
     andthen (on_dirs (handles_add dir)) (\<lambda>handle. ret (RespDirectoryOpen handle)))"
| "serve P E fuel (OpDirectoryNextEntry handle) =
     andthen (on_open_dir E handle (next_entry P fuel (replicate MAX_NAME_LEN 0))) (\<lambda>data. ret (RespDirectoryEntry data))"
| "serve P E fuel (OpExists path) =
     andthen (map_err (error_from E) (on_manager_fs (fs_exists P fuel path))) (\<lambda>exists. ret (RespExists exists))"
| "serve P E fuel (OpRemoveFile path) =
     andthen (map_err (error_from E) (on_manager_fs (remove_file P fuel path))) (\<lambda>_. ret RespOk)"
| "serve P E fuel (OpCreateDirectory path) =
     andthen (map_err (error_from E) (on_manager_fs (create_directory P fuel path))) (\<lambda>_. ret RespOk)"
| "serve P E fuel (OpCopy from_path to_path) =
     andthen (map_err (error_from E) (on_manager_fs (fs_copy P fuel from_path to_path))) (\<lambda>_. ret RespOk)"
| "serve P E fuel (OpRename from_path to_path) =
     andthen (map_err (error_from E) (on_manager_fs (fs_rename P fuel from_path to_path))) (\<lambda>_. ret RespOk)"
| "serve P E fuel (OpRemoveDir path) =
     andthen (map_err (error_from E) (on_manager_fs (remove_dir P fuel path))) (\<lambda>_. ret RespOk)"
| "serve P E fuel (OpWrite path buffer) =
     andthen (map_err (error_from E) (on_manager_fs (fs_write P fuel path buffer))) (\<lambda>_. ret RespOk)"
| "serve P E fuel (OpCloseDirectory handle) =
     andthen (on_dirs (handles_remove handle)) (\<lambda>_. ret RespOk)"
| "serve P E fuel OpShutdown = ret RespOk"

definition handle_req :: "('d, 'e) platform \<Rightarrow> 'e device_error \<Rightarrow> nat \<Rightarrow> nat \<Rightarrow> request_op \<Rightarrow> ('d, resp, fs_error) mgr_op" where
  "handle_req P E N fuel request =
     (if request = OpShutdown
      then andthen (map_err (error_from E) (manager_shutdown P)) (\<lambda>_. ret RespOk)
      else andthen (map_err (error_from E) (manager_mount P N)) (\<lambda>_. serve P E fuel request))"

text \<open>
  The body of the actor's loop: what is sent back for the request. When the card is gone the volume is unmounted
  first.
\<close>

definition actor_serve :: "('d, 'e) platform \<Rightarrow> 'e device_error \<Rightarrow> nat \<Rightarrow> nat \<Rightarrow> request_op \<Rightarrow> ('d, resp + fs_error, fs_error) mgr_op" where
  "actor_serve P E N fuel request m = (case handle_req P E N fuel request m of
     (Ok r, m') \<Rightarrow> (Ok (Inl r), m')
   | (Err e, m') \<Rightarrow>
       (if e = NoCard
        then (case manager_unmount P m' of
            (Ok _, m'') \<Rightarrow> (Ok (Inr NoCard), m'')
          | (Err e', m'') \<Rightarrow> (Err (error_from E e'), m'')
          | (Panic, m'') \<Rightarrow> (Panic, m'')
          | (OutOfFuel, m'') \<Rightarrow> (OutOfFuel, m''))
        else (Ok (Inr e), m'))
   | (Panic, m') \<Rightarrow> (Panic, m')
   | (OutOfFuel, m') \<Rightarrow> (OutOfFuel, m'))"

end
