(* ===== verification/Reply_Pool.thy ===== *)
theory Reply_Pool
  imports Fs_Manager
begin

text \<open>
  The reply slots of the shared file system (\<open>ReplyToken\<close>, \<open>claim_slot_locked\<close>, \<open>release_slot_locked\<close> in
  \<open>fs.rs\<close>), the calls of its clients, and the primitives of the \<open>embassy_sync\<close> crate they run on.

  The crate is not part of the sources: its channel, semaphore and signal are the record \<open>embassy\<close>, a parameter of
  the model, and what its documentation promises of them is the predicate \<open>embassy_ok\<close>.
\<close>

section \<open>Slots and tokens\<close>

record reply_token =
  tok_slot :: u8
  tok_seq :: u32

type_synonym reply = "resp + fs_error"

record reply_signal =
  sg_seq :: u32
  sg_resp :: reply

record request =
  rq_op :: request_op
  rq_reply :: "reply_token option"

definition REPLY_SLOTS :: nat where "REPLY_SLOTS = 4"

fun claim_loop :: "nat list \<Rightarrow> u32 \<Rightarrow> u8 \<times> u32" where
  "claim_loop [] bmp = (0, bmp)"
| "claim_loop (i # is) bmp =
     (let m = push_bit i 1 in
      if bmp AND m = 0 then (of_nat i, bmp OR m) else claim_loop is bmp)"

definition claim_slot_locked :: "u32 \<Rightarrow> u8 \<times> u32" where
  "claim_slot_locked bmp = claim_loop [0..<REPLY_SLOTS] bmp"

definition release_slot_locked :: "u8 \<Rightarrow> u32 \<Rightarrow> u32" where
  "release_slot_locked slot bmp = (let m = push_bit (unat slot) 1 in bmp AND NOT m)"

lemma and_bit_zero: "bm AND push_bit i 1 = 0 \<longleftrightarrow> \<not> bit bm i" if "i < 32" for bm :: u32
proof
  assume "bm AND push_bit i 1 = 0"
  then have "\<not> bit (bm AND push_bit i 1) i" by simp
  then show "\<not> bit bm i" using that by (simp add: bit_simps)
next
  assume "\<not> bit bm i"
  then show "bm AND push_bit i 1 = 0" by (intro bit_word_eqI) (auto simp: bit_simps)
qed

lemma claim_loop_cases:
  assumes "claim_loop is bm = (slot, bm')" and "\<forall>i \<in> set is. i < 32"
  shows "(\<forall>i \<in> set is. bit bm i) \<or>
    unat slot \<in> set is \<and> \<not> bit bm (unat slot) \<and> (\<forall>k. bit bm' k \<longleftrightarrow> bit bm k \<or> k = unat slot)"
  using assms
proof (induction "is")
  case (Cons i "is")
  note z = and_bit_zero [of i bm]
  have i: "i < 32" using Cons.prems(2) by simp
  show ?case
  proof (cases "bit bm i")
    case True
    then have "bm AND push_bit i 1 \<noteq> 0" using z i by blast
    then have "claim_loop is bm = (slot, bm')" using Cons.prems(1) by (simp only: claim_loop.simps Let_def if_False)
    then show ?thesis using Cons.IH Cons.prems(2) True by auto
  next
    case False
    then have "bm AND push_bit i 1 = 0" using z i by blast
    then have s: "slot = of_nat i" "bm' = bm OR push_bit i 1"
      using Cons.prems(1) by (simp_all only: claim_loop.simps Let_def refl if_True prod.inject)
    have "unat slot = i" using i by (simp add: s unat_of_nat)
    moreover have "bit bm' k \<longleftrightarrow> bit bm k \<or> k = i" for k
      using i by (simp only: s bit_or_iff bit_push_bit_iff bit_1_iff) auto
    ultimately show ?thesis using False by simp
  qed
qed simp

lemma claim_slot_cases:
  assumes "claim_slot_locked bm = (slot, bm')"
  obtains (full) "\<forall>i < REPLY_SLOTS. bit bm i"
    | (claimed) "unat slot < REPLY_SLOTS" "\<not> bit bm (unat slot)" "\<And>k. bit bm' k \<longleftrightarrow> bit bm k \<or> k = unat slot"
  using claim_loop_cases [of "[0..<REPLY_SLOTS]" bm slot bm'] assms
  by (auto simp: claim_slot_locked_def REPLY_SLOTS_def)

lemma release_slot_bits:
  assumes "unat slot < REPLY_SLOTS"
  shows "bit (release_slot_locked slot bm) k \<longleftrightarrow> bit bm k \<and> k \<noteq> unat slot"
  using assms by (auto simp: release_slot_locked_def REPLY_SLOTS_def bit_simps dest: bit_imp_le_length)

section \<open>The primitives\<close>

text \<open>
  \<open>ch_send\<close> is \<open>None\<close> while the channel is full (\<open>send\<close> waits, \<open>try_send\<close> gives up), \<open>ch_receive\<close>,
  \<open>sem_acquire\<close> and \<open>sig_take\<close> are \<open>None\<close> while the caller has to wait. What \<open>acquire\<close> returns is a guard, the
  \<open>SemaphoreReleaser\<close>; dropping it is \<open>sem_drop\<close>.
\<close>

record ('q, 'm, 'g) embassy =
  ch_new :: 'q
  ch_send :: "request \<Rightarrow> 'q \<Rightarrow> 'q option"
  ch_receive :: "'q \<Rightarrow> (request \<times> 'q) option"
  sem_new :: "nat \<Rightarrow> 'm"
  sem_acquire :: "'m \<Rightarrow> 'm option"
  sem_release :: "'m \<Rightarrow> 'm"
  sem_drop :: "'m \<Rightarrow> 'm"
  sig_new :: 'g
  sig_signal :: "reply_signal \<Rightarrow> 'g \<Rightarrow> 'g"
  sig_take :: "'g \<Rightarrow> (reply_signal \<times> 'g) option"

definition REQ_CAPACITY :: nat where "REQ_CAPACITY = 8"

text \<open>
  A channel is a bounded queue, first in first out; a semaphore counts permits, and the permits of a guard go back to it
  when the guard is dropped; a signal holds at most one value, the last one signalled, until it is taken.
\<close>

definition embassy_ok :: "('q, 'm, 'g) embassy \<Rightarrow> ('q \<Rightarrow> request list) \<Rightarrow> ('m \<Rightarrow> nat) \<Rightarrow> ('g \<Rightarrow> reply_signal option) \<Rightarrow> bool" where
  "embassy_ok X items permits pending \<longleftrightarrow>
     items (ch_new X) = [] \<and>
     (\<forall>q r. if length (items q) < REQ_CAPACITY then \<exists>q'. ch_send X r q = Some q' \<and> items q' = items q @ [r]
            else ch_send X r q = None) \<and>
     (\<forall>q. case items q of
        [] \<Rightarrow> ch_receive X q = None
      | r # rs \<Rightarrow> \<exists>q'. ch_receive X q = Some (r, q') \<and> items q' = rs) \<and>
     (\<forall>n. permits (sem_new X n) = n) \<and>
     (\<forall>m. case permits m of
        0 \<Rightarrow> sem_acquire X m = None
      | Suc n \<Rightarrow> \<exists>m'. sem_acquire X m = Some m' \<and> permits m' = n) \<and>
     (\<forall>m. permits (sem_release X m) = Suc (permits m)) \<and>
     (\<forall>m. permits (sem_drop X m) = Suc (permits m)) \<and>
     pending (sig_new X) = None \<and>
     (\<forall>v g. pending (sig_signal X v g) = Some v) \<and>
     (\<forall>g. case pending g of
        None \<Rightarrow> sig_take X g = None
      | Some v \<Rightarrow> \<exists>g'. sig_take X g = Some (v, g') \<and> pending g' = None)"

lemma embassy_laws:
  assumes "embassy_ok X items permits pending"
  shows "items (ch_new X) = []" and "ch_send X r q = Some q' \<Longrightarrow> items q' = items q @ [r]"
    and "length (items q) < REQ_CAPACITY \<Longrightarrow> \<exists>q'. ch_send X r q = Some q'"
    and "ch_receive X q = Some (r, q') \<Longrightarrow> items q = r # items q'"
    and "items q \<noteq> [] \<Longrightarrow> \<exists>r q'. ch_receive X q = Some (r, q')"
    and "permits (sem_new X n) = n" and "sem_acquire X m = Some m' \<Longrightarrow> permits m = Suc (permits m')"
    and "permits (sem_release X m) = Suc (permits m)"
    and "pending (sig_new X) = None" and "pending (sig_signal X v g) = Some v"
    and "sig_take X g = Some (v, g') \<Longrightarrow> pending g = Some v \<and> pending g' = None"
    and "pending g = Some v \<Longrightarrow> \<exists>g'. sig_take X g = Some (v, g')"
    and "permits (sem_drop X m) = Suc (permits m)"
    and "0 < permits m \<Longrightarrow> \<exists>m'. sem_acquire X m = Some m'"
proof -
  note ok = assms [unfolded embassy_ok_def]
  show "items (ch_new X) = []" "permits (sem_new X n) = n" "permits (sem_release X m) = Suc (permits m)"
    "permits (sem_drop X m) = Suc (permits m)" "pending (sig_new X) = None" "pending (sig_signal X v g) = Some v" using ok by blast+
  have send: "if length (items q) < REQ_CAPACITY then \<exists>q'. ch_send X r q = Some q' \<and> items q' = items q @ [r]
            else ch_send X r q = None" using ok by blast
  show "ch_send X r q = Some q' \<Longrightarrow> items q' = items q @ [r]"
    "length (items q) < REQ_CAPACITY \<Longrightarrow> \<exists>q'. ch_send X r q = Some q'"
    using send by (auto split: if_splits)
  have rec: "case items q of [] \<Rightarrow> ch_receive X q = None
      | r # rs \<Rightarrow> \<exists>q'. ch_receive X q = Some (r, q') \<and> items q' = rs" using ok by blast
  show "ch_receive X q = Some (r, q') \<Longrightarrow> items q = r # items q'"
    "items q \<noteq> [] \<Longrightarrow> \<exists>r q'. ch_receive X q = Some (r, q')"
    using rec by (auto split: list.splits)
  have acq: "case permits m of 0 \<Rightarrow> sem_acquire X m = None
      | Suc n \<Rightarrow> \<exists>m'. sem_acquire X m = Some m' \<and> permits m' = n" using ok by blast
  show "sem_acquire X m = Some m' \<Longrightarrow> permits m = Suc (permits m')"
    "0 < permits m \<Longrightarrow> \<exists>m'. sem_acquire X m = Some m'" using acq by (auto split: nat.splits)
  have tk: "case pending g of None \<Rightarrow> sig_take X g = None
      | Some v \<Rightarrow> \<exists>g'. sig_take X g = Some (v, g') \<and> pending g' = None" using ok by blast
  show "sig_take X g = Some (v, g') \<Longrightarrow> pending g = Some v \<and> pending g' = None"
    "pending g = Some v \<Longrightarrow> \<exists>g'. sig_take X g = Some (v, g')"
    using tk by (auto split: option.splits)
qed

section \<open>The calls of a client\<close>

text \<open>
  Every call of the API acquires a token, sends a request, waits for the reply and decodes it; a reply that is an error
  is returned as it is. A call is its request and its decoder; the protocol they share is the step relation of the
  actor. A user buffer that is filled is part of the result.
\<close>

type_synonym 'a call = "request_op \<times> (resp \<Rightarrow> ('a, fs_error) outcome)"

definition expect_ok :: "resp \<Rightarrow> (unit, fs_error) outcome" where
  "expect_ok r = (case r of RespOk \<Rightarrow> Ok () | _ \<Rightarrow> Err UnexpectedResponse)"

definition expect_read :: "resp \<Rightarrow> (u8 list, fs_error) outcome" where
  "expect_read r = (case r of RespRead data \<Rightarrow> Ok data | _ \<Rightarrow> Err UnexpectedResponse)"

definition expect_string :: "resp \<Rightarrow> (rstr, fs_error) outcome" where
  "expect_string r = (case r of RespReadToString data \<Rightarrow> Ok data | _ \<Rightarrow> Err UnexpectedResponse)"

definition expect_file :: "resp \<Rightarrow> (u32, fs_error) outcome" where
  "expect_file r = (case r of RespFileOpen handle \<Rightarrow> Ok handle | _ \<Rightarrow> Err UnexpectedResponse)"

definition options_open :: "open_options \<Rightarrow> rstr \<Rightarrow> u32 call" where
  "options_open options path = (OpOpenFile path options, expect_file)"

definition api_open :: "rstr \<Rightarrow> open_options \<Rightarrow> u32 call" where
  "api_open path options = (OpOpenFile path options, expect_file)"

definition dir_next_entry :: "u32 \<Rightarrow> (file_details \<times> rstr) option call" where
  "dir_next_entry handle = (OpDirectoryNextEntry handle,
     \<lambda>r. case r of RespDirectoryEntry data \<Rightarrow> Ok data | _ \<Rightarrow> Err UnexpectedResponse)"

definition handle_read :: "u32 \<Rightarrow> u8 list \<Rightarrow> (nat option \<times> u8 list) call" where
  "handle_read handle buf = (OpReadFile handle (length buf),
     \<lambda>r. case r of
       RespRead data \<Rightarrow>
         if data = [] then Ok (None, buf)
         else (case splice 0 data buf of Some buf' \<Rightarrow> Ok (Some (length data), buf') | None \<Rightarrow> Panic)
     | _ \<Rightarrow> Err UnexpectedResponse)"

definition handle_read_to_end :: "u32 \<Rightarrow> u8 list call" where
  "handle_read_to_end handle = (OpReadFileToEnd handle, expect_read)"

definition handle_read_to_string :: "u32 \<Rightarrow> rstr call" where
  "handle_read_to_string handle = (OpReadFileToString handle, expect_string)"

text \<open>An empty buffer is not sent at all.\<close>

definition handle_write :: "u32 \<Rightarrow> u8 list \<Rightarrow> unit call option" where
  "handle_write handle buffer = (if buffer = [] then None else Some (OpWriteFile handle buffer, expect_ok))"

definition handle_seek :: "u32 \<Rightarrow> u64 \<Rightarrow> unit call" where
  "handle_seek handle position = (OpSeekFile handle position, expect_ok)"

definition handle_metadata :: "u32 \<Rightarrow> file_details call" where
  "handle_metadata handle = (OpMetadata handle,
     \<lambda>r. case r of RespMetadata data \<Rightarrow> Ok data | _ \<Rightarrow> Err UnexpectedResponse)"

definition handle_close :: "u32 \<Rightarrow> unit call" where
  "handle_close handle = (OpCloseFile handle, expect_ok)"

definition handle_flush :: "u32 \<Rightarrow> unit call" where
  "handle_flush handle = (OpFlushFile handle, expect_ok)"

definition api_read_to_string :: "rstr \<Rightarrow> rstr call" where
  "api_read_to_string path = (OpReadToString path, expect_string)"

definition api_read :: "rstr \<Rightarrow> u8 list call" where
  "api_read path = (OpRead path, expect_read)"

definition api_read_dir :: "rstr \<Rightarrow> u32 call" where
  "api_read_dir path = (OpOpenDirectory path,
     \<lambda>r. case r of RespDirectoryOpen handle \<Rightarrow> Ok handle | _ \<Rightarrow> Err UnexpectedResponse)"

definition api_exists :: "rstr \<Rightarrow> bool call" where
  "api_exists path = (OpExists path, \<lambda>r. case r of RespExists exists \<Rightarrow> Ok exists | _ \<Rightarrow> Err UnexpectedResponse)"

definition api_remove_file :: "rstr \<Rightarrow> unit call" where
  "api_remove_file path = (OpRemoveFile path, expect_ok)"

definition api_create_directory :: "rstr \<Rightarrow> unit call" where
  "api_create_directory path = (OpCreateDirectory path, expect_ok)"

definition api_copy :: "rstr \<Rightarrow> rstr \<Rightarrow> unit call" where
  "api_copy path_from path_to = (OpCopy path_from path_to, expect_ok)"

definition api_rename :: "rstr \<Rightarrow> rstr \<Rightarrow> unit call" where
  "api_rename path_from path_to = (OpRename path_from path_to, expect_ok)"

definition api_remove_directory :: "rstr \<Rightarrow> unit call" where
  "api_remove_directory path = (OpRemoveDir path, expect_ok)"

definition api_write :: "rstr \<Rightarrow> u8 list \<Rightarrow> unit call" where
  "api_write path buffer = (OpWrite path buffer, expect_ok)"

definition api_shutdown :: "unit call" where
  "api_shutdown = (OpShutdown, expect_ok)"

text \<open>The requests sent when a handle is dropped, without waiting.\<close>

definition drop_file :: "u32 \<Rightarrow> request" where
  "drop_file handle = \<lparr>rq_op = OpCloseFile handle, rq_reply = None\<rparr>"

definition drop_directory :: "u32 \<Rightarrow> request" where
  "drop_directory handle = \<lparr>rq_op = OpCloseDirectory handle, rq_reply = None\<rparr>"

end
