(* ===== verification/Actor.thy ===== *)
theory Actor
  imports Reply_Pool
begin

text \<open>
  The shared file system at run time (\<open>fs_actor_task\<close> and \<open>ReplyPool\<close> of \<open>fs.rs\<close>): \<open>n\<close> clients
  and one actor task that owns the manager. They interleave at every point where the code awaits, so the system is a
  step relation, and its properties are invariants of the reachable states. The future of a call can be dropped wherever
  it awaits (a timeout, a \<open>select\<close>); a client whose call was dropped makes no further step, and a task that goes on to
  another call is one more client.
\<close>

section \<open>The system\<close>

text \<open>
  Where a client is in \<open>ReplyPool::acquire\<close>, \<open>REQ.send\<close> and \<open>ReplyPool::wait\<close>; the tokens and replies of
  finished calls are kept to state what the client got.
\<close>

datatype client =
    Idle
  | Permitted request_op
  | Claimed request_op u8
  | Ready request_op reply_token
  | Waiting request_op reply_token
  | Answered request_op reply_token reply
  | Released request_op reply_token reply
  | Finished request_op reply_token reply

datatype actor_state = Listening | Serving request | Halted request

text \<open>\<open>sy_served\<close> is the history of what the actor has served.\<close>

record ('q, 'm, 'g, 'd) system =
  sy_channel :: 'q
  sy_free_slots :: 'm
  sy_slot_bitmap :: u32
  sy_seq :: u32
  sy_signals :: "'g list"
  sy_clients :: "nat \<Rightarrow> client"
  sy_dropped :: "nat set"
  sy_actor :: actor_state
  sy_manager :: "'d fs_manager"
  sy_served :: "(request \<times> reply) list"

definition system_init :: "('q, 'm, 'g) embassy \<Rightarrow> 'd \<Rightarrow> (nat \<Rightarrow> timestamp) option \<Rightarrow> ('q, 'm, 'g, 'd) system" where
  "system_init X device tp = \<lparr>sy_channel = ch_new X, sy_free_slots = sem_new X REPLY_SLOTS, sy_slot_bitmap = 0,
     sy_seq = 1, sy_signals = replicate REPLY_SLOTS (sig_new X), sy_clients = (\<lambda>_. Idle), sy_dropped = {}, sy_actor = Listening,
     sy_manager = manager_new device tp, sy_served = []\<rparr>"

definition set_client :: "nat \<Rightarrow> client \<Rightarrow> ('q, 'm, 'g, 'd) system \<Rightarrow> ('q, 'm, 'g, 'd) system" where
  "set_client i c s = s\<lparr>sy_clients := (sy_clients s)(i := c)\<rparr>"

text \<open>\<open>ReplyPool::complete\<close>, for a request that waits for its reply\<close>

definition complete :: "('q, 'm, 'g) embassy \<Rightarrow> reply_token option \<Rightarrow> reply \<Rightarrow> 'g list \<Rightarrow> 'g list" where
  "complete X token r gs = (case token of
     Some tok \<Rightarrow> gs[unat (tok_slot tok) := sig_signal X \<lparr>sg_seq = tok_seq tok, sg_resp = r\<rparr> (gs ! unat (tok_slot tok))]
   | None \<Rightarrow> gs)"

text \<open>
  Where a call awaits: the lock of the slot bitmap, room in the channel, its reply, and the lock again. The guard that
  \<open>FREE_SLOTS.acquire(1).await.unwrap()\<close> returns is a temporary, dropped at the end of that statement.
\<close>

fun awaiting :: "client \<Rightarrow> bool" where
  "awaiting (Permitted p) = True"
| "awaiting (Ready p tok) = True"
| "awaiting (Waiting p tok) = True"
| "awaiting (Answered p tok r) = True"
| "awaiting c = False"

inductive fs_step :: "('d, 'e) platform \<Rightarrow> 'e device_error \<Rightarrow> nat \<Rightarrow> nat \<Rightarrow> ('q, 'm, 'g) embassy \<Rightarrow> nat \<Rightarrow>
    ('q, 'm, 'g, 'd) system \<Rightarrow> ('q, 'm, 'g, 'd) system \<Rightarrow> bool"
  for P E N fuel X n where
  acquire: "i < n \<Longrightarrow> sy_clients s i = Idle \<or> (\<exists>p t r. sy_clients s i = Finished p t r) \<Longrightarrow>
     sem_acquire X (sy_free_slots s) = Some m \<Longrightarrow>
     fs_step P E N fuel X n s (set_client i (Permitted p) (s\<lparr>sy_free_slots := sem_drop X m\<rparr>))"
| claim: "i \<notin> sy_dropped s \<Longrightarrow> sy_clients s i = Permitted p \<Longrightarrow> claim_slot_locked (sy_slot_bitmap s) = (slot, bm) \<Longrightarrow>
     fs_step P E N fuel X n s (set_client i (Claimed p slot) (s\<lparr>sy_slot_bitmap := bm\<rparr>))"
| number: "i \<notin> sy_dropped s \<Longrightarrow> sy_clients s i = Claimed p slot \<Longrightarrow>
     fs_step P E N fuel X n s
       (set_client i (Ready p \<lparr>tok_slot = slot, tok_seq = sy_seq s\<rparr>) (s\<lparr>sy_seq := sy_seq s + 1\<rparr>))"
| send: "i \<notin> sy_dropped s \<Longrightarrow> sy_clients s i = Ready p tok \<Longrightarrow>
     ch_send X \<lparr>rq_op = p, rq_reply = Some tok\<rparr> (sy_channel s) = Some q \<Longrightarrow>
     fs_step P E N fuel X n s (set_client i (Waiting p tok) (s\<lparr>sy_channel := q\<rparr>))"
| wake: "i \<notin> sy_dropped s \<Longrightarrow> sy_clients s i = Waiting p tok \<Longrightarrow>
     sig_take X (sy_signals s ! unat (tok_slot tok)) = Some (sg, g) \<Longrightarrow> sg_seq sg = tok_seq tok \<Longrightarrow>
     fs_step P E N fuel X n s (set_client i (Answered p tok (sg_resp sg))
       (s\<lparr>sy_signals := (sy_signals s)[unat (tok_slot tok) := g]\<rparr>))"
| stale: "i \<notin> sy_dropped s \<Longrightarrow> sy_clients s i = Waiting p tok \<Longrightarrow>
     sig_take X (sy_signals s ! unat (tok_slot tok)) = Some (sg, g) \<Longrightarrow> sg_seq sg \<noteq> tok_seq tok \<Longrightarrow>
     fs_step P E N fuel X n s (s\<lparr>sy_signals := (sy_signals s)[unat (tok_slot tok) := g]\<rparr>)"
| unlock: "i \<notin> sy_dropped s \<Longrightarrow> sy_clients s i = Answered p tok r \<Longrightarrow>
     fs_step P E N fuel X n s (set_client i (Released p tok r)
       (s\<lparr>sy_slot_bitmap := release_slot_locked (tok_slot tok) (sy_slot_bitmap s)\<rparr>))"
| release: "i \<notin> sy_dropped s \<Longrightarrow> sy_clients s i = Released p tok r \<Longrightarrow>
     fs_step P E N fuel X n s (set_client i (Finished p tok r)
       (s\<lparr>sy_free_slots := sem_release X (sy_free_slots s)\<rparr>))"
| cancel: "i \<notin> sy_dropped s \<Longrightarrow> awaiting (sy_clients s i) \<Longrightarrow>
     fs_step P E N fuel X n s (s\<lparr>sy_dropped := insert i (sy_dropped s)\<rparr>)"
| drop_handle: "rq = drop_file handle \<or> rq = drop_directory handle \<Longrightarrow>
     ch_send X rq (sy_channel s) = Some q \<Longrightarrow>
     fs_step P E N fuel X n s (s\<lparr>sy_channel := q\<rparr>)"
| receive: "sy_actor s = Listening \<Longrightarrow> ch_receive X (sy_channel s) = Some (rq, q) \<Longrightarrow>
     fs_step P E N fuel X n s (s\<lparr>sy_channel := q, sy_actor := Serving rq\<rparr>)"
| serve: "sy_actor s = Serving rq \<Longrightarrow> actor_serve P E N fuel (rq_op rq) (sy_manager s) = (Ok r, m) \<Longrightarrow>
     fs_step P E N fuel X n s (s\<lparr>sy_manager := m, sy_actor := Listening,
       sy_signals := complete X (rq_reply rq) r (sy_signals s), sy_served := sy_served s @ [(rq, r)]\<rparr>)"
| halt: "sy_actor s = Serving rq \<Longrightarrow> actor_serve P E N fuel (rq_op rq) (sy_manager s) = (r, m) \<Longrightarrow>
     \<nexists>x. r = Ok x \<Longrightarrow>
     fs_step P E N fuel X n s (s\<lparr>sy_manager := m, sy_actor := Halted rq\<rparr>)"

inductive reachable :: "('d, 'e) platform \<Rightarrow> 'e device_error \<Rightarrow> nat \<Rightarrow> nat \<Rightarrow> ('q, 'm, 'g) embassy \<Rightarrow> nat \<Rightarrow> 'd \<Rightarrow>
    (nat \<Rightarrow> timestamp) option \<Rightarrow> ('q, 'm, 'g, 'd) system \<Rightarrow> bool"
  for P E N fuel X n device tp where
  start: "reachable P E N fuel X n device tp (system_init X device tp)"
| step: "reachable P E N fuel X n device tp s \<Longrightarrow> fs_step P E N fuel X n s s' \<Longrightarrow> reachable P E N fuel X n device tp s'"

text \<open>
  \<open>_try_acquire\<close>, the variant that does not wait, \<open>locked\<close> telling whether the slot bitmap is locked at the moment. A
  token it gives is the one that acquiring, claiming and numbering give.
\<close>

definition try_acquire :: "('q, 'm, 'g) embassy \<Rightarrow> bool \<Rightarrow> ('q, 'm, 'g, 'd) system \<Rightarrow>
    reply_token option \<times> ('q, 'm, 'g, 'd) system" where
  "try_acquire X locked s = (case sem_acquire X (sy_free_slots s) of
     None \<Rightarrow> (None, s)
   | Some m \<Rightarrow>
       let s1 = s\<lparr>sy_free_slots := sem_drop X m\<rparr> in
       if locked then (None, s1)
       else (case claim_slot_locked (sy_slot_bitmap s1) of
         (slot, bm) \<Rightarrow> (Some \<lparr>tok_slot = slot, tok_seq = sy_seq s1\<rparr>, s1\<lparr>sy_slot_bitmap := bm, sy_seq := sy_seq s1 + 1\<rparr>)))"

lemma try_acquire_steps:
  assumes "try_acquire X locked s = (Some tok, s')" and "i < n" and "sy_clients s i = Idle" and "i \<notin> sy_dropped s"
  shows "(fs_step P E N fuel X n)\<^sup>*\<^sup>* s (set_client i (Ready p tok) s')"
proof -
  obtain m slot bm where m: "sem_acquire X (sy_free_slots s) = Some m" "claim_slot_locked (sy_slot_bitmap s) = (slot, bm)"
    "tok = \<lparr>tok_slot = slot, tok_seq = sy_seq s\<rparr>"
    "s' = s\<lparr>sy_free_slots := sem_drop X m, sy_slot_bitmap := bm, sy_seq := sy_seq s + 1\<rparr>"
    using assms(1) by (auto simp: try_acquire_def Let_def split: option.splits if_splits prod.splits)
  let ?s1 = "set_client i (Permitted p) (s\<lparr>sy_free_slots := sem_drop X m\<rparr>)"
  let ?s2 = "set_client i (Claimed p slot) (?s1\<lparr>sy_slot_bitmap := bm\<rparr>)"
  have 1: "fs_step P E N fuel X n s ?s1" using assms m by (intro fs_step.acquire) simp_all
  have 2: "fs_step P E N fuel X n ?s1 ?s2" using assms m by (intro fs_step.claim) (simp_all add: set_client_def)
  have 3: "fs_step P E N fuel X n ?s2 (set_client i (Ready p tok) s')"
    using fs_step.number [of i ?s2 p slot P E N fuel X n] assms(4) by (simp add: set_client_def m(3,4))
  let ?R = "fs_step P E N fuel X n"
  show ?thesis
    by (rule rtranclp.rtrancl_into_rtrancl [of ?R, OF rtranclp.rtrancl_into_rtrancl [of ?R, OF
          r_into_rtranclp [of ?R, OF 1] 2] 3])
qed

section \<open>Permits\<close>

fun holds_permit :: "client \<Rightarrow> bool" where
  "holds_permit Idle = False"
| "holds_permit (Finished p tok r) = False"
| "holds_permit c = True"

fun slot_of :: "client \<Rightarrow> u8 option" where
  "slot_of (Claimed p slot) = Some slot"
| "slot_of (Ready p tok) = Some (tok_slot tok)"
| "slot_of (Waiting p tok) = Some (tok_slot tok)"
| "slot_of (Answered p tok r) = Some (tok_slot tok)"
| "slot_of c = None"

lemma slot_holds_permit: "slot_of c \<noteq> None \<Longrightarrow> holds_permit c"
  by (cases c) auto

abbreviation holders :: "('q, 'm, 'g, 'd) system \<Rightarrow> nat set" where
  "holders s \<equiv> {i. holds_permit (sy_clients s i)}"

text \<open>
  The permits do not limit the calls in progress: every permit is back as soon as it is taken, and every finished call
  adds one more. Only the number of clients bounds the slots in use.
\<close>

definition permit_inv :: "('m \<Rightarrow> nat) \<Rightarrow> nat \<Rightarrow> ('q, 'm, 'g, 'd) system \<Rightarrow> bool" where
  "permit_inv permits n s \<longleftrightarrow> holders s \<subseteq> {..<n} \<and> REPLY_SLOTS \<le> permits (sy_free_slots s)"

lemma set_client_simps [simp]:
  "sy_clients (set_client i c s) = (sy_clients s)(i := c)" "sy_channel (set_client i c s) = sy_channel s"
  "sy_free_slots (set_client i c s) = sy_free_slots s" "sy_slot_bitmap (set_client i c s) = sy_slot_bitmap s"
  "sy_seq (set_client i c s) = sy_seq s" "sy_signals (set_client i c s) = sy_signals s"
  "sy_actor (set_client i c s) = sy_actor s" "sy_manager (set_client i c s) = sy_manager s"
  "sy_served (set_client i c s) = sy_served s" "sy_dropped (set_client i c s) = sy_dropped s"
  by (simp_all add: set_client_def)

lemma permit_inv_same:
  assumes "permit_inv permits n s" and "sy_free_slots s' = sy_free_slots s" and "holders s' = holders s"
  shows "permit_inv permits n s'"
  using assms by (simp add: permit_inv_def)

lemma permit_inv_step:
  assumes X: "embassy_ok X items permits pending" and "fs_step P E N fuel X n s s'" and inv: "permit_inv permits n s"
  shows "permit_inv permits n s'"
  using assms(2)
proof (cases rule: fs_step.cases)
  case (acquire i m p)
  have "permits (sem_drop X m) = permits (sy_free_slots s)"
    using embassy_laws(7) [OF X acquire(4)] embassy_laws(13) [OF X, of m] by simp
  then show ?thesis using acquire inv by (auto simp: permit_inv_def)
next
  case (release i p tok r)
  then show ?thesis
    using inv embassy_laws(8) [OF X, of "sy_free_slots s"] by (auto simp: permit_inv_def)
qed (auto intro!: permit_inv_same [OF inv] split: if_splits)

section \<open>Slots\<close>

definition slot_inv :: "('q, 'm, 'g, 'd) system \<Rightarrow> bool" where
  "slot_inv s \<longleftrightarrow>
     (\<forall>i sl. slot_of (sy_clients s i) = Some sl \<longrightarrow> unat sl < REPLY_SLOTS \<and> bit (sy_slot_bitmap s) (unat sl)) \<and>
     (\<forall>i j sl. slot_of (sy_clients s i) = Some sl \<longrightarrow> slot_of (sy_clients s j) = Some sl \<longrightarrow> i = j) \<and>
     (\<forall>k. bit (sy_slot_bitmap s) k \<longrightarrow> (\<exists>i sl. slot_of (sy_clients s i) = Some sl \<and> unat sl = k))"

lemma slot_invD:
  assumes "slot_inv s"
  shows "slot_of (sy_clients s i) = Some sl \<Longrightarrow> unat sl < REPLY_SLOTS"
    and "slot_of (sy_clients s i) = Some sl \<Longrightarrow> bit (sy_slot_bitmap s) (unat sl)"
    and "slot_of (sy_clients s i) = Some sl \<Longrightarrow> slot_of (sy_clients s j) = Some sl \<Longrightarrow> i = j"
    and "bit (sy_slot_bitmap s) k \<Longrightarrow> \<exists>i sl. slot_of (sy_clients s i) = Some sl \<and> unat sl = k"
  using assms unfolding slot_inv_def by blast+

text \<open>With no more clients than slots, a client without a slot finds one free.\<close>

lemma free_slot_exists:
  assumes "permit_inv permits n s" and "slot_inv s" and n: "n \<le> REPLY_SLOTS" and "sy_clients s i = Permitted p"
  shows "\<exists>k < REPLY_SLOTS. \<not> bit (sy_slot_bitmap s) k"
proof (rule ccontr)
  assume "\<not> ?thesis"
  then have all: "bit (sy_slot_bitmap s) k" if "k < REPLY_SLOTS" for k using that by blast
  define own where "own k = (SOME i. \<exists>sl. slot_of (sy_clients s i) = Some sl \<and> unat sl = k)" for k
  have own: "\<exists>sl. slot_of (sy_clients s (own k)) = Some sl \<and> unat sl = k" if "k < REPLY_SLOTS" for k
    unfolding own_def using slot_invD(4) [OF assms(2) all [OF that]] by (rule someI_ex)
  have "inj_on own {..<REPLY_SLOTS}"
  proof (rule inj_onI)
    fix k l
    assume k: "k \<in> {..<REPLY_SLOTS}" "l \<in> {..<REPLY_SLOTS}" and eq: "own k = own l"
    then have "\<exists>sl. slot_of (sy_clients s (own k)) = Some sl \<and> unat sl = k"
      "\<exists>sl. slot_of (sy_clients s (own k)) = Some sl \<and> unat sl = l"
      using own [of k] own [of l] by simp_all
    then show "k = l" by auto
  qed
  then have card_own: "card (own ` {..<REPLY_SLOTS}) = REPLY_SLOTS" by (simp add: card_image)
  have "own ` {..<REPLY_SLOTS} \<subseteq> holders s - {i}"
    using own assms(4) slot_holds_permit by force
  moreover have f: "finite (holders s)" "card (holders s) \<le> REPLY_SLOTS" "i \<in> holders s"
  proof -
    have sub: "holders s \<subseteq> {..<n}" using assms(1) by (simp add: permit_inv_def)
    show "finite (holders s)" using sub finite_subset by blast
    show "card (holders s) \<le> REPLY_SLOTS" using card_mono [OF finite_lessThan sub] n by simp
  qed (simp add: assms(4))
  ultimately have "REPLY_SLOTS \<le> card (holders s - {i})"
    using card_own by (metis card_mono finite_Diff)
  moreover have "card (holders s - {i}) < card (holders s)" using f by (intro card_Diff1_less) simp_all
  ultimately show False using f(2) by linarith
qed

lemma claim_succeeds:
  assumes "permit_inv permits n s" and "slot_inv s" and n: "n \<le> REPLY_SLOTS" and "sy_clients s i = Permitted p"
    and "claim_slot_locked (sy_slot_bitmap s) = (slot, bm)"
  shows "unat slot < REPLY_SLOTS" and "\<not> bit (sy_slot_bitmap s) (unat slot)"
    and "bit bm k \<longleftrightarrow> bit (sy_slot_bitmap s) k \<or> k = unat slot"
  using free_slot_exists [OF assms(1-4)] by (auto intro: claim_slot_cases [OF assms(5)])

text \<open>A client that keeps its slot, or has none before and after, does not disturb the slots.\<close>

lemma slot_inv_same:
  assumes "slot_inv s" and "sy_slot_bitmap s' = sy_slot_bitmap s"
    and "\<And>j. slot_of (sy_clients s' j) = slot_of (sy_clients s j)"
  shows "slot_inv s'"
  using assms by (simp add: slot_inv_def)

lemma slot_inv_step:
  assumes "fs_step P E N fuel X n s s'" and inv: "slot_inv s" and "permit_inv permits n s" and "n \<le> REPLY_SLOTS"
  shows "slot_inv s'"
  using assms(1)
proof (cases rule: fs_step.cases)
  case (claim i p slot bm)
  note c = claim_succeeds [OF assms(3) inv assms(4) claim(3,4)]
  have other: "slot_of (sy_clients s j) \<noteq> Some slot" for j
    using slot_invD(2) [OF inv, of j slot] c(2) by blast
  have none: "slot_of (sy_clients s i) = None" using claim(3) by simp
  show ?thesis unfolding slot_inv_def
  proof (intro conjI allI impI)
    fix j sl assume j: "slot_of (sy_clients s' j) = Some sl"
    show "unat sl < REPLY_SLOTS" "bit (sy_slot_bitmap s') (unat sl)"
      using j claim c slot_invD(1,2) [OF inv, of j sl] by (auto split: if_splits)
  next
    fix j l sl assume "slot_of (sy_clients s' j) = Some sl" "slot_of (sy_clients s' l) = Some sl"
    then show "j = l"
      using claim other slot_invD(3) [OF inv, of j sl l] by (auto split: if_splits)
  next
    fix k assume "bit (sy_slot_bitmap s') k"
    then consider "bit (sy_slot_bitmap s) k" | "k = unat slot" using claim c(3) by auto
    then show "\<exists>j sl. slot_of (sy_clients s' j) = Some sl \<and> unat sl = k"
    proof cases
      case 1
      then obtain j sl where j: "slot_of (sy_clients s j) = Some sl" "unat sl = k" using slot_invD(4) [OF inv] by blast
      then have "j \<noteq> i" using none by auto
      then show ?thesis using j claim by (intro exI [of _ j] exI [of _ sl]) simp
    next
      case 2
      then show ?thesis using claim by (intro exI [of _ i] exI [of _ slot]) simp
    qed
  qed
next
  case (unlock i p tok r)
  have mine: "slot_of (sy_clients s i) = Some (tok_slot tok)" using unlock by simp
  note bits = release_slot_bits [OF slot_invD(1) [OF inv mine]]
  show ?thesis unfolding slot_inv_def
  proof (intro conjI allI impI)
    fix j sl assume j: "slot_of (sy_clients s' j) = Some sl"
    then have o: "slot_of (sy_clients s j) = Some sl" "j \<noteq> i" using unlock by (auto split: if_splits)
    then have "unat sl \<noteq> unat (tok_slot tok)"
      using slot_invD(3) [OF inv, of j sl i] mine by (auto simp: word_unat_eq_iff)
    then show "unat sl < REPLY_SLOTS" "bit (sy_slot_bitmap s') (unat sl)"
      using o unlock bits slot_invD(1,2) [OF inv o(1)] by auto
  next
    fix j l sl assume "slot_of (sy_clients s' j) = Some sl" "slot_of (sy_clients s' l) = Some sl"
    then show "j = l" using unlock slot_invD(3) [OF inv, of j sl l] by (auto split: if_splits)
  next
    fix k assume "bit (sy_slot_bitmap s') k"
    then have k: "bit (sy_slot_bitmap s) k" "k \<noteq> unat (tok_slot tok)" using unlock bits by auto
    then obtain j sl where j: "slot_of (sy_clients s j) = Some sl" "unat sl = k" using slot_invD(4) [OF inv] by blast
    then have "j \<noteq> i" using mine k(2) by auto
    then show "\<exists>j sl. slot_of (sy_clients s' j) = Some sl \<and> unat sl = k"
      using j unlock by (intro exI [of _ j] exI [of _ sl]) simp
  qed
qed (auto intro!: slot_inv_same [OF inv])

section \<open>Dropped calls\<close>

lemma dropped_step:
  assumes "fs_step P E N fuel X n s s'" and "i \<in> sy_dropped s" and "awaiting (sy_clients s i)"
  shows "i \<in> sy_dropped s'" and "sy_clients s' i = sy_clients s i"
  using assms by (cases rule: fs_step.cases; auto)+

lemma dropped_awaits_step:
  assumes "fs_step P E N fuel X n s s'" and "\<forall>i \<in> sy_dropped s. awaiting (sy_clients s i)"
  shows "\<forall>i \<in> sy_dropped s'. awaiting (sy_clients s' i)"
  using assms by (cases rule: fs_step.cases) auto

lemma dropped_awaits:
  assumes "reachable P E N fuel X n device tp s" and "i \<in> sy_dropped s"
  shows "awaiting (sy_clients s i)"
proof -
  have "\<forall>i \<in> sy_dropped s. awaiting (sy_clients s i)"
    using assms(1)
  proof (induction rule: reachable.induct)
    case start
    show ?case by (simp add: system_init_def)
  qed (rule dropped_awaits_step)
  then show ?thesis using assms(2) by blast
qed

lemma dropped_frozen:
  assumes "reachable P E N fuel X n device tp s" and "i \<in> sy_dropped s" and "(fs_step P E N fuel X n)\<^sup>*\<^sup>* s s'"
  shows "reachable P E N fuel X n device tp s' \<and> i \<in> sy_dropped s' \<and> sy_clients s' i = sy_clients s i"
  using assms(3)
proof (induction rule: rtranclp_induct)
  case (step s1 s2)
  then show ?case
    using dropped_step [OF step(2), of i] dropped_awaits [of P E N fuel X n device tp s1 i] reachable.step by metis
qed (simp add: assms)

end
