(* ===== verification/Manager_Invariant.thy ===== *)
theory Manager_Invariant
  imports Reply_Pool
begin

text \<open>
  What the manager keeps true from request to request: it owns the device or a file system, never both and never
  neither, its tables are well formed, and they are empty while nothing is mounted. Also the shape of the reply to each
  kind of request.
\<close>

section \<open>Operations that keep an invariant\<close>

definition returned :: "('a, 'x) outcome \<Rightarrow> bool" where
  "returned r \<longleftrightarrow> (case r of Ok _ \<Rightarrow> True | Err _ \<Rightarrow> True | _ \<Rightarrow> False)"

lemma returned_simps [simp]: "returned (Ok a)" "returned (Err e)" "\<not> returned Panic" "\<not> returned OutOfFuel"
  by (simp_all add: returned_def)

definition keeps :: "('s \<Rightarrow> bool) \<Rightarrow> ('s, 'a, 'x) op \<Rightarrow> bool" where
  "keeps I m \<longleftrightarrow> (\<forall>s r s'. I s \<longrightarrow> m s = (r, s') \<longrightarrow> returned r \<longrightarrow> I s')"

named_theorems keeps_intros \<open>rules for the preservation of an invariant\<close>

lemma keepsI: "(\<And>s r s'. I s \<Longrightarrow> m s = (r, s') \<Longrightarrow> returned r \<Longrightarrow> I s') \<Longrightarrow> keeps I m"
  by (auto simp: keeps_def)

lemma keepsD: "keeps I m \<Longrightarrow> I s \<Longrightarrow> m s = (r, s') \<Longrightarrow> returned r \<Longrightarrow> I s'"
  by (auto simp: keeps_def)

lemma keeps_ret [keeps_intros]: "keeps I (ret a)"
  by (auto simp: keeps_def ret_def)

lemma keeps_andthen [keeps_intros]:
  assumes "keeps I m" and "\<And>a. keeps I (f a)"
  shows "keeps I (andthen m f)"
proof (rule keepsI)
  fix s r s' assume I: "I s" and r: "andthen m f s = (r, s')" "returned r"
  obtain q t where q: "m s = (q, t)" by (cases "m s")
  show "I s'"
  proof (cases q)
    case (Ok a)
    then show ?thesis using q r keepsD [OF assms(1) I q] keepsD [OF assms(2) [of a]] by (simp add: andthen_def)
  qed (use q r keepsD [OF assms(1) I q] in \<open>simp_all add: andthen_def\<close>)
qed

lemma keeps_map_err [keeps_intros]: "keeps I m \<Longrightarrow> keeps I (map_err f m)"
  unfolding keeps_def map_err_def by (fastforce split: prod.splits outcome.splits)

lemma keeps_case_prod [keeps_intros]: "(\<And>a b. keeps I (f a b)) \<Longrightarrow> keeps I (case x of (a, b) \<Rightarrow> f a b)"
  by (cases x) simp

section \<open>The tables\<close>

lemma add_loop_inv: "handles_inv h \<Longrightarrow> add_loop x counter h = (r, h') \<Longrightarrow> handles_inv h'"
proof (induction x counter h rule: add_loop.induct)
  case (1 item counter h)
  let ?k = "next_handle h + 1"
  note step = add_loop.simps [of item counter h, unfolded Let_def]
  show ?case
  proof (cases "map_of (hd_map h) ?k")
    case None
    then have "add_loop item counter h = (Ok ?k, h')" using "1.prems"(2) by (simp add: step)
    then show ?thesis using add_loop_ok [OF "1.prems"(1)] by blast
  next
    case (Some y)
    let ?h = "h\<lparr>next_handle := ?k\<rparr>"
    have inv: "handles_inv ?h" using "1.prems"(1) by (simp add: handles_inv_def)
    show ?thesis
    proof (cases "counter + 1 = - 1")
      case True
      then have "h' = ?h" using Some "1.prems"(2) unfolding step by (simp del: add_left_cancel)
      then show ?thesis using inv by simp
    next
      case False
      then have "add_loop item (counter + 1) ?h = (r, h')" using Some "1.prems"(2) unfolding step by simp
      then show ?thesis using "1.IH" [OF refl refl _ False, of y] Some inv by simp
    qed
  qed
qed

lemma handles_ops_inv:
  "keeps handles_inv (handles_add x)" "keeps handles_inv (handles_remove k)" "keeps handles_inv (handles_get k)"
  "handles_inv h \<Longrightarrow> handles_inv (handles_put k x h)"
proof -
  show "keeps handles_inv (handles_add x)" by (auto simp: keeps_def handles_add_def dest: add_loop_inv)
  show "keeps handles_inv (handles_remove k)"
    by (auto simp: keeps_def handles_remove_def handles_inv_def sorted_wrt_map sorted_wrt_filter split: option.splits)
  show "keeps handles_inv (handles_get k)" by (auto simp: keeps_def handles_get_def split: option.splits)
  have "fst \<circ> (\<lambda>(k', y). (k', if k' = k then x else y)) = fst" by auto
  then show "handles_inv h \<Longrightarrow> handles_inv (handles_put k x h)" by (simp add: handles_inv_def handles_put_def)
qed

section \<open>The manager\<close>

definition manager_inv :: "'d fs_manager \<Rightarrow> bool" where
  "manager_inv m \<longleftrightarrow> (mg_dev m = None) = (mg_fs m \<noteq> None) \<and>
     handles_inv (mg_files m) \<and> handles_inv (mg_dirs m) \<and>
     (mg_fs m = None \<longrightarrow> hd_map (mg_files m) = [] \<and> hd_map (mg_dirs m) = [])"

definition mounted_inv :: "'d fs_manager \<Rightarrow> bool" where
  "mounted_inv m \<longleftrightarrow> manager_inv m \<and> mg_fs m \<noteq> None"

lemma manager_inv_new: "manager_inv (manager_new dev tp)"
  by (simp add: manager_inv_def manager_new_def) (simp add: handles_new_def)

lemma unmount_no_error: "unmount P s \<noteq> Err e"
  by (auto simp: unmount_def split: prod.splits outcome.splits)

lemma clear_handles_simps [simp]:
  "mg_dev (clear_handles m) = mg_dev m" "mg_fs (clear_handles m) = mg_fs m"
  "hd_map (mg_files (clear_handles m)) = []" "hd_map (mg_dirs (clear_handles m)) = []"
  "handles_inv (mg_files (clear_handles m))" "handles_inv (mg_dirs (clear_handles m))"
  by (simp_all add: clear_handles_def) (simp_all add: handles_clear_def)

lemma manager_mount_inv:
  assumes "manager_inv m" and "manager_mount P N m = (r, m')" and "returned r"
  shows "manager_inv m'" and "r = Ok () \<Longrightarrow> mg_fs m' \<noteq> None"
  using assms
  by (auto simp: manager_mount_def Let_def manager_inv_def unmount_no_error split: option.splits prod.splits outcome.splits)

lemma manager_unmount_inv:
  assumes "manager_inv m" and "manager_unmount P m = (r, m')" and "returned r"
  shows "manager_inv m' \<and> mg_fs m' = None \<and> mg_dev m' \<noteq> None \<and> r = Ok ()"
  using assms
  by (auto simp: manager_unmount_def Let_def manager_inv_def unmount_no_error split: option.splits outcome.splits)

lemma take_any_inv: "handles_inv h \<Longrightarrow> take_any h = (x, h') \<Longrightarrow> handles_inv h'"
  by (auto simp: take_any_def handles_inv_def split: list.splits)

lemma shutdown_loop_inv:
  "handles_inv h \<Longrightarrow> shutdown_loop P fe (s, h) = (r, s', h') \<Longrightarrow> returned r \<Longrightarrow> handles_inv h' \<and> hd_map h' = [] \<and> (\<exists>x. r = Ok x)"
proof (induction P fe "(s, h)" arbitrary: s h rule: shutdown_loop.induct)
  case (1 P fe s h)
  note step = shutdown_loop.simps [of P fe s h]
  obtain x h1 where t: "take_any h = (x, h1)" by (cases "take_any h")
  show ?case
  proof (cases x)
    case None
    then show ?thesis using "1.prems" t by (auto simp: step take_any_def handles_inv_def split: list.splits)
  next
    case (Some f)
    have i: "handles_inv h1" using take_any_inv "1.prems"(1) t by blast
    obtain q f' s1 where c: "file_close P (f, s) = (q, f', s1)" by (cases "file_close P (f, s)") auto
    show ?thesis
    proof (cases q)
      case (Ok a)
      then show ?thesis using "1.hyps"(1) [OF t [symmetric] Some c [symmetric] Ok refl i] "1.prems"(2,3) t Some c
        by (simp add: step)
    next
      case (Err e)
      then show ?thesis using "1.hyps"(2) [OF t [symmetric] Some c [symmetric] Err refl i] "1.prems"(2,3) t Some c
        by (simp add: step)
    qed (use "1.prems"(2,3) t Some c in \<open>simp_all add: step\<close>)
  qed
qed

lemma manager_shutdown_inv:
  fixes m :: "'a fs_manager"
  assumes "manager_inv m" and "manager_shutdown P m = (r, m')" and "returned r"
  shows "manager_inv m' \<and> mg_fs m' = None \<and> mg_dev m' \<noteq> None"
proof -
  define stage where "stage m = (case mg_fs m of
         Some fs \<Rightarrow>
           (case shutdown_loop P (Ok ()) (fs, mg_files m) of (r, fs', h) \<Rightarrow>
              let m' = m\<lparr>mg_fs := Some fs', mg_files := h\<rparr> in
              case r of
                Ok first_error \<Rightarrow> (Ok first_error, m'\<lparr>mg_dirs := handles_clear (mg_dirs m')\<rparr>)
              | Err e \<Rightarrow> (Err e, m')
              | Panic \<Rightarrow> (Panic, m')
              | OutOfFuel \<Rightarrow> (OutOfFuel, m'))
       | None \<Rightarrow> (Ok (Ok ()), m))" for m :: "'a fs_manager"
  have sd: "manager_shutdown P = andthen stage (\<lambda>first_error. andthen (manager_unmount P) (\<lambda>_ m. (first_error, m)))"
    by (simp add: manager_shutdown_def stage_def [abs_def])
  obtain q m1 where q: "stage m = (q, m1)" by (cases "stage m")
  have st: "manager_inv m1 \<and> (\<exists>fe. q = Ok fe)" if "returned q"
  proof (cases "mg_fs m")
    case None
    then show ?thesis using q assms(1) by (auto simp: stage_def)
  next
    case (Some fs)
    obtain r' fs' h where l: "shutdown_loop P (Ok ()) (fs, mg_files m) = (r', fs', h)"
      by (cases "shutdown_loop P (Ok ()) (fs, mg_files m)") auto
    have "returned r'" using that q Some l by (auto simp: stage_def Let_def split: outcome.splits)
    then have "handles_inv h" "\<exists>x. r' = Ok x"
      using shutdown_loop_inv [OF _ l] assms(1) by (simp_all add: manager_inv_def)
    then show ?thesis using q Some l assms(1) by (auto simp: stage_def Let_def manager_inv_def)
  qed
  have "returned q" using assms(2,3) q by (auto simp: sd andthen_def split: outcome.splits)
  from st [OF this] obtain fe where fe: "q = Ok fe" and inv: "manager_inv m1" by blast
  obtain q2 m2 where u: "manager_unmount P m1 = (q2, m2)" by (cases "manager_unmount P m1")
  have "m' = m2" "returned q2" using assms(2,3) q fe u by (auto simp: sd andthen_def split: outcome.splits)
  then show ?thesis using manager_unmount_inv [OF inv u] by simp
qed

section \<open>Serving keeps the invariant\<close>

lemma mounted_fs [keeps_intros]: "keeps mounted_inv (on_manager_fs f)"
  unfolding keeps_def on_manager_fs_def mounted_inv_def manager_inv_def
  by (auto split: option.splits prod.splits)

lemma mounted_files:
  assumes "keeps handles_inv g"
  shows "keeps mounted_inv (on_files g)"
  using assms unfolding keeps_def on_files_def zoom_def mounted_inv_def manager_inv_def
  by (auto split: prod.splits)

lemma mounted_dirs:
  assumes "keeps handles_inv g"
  shows "keeps mounted_inv (on_dirs g)"
  using assms unfolding keeps_def on_dirs_def zoom_def mounted_inv_def manager_inv_def
  by (auto split: prod.splits)

lemmas mounted_tables [keeps_intros] =
  handles_ops_inv(1-3) [THEN mounted_files] handles_ops_inv(1-3) [THEN mounted_dirs]

lemma mounted_open_file [keeps_intros]: "keeps mounted_inv (on_open_file E k g)"
proof -
  have "keeps mounted_inv (\<lambda>m. case mg_fs m of
       Some s \<Rightarrow> (case g (f, s) of (r, (f', s')) \<Rightarrow>
         (r, m\<lparr>mg_fs := Some s', mg_files := handles_put k f' (mg_files m)\<rparr>))
     | None \<Rightarrow> (Panic, m))" for f
    unfolding keeps_def mounted_inv_def manager_inv_def
    by (auto intro: handles_ops_inv(4) split: option.splits prod.splits)
  then show ?thesis unfolding on_open_file_def by (intro keeps_intros)
qed

lemma mounted_open_dir [keeps_intros]: "keeps mounted_inv (on_open_dir E k g)"
proof -
  have "keeps mounted_inv (\<lambda>m. case mg_fs m of
       Some s \<Rightarrow> (case g (dir, s) of (r, (dir', s')) \<Rightarrow>
         (r, m\<lparr>mg_fs := Some s', mg_dirs := handles_put k dir' (mg_dirs m)\<rparr>))
     | None \<Rightarrow> (Panic, m))" for dir
    unfolding keeps_def mounted_inv_def manager_inv_def
    by (auto intro: handles_ops_inv(4) split: option.splits prod.splits)
  then show ?thesis unfolding on_open_dir_def by (intro keeps_intros)
qed

lemma serve_keeps: "keeps mounted_inv (serve P E fuel p)"
  by (cases p) (simp_all add: keeps_intros)

lemma handle_req_keeps: "keeps manager_inv (handle_req P E N fuel p)"
proof (rule keepsI)
  fix m r m' assume inv: "manager_inv m" and h: "handle_req P E N fuel p m = (r, m')" and r: "returned r"
  show "manager_inv m'"
  proof (cases "p = OpShutdown")
    case True
    have "keeps manager_inv (manager_shutdown P)" using manager_shutdown_inv by (intro keepsI) blast
    then have "keeps manager_inv (handle_req P E N fuel p)"
      using True by (simp add: handle_req_def keeps_intros)
    then show ?thesis using inv h r by (rule keepsD)
  next
    case False
    obtain q m1 where q: "manager_mount P N m = (q, m1)" by (cases "manager_mount P N m")
    have h': "handle_req P E N fuel p m = (case q of Ok a \<Rightarrow> serve P E fuel p m1
        | Err e \<Rightarrow> (Err (error_from E e), m1) | Panic \<Rightarrow> (Panic, m1) | OutOfFuel \<Rightarrow> (OutOfFuel, m1))"
      using False q by (simp add: handle_req_def andthen_def map_err_def split: outcome.split)
    show ?thesis
    proof (cases q)
      case (Ok a)
      then have "mounted_inv m1" using manager_mount_inv [OF inv q] by (simp add: mounted_inv_def)
      then show ?thesis using keepsD [OF serve_keeps _ _ r] h h' Ok by (force simp: mounted_inv_def)
    next
      case (Err e)
      then show ?thesis using manager_mount_inv(1) [OF inv q] h h' by simp
    qed (use h h' r in simp_all)
  qed
qed

lemma actor_serve_inv:
  assumes "manager_inv m" and "actor_serve P E N fuel p m = (Ok r, m')"
  shows "manager_inv m'" and "r = Inr NoCard \<Longrightarrow> mg_fs m' = None"
proof -
  obtain q m1 where q: "handle_req P E N fuel p m = (q, m1)" by (cases "handle_req P E N fuel p m")
  have "returned q" using assms(2) q by (auto simp: actor_serve_def split: outcome.splits)
  then have i1: "manager_inv m1" using keepsD [OF handle_req_keeps assms(1) q] by blast
  have "manager_inv m' \<and> (r = Inr NoCard \<longrightarrow> mg_fs m' = None)"
  proof (cases "q = Err NoCard")
    case True
    obtain q2 m2 where u: "manager_unmount P m1 = (q2, m2)" by (cases "manager_unmount P m1")
    have "m' = m2" "returned q2" using assms(2) q u True by (auto simp: actor_serve_def split: outcome.splits)
    then show ?thesis using manager_unmount_inv [OF i1 u] by simp
  next
    case False
    then have "m' = m1" "r \<noteq> Inr NoCard" using assms(2) q by (auto simp: actor_serve_def split: outcome.splits if_splits)
    then show ?thesis using i1 by blast
  qed
  then show "manager_inv m'" "r = Inr NoCard \<Longrightarrow> mg_fs m' = None" by blast+
qed

section \<open>The shape of a reply\<close>

fun answers :: "request_op \<Rightarrow> resp \<Rightarrow> bool" where
  "answers (OpReadToString _) r \<longleftrightarrow> (\<exists>s. r = RespReadToString s)"
| "answers (OpReadFileToString _) r \<longleftrightarrow> (\<exists>s. r = RespReadToString s)"
| "answers (OpRead _) r \<longleftrightarrow> (\<exists>d. r = RespRead d)"
| "answers (OpReadFileToEnd _) r \<longleftrightarrow> (\<exists>d. r = RespRead d)"
| "answers (OpReadFile _ _) r \<longleftrightarrow> (\<exists>d. r = RespRead d)"
| "answers (OpOpenFile _ _) r \<longleftrightarrow> (\<exists>h. r = RespFileOpen h)"
| "answers (OpOpenDirectory _) r \<longleftrightarrow> (\<exists>h. r = RespDirectoryOpen h)"
| "answers (OpMetadata _) r \<longleftrightarrow> (\<exists>d. r = RespMetadata d)"
| "answers (OpDirectoryNextEntry _) r \<longleftrightarrow> (\<exists>d. r = RespDirectoryEntry d)"
| "answers (OpExists _) r \<longleftrightarrow> (\<exists>b. r = RespExists b)"
| "answers _ r \<longleftrightarrow> r = RespOk"

lemma serve_answers: "serve P E fuel p m = (Ok r, m') \<Longrightarrow> answers p r"
  by (cases p) (auto simp: ret_def elim!: andthen_okE split: prod.splits)

lemma actor_serve_answers: "actor_serve P E N fuel p m = (Ok (Inl r), m') \<Longrightarrow> answers p r"
  by (cases "p = OpShutdown")
    (auto simp: actor_serve_def handle_req_def ret_def dest: serve_answers elim!: andthen_okE
      split: prod.splits outcome.splits if_splits)

end
