(* ===== verification/Actor_Replies.thy ===== *)
theory Actor_Replies
  imports Actor Manager_Invariant
begin

text \<open>
  Which request a reply belongs to. A request that waits for its reply is in flight (queued, or with the actor) or its
  reply is pending in its slot; never both, never twice, and never in a slot nobody waits on. So every client gets the
  reply to its own request, and the manager went through the served requests one after the other.
\<close>

section \<open>Requests in flight\<close>

definition in_flight :: "('q \<Rightarrow> request list) \<Rightarrow> ('q, 'm, 'g, 'd) system \<Rightarrow> request list" where
  "in_flight items s = (case sy_actor s of Listening \<Rightarrow> [] | Serving rq \<Rightarrow> [rq] | Halted rq \<Rightarrow> [rq]) @ items (sy_channel s)"

abbreviation asked :: "request_op \<Rightarrow> reply_token \<Rightarrow> request" where
  "asked p tok \<equiv> \<lparr>rq_op = p, rq_reply = Some tok\<rparr>"

abbreviation pending_at :: "('g \<Rightarrow> reply_signal option) \<Rightarrow> ('q, 'm, 'g, 'd) system \<Rightarrow> u8 \<Rightarrow> reply_signal option" where
  "pending_at pending s slot \<equiv> pending (sy_signals s ! unat slot)"

definition answered :: "('g \<Rightarrow> reply_signal option) \<Rightarrow> ('q, 'm, 'g, 'd) system \<Rightarrow> request_op \<Rightarrow> reply_token \<Rightarrow> bool" where
  "answered pending s p tok \<longleftrightarrow> (\<exists>r. pending_at pending s (tok_slot tok) = Some \<lparr>sg_seq = tok_seq tok, sg_resp = r\<rparr> \<and>
     (asked p tok, r) \<in> set (sy_served s))"

definition flight_inv :: "('q \<Rightarrow> request list) \<Rightarrow> ('g \<Rightarrow> reply_signal option) \<Rightarrow> ('q, 'm, 'g, 'd) system \<Rightarrow> bool" where
  "flight_inv items pending s \<longleftrightarrow>
     length (sy_signals s) = REPLY_SLOTS \<and>
     distinct (filter (\<lambda>rq. rq_reply rq \<noteq> None) (in_flight items s)) \<and>
     (\<forall>p tok. asked p tok \<in> set (in_flight items s) \<longrightarrow> (\<exists>i. sy_clients s i = Waiting p tok)) \<and>
     (\<forall>i p tok. sy_clients s i = Waiting p tok \<longrightarrow>
       (if asked p tok \<in> set (in_flight items s) then pending_at pending s (tok_slot tok) = None
        else answered pending s p tok)) \<and>
     (\<forall>k < REPLY_SLOTS. pending (sy_signals s ! k) \<noteq> None \<longrightarrow>
       (\<exists>i p tok. sy_clients s i = Waiting p tok \<and> unat (tok_slot tok) = k))"

lemma flight_invD:
  assumes "flight_inv items pending s"
  shows "length (sy_signals s) = REPLY_SLOTS"
    and "distinct (filter (\<lambda>rq. rq_reply rq \<noteq> None) (in_flight items s))"
    and "asked p tok \<in> set (in_flight items s) \<Longrightarrow> \<exists>i. sy_clients s i = Waiting p tok"
    and "sy_clients s i = Waiting p tok \<Longrightarrow> asked p tok \<in> set (in_flight items s) \<Longrightarrow>
      pending_at pending s (tok_slot tok) = None"
    and "sy_clients s i = Waiting p tok \<Longrightarrow> asked p tok \<notin> set (in_flight items s) \<Longrightarrow> answered pending s p tok"
    and "k < REPLY_SLOTS \<Longrightarrow> pending (sy_signals s ! k) \<noteq> None \<Longrightarrow>
      \<exists>i p tok. sy_clients s i = Waiting p tok \<and> unat (tok_slot tok) = k"
  using assms unfolding flight_inv_def by (auto split: if_splits)

lemma flight_invI:
  assumes "length (sy_signals s) = REPLY_SLOTS"
    and "distinct (filter (\<lambda>rq. rq_reply rq \<noteq> None) (in_flight items s))"
    and "\<And>p tok. asked p tok \<in> set (in_flight items s) \<Longrightarrow> \<exists>i. sy_clients s i = Waiting p tok"
    and "\<And>i p tok. sy_clients s i = Waiting p tok \<Longrightarrow> asked p tok \<in> set (in_flight items s) \<Longrightarrow>
      pending_at pending s (tok_slot tok) = None"
    and "\<And>i p tok. sy_clients s i = Waiting p tok \<Longrightarrow> asked p tok \<notin> set (in_flight items s) \<Longrightarrow> answered pending s p tok"
    and "\<And>k. k < REPLY_SLOTS \<Longrightarrow> pending (sy_signals s ! k) \<noteq> None \<Longrightarrow>
      \<exists>i p tok. sy_clients s i = Waiting p tok \<and> unat (tok_slot tok) = k"
  shows "flight_inv items pending s"
  using assms unfolding flight_inv_def by auto

text \<open>A step that moves a client between phases other than waiting.\<close>

lemma flight_inv_phase:
  assumes inv: "flight_inv items pending s"
    and "sy_signals s' = sy_signals s" "in_flight items s' = in_flight items s" "sy_served s' = sy_served s"
    and "sy_clients s' = (sy_clients s)(i := c)"
    and "\<And>p tok. sy_clients s i \<noteq> Waiting p tok" and "\<And>p tok. c \<noteq> Waiting p tok"
  shows "flight_inv items pending s'"
proof -
  have w: "sy_clients s' j = Waiting p tok \<longleftrightarrow> sy_clients s j = Waiting p tok" for j p tok
    using assms(5,6,7) by simp
  show ?thesis using inv unfolding flight_inv_def answered_def w assms(2,3,4) .
qed

text \<open>Two waiting clients with one slot are one client.\<close>

lemma waiting_slot_unique:
  assumes "slot_inv s" and "sy_clients s i = Waiting p tok" and "sy_clients s j = Waiting p' tok'"
    and "unat (tok_slot tok) = unat (tok_slot tok')"
  shows "i = j" and "p = p'" and "tok = tok'"
proof -
  have "tok_slot tok = tok_slot tok'" using assms(4) by (simp add: word_unat_eq_iff)
  then show e: "i = j" using slot_invD(3) [OF assms(1), of i "tok_slot tok" j] assms(2,3) by simp
  show "p = p'" "tok = tok'" using e assms(2,3) by simp_all
qed

lemma stale_impossible:
  assumes "flight_inv items pending s" and "slot_inv s" and "sy_clients s i = Waiting p tok"
    and "pending_at pending s (tok_slot tok) = Some sg"
  shows "sg_seq sg = tok_seq tok" and "(asked p tok, sg_resp sg) \<in> set (sy_served s)"
    and "asked p tok \<notin> set (in_flight items s)"
proof -
  show n: "asked p tok \<notin> set (in_flight items s)" using flight_invD(4) [OF assms(1,3)] assms(4) by auto
  from flight_invD(5) [OF assms(1,3) n] assms(4)
  show "sg_seq sg = tok_seq tok" "(asked p tok, sg_resp sg) \<in> set (sy_served s)"
    by (auto simp: answered_def)
qed

lemma request_cases:
  obtains (silent) "rq_reply rq = None" | (waits) tok where "rq = asked (rq_op rq) tok"
  by (cases rq; cases "rq_reply rq") auto

text \<open>Sending.\<close>

lemma flight_inv_send:
  assumes inv: "flight_inv items pending s" and "slot_inv s" and c: "sy_clients s i = Ready p tok"
    and s': "sy_clients s' = (sy_clients s)(i := Waiting p tok)" "in_flight items s' = in_flight items s @ [asked p tok]"
      "sy_signals s' = sy_signals s" "sy_served s' = sy_served s"
  shows "flight_inv items pending s'"
proof -
  note D = flight_invD [OF inv]
  have slot: "slot_of (sy_clients s i) = Some (tok_slot tok)" using c by simp
  have other: "unat (tok_slot tok') \<noteq> unat (tok_slot tok)" if "sy_clients s j = Waiting p' tok'" for j p' tok'
  proof
    assume "unat (tok_slot tok') = unat (tok_slot tok)"
    then have "slot_of (sy_clients s j) = Some (tok_slot tok)" using that by (simp add: word_unat_eq_iff)
    then have "j = i" using slot_invD(3) [OF assms(2) _ slot] by blast
    then show False using that c by simp
  qed
  have new: "asked p tok \<notin> set (in_flight items s)" using D(3) other by blast
  have none: "pending_at pending s (tok_slot tok) = None"
    using D(6) [OF slot_invD(1) [OF assms(2) slot]] other by blast
  show ?thesis
  proof (rule flight_invI)
    show "distinct (filter (\<lambda>rq. rq_reply rq \<noteq> None) (in_flight items s'))"
      using D(2) new by (simp add: s')
    show "\<exists>j. sy_clients s' j = Waiting p' tok'" if a: "asked p' tok' \<in> set (in_flight items s')" for p' tok'
    proof (cases "asked p' tok' = asked p tok")
      case False
      then obtain j where j: "sy_clients s j = Waiting p' tok'" using a D(3) [of p' tok'] by (auto simp: s')
      then have "j \<noteq> i" using c by auto
      then show ?thesis using j by (auto simp: s')
    qed (auto simp: s')
    show "pending_at pending s' (tok_slot tok') = None"
      if "sy_clients s' j = Waiting p' tok'" "asked p' tok' \<in> set (in_flight items s')" for j p' tok'
      using that none D(4) [of j p' tok'] other [of j p' tok'] by (auto simp: s' split: if_splits)
    show "answered pending s' p' tok'"
      if "sy_clients s' j = Waiting p' tok'" "asked p' tok' \<notin> set (in_flight items s')" for j p' tok'
      using that D(5) [of j p' tok'] by (auto simp: s' answered_def split: if_splits)
    show "\<exists>j p tok. sy_clients s' j = Waiting p tok \<and> unat (tok_slot tok) = k"
      if k: "k < REPLY_SLOTS" "pending (sy_signals s' ! k) \<noteq> None" for k
    proof -
      obtain j p' tok' where "sy_clients s j = Waiting p' tok'" "unat (tok_slot tok') = k"
        using D(6) [OF k(1)] k(2) s'(3) by auto
      moreover then have "j \<noteq> i" using c by auto
      ultimately show ?thesis by (intro exI [of _ j]) (simp add: s')
    qed
  qed (simp add: D(1) s')
qed

text \<open>Waking up: the reply is taken from the slot.\<close>

lemma flight_inv_wake:
  assumes inv: "flight_inv items pending s" and sl: "slot_inv s" and c: "sy_clients s i = Waiting p tok"
    and take: "pending_at pending s (tok_slot tok) = Some sg" "pending g = None"
    and s': "sy_clients s' = (sy_clients s)(i := Answered p tok r)" "in_flight items s' = in_flight items s"
      "sy_signals s' = (sy_signals s)[unat (tok_slot tok) := g]" "sy_served s' = sy_served s"
  shows "flight_inv items pending s'"
proof -
  note D = flight_invD [OF inv]
  have len: "unat (tok_slot tok) < length (sy_signals s)" using slot_invD(1) [OF sl, of i] c D(1) by simp
  have other: "unat (tok_slot tok') \<noteq> unat (tok_slot tok)" if "sy_clients s j = Waiting p' tok'" "j \<noteq> i" for j p' tok'
    using waiting_slot_unique(1) [OF sl c that(1)] that(2) by metis
  have w: "sy_clients s' j = Waiting p' tok' \<longleftrightarrow> sy_clients s j = Waiting p' tok' \<and> j \<noteq> i" for j p' tok'
    by (simp add: s')
  have nth: "sy_signals s' ! k = (if k = unat (tok_slot tok) then g else sy_signals s ! k)" for k
    using len by (simp add: s' nth_list_update)
  show ?thesis
  proof (rule flight_invI)
    show "\<exists>j. sy_clients s' j = Waiting p' tok'" if a: "asked p' tok' \<in> set (in_flight items s')" for p' tok'
    proof -
      obtain j where j: "sy_clients s j = Waiting p' tok'" using D(3) [of p' tok'] a s'(2) by auto
      have "j \<noteq> i" using j c stale_impossible(3) [OF inv sl c take(1)] a s'(2) by auto
      with j show ?thesis unfolding w by blast
    qed
    show "pending_at pending s' (tok_slot tok') = None"
      if "sy_clients s' j = Waiting p' tok'" "asked p' tok' \<in> set (in_flight items s')" for j p' tok'
      using that D(4) [of j p' tok'] unfolding nth s'(2) w by (simp add: take(2))
    show "answered pending s' p' tok'"
      if "sy_clients s' j = Waiting p' tok'" "asked p' tok' \<notin> set (in_flight items s')" for j p' tok'
      using that D(5) [of j p' tok'] other [of j p' tok'] unfolding answered_def nth s'(2,4) w by simp
    show "\<exists>j p tok. sy_clients s' j = Waiting p tok \<and> unat (tok_slot tok) = k"
      if k: "k < REPLY_SLOTS" "pending (sy_signals s' ! k) \<noteq> None" for k
    proof -
      have ne: "k \<noteq> unat (tok_slot tok)" "pending (sy_signals s ! k) \<noteq> None"
        using k(2) take(2) by (auto simp: nth split: if_splits)
      then obtain j p' tok' where "sy_clients s j = Waiting p' tok'" "unat (tok_slot tok') = k"
        using D(6) [OF k(1)] by auto
      moreover then have "j \<noteq> i" using c ne(1) by auto
      ultimately show ?thesis unfolding w by blast
    qed
  qed (use D(1,2) in \<open>simp_all add: s'\<close>)
qed

text \<open>Serving: the request leaves the flight and its reply is signalled.\<close>

lemma flight_inv_serve:
  assumes inv: "flight_inv items pending s" and sl: "slot_inv s" and X: "embassy_ok X items permits pending"
    and fl: "in_flight items s = rq # rest"
    and s': "sy_clients s' = sy_clients s" "in_flight items s' = rest"
      "sy_signals s' = complete X (rq_reply rq) r (sy_signals s)" "sy_served s' = sy_served s @ [(rq, r)]"
  shows "flight_inv items pending s'"
proof (cases rule: request_cases [of rq])
  case silent
  then have n: "asked p tok \<noteq> rq" for p tok by auto
  have m: "asked p tok \<in> set rest \<longleftrightarrow> asked p tok \<in> set (in_flight items s)" for p tok using n by (auto simp: fl)
  have sg: "sy_signals s' = sy_signals s" using s'(3) silent by (simp add: complete_def)
  have d: "distinct (filter (\<lambda>rq. rq_reply rq \<noteq> None) rest)" using flight_invD(2) [OF inv] by (simp add: fl silent)
  have a: "answered pending s p tok \<Longrightarrow> answered pending s' p tok" for p tok by (auto simp: answered_def sg s'(4))
  show ?thesis
    by (rule flight_invI)
      (use flight_invD [OF inv] a d in \<open>simp_all add: s'(1,2) sg m\<close>)
next
  case (waits tok)
  let ?p = "rq_op rq" and ?k = "unat (tok_slot tok)"
  note D = flight_invD [OF inv]
  obtain i where i: "sy_clients s i = Waiting ?p tok" using D(3) [of ?p tok] fl waits by auto
  have len: "?k < length (sy_signals s)" using slot_invD(1) [OF sl, of i] i D(1) by simp
  have rep: "rq_reply rq = Some tok" using waits by (metis request.select_convs(2))
  have nth: "sy_signals s' ! k = (if k = ?k then sig_signal X \<lparr>sg_seq = tok_seq tok, sg_resp = r\<rparr> (sy_signals s ! ?k)
      else sy_signals s ! k)" for k
    using len by (simp add: s' complete_def rep nth_list_update)
  have here: "pending (sy_signals s' ! ?k) = Some \<lparr>sg_seq = tok_seq tok, sg_resp = r\<rparr>"
    by (simp add: nth embassy_laws(10) [OF X])
  have new: "asked ?p tok \<notin> set rest" using D(2) unfolding fl by (subst (asm) waits) (simp add: rep)
  have other: "unat (tok_slot tok') \<noteq> ?k" if "sy_clients s j = Waiting p' tok'" "asked p' tok' \<noteq> rq" for j p' tok'
    using waiting_slot_unique(2,3) [OF sl i that(1)] that(2) waits by metis
  show ?thesis
  proof (rule flight_invI)
    show "length (sy_signals s') = REPLY_SLOTS" using D(1) by (simp add: s' complete_def rep)
    show "distinct (filter (\<lambda>rq. rq_reply rq \<noteq> None) (in_flight items s'))" using D(2) by (simp add: fl s' rep)
    show "\<exists>j. sy_clients s' j = Waiting p' tok'" if "asked p' tok' \<in> set (in_flight items s')" for p' tok'
      using D(3) [of p' tok'] that by (simp add: fl s')
    show "pending_at pending s' (tok_slot tok') = None"
      if a: "sy_clients s' j = Waiting p' tok'" "asked p' tok' \<in> set (in_flight items s')" for j p' tok'
    proof -
      have "asked p' tok' \<noteq> rq" using a(2) new waits s'(2) by metis
      then show ?thesis using other [of j p' tok'] D(4) [of j p' tok'] a by (simp add: nth) (simp add: s' fl)
    qed
    show "answered pending s' p' tok'"
      if a: "sy_clients s' j = Waiting p' tok'" "asked p' tok' \<notin> set (in_flight items s')" for j p' tok'
    proof (cases "asked p' tok' = rq")
      case True
      then have "tok' = tok" "p' = ?p" using waits by (metis request.select_convs option.inject)+
      then show ?thesis using here True unfolding answered_def by (auto simp: s'(4))
    next
      case False
      then have "answered pending s p' tok'" using D(5) [of j p' tok'] a by (simp add: s' fl)
      then show ?thesis using other [of j p' tok'] a(1) False unfolding answered_def nth by (auto simp: s'(1,4))
    qed
    show "\<exists>j p tok. sy_clients s' j = Waiting p tok \<and> unat (tok_slot tok) = k"
      if "k < REPLY_SLOTS" "pending (sy_signals s' ! k) \<noteq> None" for k
      using D(6) [OF that(1)] that(2) i by (auto simp: nth s'(1) split: if_splits)
  qed
qed

lemma flight_inv_step:
  assumes X: "embassy_ok X items permits pending" and "fs_step P E N fuel X n s s'"
    and inv: "flight_inv items pending s" and sl: "slot_inv s"
  shows "flight_inv items pending s'"
  using assms(2)
proof (cases rule: fs_step.cases)
  case (send i p tok q)
  then have "in_flight items s' = in_flight items s @ [asked p tok]"
    using embassy_laws(2) [OF X send(4)] by (simp add: in_flight_def)
  then show ?thesis using send by (intro flight_inv_send [OF inv sl send(3)]) simp_all
next
  case (wake i p tok sg g)
  then show ?thesis using embassy_laws(11) [OF X wake(4)]
    by (intro flight_inv_wake [OF inv sl wake(3), of sg g]) (simp_all add: in_flight_def)
next
  case (stale i p tok sg g)
  then show ?thesis using embassy_laws(11) [OF X stale(4)] stale_impossible(1) [OF inv sl stale(3)] by blast
next
  case (drop_handle rq handle q)
  then have fl: "in_flight items s' = in_flight items s @ [rq]" and n: "rq_reply rq = None"
    using embassy_laws(2) [OF X drop_handle(3)] by (auto simp: in_flight_def drop_file_def drop_directory_def)
  have m: "asked p tok \<in> set (in_flight items s') \<longleftrightarrow> asked p tok \<in> set (in_flight items s)" for p tok
    using n by (auto simp: fl)
  have d: "filter (\<lambda>rq. rq_reply rq \<noteq> None) (in_flight items s') = filter (\<lambda>rq. rq_reply rq \<noteq> None) (in_flight items s)"
    using n by (simp add: fl)
  have same: "sy_signals s' = sy_signals s" "sy_clients s' = sy_clients s" "sy_served s' = sy_served s"
    using drop_handle(1) by simp_all
  show ?thesis using inv unfolding flight_inv_def answered_def m d same .
next
  case (receive rq q)
  then have "in_flight items s' = in_flight items s"
    using embassy_laws(4) [OF X receive(3)] by (simp add: in_flight_def)
  then show ?thesis using inv receive(1) unfolding flight_inv_def answered_def by simp
next
  case (serve rq r m)
  then show ?thesis
    by (intro flight_inv_serve [OF inv sl X, of rq "items (sy_channel s)"]) (simp_all add: in_flight_def)
next
  case (halt rq r m)
  then have "in_flight items s' = in_flight items s" by (simp add: in_flight_def)
  then show ?thesis using inv halt(1) unfolding flight_inv_def answered_def by simp
next
  case (cancel i)
  then have "in_flight items s' = in_flight items s" by (simp add: in_flight_def)
  then show ?thesis using inv cancel(1) unfolding flight_inv_def answered_def by simp
next
  case (acquire i m p)
  then show ?thesis
    by (intro flight_inv_phase [OF inv, where i = i and c = "Permitted p"]) (auto simp: in_flight_def)
qed (auto intro!: flight_inv_phase [OF inv] simp: in_flight_def)

section \<open>What was served\<close>

fun result_of :: "client \<Rightarrow> (request \<times> reply) option" where
  "result_of (Answered p tok r) = Some (asked p tok, r)"
| "result_of (Released p tok r) = Some (asked p tok, r)"
| "result_of (Finished p tok r) = Some (asked p tok, r)"
| "result_of c = None"

definition result_inv :: "('q, 'm, 'g, 'd) system \<Rightarrow> bool" where
  "result_inv s \<longleftrightarrow> (\<forall>i x. result_of (sy_clients s i) = Some x \<longrightarrow> x \<in> set (sy_served s))"

lemma result_inv_step:
  assumes X: "embassy_ok X items permits pending" and "fs_step P E N fuel X n s s'"
    and "flight_inv items pending s" and "slot_inv s" and inv: "result_inv s"
  shows "result_inv s'"
  using assms(2)
proof (cases rule: fs_step.cases)
  case (wake i p tok sg g)
  have "(asked p tok, sg_resp sg) \<in> set (sy_served s)"
    using embassy_laws(11) [OF X wake(4)] stale_impossible(2) [OF assms(3,4) wake(3)] by blast
  then show ?thesis using wake inv by (auto simp: result_inv_def)
next
  case (unlock i p tok r)
  then have "result_of (sy_clients s i) = Some (asked p tok, r)" by simp
  then have "(asked p tok, r) \<in> set (sy_served s)" using inv unfolding result_inv_def by blast
  then show ?thesis using unlock inv by (auto simp: result_inv_def)
next
  case (release i p tok r)
  then have "result_of (sy_clients s i) = Some (asked p tok, r)" by simp
  then have "(asked p tok, r) \<in> set (sy_served s)" using inv unfolding result_inv_def by blast
  then show ?thesis using release inv by (auto simp: result_inv_def)
qed (use inv in \<open>auto simp: result_inv_def split: if_splits\<close>)

text \<open>
  The sequential execution of a list of requests by the manager alone, with the replies it gives.
\<close>

fun replay :: "('d, 'e) platform \<Rightarrow> 'e device_error \<Rightarrow> nat \<Rightarrow> nat \<Rightarrow> (request \<times> reply) list \<Rightarrow>
    'd fs_manager \<Rightarrow> 'd fs_manager \<Rightarrow> bool" where
  "replay P E N fuel [] m m' \<longleftrightarrow> m' = m"
| "replay P E N fuel ((rq, r) # served) m m' \<longleftrightarrow>
     (\<exists>m1. actor_serve P E N fuel (rq_op rq) m = (Ok r, m1) \<and> replay P E N fuel served m1 m')"

lemma replay_append:
  "replay P E N fuel (xs @ ys) m m' \<longleftrightarrow> (\<exists>m1. replay P E N fuel xs m m1 \<and> replay P E N fuel ys m1 m')"
proof (induction xs arbitrary: m)
  case (Cons x xs)
  obtain rq r where x: "x = (rq, r)" by (cases x)
  show ?case unfolding x append_Cons replay.simps Cons.IH by metis
qed simp

lemma replay_inv: "manager_inv m \<Longrightarrow> replay P E N fuel served m m' \<Longrightarrow> manager_inv m'"
proof (induction served arbitrary: m)
  case (Cons x served)
  obtain rq r where x: "x = (rq, r)" by (cases x)
  then obtain m1 where "actor_serve P E N fuel (rq_op rq) m = (Ok r, m1)" "replay P E N fuel served m1 m'"
    using Cons.prems(2) by auto
  then show ?case using Cons.IH actor_serve_inv(1) Cons.prems(1) by metis
qed simp

lemma replay_answers: "replay P E N fuel served m m' \<Longrightarrow> (rq, Inl x) \<in> set served \<Longrightarrow> answers (rq_op rq) x"
proof (induction served arbitrary: m)
  case (Cons y served)
  obtain rq' r where y: "y = (rq', r)" by (cases y)
  then obtain m1 where "actor_serve P E N fuel (rq_op rq') m = (Ok r, m1)" "replay P E N fuel served m1 m'"
    using Cons.prems(1) by auto
  then show ?case using Cons.IH Cons.prems(2) actor_serve_answers y by (metis prod.inject set_ConsD)
qed simp

definition replay_here :: "('d, 'e) platform \<Rightarrow> 'e device_error \<Rightarrow> nat \<Rightarrow> nat \<Rightarrow> 'd fs_manager \<Rightarrow>
    ('q, 'm, 'g, 'd) system \<Rightarrow> bool" where
  "replay_here P E N fuel m0 s \<longleftrightarrow> (\<exists>m. replay P E N fuel (sy_served s) m0 m \<and>
     ((\<exists>rq. sy_actor s = Halted rq) \<or> sy_manager s = m))"

lemma replay_step:
  assumes "fs_step P E N fuel X n s s'" and "replay_here P E N fuel m0 s"
  shows "replay_here P E N fuel m0 s'"
  using assms
  by (cases rule: fs_step.cases) (auto simp: replay_here_def replay_append)

section \<open>The reachable states\<close>

definition system_inv :: "('q \<Rightarrow> request list) \<Rightarrow> ('g \<Rightarrow> reply_signal option) \<Rightarrow> ('q, 'm, 'g, 'd) system \<Rightarrow> bool" where
  "system_inv items pending s \<longleftrightarrow> slot_inv s \<and> flight_inv items pending s \<and> result_inv s"

lemma system_inv_init:
  assumes "embassy_ok X items permits pending"
  shows "system_inv items pending (system_init X device tp)" and "permit_inv permits n (system_init X device tp)"
  using embassy_laws(1,6,9) [OF assms]
  by (simp_all add: system_inv_def permit_inv_def slot_inv_def flight_inv_def result_inv_def system_init_def in_flight_def)

lemma reachable_any:
  assumes X: "embassy_ok X items permits pending" and "reachable P E N fuel X n device tp s"
  shows "permit_inv permits n s" and "replay_here P E N fuel (manager_new device tp) s"
  using assms(2)
proof (induction rule: reachable.induct)
  case start
  { case 1 show ?case by (rule system_inv_init [OF X]) }
  { case 2 show ?case by (simp add: replay_here_def system_init_def) }
next
  case (step s s')
  { case 1 show ?case using step permit_inv_step [OF X step(2)] by blast }
  { case 2 show ?case using step replay_step by blast }
qed

lemma reachable_inv:
  assumes X: "embassy_ok X items permits pending" and "reachable P E N fuel X n device tp s" and n: "n \<le> REPLY_SLOTS"
  shows "system_inv items pending s"
  using assms(2)
proof (induction rule: reachable.induct)
  case start
  show ?case by (rule system_inv_init [OF X])
next
  case (step s s')
  show ?case
    using step.IH slot_inv_step [OF step(2) _ reachable_any(1) [OF X step(1)] n]
      flight_inv_step [OF X step(2)] result_inv_step [OF X step(2)] by (simp add: system_inv_def)
qed

end
