(* ===== verification/Actor_Runs.thy ===== *)
theory Actor_Runs
  imports Actor_Replies
begin

text \<open>
  Runs of the shared file system, on what can be seen of it whatever the primitives are: the clients, the slot bitmap,
  the sequence number, the requests in the channel, the pending signals, the manager and the history. A phase of a call
  is one lemma, so a run is a chain of them.
\<close>

section \<open>Phases of a call\<close>

record 'd sight =
  si_clients :: "nat \<Rightarrow> client"
  si_bitmap :: u32
  si_seq :: u32
  si_queue :: "request list"
  si_pending :: "reply_signal option list"
  si_manager :: "'d fs_manager"
  si_served :: "(request \<times> reply) list"

definition sight_of :: "('q \<Rightarrow> request list) \<Rightarrow> ('g \<Rightarrow> reply_signal option) \<Rightarrow> ('q, 'm, 'g, 'd) system \<Rightarrow> 'd sight" where
  "sight_of items pending s = \<lparr>si_clients = sy_clients s, si_bitmap = sy_slot_bitmap s, si_seq = sy_seq s,
     si_queue = items (sy_channel s), si_pending = map pending (sy_signals s), si_manager = sy_manager s,
     si_served = sy_served s\<rparr>"

text \<open>A state with that sight is reachable in which the actor listens and no call was dropped.\<close>

definition seen :: "('d, 'e) platform \<Rightarrow> 'e device_error \<Rightarrow> nat \<Rightarrow> nat \<Rightarrow> ('q, 'm, 'g) embassy \<Rightarrow> nat \<Rightarrow> 'd \<Rightarrow>
    (nat \<Rightarrow> timestamp) option \<Rightarrow> ('q \<Rightarrow> request list) \<Rightarrow> ('g \<Rightarrow> reply_signal option) \<Rightarrow> 'd sight \<Rightarrow> bool" where
  "seen P E N fuel X n device tp items pending v \<longleftrightarrow> (\<exists>s. reachable P E N fuel X n device tp s \<and>
     sight_of items pending s = v \<and> sy_actor s = Listening \<and> sy_dropped s = {})"

lemma seenI:
  assumes "reachable P E N fuel X n device tp s" and "fs_step P E N fuel X n s s'" and "sight_of items pending s' = v"
    and "sy_actor s' = Listening" and "sy_dropped s' = {}"
  shows "seen P E N fuel X n device tp items pending v"
  unfolding seen_def using reachable.step [OF assms(1,2)] assms(3-5) by blast

lemma seenE:
  assumes "seen P E N fuel X n device tp items pending v"
  obtains s where "reachable P E N fuel X n device tp s" and "sight_of items pending s = v" and "sy_actor s = Listening"
    and "sy_dropped s = {}" and "sy_clients s = si_clients v" and "sy_slot_bitmap s = si_bitmap v" and "sy_seq s = si_seq v"
    and "items (sy_channel s) = si_queue v" and "map pending (sy_signals s) = si_pending v" and "sy_manager s = si_manager v"
    and "sy_served s = si_served v"
  using assms by (auto simp: seen_def sight_of_def)

lemma run_start:
  assumes X: "embassy_ok X items permits pending"
  shows "seen P E N fuel X n device tp items pending \<lparr>si_clients = (\<lambda>_. Idle), si_bitmap = 0, si_seq = 1, si_queue = [],
    si_pending = replicate REPLY_SLOTS None, si_manager = manager_new device tp, si_served = []\<rparr>"
  unfolding seen_def using embassy_laws(1,9) [OF X]
  by (intro exI [of _ "system_init X device tp"] conjI reachable.start) (simp_all add: sight_of_def system_init_def)

lemma run_claim:
  assumes X: "embassy_ok X items permits pending" and seen: "seen P E N fuel X n device tp items pending v"
    and i: "i < n" "si_clients v i = Idle" and c: "claim_slot_locked (si_bitmap v) = (slot, bm)"
  shows "seen P E N fuel X n device tp items pending (v\<lparr>si_clients := (si_clients v)(i := Claimed p slot), si_bitmap := bm\<rparr>)"
proof -
  obtain s where s: "reachable P E N fuel X n device tp s" "sight_of items pending s = v" "sy_actor s = Listening"
    "sy_dropped s = {}" "sy_clients s = si_clients v" "sy_slot_bitmap s = si_bitmap v" using seen by (rule seenE)
  have "0 < permits (sy_free_slots s)" using reachable_any(1) [OF X s(1)] by (simp add: permit_inv_def REPLY_SLOTS_def)
  then obtain m where m: "sem_acquire X (sy_free_slots s) = Some m" using embassy_laws(14) [OF X] by blast
  let ?s1 = "set_client i (Permitted p) (s\<lparr>sy_free_slots := sem_drop X m\<rparr>)"
  have "fs_step P E N fuel X n s ?s1" using i m s(5) by (intro fs_step.acquire) simp_all
  then have r: "reachable P E N fuel X n device tp ?s1" using s(1) by (rule reachable.step [rotated])
  have "fs_step P E N fuel X n ?s1 (set_client i (Claimed p slot) (?s1\<lparr>sy_slot_bitmap := bm\<rparr>))"
    using c s(4,6) by (intro fs_step.claim) simp_all
  then show ?thesis
    by (rule seenI [OF r]) (use s(2-4) in \<open>auto simp: sight_of_def set_client_def\<close>)
qed

lemma run_send:
  assumes X: "embassy_ok X items permits pending" and seen: "seen P E N fuel X n device tp items pending v"
    and i: "si_clients v i = Claimed p slot" and room: "length (si_queue v) < REQ_CAPACITY"
    and tok: "tok = \<lparr>tok_slot = slot, tok_seq = si_seq v\<rparr>"
  shows "seen P E N fuel X n device tp items pending (v\<lparr>si_clients := (si_clients v)(i := Waiting p tok),
    si_seq := si_seq v + 1, si_queue := si_queue v @ [asked p tok]\<rparr>)"
proof -
  obtain s where s: "reachable P E N fuel X n device tp s" "sight_of items pending s = v" "sy_actor s = Listening"
    "sy_dropped s = {}" "sy_clients s = si_clients v" "sy_seq s = si_seq v" "items (sy_channel s) = si_queue v"
    using seen by (rule seenE)
  let ?s1 = "set_client i (Ready p tok) (s\<lparr>sy_seq := sy_seq s + 1\<rparr>)"
  have "fs_step P E N fuel X n s ?s1" using i s fs_step.number [of i s p slot P E N fuel X n] by (simp add: tok)
  then have r: "reachable P E N fuel X n device tp ?s1" using s(1) by (rule reachable.step [rotated])
  obtain q where q: "ch_send X (asked p tok) (sy_channel s) = Some q" using embassy_laws(3) [OF X] room s(7) by metis
  have "fs_step P E N fuel X n ?s1 (set_client i (Waiting p tok) (?s1\<lparr>sy_channel := q\<rparr>))"
    using q s(4) by (intro fs_step.send) simp_all
  then show ?thesis
    by (rule seenI [OF r]) (use s(2-4) embassy_laws(2) [OF X q] in \<open>auto simp: sight_of_def set_client_def\<close>)
qed

lemma run_serve:
  assumes X: "embassy_ok X items permits pending" and seen: "seen P E N fuel X n device tp items pending v"
    and q: "si_queue v = asked p tok # rest" and a: "actor_serve P E N fuel p (si_manager v) = (Ok r, m)"
  shows "seen P E N fuel X n device tp items pending (v\<lparr>si_queue := rest, si_manager := m,
    si_pending := (si_pending v)[unat (tok_slot tok) := Some \<lparr>sg_seq = tok_seq tok, sg_resp = r\<rparr>],
    si_served := si_served v @ [(asked p tok, r)]\<rparr>)"
proof -
  obtain s where s: "reachable P E N fuel X n device tp s" "sight_of items pending s = v" "sy_actor s = Listening"
    "sy_dropped s = {}" "items (sy_channel s) = si_queue v" "sy_manager s = si_manager v" using seen by (rule seenE)
  obtain rq q' where rq: "ch_receive X (sy_channel s) = Some (rq, q')" using embassy_laws(5) [OF X] s(5) q by fastforce
  then have iq: "rq = asked p tok" "items q' = rest" using embassy_laws(4) [OF X rq] s(5) q by simp_all
  let ?s1 = "s\<lparr>sy_channel := q', sy_actor := Serving rq\<rparr>"
  have r: "reachable P E N fuel X n device tp ?s1"
    by (rule reachable.step [OF s(1)], rule fs_step.receive [OF s(3) rq])
  from fs_step.serve [of ?s1 rq P E N fuel r m X n] have st: "fs_step P E N fuel X n ?s1 (?s1\<lparr>sy_manager := m,
      sy_actor := Listening, sy_signals := complete X (rq_reply rq) r (sy_signals ?s1),
      sy_served := sy_served ?s1 @ [(rq, r)]\<rparr>)" using a iq(1) s(6) by simp
  show ?thesis
    by (rule seenI [OF r st]) (use s(2-4) embassy_laws(10) [OF X] in \<open>auto simp: sight_of_def complete_def iq map_update\<close>)
qed

text \<open>A waiting client takes the signal of its slot: its own reply, or one it throws away.\<close>

lemma run_take:
  assumes X: "embassy_ok X items permits pending" and seen: "seen P E N fuel X n device tp items pending v"
    and i: "si_clients v i = Waiting p tok" and k: "unat (tok_slot tok) < length (si_pending v)"
    and sg: "si_pending v ! unat (tok_slot tok) = Some sg"
  shows "seen P E N fuel X n device tp items pending (v\<lparr>si_pending := (si_pending v)[unat (tok_slot tok) := None],
    si_clients := if sg_seq sg = tok_seq tok then (si_clients v)(i := Answered p tok (sg_resp sg)) else si_clients v\<rparr>)"
proof -
  obtain s where s: "reachable P E N fuel X n device tp s" "sight_of items pending s = v" "sy_actor s = Listening"
    "sy_dropped s = {}" "sy_clients s = si_clients v" "map pending (sy_signals s) = si_pending v" using seen by (rule seenE)
  have "pending (sy_signals s ! unat (tok_slot tok)) = Some sg" using sg k unfolding s(6) [symmetric] by simp
  then obtain g where g: "sig_take X (sy_signals s ! unat (tok_slot tok)) = Some (sg, g)" using embassy_laws(12) [OF X] by blast
  note pg = embassy_laws(11) [OF X g]
  show ?thesis
  proof (cases "sg_seq sg = tok_seq tok")
    case True
    from fs_step.wake [of i s p tok X sg g P E N fuel n] True i g s
    have "fs_step P E N fuel X n s (set_client i (Answered p tok (sg_resp sg))
       (s\<lparr>sy_signals := (sy_signals s)[unat (tok_slot tok) := g]\<rparr>))" by simp
    then show ?thesis
    by (rule seenI [OF s(1)]) (use s(2-4) pg True in \<open>auto simp: sight_of_def set_client_def map_update\<close>)
  next
    case False
    from fs_step.stale [of i s p tok X sg g P E N fuel n] False i g s
    have "fs_step P E N fuel X n s (s\<lparr>sy_signals := (sy_signals s)[unat (tok_slot tok) := g]\<rparr>)" by simp
    then show ?thesis
    by (rule seenI [OF s(1)]) (use s(2-4) pg False in \<open>auto simp: sight_of_def map_update\<close>)
  qed
qed

text \<open>An answered client gives its slot and a permit back.\<close>

lemma run_finish:
  assumes X: "embassy_ok X items permits pending" and seen: "seen P E N fuel X n device tp items pending v"
    and i: "si_clients v i = Answered p tok r"
  shows "seen P E N fuel X n device tp items pending (v\<lparr>si_clients := (si_clients v)(i := Finished p tok r),
    si_bitmap := release_slot_locked (tok_slot tok) (si_bitmap v)\<rparr>)"
proof -
  obtain s where s: "reachable P E N fuel X n device tp s" "sight_of items pending s = v" "sy_actor s = Listening"
    "sy_dropped s = {}" "sy_clients s = si_clients v" "sy_slot_bitmap s = si_bitmap v" using seen by (rule seenE)
  let ?s1 = "set_client i (Released p tok r) (s\<lparr>sy_slot_bitmap := release_slot_locked (tok_slot tok) (sy_slot_bitmap s)\<rparr>)"
  have "fs_step P E N fuel X n s ?s1" using i s(4,5) by (intro fs_step.unlock) simp_all
  then have r: "reachable P E N fuel X n device tp ?s1" using s(1) by (rule reachable.step [rotated])
  have "fs_step P E N fuel X n ?s1 (set_client i (Finished p tok r) (?s1\<lparr>sy_free_slots := sem_release X (sy_free_slots ?s1)\<rparr>))"
    using s(4) by (intro fs_step.release) simp_all
  then show ?thesis
    by (rule seenI [OF r]) (use s(2-4) in \<open>auto simp: sight_of_def set_client_def\<close>)
qed

section \<open>A run that loses a reply\<close>

text \<open>A manager with nothing mounted answers a shutdown at once and stays as it is.\<close>

lemma shutdown_unmounted:
  "actor_serve P E N fuel OpShutdown (manager_new device tp) = (Ok (Inl RespOk), manager_new device tp)"
  by (simp add: manager_new_def actor_serve_def handle_req_def map_err_def manager_shutdown_def andthen_def
      manager_unmount_def ret_def clear_handles_def handles_clear_def handles_new_def)

abbreviation token :: "u8 \<Rightarrow> u32 \<Rightarrow> reply_token" where
  "token slot seq \<equiv> \<lparr>tok_slot = slot, tok_seq = seq\<rparr>"

lemma claims:
  "claim_slot_locked 0 = (0, 1)" "claim_slot_locked 1 = (1, 3)" "claim_slot_locked 3 = (2, 7)"
  "claim_slot_locked 7 = (3, 15)" "claim_slot_locked 15 = (0, 15)" "release_slot_locked 0 1 = 0" "release_slot_locked 0 15 = 14"
  by code_simp+

text \<open>
  Five clients claim a slot; the fifth finds all bits set and gets slot 0, which client 0 has. Client 0 and the fifth send
  their requests and wait on the same signal; the fifth takes the reply to client 0, which has not its number, throws it
  away, and gets its own.
\<close>

definition five :: "client \<Rightarrow> client \<Rightarrow> nat \<Rightarrow> client" where
  "five first fifth = (\<lambda>_. Idle)(0 := first, 1 := Claimed OpShutdown 1, 2 := Claimed OpShutdown 2,
     3 := Claimed OpShutdown 3, 4 := fifth)"

definition five_sight :: "client \<Rightarrow> client \<Rightarrow> u32 \<Rightarrow> u32 \<Rightarrow> request list \<Rightarrow> reply_signal option \<Rightarrow> 'd fs_manager \<Rightarrow>
    (request \<times> reply) list \<Rightarrow> 'd sight" where
  "five_sight first fifth bm sq q sig mg sv = \<lparr>si_clients = five first fifth, si_bitmap = bm, si_seq = sq, si_queue = q,
     si_pending = [sig, None, None, None], si_manager = mg, si_served = sv\<rparr>"

lemma five_claimed:
  assumes X: "embassy_ok X items permits pending" and n: "REPLY_SLOTS < n"
  shows "seen P E N fuel X n device tp items pending
    (five_sight (Claimed OpShutdown 0) (Claimed OpShutdown 0) 15 1 [] None (manager_new device tp) [])"
proof -
  let ?p = "OpShutdown"
  let ?S = "\<lambda>cl bm. seen P E N fuel X n device tp items pending \<lparr>si_clients = cl, si_bitmap = bm, si_seq = 1, si_queue = [],
    si_pending = replicate REPLY_SLOTS None, si_manager = manager_new device tp, si_served = []\<rparr>"
  let ?c1 = "(\<lambda>_. Idle)(0 := Claimed ?p 0)"
  let ?c2 = "?c1(1 := Claimed ?p 1)" and ?c3 = "?c1(1 := Claimed ?p 1, 2 := Claimed ?p 2)"
  let ?c4 = "?c1(1 := Claimed ?p 1, 2 := Claimed ?p 2, 3 := Claimed ?p 3)"
  have n': "4 < n" using n by (simp add: REPLY_SLOTS_def)
  have "?S (\<lambda>_. Idle) 0" by (rule run_start [OF X])
  from run_claim [OF X this, of 0 0 1 ?p] have "?S ?c1 1" using claims(1) n' by simp
  from run_claim [OF X this, of 1 1 3 ?p] have "?S ?c2 3" using claims(2) n' by simp
  from run_claim [OF X this, of 2 2 7 ?p] have "?S ?c3 7" using claims(3) n' by simp
  from run_claim [OF X this, of 3 3 15 ?p] have "?S ?c4 15" using claims(4) n' by simp
  from run_claim [OF X this, of 4 0 15 ?p] have "?S (?c4(4 := Claimed ?p 0)) 15" using claims(5) n' by simp
  then show ?thesis by (simp add: five_sight_def five_def REPLY_SLOTS_def numeral_nat)
qed

lemma five_simps [simp]:
  "five a b 0 = a" "five a b 4 = b" "(five a b)(0 := c) = five c b" "(five a b)(4 := c) = five a c"
  by (simp_all add: five_def fun_eq_iff)

lemma lost_reply_run:
  assumes X: "embassy_ok X items permits pending" and n: "REPLY_SLOTS < n"
  shows "seen P E N fuel X n device tp items pending
    (five_sight (Waiting OpShutdown (token 0 1)) (Finished OpShutdown (token 0 2) (Inl RespOk)) 14 3 [] None
      (manager_new device tp) [(asked OpShutdown (token 0 1), Inl RespOk), (asked OpShutdown (token 0 2), Inl RespOk)])"
proof -
  let ?p = "OpShutdown" and ?m = "manager_new device tp" and ?t = "token 0 1" and ?u = "token 0 2"
  let ?S = "seen P E N fuel X n device tp items pending"
  let ?sv = "[(asked ?p ?t, Inl RespOk)]" and ?r = "\<lambda>sq. Some \<lparr>sg_seq = sq, sg_resp = Inl RespOk\<rparr>"
  note fs = five_sight_def REQ_CAPACITY_def
  note sh = shutdown_unmounted [of P E N fuel device tp]
  have "?S (five_sight (Claimed ?p 0) (Claimed ?p 0) 15 1 [] None ?m [])" by (rule five_claimed [OF X n])
  from run_send [OF X this, of 0 ?p 0 ?t]
  have "?S (five_sight (Waiting ?p ?t) (Claimed ?p 0) 15 2 [asked ?p ?t] None ?m [])" by (simp add: fs)
  from run_send [OF X this, of 4 ?p 0 ?u]
  have "?S (five_sight (Waiting ?p ?t) (Waiting ?p ?u) 15 3 [asked ?p ?t, asked ?p ?u] None ?m [])" by (simp add: fs)
  from run_serve [OF X this, of ?p ?t "[asked ?p ?u]" "Inl RespOk" ?m] sh
  have "?S (five_sight (Waiting ?p ?t) (Waiting ?p ?u) 15 3 [asked ?p ?u] (?r 1) ?m ?sv)" by (simp add: fs)
  from run_take [OF X this, of 4 ?p ?u "\<lparr>sg_seq = 1, sg_resp = Inl RespOk\<rparr>"]
  have "?S (five_sight (Waiting ?p ?t) (Waiting ?p ?u) 15 3 [asked ?p ?u] None ?m ?sv)" by (simp add: fs)
  from run_serve [OF X this, of ?p ?u "[]" "Inl RespOk" ?m] sh
  have "?S (five_sight (Waiting ?p ?t) (Waiting ?p ?u) 15 3 [] (?r 2) ?m (?sv @ [(asked ?p ?u, Inl RespOk)]))" by (simp add: fs)
  from run_take [OF X this, of 4 ?p ?u "\<lparr>sg_seq = 2, sg_resp = Inl RespOk\<rparr>"]
  have "?S (five_sight (Waiting ?p ?t) (Answered ?p ?u (Inl RespOk)) 15 3 [] None ?m (?sv @ [(asked ?p ?u, Inl RespOk)]))"
    by (simp add: fs)
  from run_finish [OF X this, of 4 ?p ?u "Inl RespOk"] claims(7) show ?thesis by (simp add: fs)
qed

end
