(* ===== verification/Actor_Progress.thy ===== *)
theory Actor_Progress
  imports Actor_Runs
begin

text \<open>
  Progress of the actor: a request in the channel is never overtaken, and the steps of the actor alone lead to its reply.
\<close>

section \<open>Requests in flight\<close>

text \<open>A step of the actor is one that changes what the actor is doing: it takes a request or serves one.\<close>

definition actor_step :: "('d, 'e) platform \<Rightarrow> 'e device_error \<Rightarrow> nat \<Rightarrow> nat \<Rightarrow> ('q, 'm, 'g) embassy \<Rightarrow> nat \<Rightarrow>
    ('q, 'm, 'g, 'd) system \<Rightarrow> ('q, 'm, 'g, 'd) system \<Rightarrow> bool" where
  "actor_step P E N fuel X n s s' \<longleftrightarrow> fs_step P E N fuel X n s s' \<and> sy_actor s' \<noteq> sy_actor s"

text \<open>The number of requests before one.\<close>

definition ahead :: "('q \<Rightarrow> request list) \<Rightarrow> request \<Rightarrow> ('q, 'm, 'g, 'd) system \<Rightarrow> nat" where
  "ahead items rq s = length (takeWhile (\<lambda>r. r \<noteq> rq) (in_flight items s))"

lemma in_flight_step:
  assumes X: "embassy_ok X items permits pending" and "fs_step P E N fuel X n s s'"
  obtains ys where "in_flight items s' = in_flight items s @ ys" | rq where "in_flight items s = rq # in_flight items s'"
  using assms(2)
proof (cases rule: fs_step.cases)
  case (send i p tok q)
  then show thesis using that(1) embassy_laws(2) [OF X send(4)] by (simp add: in_flight_def set_client_def)
next
  case (drop_handle rq h q)
  then show thesis using that(1) embassy_laws(2) [OF X drop_handle(3)] by (simp add: in_flight_def)
next
  case (receive rq q)
  then show thesis using that(1) [of "[]"] embassy_laws(4) [OF X receive(3)] by (simp add: in_flight_def)
next
  case (serve rq r m)
  then show thesis using that(2) [of rq] by (simp add: in_flight_def)
qed (use that(1) [of "[]"] in \<open>simp_all add: in_flight_def set_client_def\<close>)

text \<open>Nothing that happens puts a request further back.\<close>

lemma not_overtaken:
  assumes "embassy_ok X items permits pending" and "fs_step P E N fuel X n s s'" and "rq \<in> set (in_flight items s)"
    and "rq \<in> set (in_flight items s')" and d: "distinct (filter (\<lambda>rq. rq_reply rq \<noteq> None) (in_flight items s))" and "rq_reply rq \<noteq> None"
  shows "ahead items rq s' \<le> ahead items rq s"
proof (rule in_flight_step [OF assms(1,2)])
  fix ys assume "in_flight items s' = in_flight items s @ ys"
  then show ?thesis using assms(3) by (simp add: ahead_def takeWhile_append1)
next
  fix r assume r: "in_flight items s = r # in_flight items s'"
  then have "r \<noteq> rq" using d assms(4,6) by auto
  then show ?thesis using r by (simp add: ahead_def)
qed

section \<open>The reply comes\<close>

lemma served_eventually:
  assumes X: "embassy_ok X items permits pending" and n: "n \<le> REPLY_SLOTS"
  shows "reachable P E N fuel X n device tp s \<Longrightarrow> sy_clients s i = Waiting p tok \<Longrightarrow> asked p tok \<in> set (in_flight items s) \<Longrightarrow>
    \<exists>k s'. k \<le> 2 * ahead items (asked p tok) s + (if sy_actor s = Listening then 2 else 1) \<and> ((actor_step P E N fuel X n) ^^ k) s s' \<and>
      reachable P E N fuel X n device tp s' \<and> sy_clients s' = sy_clients s \<and> sy_dropped s' = sy_dropped s \<and>
      ((\<exists>rq. sy_actor s' = Halted rq) \<or> asked p tok \<notin> set (in_flight items s'))"
proof (induction "2 * ahead items (asked p tok) s + (if sy_actor s = Listening then 2 else 1)" arbitrary: s rule: less_induct)
  case less
  let ?R = "actor_step P E N fuel X n" and ?rq = "asked p tok"
  have step: ?case if st: "?R s s1" and same: "sy_clients s1 = sy_clients s" "sy_dropped s1 = sy_dropped s"
    and go: "?rq \<in> set (in_flight items s1) \<Longrightarrow> (\<nexists>rq. sy_actor s1 = Halted rq) \<Longrightarrow>
      2 * ahead items ?rq s1 + (if sy_actor s1 = Listening then 2 else 1) <
      2 * ahead items ?rq s + (if sy_actor s = Listening then 2 else 1)" for s1
  proof -
    have r1: "reachable P E N fuel X n device tp s1" using less.prems(1) st by (auto simp: actor_step_def intro: reachable.step)
    show ?thesis
    proof (cases "?rq \<in> set (in_flight items s1) \<and> (\<nexists>rq. sy_actor s1 = Halted rq)")
      case True
      obtain k s' where k: "k \<le> 2 * ahead items ?rq s1 + (if sy_actor s1 = Listening then 2 else 1)" "(?R ^^ k) s1 s'"
        "reachable P E N fuel X n device tp s'" "sy_clients s' = sy_clients s1" "sy_dropped s' = sy_dropped s1"
        "(\<exists>rq. sy_actor s' = Halted rq) \<or> ?rq \<notin> set (in_flight items s')"
        using less.hyps [OF go r1] True same(1) less.prems(2) by auto
      have "(?R ^^ Suc k) s s'" using st k(2) by (rule relpowp_Suc_I2)
      moreover have "Suc k \<le> 2 * ahead items ?rq s + (if sy_actor s = Listening then 2 else 1)" using le_less_trans [OF k(1) go] True by (simp add: Suc_le_eq)
      ultimately show ?thesis using k(3-6) same by (intro exI [of _ "Suc k"] exI [of _ s']) simp
    next
      case False
      have "(?R ^^ 1) s s1" using st by (simp add: relcompp_apply)
      then show ?thesis using False r1 same by (intro exI [of _ 1] exI [of _ s1]) auto
    qed
  qed
  have inv: "flight_inv items pending s" using reachable_inv [OF X less.prems(1) n] by (simp add: system_inv_def)
  show ?case
  proof (cases "sy_actor s")
    case Listening
    then have "items (sy_channel s) \<noteq> []" using less.prems(3) by (auto simp: in_flight_def)
    then obtain rq q where rc: "ch_receive X (sy_channel s) = Some (rq, q)" using embassy_laws(5) [OF X] by blast
    let ?s1 = "s\<lparr>sy_channel := q, sy_actor := Serving rq\<rparr>"
    have "in_flight items ?s1 = in_flight items s" using embassy_laws(4) [OF X rc] Listening by (simp add: in_flight_def)
    then show ?thesis
      using fs_step.receive [OF Listening rc] Listening by (intro step [of ?s1]) (simp_all add: actor_step_def ahead_def)
  next
    case (Serving rq)
    obtain r m where sv: "actor_serve P E N fuel (rq_op rq) (sy_manager s) = (r, m)" by (cases "actor_serve P E N fuel (rq_op rq) (sy_manager s)")
    show ?thesis
    proof (cases "\<exists>x. r = Ok x")
      case True
      then obtain x where x: "actor_serve P E N fuel (rq_op rq) (sy_manager s) = (Ok x, m)" using sv by blast
      let ?s1 = "s\<lparr>sy_manager := m, sy_actor := Listening, sy_signals := complete X (rq_reply rq) x (sy_signals s),
        sy_served := sy_served s @ [(rq, x)]\<rparr>"
      have fl: "in_flight items s = rq # in_flight items ?s1" using Serving by (simp add: in_flight_def)
      have "rq \<noteq> ?rq" if "?rq \<in> set (in_flight items ?s1)" using flight_invD(2) [OF inv] that unfolding fl by auto
      then show ?thesis
        using fs_step.serve [OF Serving x] Serving fl by (intro step [of ?s1]) (auto simp: actor_step_def ahead_def)
    next
      case False
      let ?s1 = "s\<lparr>sy_manager := m, sy_actor := Halted rq\<rparr>"
      show ?thesis using fs_step.halt [OF Serving sv False] Serving by (intro step [of ?s1]) (simp_all add: actor_step_def)
    qed
  next
    case (Halted rq)
    then show ?thesis using less.prems(1) by (intro exI [of _ 0] exI [of _ s]) simp
  qed
qed

lemma reply_in_time:
  assumes "embassy_ok X items permits pending" and "reachable P E N fuel X n device tp s" and "n \<le> REPLY_SLOTS"
    and "sy_clients s i = Waiting p tok"
  obtains k s' where "k \<le> 2 * Suc (ahead items (asked p tok) s)" and "((actor_step P E N fuel X n) ^^ k) s s'"
    and "reachable P E N fuel X n device tp s'" and "sy_clients s' = sy_clients s" and "sy_dropped s' = sy_dropped s"
    and "(\<exists>rq. sy_actor s' = Halted rq) \<or> asked p tok \<notin> set (in_flight items s')"
proof (cases "asked p tok \<in> set (in_flight items s)")
  case True
  then obtain k s' where k: "k \<le> 2 * ahead items (asked p tok) s + (if sy_actor s = Listening then 2 else 1)"
    and s': "((actor_step P E N fuel X n) ^^ k) s s'" "reachable P E N fuel X n device tp s'" "sy_clients s' = sy_clients s"
      "sy_dropped s' = sy_dropped s" "(\<exists>rq. sy_actor s' = Halted rq) \<or> asked p tok \<notin> set (in_flight items s')"
    using served_eventually [OF assms(1,3,2,4)] by blast
  have "k \<le> 2 * Suc (ahead items (asked p tok) s)" using k by (auto split: if_splits)
  then show thesis using s' by (rule that)
next
  case False
  then show thesis using that [of 0 s] assms(2) by simp
qed

text \<open>A reply that is there is taken.\<close>

lemma reply_taken:
  assumes X: "embassy_ok X items permits pending" and "reachable P E N fuel X n device tp s" and "n \<le> REPLY_SLOTS"
    and w: "sy_clients s i = Waiting p tok" "i \<notin> sy_dropped s" and "asked p tok \<notin> set (in_flight items s)"
  shows "\<exists>s' r. fs_step P E N fuel X n s s' \<and> sy_clients s' i = Answered p tok r \<and> (asked p tok, r) \<in> set (sy_served s')"
proof -
  have inv: "flight_inv items pending s" using reachable_inv [OF assms(1-3)] by (simp add: system_inv_def)
  obtain r where r: "pending_at pending s (tok_slot tok) = Some \<lparr>sg_seq = tok_seq tok, sg_resp = r\<rparr>" "(asked p tok, r) \<in> set (sy_served s)"
    using flight_invD(5) [OF inv w(1) assms(6)] unfolding answered_def by blast
  obtain g where g: "sig_take X (sy_signals s ! unat (tok_slot tok)) = Some (\<lparr>sg_seq = tok_seq tok, sg_resp = r\<rparr>, g)"
    using embassy_laws(12) [OF X r(1)] by blast
  have "fs_step P E N fuel X n s (set_client i (Answered p tok r) (s\<lparr>sy_signals := (sy_signals s)[unat (tok_slot tok) := g]\<rparr>))"
    using fs_step.wake [OF w(2,1) g] by simp
  then show ?thesis
    using r(2) by (intro exI [of _ "set_client i (Answered p tok r) (s\<lparr>sy_signals := (sy_signals s)[unat (tok_slot tok) := g]\<rparr>)"]
        exI [of _ r]) (simp add: set_client_def)
qed

text \<open>A request leaves the channel and the actor only by being served.\<close>

lemma left_served:
  assumes X: "embassy_ok X items permits pending" and "fs_step P E N fuel X n s s'" and "rq \<in> set (in_flight items s)"
    and "rq \<notin> set (in_flight items s')"
  shows "\<exists>r. (rq, r) \<in> set (sy_served s')"
  using assms(2)
proof (cases rule: fs_step.cases)
  case (send i p tok q)
  then show ?thesis using assms(3,4) embassy_laws(2) [OF X send(4)] by (simp add: in_flight_def set_client_def)
next
  case (drop_handle rq' h q)
  then show ?thesis using assms(3,4) embassy_laws(2) [OF X drop_handle(3)] by (simp add: in_flight_def)
next
  case (receive rq' q)
  then show ?thesis using assms(3,4) embassy_laws(4) [OF X receive(3)] by (simp add: in_flight_def)
next
  case (serve rq' r m)
  then show ?thesis using assms(3,4) by (auto simp: in_flight_def)
qed (use assms(3,4) in \<open>simp_all add: in_flight_def set_client_def\<close>)

section \<open>Dropped calls\<close>

lemma dropped_kept:
  assumes "embassy_ok X items permits pending" and "reachable P E N fuel X n device tp s" and "n \<le> REPLY_SLOTS"
    and "i \<in> sy_dropped s" and "slot_of (sy_clients s i) = Some slot" and "(fs_step P E N fuel X n)\<^sup>*\<^sup>* s s'"
  shows "bit (sy_slot_bitmap s') (unat slot)" and "slot_of (sy_clients s' j) = Some slot \<Longrightarrow> j = i"
proof -
  have f: "reachable P E N fuel X n device tp s'" "sy_clients s' i = sy_clients s i"
    using dropped_frozen [OF assms(2,4,6)] by simp_all
  have "slot_inv s'" using reachable_inv [OF assms(1) f(1) assms(3)] by (simp add: system_inv_def)
  then show "bit (sy_slot_bitmap s') (unat slot)" and "slot_of (sy_clients s' j) = Some slot \<Longrightarrow> j = i"
    using slot_invD(2,3) [of s' i slot] f(2) assms(5) by metis+
qed

section \<open>The calls\<close>

lemmas call_defs = options_open_def api_open_def dir_next_entry_def handle_read_def handle_read_to_end_def handle_read_to_string_def
  handle_write_def handle_seek_def handle_metadata_def handle_close_def handle_flush_def api_read_to_string_def api_read_def
  api_read_dir_def api_exists_def api_remove_file_def api_create_directory_def api_copy_def api_rename_def api_remove_directory_def
  api_write_def api_shutdown_def

end
