(* ===== verification/Properties_Actor.thy ===== *)
theory Properties_Actor
  imports Actor_Progress Properties_Storage
begin

text \<open>
  The properties of the shared file system: its handles, its manager, and the protocol between clients and actor. The
  witnesses run it on \<open>DummyBlockDevice\<close> with the channel, the semaphore and the signals as a list, a counter and an
  optional value.
\<close>

section \<open>Handles\<close>

text \<open>
  C29: a table of handles. Adding always gives a handle that was not in use, as long as fewer than \<open>u32::MAX\<close> are
  live, whatever has been added and removed before and with the counter wrapping around; the new handle refers to the
  item and all others are as before; removing it gives the item back, once.
\<close>

theorem handles_fresh:
  assumes "handles_inv h" and "length (hd_map h) < 2 ^ 32 - 1"
  shows "\<exists>k h' h''. handles_add x h = (Ok k, h') \<and> handles_inv h' \<and> map_of (hd_map h) k = None \<and>
    map_of (hd_map h') = (map_of (hd_map h))(k := Some x) \<and> handles_remove k h' = (Ok x, h'') \<and>
    map_of (hd_map h'') = map_of (hd_map h) \<and> handles_remove k h'' = (Err InvalidFileHandle, h'')"
proof -
  obtain k h' where a: "handles_add x h = (Ok k, h')" using handles_add_total [OF assms(2)] by blast
  note ok = table.add_ok [OF assms(1) a]
  obtain h'' where r: "handles_remove k h' = (Ok x, h'')" "map_of (hd_map h'') = map_of (hd_map h)"
    using table.add_remove [OF assms(1) a] by blast
  have "handles_remove k h'' = (Err InvalidFileHandle, h'')"
    by (rule table.remove_twice [OF _ r(1)]) (use ok in blast)
  then show ?thesis using a ok r by blast
qed

theorem handles_fresh_witness:
  "\<exists>k h'. handles_add ''a'' \<lparr>hd_map = [(0, ''b''), (1, ''c'')], next_handle = - 1\<rparr> = (Ok k, h') \<and> k \<noteq> 0 \<and> k \<noteq> 1"
proof -
  let ?h = "\<lparr>hd_map = [(0, ''b''), (1, ''c'')], next_handle = - 1\<rparr> :: string handles"
  have "handles_inv ?h" "length (hd_map ?h) < 2 ^ 32 - 1" by (simp_all add: handles_inv_def)
  from handles_fresh [OF this, of "''a''"] obtain k h' where "handles_add ''a'' ?h = (Ok k, h')" "map_of (hd_map ?h) k = None"
    by blast
  then show ?thesis by (intro exI [of _ k] exI [of _ h']) (auto split: if_splits)
qed

section \<open>The manager\<close>

text \<open>
  C22: serving a request keeps the manager's invariant: it owns either the device or a mounted file system, never both
  and never neither (so the panic of \<open>mount\<close> is never reached), its tables are well formed, and no handle is live while
  nothing is mounted. When the card is gone the volume is unmounted, so every handle given out before is refused.
\<close>

theorem manager_owns_device_or_fs:
  assumes "manager_inv m" and "actor_serve P E N fuel p m = (Ok r, m')"
  shows "manager_inv m' \<and> (r = Inr NoCard \<longrightarrow> mg_dev m' \<noteq> None \<and>
    (\<forall>k. handles_get k (mg_files m') = (Err InvalidFileHandle, mg_files m')))"
proof -
  note i = actor_serve_inv [OF assms]
  have "mg_dev m' \<noteq> None \<and> hd_map (mg_files m') = []" if "r = Inr NoCard"
    using i(1) i(2) [OF that] by (simp add: manager_inv_def)
  then show ?thesis using i(1) by (simp add: handles_get_def)
qed

definition ex_errors :: "unit device_error" where
  "ex_errors = \<lparr>to_error_code = (\<lambda>_. 7), no_card = (\<lambda>_. False)\<rparr>"

definition ex_manager :: "dummy_device fs_manager" where
  "ex_manager = manager_new (dummy_new 512 2) None"

lemma ex_manager_reply:
  "fst (actor_serve (dummy_platform 512 64) ex_errors 1 1 OpShutdown ex_manager) = Ok (Inl RespOk)"
  by (simp add: ex_manager_def manager_new_def actor_serve_def handle_req_def map_err_def manager_shutdown_def andthen_def
      manager_unmount_def ret_def)

theorem manager_owns_device_or_fs_witness:
  "manager_inv (snd (actor_serve (dummy_platform 512 64) ex_errors 1 1 OpShutdown ex_manager))"
proof -
  have "manager_inv ex_manager" unfolding ex_manager_def by (rule manager_inv_new)
  moreover have "actor_serve (dummy_platform 512 64) ex_errors 1 1 OpShutdown ex_manager =
      (Ok (Inl RespOk), snd (actor_serve (dummy_platform 512 64) ex_errors 1 1 OpShutdown ex_manager))"
    using ex_manager_reply by (simp add: prod_eq_iff)
  ultimately show ?thesis using manager_owns_device_or_fs by blast
qed

section \<open>The protocol\<close>

text \<open>
  C12: linearizability. In every reachable state the manager is the result of a sequential execution, from the initial
  state and in the order served, of requests whose replies are exactly those given, whatever the number of clients; and
  with no more clients than reply slots, tasks whose call was dropped included, every client that has been answered got
  the reply to its own request in that execution, whatever the interleaving.
\<close>

theorem actor_linearizable:
  assumes "embassy_ok X items permits pending" and "reachable P E N fuel X n device tp s"
  shows "\<exists>m. replay P E N fuel (sy_served s) (manager_new device tp) m \<and>
      ((\<forall>rq. sy_actor s \<noteq> Halted rq) \<longrightarrow> sy_manager s = m) \<and>
    (n \<le> REPLY_SLOTS \<longrightarrow> (\<forall>i p tok r. sy_clients s i = Finished p tok r \<longrightarrow>
      (\<lparr>rq_op = p, rq_reply = Some tok\<rparr>, r) \<in> set (sy_served s)))"
proof -
  have "(asked p tok, r) \<in> set (sy_served s)" if "sy_clients s i = Finished p tok r" "n \<le> REPLY_SLOTS" for i p tok r
    using that(1) reachable_inv [OF assms that(2)] unfolding system_inv_def result_inv_def by (metis result_of.simps(3))
  then show ?thesis using reachable_any(2) [OF assms] unfolding replay_here_def by blast
qed

text \<open>A channel, a semaphore and a signal.\<close>

definition ex_embassy :: "(request list, nat, reply_signal option) embassy" where
  "ex_embassy = \<lparr>ch_new = [], ch_send = (\<lambda>r q. if length q < REQ_CAPACITY then Some (q @ [r]) else None),
     ch_receive = (\<lambda>q. case q of [] \<Rightarrow> None | r # rs \<Rightarrow> Some (r, rs)),
     sem_new = (\<lambda>n. n), sem_acquire = (\<lambda>m. case m of 0 \<Rightarrow> None | Suc n \<Rightarrow> Some n), sem_release = Suc, sem_drop = Suc,
     sig_new = None, sig_signal = (\<lambda>v _. Some v), sig_take = (\<lambda>g. case g of None \<Rightarrow> None | Some v \<Rightarrow> Some (v, None))\<rparr>"

lemma ex_embassy_ok: "embassy_ok ex_embassy (\<lambda>q. q) (\<lambda>m. m) (\<lambda>g. g)"
  by (simp add: embassy_ok_def ex_embassy_def split: list.split nat.split option.split)

text \<open>A run: client 0 asks for a shutdown and gets its reply.\<close>

abbreviation ex_reachable :: "(request list, nat, reply_signal option, dummy_device) system \<Rightarrow> bool" where
  "ex_reachable \<equiv> reachable (dummy_platform 512 64) ex_errors 1 1 ex_embassy 1 (dummy_new 512 2) None"

abbreviation ex_step :: "(request list, nat, reply_signal option, dummy_device) system \<Rightarrow>
    (request list, nat, reply_signal option, dummy_device) system \<Rightarrow> bool" where
  "ex_step \<equiv> fs_step (dummy_platform 512 64) ex_errors 1 1 ex_embassy 1"

abbreviation ex_seen :: "dummy_device sight \<Rightarrow> bool" where
  "ex_seen \<equiv> seen (dummy_platform 512 64) ex_errors 1 1 ex_embassy 1 (dummy_new 512 2) None (\<lambda>q. q) (\<lambda>g. g)"

definition ex_sight :: "client \<Rightarrow> u32 \<Rightarrow> u32 \<Rightarrow> request list \<Rightarrow> reply_signal option \<Rightarrow> (request \<times> reply) list \<Rightarrow> dummy_device sight" where
  "ex_sight c bm sq q sig sv = \<lparr>si_clients = (\<lambda>_. Idle)(0 := c), si_bitmap = bm, si_seq = sq, si_queue = q,
     si_pending = [sig, None, None, None], si_manager = ex_manager, si_served = sv\<rparr>"

abbreviation ex_token :: reply_token where "ex_token \<equiv> token 0 1"

abbreviation ex_log :: "(request \<times> reply) list" where "ex_log \<equiv> [(asked OpShutdown ex_token, Inl RespOk)]"

lemma ex_seen_sent: "ex_seen (ex_sight (Waiting OpShutdown ex_token) 1 2 [asked OpShutdown ex_token] None [])"
proof -
  have "ex_seen (ex_sight Idle 0 1 [] None [])"
    using run_start [OF ex_embassy_ok, of "dummy_platform 512 64" ex_errors 1 1 1 "dummy_new 512 2" None]
    by (simp add: ex_sight_def ex_manager_def REPLY_SLOTS_def numeral_nat fun_upd_idem)
  from run_claim [OF ex_embassy_ok this, of 0 0 1 OpShutdown]
  have "ex_seen (ex_sight (Claimed OpShutdown 0) 1 1 [] None [])" using claims(1) by (simp add: ex_sight_def)
  from run_send [OF ex_embassy_ok this, of 0 OpShutdown 0 ex_token] show ?thesis
    by (simp add: ex_sight_def REQ_CAPACITY_def)
qed

lemma ex_seen_served:
  "ex_seen (ex_sight (Waiting OpShutdown ex_token) 1 2 [] (Some \<lparr>sg_seq = 1, sg_resp = Inl RespOk\<rparr>) ex_log)"
  using run_serve [OF ex_embassy_ok ex_seen_sent, of OpShutdown ex_token "[]" "Inl RespOk" ex_manager]
  by (simp add: ex_sight_def ex_manager_def shutdown_unmounted)

lemma ex_seen_done: "ex_seen (ex_sight (Finished OpShutdown ex_token (Inl RespOk)) 0 2 [] None ex_log)"
proof -
  from run_take [OF ex_embassy_ok ex_seen_served, of 0 OpShutdown ex_token]
  have "ex_seen (ex_sight (Answered OpShutdown ex_token (Inl RespOk)) 1 2 [] None ex_log)" by (simp add: ex_sight_def)
  from run_finish [OF ex_embassy_ok this, of 0 OpShutdown ex_token "Inl RespOk"] show ?thesis
    using claims(6) by (simp add: ex_sight_def)
qed

theorem actor_linearizable_witness:
  "\<exists>s. ex_reachable s \<and> replay (dummy_platform 512 64) ex_errors 1 1 (sy_served s) (manager_new (dummy_new 512 2) None) (sy_manager s) \<and>
    (\<lparr>rq_op = OpShutdown, rq_reply = Some ex_token\<rparr>, Inl RespOk) \<in> set (sy_served s)"
proof -
  obtain s where s: "ex_reachable s" "sy_actor s = Listening" "sy_clients s 0 = Finished OpShutdown ex_token (Inl RespOk)"
    using ex_seen_done by (rule seenE) (simp add: ex_sight_def)
  from actor_linearizable [OF ex_embassy_ok s(1)] s show ?thesis by (fastforce simp: REPLY_SLOTS_def)
qed

text \<open>
  C19: with no more clients than reply slots, tasks whose call was dropped included, a slot belongs to one client at a time.
  In every reachable state no two clients hold the same slot, a client that claims a slot gets a free one (the fallback
  of \<open>claim_slot_locked\<close> is never taken), and a signal found in the slot of a waiting client always carries that client's
  sequence number, so the stale branch of \<open>wait\<close> is never taken. A call that is dropped while it holds a slot keeps it for
  good: in every later state the bit of the slot is set and no other client has it, so it is never used again.
\<close>

theorem reply_slots_exclusive:
  assumes "embassy_ok X items permits pending" and "reachable P E N fuel X n device tp s" and "n \<le> REPLY_SLOTS"
  shows "(\<forall>i j sl. slot_of (sy_clients s i) = Some sl \<longrightarrow> slot_of (sy_clients s j) = Some sl \<longrightarrow> i = j) \<and>
    (\<forall>i p. sy_clients s i = Permitted p \<longrightarrow> (case claim_slot_locked (sy_slot_bitmap s) of (slot, bm) \<Rightarrow>
      unat slot < REPLY_SLOTS \<and> \<not> bit (sy_slot_bitmap s) (unat slot) \<and>
      (\<forall>j. slot_of (sy_clients s j) \<noteq> Some slot))) \<and>
    (\<forall>i p tok sg g. sy_clients s i = Waiting p tok \<longrightarrow>
      sig_take X (sy_signals s ! unat (tok_slot tok)) = Some (sg, g) \<longrightarrow> sg_seq sg = tok_seq tok) \<and>
    (\<forall>i slot s'. i \<in> sy_dropped s \<and> slot_of (sy_clients s i) = Some slot \<and> (fs_step P E N fuel X n)\<^sup>*\<^sup>* s s' \<longrightarrow>
      bit (sy_slot_bitmap s') (unat slot) \<and> (\<forall>j. slot_of (sy_clients s' j) = Some slot \<longrightarrow> j = i))"
proof -
  note permit = reachable_any(1) [OF assms(1,2)]
  have inv: "slot_inv s" "flight_inv items pending s"
    using reachable_inv [OF assms] by (simp_all add: system_inv_def)
  show ?thesis
  proof (intro conjI allI impI)
    show "i = j" if "slot_of (sy_clients s i) = Some sl" "slot_of (sy_clients s j) = Some sl" for i j sl
      using slot_invD(3) [OF inv(1) that] .
    show "case claim_slot_locked (sy_slot_bitmap s) of (slot, bm) \<Rightarrow>
      unat slot < REPLY_SLOTS \<and> \<not> bit (sy_slot_bitmap s) (unat slot) \<and>
      (\<forall>j. slot_of (sy_clients s j) \<noteq> Some slot)" if "sy_clients s i = Permitted p" for i p
    proof -
      obtain slot bm where c: "claim_slot_locked (sy_slot_bitmap s) = (slot, bm)"
        by (cases "claim_slot_locked (sy_slot_bitmap s)")
      note f = claim_succeeds [OF permit inv(1) assms(3) that c]
      then have "slot_of (sy_clients s j) \<noteq> Some slot" for j using slot_invD(2) [OF inv(1)] by blast
      then show ?thesis using c f(1,2) by simp
    qed
    show "sg_seq sg = tok_seq tok" if "sy_clients s i = Waiting p tok"
      "sig_take X (sy_signals s ! unat (tok_slot tok)) = Some (sg, g)" for i p tok sg g
      using stale_impossible(1) [OF inv(2,1) that(1)] embassy_laws(11) [OF assms(1) that(2)] by blast
    fix i slot s' assume d: "i \<in> sy_dropped s \<and> slot_of (sy_clients s i) = Some slot \<and> (fs_step P E N fuel X n)\<^sup>*\<^sup>* s s'"
    note d' = dropped_kept [OF assms, of i slot s']
    show "bit (sy_slot_bitmap s') (unat slot)" using d' d by blast
    show "j = i" if "slot_of (sy_clients s' j) = Some slot" for j using d' d that by blast
  qed
qed

theorem reply_slots_exclusive_witness:
  "(\<exists>s sg g. ex_reachable s \<and> sig_take ex_embassy (sy_signals s ! 0) = Some (sg, g) \<and> sg_seq sg = 1) \<and>
   (\<exists>s s'. ex_reachable s \<and> ex_step\<^sup>*\<^sup>* s s' \<and> s' \<noteq> s \<and> 0 \<in> sy_dropped s \<and> bit (sy_slot_bitmap s') 0)"
proof
  obtain s where s: "ex_reachable s" "sy_clients s 0 = Waiting OpShutdown ex_token"
    "sy_signals s ! 0 = Some \<lparr>sg_seq = 1, sg_resp = Inl RespOk\<rparr>"
    using ex_seen_served by (rule seenE) (simp add: ex_sight_def)
  obtain sg g where g: "sig_take ex_embassy (sy_signals s ! 0) = Some (sg, g)" using s(3) by (simp add: ex_embassy_def)
  have "sg_seq sg = tok_seq ex_token"
    using reply_slots_exclusive [OF ex_embassy_ok s(1)] s(2) g by (simp add: REPLY_SLOTS_def)
  then show "\<exists>s sg g. ex_reachable s \<and> sig_take ex_embassy (sy_signals s ! 0) = Some (sg, g) \<and> sg_seq sg = 1"
    using s(1) g by (intro exI [of _ s] exI [of _ sg] exI [of _ g]) simp
next
  obtain s where s: "ex_reachable s" "sy_clients s 0 = Waiting OpShutdown ex_token" "sy_dropped s = {}"
    "sy_actor s = Listening" "sy_channel s = [asked OpShutdown ex_token]"
    using ex_seen_sent by (rule seenE) (simp add: ex_sight_def)
  let ?d = "s\<lparr>sy_dropped := insert 0 (sy_dropped s)\<rparr>"
  let ?d' = "?d\<lparr>sy_channel := [], sy_actor := Serving (asked OpShutdown ex_token)\<rparr>"
  have "ex_step s ?d" by (rule fs_step.cancel) (simp_all add: s)
  then have d: "ex_reachable ?d" using s(1) by (rule reachable.step [rotated])
  have "ex_step ?d ?d'" by (rule fs_step.receive) (simp_all add: s ex_embassy_def)
  then have st: "ex_step\<^sup>*\<^sup>* ?d ?d'" by (rule r_into_rtranclp [of ex_step])
  have slots: "1 \<le> REPLY_SLOTS" by (simp add: REPLY_SLOTS_def)
  have "0 \<in> sy_dropped ?d \<and> slot_of (sy_clients ?d 0) = Some 0 \<and> ex_step\<^sup>*\<^sup>* ?d ?d'" using s(2) st by simp
  then have "bit (sy_slot_bitmap ?d') (unat (0 :: u8))"
    using reply_slots_exclusive [OF ex_embassy_ok d slots, THEN conjunct2, THEN conjunct2, THEN conjunct2] by blast
  moreover have "sy_actor ?d' \<noteq> sy_actor ?d" using s(4) by simp
  ultimately show "\<exists>s s'. ex_reachable s \<and> ex_step\<^sup>*\<^sup>* s s' \<and> s' \<noteq> s \<and> 0 \<in> sy_dropped s \<and> bit (sy_slot_bitmap s') 0"
    using d st by (intro exI [of _ ?d] exI [of _ ?d']) (auto dest: arg_cong [of _ _ sy_actor])
qed

text \<open>
  C20: beyond that the slots are shared and replies get lost. The guard that \<open>FREE_SLOTS.acquire\<close> returns is dropped in the
  same statement, so the semaphore never makes a call wait, whatever is in progress. With one client more than slots there
  is a run after which client 0 waits although its request was served and nothing is in the channel, with the actor or
  in any signal: a client that had been given the same slot took the reply and threw it away.
\<close>

theorem replies_lost_beyond_slots:
  assumes X: "embassy_ok X items permits pending" and n: "REPLY_SLOTS < n"
  shows "(\<forall>s. reachable P E N fuel X n device tp s \<longrightarrow> sem_acquire X (sy_free_slots s) \<noteq> None) \<and>
    (\<exists>s tok r. reachable P E N fuel X n device tp s \<and> sy_clients s 0 = Waiting OpShutdown tok \<and> sy_dropped s = {} \<and>
      (\<lparr>rq_op = OpShutdown, rq_reply = Some tok\<rparr>, r) \<in> set (sy_served s) \<and> in_flight items s = [] \<and>
      (\<forall>k < REPLY_SLOTS. sig_take X (sy_signals s ! k) = None))"
proof (intro conjI allI impI)
  fix s assume "reachable P E N fuel X n device tp s"
  then have "0 < permits (sy_free_slots s)" using reachable_any(1) [OF X] by (fastforce simp: permit_inv_def REPLY_SLOTS_def)
  then show "sem_acquire X (sy_free_slots s) \<noteq> None" using embassy_laws(14) [OF X] by fastforce
next
  obtain s where s: "reachable P E N fuel X n device tp s" "sy_actor s = Listening" "sy_dropped s = {}"
    "sy_clients s 0 = Waiting OpShutdown (token 0 1)" "items (sy_channel s) = []"
    "(asked OpShutdown (token 0 1), Inl RespOk) \<in> set (sy_served s)" "map pending (sy_signals s) = replicate REPLY_SLOTS None"
    using lost_reply_run [OF X n, of P E N fuel device tp]
    by (rule seenE) (simp add: five_sight_def REPLY_SLOTS_def numeral_nat)
  have "sig_take X (sy_signals s ! k) = None" if "k < REPLY_SLOTS" for k
  proof -
    have "k < length (sy_signals s)" using arg_cong [OF s(7), of length] that by simp
    then have "pending (sy_signals s ! k) = None" using arg_cong [OF s(7), of "\<lambda>xs. xs ! k"] that by simp
    then show ?thesis
      using embassy_laws(11) [OF X, of "sy_signals s ! k"] by (cases "sig_take X (sy_signals s ! k)") auto
  qed
  then show "\<exists>s tok r. reachable P E N fuel X n device tp s \<and> sy_clients s 0 = Waiting OpShutdown tok \<and> sy_dropped s = {} \<and>
      (\<lparr>rq_op = OpShutdown, rq_reply = Some tok\<rparr>, r) \<in> set (sy_served s) \<and> in_flight items s = [] \<and>
      (\<forall>k < REPLY_SLOTS. sig_take X (sy_signals s ! k) = None)"
    using s(1-6) by (intro exI [of _ s] exI [of _ "token 0 1"] exI [of _ "Inl RespOk"]) (simp add: in_flight_def)
qed

theorem replies_lost_beyond_slots_witness:
  "\<exists>s tok. reachable (dummy_platform 512 64) ex_errors 1 1 ex_embassy 5 (dummy_new 512 2) None s \<and>
    sy_clients s 0 = Waiting OpShutdown tok \<and> sy_channel s = []"
proof -
  have "REPLY_SLOTS < 5" by (simp add: REPLY_SLOTS_def)
  from replies_lost_beyond_slots [OF ex_embassy_ok this, of "dummy_platform 512 64" ex_errors 1 1 "dummy_new 512 2" None]
  show ?thesis by (auto simp: in_flight_def)
qed

text \<open>
  C27: with no more clients than reply slots, tasks whose call was dropped included, a call that waits and is not dropped
  gets its reply. From every reachable state the steps of the actor alone, two for every request before the client's and two
  for its own, lead to a state in which the client takes, in one step, the reply served for its own request, unless the
  actor has halted (a panic, or fuel run out, while serving). Nothing that happens in between puts the request further
  back in the channel or takes it out unserved.
\<close>

theorem waiting_client_served:
  assumes X: "embassy_ok X items permits pending" and "reachable P E N fuel X n device tp s" and n: "n \<le> REPLY_SLOTS"
    and w: "sy_clients s i = Waiting p tok" "i \<notin> sy_dropped s"
  shows "(\<exists>k s'. k \<le> 2 * Suc (ahead items \<lparr>rq_op = p, rq_reply = Some tok\<rparr> s) \<and> ((actor_step P E N fuel X n) ^^ k) s s' \<and>
      ((\<exists>rq. sy_actor s' = Halted rq) \<or>
       (\<exists>s'' r. fs_step P E N fuel X n s' s'' \<and> sy_clients s'' i = Answered p tok r \<and>
         (\<lparr>rq_op = p, rq_reply = Some tok\<rparr>, r) \<in> set (sy_served s'')))) \<and>
    (\<forall>s'. fs_step P E N fuel X n s s' \<and> \<lparr>rq_op = p, rq_reply = Some tok\<rparr> \<in> set (in_flight items s) \<longrightarrow>
      (if \<lparr>rq_op = p, rq_reply = Some tok\<rparr> \<in> set (in_flight items s')
       then ahead items \<lparr>rq_op = p, rq_reply = Some tok\<rparr> s' \<le> ahead items \<lparr>rq_op = p, rq_reply = Some tok\<rparr> s
       else \<exists>r. (\<lparr>rq_op = p, rq_reply = Some tok\<rparr>, r) \<in> set (sy_served s')))"
proof (intro conjI allI impI)
  obtain k s' where k: "k \<le> 2 * Suc (ahead items (asked p tok) s)" "((actor_step P E N fuel X n) ^^ k) s s'"
    and s': "reachable P E N fuel X n device tp s'" "sy_clients s' = sy_clients s" "sy_dropped s' = sy_dropped s"
      "(\<exists>rq. sy_actor s' = Halted rq) \<or> asked p tok \<notin> set (in_flight items s')"
    by (rule reply_in_time [OF assms(1-4)])
  have "\<exists>s'' r. fs_step P E N fuel X n s' s'' \<and> sy_clients s'' i = Answered p tok r \<and> (asked p tok, r) \<in> set (sy_served s'')"
    if "asked p tok \<notin> set (in_flight items s')"
    by (rule reply_taken [OF X s'(1) n]) (use w s'(2,3) that in simp_all)
  then show "\<exists>k s'. k \<le> 2 * Suc (ahead items (asked p tok) s) \<and> ((actor_step P E N fuel X n) ^^ k) s s' \<and>
      ((\<exists>rq. sy_actor s' = Halted rq) \<or> (\<exists>s'' r. fs_step P E N fuel X n s' s'' \<and> sy_clients s'' i = Answered p tok r \<and>
         (asked p tok, r) \<in> set (sy_served s'')))" using k s'(4) by blast
next
  fix s' assume st: "fs_step P E N fuel X n s s' \<and> asked p tok \<in> set (in_flight items s)"
  have d: "distinct (filter (\<lambda>rq. rq_reply rq \<noteq> None) (in_flight items s))"
    using reachable_inv [OF assms(1-3)] flight_invD(2) by (auto simp: system_inv_def)
  show "if asked p tok \<in> set (in_flight items s') then ahead items (asked p tok) s' \<le> ahead items (asked p tok) s
      else \<exists>r. (asked p tok, r) \<in> set (sy_served s')"
    using not_overtaken [OF X, of P E N fuel n s s' "asked p tok"] left_served [OF X, of P E N fuel n s s' "asked p tok"] st d by auto
qed

theorem waiting_client_served_witness:
  "\<exists>s s' s'' r. ex_reachable s \<and> sy_clients s 0 = Waiting OpShutdown ex_token \<and> ex_step\<^sup>*\<^sup>* s s' \<and>
    ((\<exists>rq. sy_actor s' = Halted rq) \<or> ex_step s' s'' \<and> sy_clients s'' 0 = Answered OpShutdown ex_token r)"
proof -
  obtain s where s: "ex_reachable s" "sy_clients s 0 = Waiting OpShutdown ex_token" "sy_dropped s = {}"
    using ex_seen_sent by (rule seenE) (simp add: ex_sight_def)
  have "1 \<le> REPLY_SLOTS" "0 \<notin> sy_dropped s" using s(3) by (simp_all add: REPLY_SLOTS_def)
  note W = waiting_client_served [OF ex_embassy_ok s(1) this(1) s(2) this(2)]
  obtain k s' where k: "((actor_step (dummy_platform 512 64) ex_errors 1 1 ex_embassy 1) ^^ k) s s'"
    and r: "(\<exists>rq. sy_actor s' = Halted rq) \<or> (\<exists>s'' r. ex_step s' s'' \<and> sy_clients s'' 0 = Answered OpShutdown ex_token r)"
    using W by blast
  have "ex_step\<^sup>*\<^sup>* s s'"
    using relpowp_imp_rtranclp [OF k] by (rule mono_rtranclp [rule_format, rotated]) (simp add: actor_step_def)
  then show ?thesis using s(1,2) r by blast
qed

text \<open>
  C28: replies have the type the client decodes. With no more clients than reply slots, tasks whose call was dropped included,
  the successful reply a finished call got is of the kind its request asks for, and the decoder of every call of the API
  accepts it (that of \<open>FileHandle::read\<close>, which copies the data, at least does not reject it): no call returns
  \<open>UnexpectedResponse\<close>.
\<close>

definition accepted :: "'a call \<Rightarrow> request_op \<Rightarrow> resp \<Rightarrow> bool" where
  "accepted c p x \<longleftrightarrow> (fst c = p \<longrightarrow> (\<exists>v. snd c x = Ok v))"

theorem replies_well_typed:
  assumes "embassy_ok X items permits pending" and "reachable P E N fuel X n device tp s" and "n \<le> REPLY_SLOTS"
    and "sy_clients s i = Finished p tok (Inl x)"
  shows "answers p x \<and>
    accepted (options_open opts path) p x \<and> accepted (api_open path opts) p x \<and> accepted (dir_next_entry h) p x \<and>
    (fst (handle_read h buf) = p \<longrightarrow> snd (handle_read h buf) x \<noteq> Err UnexpectedResponse) \<and>
    accepted (handle_read_to_end h) p x \<and> accepted (handle_read_to_string h) p x \<and>
    (\<forall>c. handle_write h buf = Some c \<longrightarrow> accepted c p x) \<and> accepted (handle_seek h pos) p x \<and> accepted (handle_metadata h) p x \<and>
    accepted (handle_close h) p x \<and> accepted (handle_flush h) p x \<and> accepted (api_read_to_string path) p x \<and>
    accepted (api_read path) p x \<and> accepted (api_read_dir path) p x \<and> accepted (api_exists path) p x \<and>
    accepted (api_remove_file path) p x \<and> accepted (api_create_directory path) p x \<and> accepted (api_copy path path2) p x \<and>
    accepted (api_rename path path2) p x \<and> accepted (api_remove_directory path) p x \<and> accepted (api_write path buf) p x \<and>
    accepted api_shutdown p x"
proof -
  have "result_of (sy_clients s i) = Some (asked p tok, Inl x)" using assms(4) by simp
  then have "(asked p tok, Inl x) \<in> set (sy_served s)"
    using reachable_inv [OF assms(1-3)] unfolding system_inv_def result_inv_def by blast
  moreover obtain m where "replay P E N fuel (sy_served s) (manager_new device tp) m"
    using reachable_any(2) [OF assms(1,2)] unfolding replay_here_def by blast
  ultimately have "answers (rq_op (asked p tok)) x" by (intro replay_answers)
  then have a: "answers p x" by simp
  note defs = expect_ok_def expect_read_def expect_string_def expect_file_def accepted_def
  show ?thesis
    by (intro conjI a allI impI; use a in \<open>auto simp: defs call_defs split: if_splits option.splits\<close>)
qed

theorem replies_well_typed_witness: "expect_ok RespOk = Ok () \<and> answers OpShutdown RespOk"
proof -
  obtain s where s: "ex_reachable s" "sy_clients s 0 = Finished OpShutdown ex_token (Inl RespOk)"
    using ex_seen_done by (rule seenE) (simp add: ex_sight_def)
  from replies_well_typed [OF ex_embassy_ok s(1) _ s(2)] show ?thesis by (auto simp: api_shutdown_def accepted_def expect_ok_def REPLY_SLOTS_def)
qed

end
