(* ===== verification/File_Content.thy ===== *)
theory File_Content
  imports File_System Sector_Store
begin

text \<open>
  The content of a file stored in consecutive clusters, as a function from offsets to bytes over the sectors the data
  cache shows, and the reading of it: \<open>read\<close> and \<open>seek\<close> of \<open>file.rs\<close> refine that function, across sectors,
  clusters and the end of the valid data.
\<close>

section \<open>Where a byte is\<close>

definition geometry_ok :: "('d, 'e) platform \<Rightarrow> file_system_details \<Rightarrow> bool" where
  "geometry_ok P fsd \<longleftrightarrow> 0 < SIZE P \<and> SIZE P < 2 ^ 32 \<and> SIZE P < 2 ^ usize_bits P \<and>
     0 < unat (fsd_sectors_per_cluster fsd) \<and>
     unat (fsd_cluster_length fsd) = SIZE P * unat (fsd_sectors_per_cluster fsd)"

text \<open>The first sector of a cluster.\<close>

definition cluster_start :: "file_system_details \<Rightarrow> nat \<Rightarrow> nat" where
  "cluster_start fsd c = unat (fsd_cluster_heap_offset fsd) + (c - 2) * unat (fsd_sectors_per_cluster fsd)"

text \<open>A run of clusters inside the device.\<close>

definition run_ok :: "nat \<Rightarrow> file_system_details \<Rightarrow> u32 \<Rightarrow> u32 \<Rightarrow> bool" where
  "run_ok cap fsd first n \<longleftrightarrow> 2 \<le> unat first \<and> unat first + unat n < 2 ^ 32 \<and>
     cluster_start fsd (unat first + unat n) \<le> cap \<and> cluster_start fsd (unat first + unat n) < 2 ^ 32"

definition byte_sector :: "('d, 'e) platform \<Rightarrow> file_system_details \<Rightarrow> u32 \<Rightarrow> nat \<Rightarrow> u32" where
  "byte_sector P fsd first i = of_nat (cluster_start fsd (unat first) + i div SIZE P)"

text \<open>Byte \<open>i\<close> of a file: zero past the valid data, otherwise what the sector holds.\<close>

definition file_byte :: "('d, 'e) platform \<Rightarrow> (u32 \<Rightarrow> block) \<Rightarrow> file_system_details \<Rightarrow> u32 \<Rightarrow> u64 \<Rightarrow> nat \<Rightarrow> u8" where
  "file_byte P v fsd first valid i =
     (if i < unat valid then v (byte_sector P fsd first i) ! (i mod SIZE P) else 0)"

lemma sector_split:
  fixes c :: nat
  shows "c div sz = spc * (c div (sz * spc)) + c mod (sz * spc) div sz" and "c mod (sz * spc) mod sz = c mod sz"
proof -
  have "c div (sz * spc) = c div sz div spc" by (rule div_mult2_eq)
  moreover have "c mod (sz * spc) div sz = c div sz mod spc"
    by (cases "sz = 0") (simp_all add: mod_mult2_eq)
  ultimately show "c div sz = spc * (c div (sz * spc)) + c mod (sz * spc) div sz" by simp
  show "c mod (sz * spc) mod sz = c mod sz" by (simp add: mod_mod_cancel)
qed

lemma cluster_start_add:
  assumes "2 \<le> c"
  shows "cluster_start fsd (c + k) = cluster_start fsd c + k * unat (fsd_sectors_per_cluster fsd)"
proof -
  have "c + k - 2 = (c - 2) + k" using assms by simp
  then show ?thesis by (simp add: cluster_start_def algebra_simps)
qed

text \<open>A byte inside the run lies in a sector of the device.\<close>

lemma byte_sector_in_run:
  assumes "geometry_ok P fsd" and "run_ok cap fsd first n" and "i < unat n * unat (fsd_cluster_length fsd)"
  shows "unat (byte_sector P fsd first i) = cluster_start fsd (unat first) + i div SIZE P"
    and "unat (byte_sector P fsd first i) < cap"
proof -
  let ?spc = "unat (fsd_sectors_per_cluster fsd)"
  have "i < unat n * ?spc * SIZE P" using assms(1,3) by (simp add: geometry_ok_def algebra_simps)
  then have "i div SIZE P < unat n * ?spc" by (rule less_mult_imp_div_less)
  moreover have "cluster_start fsd (unat first + unat n) = cluster_start fsd (unat first) + unat n * ?spc"
    using assms(2) by (intro cluster_start_add) (simp add: run_ok_def)
  ultimately have l: "cluster_start fsd (unat first) + i div SIZE P < cluster_start fsd (unat first + unat n)" by simp
  then show e: "unat (byte_sector P fsd first i) = cluster_start fsd (unat first) + i div SIZE P"
    using assms(2) by (simp add: byte_sector_def unat_of_nat run_ok_def del: of_nat_add)
  show "unat (byte_sector P fsd first i) < cap" unfolding e using l assms(2) by (simp add: run_ok_def)
qed

lemma cluster_offset_nat:
  assumes "0 < unat cl"
  shows "unat (ucast (cur mod ucast cl :: u64) :: u32) = unat cur mod unat (cl :: u32)"
proof -
  have m: "unat (cur mod ucast cl :: u64) = unat cur mod unat cl" by (simp add: unat_mod unat_ucast_up)
  have "unat cur mod unat cl < unat cl" using assms by simp
  also have "unat cl < 2 ^ 32" using unat_less_length [of cl] by simp
  finally show ?thesis by (simp add: unsigned_ucast_eq m take_bit_nat_eq_self)
qed

text \<open>The sector arithmetic of the code, in 32 bits, finds that sector.\<close>

lemma code_sector:
  assumes g: "geometry_ok P fsd" and r: "run_ok cap fsd first n"
    and i: "unat cur < unat n * unat (fsd_cluster_length fsd)"
    and c: "unat cluster = unat first + unat cur div unat (fsd_cluster_length fsd)"
  shows "fsd_cluster_heap_offset fsd + (cluster - 2) * fsd_sectors_per_cluster fsd +
      ucast (cur mod ucast (fsd_cluster_length fsd) :: u64) div of_nat (SIZE P) = byte_sector P fsd first (unat cur)"
    and "unat (ucast (cur mod ucast (fsd_cluster_length fsd) :: u64) :: u32) = unat cur mod unat (fsd_cluster_length fsd)"
proof -
  let ?cl = "unat (fsd_cluster_length fsd)" and ?spc = "unat (fsd_sectors_per_cluster fsd)"
  have cl: "?cl = SIZE P * ?spc" "0 < ?cl" "SIZE P < 2 ^ 32" using g by (simp_all add: geometry_ok_def)
  show off: "unat (ucast (cur mod ucast (fsd_cluster_length fsd) :: u64) :: u32) = unat cur mod ?cl"
    by (rule cluster_offset_nat [OF cl(2)])
  have c2: "2 \<le> unat cluster" using c r by (simp add: run_ok_def)
  have in_run: "cluster_start fsd (unat first) + unat cur div SIZE P < 2 ^ 32"
    using byte_sector_in_run(1) [OF g r i] unat_less_length [of "byte_sector P fsd first (unat cur)"] by simp
  have "unat cluster - 2 = (unat first - 2) + unat cur div ?cl" using c r by (simp add: run_ok_def)
  then have e: "cluster_start fsd (unat first) + unat cur div SIZE P =
      unat (fsd_cluster_heap_offset fsd) + (unat cluster - 2) * ?spc + unat cur mod ?cl div SIZE P"
    using sector_split(1) [of "unat cur" "SIZE P" ?spc] cl(1)
    by (simp add: cluster_start_def add_mult_distrib algebra_simps)
  have w: "cluster - 2 = of_nat (unat cluster - 2)" using c2 by (simp add: of_nat_diff)
  have "unat (ucast (cur mod ucast (fsd_cluster_length fsd) :: u64) div of_nat (SIZE P) :: u32) = unat cur mod ?cl div SIZE P"
    using cl(3) by (simp add: unat_div off unat_of_nat)
  moreover have "unat cur mod ?cl div SIZE P < 2 ^ 32"
  proof -
    have "unat cur mod ?cl < 2 ^ 32"
      using mod_less_divisor [OF cl(2), of "unat cur"] unat_less_length [of "fsd_cluster_length fsd"] by simp
    then show ?thesis using div_le_dividend le_less_trans by blast
  qed
  ultimately have d: "(ucast (cur mod ucast (fsd_cluster_length fsd) :: u64) div of_nat (SIZE P) :: u32) =
      of_nat (unat cur mod ?cl div SIZE P)"
    by (simp only: word_unat_eq_iff unat_of_nat) simp
  show "fsd_cluster_heap_offset fsd + (cluster - 2) * fsd_sectors_per_cluster fsd +
      ucast (cur mod ucast (fsd_cluster_length fsd) :: u64) div of_nat (SIZE P) = byte_sector P fsd first (unat cur)"
    unfolding byte_sector_def e d w by simp
qed

lemma step_in_block:
  fixes x :: nat
  assumes "x mod m + k < m"
  shows "(x + k) div m = x div m" and "(x + k) mod m = x mod m + k"
proof -
  have k: "k < m" using assms by simp
  show "(x + k) div m = x div m" using assms k by (subst div_add1_eq) simp
  have "(x + k) mod m = (x mod m + k) mod m" by (simp add: mod_simps)
  then show "(x + k) mod m = x mod m + k" using assms by simp
qed

lemma step_to_block_end:
  fixes x :: nat
  assumes "x mod m + k = m" and "0 < m"
  shows "(x + k) div m = x div m + 1" and "(x + k) mod m = 0"
proof -
  have "x + k = m * (x div m) + m" using assms(1) mult_div_mod_eq [of m x] by linarith
  then have "x + k = m * (x div m + 1)" by simp
  then show "(x + k) div m = x div m + 1" "(x + k) mod m = 0" using assms(2) by simp_all
qed

text \<open>The rest of a block is no more than the rest of a larger one it divides.\<close>

lemma room_in_block:
  fixes x :: nat
  assumes "b dvd m" and "x < m"
  shows "b - x mod b \<le> m - x"
proof -
  obtain q where q: "m = b * q" using assms(1) by (rule dvdE)
  have "x div b < q" using assms(2) q by (metis less_mult_imp_div_less mult.commute)
  then have "b * (x div b) + b \<le> b * q" by (metis Suc_leI mult_Suc_right mult_le_mono2 add.commute)
  then show ?thesis using q mult_div_mod_eq [of b x] by linarith
qed

lemma room_in_cluster:
  assumes "geometry_ok P fsd"
  shows "SIZE P - x mod SIZE P \<le> unat (fsd_cluster_length fsd) - x mod unat (fsd_cluster_length fsd)"
proof -
  let ?cl = "unat (fsd_cluster_length fsd)"
  have cl: "?cl = SIZE P * unat (fsd_sectors_per_cluster fsd)" "0 < ?cl" using assms by (simp_all add: geometry_ok_def)
  then have "x mod ?cl mod SIZE P = x mod SIZE P" using sector_split(2) by simp
  moreover have "SIZE P dvd ?cl" "x mod ?cl < ?cl" using cl by simp_all
  ultimately show ?thesis by (metis room_in_block)
qed

section \<open>The cursor\<close>

text \<open>
  The cluster of the cursor and the bytes left in it. After the last byte of a cluster the file still stands in it,
  with nothing left; the next access moves on.
\<close>

definition cursor_ok :: "file_system_details \<Rightarrow> u32 \<Rightarrow> open_file \<Rightarrow> bool" where
  "cursor_ok fsd first f \<longleftrightarrow>
     (let c = unat (cursor f); cl = unat (fsd_cluster_length fsd) in
      if remaining_bytes_in_cluster f = 0
      then 0 < c \<and> c mod cl = 0 \<and> unat (current_cluster f) + 1 = unat first + c div cl
      else unat (remaining_bytes_in_cluster f) = cl - c mod cl \<and> unat (current_cluster f) = unat first + c div cl)"

text \<open>An open file of \<open>n\<close> consecutive clusters on a device of \<open>cap\<close> sectors.\<close>

definition contiguous_file :: "('d, 'e) platform \<Rightarrow> nat \<Rightarrow> file_system_details \<Rightarrow> u32 \<Rightarrow> u32 \<Rightarrow> open_file \<Rightarrow> bool" where
  "contiguous_file P cap fsd first n f \<longleftrightarrow>
     chain f = StoredContiguous first n \<and> geometry_ok P fsd \<and> run_ok cap fsd first n \<and>
     unat (data_length (details f)) \<le> unat n * unat (fsd_cluster_length fsd) \<and>
     unat (valid_data_length (details f)) < 2 ^ usize_bits P \<and> cursor_ok fsd first f"

lemma cursor_ok_settle:
  assumes "contiguous_file P cap fsd first n f" and "cursor f < data_length (details f)" and "fs_details s = fsd"
  obtains c' r' where
    "next_cluster_if_required P (f, s) = (Ok (), f\<lparr>current_cluster := c', remaining_bytes_in_cluster := r'\<rparr>, s)"
    "unat c' = unat first + unat (cursor f) div unat (fsd_cluster_length fsd)"
    "unat r' = unat (fsd_cluster_length fsd) - unat (cursor f) mod unat (fsd_cluster_length fsd)"
proof (cases "remaining_bytes_in_cluster f = 0")
  case False
  have "next_cluster_if_required P (f, s) = (Ok (), f, s)"
    using False by (simp add: next_cluster_if_required_def the_file_def andthen_def gets_def ret_def)
  then show thesis
    using that [where c' = "current_cluster f" and r' = "remaining_bytes_in_cluster f"] assms(1) False
    by (simp add: contiguous_file_def cursor_ok_def Let_def)
next
  case True
  let ?cl = "unat (fsd_cluster_length fsd)" and ?c = "unat (cursor f)"
  have c: "?c mod ?cl = 0" "unat (current_cluster f) + 1 = unat first + ?c div ?cl"
    using assms(1) True by (simp_all add: contiguous_file_def cursor_ok_def Let_def)
  have r: "2 \<le> unat first" "unat first + unat n < 2 ^ 32" using assms(1) by (simp_all add: contiguous_file_def run_ok_def)
  have "?c < unat n * ?cl" using assms(1,2) by (simp add: contiguous_file_def word_less_nat_alt)
  then have d: "?c div ?cl < unat n" by (rule less_mult_imp_div_less)
  have n1: "unat (current_cluster f + 1) = unat first + ?c div ?cl"
    using c(2) d r by (simp add: unat_word_ariths)
  have "first \<le> current_cluster f + 1" "current_cluster f + 1 < first + n"
    using n1 d r by (simp_all add: word_le_nat_alt word_less_nat_alt unat_word_ariths)
  then have "next_cluster_if_required P (f, s) =
      (Ok (), f\<lparr>current_cluster := current_cluster f + 1, remaining_bytes_in_cluster := fsd_cluster_length fsd\<rparr>, s)"
    using True assms(1,3)
    by (simp add: next_cluster_if_required_def next_cursor_id_def contiguous_file_def the_file_def andthen_def gets_def
        ret_def upd_file_def modify_def cluster_length_def Let_def)
  then show thesis using that n1 c(1) by simp
qed

text \<open>Moving over at most the rest of a sector.\<close>

lemma move_cursor_ok:
  assumes ok: "contiguous_file P cap fsd first n f"
    and c': "unat c' = unat first + unat (cursor f) div unat (fsd_cluster_length fsd)"
    and r': "unat r' = unat (fsd_cluster_length fsd) - unat (cursor f) mod unat (fsd_cluster_length fsd)"
    and k: "k \<le> SIZE P - unat (cursor f) mod SIZE P" and fit: "unat (cursor f) + k < 2 ^ 64"
  shows "contiguous_file P cap fsd first n
      (move_file_cursor k (f\<lparr>current_cluster := c', remaining_bytes_in_cluster := r'\<rparr>))"
    and "unat (cursor (move_file_cursor k (f\<lparr>current_cluster := c', remaining_bytes_in_cluster := r'\<rparr>))) = unat (cursor f) + k"
proof -
  let ?cl = "unat (fsd_cluster_length fsd)" and ?c = "unat (cursor f)"
  have g: "geometry_ok P fsd" using ok by (simp add: contiguous_file_def)
  then have cl: "?cl = SIZE P * unat (fsd_sectors_per_cluster fsd)" "0 < ?cl" "0 < SIZE P" by (simp_all add: geometry_ok_def)
  have km: "k \<le> ?cl - ?c mod ?cl" using k room_in_cluster [OF g] order_trans by blast
  show cu: "unat (cursor (move_file_cursor k (f\<lparr>current_cluster := c', remaining_bytes_in_cluster := r'\<rparr>))) = ?c + k"
    using fit by (simp add: move_file_cursor_def unat_word_ariths unat_of_nat)
  have k32: "k < 2 ^ 32" using km unat_less_length [of "fsd_cluster_length fsd"] by simp
  have rem: "unat (r' - of_nat k) = ?cl - ?c mod ?cl - k"
    using km r' k32 by (simp add: unat_sub word_le_nat_alt unat_of_nat)
  have "cursor_ok fsd first (move_file_cursor k (f\<lparr>current_cluster := c', remaining_bytes_in_cluster := r'\<rparr>))"
  proof (cases "k = ?cl - ?c mod ?cl")
    case True
    then have z: "r' - of_nat k = 0" using rem by (simp only: unat_eq_0 [symmetric])
    have "?c mod ?cl + k = ?cl" using True mod_less_divisor [OF cl(2), of ?c] by simp
    note e = step_to_block_end [OF this cl(2)]
    have "0 < k" using True mod_less_divisor [OF cl(2), of ?c] by simp
    with e have "(?c + k) mod ?cl = 0" "(?c + k) div ?cl = ?c div ?cl + 1" "0 < ?c + k" by simp_all
    then show ?thesis using z c' cu by (simp add: cursor_ok_def Let_def move_file_cursor_def)
  next
    case False
    then have l: "?c mod ?cl + k < ?cl" using km by simp
    have "(?c + k) mod ?cl = ?c mod ?cl + k" "(?c + k) div ?cl = ?c div ?cl"
      using step_in_block [OF l] by simp_all
    moreover have "0 < unat (r' - of_nat k)" using rem l by linarith
    then have "r' - of_nat k \<noteq> 0" by (metis unat_0 less_irrefl)
    ultimately show ?thesis using c' cu rem by (simp add: cursor_ok_def Let_def move_file_cursor_def)
  qed
  then show "contiguous_file P cap fsd first n
      (move_file_cursor k (f\<lparr>current_cluster := c', remaining_bytes_in_cluster := r'\<rparr>))"
    using ok by (simp add: contiguous_file_def move_file_cursor_def)
qed

lemma mounted_mount: "is_mounted s \<Longrightarrow> in_fs (mount P) (f, s) = (Ok (), f, s)"
  by (simp add: in_fs_def zoom_def mount_def andthen_def gets_def ret_def)

text \<open>At the end of a cluster a moved file has nothing left in it.\<close>

lemma move_cursor_end:
  assumes ok: "contiguous_file P cap fsd first n f"
    and c': "unat c' = unat first + unat (cursor f) div unat (fsd_cluster_length fsd)"
    and r': "unat r' = unat (fsd_cluster_length fsd) - unat (cursor f) mod unat (fsd_cluster_length fsd)"
    and k: "k \<le> SIZE P - unat (cursor f) mod SIZE P" "0 < k" and fit: "unat (cursor f) + k < 2 ^ 64"
    and e: "(unat (cursor f) + k) mod unat (fsd_cluster_length fsd) = 0"
  shows "remaining_bytes_in_cluster (move_file_cursor k (f\<lparr>current_cluster := c', remaining_bytes_in_cluster := r'\<rparr>)) = 0"
proof (rule ccontr)
  let ?cl = "unat (fsd_cluster_length fsd)" and ?c = "unat (cursor f)"
  let ?f = "move_file_cursor k (f\<lparr>current_cluster := c', remaining_bytes_in_cluster := r'\<rparr>)"
  assume nz: "remaining_bytes_in_cluster ?f \<noteq> 0"
  note mv = move_cursor_ok [OF ok c' r' k(1) fit]
  have full: "unat (remaining_bytes_in_cluster ?f) = ?cl"
    using mv nz e by (simp add: contiguous_file_def cursor_ok_def Let_def)
  have g: "geometry_ok P fsd" and cl: "0 < ?cl" using ok by (simp_all add: contiguous_file_def geometry_ok_def)
  have km: "k \<le> unat r'" using k(1) room_in_cluster [OF g] r' order_trans by metis
  then have "k < 2 ^ 32" using unat_less_length [of r'] by simp
  then have "unat (remaining_bytes_in_cluster ?f) = unat r' - k"
    using km by (simp add: move_file_cursor_def unat_sub word_le_nat_alt unat_of_nat)
  then show False using full r' k(2) cl by simp
qed

section \<open>Seeking\<close>

text \<open>Any position of the valid data can be sought; the file stands in the cluster of that byte.\<close>

lemma file_seek_ok:
  assumes ok: "contiguous_file P cap fsd first n f" and "fs_details s = fsd" and "is_mounted s"
    and vd: "valid_data_length (details f) \<le> data_length (details f)" and "cur \<le> valid_data_length (details f)"
  shows "\<exists>f'. file_seek P cur (f, s) = (Ok (), f', s) \<and> cursor f' = cur \<and> details f' = details f \<and>
    open_options f' = open_options f \<and> contiguous_file P cap fsd first n f'"
proof -
  let ?cl = "unat (fsd_cluster_length fsd)" and ?num = "ucast (cur div ucast (fsd_cluster_length fsd) :: u64) :: u32"
  have g: "0 < ?cl" and r: "unat first + unat n < 2 ^ 32" and dl: "unat (data_length (details f)) \<le> unat n * ?cl"
    and ch: "chain f = StoredContiguous first n"
    using ok by (auto simp: contiguous_file_def geometry_ok_def run_ok_def)
  have "unat cur \<le> unat n * ?cl" using assms(4,5) dl by (simp add: word_le_nat_alt)
  then have d: "unat cur div ?cl \<le> unat n" using g by (metis div_le_mono div_mult_self_is_m)
  have w: "unat (cur div ucast (fsd_cluster_length fsd) :: u64) = unat cur div ?cl"
    "unat (cur mod ucast (fsd_cluster_length fsd) :: u64) = unat cur mod ?cl"
    by (simp_all add: unat_div unat_mod unat_ucast_up)
  have num: "unat ?num = unat cur div ?cl"
    using d unat_less_length [of n] by (simp add: unsigned_ucast_eq w take_bit_nat_eq_self)
  have m: "unat cur mod ?cl < ?cl" using g by simp
  have cl0: "fsd_cluster_length fsd \<noteq> 0" using g by (simp add: unat_gt_0)
  let ?rem = "fsd_cluster_length fsd - ucast (cur mod ucast (fsd_cluster_length fsd) :: u64)"
  have "unat (ucast (cur mod ucast (fsd_cluster_length fsd) :: u64) :: u32) = unat cur mod ?cl"
    using m unat_less_length [of "fsd_cluster_length fsd"]
    by (simp add: unsigned_ucast_eq w take_bit_nat_eq_self)
  then have rem: "unat ?rem = ?cl - unat cur mod ?cl"
    using m by (simp add: unat_sub word_le_nat_alt)
  let ?f = "f\<lparr>cursor := cur, current_cluster := first + ?num, remaining_bytes_in_cluster := ?rem\<rparr>"
  have "unat (first + ?num) = unat first + unat cur div ?cl" using num d r by (simp add: unat_word_ariths)
  moreover have "?rem \<noteq> 0" using rem m by (metis unat_0 zero_less_diff less_irrefl)
  ultimately have cu: "cursor_ok fsd first ?f" using rem by (simp add: cursor_ok_def Let_def)
  have "file_seek P cur (f, s) = (Ok (), ?f, s)"
    unfolding file_seek_def andthen_Ok [where m = "in_fs (mount P)", OF mounted_mount [OF assms(3)]]
    using assms(2) leD [OF assms(5)] ch cl0
    by (simp add: the_file_def andthen_def gets_def upd_file_def modify_def cluster_length_def assert_that_def ret_def
        update_remaining_bytes_in_cluster_def Let_def)
  then show ?thesis using ok cu by (intro exI [of _ ?f]) (simp add: contiguous_file_def)
qed

lemma file_seek_out_of_range:
  assumes "is_mounted s" and "valid_data_length (details f) < cur"
  shows "file_seek P cur (f, s) = (Err SeekOutOfRange, f, s)"
  unfolding file_seek_def andthen_Ok [where m = "in_fs (mount P)", OF mounted_mount [OF assms(1)]]
  using assms(2) by (simp add: the_file_def andthen_def gets_def fail_def)

section \<open>Reading\<close>

lemma file_bytes_in_sector:
  assumes "length b = SIZE P" and "v (byte_sector P fsd first c) = b" and "0 < SIZE P"
    and "k \<le> SIZE P - c mod SIZE P" and "c + k \<le> unat valid"
  shows "take k (drop (c mod SIZE P) b) = map (file_byte P v fsd first valid) [c..<c + k]"
proof (rule nth_equalityI)
  have m: "c mod SIZE P < SIZE P" using assms(3) by simp
  show len: "length (take k (drop (c mod SIZE P) b)) = length (map (file_byte P v fsd first valid) [c..<c + k])"
    using assms(1,4) m by simp
  fix j assume "j < length (take k (drop (c mod SIZE P) b))"
  then have j: "j < k" using len by simp
  have "c mod SIZE P + j < SIZE P" using j assms(4) by linarith
  from step_in_block [OF this] show "take k (drop (c mod SIZE P) b) ! j = map (file_byte P v fsd first valid) [c..<c + k] ! j"
    using j assms(1,2,5) m by (simp add: file_byte_def byte_sector_def)
qed

lemma saturating_remainder:
  "cursor f < data_length (details f) \<Longrightarrow> unat (saturating_sub (data_length (details f)) (cursor f)) =
    unat (data_length (details f)) - unat (cursor f)"
  "unat (saturating_sub v c) = unat v - unat c"
  by (auto simp: saturating_sub_def word_less_nat_alt word_le_nat_alt unat_sub)

lemma unat_min: "unat (min a b) = min (unat a) (unat b)"
  by (simp add: min_def word_le_nat_alt)

lemma zeros_past_valid:
  "unat valid \<le> c \<Longrightarrow> replicate k 0 = map (file_byte P v fsd first valid) [c..<c + k]"
  by (rule nth_equalityI) (simp_all add: file_byte_def)

lemma get_cluster_offset_eval:
  "fsd_cluster_length (fs_details s) \<noteq> 0 \<Longrightarrow>
    get_cluster_offset (f, s) = (Ok (ucast (cursor f mod ucast (fsd_cluster_length (fs_details s)))), f, s)"
  by (simp add: get_cluster_offset_def the_file_def cluster_length_def andthen_def gets_def assert_that_def ret_def)

lemma andthen_assert: "b \<Longrightarrow> andthen (assert_that b) f s = f () s"
  by (simp add: andthen_def assert_that_def)

lemma get_heap_eval:
  "\<not> c < 2 \<Longrightarrow> get_heap_sector_id fsd c st =
    (Ok (fsd_cluster_heap_offset fsd + (c - 2) * fsd_sectors_per_cluster fsd), st)"
  by (simp add: get_heap_sector_id_def ret_def)

text \<open>
  One round of the loop of \<open>read\<close>, once the cluster of the cursor is known: the rest of a sector, of the file, of its valid
  data or of the buffer, whichever is least, from the sector or as zeros.
\<close>

lemma read_round_result:
  assumes g: "geometry_ok P (fs_details s')"
    and nx: "next_cluster_if_required P (f, s) = (Ok (), f\<lparr>current_cluster := cc, remaining_bytes_in_cluster := rr\<rparr>, s')"
    and cc: "\<not> cc < 2" and cur: "cursor f < data_length (details f)" and br: "br < length buf" and len: "length buf < 2 ^ 64"
    and vl: "unat (valid_data_length (details f)) < 2 ^ usize_bits P"
    and sec: "sec = fsd_cluster_heap_offset (fs_details s') + (cc - 2) * fsd_sectors_per_cluster (fs_details s') +
      ucast (cursor f mod ucast (fsd_cluster_length (fs_details s')) :: u64) div of_nat (SIZE P)"
    and rd: "if cursor f < valid_data_length (details f) then on_data (read_sector P sec) s' = (Ok b, s'') else s'' = s'"
    and lb: "length b = SIZE P"
  obtains k where "read_round P buf br (f, s) = (Ok (take br buf @ (if cursor f < valid_data_length (details f)
        then take k (drop (unat (cursor f) mod SIZE P) b) else replicate k 0) @ drop (br + k) buf, br + k),
      move_file_cursor k (f\<lparr>current_cluster := cc, remaining_bytes_in_cluster := rr\<rparr>), s'')"
    and "0 < k" and "k \<le> SIZE P - unat (cursor f) mod SIZE P" and "br + k \<le> length buf"
    and "unat (cursor f) + k \<le> unat (data_length (details f))"
    and "cursor f < valid_data_length (details f) \<Longrightarrow> unat (cursor f) + k \<le> unat (valid_data_length (details f))"
proof -
  define fsd where "fsd = fs_details s'"
  let ?c = "unat (cursor f)" and ?cl = "unat (fsd_cluster_length fsd)" and ?S = "SIZE P"
  let ?dl = "unat (data_length (details f))" and ?vl = "unat (valid_data_length (details f))"
  let ?f = "f\<lparr>current_cluster := cc, remaining_bytes_in_cluster := rr\<rparr>"
  have sz: "0 < ?S" "?S < 2 ^ 32" "?S < 2 ^ usize_bits P" "?cl = ?S * unat (fsd_sectors_per_cluster fsd)" "0 < ?cl"
    using g by (simp_all add: geometry_ok_def fsd_def)
  have cl0: "fsd_cluster_length fsd \<noteq> 0" using sz(5) by (simp add: unat_gt_0)
  have s0: "(of_nat ?S :: u32) \<noteq> 0"
    using sz(1,2) by (simp add: word_unat_eq_iff unat_of_nat)
  define off where "off = ?c mod ?S"
  define lim where "lim = min (min (?S - off) (?dl - ?c)) (length buf - br)"
  have off_lt: "off < ?S" using sz(1) by (simp add: off_def)
  then have lim: "0 < lim" "lim \<le> ?S - off" "?c + lim \<le> ?dl" "br + lim \<le> length buf"
    using cur br by (auto simp: lim_def word_less_nat_alt)
  let ?co = "ucast (cursor f mod ucast (fsd_cluster_length fsd) :: u64) :: u32"
  have co: "unat ?co mod ?S = off"
    using cluster_offset_nat [of "fsd_cluster_length fsd" "cursor f"] sector_split(2) [of ?c ?S] sz(4,5) by (simp add: off_def)
  let ?fr = "saturating_sub (data_length (details f)) (cursor f)" and ?vr = "saturating_sub (valid_data_length (details f)) (cursor f)"
  have chunk: "as_usize P (min (min (of_nat (?S - off)) ?fr) (of_nat (length buf - br))) = lim"
  proof -
    have "unat (of_nat (?S - off) :: u64) = ?S - off" "unat (of_nat (length buf - br) :: u64) = length buf - br"
      using sz(2) len by (simp_all add: unat_of_nat)
    then have "unat (min (min (of_nat (?S - off)) ?fr) (of_nat (length buf - br))) = lim"
      by (simp add: unat_min saturating_remainder(2) lim_def)
    then show ?thesis using lim(2) sz(3) by (simp add: as_usize_def)
  qed
  have vr: "as_usize P ?vr = ?vl - ?c" "0 < ?vr \<longleftrightarrow> cursor f < valid_data_length (details f)"
    using vl by (simp_all add: as_usize_def saturating_remainder(2) word_less_nat_alt)
  have steps: "read_round P buf br (f, s) =
    andthen (if 0 < ?vr
       then andthen (in_fs (on_data (read_sector P sec))) (\<lambda>slot.
         case slice off (off + min lim (?vl - ?c)) slot of
           None \<Rightarrow> panic
         | Some bytes \<Rightarrow>
           (case splice br bytes buf of None \<Rightarrow> panic | Some buf' \<Rightarrow> ret (buf', min lim (?vl - ?c))))
       else (case splice br (replicate lim 0) buf of
           None \<Rightarrow> panic
         | Some buf' \<Rightarrow> ret (buf', lim))) (\<lambda>(buf', n).
     andthen (upd_file (move_file_cursor n)) (\<lambda>_.
     ret (buf', br + n))) (?f, s')"
  proof -
    have sel: "cursor ?f = cursor f" "current_cluster ?f = cc" "details ?f = details f" by simp_all
    note c1 = andthen_Ok [where m = get_cluster_offset, OF get_cluster_offset_eval [of s' ?f]]
    note c2 = andthen_Ok [where m = "get_heap_sector_id fsd cc", OF get_heap_eval [OF cc, of fsd "(?f, s')"]]
    show ?thesis
      unfolding read_round_def the_file_def andthen_gets Let_def fst_conv
        andthen_Ok [where m = "next_cluster_if_required P", OF nx]
      using cl0 s0
      by (simp only: c1 c2 andthen_assert fsd_def [symmetric] andthen_gets fst_conv prod.case sel co chunk vr(1)
          sec [folded fsd_def, symmetric] not_False_eq_True if_True)
  qed
  define k where "k = (if cursor f < valid_data_length (details f) then min lim (?vl - ?c) else lim)"
  have k: "0 < k" "k \<le> lim" using lim(1) by (auto simp: k_def word_less_nat_alt)
  have spl: "splice br bytes buf = Some (take br buf @ bytes @ drop (br + k) buf)" if "length bytes = k" for bytes
    using lim(4) k(2) that by (simp add: splice_def)
  have "read_round P buf br (f, s) = (Ok (take br buf @ (if cursor f < valid_data_length (details f)
        then take k (drop off b) else replicate k 0) @ drop (br + k) buf, br + k), move_file_cursor k ?f, s'')"
  proof (cases "cursor f < valid_data_length (details f)")
    case True
    then have kk: "k = min lim (?vl - ?c)" by (simp add: k_def)
    have sl: "slice off (off + k) b = Some (take k (drop off b))" "length (take k (drop off b)) = k"
      using lb k(2) lim(2) off_lt by (simp_all add: slice_def)
    have "in_fs (on_data (read_sector P sec)) (?f, s') = (Ok b, ?f, s'')"
      using rd True by (simp add: in_fs_def zoom_def)
    then show ?thesis
      unfolding steps using True sl(1) spl [OF sl(2)] vr(2) unfolding kk [symmetric]
      by (simp add: andthen_def upd_file_def modify_def ret_def)
  next
    case False
    then show ?thesis
      unfolding steps using spl [of "replicate lim 0"] vr(2) rd
      by (simp add: andthen_def upd_file_def modify_def ret_def k_def)
  qed
  moreover have "?c + k \<le> ?vl" if "cursor f < valid_data_length (details f)"
    using that by (simp add: k_def word_less_nat_alt)
  ultimately show thesis using that [of k] k lim by (simp add: off_def)
qed

text \<open>
  What the loops of \<open>read\<close> and \<open>read_to_end\<close> rely on: a round delivers some of the bytes at the cursor and keeps the file
  usable. However the clusters of a file are found, the loops then deliver all there is, up to the size of the buffer.
\<close>

locale readable_file =
  fixes P :: "('d, 'e) platform"
    and usable :: "open_file \<Rightarrow> 'd file_system \<Rightarrow> bool"
    and keeps :: "'d file_system \<Rightarrow> 'd file_system \<Rightarrow> bool"
    and byte :: "'d file_system \<Rightarrow> u64 \<Rightarrow> nat \<Rightarrow> u8"
  assumes keeps_refl: "usable f s \<Longrightarrow> keeps s s"
    and keeps_trans: "keeps s1 s2 \<Longrightarrow> keeps s2 s3 \<Longrightarrow> keeps s1 s3"
    and keeps_byte: "keeps s s' \<Longrightarrow> byte s' = byte s"
    and round: "usable f s \<Longrightarrow> cursor f < data_length (details f) \<Longrightarrow> br < length buf \<Longrightarrow> length buf < 2 ^ 64 \<Longrightarrow>
      \<exists>k f' s'. read_round P buf br (f, s) = (Ok (take br buf @ map (byte s (valid_data_length (details f)))
          [unat (cursor f)..<unat (cursor f) + k] @ drop (br + k) buf, br + k), f', s') \<and>
        0 < k \<and> br + k \<le> length buf \<and> unat (cursor f) + k \<le> unat (data_length (details f)) \<and>
        unat (cursor f') = unat (cursor f) + k \<and> details f' = details f \<and> open_options f' = open_options f \<and>
        touched f' = touched f \<and> usable f' s' \<and> keeps s s'"
begin

lemma loop:
  assumes "usable f s" and "cursor f < data_length (details f)" and "br < length buf" and "length buf < 2 ^ 64"
    and "length buf - br \<le> fuel"
    and "N = min (length buf - br) (unat (data_length (details f)) - unat (cursor f))"
  shows "\<exists>f' s'. read_loop P fuel buf br (f, s) =
      (Ok (take br buf @ map (byte s (valid_data_length (details f))) [unat (cursor f)..<unat (cursor f) + N] @
        drop (br + N) buf, br + N), f', s') \<and>
    unat (cursor f') = unat (cursor f) + N \<and> details f' = details f \<and> open_options f' = open_options f \<and>
    touched f' = touched f \<and> usable f' s' \<and> keeps s s'"
  using assms
proof (induction fuel arbitrary: buf br f s N)
  case (Suc fuel)
  let ?dl = "unat (data_length (details f))" and ?c = "unat (cursor f)"
  let ?B = "byte s (valid_data_length (details f))"
  obtain k f1 s1 where r: "read_round P buf br (f, s) =
      (Ok (take br buf @ map ?B [?c..<?c + k] @ drop (br + k) buf, br + k), f1, s1)"
    and k: "0 < k" "br + k \<le> length buf" "?c + k \<le> ?dl"
    and f1: "unat (cursor f1) = ?c + k" "details f1 = details f" "open_options f1 = open_options f" "touched f1 = touched f"
      "usable f1 s1" "keeps s s1"
    using round [OF Suc.prems(1-4)] by metis
  let ?buf = "take br buf @ map ?B [?c..<?c + k] @ drop (br + k) buf"
  have len: "length ?buf = length buf" using k(2) by simp
  have eof: "eof f1 \<longleftrightarrow> ?dl \<le> ?c + k" by (simp add: eof_def f1(1,2) word_le_nat_alt)
  have run: "read_loop P (Suc fuel) buf br (f, s) =
      (if br + k = length buf \<or> eof f1 then (Ok (?buf, br + k), f1, s1) else read_loop P fuel ?buf (br + k) (f1, s1))"
    unfolding read_loop.simps andthen_Ok [where m = "read_round P buf br", OF r] prod.case the_file_def andthen_gets len
    by (simp add: ret_def)
  show ?case
  proof (cases "br + k = length buf \<or> eof f1")
    case True
    then have "N = k" using k eof Suc.prems(6) by auto
    then show ?thesis using run True k f1 by (intro exI [of _ f1] exI [of _ s1]) simp
  next
    case False
    define M where "M = min (length buf - (br + k)) (?dl - (?c + k))"
    have M: "M = min (length ?buf - (br + k)) (unat (data_length (details f1)) - unat (cursor f1))"
      unfolding len f1(1,2) M_def ..
    have N: "N = k + M" unfolding M_def using k eof Suc.prems(6) by linarith
    have "cursor f1 < data_length (details f1)" using False by (simp add: eof_def not_le)
    moreover have "br + k < length ?buf" "length ?buf < 2 ^ 64" "length ?buf - (br + k) \<le> fuel"
      using False k Suc.prems(4,5) len by linarith+
    ultimately obtain f' s' where l: "read_loop P fuel ?buf (br + k) (f1, s1) =
        (Ok (take (br + k) ?buf @ map (byte s1 (valid_data_length (details f1)))
              [unat (cursor f1)..<unat (cursor f1) + M] @ drop (br + k + M) ?buf, br + k + M), f', s')"
      and f': "unat (cursor f') = unat (cursor f1) + M" "details f' = details f1" "open_options f' = open_options f1"
        "touched f' = touched f1" "usable f' s'" "keeps s1 s'"
      using Suc.IH [OF f1(5) _ _ _ _ M] by metis
    have buf: "take (br + k) ?buf = take br buf @ map ?B [?c..<?c + k]" "drop (br + k + M) ?buf = drop (br + k + M) buf"
      using k by (simp_all add: ac_simps)
    have bytes: "map ?B [?c..<?c + k] @ map ?B [?c + k..<?c + k + M] = map ?B [?c..<?c + k + M]"
      using upt_add_eq_append [of ?c "?c + k" M] by simp
    have "read_loop P (Suc fuel) buf br (f, s) =
      (Ok (take br buf @ map ?B [?c..<?c + k + M] @ drop (br + k + M) buf, br + k + M), f', s')"
      unfolding run l buf f1(1,2) bytes [symmetric] keeps_byte [OF f1(6)] using False by simp
    then show ?thesis
      using f' f1 keeps_trans [OF f1(6) f'(6)] unfolding N by (intro exI [of _ f'] exI [of _ s']) (simp add: ac_simps)
  qed
qed simp

lemma read:
  assumes "usable f s" and "is_mounted s" and "opt_read (open_options f)" and "cursor f < data_length (details f)"
    and "buf \<noteq> []" and "length buf < 2 ^ 64" and N: "N = min (length buf) (unat (data_length (details f)) - unat (cursor f))"
  shows "\<exists>f' s'. file_read P buf (f, s) =
      (Ok (Some N, map (byte s (valid_data_length (details f))) [unat (cursor f)..<unat (cursor f) + N] @ drop N buf), f', s') \<and>
    unat (cursor f') = unat (cursor f) + N \<and> details f' = details f \<and> open_options f' = open_options f \<and>
    touched f' = touched f \<and> usable f' s' \<and> keeps s s'"
proof -
  have N': "N = min (length buf - 0) (unat (data_length (details f)) - unat (cursor f))" using N by simp
  have ne: "0 < length buf" "length buf - 0 \<le> length buf" using assms(5) by simp_all
  obtain f' s' where l: "read_loop P (length buf) buf 0 (f, s) =
      (Ok (take 0 buf @ map (byte s (valid_data_length (details f))) [unat (cursor f)..<unat (cursor f) + N] @ drop (0 + N) buf, 0 + N), f', s')"
    and rest: "unat (cursor f') = unat (cursor f) + N" "details f' = details f" "open_options f' = open_options f"
      "touched f' = touched f" "usable f' s'" "keeps s s'"
    using loop [OF assms(1,4) ne(1) assms(6) ne(2) N'] by metis
  have "\<not> eof f" using assms(4) by (simp add: eof_def)
  then have "file_read P buf (f, s) = andthen (read_loop P (length buf) buf 0) (\<lambda>(buf', n). ret (Some n, buf')) (f, s)"
    unfolding file_read_def andthen_Ok [where m = "in_fs (mount P)", OF mounted_mount [OF assms(2)]]
      the_file_def andthen_gets fst_conv
    using assms(3,5) by simp
  also have "\<dots> = (Ok (Some N, map (byte s (valid_data_length (details f))) [unat (cursor f)..<unat (cursor f) + N] @ drop N buf), f', s')"
    unfolding andthen_Ok [where m = "read_loop P (length buf) buf 0", OF l] by (simp add: ret_def)
  finally show ?thesis using rest by (intro exI [of _ f'] exI [of _ s']) simp
qed

text \<open>\<open>read_to_end\<close> appends everything from the cursor on, with the first read.\<close>

lemma whole:
  assumes "is_mounted s" and "opt_read (open_options f)" and le: "cursor f \<le> data_length (details f)"
    and "unat (data_length (details f)) - unat (cursor f) < 2 ^ usize_bits P"
    and us: "cursor f < data_length (details f) \<Longrightarrow> usable f s"
  shows "\<exists>f' s'. read_to_end P buf (f, s) =
      (Ok (buf @ map (byte s (valid_data_length (details f))) [unat (cursor f)..<unat (data_length (details f))],
           unat (data_length (details f)) - unat (cursor f)), f', s') \<and>
    cursor f' = data_length (details f) \<and> details f' = details f \<and> touched f' = touched f \<and> (s' = s \<or> keeps s s')"
proof -
  let ?c = "unat (cursor f)" and ?dl = "unat (data_length (details f))"
  let ?B = "byte s (valid_data_length (details f))"
  define N where "N = ?dl - ?c"
  have c_le: "?c \<le> ?dl" using le by (simp add: word_le_nat_alt)
  have len: "as_usize P (saturating_sub (data_length (details f)) (cursor f)) = N"
    using assms(4) by (simp add: as_usize_def saturating_remainder(2) N_def)
  let ?zeros = "replicate N 0 :: u8 list"
  have unfold: "read_to_end P buf (f, s) = andthen (read_to_end_loop P (Suc N) ?zeros 0) (\<lambda>(tail, filled).
      ret (buf @ take filled tail, filled)) (f, s)"
    unfolding read_to_end_def read_to_end_inner_def andthen_Ok [where m = "in_fs (mount P)", OF mounted_mount [OF assms(1)]]
      the_file_def andthen_gets fst_conv Let_def len
    using assms(2) by (simp add: andthen_def gets_def)
  show ?thesis
  proof (cases "N = 0")
    case True
    then have "?dl = ?c" using c_le by (simp add: N_def)
    then have "data_length (details f) = cursor f" by (simp add: word_unat_eq_iff)
    moreover have "read_to_end P buf (f, s) = (Ok (buf, 0), f, s)" unfolding unfold True by (simp add: andthen_def ret_def)
    ultimately show ?thesis by (intro exI [of _ f] exI [of _ s]) simp
  next
    case False
    then have cur: "cursor f < data_length (details f)" by (simp add: N_def word_less_nat_alt)
    have ne: "?zeros \<noteq> []" "length ?zeros < 2 ^ 64" "N = min (length ?zeros) (?dl - ?c)"
      using False unat_less_length [of "data_length (details f)"] by (simp_all add: N_def)
    obtain f' s' where r: "file_read P ?zeros (f, s) = (Ok (Some N, map ?B [?c..<?c + N] @ drop N ?zeros), f', s')"
      and rest: "unat (cursor f') = ?c + N" "details f' = details f" "touched f' = touched f" "keeps s s'"
      using read [OF us [OF cur] assms(1,2) cur ne] by metis
    have "?c + N = ?dl" using c_le by (simp add: N_def)
    have "read_to_end_loop P (Suc N) ?zeros 0 (f, s) = read_to_end_loop P N (map ?B [?c..<?c + N]) N (f', s')"
      using False r by (simp add: andthen_def)
    also have "\<dots> = (Ok (map ?B [?c..<?c + N], N), f', s')"
      using False by (cases N) (simp_all add: ret_def)
    finally have "read_to_end P buf (f, s) = (Ok (buf @ map ?B [?c..<?c + N], N), f', s')"
      unfolding unfold by (simp add: andthen_def ret_def)
    then show ?thesis
      using rest \<open>?c + N = ?dl\<close> by (intro exI [of _ f'] exI [of _ s']) (simp add: N_def word_unat_eq_iff)
  qed
qed

end

context reliable_device
begin

abbreviation data_view :: "'d file_system \<Rightarrow> u32 \<Rightarrow> block" where
  "data_view s \<equiv> view (data_blocks s, fs_dev s)"

abbreviation data_ready :: "'d file_system \<Rightarrow> bool" where
  "data_ready s \<equiv> ready (data_blocks s, fs_dev s)"

text \<open>One round: the rest of a sector, of the file, of its valid data or of the buffer, whichever is least.\<close>

lemma read_round_ok:
  assumes ok: "contiguous_file P (capacity (fs_dev s)) (fs_details s) first n f"
    and cur: "cursor f < data_length (details f)" and br: "br < length buf" and len: "length buf < 2 ^ 64"
    and rdy: "data_ready s"
  obtains k f' c' d' where "read_round P buf br (f, s) =
      (Ok (take br buf @ map (file_byte P (data_view s) (fs_details s) first (valid_data_length (details f)))
             [unat (cursor f)..<unat (cursor f) + k] @ drop (br + k) buf, br + k),
       f', s\<lparr>data_blocks := c', fs_dev := d'\<rparr>)"
    and "0 < k" and "br + k \<le> length buf" and "unat (cursor f) + k \<le> unat (data_length (details f))"
    and "unat (cursor f') = unat (cursor f) + k" and "details f' = details f" and "open_options f' = open_options f"
    and "touched f' = touched f" and "contiguous_file P (capacity (fs_dev s)) (fs_details s) first n f'"
    and "ready (c', d')" and "view (c', d') = data_view s" and "capacity d' = capacity (fs_dev s)"
proof -
  define fsd where "fsd = fs_details s"
  let ?c = "unat (cursor f)" and ?cl = "unat (fsd_cluster_length fsd)"
  let ?vd = "valid_data_length (details f)" and ?B = "file_byte P (data_view s) fsd first (valid_data_length (details f))"
  have ok': "contiguous_file P (capacity (fs_dev s)) fsd first n f" using ok by (simp add: fsd_def)
  then have g: "geometry_ok P fsd" and r: "run_ok (capacity (fs_dev s)) fsd first n"
    and dl: "unat (data_length (details f)) \<le> unat n * ?cl" and vl: "unat ?vd < 2 ^ usize_bits P"
    by (simp_all add: contiguous_file_def)
  obtain cc rr where nx: "next_cluster_if_required P (f, s) = (Ok (), f\<lparr>current_cluster := cc, remaining_bytes_in_cluster := rr\<rparr>, s)"
    "unat cc = unat first + ?c div ?cl" "unat rr = ?cl - ?c mod ?cl"
    using cursor_ok_settle [OF ok' cur] fsd_def by metis
  let ?f = "f\<lparr>current_cluster := cc, remaining_bytes_in_cluster := rr\<rparr>" and ?sec = "byte_sector P fsd first ?c"
  have in_run: "?c < unat n * ?cl" using cur dl by (simp add: word_less_nat_alt)
  note sec = code_sector(1) [OF g r in_run nx(2)]
  have cc2: "\<not> cc < 2" using nx(2) r by (simp add: word_less_nat_alt run_ok_def)
  obtain st where rs: "read_sector P ?sec (data_blocks s, fs_dev s) = (Ok (data_view s ?sec), st)" "ready st"
    "view st = data_view s" "capacity (snd st) = capacity (fs_dev s)"
  proof (rule read_sector_total [OF rdy, of ?sec])
    show "unat ?sec < capacity (snd (data_blocks s, fs_dev s))"
      using byte_sector_in_run(2) [OF g r in_run] by simp
  qed (use that in simp)
  let ?st = "if cursor f < ?vd then st else (data_blocks s, fs_dev s)"
  let ?s = "s\<lparr>data_blocks := fst ?st, fs_dev := snd ?st\<rparr>"
  have lb: "length (data_view s ?sec) = SIZE P" using store.content_length [OF rdy] .
  have rd: "if cursor f < ?vd then on_data (read_sector P ?sec) s = (Ok (data_view s ?sec), ?s) else ?s = s"
    by (simp add: on_data_def zoom_def rs(1) split: prod.split)
  obtain k where R: "read_round P buf br (f, s) = (Ok (take br buf @ (if cursor f < ?vd
        then take k (drop (?c mod SIZE P) (data_view s ?sec)) else replicate k 0) @ drop (br + k) buf, br + k),
      move_file_cursor k ?f, ?s)"
    and k: "0 < k" "k \<le> SIZE P - ?c mod SIZE P" "br + k \<le> length buf" "?c + k \<le> unat (data_length (details f))"
      "cursor f < ?vd \<Longrightarrow> ?c + k \<le> unat ?vd"
    by (rule read_round_result [OF g [unfolded fsd_def] nx(1) cc2 cur br len vl sec [symmetric, unfolded fsd_def]
          rd [unfolded fsd_def] lb [unfolded fsd_def], folded fsd_def]) (rule that; assumption)
  have "0 < SIZE P" using g by (simp add: geometry_ok_def)
  then have bytes: "(if cursor f < ?vd then take k (drop (?c mod SIZE P) (data_view s ?sec)) else replicate k 0) = map ?B [?c..<?c + k]"
    using file_bytes_in_sector [where v = "data_view s", OF lb refl _ k(2), of ?vd] k(5) zeros_past_valid [of ?vd ?c k]
    by (auto simp: word_less_nat_alt)
  have fit: "?c + k < 2 ^ 64" using k(4) unat_less_length [of "data_length (details f)"] by simp
  note mv = move_cursor_ok [OF ok' nx(2,3) k(2) fit]
  show thesis
    using that [where k = k and f' = "move_file_cursor k ?f" and c' = "fst ?st" and d' = "snd ?st"] R [unfolded bytes] k mv rs(2-4) rdy
    by (simp add: fsd_def move_file_cursor_def)
qed

end

text \<open>A file of consecutive clusters is readable; only the data cache and the device change.\<close>

definition data_only :: "nat \<Rightarrow> ('d \<Rightarrow> u32 \<Rightarrow> block) \<Rightarrow> ('d \<Rightarrow> nat) \<Rightarrow> ('d \<Rightarrow> bool) \<Rightarrow> 'd file_system \<Rightarrow> 'd file_system \<Rightarrow> bool" where
  "data_only sz sector capacity dev_ok s s' \<longleftrightarrow> (\<exists>c' d'. s' = s\<lparr>data_blocks := c', fs_dev := d'\<rparr> \<and>
     cache_ready sz sector capacity dev_ok (c', d') \<and> cview sector (c', d') = cview sector (data_blocks s, fs_dev s) \<and>
     capacity d' = capacity (fs_dev s))"

sublocale reliable_device \<subseteq> run_file: readable_file P
  "\<lambda>f s. contiguous_file P (capacity (fs_dev s)) (fs_details s) first_cl n_cl f \<and>
     cache_ready (SIZE P) sector capacity dev_ok (data_blocks s, fs_dev s)"
  "data_only (SIZE P) sector capacity dev_ok"
  "\<lambda>s. file_byte P (cview sector (data_blocks s, fs_dev s)) (fs_details s) first_cl"
  for first_cl n_cl
proof (unfold_locales, goal_cases)
  case (1 f s)
  then show ?case unfolding data_only_def by (intro exI [of _ "data_blocks s"] exI [of _ "fs_dev s"]) simp
next
  case (2 s1 s2 s3)
  then obtain c1 d1 c2 d2 where "s2 = s1\<lparr>data_blocks := c1, fs_dev := d1\<rparr>" "s3 = s2\<lparr>data_blocks := c2, fs_dev := d2\<rparr>"
    "cview sector (c1, d1) = cview sector (data_blocks s1, fs_dev s1)" "capacity d1 = capacity (fs_dev s1)"
    "cache_ready (SIZE P) sector capacity dev_ok (c2, d2)" "cview sector (c2, d2) = cview sector (data_blocks s2, fs_dev s2)"
    "capacity d2 = capacity (fs_dev s2)" unfolding data_only_def by blast
  then show ?case unfolding data_only_def by (intro exI [of _ c2] exI [of _ d2]) simp
next
  case (3 s s')
  then show ?case by (auto simp: data_only_def)
next
  case (4 f s br buf)
  then have u: "contiguous_file P (capacity (fs_dev s)) (fs_details s) first_cl n_cl f"
    "cache_ready (SIZE P) sector capacity dev_ok (data_blocks s, fs_dev s)" by simp_all
  obtain k f' c' d' where R: "read_round P buf br (f, s) =
      (Ok (take br buf @ map (file_byte P (cview sector (data_blocks s, fs_dev s)) (fs_details s) first_cl (valid_data_length (details f)))
             [unat (cursor f)..<unat (cursor f) + k] @ drop (br + k) buf, br + k),
       f', s\<lparr>data_blocks := c', fs_dev := d'\<rparr>)"
    and k: "0 < k" "br + k \<le> length buf" "unat (cursor f) + k \<le> unat (data_length (details f))"
    and f': "unat (cursor f') = unat (cursor f) + k" "details f' = details f" "open_options f' = open_options f"
      "touched f' = touched f" "contiguous_file P (capacity (fs_dev s)) (fs_details s) first_cl n_cl f'"
    and d': "cache_ready (SIZE P) sector capacity dev_ok (c', d')" "cview sector (c', d') = cview sector (data_blocks s, fs_dev s)"
      "capacity d' = capacity (fs_dev s)"
    by (rule read_round_ok [OF u(1) 4(2,3,4) u(2)])
  have "data_only (SIZE P) sector capacity dev_ok s (s\<lparr>data_blocks := c', fs_dev := d'\<rparr>)"
    unfolding data_only_def using d' by (intro exI [of _ c'] exI [of _ d']) simp
  then show ?case
    using R k f' d' by (intro exI [of _ k] exI [of _ f'] exI [of _ "s\<lparr>data_blocks := c', fs_dev := d'\<rparr>"]) simp
qed

context reliable_device
begin

lemma file_read_ok:
  assumes "contiguous_file P (capacity (fs_dev s)) (fs_details s) first n f"
    and "is_mounted s" and "opt_read (open_options f)" and "data_ready s"
    and "cursor f < data_length (details f)" and "buf \<noteq> []" and "length buf < 2 ^ 64"
    and N: "N = min (length buf) (unat (data_length (details f)) - unat (cursor f))"
  shows "\<exists>f' c' d'. file_read P buf (f, s) =
      (Ok (Some N, map (file_byte P (data_view s) (fs_details s) first (valid_data_length (details f)))
             [unat (cursor f)..<unat (cursor f) + N] @ drop N buf),
       f', s\<lparr>data_blocks := c', fs_dev := d'\<rparr>) \<and>
    unat (cursor f') = unat (cursor f) + N \<and> details f' = details f \<and> open_options f' = open_options f \<and>
    contiguous_file P (capacity (fs_dev s)) (fs_details s) first n f' \<and>
    ready (c', d') \<and> view (c', d') = data_view s \<and> capacity d' = capacity (fs_dev s)"
  using run_file.read [of s first n f buf N] assms by (fastforce simp: data_only_def)

lemma read_to_end_ok:
  assumes "contiguous_file P (capacity (fs_dev s)) (fs_details s) first n f"
    and "is_mounted s" and "opt_read (open_options f)" and "data_ready s"
    and "cursor f \<le> data_length (details f)" and "unat (data_length (details f)) - unat (cursor f) < 2 ^ usize_bits P"
  shows "\<exists>f' c' d'. read_to_end P buf (f, s) =
      (Ok (buf @ map (file_byte P (data_view s) (fs_details s) first (valid_data_length (details f)))
             [unat (cursor f)..<unat (data_length (details f))],
           unat (data_length (details f)) - unat (cursor f)),
       f', s\<lparr>data_blocks := c', fs_dev := d'\<rparr>) \<and>
    cursor f' = data_length (details f) \<and> details f' = details f \<and>
    ready (c', d') \<and> view (c', d') = data_view s \<and> capacity d' = capacity (fs_dev s)"
proof -
  obtain f' s' where r: "read_to_end P buf (f, s) =
      (Ok (buf @ map (file_byte P (data_view s) (fs_details s) first (valid_data_length (details f)))
             [unat (cursor f)..<unat (data_length (details f))],
           unat (data_length (details f)) - unat (cursor f)), f', s')" "cursor f' = data_length (details f)" "details f' = details f"
    "s' = s \<or> data_only (SIZE P) sector capacity dev_ok s s'"
    using run_file.whole [of s f first n buf] assms by auto
  have "data_only (SIZE P) sector capacity dev_ok s s'" using r(4) run_file.keeps_refl [of s first n f] assms(1,4) by blast
  then show ?thesis using r(1-3) by (auto simp: data_only_def)
qed

end

end
