(* ===== verification/File_Write.thy ===== *)
theory File_Write
  imports File_Content
begin

text \<open>
  Writing to a file of consecutive clusters (\<open>write\<close> and \<open>write_partial_sector\<close> of \<open>file.rs\<close>): which bytes of the
  run change, sector by sector, and what the three parts of a write, the head in a started sector, the full sectors
  and the tail, do together.
\<close>

section \<open>Storing bytes in a run\<close>

definition raw_byte :: "('d, 'e) platform \<Rightarrow> (u32 \<Rightarrow> block) \<Rightarrow> file_system_details \<Rightarrow> u32 \<Rightarrow> nat \<Rightarrow> u8" where
  "raw_byte P v fsd first i = v (byte_sector P fsd first i) ! (i mod SIZE P)"

definition in_run :: "file_system_details \<Rightarrow> u32 \<Rightarrow> u32 \<Rightarrow> u32 \<Rightarrow> bool" where
  "in_run fsd first n sec \<longleftrightarrow>
     cluster_start fsd (unat first) \<le> unat sec \<and> unat sec < cluster_start fsd (unat first + unat n)"

text \<open>What a cache holds, it held before or is in the run.\<close>

definition held_in :: "file_system_details \<Rightarrow> u32 \<Rightarrow> u32 \<Rightarrow> slot_cache \<Rightarrow> slot_cache \<Rightarrow> bool" where
  "held_in fsd first n c c' \<longleftrightarrow> (\<forall>t i. holds c' t i \<longrightarrow> in_run fsd first n t \<or> (\<exists>j. holds c t j))"

lemma held_in_refl [simp]: "held_in fsd first n c c"
  by (auto simp: held_in_def)

lemma held_in_trans: "held_in fsd first n a b \<Longrightarrow> held_in fsd first n b c \<Longrightarrow> held_in fsd first n a c"
  unfolding held_in_def by blast

text \<open>The bytes \<open>bs\<close> at offset \<open>c\<close> of the run, and nothing else.\<close>

definition stored :: "('d, 'e) platform \<Rightarrow> file_system_details \<Rightarrow> u32 \<Rightarrow> u32 \<Rightarrow> (u32 \<Rightarrow> block) \<Rightarrow> nat \<Rightarrow> u8 list \<Rightarrow>
    (u32 \<Rightarrow> block) \<Rightarrow> bool" where
  "stored P fsd first n v c bs v' \<longleftrightarrow>
     (\<forall>i < unat n * unat (fsd_cluster_length fsd). raw_byte P v' fsd first i =
        (if c \<le> i \<and> i < c + length bs then bs ! (i - c) else raw_byte P v fsd first i)) \<and>
     (\<forall>sec. \<not> in_run fsd first n sec \<longrightarrow> v' sec = v sec)"

lemma stored_nil: "stored P fsd first n v c [] v"
  by (auto simp: stored_def)

lemma stored_append:
  assumes "stored P fsd first n v c a v1" and "stored P fsd first n v1 (c + length a) b v2"
  shows "stored P fsd first n v c (a @ b) v2"
  using assms by (auto simp: stored_def nth_append)

lemma stored_nth:
  "stored P fsd first n v c bs v' \<Longrightarrow> j < length bs \<Longrightarrow> c + j < unat n * unat (fsd_cluster_length fsd) \<Longrightarrow>
    raw_byte P v' fsd first (c + j) = bs ! j"
  by (simp add: stored_def)

lemma stored_outside:
  "stored P fsd first n v c bs v' \<Longrightarrow> \<not> in_run fsd first n sec \<Longrightarrow> v' sec = v sec"
  by (simp add: stored_def)

text \<open>Overwriting part of one sector stores the bytes.\<close>

lemma same_sector:
  fixes c i S :: nat
  assumes "0 < S" and "k \<le> S - c mod S" and "c \<le> i" and "i < c + k"
  shows "i div S = c div S"
proof -
  have "c mod S < S" using assms(1) by simp
  then have "c mod S + (i - c) < S" using assms by linarith
  from step_in_block(1) [OF this] show ?thesis using assms(3) by simp
qed

lemma byte_in_run:
  assumes "geometry_ok P fsd" and "run_ok cap fsd first n" and "i < unat n * unat (fsd_cluster_length fsd)"
  shows "in_run fsd first n (byte_sector P fsd first i)"
proof -
  have "run_ok (cluster_start fsd (unat first + unat n)) fsd first n" using assms(2) by (simp add: run_ok_def)
  from byte_sector_in_run [OF assms(1) this assms(3)] show ?thesis by (simp add: in_run_def)
qed

lemma stored_sector:
  assumes g: "geometry_ok P fsd" and r: "run_ok cap fsd first n" and c: "c < unat n * unat (fsd_cluster_length fsd)"
    and fit: "length bs \<le> SIZE P - c mod SIZE P" and len: "length (v (byte_sector P fsd first c)) = SIZE P"
    and b: "splice (c mod SIZE P) bs (v (byte_sector P fsd first c)) = Some b"
  shows "stored P fsd first n v c bs (v(byte_sector P fsd first c := b))"
proof -
  let ?S = "SIZE P" and ?sec = "byte_sector P fsd first c"
  have S: "0 < ?S" using g by (simp add: geometry_ok_def)
  have "raw_byte P (v(?sec := b)) fsd first i =
      (if c \<le> i \<and> i < c + length bs then bs ! (i - c) else raw_byte P v fsd first i)"
    if i: "i < unat n * unat (fsd_cluster_length fsd)" for i
  proof (cases "i div ?S = c div ?S")
    case True
    then have sec: "byte_sector P fsd first i = ?sec" by (simp add: byte_sector_def)
    have d: "c = c div ?S * ?S + c mod ?S" "i = c div ?S * ?S + i mod ?S" using True by (metis div_mult_mod_eq)+
    then have "c \<le> i \<longleftrightarrow> c mod ?S \<le> i mod ?S" "i - c = i mod ?S - c mod ?S"
      "i < c + length bs \<longleftrightarrow> i mod ?S < c mod ?S + length bs" by linarith+
    then show ?thesis
      using splice_nth [OF b, of "i mod ?S"] S len by (simp add: raw_byte_def sec)
  next
    case False
    have "unat (byte_sector P fsd first i) \<noteq> unat ?sec"
      using False byte_sector_in_run(1) [OF g r i] byte_sector_in_run(1) [OF g r c] by simp
    then have "byte_sector P fsd first i \<noteq> ?sec" by metis
    moreover have "\<not> (c \<le> i \<and> i < c + length bs)" using same_sector [OF S fit] False by blast
    ultimately show ?thesis by (auto simp: raw_byte_def)
  qed
  moreover have "in_run fsd first n ?sec" by (rule byte_in_run [OF g r c])
  ultimately show ?thesis by (auto simp: stored_def)
qed

text \<open>The full blocks of a buffer, one after the other.\<close>

lemma concat_as_chunks: "concat (as_chunks n xs) = take (n * (length xs div n)) xs"
proof -
  have "concat (map (\<lambda>i. take n (drop (n * i) xs)) [0..<k]) = take (n * k) xs" if "n * k \<le> length xs" for k
    using that
  proof (induction k)
    case (Suc k)
    then show ?case by (simp add: take_add [symmetric] add.commute)
  qed simp
  then show ?thesis unfolding as_chunks_def by (simp add: times_div_less_eq_dividend)
qed

section \<open>The sector of the cursor\<close>

text \<open>
  The sector \<open>get_current_sector_id\<close> computes is that of the byte \<open>p\<close> of the run which the cursor's cluster and the
  cursor's offset in its cluster stand for; \<open>p\<close> is the cursor when the cluster is the cursor's.
\<close>

lemma current_sector_eval:
  assumes g: "geometry_ok P fsd" and r: "run_ok cap fsd first n" and fsd: "fs_details s = fsd"
    and p: "p < unat n * unat (fsd_cluster_length fsd)" "p mod unat (fsd_cluster_length fsd) = unat (cursor f) mod unat (fsd_cluster_length fsd)"
    and cc: "unat (current_cluster f) = unat first + p div unat (fsd_cluster_length fsd)"
  shows "get_current_sector_id P (f, s) = (Ok (byte_sector P fsd first p), f, s)"
proof -
  let ?cl = "unat (fsd_cluster_length fsd)"
  have sz: "0 < ?cl" "0 < SIZE P" "SIZE P < 2 ^ 32" using g by (simp_all add: geometry_ok_def)
  have "unat n * ?cl < 2 ^ 32 * 2 ^ 32"
    by (intro mult_strict_mono) (use unat_less_length [of n] unat_less_length [of "fsd_cluster_length fsd"] in simp_all)
  then have p64: "unat (of_nat p :: u64) = p" using p(1) by (simp add: unat_of_nat)
  have "unat (of_nat p mod ucast (fsd_cluster_length fsd) :: u64) = p mod ?cl"
    "unat (cursor f mod ucast (fsd_cluster_length fsd) :: u64) = unat (cursor f) mod ?cl"
    by (simp_all add: unat_mod unat_ucast_up p64 del: of_nat_mod)
  then have off: "cursor f mod ucast (fsd_cluster_length fsd) = (of_nat p mod ucast (fsd_cluster_length fsd) :: u64)"
    by (simp only: word_unat_eq_iff p(2))
  have "\<not> current_cluster f < 2" using cc r by (simp add: word_less_nat_alt run_ok_def)
  moreover have "fsd_cluster_length fsd \<noteq> 0" using sz(1) by (simp add: unat_gt_0)
  moreover have "(of_nat (SIZE P) :: u32) \<noteq> 0" using sz(2,3) by (simp add: word_unat_eq_iff unat_of_nat)
  moreover note code_sector(1) [OF g r, of "of_nat p" "current_cluster f"]
  ultimately show ?thesis
    using p64 p(1) cc fsd off
    by (simp add: get_current_sector_id_def the_file_def andthen_def gets_def get_cluster_offset_eval get_heap_eval
        assert_that_def ret_def)
qed

section \<open>The parts of a write\<close>

lemma cursor_ok_same:
  assumes "cursor f' = cursor f" and "current_cluster f' = current_cluster f"
    and "remaining_bytes_in_cluster f' = remaining_bytes_in_cluster f"
  shows "cursor_ok fsd first f' = cursor_ok fsd first f"
  by (simp only: cursor_ok_def assms)

lemma contiguous_file_touched [simp]:
  "contiguous_file P cap fsd first n (f\<lparr>touched := t\<rparr>) = contiguous_file P cap fsd first n f"
  by (simp add: contiguous_file_def cursor_ok_def Let_def)

lemma sector_of_cluster_offset:
  assumes "geometry_ok P fsd" and "p mod unat (fsd_cluster_length fsd) = q mod unat (fsd_cluster_length fsd)"
  shows "p mod SIZE P = q mod SIZE P"
  using assms sector_split(2) by (metis geometry_ok_def)

text \<open>A write within the clusters of the file allocates nothing; the lengths are raised first.\<close>

definition cluster_capacity :: "file_system_details \<Rightarrow> open_file \<Rightarrow> nat" where
  "cluster_capacity fsd f = (unat (data_length (details f)) + unat (fsd_cluster_length fsd) - 1)
     div unat (fsd_cluster_length fsd) * unat (fsd_cluster_length fsd)"

lemma cluster_capacity_le:
  assumes "0 < unat (fsd_cluster_length fsd)" and "unat (data_length (details f)) \<le> unat n * unat (fsd_cluster_length fsd)"
  shows "cluster_capacity fsd f \<le> unat n * unat (fsd_cluster_length fsd)"
proof -
  let ?cl = "unat (fsd_cluster_length fsd)"
  have "(unat (data_length (details f)) + ?cl - 1) div ?cl \<le> (unat n * ?cl + (?cl - 1)) div ?cl"
    using assms by (intro div_le_mono) simp
  also have "\<dots> = unat n" using assms(1) div_mult_self3 [of ?cl "unat n" "?cl - 1"] by simp
  finally show ?thesis unfolding cluster_capacity_def by (rule mult_le_mono1)
qed

definition head_length :: "('d, 'e) platform \<Rightarrow> nat \<Rightarrow> nat \<Rightarrow> nat" where
  "head_length P c len = (if 0 < c mod SIZE P \<or> len < SIZE P then min len (SIZE P - c mod SIZE P) else 0)"

lemma head_length_le: "head_length P c len \<le> len"
  by (simp add: head_length_def)

lemma head_aligned:
  assumes "0 < SIZE P" and "head_length P c len < len"
  shows "(c + head_length P c len) mod SIZE P = 0"
proof (cases "0 < c mod SIZE P \<or> len < SIZE P")
  case True
  then have "head_length P c len = SIZE P - c mod SIZE P" using assms(2) by (auto simp: head_length_def min_def)
  moreover have "c mod SIZE P + (SIZE P - c mod SIZE P) = SIZE P" using mod_less_divisor [OF assms(1), of c] by simp
  ultimately show ?thesis using step_to_block_end(2) [OF _ assms(1)] by metis
next
  case False
  then show ?thesis by (simp add: head_length_def)
qed

definition write_body :: "('d, 'e) platform \<Rightarrow> u8 list \<Rightarrow> nat \<Rightarrow> ('d, unit, 'e) file_op" where
  "write_body P buf = (\<lambda>len.
      if len < length buf
      then let rest = drop len buf; blocks = as_chunks (SIZE P) rest;
               remainder = drop (SIZE P * length blocks) rest in
        andthen (for_each blocks (write_block P)) (\<lambda>_.
        andthen (write_partial_sector P remainder) (\<lambda>_. ret ()))
      else ret ())"

lemma run_bytes_less: "unat (n :: u32) * unat (fsd_cluster_length fsd) < 2 ^ 64"
proof -
  have "unat n * unat (fsd_cluster_length fsd) < 2 ^ 32 * 2 ^ 32"
    by (intro mult_strict_mono) (use unat_less_length [of n] unat_less_length [of "fsd_cluster_length fsd"] in simp_all)
  then show ?thesis by simp
qed

text \<open>The steps of \<open>write\<close>; clusters are allocated when the end of the write lies behind the last one.\<close>

lemma file_write_steps:
  assumes "is_mounted s" and "opt_write (open_options f)" and buf: "buf \<noteq> []"
    and cl: "0 < unat (fsd_cluster_length (fs_details s))"
    and dl: "unat (data_length (details f)) \<le> unat (n :: u32) * unat (fsd_cluster_length (fs_details s))"
    and e: "unat (cursor f) + length buf < 2 ^ 64" "unat (cursor f) + length buf < 2 ^ usize_bits P"
  shows "file_write P buf (f, s) =
    andthen (if cluster_capacity (fs_details s) f < unat (cursor f) + length buf
        then allocate_clusters_for P (unat (cursor f) + length buf - cluster_capacity (fs_details s) f) else ret ()) (\<lambda>_.
    andthen (upd_file (update_data_length (length buf))) (\<lambda>_.
    andthen (next_cluster_if_required P) (\<lambda>_.
    andthen (write_partial_sector P buf) (write_body P buf)))) (f, s)"
proof -
  let ?fsd = "fs_details s" and ?cl = "unat (fsd_cluster_length (fs_details s))" and ?c = "unat (cursor f)"
  let ?w = "ucast (fsd_cluster_length ?fsd) :: u64"
  let ?capw = "div_ceil (data_length (details f)) ?w * ?w" and ?ew = "cursor f + of_nat (length buf)"
  have cap: "cluster_capacity ?fsd f < 2 ^ 64" using cluster_capacity_le [OF cl dl] run_bytes_less [of n ?fsd] by simp
  have cl0: "fsd_cluster_length ?fsd \<noteq> 0" using cl by (simp add: unat_gt_0)
  have w: "unat ?w = ?cl" by (simp add: unat_ucast_up)
  then have w0: "?w \<noteq> 0" using cl by (metis unat_0 less_irrefl)
  have capw: "unat ?capw = cluster_capacity ?fsd f"
    using cap by (simp add: unat_word_ariths unat_div_ceil [OF w0] w cluster_capacity_def)
  have ew: "unat ?ew = ?c + length buf" using e(1) by (simp add: unat_word_ariths unat_of_nat)
  have grow: "?capw < ?ew \<longleftrightarrow> cluster_capacity ?fsd f < ?c + length buf" by (simp add: word_less_nat_alt capw ew)
  have len: "as_usize P (?ew - ?capw) = ?c + length buf - cluster_capacity ?fsd f" if "cluster_capacity ?fsd f < ?c + length buf"
  proof -
    have "unat (?ew - ?capw) = ?c + length buf - cluster_capacity ?fsd f"
      using that by (simp add: unat_sub word_le_nat_alt capw ew)
    then show ?thesis using e(2) by (simp add: as_usize_def)
  qed
  have "file_write P buf (f, s) =
    andthen (if ?capw < ?ew then allocate_clusters_for P (as_usize P (?ew - ?capw)) else ret ()) (\<lambda>_.
    andthen (upd_file (update_data_length (length buf))) (\<lambda>_.
    andthen (next_cluster_if_required P) (\<lambda>_.
    andthen (write_partial_sector P buf) (write_body P buf)))) (f, s)"
    unfolding file_write_def write_body_def if_not_P [OF buf]
      andthen_Ok [where m = "in_fs (mount P)", OF mounted_mount [OF assms(1)]]
      the_file_def cluster_length_def andthen_gets fst_conv Let_def
    using assms(2) by (simp only: not_True_eq_False if_False prod.case andthen_assert [OF cl0])
  then show ?thesis unfolding grow using len by (cases "cluster_capacity ?fsd f < ?c + length buf") simp_all
qed

text \<open>The lengths are raised, and the cursor gets a cluster.\<close>

lemma write_settle:
  assumes ok: "contiguous_file P cap (fs_details s) first n f" and buf: "0 < len"
    and vd: "valid_data_length (details f) \<le> data_length (details f)"
    and e: "unat (cursor f) + len \<le> unat n * unat (fsd_cluster_length (fs_details s))"
      "unat (cursor f) + len < 2 ^ usize_bits P"
  obtains f' where "next_cluster_if_required P (update_data_length len f, s) = (Ok (), f', s)"
    and "contiguous_file P cap (fs_details s) first n f'" and "remaining_bytes_in_cluster f' \<noteq> 0"
    and "cursor f' = cursor f" and "open_options f' = open_options f"
    and "unat (data_length (details f')) = max (unat (cursor f) + len) (unat (data_length (details f)))"
    and "unat (valid_data_length (details f')) = max (unat (cursor f) + len) (unat (valid_data_length (details f)))"
    and "flags (details f') = flags (details f)"
proof -
  let ?fsd = "fs_details s" and ?cl = "unat (fsd_cluster_length (fs_details s))" and ?c = "unat (cursor f)"
  have cl: "0 < ?cl" and dl: "unat (data_length (details f)) \<le> unat n * ?cl"
    using ok by (auto simp: contiguous_file_def geometry_ok_def)
  have ew: "unat (cursor f + of_nat len) = ?c + len"
    using e(1) run_bytes_less [of n ?fsd] by (simp add: unat_word_ariths unat_of_nat)
  let ?f = "update_data_length len f"
  have upd: "unat (valid_data_length (details ?f)) = max (?c + len) (unat (valid_data_length (details f)))"
    "unat (data_length (details ?f)) = max (?c + len) (unat (data_length (details f)))"
    using vd ew by (simp_all add: update_data_length_def Let_def max_def word_le_nat_alt)
  have same: "cursor ?f = cursor f" "open_options ?f = open_options f" "chain ?f = chain f"
    "current_cluster ?f = current_cluster f" "remaining_bytes_in_cluster ?f = remaining_bytes_in_cluster f"
    by (simp_all add: update_data_length_def Let_def)
  have ok': "contiguous_file P cap ?fsd first n ?f"
    using ok e dl upd cursor_ok_same [OF same(1,4,5)] by (simp add: contiguous_file_def same(3))
  have "?c < max (?c + len) (unat (data_length (details f)))" using buf by linarith
  then have cur: "cursor ?f < data_length (details ?f)" by (simp only: word_less_nat_alt same(1) upd(2))
  obtain cc rr where nx: "next_cluster_if_required P (?f, s) =
      (Ok (), ?f\<lparr>current_cluster := cc, remaining_bytes_in_cluster := rr\<rparr>, s)"
    "unat cc = unat first + ?c div ?cl" "unat rr = ?cl - ?c mod ?cl"
    using cursor_ok_settle [OF ok' cur refl] same(1) by metis
  have rr: "rr \<noteq> 0" using nx(3) mod_less_divisor [OF cl, of ?c] by (metis unat_0 zero_less_diff less_irrefl)
  then have "contiguous_file P cap ?fsd first n (?f\<lparr>current_cluster := cc, remaining_bytes_in_cluster := rr\<rparr>)"
    using ok' nx(2,3) by (simp add: contiguous_file_def cursor_ok_def Let_def same(1))
  moreover have "flags (details ?f) = flags (details f)" by (simp add: update_data_length_def Let_def)
  ultimately show thesis using that [OF nx(1)] rr upd same(1,2) by simp
qed

lemma write_prepare:
  assumes ok: "contiguous_file P cap (fs_details s) first n f" and "is_mounted s" and "opt_write (open_options f)"
    and buf: "buf \<noteq> []" and vd: "valid_data_length (details f) \<le> data_length (details f)"
    and e: "unat (cursor f) + length buf \<le> cluster_capacity (fs_details s) f"
      "unat (cursor f) + length buf < 2 ^ usize_bits P"
  obtains f' where "file_write P buf (f, s) = andthen (write_partial_sector P buf) (write_body P buf) (f', s)"
    and "contiguous_file P cap (fs_details s) first n f'" and "remaining_bytes_in_cluster f' \<noteq> 0"
    and "cursor f' = cursor f" and "open_options f' = open_options f"
    and "unat (data_length (details f')) = max (unat (cursor f) + length buf) (unat (data_length (details f)))"
    and "unat (valid_data_length (details f')) = max (unat (cursor f) + length buf) (unat (valid_data_length (details f)))"
proof -
  let ?fsd = "fs_details s" and ?cl = "unat (fsd_cluster_length (fs_details s))" and ?c = "unat (cursor f)"
  have cl: "0 < ?cl" and dl: "unat (data_length (details f)) \<le> unat n * ?cl"
    using ok by (auto simp: contiguous_file_def geometry_ok_def)
  have fit: "?c + length buf \<le> unat n * ?cl" using cluster_capacity_le [OF cl dl] e(1) by simp
  have "?c + length buf < 2 ^ 64" using fit run_bytes_less [of n ?fsd] by simp
  note steps = file_write_steps [OF assms(2,3) buf cl dl this e(2)]
  have "0 < length buf" using buf by simp
  then obtain f' where f': "next_cluster_if_required P (update_data_length (length buf) f, s) = (Ok (), f', s)"
    "contiguous_file P cap ?fsd first n f'" "remaining_bytes_in_cluster f' \<noteq> 0" "cursor f' = cursor f"
    "open_options f' = open_options f" "unat (data_length (details f')) = max (?c + length buf) (unat (data_length (details f)))"
    "unat (valid_data_length (details f')) = max (?c + length buf) (unat (valid_data_length (details f)))"
    using write_settle [OF ok _ vd fit e(2)] by metis
  have u: "upd_file (update_data_length (length buf)) (f, s) = (Ok (), update_data_length (length buf) f, s)"
    and r: "ret () (f, s) = (Ok (), f, s)" by (simp_all add: upd_file_def modify_def ret_def)
  have "file_write P buf (f, s) = andthen (write_partial_sector P buf) (write_body P buf) (f', s)"
    unfolding steps using e(1)
    by (simp only: not_less [symmetric] if_False andthen_Ok [where m = "ret ()", OF r]
        andthen_Ok [where m = "upd_file (update_data_length (length buf))", OF u]
        andthen_Ok [where m = "next_cluster_if_required P", OF f'(1)])
  then show thesis using that f'(2-7) by blast
qed

definition tail_in_place :: "('d, 'e) platform \<Rightarrow> file_system_details \<Rightarrow> nat \<Rightarrow> nat \<Rightarrow> bool" where
  "tail_in_place P fsd c len \<longleftrightarrow>
     (let start = (c + len) div SIZE P * SIZE P in
      start = c + len \<or> start mod unat (fsd_cluster_length fsd) \<noteq> 0 \<or> start \<le> c)"

lemma tail_start:
  fixes c m len S :: nat
  assumes "(c + m) mod S = 0" and "m \<le> len" and "len - m \<le> (c + len) mod S"
  shows "(c + len) div S * S = c + m"
proof -
  have "c + len = (c + len) div S * S + (c + len) mod S" by simp
  moreover have "(c + len) mod S = len - m"
  proof -
    have "(c + len) mod S = (c + m + (len - m)) mod S" using assms(2) by simp
    also have "\<dots> = (len - m) mod S" using assms(1) mod_add_eq [of "c + m" S "len - m"] by simp
    also have "\<dots> \<le> len - m" by simp
    finally show ?thesis using assms(3) by simp
  qed
  ultimately show ?thesis using assms(2) by linarith
qed

lemma tail_place:
  assumes "tail_in_place P fsd c len" and "m < len" and "0 < m" and "(c + m) mod SIZE P = 0"
    and "m \<le> len" and "len - m \<le> (c + len) mod SIZE P"
  shows "(c + m) mod unat (fsd_cluster_length fsd) \<noteq> 0"
  using assms(1-3) tail_start [OF assms(4-6)] by (auto simp: tail_in_place_def Let_def)

lemma tail_after_head:
  fixes c S len :: nat
  assumes "(c + len) div S * S \<noteq> c + len" and "c < (c + len) div S * S" and "0 < S" and "S = SIZE P" and "0 < len"
  shows "head_length P c len < len"
proof -
  have "c div S < (c + len) div S" using assms(2,3) by (simp add: div_less_iff_less_mult)
  then have "(c div S + 1) * S \<le> (c + len) div S * S" by (intro mult_le_mono1) simp
  moreover have "(c + len) div S * S < c + len" using assms(1) div_times_less_eq_dividend [of "c + len" S] by linarith
  moreover have "c = c div S * S + c mod S" by simp
  moreover have "(c div S + 1) * S = c div S * S + S" by simp
  ultimately have "S - c mod S < len" using assms(5) by linarith
  then show ?thesis using assms(4,5) by (simp add: head_length_def)
qed

context reliable_device
begin

lemma cache_write_total:
  assumes "ready st" and "unat s < capacity (snd st)" and "length b = SIZE P"
  obtains st' where "cache_write P s b st = (Ok (), st')" and "ready st'"
    and "view st' = (view st)(s := b)" and "capacity (snd st') = capacity (snd st)"
    and "\<And>t j. holds (fst st') t j \<longleftrightarrow> holds (fst st) t j"
proof -
  obtain c d where st: "st = (c, d)" by (cases st)
  have inv: "inv (c, d)" and w: "slots_within (capacity d) c" using assms(1) by (simp_all add: st cache_ready_def)
  note I = cache_invD [OF inv]
  obtain d' where bw: "bd_write P d s b = (Ok (), d')" using write_returns [OF I(1)] assms(2,3) by (metis st snd_conv)
  obtain r c1 where hit: "cache_hit s c = (r, c1)" by (cases "cache_hit s c")
  obtain c' where r: "cache_write P s b (c, d) = (Ok (), c', d')" and h: "\<And>t j. holds c' t j \<longleftrightarrow> holds c t j"
  proof (cases r)
    case None
    with hit have "cache_hit s c = (None, c1)" by simp
    then have "cache_hit s c = (None, c)" using cache_hit_None(1) [OF _ I(2)] by simp
    then show thesis using that [of c] bw by (simp add: cache_write_def Let_def)
  next
    case (Some i)
    with hit have "cache_hit s c = (Some i, c1)" by simp
    note H = cache_hit_Some [OF this I(2)]
    have "holds (upd_slot i (\<lambda>slot. slot\<lparr>slot_blocks := b, is_dirty := False\<rparr>) c1) t j \<longleftrightarrow> holds c t j" for t j
      using holdsD [OF H(1)] by (auto simp: holds_def H(2) upd_slot_def nth_list_update)
    then show thesis using that Some hit bw by (simp add: cache_write_def Let_def)
  qed
  note W = cache_write_ok [OF inv assms(3) r]
  have "slots_within (capacity d') c'" using w h W(4) by (simp add: slots_within_def)
  then show thesis using that [of "(c', d')"] r W h by (simp add: st cache_ready_def)
qed

text \<open>A partial sector goes where the cursor's cluster points, at the byte \<open>p\<close>.\<close>

lemma write_partial_ok:
  assumes g: "geometry_ok P (fs_details s)" and r: "run_ok (capacity (fs_dev s)) (fs_details s) first n"
    and p: "p < unat n * unat (fsd_cluster_length (fs_details s))"
      "p mod unat (fsd_cluster_length (fs_details s)) = unat (cursor f) mod unat (fsd_cluster_length (fs_details s))"
      "unat (current_cluster f) = unat first + p div unat (fsd_cluster_length (fs_details s))"
    and buf: "buf \<noteq> []" "0 < unat (cursor f) mod SIZE P \<or> length buf < SIZE P"
    and rdy: "data_ready s" and k: "k = min (length buf) (SIZE P - unat (cursor f) mod SIZE P)"
  obtains t c' d' where "write_partial_sector P buf (f, s) =
      (Ok k, move_file_cursor k (f\<lparr>touched := t\<rparr>), s\<lparr>data_blocks := c', fs_dev := d'\<rparr>)"
    and "stored P (fs_details s) first n (data_view s) p (take k buf) (view (c', d'))"
    and "ready (c', d')" and "(capacity d' = capacity (fs_dev s) \<and> held_in (fs_details s) first n (data_blocks s) c')"
proof -
  let ?fsd = "fs_details s" and ?S = "SIZE P" and ?c = "unat (cursor f)"
  let ?sec = "byte_sector P ?fsd first p"
  have sz: "0 < ?S" "?S < 2 ^ 32" using g by (simp_all add: geometry_ok_def)
  have start: "unat (cursor f mod of_nat ?S :: u64) = ?c mod ?S"
    using sz(2) by (simp add: unat_mod unat_of_nat)
  have pS: "p mod ?S = ?c mod ?S" by (rule sector_of_cluster_offset [OF g p(2)])
  have m: "?c mod ?S < ?S" using sz(1) by simp
  have idx: "min ?S (?c mod ?S + length buf) - ?c mod ?S = k"
    "0 < ?c mod ?S \<or> min ?S (?c mod ?S + length buf) < ?S" using k m buf(2) by auto
  have lb: "length (data_view s ?sec) = ?S" using store.content_length [OF rdy] .
  have "?c mod ?S + length (take k buf) \<le> length (data_view s ?sec)" using k m lb by simp
  then obtain b where b: "splice (?c mod ?S) (take k buf) (data_view s ?sec) = Some b"
    by (simp only: splice_def if_True)
  have "length b = ?S" using splice_length [OF b] lb by simp
  then obtain st where u: "update_sector P ?sec (splice (?c mod ?S) (take k buf)) (data_blocks s, fs_dev s) = (Ok (), st)"
    "ready st" "view st = (data_view s)(?sec := b)" "capacity (snd st) = capacity (fs_dev s)"
    using update_sector_total [OF rdy, of ?sec] byte_sector_in_run(2) [OF g r p(1)] b by (metis snd_conv)
  have held: "held_in ?fsd first n (data_blocks s) (fst st)"
    using update_sector_holds [OF rdy u(1)] byte_in_run [OF g r p(1)] by (auto simp: held_in_def)
  have S0: "(of_nat ?S :: u64) \<noteq> 0" using sz by (simp add: word_unat_eq_iff unat_of_nat)
  have "write_partial_sector P buf (f, s) =
      (Ok k, move_file_cursor k (f\<lparr>touched := touched_insert (touched_sector_new TkData ?sec) (touched f)\<rparr>),
       s\<lparr>data_blocks := fst st, fs_dev := snd st\<rparr>)"
    using buf(1) S0 idx u(1) current_sector_eval [OF g r refl p]
    by (simp add: write_partial_sector_def the_file_def andthen_def gets_def assert_that_def start Let_def
        in_fs_def on_data_def zoom_def in_fst_def touch_def modify_def upd_file_def ret_def split: prod.split)
  moreover have "stored P ?fsd first n (data_view s) p (take k buf) (view st)"
    unfolding u(3) by (rule stored_sector [OF g r p(1)]) (use k pS lb b in simp_all)
  ultimately show thesis
    using that [where c' = "fst st" and d' = "snd st"] u(2,4) held by simp
qed

text \<open>A full sector, in the next cluster when the current one is used up.\<close>

lemma write_block_ok:
  assumes ok: "contiguous_file P (capacity (fs_dev s)) (fs_details s) first n f"
    and cur: "cursor f < data_length (details f)" and al: "unat (cursor f) mod SIZE P = 0"
    and len: "length b = SIZE P" and fit: "unat (cursor f) + SIZE P < 2 ^ 64" and rdy: "data_ready s"
  obtains f' c' d' where "write_block P b (f, s) = (Ok (), f', s\<lparr>data_blocks := c', fs_dev := d'\<rparr>)"
    and "stored P (fs_details s) first n (data_view s) (unat (cursor f)) b (view (c', d'))"
    and "unat (cursor f') = unat (cursor f) + SIZE P" and "details f' = details f"
    and "open_options f' = open_options f"
    and "contiguous_file P (capacity (fs_dev s)) (fs_details s) first n f'"
    and "unat (cursor f') mod unat (fsd_cluster_length (fs_details s)) = 0 \<Longrightarrow> remaining_bytes_in_cluster f' = 0"
    and "ready (c', d')" and "(capacity d' = capacity (fs_dev s) \<and> held_in (fs_details s) first n (data_blocks s) c')"
proof -
  let ?fsd = "fs_details s" and ?c = "unat (cursor f)" and ?cl = "unat (fsd_cluster_length (fs_details s))"
  let ?sec = "byte_sector P ?fsd first ?c"
  have g: "geometry_ok P ?fsd" and r: "run_ok (capacity (fs_dev s)) ?fsd first n"
    and dl: "unat (data_length (details f)) \<le> unat n * ?cl" using ok by (simp_all add: contiguous_file_def)
  have c: "?c < unat n * ?cl" using cur dl by (simp add: word_less_nat_alt)
  obtain cc rr where nx: "next_cluster_if_required P (f, s) =
      (Ok (), f\<lparr>current_cluster := cc, remaining_bytes_in_cluster := rr\<rparr>, s)"
    "unat cc = unat first + ?c div ?cl" "unat rr = ?cl - ?c mod ?cl"
    using cursor_ok_settle [OF ok cur refl] by metis
  let ?f = "f\<lparr>current_cluster := cc, remaining_bytes_in_cluster := rr\<rparr>"
  have sec: "get_current_sector_id P (?f, s) = (Ok ?sec, ?f, s)"
    by (rule current_sector_eval [OF g r refl c]) (use nx(2) in simp_all)
  obtain st where w: "cache_write P ?sec b (data_blocks s, fs_dev s) = (Ok (), st)" "ready st"
    "view st = (data_view s)(?sec := b)" "capacity (snd st) = capacity (fs_dev s)"
    "\<And>t j. holds (fst st) t j \<longleftrightarrow> holds (data_blocks s) t j"
    using cache_write_total [OF rdy, of ?sec] byte_sector_in_run(2) [OF g r c] len by (metis fst_conv snd_conv)
  have held: "held_in (fs_details s) first n (data_blocks s) (fst st)" using w(5) by (auto simp: held_in_def)
  have lb: "length (data_view s ?sec) = SIZE P" using store.content_length [OF rdy] .
  have "stored P ?fsd first n (data_view s) ?c b (view st)"
    unfolding w(3) by (rule stored_sector [OF g r c]) (use al len lb in \<open>simp_all add: splice_def\<close>)
  moreover have "write_block P b (f, s) = (Ok (), move_file_cursor (SIZE P) ?f, s\<lparr>data_blocks := fst st, fs_dev := snd st\<rparr>)"
    unfolding write_block_def andthen_Ok [where m = "next_cluster_if_required P", OF nx(1)]
      andthen_Ok [where m = "get_current_sector_id P", OF sec]
    using w(1) len
    by (simp add: andthen_def in_fs_def on_data_def zoom_def upd_file_def modify_def split: prod.split)
  moreover have S: "SIZE P \<le> SIZE P - ?c mod SIZE P" "0 < SIZE P" using al g by (simp_all add: geometry_ok_def)
  note mv = move_cursor_ok [OF ok nx(2,3) S(1) fit] move_cursor_end [OF ok nx(2,3) S fit]
  ultimately show thesis
    using that [where f' = "move_file_cursor (SIZE P) ?f" and c' = "fst st" and d' = "snd st"] w(2,4) mv held
    by (simp add: move_file_cursor_def)
qed

lemma write_blocks_ok:
  assumes "contiguous_file P (capacity (fs_dev s)) (fs_details s) first n f"
    and "unat (cursor f) mod SIZE P = 0" and "\<forall>b \<in> set bs. length b = SIZE P"
    and "unat (cursor f) + SIZE P * length bs \<le> unat (data_length (details f))" and "data_ready s"
  shows "\<exists>f' c' d'. for_each bs (write_block P) (f, s) = (Ok (), f', s\<lparr>data_blocks := c', fs_dev := d'\<rparr>) \<and>
    stored P (fs_details s) first n (data_view s) (unat (cursor f)) (concat bs) (view (c', d')) \<and>
    unat (cursor f') = unat (cursor f) + SIZE P * length bs \<and> details f' = details f \<and>
    open_options f' = open_options f \<and> contiguous_file P (capacity (fs_dev s)) (fs_details s) first n f' \<and>
    (bs = [] \<and> f' = f \<or> (unat (cursor f') mod unat (fsd_cluster_length (fs_details s)) = 0 \<longrightarrow>
       remaining_bytes_in_cluster f' = 0)) \<and>
    ready (c', d') \<and> (capacity d' = capacity (fs_dev s) \<and> held_in (fs_details s) first n (data_blocks s) c')"
  using assms
proof (induction bs arbitrary: f s)
  case Nil
  then show ?case
    by (intro exI [of _ f] exI [of _ "data_blocks s"] exI [of _ "fs_dev s"]) (simp add: ret_def stored_nil)
next
  case (Cons b bs)
  let ?c = "unat (cursor f)" and ?cl = "unat (fsd_cluster_length (fs_details s))"
  have S: "0 < SIZE P" using Cons.prems(1) by (simp add: contiguous_file_def geometry_ok_def)
  have le: "?c + SIZE P \<le> unat (data_length (details f))" using Cons.prems(4) by simp
  then have cur: "cursor f < data_length (details f)" and fit: "?c + SIZE P < 2 ^ 64"
    using S unat_less_length [of "data_length (details f)"] by (simp_all add: word_less_nat_alt)
  have lb: "length b = SIZE P" using Cons.prems(3) by simp
  obtain f1 c1 d1 where w: "write_block P b (f, s) = (Ok (), f1, s\<lparr>data_blocks := c1, fs_dev := d1\<rparr>)"
    and st1: "stored P (fs_details s) first n (data_view s) ?c b (view (c1, d1))"
    and f1: "unat (cursor f1) = ?c + SIZE P" "details f1 = details f" "open_options f1 = open_options f"
      "contiguous_file P (capacity (fs_dev s)) (fs_details s) first n f1"
      "unat (cursor f1) mod ?cl = 0 \<Longrightarrow> remaining_bytes_in_cluster f1 = 0"
    and d1: "ready (c1, d1)" "(capacity d1 = capacity (fs_dev s) \<and> held_in (fs_details s) first n (data_blocks s) c1)"
    using write_block_ok [OF Cons.prems(1) cur Cons.prems(2) lb fit Cons.prems(5)] by metis
  let ?s = "s\<lparr>data_blocks := c1, fs_dev := d1\<rparr>"
  have pre: "contiguous_file P (capacity (fs_dev ?s)) (fs_details ?s) first n f1" "data_ready ?s"
    "unat (cursor f1) mod SIZE P = 0" "\<forall>b \<in> set bs. length b = SIZE P"
    "unat (cursor f1) + SIZE P * length bs \<le> unat (data_length (details f1))"
    using f1 d1 Cons.prems by simp_all
  obtain f' c' d' where l: "for_each bs (write_block P) (f1, ?s) = (Ok (), f', ?s\<lparr>data_blocks := c', fs_dev := d'\<rparr>)"
    and st2: "stored P (fs_details ?s) first n (data_view ?s) (unat (cursor f1)) (concat bs) (view (c', d'))"
    and f': "unat (cursor f') = unat (cursor f1) + SIZE P * length bs" "details f' = details f1"
      "open_options f' = open_options f1" "contiguous_file P (capacity (fs_dev ?s)) (fs_details ?s) first n f'"
      "bs = [] \<and> f' = f1 \<or> (unat (cursor f') mod unat (fsd_cluster_length (fs_details ?s)) = 0 \<longrightarrow>
        remaining_bytes_in_cluster f' = 0)"
    and d': "ready (c', d')" "(capacity d' = capacity (fs_dev ?s) \<and> held_in (fs_details ?s) first n (data_blocks ?s) c')"
    using Cons.IH [OF pre(1,3,4,5,2)] by metis
  have "stored P (fs_details s) first n (data_view s) ?c (b @ concat bs) (view (c', d'))"
    using stored_append [OF st1, of "concat bs"] st2 f1(1) lb by simp
  moreover have "for_each (b # bs) (write_block P) (f, s) = (Ok (), f', s\<lparr>data_blocks := c', fs_dev := d'\<rparr>)"
    unfolding for_each.simps andthen_Ok [where m = "write_block P b", OF w] l by simp
  ultimately show ?case
    using f' d' f1 d1
    by (intro exI [of _ f'] exI [of _ c'] exI [of _ d']) (auto simp: algebra_simps intro: held_in_trans)
qed

text \<open>The head: what fits in a sector that is not overwritten whole.\<close>

lemma write_head_ok:
  assumes ok: "contiguous_file P (capacity (fs_dev s)) (fs_details s) first n f" and rem: "remaining_bytes_in_cluster f \<noteq> 0"
    and buf: "buf \<noteq> []" and fit: "unat (cursor f) + length buf \<le> unat (data_length (details f))" and rdy: "data_ready s"
    and k: "k = head_length P (unat (cursor f)) (length buf)"
  shows "\<exists>f' c' d'. write_partial_sector P buf (f, s) = (Ok k, f', s\<lparr>data_blocks := c', fs_dev := d'\<rparr>) \<and>
    stored P (fs_details s) first n (data_view s) (unat (cursor f)) (take k buf) (view (c', d')) \<and>
    unat (cursor f') = unat (cursor f) + k \<and> details f' = details f \<and> open_options f' = open_options f \<and>
    contiguous_file P (capacity (fs_dev s)) (fs_details s) first n f' \<and>
    (k = 0 \<and> f' = f \<or> (unat (cursor f') mod unat (fsd_cluster_length (fs_details s)) = 0 \<longrightarrow>
       remaining_bytes_in_cluster f' = 0)) \<and>
    ready (c', d') \<and> (capacity d' = capacity (fs_dev s) \<and> held_in (fs_details s) first n (data_blocks s) c')"
proof -
  let ?c = "unat (cursor f)" and ?cl = "unat (fsd_cluster_length (fs_details s))"
  have g: "geometry_ok P (fs_details s)" and r: "run_ok (capacity (fs_dev s)) (fs_details s) first n"
    and dl: "unat (data_length (details f)) \<le> unat n * ?cl" using ok by (simp_all add: contiguous_file_def)
  have S: "0 < SIZE P" "SIZE P < 2 ^ 32" using g by (simp_all add: geometry_ok_def)
  have c: "?c < unat n * ?cl" using fit dl buf by (cases buf) simp_all
  have cc: "unat (current_cluster f) = unat first + ?c div ?cl" "unat (remaining_bytes_in_cluster f) = ?cl - ?c mod ?cl"
    using ok rem by (simp_all add: contiguous_file_def cursor_ok_def Let_def)
  show ?thesis
  proof (cases "0 < ?c mod SIZE P \<or> length buf < SIZE P")
    case True
    then have k': "k = min (length buf) (SIZE P - ?c mod SIZE P)" using k by (simp add: head_length_def)
    obtain t c' d' where w: "write_partial_sector P buf (f, s) =
        (Ok k, move_file_cursor k (f\<lparr>touched := t\<rparr>), s\<lparr>data_blocks := c', fs_dev := d'\<rparr>)"
      and st: "stored P (fs_details s) first n (data_view s) ?c (take k buf) (view (c', d'))"
      and d': "ready (c', d')" "(capacity d' = capacity (fs_dev s) \<and> held_in (fs_details s) first n (data_blocks s) c')"
      using write_partial_ok [OF g r c refl cc(1) buf True rdy k'] by metis
    have kS: "k \<le> SIZE P - ?c mod SIZE P" "0 < k" using k' buf S(1) by simp_all
    have k64: "?c + k < 2 ^ 64" using k' fit unat_less_length [of "data_length (details f)"] by simp
    let ?f = "f\<lparr>touched := t\<rparr>"
    have ok': "contiguous_file P (capacity (fs_dev s)) (fs_details s) first n ?f"
      using ok by simp
    have cc': "unat (current_cluster f) = unat first + unat (cursor ?f) div ?cl"
      "unat (remaining_bytes_in_cluster f) = ?cl - unat (cursor ?f) mod ?cl" using cc by simp_all
    have kS': "k \<le> SIZE P - unat (cursor ?f) mod SIZE P" "unat (cursor ?f) + k < 2 ^ 64" using kS k64 by simp_all
    note mv = move_cursor_ok [OF ok' cc' kS'] move_cursor_end [OF ok' cc' kS'(1) kS(2) kS'(2)]
    have same: "?f\<lparr>current_cluster := current_cluster f, remaining_bytes_in_cluster := remaining_bytes_in_cluster f\<rparr> = ?f"
      by simp
    have "details (move_file_cursor k ?f) = details f" "open_options (move_file_cursor k ?f) = open_options f"
      by (simp_all add: move_file_cursor_def)
    then show ?thesis
      using w st d' mv unfolding same
      by (intro exI [of _ "move_file_cursor k ?f"] exI [of _ c'] exI [of _ d']) simp
  next
    case False
    then have "k = 0" using k by (simp add: head_length_def)
    have m: "unat (cursor f mod of_nat (SIZE P) :: u64) = 0"
      using S(2) False by (simp add: unat_mod unat_of_nat)
    have "(of_nat (SIZE P) :: u64) \<noteq> 0" using S by (simp add: word_unat_eq_iff unat_of_nat)
    then have "write_partial_sector P buf (f, s) = (Ok 0, f, s)"
      using buf False m current_sector_eval [OF g r refl c refl cc(1)]
      by (simp add: write_partial_sector_def the_file_def andthen_def gets_def assert_that_def Let_def ret_def)
    then show ?thesis
      using ok rdy \<open>k = 0\<close>
      by (intro exI [of _ f] exI [of _ "data_blocks s"] exI [of _ "fs_dev s"]) (simp add: stored_nil)
  qed
qed

text \<open>The head and the full sectors; what is left is the tail, less than a sector.\<close>

lemma write_until_tail:
  assumes ok: "contiguous_file P (capacity (fs_dev s)) (fs_details s) first n f" and rem: "remaining_bytes_in_cluster f \<noteq> 0"
    and buf: "buf \<noteq> []" and fit: "unat (cursor f) + length buf \<le> unat (data_length (details f))" and rdy: "data_ready s"
    and more: "head_length P (unat (cursor f)) (length buf) < length buf"
    and m: "m = length buf - (unat (cursor f) + length buf) mod SIZE P"
  shows "0 < m \<and> (unat (cursor f) + m) mod SIZE P = 0 \<and> (\<exists>f' c' d'.
    andthen (write_partial_sector P buf) (write_body P buf) (f, s) =
      andthen (write_partial_sector P (drop m buf)) (\<lambda>_. ret ()) (f', s\<lparr>data_blocks := c', fs_dev := d'\<rparr>) \<and>
    stored P (fs_details s) first n (data_view s) (unat (cursor f)) (take m buf) (view (c', d')) \<and>
    unat (cursor f') = unat (cursor f) + m \<and> details f' = details f \<and> open_options f' = open_options f \<and>
    contiguous_file P (capacity (fs_dev s)) (fs_details s) first n f' \<and>
    (unat (cursor f') mod unat (fsd_cluster_length (fs_details s)) = 0 \<longrightarrow> remaining_bytes_in_cluster f' = 0) \<and>
    ready (c', d') \<and> (capacity d' = capacity (fs_dev s) \<and> held_in (fs_details s) first n (data_blocks s) c'))"
proof -
  let ?c = "unat (cursor f)" and ?L = "length buf" and ?S = "SIZE P"
  let ?cl = "unat (fsd_cluster_length (fs_details s))"
  define k where "k = head_length P ?c ?L"
  have S: "0 < ?S" using ok by (simp add: contiguous_file_def geometry_ok_def)
  have kL: "k < ?L" using more by (simp add: k_def)
  have al: "(?c + k) mod ?S = 0" using head_aligned [OF S more] by (simp add: k_def)
  let ?blocks = "as_chunks ?S (drop k buf)" and ?nb = "(?L - k) div ?S"
  have "(?c + ?L) mod ?S = (?c + k + (?L - k)) mod ?S" using kL by simp
  also have "\<dots> = (?L - k) mod ?S" using al mod_add_eq [of "?c + k" ?S "?L - k"] by simp
  finally have tail: "(?c + ?L) mod ?S = (?L - k) mod ?S" .
  have "(?L - k) mod ?S + ?S * ?nb = ?L - k" by simp
  then have mk: "m = k + ?S * ?nb" "k + ?S * ?nb \<le> ?L" using kL m tail by linarith+
  have nb: "0 < ?nb" if "k = 0"
  proof -
    have "0 < ?S - ?c mod ?S" "0 < ?L" using S buf by simp_all
    then have "0 < min ?L (?S - ?c mod ?S)" by linarith
    then have "\<not> (0 < ?c mod ?S \<or> ?L < ?S)" using that unfolding k_def head_length_def by (metis less_irrefl)
    then show ?thesis using that S by (simp add: div_greater_zero_iff)
  qed
  have pos: "0 < m" using mk(1) nb S by (cases "k = 0") simp_all
  have alm: "(?c + m) mod ?S = 0"
    unfolding mk(1) using al by (metis add.assoc mod_mult_self2)
  obtain f1 c1 d1 where w: "write_partial_sector P buf (f, s) = (Ok k, f1, s\<lparr>data_blocks := c1, fs_dev := d1\<rparr>)"
    and st1: "stored P (fs_details s) first n (data_view s) ?c (take k buf) (view (c1, d1))"
    and f1: "unat (cursor f1) = ?c + k" "details f1 = details f" "open_options f1 = open_options f"
      "contiguous_file P (capacity (fs_dev s)) (fs_details s) first n f1"
      "k = 0 \<and> f1 = f \<or> (unat (cursor f1) mod ?cl = 0 \<longrightarrow> remaining_bytes_in_cluster f1 = 0)"
    and d1: "ready (c1, d1)" "(capacity d1 = capacity (fs_dev s) \<and> held_in (fs_details s) first n (data_blocks s) c1)"
    using write_head_ok [OF ok rem buf fit rdy k_def] by metis
  let ?s = "s\<lparr>data_blocks := c1, fs_dev := d1\<rparr>"
  have len: "\<forall>b \<in> set ?blocks. length b = ?S"
    by (metis as_chunks_nth_length in_set_conv_nth length_as_chunks)
  have pre: "contiguous_file P (capacity (fs_dev ?s)) (fs_details ?s) first n f1" "data_ready ?s"
    "unat (cursor f1) mod ?S = 0" "unat (cursor f1) + ?S * length ?blocks \<le> unat (data_length (details f1))"
    using f1 d1 al fit mk(2) by simp_all
  obtain f' c' d' where l: "for_each ?blocks (write_block P) (f1, ?s) = (Ok (), f', ?s\<lparr>data_blocks := c', fs_dev := d'\<rparr>)"
    and st2: "stored P (fs_details ?s) first n (data_view ?s) (unat (cursor f1)) (concat ?blocks) (view (c', d'))"
    and f': "unat (cursor f') = unat (cursor f1) + ?S * length ?blocks" "details f' = details f1"
      "open_options f' = open_options f1" "contiguous_file P (capacity (fs_dev ?s)) (fs_details ?s) first n f'"
      "?blocks = [] \<and> f' = f1 \<or> (unat (cursor f') mod unat (fsd_cluster_length (fs_details ?s)) = 0 \<longrightarrow>
        remaining_bytes_in_cluster f' = 0)"
    and d': "ready (c', d')" "(capacity d' = capacity (fs_dev ?s) \<and> held_in (fs_details ?s) first n (data_blocks ?s) c')"
    using write_blocks_ok [OF pre(1,3) len pre(4,2)] by metis
  have cur: "unat (cursor f') = ?c + m" using f'(1) f1(1) mk(1) by simp
  have bytes: "take k buf @ concat ?blocks = take m buf"
    unfolding concat_as_chunks mk(1) using kL by (simp add: take_add)
  have "stored P (fs_details s) first n (data_view s) ?c (take k buf @ concat ?blocks) (view (c', d'))"
    by (rule stored_append [OF st1]) (use st2 f1(1) kL in simp)
  then have st: "stored P (fs_details s) first n (data_view s) ?c (take m buf) (view (c', d'))"
    by (simp only: bytes)
  have rest: "drop (?S * length ?blocks) (drop k buf) = drop m buf" by (simp add: mk(1) add.commute)
  have run: "andthen (write_partial_sector P buf) (write_body P buf) (f, s) =
      andthen (write_partial_sector P (drop m buf)) (\<lambda>_. ret ()) (f', s\<lparr>data_blocks := c', fs_dev := d'\<rparr>)"
    unfolding andthen_Ok [where m = "write_partial_sector P buf", OF w] write_body_def Let_def rest if_P [OF kL]
      andthen_Ok [where m = "for_each ?blocks (write_block P)", OF l] by simp
  have "k = 0 \<longrightarrow> ?blocks \<noteq> []" using nb by (metis length_0_conv length_as_chunks length_drop less_irrefl)
  then have "unat (cursor f') mod ?cl = 0 \<longrightarrow> remaining_bytes_in_cluster f' = 0"
    using f'(5) f1(5) by auto
  moreover have "held_in (fs_details s) first n (data_blocks s) c'" using held_in_trans d1(2) d'(2) by fastforce
  ultimately show ?thesis
    using pos alm run st cur f'(2-4) f1(2-4) d' d1
    by (intro conjI exI [of _ f'] exI [of _ c'] exI [of _ d']) simp_all
qed

text \<open>
  Head, full sectors and tail together. The tail is written without moving to the next cluster: the write is right
  when the tail is empty, or does not start a cluster, or is all there is to write.
\<close>

lemma write_run_ok:
  assumes ok: "contiguous_file P (capacity (fs_dev s)) (fs_details s) first n g" and rem: "remaining_bytes_in_cluster g \<noteq> 0"
    and buf: "buf \<noteq> []" and fit: "unat (cursor g) + length buf \<le> unat (data_length (details g))" and rdy: "data_ready s"
    and tail: "tail_in_place P (fs_details s) (unat (cursor g)) (length buf)"
  shows "\<exists>f' c' d'. andthen (write_partial_sector P buf) (write_body P buf) (g, s) =
      (Ok (), f', s\<lparr>data_blocks := c', fs_dev := d'\<rparr>) \<and>
    stored P (fs_details s) first n (data_view s) (unat (cursor g)) buf (view (c', d')) \<and>
    unat (cursor f') = unat (cursor g) + length buf \<and> details f' = details g \<and> open_options f' = open_options g \<and>
    contiguous_file P (capacity (fs_dev s)) (fs_details s) first n f' \<and>
    ready (c', d') \<and> (capacity d' = capacity (fs_dev s) \<and> held_in (fs_details s) first n (data_blocks s) c')"
proof -
  let ?c = "unat (cursor g)" and ?L = "length buf" and ?S = "SIZE P"
  have S: "0 < ?S" using ok by (simp add: contiguous_file_def geometry_ok_def)
  show ?thesis
  proof (cases "head_length P ?c ?L < ?L")
    case False
    then have h: "?L = head_length P ?c ?L" using head_length_le [of P ?c ?L] by simp
    from write_head_ok [OF ok rem buf fit rdy h] obtain f' c' d' where
      w: "write_partial_sector P buf (g, s) = (Ok ?L, f', s\<lparr>data_blocks := c', fs_dev := d'\<rparr>)" and
      rest: "stored P (fs_details s) first n (data_view s) ?c (take ?L buf) (view (c', d'))"
      "unat (cursor f') = ?c + ?L" "details f' = details g" "open_options f' = open_options g"
      "contiguous_file P (capacity (fs_dev s)) (fs_details s) first n f'"
      "ready (c', d')" "(capacity d' = capacity (fs_dev s) \<and> held_in (fs_details s) first n (data_blocks s) c')" by metis
    have "andthen (write_partial_sector P buf) (write_body P buf) (g, s) = (Ok (), f', s\<lparr>data_blocks := c', fs_dev := d'\<rparr>)"
      unfolding andthen_Ok [where m = "write_partial_sector P buf", OF w] by (simp add: write_body_def ret_def)
    then show ?thesis using rest by (intro exI [of _ f'] exI [of _ c'] exI [of _ d']) simp
  next
    case more: True
    define m where "m = ?L - (?c + ?L) mod ?S"
    from write_until_tail [OF ok rem buf fit rdy more m_def] obtain f1 c1 d1 where m: "0 < m" "(?c + m) mod ?S = 0" and
      w: "andthen (write_partial_sector P buf) (write_body P buf) (g, s) =
        andthen (write_partial_sector P (drop m buf)) (\<lambda>_. ret ()) (f1, s\<lparr>data_blocks := c1, fs_dev := d1\<rparr>)" and
      st1: "stored P (fs_details s) first n (data_view s) ?c (take m buf) (view (c1, d1))" and
      f1: "unat (cursor f1) = ?c + m" "details f1 = details g" "open_options f1 = open_options g"
      "contiguous_file P (capacity (fs_dev s)) (fs_details s) first n f1" and
      d1: "ready (c1, d1)" "(capacity d1 = capacity (fs_dev s) \<and> held_in (fs_details s) first n (data_blocks s) c1)" by metis
    let ?s = "s\<lparr>data_blocks := c1, fs_dev := d1\<rparr>" and ?tail = "drop m buf"
    have mL: "m \<le> ?L" "?L - m \<le> (?c + ?L) mod ?S" by (simp_all add: m_def)
    then have tl: "length ?tail < ?S" using mod_less_divisor [OF S, of "?c + ?L"] by simp
    show ?thesis
    proof (cases "?tail = []")
      case True
      then have "take m buf = buf" "m = ?L" using mL(1) by simp_all
      moreover have "andthen (write_partial_sector P buf) (write_body P buf) (g, s) = (Ok (), f1, ?s)"
        unfolding w True by (simp add: write_partial_sector_def andthen_def ret_def)
      ultimately show ?thesis
        using st1 f1 d1 by (intro exI [of _ f1] exI [of _ c1] exI [of _ d1]) simp
    next
      case False
      have rem1: "remaining_bytes_in_cluster f1 \<noteq> 0"
        using tail_place [OF tail _ m mL] False f1(1,4) by (auto simp: contiguous_file_def cursor_ok_def Let_def)
      have fit1: "unat (cursor f1) + length ?tail \<le> unat (data_length (details f1))" using f1(1,2) fit mL(1) by simp
      have h: "length ?tail = head_length P (unat (cursor f1)) (length ?tail)"
        using tl m(2) f1(1) by (simp add: head_length_def)
      from write_head_ok [of ?s first n f1 ?tail, OF _ rem1 False fit1 _ h] obtain f' c' d' where
        w2: "write_partial_sector P ?tail (f1, ?s) = (Ok (length ?tail), f', s\<lparr>data_blocks := c', fs_dev := d'\<rparr>)" and
        st2: "stored P (fs_details s) first n (view (c1, d1)) (?c + m) ?tail (view (c', d'))" and
        f': "unat (cursor f') = ?c + m + length ?tail" "details f' = details f1" "open_options f' = open_options f1"
        "contiguous_file P (capacity (fs_dev s)) (fs_details s) first n f'"
        "ready (c', d')" "capacity d' = capacity (fs_dev s)" "held_in (fs_details s) first n c1 c'"
        using f1(1,4) d1 by auto
      have "stored P (fs_details s) first n (data_view s) ?c (take m buf @ ?tail) (view (c', d'))"
        by (rule stored_append [OF st1]) (use st2 mL(1) in simp)
      moreover have "andthen (write_partial_sector P buf) (write_body P buf) (g, s) = (Ok (), f', s\<lparr>data_blocks := c', fs_dev := d'\<rparr>)"
        unfolding w andthen_Ok [where m = "write_partial_sector P ?tail", OF w2] by (simp add: ret_def)
      ultimately show ?thesis
        using f' f1(2,3) mL(1) held_in_trans [OF _ f'(7)] d1(2)
        by (intro exI [of _ f'] exI [of _ c'] exI [of _ d']) simp
    qed
  qed
qed

text \<open>The whole write, inside the clusters of the file.\<close>

lemma file_write_ok:
  assumes ok: "contiguous_file P (capacity (fs_dev s)) (fs_details s) first n f" and "is_mounted s"
    and "opt_write (open_options f)" and buf: "buf \<noteq> []" and rdy: "data_ready s"
    and vd: "valid_data_length (details f) \<le> data_length (details f)"
    and e: "unat (cursor f) + length buf \<le> cluster_capacity (fs_details s) f"
      "unat (cursor f) + length buf < 2 ^ usize_bits P"
    and tail: "tail_in_place P (fs_details s) (unat (cursor f)) (length buf)"
  shows "\<exists>f' c' d'. file_write P buf (f, s) = (Ok (), f', s\<lparr>data_blocks := c', fs_dev := d'\<rparr>) \<and>
    stored P (fs_details s) first n (data_view s) (unat (cursor f)) buf (view (c', d')) \<and>
    unat (cursor f') = unat (cursor f) + length buf \<and> open_options f' = open_options f \<and>
    unat (data_length (details f')) = max (unat (cursor f) + length buf) (unat (data_length (details f))) \<and>
    unat (valid_data_length (details f')) = max (unat (cursor f) + length buf) (unat (valid_data_length (details f))) \<and>
    contiguous_file P (capacity (fs_dev s)) (fs_details s) first n f' \<and>
    ready (c', d') \<and> (capacity d' = capacity (fs_dev s) \<and> held_in (fs_details s) first n (data_blocks s) c')"
proof -
  let ?c = "unat (cursor f)" and ?L = "length buf"
  obtain g where g: "file_write P buf (f, s) = andthen (write_partial_sector P buf) (write_body P buf) (g, s)"
    "contiguous_file P (capacity (fs_dev s)) (fs_details s) first n g" "remaining_bytes_in_cluster g \<noteq> 0"
    "cursor g = cursor f" "open_options g = open_options f"
    "unat (data_length (details g)) = max (?c + ?L) (unat (data_length (details f)))"
    "unat (valid_data_length (details g)) = max (?c + ?L) (unat (valid_data_length (details f)))"
    using write_prepare [OF ok assms(2,3) buf vd e] by metis
  have "unat (cursor g) + ?L \<le> unat (data_length (details g))" "tail_in_place P (fs_details s) (unat (cursor g)) ?L"
    using g(4,6) tail by simp_all
  from write_run_ok [OF g(2,3) buf this(1) rdy this(2)] show ?thesis
    unfolding g(1) by (elim exE conjE, intro exI conjI) (assumption | simp add: g(4-7))+
qed

text \<open>
  Otherwise the tail goes to the sector at the start of the cluster just filled, over what was there, and its own
  place in the next cluster keeps its old content.
\<close>

lemma file_write_tail_misplaced:
  assumes ok: "contiguous_file P (capacity (fs_dev s)) (fs_details s) first n f" and "is_mounted s"
    and "opt_write (open_options f)" and buf: "buf \<noteq> []" and rdy: "data_ready s"
    and vd: "valid_data_length (details f) \<le> data_length (details f)"
    and e: "unat (cursor f) + length buf \<le> cluster_capacity (fs_details s) f"
      "unat (cursor f) + length buf < 2 ^ usize_bits P"
    and tail: "\<not> tail_in_place P (fs_details s) (unat (cursor f)) (length buf)"
    and start: "start = (unat (cursor f) + length buf) div SIZE P * SIZE P"
  shows "\<exists>f' c' d'. file_write P buf (f, s) = (Ok (), f', s\<lparr>data_blocks := c', fs_dev := d'\<rparr>) \<and>
    (\<forall>i. start \<le> i \<and> i < unat (cursor f) + length buf \<longrightarrow>
      raw_byte P (view (c', d')) (fs_details s) first i = raw_byte P (data_view s) (fs_details s) first i) \<and>
    (\<forall>j < unat (cursor f) + length buf - start.
      raw_byte P (view (c', d')) (fs_details s) first (start - unat (fsd_cluster_length (fs_details s)) + j) =
        buf ! (start - unat (cursor f) + j))"
proof -
  let ?c = "unat (cursor f)" and ?L = "length buf" and ?S = "SIZE P" and ?fsd = "fs_details s"
  let ?cl = "unat (fsd_cluster_length ?fsd)"
  obtain g where g: "file_write P buf (f, s) = andthen (write_partial_sector P buf) (write_body P buf) (g, s)"
    "contiguous_file P (capacity (fs_dev s)) ?fsd first n g" "remaining_bytes_in_cluster g \<noteq> 0"
    "cursor g = cursor f" "open_options g = open_options f"
    "unat (data_length (details g)) = max (?c + ?L) (unat (data_length (details f)))"
    using write_prepare [OF ok assms(2,3) buf vd e] by metis
  have fit: "unat (cursor g) + ?L \<le> unat (data_length (details g))" using g(4,6) by simp
  have geo: "geometry_ok P ?fsd" and r: "run_ok (capacity (fs_dev s)) ?fsd first n"
    and dl: "unat (data_length (details g)) \<le> unat n * ?cl" using g(2) by (simp_all add: contiguous_file_def)
  have S: "0 < ?S" "0 < ?cl" "?S \<le> ?cl" using geo by (simp_all add: geometry_ok_def)
  have T: "start \<noteq> ?c + ?L" "start mod ?cl = 0" "?c < start" using tail start by (simp_all add: tail_in_place_def Let_def)
  have more: "head_length P (unat (cursor g)) ?L < ?L"
    using tail_after_head [of ?c ?L ?S P] T(1,3) buf S(1) unfolding start g(4) by simp
  define m where "m = ?L - (unat (cursor g) + ?L) mod ?S"
  from write_until_tail [OF g(2,3) buf fit rdy more m_def] obtain f1 c1 d1 where m: "0 < m" "(?c + m) mod ?S = 0" and
    w: "andthen (write_partial_sector P buf) (write_body P buf) (g, s) =
      andthen (write_partial_sector P (drop m buf)) (\<lambda>_. ret ()) (f1, s\<lparr>data_blocks := c1, fs_dev := d1\<rparr>)" and
    st1: "stored P ?fsd first n (data_view s) ?c (take m buf) (view (c1, d1))" and
    f1: "unat (cursor f1) = ?c + m" "contiguous_file P (capacity (fs_dev s)) ?fsd first n f1"
      "unat (cursor f1) mod ?cl = 0 \<longrightarrow> remaining_bytes_in_cluster f1 = 0" and
    d1: "ready (c1, d1)" "(capacity d1 = capacity (fs_dev s) \<and> held_in (fs_details s) first n (data_blocks s) c1)" unfolding g(4) by metis
  let ?s = "s\<lparr>data_blocks := c1, fs_dev := d1\<rparr>" and ?tail = "drop m buf" and ?p = "start - ?cl"
  have mL: "m \<le> ?L" "?L - m \<le> (?c + ?L) mod ?S" by (simp_all add: m_def g(4))
  have sm: "start = ?c + m" unfolding start by (rule tail_start [OF m(2) mL])
  have tl: "length ?tail < ?S" "?tail \<noteq> []" using mL(2) mod_less_divisor [OF S(1), of "?c + ?L"] sm T(1) mL(1) by auto
  obtain q where q: "start = ?cl * Suc q" using T(2,3) by (metis mod_0_imp_dvd dvdE not_less_zero mult_0_right not0_implies_Suc)
  have p: "?p = ?cl * q" using q by simp
  have "?c + m < unat n * ?cl" using sm T(1) mL(1) fit dl g(4) by simp
  then have pn: "?p < unat n * ?cl" using sm by simp
  have pm: "?p mod ?cl = unat (cursor f1) mod ?cl" unfolding f1(1) sm [symmetric] p T(2) by simp
  have "unat (current_cluster f1) + 1 = unat first + start div ?cl"
    using f1 T(2) sm by (simp add: contiguous_file_def cursor_ok_def Let_def)
  then have pc: "unat (current_cluster f1) = unat first + ?p div ?cl" unfolding p q using S(2) by simp
  have k: "length ?tail = min (length ?tail) (?S - unat (cursor f1) mod ?S)" using tl(1) m(2) f1(1) by simp
  have pre: "geometry_ok P (fs_details ?s)" "run_ok (capacity (fs_dev ?s)) (fs_details ?s) first n"
    "?p < unat n * unat (fsd_cluster_length (fs_details ?s))"
    "?p mod unat (fsd_cluster_length (fs_details ?s)) = unat (cursor f1) mod unat (fsd_cluster_length (fs_details ?s))"
    "unat (current_cluster f1) = unat first + ?p div unat (fsd_cluster_length (fs_details ?s))" "data_ready ?s"
    using geo r pn pm pc d1 by simp_all
  obtain t c' d' where "write_partial_sector P ?tail (f1, ?s) =
      (Ok (length ?tail), move_file_cursor (length ?tail) (f1\<lparr>touched := t\<rparr>), ?s\<lparr>data_blocks := c', fs_dev := d'\<rparr>)"
    and "stored P (fs_details ?s) first n (data_view ?s) ?p (take (length ?tail) ?tail) (view (c', d'))"
    using write_partial_ok [OF pre(1-5) tl(2) disjI2 [OF tl(1)] pre(6) k] by metis
  then have w2: "write_partial_sector P ?tail (f1, ?s) =
      (Ok (length ?tail), move_file_cursor (length ?tail) (f1\<lparr>touched := t\<rparr>), s\<lparr>data_blocks := c', fs_dev := d'\<rparr>)"
    and st2: "stored P ?fsd first n (view (c1, d1)) ?p ?tail (view (c', d'))"
    by simp_all
  have run: "file_write P buf (f, s) = (Ok (), move_file_cursor (length ?tail) (f1\<lparr>touched := t\<rparr>), s\<lparr>data_blocks := c', fs_dev := d'\<rparr>)"
    unfolding g(1) w andthen_Ok [where m = "write_partial_sector P ?tail", OF w2] by (simp add: ret_def)
  have len: "length ?tail = ?c + ?L - start" using sm by simp
  have room: "?p + length ?tail < start" using tl(1) S(3) q p by simp
  have cap: "?c + ?L \<le> unat n * ?cl" using fit dl g(4) by simp
  have old: "raw_byte P (view (c', d')) ?fsd first i = raw_byte P (data_view s) ?fsd first i"
    if "start \<le> i" "i < ?c + ?L" for i
    using that room cap st1 st2 sm mL(1) by (simp add: stored_def)
  have new: "raw_byte P (view (c', d')) ?fsd first (?p + j) = buf ! (start - ?c + j)" if "j < ?c + ?L - start" for j
  proof -
    have j: "j < length ?tail" using that len by simp
    moreover have "?p + j < unat n * ?cl" using j room cap sm mL(1) by linarith
    ultimately show ?thesis using stored_nth [OF st2] sm j by (simp only: nth_drop) simp
  qed
  show ?thesis
    using run old new by (intro exI [of _ "move_file_cursor (length ?tail) (f1\<lparr>touched := t\<rparr>)"] exI [of _ c'] exI [of _ d']) simp
qed

end

end
