(* ===== verification/File_Contract.thy ===== *)
theory File_Contract
  imports File_Write
begin

text \<open>
  What a user of an open file relies on: the file is a list of bytes with a position. The locale states the laws of
  reading, writing and seeking; the operations of \<open>file.rs\<close> on a file of consecutive clusters satisfy them.
\<close>

locale random_access_file =
  fixes rd :: "u8 list \<Rightarrow> ('st, nat option \<times> u8 list, 'x) op"
    and wr :: "u8 list \<Rightarrow> ('st, unit, 'x) op"
    and sk :: "u64 \<Rightarrow> ('st, unit, 'x) op"
    and content :: "'st \<Rightarrow> u8 list"
    and pos :: "'st \<Rightarrow> nat"
    and valid :: "'st \<Rightarrow> nat"
    and usable :: "'st \<Rightarrow> bool"
    and fits :: "'st \<Rightarrow> nat \<Rightarrow> bool"
  assumes valid_le: "usable st \<Longrightarrow> valid st \<le> length (content st)"
    and rd_ok: "usable st \<Longrightarrow> pos st < length (content st) \<Longrightarrow> buf \<noteq> [] \<Longrightarrow> length buf < 2 ^ 64 \<Longrightarrow>
      k = min (length buf) (length (content st) - pos st) \<Longrightarrow>
      \<exists>st'. rd buf st = (Ok (Some k, take k (drop (pos st) (content st)) @ drop k buf), st') \<and> usable st' \<and>
        content st' = content st \<and> valid st' = valid st \<and> pos st' = pos st + k"
    and wr_ok: "usable st \<Longrightarrow> pos st \<le> valid st \<Longrightarrow> buf \<noteq> [] \<Longrightarrow> fits st (length buf) \<Longrightarrow>
      \<exists>st'. wr buf st = (Ok (), st') \<and> usable st' \<and>
        content st' = take (pos st) (content st) @ buf @ drop (pos st + length buf) (content st) \<and>
        valid st' = max (pos st + length buf) (valid st) \<and> pos st' = pos st + length buf"
    and sk_ok: "usable st \<Longrightarrow> unat p \<le> valid st \<Longrightarrow>
      \<exists>st'. sk p st = (Ok (), st') \<and> usable st' \<and> content st' = content st \<and> valid st' = valid st \<and> pos st' = unat p"
begin

text \<open>Seeking, then reading.\<close>

lemma seek_read:
  assumes "usable st" and "unat p \<le> valid st" and "unat p + length buf \<le> length (content st)"
    and "buf \<noteq> []" and "length buf < 2 ^ 64"
  shows "\<exists>st'. andthen (sk p) (\<lambda>_. rd buf) st =
      (Ok (Some (length buf), take (length buf) (drop (unat p) (content st))), st') \<and>
    usable st' \<and> content st' = content st"
proof -
  obtain st1 where s: "sk p st = (Ok (), st1)" "usable st1" "content st1 = content st" "pos st1 = unat p"
    using sk_ok [OF assms(1,2)] by blast
  have "0 < length buf" using assms(4) by simp
  then have lt: "pos st1 < length (content st1)" unfolding s(3,4) using assms(3) by linarith
  have k: "length buf = min (length buf) (length (content st1) - pos st1)" using assms(3) s by simp
  from rd_ok [OF s(2) lt assms(4,5) k] obtain st2 where
    "rd buf st1 = (Ok (Some (length buf), take (length buf) (drop (pos st1) (content st1)) @ drop (length buf) buf), st2)"
    "usable st2" "content st2 = content st1" by blast
  then show ?thesis using s by (simp add: andthen_def)
qed

text \<open>What is written is read back.\<close>

lemma write_seek_read:
  assumes "usable st" and "pos st \<le> valid st" and "buf \<noteq> []" and "fits st (length buf)" and "length buf < 2 ^ 64"
    and "unat p = pos st" and "length out = length buf"
  shows "\<exists>st'. andthen (wr buf) (\<lambda>_. andthen (sk p) (\<lambda>_. rd out)) st = (Ok (Some (length buf), buf), st')"
proof -
  obtain st1 where w: "wr buf st = (Ok (), st1)" "usable st1"
    "content st1 = take (pos st) (content st) @ buf @ drop (pos st + length buf) (content st)"
    "valid st1 = max (pos st + length buf) (valid st)" using wr_ok [OF assms(1-4)] by blast
  have at: "pos st \<le> length (content st)" using assms(2) valid_le [OF assms(1)] by simp
  have "unat p \<le> valid st1" "unat p + length out \<le> length (content st1)" "out \<noteq> []" "length out < 2 ^ 64"
    using w(3,4) assms(3,5,6,7) at by auto
  from seek_read [OF w(2) this] obtain st2 where
    "andthen (sk p) (\<lambda>_. rd out) st1 = (Ok (Some (length out), take (length out) (drop (unat p) (content st1))), st2)"
    by blast
  moreover have "take (length out) (drop (unat p) (content st1)) = buf" using w(3) assms(6,7) at by simp
  ultimately show ?thesis using w(1) assms(7) by (simp add: andthen_def)
qed

end

section \<open>Files of consecutive clusters\<close>

definition file_content :: "('d, 'e) platform \<Rightarrow> ('d \<Rightarrow> u32 \<Rightarrow> block) \<Rightarrow> u32 \<Rightarrow> open_file \<times> 'd file_system \<Rightarrow> u8 list" where
  "file_content P sector first = (\<lambda>(f, s).
     map (file_byte P (cview sector (data_blocks s, fs_dev s)) (fs_details s) first (valid_data_length (details f)))
       [0..<unat (data_length (details f))])"

definition file_position :: "open_file \<times> 'd file_system \<Rightarrow> nat" where
  "file_position = (\<lambda>(f, s). unat (cursor f))"

definition file_valid :: "open_file \<times> 'd file_system \<Rightarrow> nat" where
  "file_valid = (\<lambda>(f, s). unat (valid_data_length (details f)))"

definition file_usable :: "('d, 'e) platform \<Rightarrow> ('d \<Rightarrow> u32 \<Rightarrow> block) \<Rightarrow> ('d \<Rightarrow> nat) \<Rightarrow> ('d \<Rightarrow> bool) \<Rightarrow> u32 \<Rightarrow> u32 \<Rightarrow>
    open_file \<times> 'd file_system \<Rightarrow> bool" where
  "file_usable P sector capacity dev_ok first n = (\<lambda>(f, s).
     contiguous_file P (capacity (fs_dev s)) (fs_details s) first n f \<and> is_mounted s \<and>
     opt_read (open_options f) \<and> opt_write (open_options f) \<and>
     valid_data_length (details f) \<le> data_length (details f) \<and>
     cache_ready (SIZE P) sector capacity dev_ok (data_blocks s, fs_dev s))"

text \<open>A write that needs no new cluster and whose tail does not start one.\<close>

definition file_fits :: "('d, 'e) platform \<Rightarrow> open_file \<times> 'd file_system \<Rightarrow> nat \<Rightarrow> bool" where
  "file_fits P = (\<lambda>(f, s) len.
     unat (cursor f) + len \<le> cluster_capacity (fs_details s) f \<and> unat (cursor f) + len < 2 ^ usize_bits P \<and>
     tail_in_place P (fs_details s) (unat (cursor f)) len)"

lemma file_byte_raw:
  "file_byte P v fsd first valid i = (if i < unat valid then raw_byte P v fsd first i else 0)"
  by (simp add: file_byte_def raw_byte_def)

lemma take_drop_content:
  assumes "c + k \<le> unat dl"
  shows "take k (drop c (map B [0..<unat dl])) = map B [c..<c + k]"
  using assms by (simp add: take_map drop_map)

text \<open>Bytes stored in the run are spliced into the content.\<close>

lemma content_stored:
  assumes "stored P fsd first n v c bs v'" and "c \<le> unat valid" and "valid \<le> dl"
    and "unat valid' = max (c + length bs) (unat valid)" and "unat dl' = max (c + length bs) (unat dl)"
    and "unat dl' \<le> unat n * unat (fsd_cluster_length fsd)"
  shows "map (file_byte P v' fsd first valid') [0..<unat dl'] =
    take c (map (file_byte P v fsd first valid) [0..<unat dl]) @ bs @
      drop (c + length bs) (map (file_byte P v fsd first valid) [0..<unat dl])" (is "?l = ?r")
proof (rule nth_equalityI)
  have vd: "unat valid \<le> unat dl" using assms(3) by (simp add: word_le_nat_alt)
  show len: "length ?l = length ?r" using assms(2,5) vd by auto
  fix i assume "i < length ?l"
  then have i: "i < unat dl'" by simp
  have raw: "raw_byte P v' fsd first i = (if c \<le> i \<and> i < c + length bs then bs ! (i - c) else raw_byte P v fsd first i)"
    using assms(1,6) i by (simp add: stored_def)
  have l: "?l ! i = (if i < unat valid' then raw_byte P v' fsd first i else 0)" using i by (simp add: file_byte_raw)
  consider "i < c" | "c \<le> i" "i < c + length bs" | "c + length bs \<le> i" by linarith
  then show "?l ! i = ?r ! i"
  proof cases
    case 1
    then have "i < unat valid'" "i < unat valid" "i < unat dl" using assms(2,4) vd by simp_all
    then show ?thesis using 1 l raw by (simp add: nth_append file_byte_raw)
  next
    case 2
    then have "i < unat valid'" "c \<le> unat dl" "i - c < length bs" using assms(2,4) vd by simp_all
    then show ?thesis using 2 l raw by (simp add: nth_append)
  next
    case 3
    then have "i < unat dl" using i assms(5) by simp
    moreover have "?r ! i = file_byte P v fsd first valid i"
    proof -
      have "\<not> i - c < length bs" "c \<le> unat dl" using 3 assms(2) vd by simp_all
      then show ?thesis using 3 \<open>i < unat dl\<close> by (simp add: nth_append)
    qed
    moreover have "i < unat valid' \<longleftrightarrow> i < unat valid" using 3 assms(4) by linarith
    ultimately show ?thesis using 3 l raw by (simp add: file_byte_raw)
  qed
qed

lemmas file_contract_defs = file_content_def file_position_def file_valid_def file_usable_def file_fits_def

sublocale reliable_device \<subseteq> open_file: random_access_file "file_read P" "file_write P" "file_seek P"
  "file_content P sector first_cl" file_position file_valid "file_usable P sector capacity dev_ok first_cl n_cl" "file_fits P"
  for first_cl n_cl
proof (unfold_locales, goal_cases)
  case (1 st)
  then show ?case by (cases st) (simp add: file_contract_defs word_le_nat_alt)
next
  case (2 st buf k)
  obtain f s where st: "st = (f, s)" by (cases st)
  have u: "contiguous_file P (capacity (fs_dev s)) (fs_details s) first_cl n_cl f" "is_mounted s" "opt_read (open_options f)"
    "opt_write (open_options f)" "data_ready s" "valid_data_length (details f) \<le> data_length (details f)"
    "cursor f < data_length (details f)"
    "k = min (length buf) (unat (data_length (details f)) - unat (cursor f))"
    using 2 by (simp_all add: st file_contract_defs word_less_nat_alt)
  from file_read_ok [OF u(1-3,5,7) 2(3,4) u(8)] obtain f' c' d' where
    r: "file_read P buf (f, s) = (Ok (Some k, map (file_byte P (data_view s) (fs_details s) first_cl (valid_data_length (details f)))
             [unat (cursor f)..<unat (cursor f) + k] @ drop k buf), f', s\<lparr>data_blocks := c', fs_dev := d'\<rparr>)"
    "unat (cursor f') = unat (cursor f) + k" "details f' = details f" "open_options f' = open_options f"
    "contiguous_file P (capacity (fs_dev s)) (fs_details s) first_cl n_cl f'"
    "ready (c', d')" "view (c', d') = data_view s" "capacity d' = capacity (fs_dev s)" by blast
  have "unat (cursor f) + k \<le> unat (data_length (details f))" using u(7,8) by (simp add: word_less_nat_alt)
  note bytes = take_drop_content [OF this]
  show ?case
    using r u(1-7) bytes [symmetric] by (intro exI [of _ "(f', s\<lparr>data_blocks := c', fs_dev := d'\<rparr>)"]) (simp add: st file_contract_defs)
next
  case (3 st buf)
  obtain f s where st: "st = (f, s)" by (cases st)
  have u: "contiguous_file P (capacity (fs_dev s)) (fs_details s) first_cl n_cl f" "is_mounted s" "opt_write (open_options f)"
    "data_ready s" "valid_data_length (details f) \<le> data_length (details f)"
    "unat (cursor f) + length buf \<le> cluster_capacity (fs_details s) f" "unat (cursor f) + length buf < 2 ^ usize_bits P"
    "tail_in_place P (fs_details s) (unat (cursor f)) (length buf)" "opt_read (open_options f)"
    "unat (cursor f) \<le> unat (valid_data_length (details f))"
    using 3 by (simp_all add: st file_contract_defs)
  from file_write_ok [OF u(1-3) 3(3) u(4-8)] obtain f' c' d' where
    w: "file_write P buf (f, s) = (Ok (), f', s\<lparr>data_blocks := c', fs_dev := d'\<rparr>)"
    and st': "stored P (fs_details s) first_cl n_cl (data_view s) (unat (cursor f)) buf (view (c', d'))"
    and f': "unat (cursor f') = unat (cursor f) + length buf" "open_options f' = open_options f"
    and l: "unat (data_length (details f')) = max (unat (cursor f) + length buf) (unat (data_length (details f)))"
      "unat (valid_data_length (details f')) = max (unat (cursor f) + length buf) (unat (valid_data_length (details f)))"
    and c: "contiguous_file P (capacity (fs_dev s)) (fs_details s) first_cl n_cl f'" "ready (c', d')"
      "capacity d' = capacity (fs_dev s)" by blast
  have "unat (data_length (details f')) \<le> unat n_cl * unat (fsd_cluster_length (fs_details s))"
    using c(1) by (simp add: contiguous_file_def)
  note content = content_stored [OF st' u(10,5) l(2,1) this]
  have "valid_data_length (details f') \<le> data_length (details f')" using l u(5) by (auto simp: word_le_nat_alt)
  then show ?case
    using w f' l c u content
    by (intro exI [of _ "(f', s\<lparr>data_blocks := c', fs_dev := d'\<rparr>)"]) (simp add: st file_contract_defs)
next
  case (4 st p)
  obtain f s where st: "st = (f, s)" by (cases st)
  have u: "contiguous_file P (capacity (fs_dev s)) (fs_details s) first_cl n_cl f" "is_mounted s"
    "valid_data_length (details f) \<le> data_length (details f)" "p \<le> valid_data_length (details f)"
    "opt_read (open_options f)" "opt_write (open_options f)" "data_ready s"
    using 4 by (simp_all add: st file_contract_defs word_le_nat_alt)
  from file_seek_ok [OF u(1) refl u(2-4)] obtain f' where
    "file_seek P p (f, s) = (Ok (), f', s)" "cursor f' = p" "details f' = details f" "open_options f' = open_options f"
    "contiguous_file P (capacity (fs_dev s)) (fs_details s) first_cl n_cl f'" by blast
  then show ?case using u by (intro exI [of _ "(f', s)"]) (simp add: st file_contract_defs)
qed

context reliable_device
begin

lemma contiguous_file_contract:
  "random_access_file (file_read P) (file_write P) (file_seek P) (file_content P sector first_cl) file_position file_valid
    (file_usable P sector capacity dev_ok first_cl n_cl) (file_fits P)"
  by (rule open_file.random_access_file_axioms)

end

end
