(* ===== verification/File_Grow.thy ===== *)
theory File_Grow
  imports File_Contract Allocation_Search
begin

text \<open>
  Writes that need new clusters (\<open>allocate_clusters_for\<close> and \<open>update_chain\<close> of \<open>file.rs\<close>), for an empty file and for a
  file of consecutive clusters that can grow in place. Two caches are at work on one device here: that of the bitmap and
  that of the data. The bitmap lies in front of the clusters files are made of, so neither disturbs the other.
\<close>

section \<open>What the searches find\<close>

lemma longest_run_exact:
  assumes "search_ok sp r" and "sp_policy sp = LongestRun" and "0 < sp_num sp"
    and "free_run (sp_free sp) (sp_from sp) (sp_end sp) a (sp_num sp)"
  shows "run_len r = sp_num sp"
proof -
  have "run_len r = sp_num sp \<or> sp_num sp \<le> run_len r" and "run_len r \<le> sp_num sp"
    using assms by (auto simp: search_ok_def good_run_def)
  then show ?thesis by auto
qed

lemma first_run_exact:
  assumes ok: "search_ok sp r" and p: "sp_policy sp = FirstRun" and n: "0 < sp_num sp"
    and fr: "free_run (sp_free sp) (sp_from sp) (sp_end sp) (sp_from sp) (sp_num sp)"
  shows "run_lo r = sp_from sp" and "run_len r = sp_num sp"
proof -
  have good: "sp_from sp \<le> run_lo r" "run_lo r + run_len r \<le> sp_end sp" "run_len r \<le> sp_num sp"
    using ok n by (simp_all add: search_ok_def good_run_def free_run_def)
  have free: "sp_free sp c" if "sp_from sp \<le> c" "c < sp_from sp + sp_num sp" for c
    using fr that by (simp add: free_run_def)
  have "\<not> sp_from sp < run_lo r" using ok p free [of "sp_from sp"] n by (auto simp: search_ok_def)
  then show lo: "run_lo r = sp_from sp" using good(1) by simp
  show "run_len r = sp_num sp"
  proof (rule ccontr)
    assume ne: "run_len r \<noteq> sp_num sp"
    then have "run_lo r + run_len r < sp_from sp + sp_num sp" using good(3) lo by simp
    moreover have "sp_from sp + sp_num sp \<le> sp_end sp" using fr by (simp add: free_run_def)
    ultimately show False
      using ok p ne lo free [of "run_lo r + run_len r"] by (auto simp: search_ok_def)
  qed
qed

lemma ceil_pos: "0 < x \<Longrightarrow> 0 < cl \<Longrightarrow> 0 < (x + cl - 1) div (cl :: nat)"
  by (simp add: div_greater_zero_iff)

lemma ceil_covers: "0 < cl \<Longrightarrow> x \<le> (x + cl - 1) div cl * (cl :: nat)"
  using div_mult_mod_eq [of "x + cl - 1" cl] mod_less_divisor [of cl "x + cl - 1"] by linarith

section \<open>Two caches on one device\<close>

definition bitmap_limit :: "allocation_bitmap_slim \<Rightarrow> nat" where
  "bitmap_limit bm = unat (first_sector bm) + unat (num_sectors bm)"

definition held_below :: "nat \<Rightarrow> slot_cache \<Rightarrow> bool" where
  "held_below m c \<longleftrightarrow> (\<forall>t i. holds c t i \<longrightarrow> unat t < m)"

definition held_from :: "nat \<Rightarrow> slot_cache \<Rightarrow> bool" where
  "held_from m c \<longleftrightarrow> (\<forall>t i. holds c t i \<longrightarrow> m \<le> unat t)"

context reliable_device
begin

text \<open>The device cut off at a sector is reliable too: an operation that stays below touches nothing above.\<close>

lemma low_device: "reliable_device P sector (\<lambda>d. min m (capacity d)) dev_ok"
proof (unfold_locales, goal_cases)
  case (1 d s)
  then show ?case by (rule sector_length)
next
  case (2 d s b r b' d')
  then show ?case using read_frame by simp
next
  case (3 d s b b' d')
  then show ?case by (rule read_data)
next
  case (4 d b s r d')
  then show ?case using write_frame [of d b s r d'] by simp
next
  case (5 d b s d')
  then show ?case by (rule write_data)
next
  case (6 d s b)
  then show ?case using read_total by simp
next
  case (7 d s b)
  then show ?case using write_total by simp
qed

lemma ready_low:
  "cache_ready (SIZE P) sector (\<lambda>d. min m (capacity d)) dev_ok (c, d) \<longleftrightarrow> ready (c, d) \<and> held_below m c"
  by (auto simp: cache_ready_def slots_within_def held_below_def)

lemma allocate_below:
  assumes rdy: "ready (alloc_cache a, d)" and held: "held_below (bitmap_limit (bitmap a)) (alloc_cache a)"
    and bm: "bitmap_ok P (capacity d) (bitmap a)" and sz: "4 dvd SIZE P" and start: "2 \<le> unat (alloc_start chn a)"
    and free: "unat (alloc_start chn a) \<le> c0" "c0 < bitmap_end (bitmap a)" "\<not> allocated a d c0"
  obtains r a' t' d' where "allocate P chn n (a, t, d) = (Ok r, a', t', d')"
    and "ready (alloc_cache a', d')" and "held_below (bitmap_limit (bitmap a)) (alloc_cache a')"
    and "capacity d' = capacity d" and "bitmap a' = bitmap a" and "2 \<le> run_lo r"
    and "next_search_cluster a' = run_first_cluster r + run_cluster_count r"
    and "run_lo r + run_len r \<le> bitmap_end (bitmap a)"
    and "\<And>c. run_lo r \<le> c \<Longrightarrow> c < run_lo r + run_len r \<Longrightarrow> \<not> allocated a d c"
    and "\<And>c. 2 \<le> c \<Longrightarrow> c < bitmap_end (bitmap a) \<Longrightarrow> allocated a' d' c =
        (run_lo r \<le> c \<and> c < run_lo r + run_len r \<or> allocated a d c)"
    and "search_ok (search_of a d (unat (alloc_start chn a)) n (alloc_policy chn)) r"
    and "\<And>u. bitmap_limit (bitmap a) \<le> unat u \<Longrightarrow> sector d' u = sector d u" and "dev_ok d'"
proof -
  let ?m = "bitmap_limit (bitmap a)"
  have low: "cache_ready (SIZE P) sector (\<lambda>d. min ?m (capacity d)) dev_ok (alloc_cache a, d)"
    using rdy held by (simp add: ready_low)
  have bm': "bitmap_ok P (min ?m (capacity d)) (bitmap a)" using bm by (simp add: bitmap_ok_def bitmap_limit_def)
  show thesis
  proof (rule reliable_device.allocate_total [OF low_device low bm' sz start, of n t], goal_cases)
    case found: (1 r a' t' d')
    have cap: "ready (alloc_cache a', d') \<and> capacity d' = capacity d"
      by (rule allocate_total [OF rdy bm sz start, of n t]) (use found(1) in simp_all)
    have held': "held_below ?m (alloc_cache a')" using found(2) by (simp add: ready_low)
    have same: "sector d' u = sector d u" if u: "?m \<le> unat u" for u
    proof -
      have "\<not> (\<exists>i. holds (alloc_cache a) u i)" "\<not> (\<exists>i. holds (alloc_cache a') u i)"
        using held held' u by (auto simp: held_below_def not_less [symmetric])
      moreover have "view (alloc_cache a', d') u = view (alloc_cache a, d) u"
        using found(12) [of u] u by (simp add: in_bitmap_def bitmap_limit_def)
      ultimately show ?thesis by (simp add: view_not_held)
    qed
    have "search_ok (search_of a d (unat (alloc_start chn a)) n (alloc_policy chn)) r"
      using found(15) free by blast
    moreover have "inv (alloc_cache a', d')" using cap by (simp add: cache_ready_def)
    then have "dev_ok d'" by (rule cache_invD(1))
    ultimately show thesis using that [OF found(1)] cap held' same found by blast
  next
    case full: (2 a' d')
    then show thesis using free start by (metis order_trans)
  qed
qed

end

section \<open>Growing in one run\<close>

text \<open>The file after a run that makes it or continues it.\<close>

definition grown :: "file_dirty \<Rightarrow> allocated_run \<Rightarrow> u32 \<Rightarrow> open_file \<Rightarrow> open_file" where
  "grown t r cl f = (case chain f of
     StoredContiguous first n \<Rightarrow> f\<lparr>touched := t, chain := StoredContiguous first (n + run_cluster_count r)\<rparr>
   | _ \<Rightarrow> f\<lparr>touched := t, chain := StoredContiguous (run_first_cluster r) (run_cluster_count r),
       current_cluster := run_first_cluster r, remaining_bytes_in_cluster := cl\<rparr>)"

definition continues :: "allocated_run \<Rightarrow> stored_chain \<Rightarrow> bool" where
  "continues r chn = (case chn of
     StoredEmpty \<Rightarrow> True
   | StoredContiguous first n \<Rightarrow> first + n = run_first_cluster r
   | StoredFat _ _ _ \<Rightarrow> False)"

lemma update_chain_one_run:
  assumes "contains (flags (details f)) NoFatChain" and "continues r (chain f)"
  shows "update_chain P r (f\<lparr>touched := t\<rparr>, s) = (Ok (), grown t r (fsd_cluster_length (fs_details s)) f, s)"
  using assms
  by (cases "chain f")
    (simp_all add: update_chain_def the_file_def andthen_def gets_def should_convert_to_fat_chain_def ret_def Let_def
      cluster_length_def upd_file_def modify_def grown_def continues_def)

lemma allocate_clusters_one_run:
  assumes k: "k = (num + unat (fsd_cluster_length (fs_details s)) - 1) div unat (fsd_cluster_length (fs_details s))"
    and cl: "fsd_cluster_length (fs_details s) \<noteq> 0"
    and al: "allocate P (chain f) (of_nat k) (fs_allocator s, touched f, fs_dev s) = (Ok r, a', t', d')"
    and "run_cluster_count r = of_nat k"
    and "contains (flags (details f)) NoFatChain" and "continues r (chain f)"
  shows "allocate_clusters_for P num (f, s) =
    (Ok (), grown t' r (fsd_cluster_length (fs_details s)) f, s\<lparr>fs_allocator := a', fs_dev := d'\<rparr>)"
proof -
  have "in_fst (on_alloc_t (allocate P (chain f) (of_nat k))) (f, s) =
      (Ok r, f\<lparr>touched := t'\<rparr>, s\<lparr>fs_allocator := a', fs_dev := d'\<rparr>)"
    using al by (simp add: in_fst_def on_alloc_t_def zoom_def)
  note a = andthen_Ok [where m = "in_fst (on_alloc_t (allocate P (chain f) (of_nat k)))", OF this]
  have "update_chain P r (f\<lparr>touched := t'\<rparr>, s\<lparr>fs_allocator := a', fs_dev := d'\<rparr>) =
      (Ok (), grown t' r (fsd_cluster_length (fs_details s)) f, s\<lparr>fs_allocator := a', fs_dev := d'\<rparr>)"
    using update_chain_one_run [OF assms(5,6), where s = "s\<lparr>fs_allocator := a', fs_dev := d'\<rparr>"] by simp
  note u = andthen_Ok [where m = "update_chain P r", OF this]
  have "allocate_clusters_for P num (f, s) = allocate_loop P (Suc k) (of_nat k) (f, s)"
    unfolding allocate_clusters_for_def cluster_length_def andthen_gets prod.case Let_def k
    using cl by (simp add: andthen_assert)
  also have "\<dots> = (Ok (), grown t' r (fsd_cluster_length (fs_details s)) f, s\<lparr>fs_allocator := a', fs_dev := d'\<rparr>)"
    unfolding allocate_loop.simps the_file_def andthen_gets fst_conv a u using assms(4) by (simp add: ret_def)
  finally show ?thesis .
qed

text \<open>A grown file is a file of consecutive clusters again.\<close>

lemma grown_contiguous:
  assumes f: "chain f = StoredEmpty \<and> cursor f = 0 \<and> data_length (details f) = 0 \<and> valid_data_length (details f) = 0 \<and>
      first = run_first_cluster r \<and> n = 0 \<or> contiguous_file P cap fsd first n f"
    and "continues r (chain f)" and g: "geometry_ok P fsd" and "2 \<le> run_lo r"
    and e: "run_lo r + run_len r \<le> hi" "hi < 2 ^ 32" "cluster_start fsd hi \<le> cap" "cluster_start fsd hi < 2 ^ 32"
  shows "contiguous_file P cap fsd first (n + run_cluster_count r) (grown t r (fsd_cluster_length fsd) f)"
    and "unat (n + run_cluster_count r) = unat n + run_len r"
proof -
  let ?n = "n + run_cluster_count r"
  have cl: "0 < unat (fsd_cluster_length fsd)" using g by (simp add: geometry_ok_def)
  have lo: "unat first + unat n = run_lo r"
  proof (cases "chain f")
    case (StoredContiguous x y)
    then have c: "contiguous_file P cap fsd first n f" using f by simp
    then have x: "first + n = run_first_cluster r" "unat first + unat n < 2 ^ 32"
      using assms(2) by (simp_all add: contiguous_file_def run_ok_def continues_def)
    from x(2) have "unat (first + n) = unat first + unat n" by (simp add: unat_word_ariths)
    then show ?thesis unfolding x(1) by simp
  qed (use f assms(2) in \<open>auto simp: contiguous_file_def continues_def\<close>)
  then have sum': "unat first + unat n + run_len r < 2 ^ 32" using e by simp
  then show n: "unat ?n = unat n + run_len r" by (simp add: unat_word_ariths)
  have "cluster_start fsd (run_lo r + run_len r) \<le> cluster_start fsd hi"
    using e(1) unfolding cluster_start_def by (intro add_left_mono mult_le_mono1) simp
  moreover have "2 \<le> unat first" using f assms(4) by (auto simp: contiguous_file_def run_ok_def)
  ultimately have run: "run_ok cap fsd first ?n"
    using lo sum' e n by (simp add: run_ok_def add.assoc [symmetric])
  show "contiguous_file P cap fsd first ?n (grown t r (fsd_cluster_length fsd) f)"
  proof (cases "chain f")
    case (StoredContiguous x y)
    then have c: "contiguous_file P cap fsd first n f" using f by simp
    then have "unat (data_length (details f)) \<le> unat ?n * unat (fsd_cluster_length fsd)"
      using n by (simp add: contiguous_file_def add_mult_distrib)
    moreover have "cursor_ok fsd first (grown t r (fsd_cluster_length fsd) f)"
      using c StoredContiguous cursor_ok_same [of "grown t r (fsd_cluster_length fsd) f" f fsd first]
      by (simp add: contiguous_file_def grown_def)
    ultimately show ?thesis using c run StoredContiguous by (simp add: contiguous_file_def grown_def)
  next
    case StoredEmpty
    then have "cursor f = 0" "data_length (details f) = 0" "valid_data_length (details f) = 0" "first = run_first_cluster r"
      "n = 0" using f by (auto simp: contiguous_file_def)
    then show ?thesis
      using run g cl StoredEmpty by (simp add: contiguous_file_def grown_def cursor_ok_def unat_gt_0)
  qed (use assms(2) in \<open>simp add: continues_def\<close>)
qed

section \<open>A volume with its bitmap in front\<close>

definition cluster_free :: "('d, 'e) platform \<Rightarrow> ('d \<Rightarrow> u32 \<Rightarrow> block) \<Rightarrow> 'd file_system \<Rightarrow> nat \<Rightarrow> bool" where
  "cluster_free P sector s c \<longleftrightarrow> \<not> cluster_allocated P (first_sector (bitmap (fs_allocator s)))
     (cview sector (alloc_cache (fs_allocator s), fs_dev s)) c"

text \<open>
  The bitmap and the data have sound caches, the bitmap covers the cluster heap, which lies on the device, and the
  clusters that reach into the bitmap or lie before it are in use.
\<close>

definition volume_ready :: "('d, 'e) platform \<Rightarrow> ('d \<Rightarrow> u32 \<Rightarrow> block) \<Rightarrow> ('d \<Rightarrow> nat) \<Rightarrow> ('d \<Rightarrow> bool) \<Rightarrow> 'd file_system \<Rightarrow> bool" where
  "volume_ready P sector capacity dev_ok s \<longleftrightarrow>
     (let a = fs_allocator s; bm = bitmap a; m = bitmap_limit bm; fsd = fs_details s; d = fs_dev s in
      is_mounted s \<and> 4 dvd SIZE P \<and> geometry_ok P fsd \<and> bitmap_ok P (capacity d) bm \<and>
      2 \<le> unat (next_search_cluster a) \<and>
      cache_ready (SIZE P) sector capacity dev_ok (alloc_cache a, d) \<and> held_below m (alloc_cache a) \<and>
      cache_ready (SIZE P) sector capacity dev_ok (data_blocks s, d) \<and> held_from m (data_blocks s) \<and>
      cluster_start fsd (bitmap_end bm) \<le> capacity d \<and> cluster_start fsd (bitmap_end bm) < 2 ^ 32 \<and>
      (\<forall>c. 2 \<le> c \<longrightarrow> c < bitmap_end bm \<longrightarrow> cluster_start fsd c < m \<longrightarrow> \<not> cluster_free P sector s c))"

text \<open>An empty file, or a file of consecutive clusters behind the bitmap.\<close>

definition growable :: "('d, 'e) platform \<Rightarrow> ('d \<Rightarrow> nat) \<Rightarrow> 'd file_system \<Rightarrow> u32 \<Rightarrow> u32 \<Rightarrow> open_file \<Rightarrow> bool" where
  "growable P capacity s first n f \<longleftrightarrow> contains (flags (details f)) NoFatChain \<and>
     cluster_capacity (fs_details s) f = unat n * unat (fsd_cluster_length (fs_details s)) \<and>
     (chain f = StoredEmpty \<and> cursor f = 0 \<and> data_length (details f) = 0 \<and> valid_data_length (details f) = 0 \<and> n = 0 \<or>
      contiguous_file P (capacity (fs_dev s)) (fs_details s) first n f \<and>
      bitmap_limit (bitmap (fs_allocator s)) \<le> cluster_start (fs_details s) (unat first))"

text \<open>Enough free clusters in a row, for a file with clusters right behind them.\<close>

definition room_for :: "('d, 'e) platform \<Rightarrow> ('d \<Rightarrow> u32 \<Rightarrow> block) \<Rightarrow> 'd file_system \<Rightarrow> open_file \<Rightarrow> nat \<Rightarrow> bool" where
  "room_for P sector s f k \<longleftrightarrow> (case chain f of
     StoredEmpty \<Rightarrow> \<exists>x. free_run (cluster_free P sector s) (unat (next_search_cluster (fs_allocator s)))
       (bitmap_end (bitmap (fs_allocator s))) x k
   | StoredContiguous first n \<Rightarrow> free_run (cluster_free P sector s) (unat first + unat n)
       (bitmap_end (bitmap (fs_allocator s))) (unat first + unat n) k
   | StoredFat _ _ _ \<Rightarrow> False)"

lemma allocated_cong:
  assumes "bitmap_ok P cap bm" and "2 \<le> c" and "c < bitmap_end bm"
    and "\<And>u. unat u < bitmap_limit bm \<Longrightarrow> v' u = v u"
  shows "cluster_allocated P (first_sector bm) v' c = cluster_allocated P (first_sector bm) v c"
proof -
  have "bitmap_end bm \<le> unat (num_sectors bm) * cps P + 2" using assms(1) by (simp add: bitmap_ok_def bitmap_end_def)
  then have "(c - 2) div cps P < unat (num_sectors bm)" using bitmap_sector_less [OF assms(1,2)] assms(3) by simp
  then show ?thesis
    using bitmap_sector_addr(1) [OF assms(1)] assms(4) by (simp add: cluster_allocated_def bitmap_limit_def)
qed

context reliable_device
begin

lemma volume_readyD:
  assumes "volume_ready P sector capacity dev_ok s"
  shows "is_mounted s" and "4 dvd SIZE P" and "geometry_ok P (fs_details s)"
    and "bitmap_ok P (capacity (fs_dev s)) (bitmap (fs_allocator s))"
    and "2 \<le> unat (next_search_cluster (fs_allocator s))"
    and "ready (alloc_cache (fs_allocator s), fs_dev s)"
    and "held_below (bitmap_limit (bitmap (fs_allocator s))) (alloc_cache (fs_allocator s))"
    and "data_ready s" and "held_from (bitmap_limit (bitmap (fs_allocator s))) (data_blocks s)"
    and "cluster_start (fs_details s) (bitmap_end (bitmap (fs_allocator s))) \<le> capacity (fs_dev s)"
    and "cluster_start (fs_details s) (bitmap_end (bitmap (fs_allocator s))) < 2 ^ 32"
    and "2 \<le> c \<Longrightarrow> c < bitmap_end (bitmap (fs_allocator s)) \<Longrightarrow> cluster_free P sector s c \<Longrightarrow>
      bitmap_limit (bitmap (fs_allocator s)) \<le> cluster_start (fs_details s) c"
  using assms by (auto simp: volume_ready_def Let_def not_less [symmetric])

lemma bitmap_end_small: "bitmap_ok P cap bm \<Longrightarrow> bitmap_end bm < 2 ^ 32"
  by (auto simp: bitmap_ok_def bitmap_end_def)

text \<open>The allocation finds exactly the clusters that are missing.\<close>

lemma grow_run:
  assumes V: "volume_ready P sector capacity dev_ok s" and F: "growable P capacity s first n f"
    and room: "room_for P sector s f k" and k: "0 < k"
  obtains r a' t' d' where "allocate P (chain f) (of_nat k) (fs_allocator s, touched f, fs_dev s) = (Ok r, a', t', d')"
    and "run_cluster_count r = of_nat k" and "run_len r = k" and "continues r (chain f)"
    and "ready (alloc_cache a', d')" and "held_below (bitmap_limit (bitmap a')) (alloc_cache a')"
    and "capacity d' = capacity (fs_dev s)" and "bitmap a' = bitmap (fs_allocator s)" and "2 \<le> run_lo r"
    and "unat (next_search_cluster a') = run_lo r + k"
    and "run_lo r + k \<le> bitmap_end (bitmap (fs_allocator s))"
    and "\<And>c. run_lo r \<le> c \<Longrightarrow> c < run_lo r + k \<Longrightarrow> cluster_free P sector s c"
    and "\<And>c. 2 \<le> c \<Longrightarrow> c < bitmap_end (bitmap (fs_allocator s)) \<Longrightarrow> allocated a' d' c =
        (run_lo r \<le> c \<and> c < run_lo r + k \<or> \<not> cluster_free P sector s c)"
    and "\<And>u. bitmap_limit (bitmap (fs_allocator s)) \<le> unat u \<Longrightarrow> sector d' u = sector (fs_dev s) u" and "dev_ok d'"
proof -
  let ?a = "fs_allocator s" and ?d = "fs_dev s" and ?last = "bitmap_end (bitmap (fs_allocator s))"
  note V' = volume_readyD [OF V]
  let ?start = "unat (alloc_start (chain f) ?a)"
  obtain x where x: "free_run (cluster_free P sector s) ?start ?last x k" "2 \<le> ?start"
    "chain f \<noteq> StoredEmpty \<longrightarrow> x = ?start \<and> alloc_policy (chain f) = FirstRun" "chain f = StoredEmpty \<longrightarrow> alloc_policy (chain f) = LongestRun"
  proof (cases "chain f")
    case StoredEmpty
    then show thesis using that room V'(5) by (auto simp: room_for_def alloc_start_def alloc_policy_def)
  next
    case (StoredContiguous b c)
    then have r: "b = first" "c = n" "run_ok (capacity ?d) (fs_details s) first n"
      using F by (auto simp: growable_def contiguous_file_def)
    then have sum': "unat (first + n) = unat first + unat n" "2 \<le> unat first + unat n"
      by (simp_all add: run_ok_def unat_word_ariths)
    have st: "?start = unat first + unat n" unfolding StoredContiguous r(1,2) using sum'(1) by (simp add: alloc_start_def)
    have "free_run (cluster_free P sector s) ?start ?last ?start k"
      using room unfolding st by (simp add: room_for_def StoredContiguous r(1,2))
    moreover have "2 \<le> ?start" unfolding st by (rule sum'(2))
    ultimately show thesis by (rule that) (simp_all add: StoredContiguous alloc_policy_def)
  qed (use room in \<open>simp add: room_for_def\<close>)
  have k32: "k < 2 ^ 32" using x(1) bitmap_end_small [OF V'(4)] by (simp add: free_run_def)
  then have k': "unat (of_nat k :: u32) = k" by (simp add: unat_of_nat)
  have fr: "?start \<le> x" "x < ?last" "\<not> allocated ?a ?d x"
    using x(1) k by (auto simp: free_run_def cluster_free_def)
  obtain r a' t' d' where al: "allocate P (chain f) (of_nat k) (?a, touched f, ?d) = (Ok r, a', t', d')"
    and ok: "ready (alloc_cache a', d')" "held_below (bitmap_limit (bitmap ?a)) (alloc_cache a')"
      "capacity d' = capacity ?d" "bitmap a' = bitmap ?a" "2 \<le> run_lo r"
      "next_search_cluster a' = run_first_cluster r + run_cluster_count r" "run_lo r + run_len r \<le> ?last"
      "\<And>c. run_lo r \<le> c \<Longrightarrow> c < run_lo r + run_len r \<Longrightarrow> \<not> allocated ?a ?d c"
      "\<And>c. 2 \<le> c \<Longrightarrow> c < ?last \<Longrightarrow> allocated a' d' c = (run_lo r \<le> c \<and> c < run_lo r + run_len r \<or> allocated ?a ?d c)"
      "search_ok (search_of ?a ?d ?start (of_nat k) (alloc_policy (chain f))) r"
      "\<And>u. bitmap_limit (bitmap ?a) \<le> unat u \<Longrightarrow> sector d' u = sector ?d u" "dev_ok d'"
    by (rule allocate_below [OF V'(6,7,4,2) x(2) fr, of "of_nat k" "touched f"]) (rule that; assumption)
  let ?sp = "search_of ?a ?d ?start (of_nat k) (alloc_policy (chain f))"
  have sp: "free_run (sp_free ?sp) (sp_from ?sp) (sp_end ?sp) x (sp_num ?sp)" "0 < sp_num ?sp"
    using x(1) k k' by (simp_all add: free_run_def cluster_free_def)
  have "run_len r = k \<and> continues r (chain f)"
  proof (cases "chain f")
    case StoredEmpty
    then have "sp_policy ?sp = LongestRun" using x(4) by simp
    then show ?thesis using longest_run_exact [OF ok(10) _ sp(2,1)] StoredEmpty k' by (simp add: continues_def)
  next
    case (StoredContiguous b c)
    then have "sp_policy ?sp = FirstRun" "x = sp_from ?sp" using x(3) by simp_all
    then have "run_lo r = ?start" "run_len r = k"
      using first_run_exact [OF ok(10) _ sp(2)] sp(1) k' by simp_all
    then show ?thesis using StoredContiguous by (simp add: continues_def alloc_start_def word_unat_eq_iff)
  qed (use room in \<open>simp add: room_for_def\<close>)
  then have len: "run_len r = k" and con: "continues r (chain f)" by blast+
  have "run_cluster_count r = of_nat k" using len k' by (simp add: word_unat_eq_iff)
  moreover have "unat (next_search_cluster a') = run_lo r + k"
    unfolding ok(6) using ok(7) len bitmap_end_small [OF V'(4)] by (simp add: unat_word_ariths)
  ultimately show thesis
    using that [OF al _ len con] ok unfolding len by (simp add: cluster_free_def)
qed

text \<open>The allocation leaves the volume ready and the data as it was.\<close>

lemma volume_after_allocation:
  assumes V: "volume_ready P sector capacity dev_ok s"
    and a: "ready (alloc_cache a', d')" "held_below (bitmap_limit (bitmap a')) (alloc_cache a')"
      "capacity d' = capacity (fs_dev s)" "bitmap a' = bitmap (fs_allocator s)" "2 \<le> unat (next_search_cluster a')"
      "\<And>c. 2 \<le> c \<Longrightarrow> c < bitmap_end (bitmap (fs_allocator s)) \<Longrightarrow> allocated a' d' c =
        (lo \<le> c \<and> c < lo + k \<or> \<not> cluster_free P sector s c)"
      "\<And>u. bitmap_limit (bitmap (fs_allocator s)) \<le> unat u \<Longrightarrow> sector d' u = sector (fs_dev s) u" "dev_ok d'"
    and s': "s' = s\<lparr>fs_allocator := a', fs_dev := d'\<rparr>"
  shows "volume_ready P sector capacity dev_ok s'"
    and "\<And>u. bitmap_limit (bitmap (fs_allocator s)) \<le> unat u \<Longrightarrow> data_view s' u = data_view s u"
    and "\<And>c. 2 \<le> c \<Longrightarrow> c < bitmap_end (bitmap (fs_allocator s)) \<Longrightarrow>
      cluster_free P sector s' c = (cluster_free P sector s c \<and> \<not> (lo \<le> c \<and> c < lo + k))"
proof -
  let ?m = "bitmap_limit (bitmap (fs_allocator s))"
  note V' = volume_readyD [OF V]
  have held: "\<And>t i. holds (data_blocks s) t i \<Longrightarrow> ?m \<le> unat t" using V'(9) unfolding held_from_def by blast
  have data: "ready (data_blocks s, d')" "\<And>u. ?m \<le> unat u \<Longrightarrow> view (data_blocks s, d') u = data_view s u"
    by (rule cache_after [where R = "\<lambda>t. ?m \<le> unat t", OF V'(8) a(8,3)]; use held a(7) in blast)+
  show view: "data_view s' u = data_view s u" if "?m \<le> unat u" for u using data(2) [OF that] by (simp add: s')
  show bits: "cluster_free P sector s' c = (cluster_free P sector s c \<and> \<not> (lo \<le> c \<and> c < lo + k))"
    if "2 \<le> c" "c < bitmap_end (bitmap (fs_allocator s))" for c
    using a(6) [OF that] a(4) by (auto simp: s' cluster_free_def)
  show "volume_ready P sector capacity dev_ok s'"
    using V V' a(1-5) data(1) bits by (simp add: volume_ready_def Let_def s')
qed

text \<open>So does a write to clusters behind the bitmap.\<close>

lemma volume_after_write:
  assumes V: "volume_ready P sector capacity dev_ok s" and m: "bitmap_limit (bitmap (fs_allocator s)) \<le> cluster_start (fs_details s) (unat first)"
    and w: "ready (c', d')" "capacity d' = capacity (fs_dev s)" "held_in (fs_details s) first n (data_blocks s) c'"
      "\<And>sec. \<not> in_run (fs_details s) first n sec \<Longrightarrow> view (c', d') sec = data_view s sec"
    and s': "s' = s\<lparr>data_blocks := c', fs_dev := d'\<rparr>"
  shows "volume_ready P sector capacity dev_ok s'"
    and "\<And>c. 2 \<le> c \<Longrightarrow> c < bitmap_end (bitmap (fs_allocator s)) \<Longrightarrow> cluster_free P sector s' c = cluster_free P sector s c"
proof -
  let ?a = "fs_allocator s" and ?m = "bitmap_limit (bitmap (fs_allocator s))"
  note V' = volume_readyD [OF V]
  have held: "held_from ?m c'"
    using w(3) V'(9) m unfolding held_from_def held_in_def in_run_def by (meson order_trans)
  have same: "sector d' u = sector (fs_dev s) u" if u: "unat u < ?m" for u
  proof -
    have "\<not> (\<exists>i. holds (data_blocks s) u i)" "\<not> (\<exists>i. holds c' u i)"
      using held V'(9) u by (auto simp: held_from_def not_less [symmetric])
    moreover have "\<not> in_run (fs_details s) first n u" using u m by (simp add: in_run_def)
    ultimately show ?thesis using w(4) [of u] by (simp add: view_not_held)
  qed
  have "inv (c', d')" using w(1) by (simp add: cache_ready_def)
  then have dev: "dev_ok d'" by (rule cache_invD(1))
  have below: "\<And>t i. holds (alloc_cache ?a) t i \<Longrightarrow> unat t < ?m" using V'(7) unfolding held_below_def by blast
  have bm: "ready (alloc_cache ?a, d')" "\<And>u. unat u < ?m \<Longrightarrow> view (alloc_cache ?a, d') u = view (alloc_cache ?a, fs_dev s) u"
    by (rule cache_after [where R = "\<lambda>t. unat t < ?m", OF V'(6) dev w(2)]; use below same in blast)+
  show bits: "cluster_free P sector s' c = cluster_free P sector s c"
    if "2 \<le> c" "c < bitmap_end (bitmap ?a)" for c
    using allocated_cong [OF V'(4) that bm(2)] by (simp add: s' cluster_free_def)
  show "volume_ready P sector capacity dev_ok s'"
    using V V' w(1,2) held bm(1) bits by (simp add: volume_ready_def Let_def s')
qed

text \<open>The missing clusters are allocated in one run before anything is written.\<close>

lemma grow_prepare:
  assumes V: "volume_ready P sector capacity dev_ok s" and F: "growable P capacity s first n f"
    and opt: "opt_write (open_options f)" and buf: "buf \<noteq> []"
    and vd: "valid_data_length (details f) \<le> data_length (details f)" and cur: "cursor f \<le> valid_data_length (details f)"
    and e: "unat n * unat (fsd_cluster_length (fs_details s)) < unat (cursor f) + length buf"
      "unat (cursor f) + length buf < 2 ^ usize_bits P"
    and k: "k = (unat (cursor f) + length buf - unat n * unat (fsd_cluster_length (fs_details s)) +
      unat (fsd_cluster_length (fs_details s)) - 1) div unat (fsd_cluster_length (fs_details s))"
    and room: "room_for P sector s f k"
  obtains g s1 r first' where "file_write P buf (f, s) = andthen (write_partial_sector P buf) (write_body P buf) (g, s1)"
    and "continues r (chain f)" and "first' = (if n = 0 then run_first_cluster r else first)"
    and "volume_ready P sector capacity dev_ok s1" and "fs_details s1 = fs_details s"
    and "bitmap (fs_allocator s1) = bitmap (fs_allocator s)"
    and "contiguous_file P (capacity (fs_dev s1)) (fs_details s) first' (n + of_nat k) g"
    and "unat (n + of_nat k) = unat n + k" and "remaining_bytes_in_cluster g \<noteq> 0"
    and "cursor g = cursor f" and "open_options g = open_options f" and "flags (details g) = flags (details f)"
    and "unat (data_length (details g)) = unat (cursor f) + length buf"
    and "unat (valid_data_length (details g)) = unat (cursor f) + length buf"
    and "bitmap_limit (bitmap (fs_allocator s)) \<le> cluster_start (fs_details s) (unat first')"
    and "\<And>u. bitmap_limit (bitmap (fs_allocator s)) \<le> unat u \<Longrightarrow> data_view s1 u = data_view s u"
    and "\<And>x. run_lo r \<le> x \<Longrightarrow> x < run_lo r + k \<Longrightarrow> cluster_free P sector s x"
    and "\<And>x. 2 \<le> x \<Longrightarrow> x < bitmap_end (bitmap (fs_allocator s)) \<Longrightarrow>
      cluster_free P sector s1 x = (cluster_free P sector s x \<and> \<not> (run_lo r \<le> x \<and> x < run_lo r + k))"
proof -
  let ?fsd = "fs_details s" and ?cl = "unat (fsd_cluster_length (fs_details s))" and ?c = "unat (cursor f)" and ?L = "length buf"
  let ?m = "bitmap_limit (bitmap (fs_allocator s))" and ?last = "bitmap_end (bitmap (fs_allocator s))"
  note V' = volume_readyD [OF V]
  have cl: "0 < ?cl" "fsd_cluster_length ?fsd \<noteq> 0" using V'(3) by (auto simp: geometry_ok_def)
  have F': "contains (flags (details f)) NoFatChain" "cluster_capacity ?fsd f = unat n * ?cl"
    "unat (data_length (details f)) \<le> unat n * ?cl" using F by (auto simp: growable_def contiguous_file_def)
  have k0: "0 < k" "?c + ?L - unat n * ?cl \<le> k * ?cl"
    using ceil_pos [OF _ cl(1), of "?c + ?L - unat n * ?cl"] ceil_covers [OF cl(1), of "?c + ?L - unat n * ?cl"] e(1)
    unfolding k by (simp_all only: zero_less_diff)
  obtain r a' t' d' where al: "allocate P (chain f) (of_nat k) (fs_allocator s, touched f, fs_dev s) = (Ok r, a', t', d')"
    and r: "run_cluster_count r = of_nat k" "run_len r = k" "continues r (chain f)"
    and a: "ready (alloc_cache a', d')" "held_below (bitmap_limit (bitmap a')) (alloc_cache a')"
      "capacity d' = capacity (fs_dev s)" "bitmap a' = bitmap (fs_allocator s)" "2 \<le> run_lo r"
      "unat (next_search_cluster a') = run_lo r + k" "run_lo r + k \<le> ?last"
      "\<And>c. run_lo r \<le> c \<Longrightarrow> c < run_lo r + k \<Longrightarrow> cluster_free P sector s c"
      "\<And>c. 2 \<le> c \<Longrightarrow> c < ?last \<Longrightarrow> allocated a' d' c = (run_lo r \<le> c \<and> c < run_lo r + k \<or> \<not> cluster_free P sector s c)"
      "\<And>u. ?m \<le> unat u \<Longrightarrow> sector d' u = sector (fs_dev s) u" "dev_ok d'"
    by (rule grow_run [OF V F room k0(1)]) (rule that; assumption)
  let ?f = "grown t' r (fsd_cluster_length ?fsd) f" and ?n = "n + of_nat k"
  define s1 where "s1 = s\<lparr>fs_allocator := a', fs_dev := d'\<rparr>"
  define first' where "first' = (if n = 0 then run_first_cluster r else first)"
  have same: "first' = first" if "contiguous_file P (capacity (fs_dev s)) ?fsd first n f"
    using that r(3) by (auto simp: contiguous_file_def continues_def first'_def)
  then have pre: "chain f = StoredEmpty \<and> cursor f = 0 \<and> data_length (details f) = 0 \<and> valid_data_length (details f) = 0 \<and>
      first' = run_first_cluster r \<and> n = 0 \<or> contiguous_file P (capacity (fs_dev s)) ?fsd first' n f"
    using F by (auto simp: growable_def first'_def)
  have "run_lo r + run_len r \<le> ?last" using a(7) r(2) by simp
  note gf = grown_contiguous [OF pre r(3) V'(3) a(5) this bitmap_end_small [OF V'(4)] V'(10,11), unfolded r(1)]
  have n: "unat ?n = unat n + k" using gf(2) r(1,2) by simp
  have "2 \<le> unat (next_search_cluster a')" using a(5,6) by simp
  note vol = volume_after_allocation [OF V a(1-4) this a(9-11) s1_def]
  have m: "?m \<le> cluster_start ?fsd (unat first')"
  proof (cases "chain f = StoredEmpty")
    case True
    then have "unat first' = run_lo r" using pre by (auto simp: contiguous_file_def)
    then show ?thesis using V'(12) [OF a(5)] a(7) a(8) [of "run_lo r"] k0(1) by simp
  next
    case False
    then show ?thesis using F same by (auto simp: growable_def)
  qed
  have fit: "?c + ?L \<le> unat ?n * ?cl" using k0(2) by (simp add: n add_mult_distrib)
  have e64: "?c + ?L < 2 ^ 64" using fit run_bytes_less [of ?n ?fsd] by simp
  have f: "cursor ?f = cursor f" "details ?f = details f" "open_options ?f = open_options f"
    by (cases "chain f"; simp add: grown_def)+
  have s1: "fs_details s1 = ?fsd" "capacity (fs_dev s1) = capacity (fs_dev s)" using a(3) by (simp_all add: s1_def)
  have dl: "unat (data_length (details f)) < ?c + ?L" "unat (valid_data_length (details f)) < ?c + ?L"
    using F'(3) e(1) vd by (simp_all add: word_le_nat_alt)
  have pre2: "contiguous_file P (capacity (fs_dev s1)) (fs_details s1) first' ?n ?f" "0 < ?L"
    "valid_data_length (details ?f) \<le> data_length (details ?f)"
    "unat (cursor ?f) + ?L \<le> unat ?n * unat (fsd_cluster_length (fs_details s1))" "unat (cursor ?f) + ?L < 2 ^ usize_bits P"
    using gf(1) vd buf fit e(2) by (simp_all only: s1 f length_greater_0_conv not_False_eq_True)
  obtain g where g: "next_cluster_if_required P (update_data_length ?L ?f, s1) = (Ok (), g, s1)"
    "contiguous_file P (capacity (fs_dev s1)) (fs_details s1) first' ?n g" "remaining_bytes_in_cluster g \<noteq> 0"
    "cursor g = cursor ?f" "open_options g = open_options ?f"
    "unat (data_length (details g)) = max (unat (cursor ?f) + ?L) (unat (data_length (details ?f)))"
    "unat (valid_data_length (details g)) = max (unat (cursor ?f) + ?L) (unat (valid_data_length (details ?f)))"
    "flags (details g) = flags (details ?f)"
    by (rule write_settle [OF pre2]) (rule that; assumption)
  have u: "upd_file (update_data_length ?L) (?f, s1) = (Ok (), update_data_length ?L ?f, s1)"
    by (simp add: upd_file_def modify_def)
  have ac: "allocate_clusters_for P (?c + ?L - unat n * ?cl) (f, s) = (Ok (), ?f, s1)"
    unfolding s1_def by (rule allocate_clusters_one_run [OF k cl(2) al r(1) F'(1) r(3)])
  have "file_write P buf (f, s) = andthen (write_partial_sector P buf) (write_body P buf) (g, s1)"
    unfolding file_write_steps [OF V'(1) opt buf cl(1) F'(3) e64 e(2)] F'(2) if_P [OF e(1)]
      andthen_Ok [where m = "allocate_clusters_for P (?c + ?L - unat n * ?cl)", OF ac]
      andthen_Ok [where m = "upd_file (update_data_length ?L)", OF u]
      andthen_Ok [where m = "next_cluster_if_required P", OF g(1)] ..
  then show thesis
    using that [OF _ r(3) first'_def vol(1) s1(1) _ _ n g(3)] g(2,4-8) a(4,8) m vol(2,3) dl unfolding s1 f
    by (simp add: s1_def max_def)
qed

text \<open>The clusters of the grown file cover exactly its new length.\<close>

lemma grown_capacity:
  assumes "0 < cl" and "n * cl < e"
  shows "(e + cl - 1) div cl = n + (e - n * cl + cl - 1) div (cl :: nat)"
proof -
  have "e + cl - 1 = (e - n * cl + cl - 1) + n * cl" using assms by linarith
  moreover have "\<dots> div cl = n + (e - n * cl + cl - 1) div cl" using assms(1) by (intro div_mult_self1) simp
  ultimately show ?thesis by (simp only:)
qed

text \<open>The bytes the file had are where they were, for a view that is the same behind the bitmap.\<close>

lemma kept_bytes:
  assumes g: "geometry_ok P fsd" and r: "run_ok cap fsd first' n'" and i: "i < unat n * unat (fsd_cluster_length fsd)"
    and "unat n \<le> unat n'" and "n \<noteq> 0 \<Longrightarrow> first' = first" and "m \<le> cluster_start fsd (unat first')"
    and v: "\<And>u. m \<le> unat u \<Longrightarrow> v' u = v u"
  shows "file_byte P v' fsd first' valid i = file_byte P v fsd first valid i"
proof -
  have first: "first' = first" using i assms(5) by fastforce
  have "i < unat n' * unat (fsd_cluster_length fsd)" using i mult_le_mono1 [OF assms(4)] by (rule less_le_trans)
  from byte_in_run [OF g r this] have "m \<le> unat (byte_sector P fsd first i)"
    using assms(6) by (simp add: in_run_def first)
  from v [OF this] show ?thesis by (simp add: file_byte_def first)
qed

text \<open>
  A write behind the clusters of the file: the missing clusters are allocated in one run, the bytes are spliced into the
  content, the file can grow further, and the volume stays ready.
\<close>

lemma file_write_grow_ok:
  assumes V: "volume_ready P sector capacity dev_ok s" and F: "growable P capacity s first n f"
    and opt: "opt_write (open_options f)" and buf: "buf \<noteq> []"
    and vd: "valid_data_length (details f) \<le> data_length (details f)" and cur: "cursor f \<le> valid_data_length (details f)"
    and e: "unat n * unat (fsd_cluster_length (fs_details s)) < unat (cursor f) + length buf"
      "unat (cursor f) + length buf < 2 ^ usize_bits P"
    and k: "k = (unat (cursor f) + length buf - unat n * unat (fsd_cluster_length (fs_details s)) +
      unat (fsd_cluster_length (fs_details s)) - 1) div unat (fsd_cluster_length (fs_details s))"
    and room: "room_for P sector s f k"
    and tail: "tail_in_place P (fs_details s) (unat (cursor f)) (length buf)"
  obtains f' s' r first' where "file_write P buf (f, s) = (Ok (), f', s')"
    and "continues r (chain f)" and "first' = (if n = 0 then run_first_cluster r else first)"
    and "volume_ready P sector capacity dev_ok s'" and "growable P capacity s' first' (n + of_nat k) f'"
    and "chain f' = StoredContiguous first' (n + of_nat k)"
    and "file_content P sector first' (f', s') = take (unat (cursor f)) (file_content P sector first (f, s)) @ buf"
    and "unat (cursor f') = unat (cursor f) + length buf" and "open_options f' = open_options f"
    and "valid_data_length (details f') = data_length (details f')"
    and "bitmap (fs_allocator s') = bitmap (fs_allocator s)"
    and "\<And>x. run_lo r \<le> x \<Longrightarrow> x < run_lo r + k \<Longrightarrow> cluster_free P sector s x"
    and "\<And>x. 2 \<le> x \<Longrightarrow> x < bitmap_end (bitmap (fs_allocator s)) \<Longrightarrow>
      cluster_free P sector s' x = (cluster_free P sector s x \<and> \<not> (run_lo r \<le> x \<and> x < run_lo r + k))"
proof -
  let ?fsd = "fs_details s" and ?cl = "unat (fsd_cluster_length (fs_details s))" and ?c = "unat (cursor f)" and ?L = "length buf"
  let ?m = "bitmap_limit (bitmap (fs_allocator s))" and ?n = "n + of_nat k"
  obtain g s1 r first' where w: "file_write P buf (f, s) = andthen (write_partial_sector P buf) (write_body P buf) (g, s1)"
    and r: "continues r (chain f)" "first' = (if n = 0 then run_first_cluster r else first)"
    and s1: "volume_ready P sector capacity dev_ok s1" "fs_details s1 = ?fsd" "bitmap (fs_allocator s1) = bitmap (fs_allocator s)"
    and g: "contiguous_file P (capacity (fs_dev s1)) ?fsd first' ?n g" "unat ?n = unat n + k" "remaining_bytes_in_cluster g \<noteq> 0"
      "cursor g = cursor f" "open_options g = open_options f" "flags (details g) = flags (details f)"
      "unat (data_length (details g)) = ?c + ?L" "unat (valid_data_length (details g)) = ?c + ?L"
    and m: "?m \<le> cluster_start ?fsd (unat first')" and v: "\<And>u. ?m \<le> unat u \<Longrightarrow> data_view s1 u = data_view s u"
    and free: "\<And>x. run_lo r \<le> x \<Longrightarrow> x < run_lo r + k \<Longrightarrow> cluster_free P sector s x"
      "\<And>x. 2 \<le> x \<Longrightarrow> x < bitmap_end (bitmap (fs_allocator s)) \<Longrightarrow>
        cluster_free P sector s1 x = (cluster_free P sector s x \<and> \<not> (run_lo r \<le> x \<and> x < run_lo r + k))"
    by (rule grow_prepare [OF assms(1-10)]) (rule that; assumption)
  have fit: "unat (cursor g) + ?L \<le> unat (data_length (details g))" using g(4,7) by simp
  obtain f' c' d' where x: "andthen (write_partial_sector P buf) (write_body P buf) (g, s1) =
      (Ok (), f', s1\<lparr>data_blocks := c', fs_dev := d'\<rparr>)"
    and st: "stored P ?fsd first' ?n (data_view s1) ?c buf (view (c', d'))"
    and f': "unat (cursor f') = ?c + ?L" "details f' = details g" "open_options f' = open_options f"
      "contiguous_file P (capacity (fs_dev s1)) ?fsd first' ?n f'"
    and d': "ready (c', d')" "capacity d' = capacity (fs_dev s1)" "held_in ?fsd first' ?n (data_blocks s1) c'"
    using write_run_ok [of s1 first' ?n g buf, unfolded s1(2) g(4,5), OF g(1,3) buf fit [unfolded g(4)] volume_readyD(8) [OF s1(1)] tail]
    by blast
  define s' where "s' = s1\<lparr>data_blocks := c', fs_dev := d'\<rparr>"
  have out: "\<And>sec. \<not> in_run ?fsd first' ?n sec \<Longrightarrow> view (c', d') sec = data_view s1 sec" by (rule stored_outside [OF st])
  note vol = volume_after_write [OF s1(1), unfolded s1(2,3), OF m d' out s'_def]
  have geo: "geometry_ok P ?fsd" "run_ok (capacity (fs_dev s1)) ?fsd first' ?n" "chain f' = StoredContiguous first' ?n"
    using f'(4) by (simp_all add: contiguous_file_def)
  have dl: "unat (data_length (details f)) \<le> unat n * ?cl" using F by (auto simp: growable_def contiguous_file_def)
  have same: "map (file_byte P (data_view s1) ?fsd first' (valid_data_length (details f))) [0..<unat (data_length (details f))] =
      file_content P sector first (f, s)"
    unfolding file_content_def prod.case
    by (rule map_cong [OF refl], rule kept_bytes [OF geo(1,2) _ _ _ m v]) (use dl g(2) r(2) in auto)
  have max: "max (?c + ?L) (unat (data_length (details f))) = ?c + ?L" "max (?c + ?L) (unat (valid_data_length (details f))) = ?c + ?L"
    using dl e(1) vd by (simp_all add: word_le_nat_alt)
  have c: "?c \<le> unat (valid_data_length (details f))" using cur by (simp add: word_le_nat_alt)
  have "unat (data_length (details f')) \<le> unat ?n * ?cl" using f'(4) by (simp add: contiguous_file_def)
  from content_stored [OF st c vd _ _ this] have "file_content P sector first' (f', s') =
      take ?c (file_content P sector first (f, s)) @ buf @ drop (?c + ?L) (file_content P sector first (f, s))"
    using f'(2) g(7,8) max by (simp add: file_content_def [of P sector first'] s'_def s1(2) same)
  moreover have "drop (?c + ?L) (file_content P sector first (f, s)) = []" using dl e(1) by (simp add: file_content_def)
  ultimately have content: "file_content P sector first' (f', s') = take ?c (file_content P sector first (f, s)) @ buf" by simp
  have cl: "0 < ?cl" using geo(1) by (simp add: geometry_ok_def)
  have cc: "cluster_capacity ?fsd f' = unat ?n * ?cl"
    unfolding cluster_capacity_def f'(2) g(2,7) grown_capacity [OF cl e(1)] k [symmetric] ..
  have "contains (flags (details f')) NoFatChain" using F f'(2) g(6) by (simp add: growable_def)
  then have grow: "growable P capacity s' first' ?n f'"
    using f'(4) m cc d'(2) by (simp add: growable_def s'_def s1(2,3))
  have s': "file_write P buf (f, s) = (Ok (), f', s')" unfolding w x s'_def ..
  have len: "valid_data_length (details f') = data_length (details f')" unfolding f'(2) by (simp only: word_unat_eq_iff g(7,8))
  show thesis
    by (rule that [OF s' r vol(1) grow geo(3) content f'(1,3) len]) (use free vol(2) s1(3) in \<open>simp_all add: s'_def\<close>)
qed

end

end
