(* ===== verification/Properties_Files.thy ===== *)
theory Properties_Files
  imports File_Contract Properties_Storage
begin

text \<open>
  The properties of open files of consecutive clusters: writing, reading back what was written, and the refusals, stated
  against the content of the file as a list of bytes on any reliable device, and witnessed on a small volume on
  \<open>DummyBlockDevice\<close>. Reading by itself, also of files linked in the FAT, is in \<open>Properties_Volume\<close>.
\<close>

section \<open>A small volume\<close>

text \<open>
  Eight sectors of four bytes, the byte at offset \<open>i\<close> of the device being \<open>i\<close>; two sectors to a cluster, the heap
  from sector 2; a file of the clusters 2 and 3, 16 bytes long, of which 12 have been written.
\<close>

definition ex_volume :: dummy_device where
  "ex_volume = \<lparr>blocks = map (\<lambda>i. map of_nat [4 * i..<4 * i + 4]) [0..<8], write_count = 0\<rparr>"

definition ex_fs :: "dummy_device file_system" where
  "ex_fs = (file_system_new ex_platform 2 ex_volume)\<lparr>is_mounted := True, fs_details := details_empty
     \<lparr>fsd_cluster_heap_offset := 2, fsd_sectors_per_cluster := 2, fsd_cluster_length := 8\<rparr>\<rparr>"

definition ex_file :: "u64 \<Rightarrow> open_file" where
  "ex_file cur = \<lparr>details = \<lparr>first_cluster = 2, data_length = 16, valid_data_length = 12, attributes = 32,
       fd_location = \<lparr>sector_id = 0, dir_entry_offset = 0\<rparr>, flags = 3, fd_secondary_count = 2,
       fd_created = encoded_timestamp_default, fd_modified = encoded_timestamp_default,
       fd_accessed = encoded_timestamp_default\<rparr>,
     current_cluster = 2 + ucast (cur div 8), remaining_bytes_in_cluster = 8 - ucast (cur mod 8), cursor = cur,
     open_options = open_options_new\<lparr>opt_read := True, opt_write := True\<rparr>, chain = StoredContiguous 2 2,
     touched = file_dirty_new\<rparr>"

lemma ex_volume_ok: "dummy_ok 4 ex_volume" "dummy_capacity ex_volume = 8"
  by (simp_all add: ex_volume_def dummy_ok_def dummy_capacity_def list_all_length)

lemma ex_fs_simps [simp]:
  "fs_dev ex_fs = ex_volume" "is_mounted ex_fs" "data_blocks ex_fs = slot_cache_new 4 2"
  "fsd_cluster_heap_offset (fs_details ex_fs) = 2" "fsd_sectors_per_cluster (fs_details ex_fs) = 2"
  "fsd_cluster_length (fs_details ex_fs) = 8"
  by (simp_all add: ex_fs_def file_system_new_def)

lemma ex_file_simps [simp]:
  "cursor (ex_file c) = c" "data_length (details (ex_file c)) = 16" "valid_data_length (details (ex_file c)) = 12"
  "opt_read (open_options (ex_file c))" "opt_write (open_options (ex_file c))"
  "chain (ex_file c) = StoredContiguous 2 2"
  by (simp_all add: ex_file_def)

lemma ex_platform_bits [simp]: "usize_bits ex_platform = 64"
  by (simp add: ex_platform_def)

lemma ex_geometry: "geometry_ok ex_platform (fs_details ex_fs)" "run_ok 8 (fs_details ex_fs) 2 2"
  by (simp_all add: geometry_ok_def run_ok_def cluster_start_def)

lemma ex_file_usable:
  assumes "c \<in> {0, 3, 4, 10, 14}"
  shows "file_usable ex_platform (dummy_sector 4) dummy_capacity (dummy_ok 4) 2 2 (ex_file c, ex_fs)"
proof -
  have "cache_ready 4 (dummy_sector 4) dummy_capacity (dummy_ok 4) (slot_cache_new 4 2, ex_volume)"
    by (rule cache_ready_new) (simp_all add: ex_volume_ok)
  moreover have "cursor_ok (fs_details ex_fs) 2 (ex_file c)"
    using assms by (auto simp: cursor_ok_def ex_file_def)
  ultimately show ?thesis
    using ex_geometry by (simp add: file_usable_def contiguous_file_def ex_volume_ok)
qed

lemma ex_byte:
  assumes "i < 16"
  shows "raw_byte ex_platform (cview (dummy_sector 4) (slot_cache_new 4 2, ex_volume)) (fs_details ex_fs) 2 i = of_nat (8 + i)"
proof -
  have "unat (byte_sector ex_platform (fs_details ex_fs) 2 i) = 2 + i div 4"
    using byte_sector_in_run(1) [OF ex_geometry, of i] assms by (simp add: cluster_start_def)
  moreover have "4 * (2 + i div 4) + i mod 4 = 8 + i" using div_mult_mod_eq [of i 4] by simp
  ultimately show ?thesis
    using less_mult_imp_div_less [of i 4 4] assms cview_new [of "dummy_sector 4" 4 2 ex_volume]
    by (simp add: raw_byte_def dummy_sector_def ex_volume_def)
qed

lemma ex_content: "file_content ex_platform (dummy_sector 4) 2 (ex_file c, ex_fs) = map of_nat [8..<20] @ [0, 0, 0, 0]"
proof (rule nth_equalityI)
  show "length (file_content ex_platform (dummy_sector 4) 2 (ex_file c, ex_fs)) = length (map of_nat [8..<20] @ [0, 0, 0, 0 :: u8])"
    by (simp add: file_content_def)
  fix i assume "i < length (file_content ex_platform (dummy_sector 4) 2 (ex_file c, ex_fs))"
  then have i: "i < 16" by (simp add: file_content_def)
  have "map of_nat [8..<20] @ [0, 0, 0, 0 :: u8] = map (\<lambda>i. if i < 12 then of_nat (8 + i) else 0) [0..<16]"
    by code_simp
  then show "file_content ex_platform (dummy_sector 4) 2 (ex_file c, ex_fs) ! i = (map of_nat [8..<20] @ [0, 0, 0, 0]) ! i"
    using i ex_byte [OF i] by (simp add: file_content_def file_byte_raw)
qed

section \<open>Writing\<close>

text \<open>
  C1: writing to a file of consecutive clusters, opened for reading and writing, inside the clusters it has, at a cursor
  within its valid data, ending before \<open>2 ^ usize_bits\<close> and with a tail that does not start a cluster. \<open>write\<close> succeeds; the content afterwards is the old one with the bytes put over it at the cursor,
  longer if they reach past the end; the cursor stands behind them; and no sector outside the clusters of the file
  changes.
\<close>

theorem file_write_content:
  assumes "reliable_device P sector capacity dev_ok"
    and "file_usable P sector capacity dev_ok first n (f, s)" and "cursor f \<le> valid_data_length (details f)"
    and "buf \<noteq> []" and "file_fits P (f, s) (length buf)"
  shows "\<exists>f' s'. file_write P buf (f, s) = (Ok (), f', s') \<and> file_usable P sector capacity dev_ok first n (f', s') \<and>
    file_content P sector first (f', s') =
      take (unat (cursor f)) (file_content P sector first (f, s)) @ buf @
      drop (unat (cursor f) + length buf) (file_content P sector first (f, s)) \<and>
    unat (cursor f') = unat (cursor f) + length buf \<and>
    (\<forall>sec. \<not> in_run (fs_details s) first n sec \<longrightarrow>
      cview sector (data_blocks s', fs_dev s') sec = cview sector (data_blocks s, fs_dev s) sec)"
proof -
  note contract = reliable_device.contiguous_file_contract [OF assms(1)]
  have "file_position (f, s) \<le> file_valid (f, s)"
    using assms(3) by (simp add: file_position_def file_valid_def word_le_nat_alt)
  from random_access_file.wr_ok [OF contract assms(2) this assms(4,5)] obtain f' s' where
    w: "file_write P buf (f, s) = (Ok (), f', s')" "file_usable P sector capacity dev_ok first n (f', s')"
    "file_content P sector first (f', s') =
      take (unat (cursor f)) (file_content P sector first (f, s)) @ buf @
      drop (unat (cursor f) + length buf) (file_content P sector first (f, s))"
    "unat (cursor f') = unat (cursor f) + length buf" by (force simp: file_position_def)
  have u: "contiguous_file P (capacity (fs_dev s)) (fs_details s) first n f" "is_mounted s" "opt_write (open_options f)"
    "cache_ready (SIZE P) sector capacity dev_ok (data_blocks s, fs_dev s)"
    "valid_data_length (details f) \<le> data_length (details f)"
    "unat (cursor f) + length buf \<le> cluster_capacity (fs_details s) f" "unat (cursor f) + length buf < 2 ^ usize_bits P"
    "tail_in_place P (fs_details s) (unat (cursor f)) (length buf)"
    using assms(2,5) by (simp_all add: file_usable_def file_fits_def)
  from reliable_device.file_write_ok [OF assms(1) u(1-3) assms(4) u(4-8)] obtain g c' d' where
    "file_write P buf (f, s) = (Ok (), g, s\<lparr>data_blocks := c', fs_dev := d'\<rparr>)"
    "stored P (fs_details s) first n (cview sector (data_blocks s, fs_dev s)) (unat (cursor f)) buf (cview sector (c', d'))"
    by blast
  then have "\<forall>sec. \<not> in_run (fs_details s) first n sec \<longrightarrow>
      cview sector (data_blocks s', fs_dev s') sec = cview sector (data_blocks s, fs_dev s) sec"
    using w(1) stored_outside by fastforce
  then show ?thesis using w by blast
qed

lemma ex_fits: "file_fits ex_platform (ex_file 3, ex_fs) 4" "file_fits ex_platform (ex_file 3, ex_fs) 10"
  by (simp_all add: file_fits_def cluster_capacity_def tail_in_place_def Let_def)

theorem file_write_content_witness:
  "\<exists>f' s'. file_write ex_platform (replicate 10 1) (ex_file 3, ex_fs) = (Ok (), f', s') \<and>
     file_content ex_platform (dummy_sector 4) 2 (f', s') = [8, 9, 10] @ replicate 10 1 @ [0, 0, 0]"
proof -
  let ?c = "file_content ex_platform (dummy_sector 4) 2 (ex_file 3, ex_fs)"
  have u: "file_usable ex_platform (dummy_sector 4) dummy_capacity (dummy_ok 4) 2 2 (ex_file 3, ex_fs)"
    by (rule ex_file_usable) simp
  have h: "cursor (ex_file 3) \<le> valid_data_length (details (ex_file 3))" "replicate 10 1 \<noteq> ([] :: u8 list)"
    "file_fits ex_platform (ex_file 3, ex_fs) (length (replicate 10 (1 :: u8)))" using ex_fits(2) by simp_all
  have b: "take (unat (cursor (ex_file 3))) ?c @ replicate 10 1 @ drop (unat (cursor (ex_file 3)) + length (replicate 10 (1 :: u8))) ?c =
      [8, 9, 10] @ replicate 10 1 @ [0, 0, 0]"
    unfolding ex_content ex_file_simps by code_simp
  from file_write_content [OF ex_platform_reliable u h] show ?thesis unfolding b by blast
qed

text \<open>
  C2: what is written is read back. In a file of consecutive clusters, opened for reading and writing, with the cursor within
  its valid data, a write that needs no new cluster, ends before \<open>2 ^ usize_bits\<close> and has no tail that starts a cluster,
  then seeking to where the write began and reading as many bytes returns exactly the bytes written, whatever the buffer
  held.
\<close>

theorem write_seek_read_roundtrip:
  assumes "reliable_device P sector capacity dev_ok"
    and "file_usable P sector capacity dev_ok first n (f, s)" and "cursor f \<le> valid_data_length (details f)"
    and "buf \<noteq> []" and "file_fits P (f, s) (length buf)" and "length out = length buf"
  shows "\<exists>f' s'. andthen (file_write P buf) (\<lambda>_. andthen (file_seek P (cursor f)) (\<lambda>_. file_read P out)) (f, s) =
    (Ok (Some (length buf), buf), f', s')"
proof -
  note contract = reliable_device.contiguous_file_contract [OF assms(1)]
  have le: "file_position (f, s) \<le> file_valid (f, s)" and p: "unat (cursor f) = file_position (f, s)"
    using assms(3) by (simp_all add: file_position_def file_valid_def word_le_nat_alt)
  have "cluster_capacity (fs_details s) f < 2 ^ 32 * 2 ^ 32"
  proof -
    have "0 < unat (fsd_cluster_length (fs_details s))"
      "unat (data_length (details f)) \<le> unat n * unat (fsd_cluster_length (fs_details s))"
      using assms(2) by (auto simp: file_usable_def contiguous_file_def geometry_ok_def)
    then have "cluster_capacity (fs_details s) f \<le> unat n * unat (fsd_cluster_length (fs_details s))"
      by (rule cluster_capacity_le)
    also have "\<dots> < 2 ^ 32 * 2 ^ 32"
      by (intro mult_strict_mono) (use unat_less_length [of n] unat_less_length [of "fsd_cluster_length (fs_details s)"] in simp_all)
    finally show ?thesis .
  qed
  then have "length buf < 2 ^ 64" using assms(5) by (simp add: file_fits_def)
  from random_access_file.write_seek_read [OF contract assms(2) le assms(4,5) this p assms(6)]
  show ?thesis by (simp add: split_paired_Ex)
qed

theorem write_seek_read_roundtrip_witness:
  "\<exists>f' s'. andthen (file_write ex_platform [1, 2, 3, 4]) (\<lambda>_. andthen (file_seek ex_platform 3) (\<lambda>_.
      file_read ex_platform [0, 0, 0, 0])) (ex_file 3, ex_fs) = (Ok (Some 4, [1, 2, 3, 4]), f', s')"
proof -
  have u: "file_usable ex_platform (dummy_sector 4) dummy_capacity (dummy_ok 4) 2 2 (ex_file 3, ex_fs)"
    by (rule ex_file_usable) simp
  have h: "cursor (ex_file 3) \<le> valid_data_length (details (ex_file 3))" "[1, 2, 3, 4] \<noteq> ([] :: u8 list)" by simp_all
  have "length [1, 2, 3, 4 :: u8] = 4" by simp
  then have fit: "file_fits ex_platform (ex_file 3, ex_fs) (length [1, 2, 3, 4 :: u8])" using ex_fits(1) by metis
  from write_seek_read_roundtrip [OF ex_platform_reliable u h fit, of "[0, 0, 0, 0]"] show ?thesis
    unfolding \<open>length [1, 2, 3, 4] = 4\<close> by simp
qed

text \<open>
  C30: a write with a tail that starts a cluster. \<open>write\<close> reports success, but the tail is stored at the start of the
  cluster just filled, over the bytes there, and the place of the tail in the file keeps its old bytes.
\<close>

theorem write_tail_misplaced:
  assumes "reliable_device P sector capacity dev_ok"
    and "file_usable P sector capacity dev_ok first n (f, s)" and "buf \<noteq> []"
    and "unat (cursor f) + length buf \<le> cluster_capacity (fs_details s) f"
    and "unat (cursor f) + length buf < 2 ^ usize_bits P"
    and "start = (unat (cursor f) + length buf) div SIZE P * SIZE P"
    and "unat (cursor f) < start" and "start < unat (cursor f) + length buf"
    and "start mod unat (fsd_cluster_length (fs_details s)) = 0"
  shows "\<exists>f' s'. file_write P buf (f, s) = (Ok (), f', s') \<and>
    (\<forall>i. start \<le> i \<and> i < unat (cursor f) + length buf \<longrightarrow>
      raw_byte P (cview sector (data_blocks s', fs_dev s')) (fs_details s) first i =
      raw_byte P (cview sector (data_blocks s, fs_dev s)) (fs_details s) first i) \<and>
    (\<forall>j < unat (cursor f) + length buf - start.
      raw_byte P (cview sector (data_blocks s', fs_dev s')) (fs_details s) first
        (start - unat (fsd_cluster_length (fs_details s)) + j) = buf ! (start - unat (cursor f) + j))"
proof -
  have u: "contiguous_file P (capacity (fs_dev s)) (fs_details s) first n f" "is_mounted s" "opt_write (open_options f)"
    "cache_ready (SIZE P) sector capacity dev_ok (data_blocks s, fs_dev s)"
    "valid_data_length (details f) \<le> data_length (details f)"
    using assms(2) by (simp_all add: file_usable_def)
  have tail: "\<not> tail_in_place P (fs_details s) (unat (cursor f)) (length buf)"
    using assms(6-9) by (simp add: tail_in_place_def Let_def)
  from reliable_device.file_write_tail_misplaced [OF assms(1) u(1-3) assms(3) u(4,5) assms(4,5) tail assms(6)]
  obtain f' c' d' where w: "file_write P buf (f, s) = (Ok (), f', s\<lparr>data_blocks := c', fs_dev := d'\<rparr>)"
    "\<forall>i. start \<le> i \<and> i < unat (cursor f) + length buf \<longrightarrow> raw_byte P (cview sector (c', d')) (fs_details s) first i =
      raw_byte P (cview sector (data_blocks s, fs_dev s)) (fs_details s) first i"
    "\<forall>j < unat (cursor f) + length buf - start. raw_byte P (cview sector (c', d')) (fs_details s) first
        (start - unat (fsd_cluster_length (fs_details s)) + j) = buf ! (start - unat (cursor f) + j)" by blast
  then show ?thesis by (intro exI [of _ f'] exI [of _ "s\<lparr>data_blocks := c', fs_dev := d'\<rparr>"]) simp
qed

theorem write_tail_misplaced_witness:
  "\<exists>f' s'. file_write ex_platform [1, 2, 3, 4, 5] (ex_file 4, ex_fs) = (Ok (), f', s') \<and>
    raw_byte ex_platform (cview (dummy_sector 4) (data_blocks s', fs_dev s')) (fs_details ex_fs) 2 8 = 16 \<and>
    raw_byte ex_platform (cview (dummy_sector 4) (data_blocks s', fs_dev s')) (fs_details ex_fs) 2 0 = 5"
proof -
  let ?buf = "[1, 2, 3, 4, 5] :: u8 list"
  have u: "file_usable ex_platform (dummy_sector 4) dummy_capacity (dummy_ok 4) 2 2 (ex_file 4, ex_fs)"
    by (rule ex_file_usable) simp
  have h: "?buf \<noteq> []" "unat (cursor (ex_file 4)) + length ?buf \<le> cluster_capacity (fs_details ex_fs) (ex_file 4)"
    "unat (cursor (ex_file 4)) + length ?buf < 2 ^ usize_bits ex_platform"
    "8 = (unat (cursor (ex_file 4)) + length ?buf) div SIZE ex_platform * SIZE ex_platform"
    "unat (cursor (ex_file 4)) < 8" "8 < unat (cursor (ex_file 4)) + length ?buf"
    "8 mod unat (fsd_cluster_length (fs_details ex_fs)) = 0" by (simp_all add: cluster_capacity_def)
  from write_tail_misplaced [OF ex_platform_reliable u h] obtain f' s' where
    w: "file_write ex_platform ?buf (ex_file 4, ex_fs) = (Ok (), f', s')"
    and old: "\<And>i. 8 \<le> i \<and> i < unat (cursor (ex_file 4)) + length ?buf \<Longrightarrow>
      raw_byte ex_platform (cview (dummy_sector 4) (data_blocks s', fs_dev s')) (fs_details ex_fs) 2 i =
      raw_byte ex_platform (cview (dummy_sector 4) (data_blocks ex_fs, fs_dev ex_fs)) (fs_details ex_fs) 2 i"
    and new: "\<And>j. j < unat (cursor (ex_file 4)) + length ?buf - 8 \<Longrightarrow>
      raw_byte ex_platform (cview (dummy_sector 4) (data_blocks s', fs_dev s')) (fs_details ex_fs) 2
        (8 - unat (fsd_cluster_length (fs_details ex_fs)) + j) = ?buf ! (8 - unat (cursor (ex_file 4)) + j)" by metis
  have "raw_byte ex_platform (cview (dummy_sector 4) (data_blocks s', fs_dev s')) (fs_details ex_fs) 2 8 = 16"
    using old [of 8] ex_byte [of 8] by simp
  moreover have "raw_byte ex_platform (cview (dummy_sector 4) (data_blocks s', fs_dev s')) (fs_details ex_fs) 2 0 = 5"
    using new [of 0] by simp
  ultimately show ?thesis using w by blast
qed

text \<open>
  C33: a write behind the valid data, where reading can take the cursor. Bytes between the end of the valid data and
  the cursor read as zero before; afterwards they count as valid and show whatever the medium held there.
\<close>

theorem write_exposes_stale_bytes:
  assumes "reliable_device P sector capacity dev_ok"
    and "file_usable P sector capacity dev_ok first n (f, s)" and "buf \<noteq> []" and "file_fits P (f, s) (length buf)"
    and "unat (valid_data_length (details f)) \<le> i" and "i < unat (cursor f)" and "cursor f \<le> data_length (details f)"
  shows "file_content P sector first (f, s) ! i = 0 \<and>
    (\<exists>f' s'. file_write P buf (f, s) = (Ok (), f', s') \<and>
      file_content P sector first (f', s') ! i = raw_byte P (cview sector (data_blocks s, fs_dev s)) (fs_details s) first i)"
proof -
  have u: "contiguous_file P (capacity (fs_dev s)) (fs_details s) first n f" "is_mounted s" "opt_write (open_options f)"
    "cache_ready (SIZE P) sector capacity dev_ok (data_blocks s, fs_dev s)"
    "valid_data_length (details f) \<le> data_length (details f)"
    "unat (cursor f) + length buf \<le> cluster_capacity (fs_details s) f" "unat (cursor f) + length buf < 2 ^ usize_bits P"
    "tail_in_place P (fs_details s) (unat (cursor f)) (length buf)"
    using assms(2,4) by (simp_all add: file_usable_def file_fits_def)
  from reliable_device.file_write_ok [OF assms(1) u(1-3) assms(3) u(4-8)] obtain f' c' d' where
    w: "file_write P buf (f, s) = (Ok (), f', s\<lparr>data_blocks := c', fs_dev := d'\<rparr>)"
    "stored P (fs_details s) first n (cview sector (data_blocks s, fs_dev s)) (unat (cursor f)) buf (cview sector (c', d'))"
    "unat (data_length (details f')) = max (unat (cursor f) + length buf) (unat (data_length (details f)))"
    "unat (valid_data_length (details f')) = max (unat (cursor f) + length buf) (unat (valid_data_length (details f)))"
    by blast
  have "unat (cursor f) \<le> unat n * unat (fsd_cluster_length (fs_details s))"
    using assms(7) u(1) by (simp add: contiguous_file_def word_le_nat_alt)
  then have "raw_byte P (cview sector (c', d')) (fs_details s) first i =
      raw_byte P (cview sector (data_blocks s, fs_dev s)) (fs_details s) first i"
    using w(2) assms(6) by (simp add: stored_def)
  moreover have "i < unat (data_length (details f'))" "i < unat (valid_data_length (details f'))"
    using w(3,4) assms(6) by simp_all
  moreover have "i < unat (data_length (details f))" using assms(6,7) by (simp add: word_le_nat_alt)
  ultimately show ?thesis
    using w(1) assms(5)
    by (intro conjI exI [of _ f'] exI [of _ "s\<lparr>data_blocks := c', fs_dev := d'\<rparr>"]) (simp_all add: file_content_def file_byte_raw)
qed

theorem write_exposes_stale_bytes_witness:
  "file_content ex_platform (dummy_sector 4) 2 (ex_file 14, ex_fs) ! 13 = 0 \<and>
    (\<exists>f' s'. file_write ex_platform [1] (ex_file 14, ex_fs) = (Ok (), f', s') \<and>
      file_content ex_platform (dummy_sector 4) 2 (f', s') ! 13 = 21)"
proof -
  have u: "file_usable ex_platform (dummy_sector 4) dummy_capacity (dummy_ok 4) 2 2 (ex_file 14, ex_fs)"
    by (rule ex_file_usable) simp
  have h: "[1] \<noteq> ([] :: u8 list)" "file_fits ex_platform (ex_file 14, ex_fs) (length [1 :: u8])"
    "unat (valid_data_length (details (ex_file 14))) \<le> 13" "13 < unat (cursor (ex_file 14))"
    "cursor (ex_file 14) \<le> data_length (details (ex_file 14))"
    by (simp_all add: file_fits_def cluster_capacity_def tail_in_place_def Let_def)
  from write_exposes_stale_bytes [OF ex_platform_reliable u h] show ?thesis using ex_byte [of 13] by simp
qed

section \<open>Refusals\<close>

text \<open>
  C36: on a mounted volume, a file not opened for reading is not read and one opened without the write option is not written,
  also when it was opened with the append option, which the documentation of \<open>append\<close> says is enough; a position behind
  the valid data is not sought, and at the end of the file there is nothing to read; in each case the file and the
  volume stay as they are.
\<close>

theorem file_refusals:
  assumes "is_mounted s"
  shows "(\<not> opt_read (open_options f) \<longrightarrow> file_read P buf (f, s) = (Err ReadNotEnabled, f, s)) \<and>
    (opt_read (open_options f) \<and> data_length (details f) \<le> cursor f \<longrightarrow> file_read P buf (f, s) = (Ok (None, buf), f, s)) \<and>
    (\<not> opt_write (open_options f) \<and> buf \<noteq> [] \<longrightarrow> file_write P buf (f, s) = (Err WriteNotEnabled, f, s)) \<and>
    (valid_data_length (details f) < cur \<longrightarrow> file_seek P cur (f, s) = (Err SeekOutOfRange, f, s))"
proof -
  note m = andthen_Ok [where m = "in_fs (mount P)", OF mounted_mount [OF assms]]
  show ?thesis
    unfolding file_read_def file_write_def m
    using file_seek_out_of_range [OF assms, where P = P]
    by (simp add: the_file_def andthen_gets fail_def ret_def eof_def m)
qed

theorem file_refusals_witness:
  "file_seek ex_platform 13 (ex_file 0, ex_fs) = (Err SeekOutOfRange, ex_file 0, ex_fs)"
  using file_refusals [of ex_fs "ex_file 0" ex_platform "[]" 13] by simp

end
