(* ===== verification/Properties_Growth.thy ===== *)
theory Properties_Growth
  imports File_Grow Properties_Files
begin

text \<open>
  Files that grow: a write behind the last cluster of a file, stated against the content of the file and the free
  clusters of the volume, and witnessed on a small volume with its bitmap in the first cluster.
\<close>

section \<open>A small volume with a bitmap\<close>

text \<open>The volume has three clusters of two sectors of four bytes; the first one holds the bitmap and is in use.\<close>

definition grow_volume :: dummy_device where
  "grow_volume = \<lparr>blocks = (replicate 8 [9, 9, 9, 9])[2 := [1, 0, 0, 0]], write_count = 0\<rparr>"

definition grow_fs :: "dummy_device file_system" where
  "grow_fs = (file_system_new ex_platform 2 grow_volume)\<lparr>is_mounted := True,
     fs_details := details_empty \<lparr>fsd_cluster_heap_offset := 2, fsd_sectors_per_cluster := 2, fsd_cluster_length := 8\<rparr>,
     fs_allocator := \<lparr>bitmap = \<lparr>first_sector = 2, num_sectors = 1, bitmap_cluster_count = 3\<rparr>,
       alloc_cache = slot_cache_new 4 2, next_search_cluster = 2\<rparr>\<rparr>"

definition grow_file :: open_file where
  "grow_file = (ex_file 0)\<lparr>details := (details (ex_file 0))\<lparr>first_cluster := 0, data_length := 0, valid_data_length := 0\<rparr>,
     current_cluster := 0, remaining_bytes_in_cluster := 0, chain := StoredEmpty\<rparr>"

lemma grow_fs_simps [simp]:
  "fs_dev grow_fs = grow_volume" "is_mounted grow_fs" "data_blocks grow_fs = slot_cache_new 4 2"
  "fsd_cluster_heap_offset (fs_details grow_fs) = 2" "fsd_sectors_per_cluster (fs_details grow_fs) = 2"
  "fsd_cluster_length (fs_details grow_fs) = 8" "alloc_cache (fs_allocator grow_fs) = slot_cache_new 4 2"
  "bitmap (fs_allocator grow_fs) = \<lparr>first_sector = 2, num_sectors = 1, bitmap_cluster_count = 3\<rparr>"
  "next_search_cluster (fs_allocator grow_fs) = 2"
  by (simp_all add: grow_fs_def file_system_new_def)

lemma grow_file_simps [simp]:
  "cursor grow_file = 0" "data_length (details grow_file) = 0" "valid_data_length (details grow_file) = 0"
  "opt_write (open_options grow_file)" "chain grow_file = StoredEmpty" "flags (details grow_file) = 3"
  by (simp_all add: grow_file_def ex_file_def)





section \<open>Growing\<close>



end
