(* ===== verification/Properties_System.thy ===== *)
theory Properties_System
  imports Properties_Actor Properties_Growth
begin

text \<open>
  Properties across components: the three caches of a volume when it is unmounted, and a read through the actor.
\<close>

section \<open>Unmounting\<close>

text \<open>
  The FAT, the bitmap and everything else live in different sectors, and each has its own cache. A sector of the
  volume is what the cache that holds it shows.
\<close>

definition caches_apart :: "'d file_system \<Rightarrow> bool" where
  "caches_apart s \<longleftrightarrow> (\<forall>t i j.
     \<not> (holds (fat_cache (fs_fat s)) t i \<and> holds (alloc_cache (fs_allocator s)) t j) \<and>
     \<not> (holds (fat_cache (fs_fat s)) t i \<and> holds (data_blocks s) t j) \<and>
     \<not> (holds (alloc_cache (fs_allocator s)) t i \<and> holds (data_blocks s) t j))"

definition volume_view :: "('d \<Rightarrow> u32 \<Rightarrow> block) \<Rightarrow> 'd file_system \<Rightarrow> u32 \<Rightarrow> block" where
  "volume_view sector s t =
     (if \<exists>i. holds (data_blocks s) t i then cview sector (data_blocks s, fs_dev s) t
      else if \<exists>i. holds (alloc_cache (fs_allocator s)) t i then cview sector (alloc_cache (fs_allocator s), fs_dev s) t
      else cview sector (fat_cache (fs_fat s), fs_dev s) t)"

lemma cview_held:
  assumes "cache_inv sz sector ok (c, d)" and "cache_inv sz sector ok (c, d')" and "\<exists>i. holds c t i"
  shows "cview sector (c, d') t = cview sector (c, d) t"
  using assms cview_hit by metis

context reliable_device
begin

text \<open>Writing back another cache leaves this one usable.\<close>

lemma ready_after_flush:
  assumes "ready (c, d)" and "ready (e, d)" and "cache_flush P (e, d) = (Ok (), e', d')"
    and "\<And>t i j. \<not> (holds c t i \<and> holds e t j)"
  shows "ready (c, d')"
proof -
  have inv: "inv (c, d)" "inv (e, d)" using assms(1,2) by (simp_all add: cache_ready_def)
  note F = flush_ok [OF inv(2) assms(3)]
  have "inv (c, d')"
  proof (rule cache_inv_device [OF inv(1)])
    show "dev_ok d'" using cache_invD(1) [OF F(1)] .
    show "sector d' t = sector d t" if "holds c t i" for t i
      using F(3) cview_miss [of e t sector d] assms(4) that by metis
  qed
  then show ?thesis using assms(1) F(5) by (simp add: cache_ready_def)
qed

lemma unmount_ok:
  assumes "ready (fat_cache (fs_fat s), fs_dev s)" and "ready (alloc_cache (fs_allocator s), fs_dev s)"
    and "ready (data_blocks s, fs_dev s)" and "caches_apart s"
  shows "\<exists>d. unmount P s = Ok d \<and> dev_ok d \<and> capacity d = capacity (fs_dev s) \<and> sector d = volume_view sector s"
proof -
  define f a c d where "f = fat_cache (fs_fat s)" and "a = alloc_cache (fs_allocator s)" and "c = data_blocks s"
    and "d = fs_dev s"
  note defs = f_def a_def c_def d_def
  have rdy: "ready (f, d)" "ready (a, d)" "ready (c, d)" using assms(1-3) by (simp_all add: defs)
  have apart: "\<And>t i j. \<not> (holds a t i \<and> holds f t j)" "\<And>t i j. \<not> (holds c t i \<and> holds f t j)"
    "\<And>t i j. \<not> (holds c t i \<and> holds a t j)"
    using assms(4) by (auto simp: caches_apart_def defs)
  obtain f' d1 where fl1: "cache_flush P (f, d) = (Ok (), f', d1)" using flush_total [OF rdy(1)] by blast
  have rdy1: "ready (a, d1)" "ready (c, d1)"
    using ready_after_flush [OF rdy(2,1) fl1 apart(1)] ready_after_flush [OF rdy(3,1) fl1 apart(2)] by blast+
  obtain a' d2 where fl2: "cache_flush P (a, d1) = (Ok (), a', d2)" using flush_total [OF rdy1(1)] by blast
  have rdy2: "ready (c, d2)" by (rule ready_after_flush [OF rdy1(2,1) fl2 apart(3)])
  obtain c' d3 where fl3: "cache_flush P (c, d2) = (Ok (), c', d3)" using flush_total [OF rdy2] by blast
  have inv: "inv (f, d)" "inv (a, d)" "inv (c, d)" "inv (a, d1)" "inv (c, d2)"
    using rdy rdy1 rdy2 by (simp_all add: cache_ready_def)
  note F1 = flush_ok [OF inv(1) fl1] and F2 = flush_ok [OF inv(4) fl2] and F3 = flush_ok [OF inv(5) fl3]
  have "sector d3 t = volume_view sector s t" for t
  proof -
    have "sector d3 t = (if \<exists>i. holds c t i then view (c, d) t else view (a, d1) t)"
      using F3(3) F2(3) cview_held [OF inv(3,5)] cview_miss [of c t sector d2] by auto
    moreover have "view (a, d1) t = (if \<exists>i. holds a t i then view (a, d) t else view (f, d) t)"
      using F1(3) cview_held [OF inv(2,4)] cview_miss [of a t sector d1] by auto
    ultimately show ?thesis unfolding volume_view_def defs [symmetric] by (simp only:)
  qed
  moreover have "unmount P s = Ok d3"
    using fl1 fl2 fl3
    by (simp add: unmount_def fs_flush_def andthen_def on_fat_def on_alloc_def on_data_def zoom_def fat_flush_def
        fat_zoom_def alloc_flush_def alloc_zoom_def defs [symmetric])
  moreover have "dev_ok d3" using cache_invD(1) [OF F3(1)] .
  moreover have "capacity d3 = capacity (fs_dev s)" using F1(5) F2(5) F3(5) by (simp add: d_def)
  ultimately show ?thesis by blast
qed

end

text \<open>
  C14: unmounting a volume on a reliable device, with each cache sound and no sector in two of them, always succeeds
  and gives back a device on which every sector is what the volume showed: nothing cached is lost and, although the
  caches are written back one after the other over the same device, none undoes the work of another.
\<close>

theorem unmount_durable:
  assumes "reliable_device P sector capacity dev_ok"
    and "cache_ready (SIZE P) sector capacity dev_ok (fat_cache (fs_fat s), fs_dev s)"
    and "cache_ready (SIZE P) sector capacity dev_ok (alloc_cache (fs_allocator s), fs_dev s)"
    and "cache_ready (SIZE P) sector capacity dev_ok (data_blocks s, fs_dev s)" and "caches_apart s"
  shows "\<exists>d. unmount P s = Ok d \<and> dev_ok d \<and> capacity d = capacity (fs_dev s) \<and> sector d = volume_view sector s"
  using reliable_device.unmount_ok [OF assms] .

text \<open>The two dirty sectors of the example cache as the data of a volume whose other caches are empty.\<close>

definition ex_unmount :: "dummy_device file_system" where
  "ex_unmount = (file_system_new ex_platform 2 (snd ex_dirty))\<lparr>data_blocks := fst ex_dirty\<rparr>"

theorem unmount_durable_witness:
  "\<exists>d. unmount ex_platform ex_unmount = Ok d \<and> dummy_sector 4 d 5 = [7, 0, 0, 0] \<and> dummy_sector 4 d 2 = [9, 0, 0, 0]"
proof -
  let ?s = ex_unmount
  have sel: "fs_dev ?s = snd ex_dirty" "data_blocks ?s = fst ex_dirty" "fat_cache (fs_fat ?s) = slot_cache_new 4 2"
    "alloc_cache (fs_allocator ?s) = slot_cache_new 4 2"
    by (simp_all add: ex_unmount_def file_system_new_def fat_new_def allocator_new_def)
  have inv: "cache_inv 4 (dummy_sector 4) (dummy_ok 4) (fst ex_dirty, snd ex_dirty)"
    using ex_dirty_ready(1) by (simp add: cache_ready_def)
  have new: "cache_ready 4 (dummy_sector 4) dummy_capacity (dummy_ok 4) (slot_cache_new 4 2, snd ex_dirty)"
    using cache_invD(1) [OF inv] by (intro cache_ready_new) simp_all
  have h: "cache_ready (SIZE ex_platform) (dummy_sector 4) dummy_capacity (dummy_ok 4) (fat_cache (fs_fat ?s), fs_dev ?s)"
    "cache_ready (SIZE ex_platform) (dummy_sector 4) dummy_capacity (dummy_ok 4) (alloc_cache (fs_allocator ?s), fs_dev ?s)"
    "cache_ready (SIZE ex_platform) (dummy_sector 4) dummy_capacity (dummy_ok 4) (data_blocks ?s, fs_dev ?s)" "caches_apart ?s"
    using new ex_dirty_ready(1) by (simp_all add: sel caches_apart_def)
  obtain d where d: "unmount ex_platform ?s = Ok d" "dummy_sector 4 d = volume_view (dummy_sector 4) ?s"
    using unmount_durable [OF ex_platform_reliable h] by blast
  have "volume_view (dummy_sector 4) ?s t = cview (dummy_sector 4) ex_dirty t" for t
    using cview_miss [of "fst ex_dirty" t "dummy_sector 4" "snd ex_dirty"] cview_new [of "dummy_sector 4" 4 2 "snd ex_dirty"]
    by (simp add: volume_view_def sel)
  then show ?thesis using d ex_dirty_ready(2) by simp
qed

section \<open>Reading through the actor\<close>

text \<open>
  A read through a handle at the end of the file. The actor drops the count that \<open>read\<close> returned and sends the
  whole buffer of zeros, so the client is told that it read as many bytes as it asked for; the answer that nothing is
  left, \<open>None\<close>, is only given for an empty buffer.
\<close>

lemma actor_read_hides_eof:
  assumes "mg_dev m = None" and "mg_fs m = Some s" and "is_mounted s" and "map_of (hd_map (mg_files m)) handle = Some f"
    and "opt_read (open_options f)" and "data_length (details f) \<le> cursor f" and "buf \<noteq> []"
  shows "\<exists>r m'. handle_req P E N fuel (fst (handle_read handle buf)) m = (Ok r, m') \<and>
    snd (handle_read handle buf) r = Ok (Some (length buf), replicate (length buf) 0) \<and>
    file_read P buf (f, s) = (Ok (None, buf), f, s)"
proof -
  note mounted = andthen_Ok [where m = "in_fs (mount P)", OF mounted_mount [OF assms(3)]]
  have rd: "file_read P b (f, s) = (Ok (None, b), f, s)" for b
    unfolding file_read_def mounted using assms(5,6) by (simp add: the_file_def andthen_gets eof_def ret_def)
  let ?m = "m\<lparr>mg_fs := Some s, mg_files := handles_put handle f (mg_files m)\<rparr>"
  have "handle_req P E N fuel (OpReadFile handle (length buf)) m = (Ok (RespRead (replicate (length buf) 0)), ?m)"
    using assms(1,2,4) rd
    by (simp add: handle_req_def manager_mount_def map_err_def andthen_def on_open_file_def on_files_def zoom_def
        handles_get_def ret_def)
  moreover have "splice 0 (replicate (length buf) 0) buf = Some (replicate (length buf) (0 :: u8))"
    by (simp add: splice_def)
  ultimately show ?thesis using rd assms(7) by (simp add: handle_read_def)
qed

lemma actor_read_hides_eof_run:
  "\<exists>r m'. handle_req ex_platform ex_errors 2 0 (fst (handle_read 0 [9, 9]))
      \<lparr>mg_dev = None, mg_fs = Some ex_fs, mg_files = \<lparr>hd_map = [(0, ex_file 16)], next_handle = 1\<rparr>,
       mg_dirs = handles_new, mg_time_provider = None, mg_clock = 0\<rparr> = (Ok r, m') \<and>
    snd (handle_read 0 [9, 9]) r = Ok (Some 2, [0, 0])"
proof -
  let ?m = "\<lparr>mg_dev = None, mg_fs = Some ex_fs, mg_files = \<lparr>hd_map = [(0, ex_file 16)], next_handle = 1\<rparr>,
       mg_dirs = handles_new, mg_time_provider = None, mg_clock = 0\<rparr>"
  have "mg_dev ?m = None" "mg_fs ?m = Some ex_fs" "is_mounted ex_fs" "map_of (hd_map (mg_files ?m)) 0 = Some (ex_file 16)"
    "opt_read (open_options (ex_file 16))" "data_length (details (ex_file 16)) \<le> cursor (ex_file 16)" "[9, 9] \<noteq> ([] :: u8 list)"
    by simp_all
  from actor_read_hides_eof [OF this, of ex_platform ex_errors 2 0]
  show ?thesis by (simp add: numeral_2_eq_2) blast
qed

end
