(* ===== verification/Volume_View.thy ===== *)
theory Volume_View
  imports Fs_State
begin

text \<open>
  A mounted volume as one medium. The FAT, the bitmap and everything else have a cache each over the one device; a
  layout says which cache a sector belongs to. As long as every cache only holds sectors of its own region, the volume
  shows one content per sector, and an operation on one cache is an operation on that content.
\<close>

section \<open>Layout and content\<close>

datatype region = FatRegion | BitmapRegion | DataRegion

type_synonym layout = "u32 \<Rightarrow> region"

definition held_by :: "layout \<Rightarrow> region \<Rightarrow> slot_cache \<Rightarrow> bool" where
  "held_by ly r c \<longleftrightarrow> (\<forall>t i. holds c t i \<longrightarrow> ly t = r)"

definition volume_ok :: "('d, 'e) platform \<Rightarrow> ('d \<Rightarrow> u32 \<Rightarrow> block) \<Rightarrow> ('d \<Rightarrow> nat) \<Rightarrow> ('d \<Rightarrow> bool) \<Rightarrow> layout \<Rightarrow>
    'd file_system \<Rightarrow> bool" where
  "volume_ok P sector capacity dev_ok ly s \<longleftrightarrow>
     cache_ready (SIZE P) sector capacity dev_ok (fat_cache (fs_fat s), fs_dev s) \<and>
     cache_ready (SIZE P) sector capacity dev_ok (alloc_cache (fs_allocator s), fs_dev s) \<and>
     cache_ready (SIZE P) sector capacity dev_ok (data_blocks s, fs_dev s) \<and>
     held_by ly FatRegion (fat_cache (fs_fat s)) \<and> held_by ly BitmapRegion (alloc_cache (fs_allocator s)) \<and>
     held_by ly DataRegion (data_blocks s)"

definition medium :: "('d \<Rightarrow> u32 \<Rightarrow> block) \<Rightarrow> layout \<Rightarrow> 'd file_system \<Rightarrow> u32 \<Rightarrow> block" where
  "medium sector ly s t = (case ly t of
     FatRegion \<Rightarrow> cview sector (fat_cache (fs_fat s), fs_dev s) t
   | BitmapRegion \<Rightarrow> cview sector (alloc_cache (fs_allocator s), fs_dev s) t
   | DataRegion \<Rightarrow> cview sector (data_blocks s, fs_dev s) t)"

text \<open>
  Everything of a file system but its caches, its device and its clock; of the allocator's hint only that it stays in the cluster heap.
\<close>

definition same_setup :: "('d \<Rightarrow> nat) \<Rightarrow> 'd file_system \<Rightarrow> 'd file_system \<Rightarrow> bool" where
  "same_setup capacity s s' \<longleftrightarrow> is_mounted s' = is_mounted s \<and> fs_details s' = fs_details s \<and>
     fs_upcase s' = fs_upcase s \<and> start_of_fat_sector (fs_fat s') = start_of_fat_sector (fs_fat s) \<and>
     bitmap (fs_allocator s') = bitmap (fs_allocator s) \<and> time_provider s' = time_provider s \<and>
     capacity (fs_dev s') = capacity (fs_dev s) \<and>
     (2 \<le> unat (next_search_cluster (fs_allocator s)) \<longrightarrow> 2 \<le> unat (next_search_cluster (fs_allocator s')))"

lemma same_setup_refl [simp]: "same_setup capacity s s"
  by (simp add: same_setup_def)

lemma same_setup_trans [trans]: "same_setup cap a b \<Longrightarrow> same_setup cap b c \<Longrightarrow> same_setup cap a c"
  by (simp add: same_setup_def)

lemma same_setupD:
  assumes "same_setup capacity s s'"
  shows "fs_details s' = fs_details s" and "fs_upcase s' = fs_upcase s" and "is_mounted s' = is_mounted s"
    and "start_of_fat_sector (fs_fat s') = start_of_fat_sector (fs_fat s)" and "capacity (fs_dev s') = capacity (fs_dev s)"
  using assms by (simp_all add: same_setup_def)

section \<open>Operations on one cache\<close>

context reliable_device
begin

abbreviation vol_ok :: "layout \<Rightarrow> 'd file_system \<Rightarrow> bool" where
  "vol_ok \<equiv> volume_ok P sector capacity dev_ok"

abbreviation content_of :: "layout \<Rightarrow> 'd file_system \<Rightarrow> u32 \<Rightarrow> block" where
  "content_of \<equiv> medium sector"

text \<open>The other caches do not notice what one cache does within its region.\<close>

lemma other_cache:
  assumes c: "ready (c, d)" "held_by ly r c" and c': "ready (c', d')" "held_by ly r c'" and cap: "capacity d' = capacity d"
    and out: "\<And>u. ly u \<noteq> r \<Longrightarrow> view (c', d') u = view (c, d) u"
    and e: "ready (e, d)" "held_by ly r' e" and ne: "r' \<noteq> r"
  shows "ready (e, d')" and "\<And>u. ly u = r' \<Longrightarrow> view (e, d') u = view (e, d) u"
proof -
  have same: "sector d' u = sector d u" if u: "ly u \<noteq> r" for u
  proof -
    have "\<not> (\<exists>i. holds c u i)" "\<not> (\<exists>i. holds c' u i)" using c(2) c'(2) u by (auto simp: held_by_def)
    then show ?thesis using out [OF u] by (simp add: view_not_held)
  qed
  have dev: "dev_ok d'" using c'(1) cache_invD(1) [of "SIZE P" sector dev_ok c' d'] by (simp add: cache_ready_def)
  have held: "\<And>t i. holds e t i \<Longrightarrow> ly t = r'" using e(2) unfolding held_by_def by blast
  show "ready (e, d')"
    by (rule cache_after(1) [OF e(1) dev cap, where R = "\<lambda>t. ly t = r'"]) (use held same ne in auto)
  show "view (e, d') u = view (e, d) u" if "ly u = r'" for u
    by (rule cache_after(2) [OF e(1) dev cap, where R = "\<lambda>t. ly t = r'"]) (use held same ne that in auto)
qed

lemma data_step:
  assumes V: "vol_ok ly s" and c': "ready (c', d')" "held_by ly DataRegion c'" and cap: "capacity d' = capacity (fs_dev s)"
    and out: "\<And>u. ly u \<noteq> DataRegion \<Longrightarrow> view (c', d') u = view (data_blocks s, fs_dev s) u"
    and s': "s' = s\<lparr>data_blocks := c', fs_dev := d'\<rparr>"
  shows "vol_ok ly s'" and "content_of ly s' = (\<lambda>u. if ly u = DataRegion then view (c', d') u else content_of ly s u)"
    and "same_setup capacity s s'"
proof -
  have V': "ready (data_blocks s, fs_dev s)" "held_by ly DataRegion (data_blocks s)"
    "ready (fat_cache (fs_fat s), fs_dev s)" "held_by ly FatRegion (fat_cache (fs_fat s))"
    "ready (alloc_cache (fs_allocator s), fs_dev s)" "held_by ly BitmapRegion (alloc_cache (fs_allocator s))"
    using V by (simp_all add: volume_ok_def)
  note f = other_cache [OF V'(1,2) c' cap out V'(3,4)] and a = other_cache [OF V'(1,2) c' cap out V'(5,6)]
  show "vol_ok ly s'" using c' f(1) a(1) V' by (simp add: volume_ok_def s')
  show "content_of ly s' = (\<lambda>u. if ly u = DataRegion then view (c', d') u else content_of ly s u)"
  proof
    show "content_of ly s' u = (if ly u = DataRegion then view (c', d') u else content_of ly s u)" for u
      using f(2) [of u] a(2) [of u] by (cases "ly u") (simp_all add: medium_def s')
  qed
  show "same_setup capacity s s'" using cap by (simp add: same_setup_def s')
qed

lemma fat_step:
  assumes V: "vol_ok ly s" and c': "ready (c', d')" "held_by ly FatRegion c'" and cap: "capacity d' = capacity (fs_dev s)"
    and out: "\<And>u. ly u \<noteq> FatRegion \<Longrightarrow> view (c', d') u = view (fat_cache (fs_fat s), fs_dev s) u"
    and s': "s' = s\<lparr>fs_fat := (fs_fat s)\<lparr>fat_cache := c'\<rparr>, fs_dev := d'\<rparr>"
  shows "vol_ok ly s'" and "content_of ly s' = (\<lambda>u. if ly u = FatRegion then view (c', d') u else content_of ly s u)"
    and "same_setup capacity s s'"
proof -
  have V': "ready (data_blocks s, fs_dev s)" "held_by ly DataRegion (data_blocks s)"
    "ready (fat_cache (fs_fat s), fs_dev s)" "held_by ly FatRegion (fat_cache (fs_fat s))"
    "ready (alloc_cache (fs_allocator s), fs_dev s)" "held_by ly BitmapRegion (alloc_cache (fs_allocator s))"
    using V by (simp_all add: volume_ok_def)
  note f = other_cache [OF V'(3,4) c' cap out V'(1,2)] and a = other_cache [OF V'(3,4) c' cap out V'(5,6)]
  show "vol_ok ly s'" using c' f(1) a(1) V' by (simp add: volume_ok_def s')
  show "content_of ly s' = (\<lambda>u. if ly u = FatRegion then view (c', d') u else content_of ly s u)"
  proof
    show "content_of ly s' u = (if ly u = FatRegion then view (c', d') u else content_of ly s u)" for u
      using f(2) [of u] a(2) [of u] by (cases "ly u") (simp_all add: medium_def s')
  qed
  show "same_setup capacity s s'" using cap by (simp add: same_setup_def s')
qed

lemma alloc_step:
  assumes V: "vol_ok ly s" and c': "ready (c', d')" "held_by ly BitmapRegion c'" and cap: "capacity d' = capacity (fs_dev s)"
    and out: "\<And>u. ly u \<noteq> BitmapRegion \<Longrightarrow> view (c', d') u = view (alloc_cache (fs_allocator s), fs_dev s) u"
    and s': "s' = s\<lparr>fs_allocator := (fs_allocator s)\<lparr>alloc_cache := c'\<rparr>, fs_dev := d'\<rparr>"
  shows "vol_ok ly s'" and "content_of ly s' = (\<lambda>u. if ly u = BitmapRegion then view (c', d') u else content_of ly s u)"
    and "same_setup capacity s s'"
proof -
  have V': "ready (data_blocks s, fs_dev s)" "held_by ly DataRegion (data_blocks s)"
    "ready (fat_cache (fs_fat s), fs_dev s)" "held_by ly FatRegion (fat_cache (fs_fat s))"
    "ready (alloc_cache (fs_allocator s), fs_dev s)" "held_by ly BitmapRegion (alloc_cache (fs_allocator s))"
    using V by (simp_all add: volume_ok_def)
  note f = other_cache [OF V'(5,6) c' cap out V'(3,4)] and a = other_cache [OF V'(5,6) c' cap out V'(1,2)]
  show "vol_ok ly s'" using c' f(1) a(1) V' by (simp add: volume_ok_def s')
  show "content_of ly s' = (\<lambda>u. if ly u = BitmapRegion then view (c', d') u else content_of ly s u)"
  proof
    show "content_of ly s' u = (if ly u = BitmapRegion then view (c', d') u else content_of ly s u)" for u
      using f(2) [of u] a(2) [of u] by (cases "ly u") (simp_all add: medium_def s')
  qed
  show "same_setup capacity s s'" using cap by (simp add: same_setup_def s')
qed

text \<open>Reading and changing a data sector.\<close>

lemma volume_read:
  assumes V: "vol_ok ly s" and sec: "ly sec = DataRegion" "unat sec < capacity (fs_dev s)"
  obtains s' where "on_data (read_sector P sec) s = (Ok (content_of ly s sec), s')" and "vol_ok ly s'"
    and "content_of ly s' = content_of ly s" and "same_setup capacity s s'" and "clock s' = clock s"
proof -
  have rdy: "ready (data_blocks s, fs_dev s)" and held: "held_by ly DataRegion (data_blocks s)"
    using V by (simp_all add: volume_ok_def)
  obtain c' d' where r: "read_sector P sec (data_blocks s, fs_dev s) = (Ok (view (data_blocks s, fs_dev s) sec), c', d')"
    "ready (c', d')" "view (c', d') = view (data_blocks s, fs_dev s)" "capacity d' = capacity (fs_dev s)"
    using read_sector_total [OF rdy, of sec] sec(2) by (metis prod.collapse snd_conv)
  have "held_by ly DataRegion c'"
    using read_sector_holds [OF rdy r(1)] held sec(1) by (fastforce simp: held_by_def)
  note S = data_step [OF V r(2) this r(4) _ refl]
  define s' where "s' = s\<lparr>data_blocks := c', fs_dev := d'\<rparr>"
  have "on_data (read_sector P sec) s = (Ok (content_of ly s sec), s')"
    using r(1) sec(1) by (simp add: on_data_def zoom_def medium_def s'_def)
  moreover have "content_of ly s' = content_of ly s"
    using S(2) r(3) by (auto simp: s'_def medium_def fun_eq_iff)
  ultimately show thesis using that S(1,3) r(3) by (simp add: s'_def)
qed

lemma volume_update:
  assumes V: "vol_ok ly s" and sec: "ly sec = DataRegion" "unat sec < capacity (fs_dev s)"
    and b: "f (content_of ly s sec) = Some b" "length b = SIZE P"
  obtains s' where "on_data (update_sector P sec f) s = (Ok (), s')" and "vol_ok ly s'"
    and "content_of ly s' = (content_of ly s)(sec := b)" and "same_setup capacity s s'" and "clock s' = clock s"
proof -
  have rdy: "ready (data_blocks s, fs_dev s)" and held: "held_by ly DataRegion (data_blocks s)"
    using V by (simp_all add: volume_ok_def)
  have f: "f (view (data_blocks s, fs_dev s) sec) = Some b" using b(1) sec(1) by (simp add: medium_def)
  obtain c' d' where r: "update_sector P sec f (data_blocks s, fs_dev s) = (Ok (), c', d')"
    "ready (c', d')" "view (c', d') = (view (data_blocks s, fs_dev s))(sec := b)" "capacity d' = capacity (fs_dev s)"
    using update_sector_total [of "(data_blocks s, fs_dev s)" sec f b] rdy sec(2) f b(2) by (metis prod.collapse snd_conv)
  have "held_by ly DataRegion c'"
    using update_sector_holds [OF rdy r(1)] held sec(1) by (fastforce simp: held_by_def)
  note S = data_step [OF V r(2) this r(4) _ refl]
  define s' where "s' = s\<lparr>data_blocks := c', fs_dev := d'\<rparr>"
  have out: "view (c', d') u = view (data_blocks s, fs_dev s) u" if "ly u \<noteq> DataRegion" for u
    using that r(3) sec(1) by auto
  have "content_of ly s' = (content_of ly s)(sec := b)"
    using S(2) [OF out] r(3) sec(1) by (auto simp: s'_def medium_def fun_eq_iff)
  then show thesis using that r(1) S(1,3) [OF out] by (simp add: on_data_def zoom_def s'_def)
qed

text \<open>Following the FAT.\<close>

lemma volume_next_cluster:
  assumes V: "vol_ok ly s" and off: "start_of_fat_sector (fs_fat s) = Some off" and sz: "fat_sizes_ok P" and c: "2 \<le> c"
    and sec: "ly (fat_sector_of P off c) = FatRegion" "unat (fat_sector_of P off c) < capacity (fs_dev s)"
  obtains s' where "on_fat (next_cluster_in_fat_chain P c) s =
      (Ok (decode_entry (fat_entry_at P off (content_of ly s) c)), s')" and "vol_ok ly s'"
    and "content_of ly s' = content_of ly s" and "same_setup capacity s s'" and "clock s' = clock s"
proof -
  let ?c = "fat_cache (fs_fat s)"
  have rdy: "ready (?c, fs_dev s)" and held: "held_by ly FatRegion ?c"
    using V by (simp_all add: volume_ok_def)
  obtain c' d' where r: "read_sector P (fat_sector_of P off c) (?c, fs_dev s) = (Ok (view (?c, fs_dev s) (fat_sector_of P off c)), c', d')"
    "ready (c', d')" "view (c', d') = view (?c, fs_dev s)" "capacity d' = capacity (fs_dev s)"
    using read_sector_total [OF rdy, of "fat_sector_of P off c"] sec(2) by (metis prod.collapse snd_conv)
  have "held_by ly FatRegion c'"
    using read_sector_holds [OF rdy r(1)] held sec(1) by (fastforce simp: held_by_def)
  note S = fat_step [OF V r(2) this r(4) _ refl]
  define s' where "s' = s\<lparr>fs_fat := (fs_fat s)\<lparr>fat_cache := c'\<rparr>, fs_dev := d'\<rparr>"
  have "next_cluster_in_fat_chain P c (fs_fat s, fs_dev s) =
      (Ok (decode_entry (entry_in P c (view (?c, fs_dev s) (fat_sector_of P off c)))), (fs_fat s)\<lparr>fat_cache := c'\<rparr>, d')"
    by (rule next_cluster_eval [OF off sz c r(1)]) (rule store.content_length [OF rdy])
  then have "on_fat (next_cluster_in_fat_chain P c) s =
      (Ok (decode_entry (fat_entry_at P off (content_of ly s) c)), s')"
    using sec(1) by (simp add: on_fat_def zoom_def fat_entry_at_view medium_def s'_def)
  moreover have "content_of ly s' = content_of ly s"
    using S(2) r(3) by (auto simp: s'_def medium_def fun_eq_iff)
  ultimately show thesis using that S(1,3) r(3) by (simp add: s'_def)
qed

lemma volume_sector_length:
  assumes "vol_ok ly s"
  shows "length (content_of ly s u) = SIZE P"
  using assms store.content_length by (cases "ly u") (simp_all add: medium_def volume_ok_def)

end

end
