(* ===== verification/Directory_Walk.thy ===== *)
theory Directory_Walk
  imports Directory Volume_View
begin

text \<open>
  What a walk over a directory sees (\<open>DirectoryEntryChain\<close> of \<open>directory_entry.rs\<close>): the entries of its clusters in the
  order of the FAT chain, one list, whatever the caches hold.
\<close>

section \<open>The entries of a directory\<close>

definition heap_sector :: "file_system_details \<Rightarrow> u32 \<Rightarrow> u32" where
  "heap_sector fsd c = fsd_cluster_heap_offset fsd + (c - 2) * fsd_sectors_per_cluster fsd"

lemma get_heap_sector: "2 \<le> c \<Longrightarrow> get_heap_sector_id fsd c s = (Ok (heap_sector fsd c), s)"
  by (simp add: get_heap_sector_id_def heap_sector_def ret_def linorder_not_le [symmetric])

abbreviation spc_of :: "file_system_details \<Rightarrow> nat" where
  "spc_of fsd \<equiv> unat (fsd_sectors_per_cluster fsd)"

text \<open>Sector \<open>q\<close>, entry \<open>k\<close> and its location in a directory of the clusters \<open>cs\<close>.\<close>

definition dir_sector :: "file_system_details \<Rightarrow> u32 list \<Rightarrow> nat \<Rightarrow> u32" where
  "dir_sector fsd cs q = heap_sector fsd (cs ! (q div spc_of fsd)) + of_nat (q mod spc_of fsd)"

definition dir_entry :: "('d, 'e) platform \<Rightarrow> file_system_details \<Rightarrow> u32 list \<Rightarrow> (u32 \<Rightarrow> block) \<Rightarrow> nat \<Rightarrow> raw_dir_entry" where
  "dir_entry P fsd cs v k = as_chunks RAW_ENTRY_LEN (v (dir_sector fsd cs (k div dir_entries_per_block P))) !
     (k mod dir_entries_per_block P)"

definition dir_location :: "('d, 'e) platform \<Rightarrow> file_system_details \<Rightarrow> u32 list \<Rightarrow> nat \<Rightarrow> location" where
  "dir_location P fsd cs k = \<lparr>sector_id = dir_sector fsd cs (k div dir_entries_per_block P),
     dir_entry_offset = k mod dir_entries_per_block P\<rparr>"

definition dir_size :: "('d, 'e) platform \<Rightarrow> file_system_details \<Rightarrow> u32 list \<Rightarrow> nat" where
  "dir_size P fsd cs = length cs * spc_of fsd * dir_entries_per_block P"

definition dir_items :: "('d, 'e) platform \<Rightarrow> file_system_details \<Rightarrow> u32 list \<Rightarrow> (u32 \<Rightarrow> block) \<Rightarrow>
    (raw_dir_entry \<times> location) list" where
  "dir_items P fsd cs v = map (\<lambda>k. (dir_entry P fsd cs v k, dir_location P fsd cs k)) [0..<dir_size P fsd cs]"

lemma length_dir_items [simp]: "length (dir_items P fsd cs v) = dir_size P fsd cs"
  by (simp add: dir_items_def)

lemma dir_items_nth:
  "k < dir_size P fsd cs \<Longrightarrow> dir_items P fsd cs v ! k = (dir_entry P fsd cs v k, dir_location P fsd cs k)"
  by (simp add: dir_items_def)

text \<open>The clusters are linked in the FAT, the last one ends the chain, and all sectors are where they belong.\<close>

definition directory_at :: "('d, 'e) platform \<Rightarrow> layout \<Rightarrow> nat \<Rightarrow> u32 \<Rightarrow> (u32 \<Rightarrow> block) \<Rightarrow> file_system_details \<Rightarrow>
    u32 list \<Rightarrow> bool" where
  "directory_at P ly cap off v fsd cs \<longleftrightarrow> cs \<noteq> [] \<and> fat_sizes_ok P \<and> 0 < spc_of fsd \<and> RAW_ENTRY_LEN \<le> SIZE P \<and>
     (\<forall>i < length cs. 2 \<le> cs ! i \<and> ly (fat_sector_of P off (cs ! i)) = FatRegion \<and>
        unat (fat_sector_of P off (cs ! i)) < cap \<and>
        decode_entry (fat_entry_at P off v (cs ! i)) = (if Suc i < length cs then Some (cs ! Suc i) else None)) \<and>
     (\<forall>q < length cs * spc_of fsd. ly (dir_sector fsd cs q) = DataRegion \<and> unat (dir_sector fsd cs q) < cap)"

lemma directory_atD:
  assumes "directory_at P ly cap off v fsd cs"
  shows "cs \<noteq> []" and "fat_sizes_ok P" and "0 < spc_of fsd" and "0 < dir_entries_per_block P"
    and "i < length cs \<Longrightarrow> 2 \<le> cs ! i" and "i < length cs \<Longrightarrow> ly (fat_sector_of P off (cs ! i)) = FatRegion"
    and "i < length cs \<Longrightarrow> unat (fat_sector_of P off (cs ! i)) < cap"
    and "i < length cs \<Longrightarrow> decode_entry (fat_entry_at P off v (cs ! i)) = (if Suc i < length cs then Some (cs ! Suc i) else None)"
    and "q < length cs * spc_of fsd \<Longrightarrow> ly (dir_sector fsd cs q) = DataRegion"
    and "q < length cs * spc_of fsd \<Longrightarrow> unat (dir_sector fsd cs q) < cap"
  using assms by (auto simp: directory_at_def dir_entries_per_block_def RAW_ENTRY_LEN_def div_greater_zero_iff)

text \<open>An operation that only looks: the content and the setup of the volume are as before.\<close>

definition only_looked :: "('d, 'e) platform \<Rightarrow> ('d \<Rightarrow> u32 \<Rightarrow> block) \<Rightarrow> ('d \<Rightarrow> nat) \<Rightarrow> ('d \<Rightarrow> bool) \<Rightarrow> layout \<Rightarrow>
    'd file_system \<Rightarrow> 'd file_system \<Rightarrow> bool" where
  "only_looked P sector capacity dev_ok ly s s' \<longleftrightarrow> volume_ok P sector capacity dev_ok ly s' \<and>
     medium sector ly s' = medium sector ly s \<and> same_setup capacity s s' \<and> clock s' = clock s"

section \<open>The position of a walk\<close>

text \<open>
  A walk that has delivered \<open>k\<close> entries: it is about to fetch the sector of entry \<open>k\<close>, or still holds the sector of the
  entry it delivered last.
\<close>

definition at_entry :: "('d, 'e) platform \<Rightarrow> u32 list \<Rightarrow> nat \<Rightarrow> nat \<Rightarrow> dir_chain \<Rightarrow> bool" where
  "at_entry P cs q j ch \<longleftrightarrow> dc_cluster_id ch = cs ! (q div spc_of (dc_fs ch)) \<and>
     dc_cluster_offset ch = q mod spc_of (dc_fs ch) \<and> dc_dir_entry_offset ch = j"

definition walk_at :: "('d, 'e) platform \<Rightarrow> file_system_details \<Rightarrow> u32 list \<Rightarrow> (u32 \<Rightarrow> block) \<Rightarrow> nat \<Rightarrow> dir_chain \<Rightarrow> bool" where
  "walk_at P fsd cs v k ch \<longleftrightarrow> dc_fs ch = fsd \<and>
     (if dc_fetch_required ch
      then k < dir_size P fsd cs \<and> at_entry P cs (k div dir_entries_per_block P) (k mod dir_entries_per_block P) ch
      else \<exists>k0. k = Suc k0 \<and> k \<le> dir_size P fsd cs \<and>
        at_entry P cs (k0 div dir_entries_per_block P) (Suc (k0 mod dir_entries_per_block P)) ch \<and>
        dc_buf ch = v (dir_sector fsd cs (k0 div dir_entries_per_block P)))"

lemma sector_less:
  assumes "k < dir_size P fsd cs"
  shows "k div dir_entries_per_block P < length cs * spc_of fsd"
  using assms by (simp add: dir_size_def less_mult_imp_div_less)

lemma cluster_less:
  assumes "k < dir_size P fsd cs"
  shows "k div dir_entries_per_block P div spc_of fsd < length cs"
  using sector_less [OF assms] by (rule less_mult_imp_div_less)

text \<open>The successor of an index in a grid of rows.\<close>

lemma Suc_in_row:
  fixes k n :: nat
  assumes "Suc (k mod n) < n"
  shows "Suc k div n = k div n" and "Suc k mod n = Suc (k mod n)"
  using assms by (simp_all add: div_Suc mod_Suc)

lemma Suc_next_row:
  fixes k n :: nat
  assumes "0 < n" and "\<not> Suc (k mod n) < n"
  shows "Suc k div n = Suc (k div n)" and "Suc k mod n = 0"
proof -
  have "Suc (k mod n) = n" using assms mod_less_divisor [of n k] by linarith
  then show "Suc k div n = Suc (k div n)" and "Suc k mod n = 0" by (simp_all add: div_Suc mod_Suc)
qed

context reliable_device
begin

abbreviation looked :: "layout \<Rightarrow> 'd file_system \<Rightarrow> 'd file_system \<Rightarrow> bool" where
  "looked \<equiv> only_looked P sector capacity dev_ok"

lemma looked_refl: "vol_ok ly s \<Longrightarrow> looked ly s s"
  by (simp add: only_looked_def)

lemma looked_trans: "looked ly a b \<Longrightarrow> looked ly b c \<Longrightarrow> looked ly a c"
  by (auto simp: only_looked_def intro: same_setup_trans)

lemma lookedD:
  assumes "looked ly s s'"
  shows "vol_ok ly s'" and "content_of ly s' = content_of ly s" and "fs_details s' = fs_details s"
    and "fs_upcase s' = fs_upcase s" and "start_of_fat_sector (fs_fat s') = start_of_fat_sector (fs_fat s)"
    and "capacity (fs_dev s') = capacity (fs_dev s)" and "is_mounted s' = is_mounted s"
  using assms same_setupD [of capacity s s'] by (simp_all add: only_looked_def)

text \<open>The end of a sector and of a cluster.\<close>

lemma walk_advance:
  assumes V: "vol_ok ly s" and off: "start_of_fat_sector (fs_fat s) = Some off"
    and D: "directory_at P ly (capacity (fs_dev s)) off (content_of ly s) fsd cs"
    and w: "walk_at P fsd cs (content_of ly s) k ch"
  obtains ch' s' where "chain_advance_cluster P (chain_advance_sector P ch, s) = (Ok (k < dir_size P fsd cs), ch', s')"
    and "looked ly s s'" and "dc_num_entries ch' = dc_num_entries ch" and "dc_cursor ch' = dc_cursor ch"
    and "k < dir_size P fsd cs \<Longrightarrow> dc_fs ch' = fsd \<and>
      at_entry P cs (k div dir_entries_per_block P) (k mod dir_entries_per_block P) ch' \<and>
      (dc_fetch_required ch' \<or> dc_buf ch' = content_of ly s (dir_sector fsd cs (k div dir_entries_per_block P)))"
proof -
  let ?n = "dir_entries_per_block P" and ?m = "spc_of fsd"
  note D' = directory_atD [OF D]
  have fs: "dc_fs ch = fsd" using w by (simp add: walk_at_def)
  show thesis
  proof (cases "dc_fetch_required ch")
    case True
    then have a: "k < dir_size P fsd cs" "at_entry P cs (k div ?n) (k mod ?n) ch" using w by (simp_all add: walk_at_def)
    have adv: "chain_advance_sector P ch = ch" using a(2) mod_less_divisor [OF D'(4), of k] by (simp add: chain_advance_sector_def at_entry_def)
    have "chain_advance_cluster P (ch, s) = (Ok True, ch, s)"
      using a(2) mod_less_divisor [OF D'(3), of "k div ?n"]
      by (simp add: chain_advance_cluster_def andthen_gets at_entry_def fs ret_def)
    then show thesis using that [of ch s] a fs True V looked_refl adv by simp
  next
    case False
    then obtain k0 where k: "k = Suc k0" "k \<le> dir_size P fsd cs" and a: "at_entry P cs (k0 div ?n) (Suc (k0 mod ?n)) ch"
      and b: "dc_buf ch = content_of ly s (dir_sector fsd cs (k0 div ?n))" using w by (auto simp: walk_at_def)
    show thesis
    proof (cases "Suc (k0 mod ?n) < ?n")
      case True
      note k' = Suc_in_row [OF True]
      have "k < dir_size P fsd cs"
      proof (rule ccontr)
        assume "\<not> k < dir_size P fsd cs"
        then have "k mod ?n = 0" using k(2) by (simp add: dir_size_def)
        then show False using k'(2) k(1) by simp
      qed
      moreover have "chain_advance_sector P ch = ch" using a True by (simp add: chain_advance_sector_def at_entry_def)
      moreover have "chain_advance_cluster P (ch, s) = (Ok True, ch, s)"
        using a mod_less_divisor [OF D'(3), of "k0 div ?n"]
        by (simp add: chain_advance_cluster_def andthen_gets at_entry_def fs ret_def)
      ultimately show thesis using that [of ch s] a b fs V looked_refl k' by (simp add: k(1))
    next
      case row: False
      note k' = Suc_next_row [OF D'(4) row]
      let ?ch = "ch\<lparr>dc_cluster_offset := dc_cluster_offset ch + 1, dc_dir_entry_offset := 0, dc_fetch_required := True\<rparr>"
      have adv: "chain_advance_sector P ch = ?ch" using a row by (simp add: chain_advance_sector_def at_entry_def not_less)
      have off': "dc_cluster_offset ch = k0 div ?n mod ?m" and cid: "dc_cluster_id ch = cs ! (k0 div ?n div ?m)"
        using a by (simp_all add: at_entry_def fs)
      have k0: "k0 < dir_size P fsd cs" using k by simp
      let ?i = "k0 div ?n div ?m"
      have i: "?i < length cs" by (rule cluster_less [OF k0])
      show thesis
      proof (cases "Suc (k0 div ?n mod ?m) < ?m")
        case True
        note q = Suc_in_row [OF True]
        have "k < dir_size P fsd cs"
        proof (rule ccontr)
          assume "\<not> k < dir_size P fsd cs"
          then have "k div ?n = length cs * ?m" using k(2) D'(4) by (simp add: dir_size_def)
          then show False using q(2) k'(1) k(1) by simp
        qed
        moreover have "chain_advance_cluster P (?ch, s) = (Ok True, ?ch, s)"
          using True by (simp add: chain_advance_cluster_def andthen_gets fs off' not_le ret_def)
        ultimately show thesis using that [of ?ch s] fs V looked_refl k' q cid adv by (simp add: k(1) at_entry_def off')
      next
        case last: False
        note q = Suc_next_row [OF D'(3) last]
        obtain s' where n: "on_fat (next_cluster_in_fat_chain P (cs ! ?i)) s =
            (Ok (decode_entry (fat_entry_at P off (content_of ly s) (cs ! ?i))), s')"
          and s': "vol_ok ly s'" "content_of ly s' = content_of ly s" "same_setup capacity s s'" "clock s' = clock s"
          using volume_next_cluster [OF V off D'(2) D'(5) [OF i] D'(6) [OF i] D'(7) [OF i]] by metis
        have lk: "looked ly s s'" using s' by (simp add: only_looked_def)
        have more: "Suc ?i < length cs \<longleftrightarrow> k < dir_size P fsd cs"
        proof
          assume "Suc ?i < length cs"
          then have "Suc ?i * ?m < length cs * ?m" using D'(3) by (rule mult_less_mono1)
          moreover have "k div ?n = Suc ?i * ?m"
            using q k'(1) k(1) by (metis div_mult_mod_eq add.right_neutral)
          ultimately have "k div ?n < length cs * ?m" by simp
          then have "k div ?n * ?n < length cs * ?m * ?n" using D'(4) by (rule mult_less_mono1)
          moreover have "k div ?n * ?n = k" using k'(2) k(1) by (metis div_mult_mod_eq add.right_neutral)
          ultimately show "k < dir_size P fsd cs" by (simp add: dir_size_def)
        next
          assume "k < dir_size P fsd cs"
          from cluster_less [OF this] show "Suc ?i < length cs" using q(1) k'(1) k(1) by simp
        qed
        let ?ch2 = "?ch\<lparr>dc_cluster_id := cs ! Suc ?i, dc_cluster_offset := 0, dc_dir_entry_offset := 0, dc_fetch_required := True\<rparr>"
        have z: "zoom snd (\<lambda>s' (c, s). (c, s')) (on_fat (next_cluster_in_fat_chain P (dc_cluster_id ch))) (?ch, s) =
            (Ok (if Suc ?i < length cs then Some (cs ! Suc ?i) else None), ?ch, s')"
          unfolding cid zoom_def snd_conv n D'(8) [OF i] by simp
        have "chain_advance_cluster P (?ch, s) =
            (Ok (k < dir_size P fsd cs), if Suc ?i < length cs then ?ch2 else ?ch, s')"
          using last z more
          by (simp add: chain_advance_cluster_def gets_def fs off' not_less andthen_def modify_def ret_def)
        then show thesis
          using that [of "if Suc ?i < length cs then ?ch2 else ?ch" s'] lk fs q k' more adv
          by (simp add: k(1) at_entry_def)
      qed
    qed
  qed
qed

lemma current_sector_at:
  assumes "at_entry P cs q j ch" and "dc_fs ch = fsd" and "2 \<le> cs ! (q div spc_of fsd)"
  shows "chain_current_sector_id ch st = (Ok (dir_sector fsd cs q), st)"
  using assms
  by (simp add: chain_current_sector_id_def get_heap_sector_id_def at_entry_def andthen_def ret_def dir_sector_def
      heap_sector_def not_less [symmetric])

text \<open>Entry \<open>k\<close> is delivered, with its location; behind the last entry there is nothing.\<close>

lemma walk_next:
  assumes V: "vol_ok ly s" and off: "start_of_fat_sector (fs_fat s) = Some off"
    and D: "directory_at P ly (capacity (fs_dev s)) off (content_of ly s) fsd cs"
    and w: "walk_at P fsd cs (content_of ly s) k ch" and num: "dc_num_entries ch \<noteq> Some (dc_cursor ch)"
  obtains ch' s' where "chain_next P (ch, s) = (Ok (if k < dir_size P fsd cs
        then Some (dir_entry P fsd cs (content_of ly s) k, dir_location P fsd cs k) else None), ch', s')"
    and "looked ly s s'" and "dc_num_entries ch' = dc_num_entries ch"
    and "k < dir_size P fsd cs \<Longrightarrow> walk_at P fsd cs (content_of ly s) (Suc k) ch' \<and> dc_cursor ch' = Suc (dc_cursor ch)"
proof -
  let ?n = "dir_entries_per_block P" and ?v = "content_of ly s"
  note D' = directory_atD [OF D]
  obtain ch1 s1 where a: "chain_advance_cluster P (chain_advance_sector P ch, s) = (Ok (k < dir_size P fsd cs), ch1, s1)"
    and lk: "looked ly s s1" and num1: "dc_num_entries ch1 = dc_num_entries ch" "dc_cursor ch1 = dc_cursor ch"
    and at: "k < dir_size P fsd cs \<Longrightarrow> dc_fs ch1 = fsd \<and> at_entry P cs (k div ?n) (k mod ?n) ch1 \<and>
      (dc_fetch_required ch1 \<or> dc_buf ch1 = ?v (dir_sector fsd cs (k div ?n)))"
    by (rule walk_advance [OF V off D w]) (rule that; assumption)
  have m: "modify (\<lambda>(c, s). (chain_advance_sector P c, s)) (ch, s) = (Ok (), chain_advance_sector P ch, s)"
    by (simp add: modify_def)
  note steps = chain_next_def [of P] andthen_gets fst_conv if_not_P [OF num] andthen_Ok [where m = "modify _", OF m]
    andthen_Ok [where m = "chain_advance_cluster P", OF a]
  show thesis
  proof (cases "k < dir_size P fsd cs")
    case False
    then show thesis
      using that [of ch1 s1] lk num1(1) unfolding steps by (simp add: ret_def)
  next
    case k: True
    let ?sec = "dir_sector fsd cs (k div ?n)" and ?e = "dir_entry P fsd cs ?v k"
    have q: "k div ?n < length cs * spc_of fsd" and i: "k div ?n div spc_of fsd < length cs"
      using sector_less [OF k] cluster_less [OF k] .
    have at1: "dc_fs ch1 = fsd" "at_entry P cs (k div ?n) (k mod ?n) ch1" using at [OF k] by simp_all
    note cur = current_sector_at [OF at1(2,1) D'(5) [OF i]]
    obtain ch2 s2 where f: "chain_fetch P (ch1, s1) = (Ok (), ch2, s2)" and lk2: "looked ly s s2"
      and ch2: "ch2 = ch1\<lparr>dc_buf := ?v ?sec, dc_fetch_required := False\<rparr>"
    proof (cases "dc_fetch_required ch1")
      case True
      have cap: "unat ?sec < capacity (fs_dev s1)" using D'(10) [OF q] lookedD(6) [OF lk] by simp
      obtain s2 where r: "on_data (read_sector P ?sec) s1 = (Ok (content_of ly s1 ?sec), s2)"
        and s2: "vol_ok ly s2" "content_of ly s2 = content_of ly s1" "same_setup capacity s1 s2" "clock s2 = clock s1"
        using volume_read [OF lookedD(1) [OF lk] D'(9) [OF q] cap] by metis
      have "looked ly s1 s2" using s2 by (simp add: only_looked_def)
      then have "looked ly s s2" by (rule looked_trans [OF lk])
      moreover have "zoom snd (\<lambda>s' (c, s). (c, s')) (on_data (read_sector P ?sec)) (ch1, s1) = (Ok (?v ?sec), ch1, s2)"
        using r lookedD(2) [OF lk] by (simp add: zoom_def)
      ultimately show thesis
        using that [of "ch1\<lparr>dc_buf := ?v ?sec, dc_fetch_required := False\<rparr>" s2] True
        by (simp add: chain_fetch_def gets_def andthen_def cur modify_def)
    next
      case False
      then show thesis using that [of ch1 s1] at [OF k] lk by (simp add: chain_fetch_def andthen_gets ret_def)
    qed
    have at2: "dc_fs ch2 = fsd" "at_entry P cs (k div ?n) (k mod ?n) ch2" using at1 by (simp_all add: ch2 at_entry_def)
    note cur2 = current_sector_at [OF at2(2,1) D'(5) [OF i]]
    have "length (?v ?sec) = SIZE P" by (rule volume_sector_length [OF V])
    then have "k mod ?n < length (as_chunks RAW_ENTRY_LEN (?v ?sec))"
      using mod_less_divisor [OF D'(4), of k] by (simp add: dir_entries_per_block_def)
    then have e: "(at (as_chunks RAW_ENTRY_LEN (dc_buf ch2)) (dc_dir_entry_offset ch2) :: ('d, raw_dir_entry, 'e) chain_op) (ch2, s2) = (Ok ?e, ch2, s2)"
      using at2(2) by (simp add: at_entry_def at_def ch2 dir_entry_def ret_def)
    let ?ch3 = "ch2\<lparr>dc_dir_entry_offset := dc_dir_entry_offset ch2 + 1, dc_cursor := dc_cursor ch2 + 1\<rparr>"
    have "chain_next P (ch, s) = (Ok (Some (?e, dir_location P fsd cs k)), ?ch3, s2)"
      unfolding steps andthen_Ok [where m = "chain_fetch P", OF f]
      using k e at2(2)
      by (simp add: andthen_def gets_def modify_def ret_def dir_location_def at_entry_def f cur2)
    moreover have "walk_at P fsd cs ?v (Suc k) ?ch3"
      using k at2 by (auto simp: walk_at_def at_entry_def ch2)
    ultimately show thesis using that [of ?ch3 s2] k lk2 num1 by (simp add: ch2)
  qed
qed

end

end
