(* ===== verification/File_Chain.thy ===== *)
theory File_Chain
  imports File_Content Directory_Walk
begin

text \<open>
  Files whose clusters are anywhere on the volume: a list of clusters, consecutive or linked in the FAT. Byte \<open>i\<close> of the
  file is in cluster \<open>i div cluster_length\<close> of the list; \<open>read\<close> and \<open>read_to_end\<close> deliver these bytes, following
  the FAT through its cache, and \<open>seek\<close> finds the cluster of any byte of the file.
\<close>

section \<open>The bytes of a list of clusters\<close>

definition chain_byte :: "('d, 'e) platform \<Rightarrow> (u32 \<Rightarrow> block) \<Rightarrow> file_system_details \<Rightarrow> u32 list \<Rightarrow> u64 \<Rightarrow> nat \<Rightarrow> u8" where
  "chain_byte P v fsd cls valid i =
     (if i < unat valid then v (dir_sector fsd cls (i div SIZE P)) ! (i mod SIZE P) else 0)"

text \<open>All sectors of the clusters are data sectors of the device.\<close>

definition clusters_placed :: "layout \<Rightarrow> nat \<Rightarrow> file_system_details \<Rightarrow> u32 list \<Rightarrow> bool" where
  "clusters_placed ly cap fsd cls \<longleftrightarrow> (\<forall>c \<in> set cls. 2 \<le> c) \<and>
     (\<forall>q < length cls * spc_of fsd. ly (dir_sector fsd cls q) = DataRegion \<and> unat (dir_sector fsd cls q) < cap)"

text \<open>Each cluster but the last is linked to the next one.\<close>

definition clusters_linked :: "('d, 'e) platform \<Rightarrow> layout \<Rightarrow> nat \<Rightarrow> u32 \<Rightarrow> (u32 \<Rightarrow> block) \<Rightarrow> u32 list \<Rightarrow> bool" where
  "clusters_linked P ly cap off v cls \<longleftrightarrow> fat_sizes_ok P \<and>
     (\<forall>i. Suc i < length cls \<longrightarrow> ly (fat_sector_of P off (cls ! i)) = FatRegion \<and> unat (fat_sector_of P off (cls ! i)) < cap \<and>
        decode_entry (fat_entry_at P off v (cls ! i)) = Some (cls ! Suc i))"

definition clusters_follow :: "u32 \<Rightarrow> u32 list \<Rightarrow> bool" where
  "clusters_follow first cls \<longleftrightarrow> unat first + length cls < 2 ^ 32 \<and> (\<forall>i < length cls. unat (cls ! i) = unat first + i)"

definition chain_of :: "('d, 'e) platform \<Rightarrow> ('d \<Rightarrow> u32 \<Rightarrow> block) \<Rightarrow> ('d \<Rightarrow> nat) \<Rightarrow> layout \<Rightarrow> 'd file_system \<Rightarrow> u32 list \<Rightarrow>
    stored_chain \<Rightarrow> bool" where
  "chain_of P sector capacity ly s cls ch \<longleftrightarrow> (case ch of
     StoredEmpty \<Rightarrow> cls = []
   | StoredContiguous first n \<Rightarrow> unat n = length cls \<and> clusters_follow first cls
   | StoredFat first last_cluster n \<Rightarrow> unat n = length cls \<and> cls \<noteq> [] \<and> first = hd cls \<and>
       (\<exists>off. start_of_fat_sector (fs_fat s) = Some off \<and>
          clusters_linked P ly (capacity (fs_dev s)) off (medium sector ly s) cls))"

text \<open>The cluster of the cursor and the bytes left in it.\<close>

definition chain_cursor :: "file_system_details \<Rightarrow> u32 list \<Rightarrow> open_file \<Rightarrow> bool" where
  "chain_cursor fsd cls f \<longleftrightarrow>
     (let c = unat (cursor f); cl = unat (fsd_cluster_length fsd) in
      if remaining_bytes_in_cluster f = 0
      then 0 < c \<and> c mod cl = 0 \<and> c div cl \<le> length cls \<and> current_cluster f = cls ! (c div cl - 1)
      else c div cl < length cls \<and> unat (remaining_bytes_in_cluster f) = cl - c mod cl \<and> current_cluster f = cls ! (c div cl))"

definition chained_file :: "('d, 'e) platform \<Rightarrow> ('d \<Rightarrow> u32 \<Rightarrow> block) \<Rightarrow> ('d \<Rightarrow> nat) \<Rightarrow> ('d \<Rightarrow> bool) \<Rightarrow> layout \<Rightarrow> u32 list \<Rightarrow>
    open_file \<Rightarrow> 'd file_system \<Rightarrow> bool" where
  "chained_file P sector capacity dev_ok ly cls f s \<longleftrightarrow>
     volume_ok P sector capacity dev_ok ly s \<and> geometry_ok P (fs_details s) \<and>
     clusters_placed ly (capacity (fs_dev s)) (fs_details s) cls \<and> chain_of P sector capacity ly s cls (chain f) \<and>
     unat (data_length (details f)) \<le> length cls * unat (fsd_cluster_length (fs_details s)) \<and>
     unat (valid_data_length (details f)) < 2 ^ usize_bits P \<and> chain_cursor (fs_details s) cls f"

lemma chained_fileD:
  assumes "chained_file P sector capacity dev_ok ly cls f s"
  shows "volume_ok P sector capacity dev_ok ly s" and "geometry_ok P (fs_details s)"
    and "clusters_placed ly (capacity (fs_dev s)) (fs_details s) cls" and "chain_of P sector capacity ly s cls (chain f)"
    and "unat (data_length (details f)) \<le> length cls * unat (fsd_cluster_length (fs_details s))"
    and "unat (valid_data_length (details f)) < 2 ^ usize_bits P" and "chain_cursor (fs_details s) cls f"
  using assms by (simp_all add: chained_file_def)

text \<open>The sector arithmetic of the code.\<close>

lemma chain_sector:
  assumes g: "geometry_ok P fsd" and cc: "cc = cls ! (unat cur div unat (fsd_cluster_length fsd))"
  shows "fsd_cluster_heap_offset fsd + (cc - 2) * fsd_sectors_per_cluster fsd +
      ucast (cur mod ucast (fsd_cluster_length fsd) :: u64) div of_nat (SIZE P) = dir_sector fsd cls (unat cur div SIZE P)"
proof -
  let ?cl = "unat (fsd_cluster_length fsd)" and ?co = "ucast (cur mod ucast (fsd_cluster_length fsd) :: u64) :: u32"
  have cl: "?cl = SIZE P * spc_of fsd" "0 < ?cl" "SIZE P < 2 ^ 32" "0 < SIZE P" using g by (auto simp: geometry_ok_def)
  have d: "unat cur div SIZE P div spc_of fsd = unat cur div ?cl" "unat cur div SIZE P mod spc_of fsd = unat cur mod ?cl div SIZE P"
    using cl(4) by (simp_all add: cl(1) div_mult2_eq mod_mult2_eq)
  have "unat (?co div of_nat (SIZE P)) = unat cur mod ?cl div SIZE P"
    using cl(3) by (simp add: unat_div cluster_offset_nat [OF cl(2)] unat_of_nat)
  then have "?co div of_nat (SIZE P) = of_nat (unat cur mod ?cl div SIZE P)" by (metis of_nat_unat ucast_id)
  then show ?thesis by (simp only: dir_sector_def heap_sector_def d cc)
qed

lemma chain_sector_less:
  assumes g: "geometry_ok P fsd" and "i < length cls * unat (fsd_cluster_length fsd)"
  shows "i div SIZE P < length cls * spc_of fsd" and "i div unat (fsd_cluster_length fsd) < length cls"
proof -
  have "i < length cls * spc_of fsd * SIZE P" using assms by (simp add: geometry_ok_def algebra_simps)
  then show "i div SIZE P < length cls * spc_of fsd" by (rule less_mult_imp_div_less)
  show "i div unat (fsd_cluster_length fsd) < length cls" using assms(2) by (rule less_mult_imp_div_less)
qed

lemma chain_bytes_in_sector:
  assumes "length b = SIZE P" and "v (dir_sector fsd cls (c div SIZE P)) = b" and "0 < SIZE P"
    and "k \<le> SIZE P - c mod SIZE P" and "c + k \<le> unat valid"
  shows "take k (drop (c mod SIZE P) b) = map (chain_byte P v fsd cls valid) [c..<c + k]"
proof (rule nth_equalityI)
  have m: "c mod SIZE P < SIZE P" using assms(3) by simp
  show len: "length (take k (drop (c mod SIZE P) b)) = length (map (chain_byte P v fsd cls valid) [c..<c + k])"
    using assms(1,4) m by simp
  fix j assume "j < length (take k (drop (c mod SIZE P) b))"
  then have j: "j < k" using len by simp
  have "c mod SIZE P + j < SIZE P" using j assms(4) by linarith
  from step_in_block [OF this] show "take k (drop (c mod SIZE P) b) ! j = map (chain_byte P v fsd cls valid) [c..<c + k] ! j"
    using j assms(1,2,5) m by (simp add: chain_byte_def)
qed

lemma chain_zeros_past_valid:
  "unat valid \<le> c \<Longrightarrow> replicate k 0 = map (chain_byte P v fsd cls valid) [c..<c + k]"
  by (rule nth_equalityI) (simp_all add: chain_byte_def)

text \<open>Moving over at most the rest of a sector.\<close>

lemma chain_cursor_move:
  assumes g: "geometry_ok P fsd" and lt: "unat (cursor f) div unat (fsd_cluster_length fsd) < length cls"
    and rr: "unat rr = unat (fsd_cluster_length fsd) - unat (cursor f) mod unat (fsd_cluster_length fsd)"
    and cc: "cc = cls ! (unat (cursor f) div unat (fsd_cluster_length fsd))"
    and k: "k \<le> SIZE P - unat (cursor f) mod SIZE P" and fit: "unat (cursor f) + k < 2 ^ 64"
  defines "f' \<equiv> move_file_cursor k (f\<lparr>current_cluster := cc, remaining_bytes_in_cluster := rr\<rparr>)"
  shows "chain_cursor fsd cls f'" and "unat (cursor f') = unat (cursor f) + k"
proof -
  let ?cl = "unat (fsd_cluster_length fsd)" and ?c = "unat (cursor f)"
  have cl: "0 < ?cl" using g by (simp add: geometry_ok_def)
  have km: "k \<le> ?cl - ?c mod ?cl" using k room_in_cluster [OF g] order_trans by blast
  show cu: "unat (cursor f') = ?c + k" using fit by (simp add: f'_def move_file_cursor_def unat_word_ariths unat_of_nat)
  have k32: "k < 2 ^ 32" using km unat_less_length [of "fsd_cluster_length fsd"] by simp
  have rem: "unat (remaining_bytes_in_cluster f') = ?cl - ?c mod ?cl - k"
    using km rr k32 by (simp add: f'_def move_file_cursor_def unat_sub word_le_nat_alt unat_of_nat)
  have cur: "current_cluster f' = cls ! (?c div ?cl)" by (simp add: f'_def move_file_cursor_def cc)
  show "chain_cursor fsd cls f'"
  proof (cases "k = ?cl - ?c mod ?cl")
    case True
    then have z: "remaining_bytes_in_cluster f' = 0" using rem by (simp only: unat_eq_0 [symmetric])
    have "?c mod ?cl + k = ?cl" "0 < k" using True mod_less_divisor [OF cl, of ?c] by simp_all
    then show ?thesis
      using step_to_block_end [OF _ cl, of ?c k] z cur cu lt by (simp add: chain_cursor_def Let_def)
  next
    case False
    then have l: "?c mod ?cl + k < ?cl" using km by simp
    then have "0 < unat (remaining_bytes_in_cluster f')" using rem by linarith
    then have "remaining_bytes_in_cluster f' \<noteq> 0" by auto
    then show ?thesis using step_in_block [OF l] cu rem cur lt by (simp add: chain_cursor_def Let_def)
  qed
qed

section \<open>Reading\<close>

context reliable_device
begin

abbreviation chained :: "layout \<Rightarrow> u32 list \<Rightarrow> open_file \<Rightarrow> 'd file_system \<Rightarrow> bool" where
  "chained \<equiv> chained_file P sector capacity dev_ok"

lemma chain_of_looked: "looked ly s s' \<Longrightarrow> chain_of P sector capacity ly s' cls ch = chain_of P sector capacity ly s cls ch"
  using lookedD [of ly s s'] by (simp add: chain_of_def split: stored_chain.split)

text \<open>The next cluster of a chain, consecutive or linked.\<close>

lemma next_in_chain:
  assumes V: "vol_ok ly s" and ch: "chain_of P sector capacity ly s cls (chain f)"
    and i: "Suc i < length cls" "current_cluster f = cls ! i" and two: "2 \<le> cls ! i"
  obtains s' where "next_cursor_id P (f, s) = (Ok (cls ! Suc i), f, s')" and "looked ly s s'"
proof (cases "chain f")
  case StoredEmpty
  then show ?thesis using ch i(1) by (simp add: chain_of_def)
next
  case (StoredContiguous first n)
  then have C: "unat first + length cls < 2 ^ 32" "unat n = length cls" "unat (cls ! i) = unat first + i" "unat (cls ! Suc i) = unat first + Suc i"
    using ch i(1) by (auto simp: chain_of_def clusters_follow_def)
  have n1: "unat (cls ! i + 1) = unat first + Suc i" using C i(1) by (simp add: unat_word_ariths)
  then have "cls ! i + 1 = cls ! Suc i" using C(4) by (simp add: word_unat_eq_iff)
  moreover have "first \<le> cls ! i + 1" "cls ! i + 1 < first + n"
    using n1 C i(1) by (simp_all add: word_le_nat_alt word_less_nat_alt unat_word_ariths)
  ultimately have "next_cursor_id P (f, s) = (Ok (cls ! Suc i), f, s)"
    using StoredContiguous i(2) by (simp add: next_cursor_id_def the_file_def Let_def ret_def)
  then show ?thesis using that looked_refl [OF V] by blast
next
  case (StoredFat first lst n)
  then obtain off where off: "start_of_fat_sector (fs_fat s) = Some off"
    "clusters_linked P ly (capacity (fs_dev s)) off (content_of ly s) cls" using ch by (auto simp: chain_of_def)
  then have L: "fat_sizes_ok P" "ly (fat_sector_of P off (cls ! i)) = FatRegion"
    "unat (fat_sector_of P off (cls ! i)) < capacity (fs_dev s)"
    "decode_entry (fat_entry_at P off (content_of ly s) (cls ! i)) = Some (cls ! Suc i)"
    using i(1) by (auto simp: clusters_linked_def)
  obtain s' where r: "on_fat (next_cluster_in_fat_chain P (cls ! i)) s = (Ok (Some (cls ! Suc i)), s')" and lk: "looked ly s s'"
    using volume_next_cluster [OF V off(1) L(1) two L(2,3)] L(4) by (auto simp: only_looked_def)
  have "next_cursor_id P (f, s) = (Ok (cls ! Suc i), f, s')"
    using StoredFat i(2) r by (simp add: next_cursor_id_def the_file_def andthen_def gets_def in_fs_def zoom_def ret_def)
  then show ?thesis using that lk by blast
qed

lemma chain_settle:
  assumes F: "chained ly cls f s" and cur: "cursor f < data_length (details f)"
  obtains rr s' where "next_cluster_if_required P (f, s) = (Ok (), f\<lparr>
      current_cluster := cls ! (unat (cursor f) div unat (fsd_cluster_length (fs_details s))), remaining_bytes_in_cluster := rr\<rparr>, s')"
    and "unat rr = unat (fsd_cluster_length (fs_details s)) - unat (cursor f) mod unat (fsd_cluster_length (fs_details s))"
    and "looked ly s s'"
proof -
  note D = chained_fileD [OF F]
  let ?cl = "unat (fsd_cluster_length (fs_details s))" and ?c = "unat (cursor f)"
  have in_run: "?c < length cls * ?cl" using cur D(5) by (simp add: word_less_nat_alt)
  note less = chain_sector_less [OF D(2) in_run]
  show thesis
  proof (cases "remaining_bytes_in_cluster f = 0")
    case False
    then have "next_cluster_if_required P (f, s) = (Ok (), f, s)"
      by (simp add: next_cluster_if_required_def the_file_def andthen_def gets_def ret_def)
    then show thesis
      using that [of "remaining_bytes_in_cluster f" s] D(7) False looked_refl [OF D(1)] by (simp add: chain_cursor_def Let_def)
  next
    case True
    then have c: "0 < ?c" "?c mod ?cl = 0" "current_cluster f = cls ! (?c div ?cl - 1)" using D(7) by (simp_all add: chain_cursor_def Let_def)
    have pos: "Suc (?c div ?cl - 1) = ?c div ?cl"
      using c(1,2) by (metis Suc_pred' div_greater_zero_iff dvd_imp_le mod_0_imp_dvd mod_by_0 neq0_conv)
    have two: "2 \<le> cls ! (?c div ?cl - 1)" using D(3) less(2) by (simp add: clusters_placed_def)
    obtain s' where r: "next_cursor_id P (f, s) = (Ok (cls ! (?c div ?cl)), f, s')" and lk: "looked ly s s'"
      using next_in_chain [OF D(1,4) _ c(3) two] less(2) pos by metis
    have "next_cluster_if_required P (f, s) =
        (Ok (), f\<lparr>current_cluster := cls ! (?c div ?cl), remaining_bytes_in_cluster := fsd_cluster_length (fs_details s)\<rparr>, s')"
      using True r lookedD(3) [OF lk]
      by (simp add: next_cluster_if_required_def the_file_def andthen_def gets_def upd_file_def modify_def cluster_length_def)
    then show thesis using that c(2) lk by simp
  qed
qed

lemma chain_round:
  assumes F: "chained ly cls f s" and cur: "cursor f < data_length (details f)" and br: "br < length buf" "length buf < 2 ^ 64"
  shows "\<exists>k f' s'. read_round P buf br (f, s) = (Ok (take br buf @
        map (chain_byte P (content_of ly s) (fs_details s) cls (valid_data_length (details f))) [unat (cursor f)..<unat (cursor f) + k] @
        drop (br + k) buf, br + k), f', s') \<and>
    0 < k \<and> br + k \<le> length buf \<and> unat (cursor f) + k \<le> unat (data_length (details f)) \<and>
    unat (cursor f') = unat (cursor f) + k \<and> details f' = details f \<and> open_options f' = open_options f \<and>
    touched f' = touched f \<and> chained ly cls f' s' \<and> looked ly s s'"
proof -
  note D = chained_fileD [OF F]
  define fsd where "fsd = fs_details s"
  let ?cl = "unat (fsd_cluster_length fsd)" and ?c = "unat (cursor f)" and ?vd = "valid_data_length (details f)"
  have g: "geometry_ok P fsd" using D(2) by (simp add: fsd_def)
  have in_run: "?c < length cls * ?cl" using cur D(5) by (simp add: word_less_nat_alt fsd_def)
  note less = chain_sector_less [OF g in_run]
  obtain rr s1 where nx: "next_cluster_if_required P (f, s) = (Ok (), f\<lparr>current_cluster := cls ! (?c div ?cl), remaining_bytes_in_cluster := rr\<rparr>, s1)"
    "unat rr = ?cl - ?c mod ?cl" and l1: "looked ly s s1"
    by (rule chain_settle [OF F cur, folded fsd_def])
  have fsd1: "fs_details s1 = fsd" using lookedD(3) [OF l1] by (simp add: fsd_def)
  let ?cc = "cls ! (?c div ?cl)" and ?sec = "dir_sector fsd cls (?c div SIZE P)"
  have "2 \<le> ?cc" using D(3) less(2) by (simp add: clusters_placed_def)
  then have cc: "\<not> ?cc < 2" by simp
  have sec: "ly ?sec = DataRegion" "unat ?sec < capacity (fs_dev s1)"
    using D(3) less(1) lookedD(6) [OF l1] by (simp_all add: clusters_placed_def fsd_def)
  obtain s2 where r: "on_data (read_sector P ?sec) s1 = (Ok (content_of ly s ?sec), s2)" and l2: "looked ly s1 s2"
    using volume_read [OF lookedD(1) [OF l1] sec] lookedD(2) [OF l1] by (auto simp: only_looked_def)
  have code: "?sec = fsd_cluster_heap_offset (fs_details s1) + (?cc - 2) * fsd_sectors_per_cluster (fs_details s1) +
      ucast (cursor f mod ucast (fsd_cluster_length (fs_details s1)) :: u64) div of_nat (SIZE P)"
    unfolding fsd1 by (rule chain_sector [OF g refl, symmetric])
  let ?s = "if cursor f < ?vd then s2 else s1"
  have lk: "looked ly s ?s" using l1 looked_trans [OF l1 l2] by simp
  have lb: "length (content_of ly s ?sec) = SIZE P" by (rule volume_sector_length [OF D(1)])
  have rd: "if cursor f < ?vd then on_data (read_sector P ?sec) s1 = (Ok (content_of ly s ?sec), ?s) else ?s = s1" using r by simp
  obtain k where R: "read_round P buf br (f, s) = (Ok (take br buf @ (if cursor f < ?vd
        then take k (drop (?c mod SIZE P) (content_of ly s ?sec)) else replicate k 0) @ drop (br + k) buf, br + k),
      move_file_cursor k (f\<lparr>current_cluster := ?cc, remaining_bytes_in_cluster := rr\<rparr>), ?s)"
    and k: "0 < k" "k \<le> SIZE P - ?c mod SIZE P" "br + k \<le> length buf" "?c + k \<le> unat (data_length (details f))"
      "cursor f < ?vd \<Longrightarrow> ?c + k \<le> unat ?vd"
    by (rule read_round_result [OF g [folded fsd1] nx(1) cc cur br D(6) code rd lb]) (rule that; assumption)
  have "0 < SIZE P" using g by (simp add: geometry_ok_def)
  then have bytes: "(if cursor f < ?vd then take k (drop (?c mod SIZE P) (content_of ly s ?sec)) else replicate k 0) =
      map (chain_byte P (content_of ly s) fsd cls ?vd) [?c..<?c + k]"
    using chain_bytes_in_sector [where v = "content_of ly s", OF lb refl _ k(2), of ?vd] k(5) chain_zeros_past_valid [of ?vd ?c k]
    by (auto simp: word_less_nat_alt)
  have fit: "?c + k < 2 ^ 64" using k(4) unat_less_length [of "data_length (details f)"] by simp
  define f1 where "f1 = move_file_cursor k (f\<lparr>current_cluster := ?cc, remaining_bytes_in_cluster := rr\<rparr>)"
  note mv = chain_cursor_move [OF g less(2) nx(2) refl k(2) fit, folded f1_def]
  have keep: "details f1 = details f" "open_options f1 = open_options f" "touched f1 = touched f" "chain f1 = chain f"
    by (simp_all add: f1_def move_file_cursor_def)
  have "chained ly cls f1 ?s"
    using D mv(1) lookedD(1,3,6) [OF lk] chain_of_looked [OF lk] by (simp add: chained_file_def keep fsd_def)
  then show ?thesis
    using R [unfolded bytes, folded f1_def] k mv(2) keep lk
    by (intro exI [of _ k] exI [of _ f1] exI [of _ ?s]) (simp add: fsd_def)
qed

end

sublocale reliable_device \<subseteq> chain_file: readable_file P
  "chained_file P sector capacity dev_ok ly cls" "only_looked P sector capacity dev_ok ly"
  "\<lambda>s. chain_byte P (medium sector ly s) (fs_details s) cls"
  for ly cls
proof (unfold_locales, goal_cases)
  case (1 f s)
  then show ?case using looked_refl by (simp add: chained_file_def)
next
  case (2 s1 s2 s3)
  then show ?case by (rule looked_trans)
next
  case (3 s s')
  then show ?case using lookedD(2,3) by metis
next
  case (4 f s br buf)
  then show ?case by (rule chain_round)
qed

context reliable_device
begin

lemma chained_readable:
  "readable_file P (chained_file P sector capacity dev_ok ly cls) (only_looked P sector capacity dev_ok ly)
    (\<lambda>s. chain_byte P (medium sector ly s) (fs_details s) cls)"
  by (rule chain_file.readable_file_axioms)

end

end
