(* ===== verification/Directory_Scan.thy ===== *)
theory Directory_Scan
  imports Directory_Walk Fs_Ops
begin

text \<open>
  Searching a directory (\<open>next_file_entry\<close> of \<open>directory_entry.rs\<close>, \<open>get_leaf_file_entry\<close> of \<open>directory.rs\<close>): the loops
  over sectors, clusters and caches compute a plain search of the list of entries, and a path is resolved by one such
  search per part.
\<close>

section \<open>Searching a list of entries\<close>

type_synonym items = "(raw_dir_entry \<times> location) list"

fun scan_name :: "dir_filter \<Rightarrow> upcase_table \<Rightarrow> nat \<Rightarrow> bool \<Rightarrow> nat \<Rightarrow> u16 list \<Rightarrow> items \<Rightarrow> name_result \<times> items" where
  "scan_name filt t nlen wanted cursor units [] = (NameBroken, [])"
| "scan_name filt t nlen wanted cursor units ((raw, loc) # es) =
     (case try_into file_name_from raw Filename of
        None \<Rightarrow> (NameBroken, es)
      | Some entry \<Rightarrow>
          let len = min (nlen - cursor) (length (file_name entry)); part = take len (file_name entry);
              units' = (if wanted then take cursor units @ part @ drop (cursor + len) units else units) in
          if \<not> flt_file_name filt part cursor t then (NameRejected, es)
          else if cursor + len = nlen then (NameMatched units', es)
          else scan_name filt t nlen wanted (cursor + len) units' es)"

lemma scan_name_rest: "scan_name filt t nlen wanted cursor units es = (r, es') \<Longrightarrow> length es' \<le> length es"
proof (induction es arbitrary: cursor units)
  case (Cons e es)
  obtain raw loc where "e = (raw, loc)" by (cases e)
  with Cons show ?case by (fastforce simp: Let_def split: option.splits if_splits)
qed simp

text \<open>The first matching entry set: its details, its name and the entries behind it.\<close>

function scan_entries :: "dir_filter \<Rightarrow> upcase_table \<Rightarrow> bool \<Rightarrow> items \<Rightarrow> (file_details \<times> u16 list \<times> items) option" where
  "scan_entries filt t wanted [] = None"
| "scan_entries filt t wanted ((raw, loc) # es) =
     (if entry_type_from (raw ! 0) = EndOfDirectory \<and> is_end_of_directory raw then None
      else if entry_type_from (raw ! 0) \<noteq> FileAndDirectory then scan_entries filt t wanted es
      else (case es of
          [] \<Rightarrow> None
        | (raw2, _) # es2 \<Rightarrow>
            (case try_into stream_ext_from raw2 StreamExtension of
               None \<Rightarrow> None
             | Some stream \<Rightarrow>
                 let nlen = unat (name_length stream) in
                 if \<not> flt_hash filt (name_hash stream) (fd_file_attributes (file_dir_from raw)) \<or>
                    \<not> flt_file_name_length filt nlen
                 then scan_entries filt t wanted es2
                 else (case scan_name filt t nlen wanted 0 (replicate 255 0) es2 of
                     (NameBroken, _) \<Rightarrow> None
                   | (NameRejected, es3) \<Rightarrow> scan_entries filt t wanted es3
                   | (NameMatched units, es3) \<Rightarrow>
                       Some (details_of (file_dir_from raw) stream loc, take nlen units, es3)))))"
  by pat_completeness auto
termination
  by (relation "measure (\<lambda>(filt, t, wanted, es). length es)") (auto dest!: scan_name_rest [OF sym])

section \<open>The walk computes the search\<close>

definition walks :: "('d, 'e) platform \<Rightarrow> ('d \<Rightarrow> u32 \<Rightarrow> block) \<Rightarrow> ('d \<Rightarrow> nat) \<Rightarrow> ('d \<Rightarrow> bool) \<Rightarrow> layout \<Rightarrow> 'd file_system \<Rightarrow>
    u32 list \<Rightarrow> items \<Rightarrow> dir_chain \<times> 'd file_system \<Rightarrow> bool" where
  "walks P sector capacity dev_ok ly s0 cs es = (\<lambda>(ch, s).
     only_looked P sector capacity dev_ok ly s0 s \<and> dc_num_entries ch = None \<and>
     (\<exists>k \<le> dir_size P (fs_details s0) cs. walk_at P (fs_details s0) cs (medium sector ly s0) k ch \<and>
        es = drop k (dir_items P (fs_details s0) cs (medium sector ly s0))))"

text \<open>A volume with a directory of the clusters \<open>cs\<close>.\<close>

definition has_directory :: "('d, 'e) platform \<Rightarrow> ('d \<Rightarrow> u32 \<Rightarrow> block) \<Rightarrow> ('d \<Rightarrow> nat) \<Rightarrow> ('d \<Rightarrow> bool) \<Rightarrow> layout \<Rightarrow> 'd file_system \<Rightarrow>
    u32 list \<Rightarrow> bool" where
  "has_directory P sector capacity dev_ok ly s cs \<longleftrightarrow> volume_ok P sector capacity dev_ok ly s \<and>
     (\<exists>off. start_of_fat_sector (fs_fat s) = Some off \<and>
        directory_at P ly (capacity (fs_dev s)) off (medium sector ly s) (fs_details s) cs)"

text \<open>What a search returns: the details and, if a buffer is given, the decoded name.\<close>

definition found_entry :: "(file_details \<times> u16 list \<times> items) option \<Rightarrow> u8 list option \<Rightarrow>
    ((file_details \<times> nat \<times> u8 list option) option, 'e exfat_error) outcome" where
  "found_entry r buf = (case r of
     None \<Rightarrow> Ok None
   | Some (d, units, _) \<Rightarrow> (case buf of
       None \<Rightarrow> Ok (Some (d, 0, None))
     | Some b \<Rightarrow> (case decode_utf16_to_utf8 units b of
         (Ok n, b') \<Rightarrow> Ok (Some (d, n, Some b'))
       | (Err e, _) \<Rightarrow> Err e
       | (Panic, _) \<Rightarrow> Panic
       | (OutOfFuel, _) \<Rightarrow> OutOfFuel)))"

context reliable_device
begin

abbreviation has_dir :: "layout \<Rightarrow> 'd file_system \<Rightarrow> u32 list \<Rightarrow> bool" where
  "has_dir \<equiv> has_directory P sector capacity dev_ok"

abbreviation walking :: "layout \<Rightarrow> 'd file_system \<Rightarrow> u32 list \<Rightarrow> items \<Rightarrow> dir_chain \<times> 'd file_system \<Rightarrow> bool" where
  "walking \<equiv> walks P sector capacity dev_ok"

abbreviation items_of :: "layout \<Rightarrow> 'd file_system \<Rightarrow> u32 list \<Rightarrow> items" where
  "items_of ly s cs \<equiv> dir_items P (fs_details s) cs (content_of ly s)"

lemma walking_looked: "walking ly s0 cs es (ch, s) \<Longrightarrow> looked ly s0 s"
  by (simp add: walks_def)

lemma has_dir_looked: "has_dir ly s cs \<Longrightarrow> looked ly s s' \<Longrightarrow> has_dir ly s' cs"
  by (simp add: has_directory_def lookedD)

lemma items_of_looked: "looked ly s s' \<Longrightarrow> items_of ly s' cs = items_of ly s cs"
  by (simp add: lookedD)

lemma walking_start:
  assumes "has_dir ly s cs"
  shows "walking ly s cs (items_of ly s cs) (chain_new P (hd cs) (fs_details s), s)"
proof -
  obtain off where D: "vol_ok ly s" "directory_at P ly (capacity (fs_dev s)) off (content_of ly s) (fs_details s) cs"
    using assms by (auto simp: has_directory_def)
  note D' = directory_atD [OF D(2)]
  have "0 < dir_size P (fs_details s) cs" using D'(1,3,4) by (simp add: dir_size_def)
  then have "walk_at P (fs_details s) cs (content_of ly s) 0 (chain_new P (hd cs) (fs_details s))"
    using D'(1) by (simp add: walk_at_def at_entry_def chain_new_def hd_conv_nth)
  then show ?thesis using D(1) looked_refl by (auto simp: walks_def chain_new_def)
qed

lemma walking_next:
  assumes D: "has_dir ly s0 cs" and w: "walking ly s0 cs es (ch, s)"
  shows "es = [] \<Longrightarrow> \<exists>ch' s'. chain_next P (ch, s) = (Ok None, ch', s') \<and> looked ly s0 s'"
    and "es = e # es' \<Longrightarrow> \<exists>ch' s'. chain_next P (ch, s) = (Ok (Some e), ch', s') \<and> walking ly s0 cs es' (ch', s') \<and>
      length (fst e) = RAW_ENTRY_LEN"
proof -
  let ?fsd = "fs_details s0" and ?v = "content_of ly s0"
  obtain k where lk: "looked ly s0 s" and n: "dc_num_entries ch = None" and k: "k \<le> dir_size P ?fsd cs"
    and wk: "walk_at P ?fsd cs ?v k ch" and es: "es = drop k (dir_items P ?fsd cs ?v)"
    using w by (auto simp: walks_def)
  obtain off where D1: "start_of_fat_sector (fs_fat s) = Some off" "directory_at P ly (capacity (fs_dev s)) off (content_of ly s) ?fsd cs"
    using D lk by (auto simp: has_directory_def lookedD)
  have wk': "walk_at P ?fsd cs (content_of ly s) k ch" using wk lk by (simp add: lookedD)
  obtain ch' s' where r: "chain_next P (ch, s) = (Ok (if k < dir_size P ?fsd cs
        then Some (dir_entry P ?fsd cs (content_of ly s) k, dir_location P ?fsd cs k) else None), ch', s')"
    and lk': "looked ly s s'" and n': "dc_num_entries ch' = dc_num_entries ch"
    and wk2: "k < dir_size P ?fsd cs \<Longrightarrow> walk_at P ?fsd cs (content_of ly s) (Suc k) ch'"
    using walk_next [OF lookedD(1) [OF lk] D1 wk'] n by (metis option.distinct(1))
  have lk2: "looked ly s0 s'" by (rule looked_trans [OF lk lk'])
  show "\<exists>ch' s'. chain_next P (ch, s) = (Ok None, ch', s') \<and> looked ly s0 s'" if "es = []"
    using that r lk2 es by simp
  show "\<exists>ch' s'. chain_next P (ch, s) = (Ok (Some e), ch', s') \<and> walking ly s0 cs es' (ch', s') \<and> length (fst e) = RAW_ENTRY_LEN"
    if e: "es = e # es'"
  proof -
    have k': "k < dir_size P ?fsd cs" using e es by (metis drop_eq_Nil2 length_dir_items linorder_not_less list.distinct(1))
    have "dir_items P ?fsd cs ?v ! k # drop (Suc k) (dir_items P ?fsd cs ?v) = e # es'"
      using e es Cons_nth_drop_Suc [of k "dir_items P ?fsd cs ?v"] k' by simp
    then have e': "e = (dir_entry P ?fsd cs ?v k, dir_location P ?fsd cs k)" "es' = drop (Suc k) (dir_items P ?fsd cs ?v)"
      using dir_items_nth [OF k', of ?v] by simp_all
    have "k mod dir_entries_per_block P < SIZE P div RAW_ENTRY_LEN"
      using directory_atD(4) [OF D1(2)] by (simp add: dir_entries_per_block_def)
    then have "length (fst e) = RAW_ENTRY_LEN"
      using D volume_sector_length [of ly s0] by (simp add: e' dir_entry_def has_directory_def as_chunks_nth_length)
    moreover have "walking ly s0 cs es' (ch', s')"
      using wk2 [OF k'] k' lk lk2 n n' e' by (auto simp: walks_def lookedD intro!: exI [of _ "Suc k"])
    ultimately show ?thesis using r k' lk e' by (simp add: lookedD)
  qed
qed

text \<open>The entries of a name.\<close>

lemma name_loop_ok:
  assumes D: "has_dir ly s0 cs" and w: "walking ly s0 cs es (ch, s)" and fuel: "nlen - cursor < fuel" "cursor \<le> nlen"
  shows "\<exists>ch' s'. name_loop P filt nlen wanted fuel cursor units (ch, s) =
      (Ok (fst (scan_name filt (fs_upcase s0) nlen wanted cursor units es)), ch', s') \<and> looked ly s0 s' \<and>
    (fst (scan_name filt (fs_upcase s0) nlen wanted cursor units es) \<noteq> NameBroken \<longrightarrow>
      walking ly s0 cs (snd (scan_name filt (fs_upcase s0) nlen wanted cursor units es)) (ch', s'))"
  using w fuel
proof (induction es arbitrary: ch s fuel cursor units)
  case Nil
  obtain ch' s' where "chain_next P (ch, s) = (Ok None, ch', s')" "looked ly s0 s'"
    using walking_next(1) [OF D Nil(1)] by blast
  then show ?case using Nil(2) by (cases fuel) (auto simp: andthen_def ret_def)
next
  case (Cons e es)
  obtain fl where fl: "fuel = Suc fl" using Cons.prems(2) by (cases fuel) auto
  obtain raw loc where e: "e = (raw, loc)" by (cases e)
  obtain ch' s' where r: "chain_next P (ch, s) = (Ok (Some e), ch', s')" and w': "walking ly s0 cs es (ch', s')"
    and len: "length raw = RAW_ENTRY_LEN" using walking_next(2) [OF D Cons.prems(1) refl] e by auto
  have up: "fs_upcase s' = fs_upcase s0" using lookedD(4) [OF walking_looked [OF w']] .
  show ?case
  proof (cases "try_into file_name_from raw Filename")
    case None
    then show ?thesis using r w' walking_looked [OF w'] by (simp add: fl e andthen_def ret_def)
  next
    case (Some entry)
    then have l15: "length (file_name entry) = 15"
      using len by (auto simp: try_into_def file_name_from_def RAW_ENTRY_LEN_def split: if_splits)
    let ?len = "min (nlen - cursor) (length (file_name entry))"
    let ?part = "take ?len (file_name entry)"
    let ?units = "if wanted then take cursor units @ ?part @ drop (cursor + ?len) units else units"
    have up': "(gets (\<lambda>(c, s). fs_upcase s) :: ('d, upcase_table, 'e) chain_op) (ch', s') = (Ok (fs_upcase s0), ch', s')"
      by (simp add: gets_def up)
    have step: "name_loop P filt nlen wanted fuel cursor units (ch, s) =
        (if \<not> flt_file_name filt ?part cursor (fs_upcase s0) then (Ok NameRejected, ch', s')
         else if cursor + ?len = nlen then (Ok (NameMatched ?units), ch', s')
         else name_loop P filt nlen wanted fl (cursor + ?len) ?units (ch', s'))"
      unfolding fl name_loop.simps andthen_Ok [where m = "chain_next P", OF r] e option.case prod.case Some Let_def
        andthen_Ok [where m = "gets _", OF up'] by (simp add: ret_def)
    show ?thesis
    proof (cases "flt_file_name filt ?part cursor (fs_upcase s0) \<and> cursor + ?len \<noteq> nlen")
      case True
      then have "nlen - (cursor + ?len) < fl" "cursor + ?len \<le> nlen" using Cons.prems(2,3) l15 fl by linarith+
      from Cons.IH [OF w' this, of ?units] show ?thesis using True Some by (simp add: step e Let_def)
    next
      case False
      then show ?thesis using Some w' walking_looked [OF w'] by (auto simp: step e Let_def)
    qed
  qed
qed

text \<open>The next entry of a file.\<close>

lemma next_file_dir_entry_ok:
  assumes D: "has_dir ly s0 cs" and w: "walking ly s0 cs es (ch, s)" and fuel: "length es < fuel"
  shows "(\<exists>ch' s'. next_file_dir_entry P fuel (ch, s) = (Ok None, ch', s') \<and> looked ly s0 s' \<and>
      (\<forall>filt t wanted. scan_entries filt t wanted es = None)) \<or>
    (\<exists>raw loc es' ch' s'. next_file_dir_entry P fuel (ch, s) = (Ok (Some (file_dir_from raw, loc)), ch', s') \<and>
      walking ly s0 cs es' (ch', s') \<and> length es' < length es \<and> entry_type_from (raw ! 0) = FileAndDirectory \<and>
      (\<forall>filt t wanted. scan_entries filt t wanted es = scan_entries filt t wanted ((raw, loc) # es')))"
  using w fuel
proof (induction es arbitrary: ch s fuel)
  case Nil
  obtain ch' s' where "chain_next P (ch, s) = (Ok None, ch', s')" "looked ly s0 s'"
    using walking_next(1) [OF D Nil(1)] by blast
  then show ?case using Nil(2) by (cases fuel) (auto simp: andthen_def ret_def)
next
  case (Cons e es)
  obtain fl where fl: "fuel = Suc fl" "length es < fl" using Cons.prems(2) by (cases fuel) auto
  obtain raw loc where e: "e = (raw, loc)" by (cases e)
  obtain ch' s' where r: "chain_next P (ch, s) = (Ok (Some (raw, loc)), ch', s')" and w': "walking ly s0 cs es (ch', s')"
    using walking_next(2) [OF D Cons.prems(1) refl] e by auto
  let ?et = "entry_type_from (raw ! 0)"
  have step: "next_file_dir_entry P fuel (ch, s) =
      (if ?et = EndOfDirectory \<and> is_end_of_directory raw then (Ok None, ch', s')
       else if ?et = FileAndDirectory then (Ok (Some (file_dir_from raw, loc)), ch', s')
       else next_file_dir_entry P fl (ch', s'))"
    unfolding fl(1) next_file_dir_entry.simps andthen_Ok [where m = "chain_next P", OF r] by (simp add: Let_def ret_def)
  show ?case
  proof (cases "?et = EndOfDirectory \<and> is_end_of_directory raw \<or> ?et = FileAndDirectory")
    case True
    then show ?thesis using w' walking_looked [OF w'] unfolding step by (auto simp: e)
  next
    case False
    then have same: "scan_entries filt t wanted (e # es) = scan_entries filt t wanted es" for filt t wanted by (auto simp: e)
    from False have "next_file_dir_entry P fuel (ch, s) = next_file_dir_entry P fl (ch', s')" unfolding step by auto
    then show ?thesis using Cons.IH [OF w' fl(2)] unfolding same by (simp del: scan_entries.simps) (metis less_Suc_eq)
  qed
qed

text \<open>The next entry set that passes the filter.\<close>

lemma next_file_entry_ok:
  assumes D: "has_dir ly s0 cs" and w: "walking ly s0 cs es (ch, s)" and fuel: "length es < fuel"
  shows "\<exists>ch' s'. next_file_entry P fuel filt buf (ch, s) =
      (found_entry (scan_entries filt (fs_upcase s0) (buf \<noteq> None) es) buf, ch', s') \<and> looked ly s0 s' \<and>
    (\<forall>d units rest. scan_entries filt (fs_upcase s0) (buf \<noteq> None) es = Some (d, units, rest) \<longrightarrow>
      walking ly s0 cs rest (ch', s'))"
  using w fuel
proof (induction fuel arbitrary: es ch s)
  case (Suc fl)
  let ?t = "fs_upcase s0" and ?w = "buf \<noteq> None"
  from next_file_dir_entry_ok [OF D Suc.prems] consider
    (none) ch' s' where "next_file_dir_entry P (Suc fl) (ch, s) = (Ok None, ch', s')" "looked ly s0 s'"
      "scan_entries filt ?t ?w es = None"
  | (found) raw loc es1 ch1 s1 where "next_file_dir_entry P (Suc fl) (ch, s) = (Ok (Some (file_dir_from raw, loc)), ch1, s1)"
      "walking ly s0 cs es1 (ch1, s1)" "length es1 < length es" "entry_type_from (raw ! 0) = FileAndDirectory"
      "scan_entries filt ?t ?w es = scan_entries filt ?t ?w ((raw, loc) # es1)" by blast
  then show ?case
  proof cases
    case none
    then show ?thesis unfolding next_file_entry.simps(2) andthen_Ok [where m = "next_file_dir_entry P _", OF none(1)]
      by (simp add: ret_def found_entry_def)
  next
    case found
    note step = next_file_entry.simps(2) andthen_Ok [where m = "next_file_dir_entry P _", OF found(1)] option.case prod.case
    show ?thesis
    proof (cases es1)
      case Nil
      obtain ch2 s2 where "chain_next P (ch1, s1) = (Ok None, ch2, s2)" "looked ly s0 s2"
        using walking_next(1) [OF D found(2)] Nil by blast
      then show ?thesis using found(4,5) Nil unfolding step
        by (simp add: andthen_def ret_def found_entry_def)
    next
      case (Cons e2 es2)
      obtain raw2 loc2 where e2: "e2 = (raw2, loc2)" by (cases e2)
      obtain ch2 s2 where r2: "chain_next P (ch1, s1) = (Ok (Some (raw2, loc2)), ch2, s2)" and w2: "walking ly s0 cs es2 (ch2, s2)"
        using walking_next(2) [OF D found(2) Cons] e2 by auto
      note lk2 = walking_looked [OF w2]
      have len2: "length es2 < fl" using found(3) Cons Suc.prems(2) by simp
      show ?thesis
      proof (cases "try_into stream_ext_from raw2 StreamExtension")
        case None
        then show ?thesis using found(4,5) lk2 unfolding step andthen_Ok [where m = "chain_next P", OF r2]
          by (simp add: Cons e2 ret_def found_entry_def)
      next
        case (Some stream)
        let ?n = "unat (name_length stream)" and ?fd = "file_dir_from raw"
        let ?skip = "\<not> flt_hash filt (name_hash stream) (fd_file_attributes ?fd) \<or> \<not> flt_file_name_length filt ?n"
        let ?nm = "scan_name filt ?t ?n ?w 0 (replicate 255 0) es2"
        obtain ch3 s3 where nl: "name_loop P filt ?n ?w (Suc ?n) 0 (replicate 255 0) (ch2, s2) = (Ok (fst ?nm), ch3, s3)"
          and lk3: "looked ly s0 s3" and w3: "fst ?nm \<noteq> NameBroken \<longrightarrow> walking ly s0 cs (snd ?nm) (ch3, s3)"
          using name_loop_ok [OF D w2, of ?n 0 "Suc ?n" filt ?w "replicate 255 0"] by auto
        have len3: "length (snd ?nm) < fl" using scan_name_rest [of filt ?t ?n ?w 0 "replicate 255 0" es2] len2 by (cases ?nm) auto
        have scan: "scan_entries filt ?t ?w es = (if ?skip then scan_entries filt ?t ?w es2
            else case ?nm of (NameBroken, _) \<Rightarrow> None
              | (NameRejected, es3) \<Rightarrow> scan_entries filt ?t ?w es3
              | (NameMatched units, es3) \<Rightarrow> Some (details_of ?fd stream loc, take ?n units, es3))"
          using found(4,5) Some by (auto simp: Cons e2 Let_def simp del: not_None_eq)
        obtain r es3 where nm: "?nm = (r, es3)" by (cases ?nm)
        have run: "next_file_entry P (Suc fl) filt buf (ch, s) = (if ?skip then next_file_entry P fl filt buf (ch2, s2)
            else case r of NameBroken \<Rightarrow> (Ok None, ch3, s3)
              | NameRejected \<Rightarrow> next_file_entry P fl filt buf (ch3, s3)
              | NameMatched units \<Rightarrow> (found_entry (Some (details_of ?fd stream loc, take ?n units, es3)) buf, ch3, s3))"
          unfolding step andthen_Ok [where m = "chain_next P", OF r2] Some Let_def if_op_apply
            andthen_Ok [where m = "name_loop P _ _ _ _ _ _", OF nl] nm fst_conv
          by (cases r; cases buf) (simp_all add: ret_def found_entry_def split: prod.splits outcome.splits)
        show ?thesis
        proof (cases ?skip)
          case True
          then show ?thesis using Suc.IH [OF w2 len2] unfolding run scan by simp
        next
          case False
          then show ?thesis
            using Suc.IH [of es3 ch3 s3] w3 len3 lk3 unfolding run scan nm
            by (cases r) (simp_all add: found_entry_def del: not_None_eq)
        qed
      qed
    qed
  qed
qed simp

end

end
