(* ===== verification/Directory_Sets.thy ===== *)
theory Directory_Sets
  imports Directory_Scan Name_Filter
begin

text \<open>
  A well-formed directory as a list of entry sets: what each set says of its file, and its name. The search of the
  entries finds the first set its filter lets through.
\<close>

section \<open>Reading the sets\<close>

record entry_set =
  es_details :: file_details
  es_hash :: u16
  es_name :: "u16 list"

definition name_count :: "nat \<Rightarrow> nat" where
  "name_count n = (n + 14) div 15"

definition has_type :: "entry_type \<Rightarrow> raw_dir_entry \<times> location \<Rightarrow> bool" where
  "has_type et e \<longleftrightarrow> entry_type_from (fst e ! 0) = et"

definition name_units :: "items \<Rightarrow> u16 list" where
  "name_units es = concat (map (\<lambda>e. file_name (file_name_from (fst e))) es)"

text \<open>
  The sets of a directory, if it is well-formed: every file entry is followed by its stream extension and by as many
  name entries as its name takes, and says so; behind the end mark everything is zero. Other entries are not looked at.
\<close>

function dir_sets :: "items \<Rightarrow> entry_set list option" where
  "dir_sets [] = Some []"
| "dir_sets ((raw, loc) # es) =
     (if is_end_of_directory raw
      then (if list_all (\<lambda>e. is_end_of_directory (fst e)) es then Some [] else None)
      else if entry_type_from (raw ! 0) \<noteq> FileAndDirectory then dir_sets es
      else (case es of
          [] \<Rightarrow> None
        | e2 # es2 \<Rightarrow>
            let stream = stream_ext_from (fst e2); n = unat (name_length stream); m = name_count n in
            if has_type StreamExtension e2 \<and> 0 < n \<and> m \<le> length es2 \<and> list_all (has_type Filename) (take m es2) \<and>
              unat (secondary_count (file_dir_from raw)) = Suc m
            then map_option (Cons \<lparr>es_details = details_of (file_dir_from raw) stream loc, es_hash = name_hash stream,
                es_name = take n (name_units (take m es2))\<rparr>) (dir_sets (drop m es2))
            else None))"
  by pat_completeness auto
termination by (relation "measure length") auto

definition passes :: "dir_filter \<Rightarrow> upcase_table \<Rightarrow> entry_set \<Rightarrow> bool" where
  "passes filt t x \<longleftrightarrow> flt_hash filt (es_hash x) (attributes (es_details x)) \<and>
     flt_file_name_length filt (length (es_name x)) \<and>
     (\<forall>k < name_count (length (es_name x)). flt_file_name filt (take 15 (drop (15 * k) (es_name x))) (15 * k) t)"

definition raw_items :: "items \<Rightarrow> bool" where
  "raw_items es \<longleftrightarrow> list_all (\<lambda>e. length (fst e) = RAW_ENTRY_LEN) es"

lemma raw_items_simps [simp]:
  "raw_items []" "raw_items (e # es) \<longleftrightarrow> length (fst e) = RAW_ENTRY_LEN \<and> raw_items es"
  "raw_items (a @ b) \<longleftrightarrow> raw_items a \<and> raw_items b"
  by (simp_all add: raw_items_def)

lemma raw_items_take_drop:
  assumes "raw_items es"
  shows "raw_items (take n es)" and "raw_items (drop n es)"
  using assms append_take_drop_id [of n es] raw_items_simps(3) by metis+

lemma length_file_name: "length raw = RAW_ENTRY_LEN \<Longrightarrow> length (file_name (file_name_from raw)) = 15"
  by (simp add: file_name_from_def RAW_ENTRY_LEN_def)

lemma length_name_units: "raw_items es \<Longrightarrow> length (name_units es) = 15 * length es"
  by (induction es) (simp_all add: name_units_def length_file_name)

lemma end_entry_type:
  assumes "is_end_of_directory raw" and "length raw = RAW_ENTRY_LEN"
  shows "entry_type_from (raw ! 0) = EndOfDirectory"
proof -
  have "raw ! 0 = 0" using assms by (simp add: is_end_of_directory_def list_all_length RAW_ENTRY_LEN_def)
  then show ?thesis by (simp add: entry_type_from_def)
qed

lemma details_of_attributes [simp]: "attributes (details_of fd st loc) = fd_file_attributes fd"
  by (simp add: details_of_def)

section \<open>The search by sets\<close>

text \<open>Name entries are passed over.\<close>

lemma scan_skips_names:
  "list_all (has_type Filename) ns \<Longrightarrow> scan_entries filt t w (ns @ es) = scan_entries filt t w es"
  by (induction ns) (auto simp: has_type_def)

lemma scan_name_run:
  assumes "raw_items ns" and "list_all (has_type Filename) ns" and "c < n" and "length ns = name_count (n - c)"
    and "n \<le> length units"
  shows "if \<forall>k < length ns. flt_file_name filt (take 15 (drop (15 * k) (take (n - c) (name_units ns)))) (c + 15 * k) t
    then \<exists>units'. scan_name filt t n w c units (ns @ es) = (NameMatched units', es) \<and>
      (w \<longrightarrow> take n units' = take c units @ take (n - c) (name_units ns))
    else \<exists>rest. scan_name filt t n w c units (ns @ es) = (NameRejected, rest @ es) \<and> list_all (has_type Filename) rest"
  using assms
proof (induction ns arbitrary: c units)
  case Nil
  then show ?case by (simp add: name_count_def)
next
  case (Cons e ns)
  obtain raw loc where e: "e = (raw, loc)" by (cases e)
  let ?u = "file_name (file_name_from raw)" and ?len = "min (n - c) 15"
  have u: "length ?u = 15" using Cons.prems(1) by (simp add: e length_file_name)
  have ty: "try_into file_name_from raw Filename = Some (file_name_from raw)"
    using Cons.prems(2) by (simp add: e has_type_def try_into_def)
  let ?N = "take (n - c) (name_units (e # ns))" and ?units = "if w then take c units @ take ?len ?u @ drop (c + ?len) units else units"
  have names: "name_units (e # ns) = ?u @ name_units ns" by (simp add: name_units_def e)
  have first: "take 15 ?N = take ?len ?u" unfolding names using u by (simp add: min_def)
  have step: "scan_name filt t n w c units ((e # ns) @ es) =
      (if \<not> flt_file_name filt (take ?len ?u) c t then (NameRejected, ns @ es)
       else if c + ?len = n then (NameMatched ?units, ns @ es)
       else scan_name filt t n w (c + ?len) ?units (ns @ es))"
    using ty u by (simp add: e Let_def)
  show ?case
  proof (cases "flt_file_name filt (take ?len ?u) c t")
    case False
    then have "\<not> (\<forall>k < length (e # ns). flt_file_name filt (take 15 (drop (15 * k) ?N)) (c + 15 * k) t)"
      using first by (metis length_Cons mult_0_right add.right_neutral drop0 zero_less_Suc)
    then show ?thesis using False Cons.prems(2) unfolding step by auto
  next
    case pass: True
    show ?thesis
    proof (cases "n - c \<le> 15")
      case True
      then have "(n - c + 14) div 15 = 1" using Cons.prems(3) by (intro div_nat_eqI) auto
      then have ns: "ns = []" using Cons.prems(4) by (simp add: name_count_def)
      then have all: "\<forall>k < length (e # ns). flt_file_name filt (take 15 (drop (15 * k) ?N)) (c + 15 * k) t"
        using pass first by simp
      have "take n ?units = take c units @ ?N" if w
        using that True Cons.prems(3,5) u unfolding names ns by (simp add: min_def name_units_def e)
      then show ?thesis using all pass True Cons.prems(3) unfolding step if_P [OF all] by (auto simp: ns min_def)
    next
      case False
      have c: "c + 15 < n" "?len = 15" using False by simp_all
      have len: "length ns = name_count (n - (c + 15))" using Cons.prems(4) False by (simp add: name_count_def)
      have units: "n \<le> length ?units" using Cons.prems(5) c u by simp
      have N: "drop 15 ?N = take (n - (c + 15)) (name_units ns)" unfolding names using u c by (simp add: min_def)
      have shift: "(\<forall>k < length (e # ns). flt_file_name filt (take 15 (drop (15 * k) ?N)) (c + 15 * k) t) \<longleftrightarrow>
          (\<forall>k < length ns. flt_file_name filt (take 15 (drop (15 * k) (take (n - (c + 15)) (name_units ns)))) (c + 15 + 15 * k) t)"
      proof -
        have "flt_file_name filt (take 15 (drop (15 * Suc k) ?N)) (c + 15 * Suc k) t =
            flt_file_name filt (take 15 (drop (15 * k) (take (n - (c + 15)) (name_units ns)))) (c + 15 + 15 * k) t" for k
          unfolding N [symmetric] by (simp add: ac_simps)
        then show ?thesis unfolding length_Cons All_less_Suc2 using pass first c(2) by simp
      qed
      have sc: "scan_name filt t n w c units ((e # ns) @ es) = scan_name filt t n w (c + 15) ?units (ns @ es)"
        using pass c unfolding step by simp
      have cat: "take (c + 15) ?units @ take (n - (c + 15)) (name_units ns) = take c units @ ?N" if w
        using that c u Cons.prems(3,5) unfolding names by (simp add: min_def)
      have raws: "raw_items ns" "list_all (has_type Filename) ns" using Cons.prems(1,2) by simp_all
      show ?thesis
        using Cons.IH [OF raws c(1) len units] cat unfolding shift sc by (auto split: if_splits)
    qed
  qed
qed

text \<open>The first set that passes, and what is left behind it.\<close>

definition finds_set :: "dir_filter \<Rightarrow> upcase_table \<Rightarrow> bool \<Rightarrow> items \<Rightarrow> entry_set list \<Rightarrow> bool" where
  "finds_set filt t w es sets = (case dropWhile (\<lambda>x. \<not> passes filt t x) sets of
      [] \<Rightarrow> scan_entries filt t w es = None
    | x # post \<Rightarrow> \<exists>units rest. scan_entries filt t w es = Some (es_details x, units, rest) \<and> dir_sets rest = Some post \<and>
        raw_items rest \<and> (w \<longrightarrow> units = es_name x) \<and> length rest < length es)"

lemma finds_set_later:
  assumes "finds_set filt t w es sets" and "scan_entries filt t w es' = scan_entries filt t w es" and "length es \<le> length es'"
  shows "finds_set filt t w es' sets"
  using assms(1,3) unfolding finds_set_def assms(2)
  by (cases "dropWhile (\<lambda>x. \<not> passes filt t x) sets") (auto simp del: dropWhile_eq_Nil_conv intro: less_le_trans)

lemma scan_finds_set:
  assumes "dir_sets es = Some sets" and "raw_items es"
  shows "finds_set filt t w es sets"
  using assms
proof (induction es arbitrary: sets rule: dir_sets.induct)
  case (2 raw loc es)
  show ?case
  proof (cases "is_end_of_directory raw \<or> entry_type_from (raw ! 0) \<noteq> FileAndDirectory")
    case True
    show ?thesis
    proof (cases "is_end_of_directory raw")
      case True
      then have "scan_entries filt t w ((raw, loc) # es) = None" "sets = []"
        using 2(3,4) end_entry_type [of raw] by (auto split: if_splits)
      then show ?thesis by (simp add: finds_set_def)
    next
      case False
      then have ds: "dir_sets es = Some sets" and sc: "scan_entries filt t w ((raw, loc) # es) = scan_entries filt t w es"
        using True 2(3) by auto
      have "raw_items es" using 2(4) by simp
      then show ?thesis using 2(1) [OF False _ ds] True False finds_set_later [OF _ sc] by auto
    qed
  next
    case False
    then obtain e2 es2 where es: "es = e2 # es2" using 2(3) by (cases es) auto
    let ?st = "stream_ext_from (fst e2)"
    define n m x where "n = unat (name_length ?st)" and "m = name_count n" and
      "x = \<lparr>es_details = details_of (file_dir_from raw) ?st loc, es_hash = name_hash ?st, es_name = take n (name_units (take m es2))\<rparr>"
    from 2(3) False obtain post where c: "has_type StreamExtension e2" "0 < n" "m \<le> length es2" "list_all (has_type Filename) (take m es2)"
      "unat (secondary_count (file_dir_from raw)) = Suc m" and post: "dir_sets (drop m es2) = Some post" "sets = x # post"
      by (auto simp: es Let_def n_def m_def x_def split: if_splits)
    have raw2: "raw_items (take m es2)" "raw_items (drop m es2)" using 2(4) raw_items_take_drop [of es2] by (simp_all add: es)
    have IH: "finds_set filt t w (drop m es2) post"
      using 2(2) [OF _ _ es refl n_def m_def _ post(1) raw2(2)] False c by auto
    have m15: "n \<le> 15 * m" by (simp add: m_def name_count_def)
    have len: "length (es_name x) = n" using raw2(1) c(3) m15 by (simp add: x_def length_name_units)
    have at: "attributes (es_details x) = fd_file_attributes (file_dir_from raw)" "es_hash x = name_hash ?st"
      "es_details x = details_of (file_dir_from raw) ?st loc" by (simp_all add: x_def details_of_def)
    have n255: "n \<le> length (replicate 255 (0 :: u16))" using unat_less_length [of "name_length ?st"] by (simp add: n_def)
    have m0: "length (take m es2) = name_count (n - 0)" using c(3) by (simp add: m_def)
    note nm = scan_name_run [OF raw2(1) c(4,2) m0 n255, of filt t w "drop m es2", unfolded append_take_drop_id, simplified]
    have scan: "scan_entries filt t w ((raw, loc) # es) =
        (if \<not> flt_hash filt (es_hash x) (attributes (es_details x)) \<or> \<not> flt_file_name_length filt n
         then scan_entries filt t w es2
         else (case scan_name filt t n w 0 (replicate 255 0) es2 of
             (NameBroken, _) \<Rightarrow> None
           | (NameRejected, es3) \<Rightarrow> scan_entries filt t w es3
           | (NameMatched units, es3) \<Rightarrow> Some (es_details x, take n units, es3)))"
    proof -
      obtain raw2 loc2 where e2: "e2 = (raw2, loc2)" by (cases e2)
      show ?thesis unfolding at(2,3) n_def e2 fst_conv using False c(1) by (simp add: es e2 try_into_def has_type_def Let_def)
    qed
    have parts: "(\<forall>k < length (take m es2). flt_file_name filt (take 15 (drop (15 * k) (take n (name_units (take m es2))))) (15 * k) t) \<longleftrightarrow>
        (\<forall>k < name_count (length (es_name x)). flt_file_name filt (take 15 (drop (15 * k) (es_name x))) (15 * k) t)"
      using m0 len by (simp add: x_def)
    show ?thesis
    proof (cases "passes filt t x")
      case True
      then obtain units where "scan_name filt t n w 0 (replicate 255 0) es2 = (NameMatched units, drop m es2)"
        "w \<longrightarrow> take n units = es_name x" using nm parts by (auto simp: passes_def x_def)
      then have "scan_entries filt t w ((raw, loc) # es) = Some (es_details x, take n units, drop m es2)"
        using True len unfolding scan by (simp add: passes_def)
      then show ?thesis using True post raw2(2) \<open>w \<longrightarrow> take n units = es_name x\<close>
        by (auto simp: finds_set_def es simp del: scan_entries.simps)
    next
      case False
      have skip: "scan_entries filt t w es2 = scan_entries filt t w (drop m es2)"
        using scan_skips_names [OF c(4), of filt t w "drop m es2"] by simp
      have sc: "scan_entries filt t w ((raw, loc) # es) = scan_entries filt t w (drop m es2)"
      proof (cases "flt_hash filt (es_hash x) (attributes (es_details x)) \<and> flt_file_name_length filt n")
        case True
        then obtain rest where "scan_name filt t n w 0 (replicate 255 0) es2 = (NameRejected, rest @ drop m es2)"
          "list_all (has_type Filename) rest" using nm parts False len by (auto simp: passes_def split: if_splits)
        then show ?thesis using True scan_skips_names unfolding scan by simp
      next
        case False
        then show ?thesis using skip unfolding scan by auto
      qed
      have "finds_set filt t w (drop m es2) sets" using IH False post(2) by (simp add: finds_set_def)
      then show ?thesis by (rule finds_set_later [OF _ sc]) (simp add: es)
    qed
  qed
qed (simp add: finds_set_def)

end
