(* ===== verification/Directory_Lookup.thy ===== *)
theory Directory_Lookup
  imports Directory_Sets
begin

text \<open>
  Resolving a path (\<open>get_leaf_file_entry\<close> of \<open>directory.rs\<close>) in a tree of well-formed directories: each part is looked up
  by name, up to case, in the list of entry sets of its directory.
\<close>

section \<open>Looking up a name\<close>

definition matches :: "upcase_table \<Rightarrow> rstr \<Rightarrow> file_attributes option \<Rightarrow> entry_set \<Rightarrow> bool" where
  "matches t nm attrs x \<longleftrightarrow> map (upcase t) (encode_utf16 nm) = map (upcase t) (es_name x) \<and>
     (case attrs of Some a \<Rightarrow> contains (attributes (es_details x)) a | None \<Rightarrow> True)"

text \<open>The stored hash is that of the stored name.\<close>

definition hashed :: "upcase_table \<Rightarrow> entry_set \<Rightarrow> bool" where
  "hashed t x \<longleftrightarrow> es_hash x = units_hash t (es_name x)"

definition name_error :: "rstr \<Rightarrow> string option" where
  "name_error nm =
     (if nm = rstr_of ''.'' \<or> nm = rstr_of ''..'' then Some ''. and .. are reserved names''
      else if \<exists>c \<in> set (encode_utf16 nm). is_illegal_name_char c then Some ''name contains an illegal character''
      else if encode_utf16 nm = [] then Some ''name is empty'' else None)"

lemma hash_name_error:
  "encode_utf16_upcase_and_hash nm t s = (case name_error nm of
     Some r \<Rightarrow> (Err r, s) | None \<Rightarrow> (Ok (units_hash t (encode_utf16 nm), length (encode_utf16 nm)), s))"
  by (simp add: hash_total name_error_def units_hash_def)

lemma filter_name_error:
  "name_error nm = Some r \<Longrightarrow> exact_name_filter_new nm t attrs s = (Err r, s)"
  "name_error nm = None \<Longrightarrow> \<exists>flt. \<forall>s. exact_name_filter_new nm t attrs s = (Ok flt, s)"
  by (simp_all add: exact_name_filter_new_def andthen_def hash_name_error ret_def)

lemma passes_matches:
  assumes "exact_name_filter_new nm t attrs s = (Ok flt, s')" and "hashed t x"
  shows "passes flt t x \<longleftrightarrow> matches t nm attrs x"
  using filter_exact [OF assms(1), of "es_name x" "attributes (es_details x)"] assms(2)
  by (simp add: passes_def matches_def hashed_def name_count_def)

lemma find_dropWhile: "find p xs = (case dropWhile (\<lambda>x. \<not> p x) xs of [] \<Rightarrow> None | x # _ \<Rightarrow> Some x)"
  by (induction xs) auto

lemma scan_finds:
  assumes ds: "dir_sets es = Some sets" and raw: "raw_items es" and hs: "list_all (hashed t) sets"
    and f: "exact_name_filter_new nm t attrs s = (Ok flt, s')"
  shows "map_option fst (scan_entries flt t w es) = map_option es_details (find (matches t nm attrs) sets)"
proof -
  have "dropWhile (\<lambda>x. \<not> passes flt t x) sets = dropWhile (\<lambda>x. \<not> matches t nm attrs x) sets"
    using passes_matches [OF f] hs by (intro dropWhile_cong) (auto simp: list_all_iff)
  then show ?thesis
    using scan_finds_set [OF ds raw, of flt t w] unfolding finds_set_def find_dropWhile
    by (auto simp del: dropWhile_eq_Nil_conv split: list.splits)
qed

section \<open>Resolving a path\<close>

text \<open>A path is resolved on the directories by their first clusters; a part that is no name is refused.\<close>

fun resolve :: "(u32 \<Rightarrow> entry_set list option) \<Rightarrow> upcase_table \<Rightarrow> file_attributes option \<Rightarrow> rstr list \<Rightarrow> u32 \<Rightarrow>
    string + file_details option" where
  "resolve dirs t attrs [] c = Inr None"
| "resolve dirs t attrs (part # rest) c =
     (case name_error part of
        Some reason \<Rightarrow> Inl reason
      | None \<Rightarrow>
          (case find (matches t part (if rest = [] then attrs else Some Directory)) (the (dirs c)) of
             None \<Rightarrow> Inr None
           | Some x \<Rightarrow> if rest = [] then Inr (Some (es_details x))
               else resolve dirs t attrs rest (first_cluster (es_details x))))"

definition resolved :: "string + file_details option \<Rightarrow> (file_details option, 'e exfat_error) outcome" where
  "resolved r = (case r of Inl reason \<Rightarrow> Err (InvalidFileName reason) | Inr d \<Rightarrow> Ok d)"

text \<open>
  The directories of a volume by their first clusters, \<open>chain c\<close> all clusters of the one at \<open>c\<close>; they are closed under the
  subdirectories they list, and the fuel is enough for any of them.
\<close>

definition tree_at :: "('d, 'e) platform \<Rightarrow> ('d \<Rightarrow> u32 \<Rightarrow> block) \<Rightarrow> ('d \<Rightarrow> nat) \<Rightarrow> ('d \<Rightarrow> bool) \<Rightarrow> layout \<Rightarrow> nat \<Rightarrow>
    (u32 \<Rightarrow> u32 list) \<Rightarrow> 'd file_system \<Rightarrow> (u32 \<Rightarrow> entry_set list option) \<Rightarrow> bool" where
  "tree_at P sector capacity dev_ok ly fuel chain s dirs \<longleftrightarrow> volume_ok P sector capacity dev_ok ly s \<and>
     (\<forall>c sets. dirs c = Some sets \<longrightarrow> hd (chain c) = c \<and>
        has_directory P sector capacity dev_ok ly s (chain c) \<and> dir_size P (fs_details s) (chain c) < fuel \<and>
        dir_sets (dir_items P (fs_details s) (chain c) (medium sector ly s)) = Some sets \<and>
        list_all (hashed (fs_upcase s)) sets \<and>
        list_all (\<lambda>x. contains (attributes (es_details x)) Directory \<longrightarrow> dirs (first_cluster (es_details x)) \<noteq> None) sets)"

context reliable_device
begin

abbreviation tree :: "layout \<Rightarrow> nat \<Rightarrow> (u32 \<Rightarrow> u32 list) \<Rightarrow> 'd file_system \<Rightarrow> (u32 \<Rightarrow> entry_set list option) \<Rightarrow> bool" where
  "tree \<equiv> tree_at P sector capacity dev_ok"

lemma treeD:
  assumes "tree ly fuel chain s dirs" and "dirs c = Some sets"
  shows "hd (chain c) = c" and "has_dir ly s (chain c)" and "dir_size P (fs_details s) (chain c) < fuel"
    and "dir_sets (items_of ly s (chain c)) = Some sets" and "list_all (hashed (fs_upcase s)) sets"
    and "x \<in> set sets \<Longrightarrow> contains (attributes (es_details x)) Directory \<Longrightarrow> dirs (first_cluster (es_details x)) \<noteq> None"
  using assms by (auto simp: tree_at_def list_all_iff)

lemma raw_dir_items:
  assumes "has_dir ly s cs"
  shows "raw_items (items_of ly s cs)"
proof -
  obtain off where D: "directory_at P ly (capacity (fs_dev s)) off (content_of ly s) (fs_details s) cs" and V: "vol_ok ly s"
    using assms by (auto simp: has_directory_def)
  have "k mod dir_entries_per_block P < SIZE P div RAW_ENTRY_LEN" for k
    using directory_atD(4) [OF D] by (simp add: dir_entries_per_block_def)
  then show ?thesis
    using volume_sector_length [OF V]
    by (simp add: raw_items_def dir_items_def list_all_iff dir_entry_def as_chunks_nth_length)
qed

lemma first_file_entry_ok:
  assumes D: "has_dir ly s cs" and fuel: "dir_size P (fs_details s) cs < fuel" and c: "hd cs = c"
  obtains s' where "first_file_entry P fuel c filt s =
      (Ok (map_option fst (scan_entries filt (fs_upcase s) False (items_of ly s cs))), s')" and "looked ly s s'"
proof -
  obtain ch' s' where r: "next_file_entry P fuel filt None (chain_new P c (fs_details s), s) =
      (found_entry (scan_entries filt (fs_upcase s) False (items_of ly s cs)) None, ch', s')" and lk: "looked ly s s'"
    using next_file_entry_ok [OF D walking_start [OF D], of fuel filt None] fuel c by auto
  have "first_file_entry P fuel c filt s =
      (Ok (map_option fst (scan_entries filt (fs_upcase s) False (items_of ly s cs))), s')"
    unfolding first_file_entry_def r by (auto simp: found_entry_def split: option.splits)
  then show thesis using lk by (rule that)
qed

lemma tree_looked:
  assumes "tree ly fuel chain s dirs" and lk: "looked ly s s'"
  shows "tree ly fuel chain s' dirs"
  using assms(1) has_dir_looked [OF _ lk] unfolding tree_at_def lookedD(2-4) [OF lk]
  using lookedD(1) [OF lk] by meson

lemma lookup_ok:
  assumes T: "tree ly fuel chain s dirs" and sets: "dirs c = Some sets"
    and f: "exact_name_filter_new nm (fs_upcase s) attrs z = (Ok flt, z')"
  obtains s' where "first_file_entry P fuel c flt s = (Ok (map_option es_details (find (matches (fs_upcase s) nm attrs) sets)), s')"
    and "looked ly s s'"
proof -
  note D = treeD [OF T sets]
  obtain s' where r: "first_file_entry P fuel c flt s =
      (Ok (map_option fst (scan_entries flt (fs_upcase s) False (items_of ly s (chain c)))), s')" and lk: "looked ly s s'"
    by (rule first_file_entry_ok [OF D(2,3,1)])
  have "map_option fst (scan_entries flt (fs_upcase s) False (items_of ly s (chain c))) =
      map_option es_details (find (matches (fs_upcase s) nm attrs) sets)"
    by (rule scan_finds [OF D(4) raw_dir_items [OF D(2)] D(5) f])
  then show thesis using that r lk by simp
qed

lemma leaf_loop_ok:
  assumes "tree ly fuel chain s dirs" and "dirs c \<noteq> None"
  shows "\<exists>s'. leaf_loop P fuel attrs parts c s = (resolved (resolve dirs (fs_upcase s) attrs parts c), s') \<and> looked ly s s'"
  using assms
proof (induction parts arbitrary: c s)
  case Nil
  then show ?case using looked_refl by (auto simp: ret_def resolved_def tree_at_def)
next
  case (Cons part rest)
  let ?t = "fs_upcase s" and ?w = "if rest = [] then attrs else Some Directory"
  obtain sets where sets: "dirs c = Some sets" using Cons.prems(2) by auto
  have lk: "looked ly s s" using Cons.prems(1) looked_refl by (simp add: tree_at_def)
  show ?case
  proof (cases "name_error part")
    case (Some r)
    then show ?thesis
      using lk by (auto simp: andthen_def gets_def map_err_def resolved_def Let_def filter_name_error(1))
  next
    case None
    obtain flt where f: "\<And>s :: 'd file_system. exact_name_filter_new part ?t ?w s = (Ok flt, s)" using filter_name_error(2) [OF None] by metis
    obtain s1 where r: "first_file_entry P fuel c flt s = (Ok (map_option es_details (find (matches ?t part ?w) sets)), s1)"
      and lk1: "looked ly s s1" by (rule lookup_ok [OF Cons.prems(1) sets f])
    show ?thesis
    proof (cases "find (matches ?t part ?w) sets")
      case none: None
      then show ?thesis using lk1 r f None sets
        by (simp add: andthen_def gets_def map_err_def resolved_def Let_def ret_def)
    next
      case (Some x)
      then have x: "x \<in> set sets" "matches ?t part ?w x" by (auto simp: find_Some_iff)
      show ?thesis
      proof (cases "rest = []")
        case True
        then show ?thesis using lk1 r f None sets Some
          by (simp add: andthen_def gets_def map_err_def resolved_def Let_def ret_def)
      next
        case False
        then have dir: "contains (attributes (es_details x)) Directory" using x(2) by (simp add: matches_def)
        then have "dirs (first_cluster (es_details x)) \<noteq> None" using treeD(6) [OF Cons.prems(1) sets x(1)] by simp
        from Cons.IH [OF tree_looked [OF Cons.prems(1) lk1] this] obtain s2 where
          "leaf_loop P fuel attrs rest (first_cluster (es_details x)) s1 =
            (resolved (resolve dirs ?t attrs rest (first_cluster (es_details x))), s2)" "looked ly s1 s2"
          using lookedD(4) [OF lk1] by auto
        then show ?thesis using lk1 looked_trans r f None sets Some False dir
          by (auto simp: andthen_def gets_def map_err_def Let_def)
      qed
    qed
  qed
qed

end

end
