(* ===== verification/Directory_Write.thy ===== *)
theory Directory_Write
  imports Directory_Lookup
begin

text \<open>
  Writing to a directory (\<open>DirSetWriter\<close> of \<open>directory_entry.rs\<close>, \<open>create_file_dir_entry_at\<close> and
  \<open>mark_directory_entry_set_unused\<close> of \<open>file_system.rs\<close>): what becomes of the list of its entries. The writer goes from one
  sector to the next by number, so the sectors of the directory are taken to be consecutive, as in a directory of one
  cluster.
\<close>

section \<open>Entries of a sector\<close>

lemma as_chunks_splice:
  assumes "splice (n * j) r b = Some b'" and "length r = n" and "0 < n" and "j < length b div n"
  shows "as_chunks n b' = (as_chunks n b)[j := r]"
proof (rule nth_equalityI)
  have len: "length b' = length b" using splice_length [OF assms(1)] .
  then show "length (as_chunks n b') = length ((as_chunks n b)[j := r])" by simp
  fix i assume "i < length (as_chunks n b')"
  then have i: "i < length b div n" using len by simp
  show "as_chunks n b' ! i = (as_chunks n b)[j := r] ! i"
  proof (cases "i = j")
    case True
    then show ?thesis using splice_same [OF assms(1)] i len assms(2) by (simp add: as_chunks_nth)
  next
    case False
    then have "n * i + n \<le> n * j \<or> n * j + n \<le> n * i"
      by (metis Suc_leI add.commute mult_Suc_right mult_le_mono2 nat_neq_iff)
    then show ?thesis using splice_disjoint [OF assms(1), of "n * i" n] False i len assms(2) by (simp add: as_chunks_nth)
  qed
qed

lemma as_chunks_set:
  assumes "0 < n" and "i < n" and "j < length b div n"
  shows "as_chunks n (b[n * j + i := x]) = (as_chunks n b)[j := (as_chunks n b ! j)[i := x]]"
proof -
  let ?r = "(as_chunks n b ! j)[i := x]"
  have l: "length (as_chunks n b ! j) = n" using as_chunks_nth_length [OF assms(3)] .
  have fit: "n * j + n \<le> length b" using as_chunks_end [OF assms(3)] by simp
  have "splice (n * j) ?r b = Some (b[n * j + i := x])"
  proof -
    have "take (n * j) b @ ?r @ drop (n * j + n) b = b[n * j + i := x]"
    proof (rule nth_equalityI)
      show "length (take (n * j) b @ ?r @ drop (n * j + n) b) = length (b[n * j + i := x])" using l fit by simp
      fix k assume "k < length (take (n * j) b @ ?r @ drop (n * j + n) b)"
      then have k: "k < length b" using l fit by simp
      then show "(take (n * j) b @ ?r @ drop (n * j + n) b) ! k = b[n * j + i := x] ! k"
        using l fit assms by (auto simp: nth_append nth_list_update as_chunks_nth)
    qed
    then show ?thesis using l fit by (simp add: splice_def)
  qed
  from as_chunks_splice [OF this _ assms(1,3)] l show ?thesis by simp
qed

section \<open>One entry\<close>

text \<open>The sectors of the directory follow each other.\<close>

definition one_run :: "file_system_details \<Rightarrow> u32 list \<Rightarrow> bool" where
  "one_run fsd cs \<longleftrightarrow> (\<exists>b. \<forall>q < length cs * spc_of fsd. unat (dir_sector fsd cs q) = b + q)"

lemma one_run_inj:
  assumes "one_run fsd cs" and "p < length cs * spc_of fsd" and "q < length cs * spc_of fsd"
    and "dir_sector fsd cs p = dir_sector fsd cs q"
  shows "p = q"
  using assms unfolding one_run_def by (metis add_left_cancel)

lemma one_run_Suc:
  assumes "one_run fsd cs" and "Suc q < length cs * spc_of fsd"
  shows "dir_sector fsd cs (Suc q) = dir_sector fsd cs q + 1"
proof -
  obtain b where b: "\<forall>q < length cs * spc_of fsd. unat (dir_sector fsd cs q) = b + q"
    using assms(1) by (auto simp: one_run_def)
  have u: "unat (dir_sector fsd cs (Suc q)) = unat (dir_sector fsd cs q) + 1" using b assms(2) by simp
  then have "unat (dir_sector fsd cs q) + 1 < 2 ^ 32" using unat_less_length [of "dir_sector fsd cs (Suc q)"] by simp
  then have "unat (dir_sector fsd cs q + 1) = unat (dir_sector fsd cs q) + 1" by (simp add: unat_word_ariths)
  then show ?thesis using u by (simp add: word_unat_eq_iff)
qed

lemma next_location:
  assumes "one_run fsd cs" and "0 < dir_entries_per_block P" and "Suc k < dir_size P fsd cs"
  shows "next_dir_entry_location P (dir_location P fsd cs k) = dir_location P fsd cs (Suc k)"
proof (cases "Suc (k mod dir_entries_per_block P) < dir_entries_per_block P")
  case True
  then show ?thesis using Suc_in_row [OF True]
    by (simp add: next_dir_entry_location_def dir_location_def Let_def dir_entries_per_block_def)
next
  case False
  note r = Suc_next_row [OF assms(2) False]
  have e: "Suc (k mod dir_entries_per_block P) = SIZE P div RAW_ENTRY_LEN"
    using False mod_less_divisor [OF assms(2), of k] by (simp add: dir_entries_per_block_def)
  have "dir_sector fsd cs (Suc (k div dir_entries_per_block P)) = dir_sector fsd cs (k div dir_entries_per_block P) + 1"
    using one_run_Suc [OF assms(1)] sector_less [OF assms(3)] r(1) by simp
  then show ?thesis using r e by (simp add: next_dir_entry_location_def dir_location_def Let_def)
qed

text \<open>A change of entry \<open>k\<close> in its sector is a change of item \<open>k\<close>.\<close>

lemma dir_items_update:
  assumes run: "one_run fsd cs" and n: "0 < dir_entries_per_block P" and k: "k < dir_size P fsd cs"
    and b: "as_chunks RAW_ENTRY_LEN b = (as_chunks RAW_ENTRY_LEN (v (dir_sector fsd cs (k div dir_entries_per_block P))))
      [k mod dir_entries_per_block P := r]"
    and len: "length (v (dir_sector fsd cs (k div dir_entries_per_block P))) = SIZE P"
  shows "dir_items P fsd cs (v(dir_sector fsd cs (k div dir_entries_per_block P) := b)) =
    (dir_items P fsd cs v)[k := (r, dir_location P fsd cs k)]"
proof (rule nth_equalityI)
  let ?n = "dir_entries_per_block P" and ?sec = "dir_sector fsd cs (k div dir_entries_per_block P)"
  show "length (dir_items P fsd cs (v(?sec := b))) = length ((dir_items P fsd cs v)[k := (r, dir_location P fsd cs k)])" by simp
  fix j assume "j < length (dir_items P fsd cs (v(?sec := b)))"
  then have j: "j < dir_size P fsd cs" by simp
  have "dir_entry P fsd cs (v(?sec := b)) j = (if j = k then r else dir_entry P fsd cs v j)"
  proof (cases "j div ?n = k div ?n")
    case True
    have "k mod ?n < length (as_chunks RAW_ENTRY_LEN (v ?sec))" using len mod_less_divisor [OF n, of k]
      by (simp add: dir_entries_per_block_def)
    moreover have "j = k \<longleftrightarrow> j mod ?n = k mod ?n" using True by (metis div_mult_mod_eq)
    ultimately show ?thesis using True b by (auto simp: dir_entry_def)
  next
    case False
    then have "dir_sector fsd cs (j div ?n) \<noteq> ?sec"
      using one_run_inj [OF run sector_less [OF j] sector_less [OF k]] by blast
    then show ?thesis using False by (auto simp: dir_entry_def)
  qed
  then show "dir_items P fsd cs (v(?sec := b)) ! j = (dir_items P fsd cs v)[k := (r, dir_location P fsd cs k)] ! j"
    using j k by (simp add: dir_items_nth nth_list_update)
qed

lemma directory_at_data:
  assumes "directory_at P ly cap off v fsd cs" and "ly sec = DataRegion"
  shows "directory_at P ly cap off (v(sec := b)) fsd cs"
proof -
  have "fat_entry_at P off (v(sec := b)) (cs ! i) = fat_entry_at P off v (cs ! i)" if "i < length cs" for i
    using directory_atD(6) [OF assms(1) that] assms(2) by (auto simp: fat_entry_at_view)
  then show ?thesis using assms(1) by (simp add: directory_at_def)
qed

text \<open>
  A directory whose entries have become \<open>es\<close>; no other sector and nothing of the setup has changed. The clock may have
  been read.
\<close>

definition dir_sectors :: "file_system_details \<Rightarrow> u32 list \<Rightarrow> u32 set" where
  "dir_sectors fsd cs = dir_sector fsd cs ` {q. q < length cs * spc_of fsd}"

definition dir_written :: "('d, 'e) platform \<Rightarrow> ('d \<Rightarrow> u32 \<Rightarrow> block) \<Rightarrow> ('d \<Rightarrow> nat) \<Rightarrow> ('d \<Rightarrow> bool) \<Rightarrow> layout \<Rightarrow> u32 list \<Rightarrow>
    'd file_system \<Rightarrow> items \<Rightarrow> 'd file_system \<Rightarrow> bool" where
  "dir_written P sector capacity dev_ok ly cs s es s' \<longleftrightarrow> has_directory P sector capacity dev_ok ly s' cs \<and>
     same_setup capacity s s' \<and> dir_items P (fs_details s') cs (medium sector ly s') = es \<and>
     (\<forall>u. u \<notin> dir_sectors (fs_details s) cs \<longrightarrow> medium sector ly s' u = medium sector ly s u)"

context reliable_device
begin

abbreviation written :: "layout \<Rightarrow> u32 list \<Rightarrow> 'd file_system \<Rightarrow> items \<Rightarrow> 'd file_system \<Rightarrow> bool" where
  "written \<equiv> dir_written P sector capacity dev_ok"

lemma written_trans:
  assumes "written ly cs a es b" and "written ly cs b es' c"
  shows "written ly cs a es' c"
  using assms same_setup_trans same_setupD(1) unfolding dir_written_def by metis

lemma written_refl: "has_dir ly s cs \<Longrightarrow> written ly cs s (items_of ly s cs) s"
  by (simp add: dir_written_def)

lemma writtenD:
  assumes "written ly cs s es s'"
  shows "has_dir ly s' cs" and "fs_details s' = fs_details s"
    and "items_of ly s' cs = es" and "same_setup capacity s s'"
  using assms same_setupD(1) by (auto simp: dir_written_def)

lemma entry_update:
  assumes D: "has_dir ly s cs" and run: "one_run (fs_details s) cs" and k: "k < dir_size P (fs_details s) cs"
    and f: "f (content_of ly s (sector_id (dir_location P (fs_details s) cs k))) = Some b" "length b = SIZE P"
    and b: "as_chunks RAW_ENTRY_LEN b = (as_chunks RAW_ENTRY_LEN (content_of ly s (sector_id (dir_location P (fs_details s) cs k))))
      [dir_entry_offset (dir_location P (fs_details s) cs k) := r]"
  obtains s' where "on_data (update_sector P (sector_id (dir_location P (fs_details s) cs k)) f) s = (Ok (), s')"
    and "written ly cs s ((items_of ly s cs)[k := (r, dir_location P (fs_details s) cs k)]) s'" and "clock s' = clock s"
proof -
  let ?fsd = "fs_details s" and ?sec = "sector_id (dir_location P (fs_details s) cs k)"
  obtain off where V: "vol_ok ly s" "start_of_fat_sector (fs_fat s) = Some off"
    and A: "directory_at P ly (capacity (fs_dev s)) off (content_of ly s) ?fsd cs"
    using D by (auto simp: has_directory_def)
  note A' = directory_atD [OF A]
  have q: "k div dir_entries_per_block P < length cs * spc_of ?fsd" by (rule sector_less [OF k])
  have sec: "?sec = dir_sector ?fsd cs (k div dir_entries_per_block P)" by (simp add: dir_location_def)
  have ly: "ly ?sec = DataRegion" "unat ?sec < capacity (fs_dev s)" using A'(9,10) [OF q] by (simp_all add: sec)
  obtain s' where u: "on_data (update_sector P ?sec f) s = (Ok (), s')" "vol_ok ly s'"
    "content_of ly s' = (content_of ly s)(?sec := b)" "same_setup capacity s s'" "clock s' = clock s"
    by (rule volume_update [of ly s ?sec f b, OF V(1) ly f])
  note st = same_setupD [OF u(4)]
  have "has_dir ly s' cs"
    using u(2) V(2) directory_at_data [OF A ly(1)] unfolding has_directory_def u(3) st by blast
  moreover have "items_of ly s' cs = (items_of ly s cs)[k := (r, dir_location P ?fsd cs k)]"
    using dir_items_update [OF run A'(4) k, of b "content_of ly s" r] b volume_sector_length [OF V(1)]
    unfolding u(3) st by (simp add: dir_location_def)
  moreover have "?sec \<in> dir_sectors ?fsd cs" using q by (auto simp: dir_sectors_def sec)
  ultimately have "written ly cs s ((items_of ly s cs)[k := (r, dir_location P ?fsd cs k)]) s'"
    using u(3,4) by (auto simp: dir_written_def)
  then show thesis using that u(1,5) by simp
qed

end

section \<open>A run of entries\<close>

definition put_raws :: "nat \<Rightarrow> raw_dir_entry list \<Rightarrow> items \<Rightarrow> items" where
  "put_raws k rs es = take k es @ zip rs (map snd (drop k es)) @ drop (k + length rs) es"

lemma put_raws_Nil [simp]: "put_raws k [] es = es"
  by (simp add: put_raws_def)

lemma put_raws_Cons:
  assumes "k < length es"
  shows "put_raws k (r # rs) es = put_raws (Suc k) rs (es[k := (r, snd (es ! k))])"
proof -
  have "drop k es = es ! k # drop (Suc k) es" using assms by (rule Cons_nth_drop_Suc [symmetric])
  moreover have "take (Suc k) (es[k := (r, snd (es ! k))]) = take k es @ [(r, snd (es ! k))]"
    using assms by (simp add: take_Suc_conv_app_nth)
  ultimately show ?thesis by (simp add: put_raws_def)
qed

lemma put_raws_append:
  assumes "k + length rs \<le> length es"
  shows "put_raws k (rs @ rs') es = put_raws (k + length rs) rs' (put_raws k rs es)"
  using assms
proof (induction rs arbitrary: k es)
  case (Cons r rs)
  then show ?case using put_raws_Cons [of k es r] by simp
qed simp

lemma length_put_raws [simp]: "k + length rs \<le> length es \<Longrightarrow> length (put_raws k rs es) = length es"
  by (simp add: put_raws_def)

text \<open>The entries of a name, fifteen units each, the last one filled up with zeros.\<close>

function name_raws :: "u16 list \<Rightarrow> raw_dir_entry list" where
  "name_raws us = (if us = [] then [] else
     file_name_serialize \<lparr>fn_flags = 0, file_name = take 15 us @ replicate (15 - length us) 0\<rparr> # name_raws (drop 15 us))"
  by pat_completeness auto
termination by (relation "measure length") auto

declare name_raws.simps [simp del]

lemma name_raws_Nil [simp]: "name_raws [] = []"
  by (subst name_raws.simps) simp

lemma length_name_raws: "length (name_raws us) = name_count (length us)"
proof (induction us rule: name_raws.induct)
  case (1 us)
  show ?case
  proof (cases "us = []")
    case True
    then show ?thesis by (simp add: name_count_def)
  next
    case False
    then have "length (name_raws us) = Suc (name_count (length us - 15))" using 1 by (subst name_raws.simps) simp
    moreover have "name_count (length us) = Suc (name_count (length us - 15))"
    proof (cases "15 \<le> length us")
      case True
      then show ?thesis by (simp add: name_count_def le_div_geq)
    next
      case less: False
      then have "(length us + 14) div 15 = 1" using False by (intro div_nat_eqI) (auto simp: Suc_le_eq)
      then show ?thesis using less by (simp add: name_count_def)
    qed
    ultimately show ?thesis by simp
  qed
qed

definition later_checksum :: "u16 \<Rightarrow> raw_dir_entry list \<Rightarrow> u16" where
  "later_checksum c rs = foldl (\<lambda>c r. calc_checksum r False c) c rs"

lemma with_checksum:
  "file_dir_serialize (e\<lparr>set_checksum := c\<rparr>) = take 2 (file_dir_serialize e) @ to_le_bytes 2 c @ drop 4 (file_dir_serialize e)"
  by (simp add: file_dir_serialize_def put_def raw_zero_def RAW_ENTRY_LEN_def numeral_eq_Suc)

text \<open>The writer stands at entry \<open>k\<close>.\<close>

definition writes_at :: "('d, 'e) platform \<Rightarrow> file_system_details \<Rightarrow> u32 list \<Rightarrow> nat \<Rightarrow> dir_set_writer \<Rightarrow> bool" where
  "writes_at P fsd cs k w \<longleftrightarrow> (k < dir_size P fsd cs \<longrightarrow> dw_current w = dir_location P fsd cs k)"

context reliable_device
begin

lemma entry_store:
  assumes W: "written ly cs s0 es s" and run: "one_run (fs_details s0) cs" and k: "k < dir_size P (fs_details s0) cs"
    and loc: "loc = dir_location P (fs_details s0) cs k" and raw: "length raw = RAW_ENTRY_LEN"
    and f: "\<And>b. length b = SIZE P \<Longrightarrow> dir_entry_offset loc * RAW_ENTRY_LEN + RAW_ENTRY_LEN \<le> length b \<Longrightarrow>
      f b = splice (dir_entry_offset loc * RAW_ENTRY_LEN) raw b"
  obtains s' where "on_data (update_sector P (sector_id loc) f) s = (Ok (), s')"
    and "written ly cs s0 (put_raws k [raw] es) s'" and "clock s' = clock s"
proof -
  let ?fsd = "fs_details s0" and ?b = "content_of ly s (sector_id (dir_location P (fs_details s0) cs k))"
  note W' = writtenD [OF W]
  obtain off where V: "vol_ok ly s" and A: "directory_at P ly (capacity (fs_dev s)) off (content_of ly s) ?fsd cs"
    using W'(1,2) by (auto simp: has_directory_def)
  have off: "dir_entry_offset loc < SIZE P div RAW_ENTRY_LEN"
    using mod_less_divisor [OF directory_atD(4) [OF A], of k] by (simp add: loc dir_location_def dir_entries_per_block_def)
  have lb: "length ?b = SIZE P" by (rule volume_sector_length [OF V])
  have fit: "dir_entry_offset loc * RAW_ENTRY_LEN + RAW_ENTRY_LEN \<le> length ?b"
    using as_chunks_end [of "dir_entry_offset loc" ?b RAW_ENTRY_LEN] off lb by (simp add: mult.commute)
  obtain b where b: "splice (dir_entry_offset loc * RAW_ENTRY_LEN) raw ?b = Some b" using fit raw by (simp add: splice_def)
  have cb: "as_chunks RAW_ENTRY_LEN b = (as_chunks RAW_ENTRY_LEN ?b)[dir_entry_offset loc := raw]"
    by (rule as_chunks_splice) (use b off lb raw in \<open>simp_all add: mult.commute RAW_ENTRY_LEN_def\<close>)
  have lb': "length b = SIZE P" using splice_length [OF b] lb by simp
  have fb: "f ?b = Some b" using f [OF lb fit] b by simp
  obtain s' where u: "on_data (update_sector P (sector_id loc) f) s = (Ok (), s')"
    "written ly cs s (es[k := (raw, loc)]) s'" "clock s' = clock s"
    by (rule entry_update [of ly s cs k f b raw, unfolded W'(2) W'(3) [unfolded W'(2)],
          OF W'(1) run k fb lb' cb [unfolded loc], folded loc]) (rule that; assumption)
  have es: "snd (es ! k) = loc" "k < length es"
    using W'(3) k dir_items_nth [OF k, of "content_of ly s"] W'(2) loc by auto
  then have "put_raws k [raw] es = es[k := (raw, loc)]" using put_raws_Cons [of k es raw "[]"] by simp
  then have "written ly cs s0 (put_raws k [raw] es) s'" using written_trans [OF W u(2)] by simp
  then show thesis using that u(1,3) by blast
qed

lemma writer_add_ok:
  assumes W: "written ly cs s0 es s" and run: "one_run (fs_details s0) cs" and k: "k < dir_size P (fs_details s0) cs"
    and w: "writes_at P (fs_details s0) cs k w" and raw: "length raw = RAW_ENTRY_LEN"
  obtains s' t' where "writer_add P raw fd w (s, t) = (Ok (add_no_write P raw fd w), s', t')"
    and "written ly cs s0 (put_raws k [raw] es) s'" and "writes_at P (fs_details s0) cs (Suc k) (add_no_write P raw fd w)"
    and "clock s' = clock s"
proof -
  have loc: "dw_current w = dir_location P (fs_details s0) cs k" using w k by (simp add: writes_at_def)
  obtain s' where u: "on_data (update_sector P (sector_id (dw_current w)) (splice (dir_entry_offset (dw_current w) * RAW_ENTRY_LEN) raw)) s =
      (Ok (), s')" "written ly cs s0 (put_raws k [raw] es) s'" "clock s' = clock s"
    by (rule entry_store [OF W run k loc raw, of "splice (dir_entry_offset (dw_current w) * RAW_ENTRY_LEN) raw"]) (simp, (rule that; assumption))
  have n: "0 < dir_entries_per_block P" using writtenD(1) [OF W] directory_atD(4) by (auto simp: has_directory_def)
  have "writes_at P (fs_details s0) cs (Suc k) (add_no_write P raw fd w)"
    using next_location [OF run n] loc by (simp add: writes_at_def add_no_write_def)
  moreover have "writer_add P raw fd w (s, t) =
      (Ok (add_no_write P raw fd w), s', touched_insert (touched_sector_new TkDir (sector_id (dw_current w))) t)"
    using u(1) by (simp add: writer_add_def andthen_def on_fs_def zoom_def touch_def modify_def ret_def Let_def)
  ultimately show thesis using that u(2,3) by blast
qed

lemma name_entries_loop_ok:
  assumes "written ly cs s0 es s" and "one_run (fs_details s0) cs" and "k + name_count (length us) \<le> dir_size P (fs_details s0) cs"
    and "writes_at P (fs_details s0) cs k w" and "length us < fuel" and "length es = dir_size P (fs_details s0) cs"
  shows "\<exists>w' s' t'. name_entries_loop P fuel us w (s, t) = (Ok w', s', t') \<and> written ly cs s0 (put_raws k (name_raws us) es) s' \<and>
    dw_checksum w' = later_checksum (dw_checksum w) (name_raws us) \<and> dw_start w' = dw_start w \<and> clock s' = clock s"
  using assms
proof (induction fuel arbitrary: us k w s t es)
  case (Suc fuel)
  show ?case
  proof (cases "us = []")
    case True
    then show ?thesis using Suc.prems(1) by (simp add: next_chunk_eq ret_def later_checksum_def)
  next
    case False
    let ?chunk = "take 15 us @ replicate (15 - length us) 0"
    let ?raw = "file_name_serialize \<lparr>fn_flags = 0, file_name = ?chunk\<rparr>"
    have raw: "length ?raw = RAW_ENTRY_LEN" by (simp add: RAW_ENTRY_LEN_def min_def)
    have rs: "name_raws us = ?raw # name_raws (drop 15 us)" using False by (subst name_raws.simps) simp
    have cnt: "name_count (length us) = Suc (name_count (length (drop 15 us)))"
      using arg_cong [OF rs, of length] length_name_raws by simp
    then have k: "k < dir_size P (fs_details s0) cs" using Suc.prems(3) by simp
    obtain s1 t1 where a: "writer_add P ?raw False w (s, t) = (Ok (add_no_write P ?raw False w), s1, t1)"
      "written ly cs s0 (put_raws k [?raw] es) s1" "writes_at P (fs_details s0) cs (Suc k) (add_no_write P ?raw False w)"
      "clock s1 = clock s" by (rule writer_add_ok [OF Suc.prems(1,2) k Suc.prems(4) raw])
    have ch: "next_chunk (replicate 15 0) us = (Ok (Some (min 15 (length us)), ?chunk), drop 15 us)"
      using False by (subst next_chunk_eq) simp_all
    have "name_entries_loop P (Suc fuel) us w (s, t) = name_entries_loop P fuel (drop 15 us) (add_no_write P ?raw False w) (s1, t1)"
      by (simp add: ch andthen_Ok [where m = "writer_add P ?raw False w", OF a(1)])
    moreover have "Suc k + name_count (length (drop 15 us)) \<le> dir_size P (fs_details s0) cs" using Suc.prems(3) cnt by simp
    moreover have "length (drop 15 us) < fuel" using Suc.prems(5) False by (cases us) auto
    moreover have "length (put_raws k [?raw] es) = dir_size P (fs_details s0) cs" using Suc.prems(6) k by simp
    moreover note Suc.IH [OF a(2) Suc.prems(2) _ a(3), of "drop 15 us" t1]
    ultimately obtain w' s' t' where r: "name_entries_loop P (Suc fuel) us w (s, t) = (Ok w', s', t')"
      "written ly cs s0 (put_raws (Suc k) (name_raws (drop 15 us)) (put_raws k [?raw] es)) s'"
      "dw_checksum w' = later_checksum (dw_checksum (add_no_write P ?raw False w)) (name_raws (drop 15 us))"
      "dw_start w' = dw_start (add_no_write P ?raw False w)" "clock s' = clock s1" by auto
    have "put_raws (Suc k) (name_raws (drop 15 us)) (put_raws k [?raw] es) = put_raws k (name_raws us) es"
      using put_raws_append [of k "[?raw]" es "name_raws (drop 15 us)"] k Suc.prems(6) rs by simp
    then show ?thesis using r a(4) by (simp add: rs add_no_write_def later_checksum_def)
  qed
qed simp

text \<open>The first entry is written again, with the checksum of the whole set.\<close>

lemma writer_finish_ok:
  assumes W: "written ly cs s0 es s" and run: "one_run (fs_details s0) cs" and k: "k < dir_size P (fs_details s0) cs"
    and w: "dw_start w = dir_location P (fs_details s0) cs k"
  obtains s' t' where "writer_finish P (file_dir_serialize e) w (s, t) = (Ok (), s', t')"
    and "written ly cs s0 (put_raws k [file_dir_serialize (e\<lparr>set_checksum := dw_checksum w\<rparr>)] es) s'" and "clock s' = clock s"
proof -
  let ?raw = "file_dir_serialize e" and ?new = "file_dir_serialize (e\<lparr>set_checksum := dw_checksum w\<rparr>)"
  let ?i = "dir_entry_offset (dw_start w) * RAW_ENTRY_LEN"
  let ?f = "\<lambda>b. case splice ?i ?raw b of None \<Rightarrow> None | Some b' \<Rightarrow> splice (?i + 2) (to_le_bytes 2 (dw_checksum w)) b'"
  have raw: "length ?new = RAW_ENTRY_LEN" by (simp add: RAW_ENTRY_LEN_def)
  have f: "?f b = splice ?i ?new b" if "?i + RAW_ENTRY_LEN \<le> length b" for b
    using that by (simp add: splice_def with_checksum RAW_ENTRY_LEN_def)
  obtain s' where u: "on_data (update_sector P (sector_id (dw_start w)) ?f) s = (Ok (), s')"
    "written ly cs s0 (put_raws k [?new] es) s'" "clock s' = clock s"
    by (rule entry_store [OF W run k w raw, of ?f]) ((rule f; assumption), (rule that; assumption))
  have "writer_finish P ?raw w (s, t) = (Ok (), s', touched_insert (touched_sector_new TkDir (sector_id (dw_start w))) t)"
    using u(1) by (simp add: writer_finish_def andthen_def on_fs_def zoom_def touch_def modify_def Let_def)
  then show thesis using that u(2,3) by blast
qed

end

end
