(* ===== verification/Directory_Create.thy ===== *)
theory Directory_Create
  imports Directory_Write
begin

text \<open>
  Creating and deleting the entry set of a file (\<open>find_empty_dir_entry_set\<close>, \<open>create_file_dir_entry_at\<close> and
  \<open>mark_directory_entry_set_unused\<close> of \<open>file_system.rs\<close>) as operations on the list of sets of the directory: one set more,
  in a gap, or one set less.
\<close>

section \<open>Gaps\<close>

definition free_item :: "raw_dir_entry \<times> location \<Rightarrow> bool" where
  "free_item e \<longleftrightarrow> \<not> bit (fst e ! 0) 7"

text \<open>The search for a run of free entries: the run so far has \<open>c\<close> entries and starts at \<open>st\<close>.\<close>

fun gap :: "nat \<Rightarrow> nat \<Rightarrow> location option \<Rightarrow> items \<Rightarrow> location option" where
  "gap len c st [] = st"
| "gap len c st (e # es) =
     (if free_item e
      then let st' = (if st = None then Some (snd e) else st) in if Suc c = len then st' else gap len (Suc c) st' es
      else gap len 0 None es)"

definition gap_at :: "items \<Rightarrow> nat \<Rightarrow> nat \<Rightarrow> bool" where
  "gap_at es k len \<longleftrightarrow> k + len \<le> length es \<and> (\<forall>j. k \<le> j \<longrightarrow> j < k + len \<longrightarrow> free_item (es ! j))"

definition gap_start :: "items \<Rightarrow> nat \<Rightarrow> bool" where
  "gap_start es k \<longleftrightarrow> k = 0 \<or> \<not> free_item (es ! (k - 1))"

text \<open>If there is a gap of the length asked for, the first one is found.\<close>

lemma gap_found:
  assumes "j \<le> length es" and "c \<le> j" and "c < len" and "st = (if c = 0 then None else Some (snd (es ! (j - c))))"
    and "gap_at es (j - c) c" and "gap_start es (j - c)" and "\<exists>k \<ge> j - c. gap_at es k len"
  shows "\<exists>k. gap len c st (drop j es) = Some (snd (es ! k)) \<and> gap_at es k len \<and> gap_start es k"
  using assms
proof (induction "length es - j" arbitrary: j c st)
  case 0
  then obtain k where "j - c \<le> k" "k + len \<le> length es" by (auto simp: gap_at_def)
  then show ?case using 0 by simp
next
  case (Suc n)
  then have j: "j < length es" by simp
  have d: "drop j es = es ! j # drop (Suc j) es" using j by (rule Cons_nth_drop_Suc [symmetric])
  have n: "n = length es - Suc j" using Suc.hyps(2) by simp
  show ?case
  proof (cases "free_item (es ! j)")
    case True
    let ?st = "if st = None then Some (snd (es ! j)) else st"
    have st: "?st = Some (snd (es ! (j - c)))" using Suc.prems(4) by auto
    have g: "gap_at es (j - c) (Suc c)" using Suc.prems(2,5) True j by (auto simp: gap_at_def less_Suc_eq)
    show ?thesis
    proof (cases "Suc c = len")
      case eq: True
      then show ?thesis using True d st g Suc.prems(6) by (auto simp: Let_def)
    next
      case False
      then have "\<exists>k. gap len (Suc c) ?st (drop (Suc j) es) = Some (snd (es ! k)) \<and> gap_at es k len \<and> gap_start es k"
        using Suc.hyps(1) [OF n, of "Suc c" ?st] Suc.prems st g j by simp
      then show ?thesis using True d False by (simp add: Let_def)
    qed
  next
    case False
    have "\<exists>k \<ge> Suc j. gap_at es k len"
    proof -
      obtain k where k: "j - c \<le> k" "gap_at es k len" using Suc.prems(7) by blast
      have "\<not> (k \<le> j \<and> j < k + len)" using k(2) False by (auto simp: gap_at_def)
      moreover have "\<not> k + len \<le> j" using k(1) Suc.prems(2,3) by linarith
      ultimately show ?thesis using k(2) by (auto simp: Suc_le_eq not_le)
    qed
    moreover have "gap_at es (Suc j) 0" "gap_start es (Suc j)" using j False by (simp_all add: gap_at_def gap_start_def)
    ultimately have "\<exists>k. gap len 0 None (drop (Suc j) es) = Some (snd (es ! k)) \<and> gap_at es k len \<and> gap_start es k"
      using Suc.hyps(1) [OF n, of 0 None] Suc.prems(3) j by simp
    then show ?thesis using False d by simp
  qed
qed

text \<open>If there is none, but the last entry is free, the run at the end is taken for one.\<close>

lemma gap_short:
  assumes "j \<le> length es" and "c \<le> j" and "st = (if c = 0 then None else Some (snd (es ! (j - c))))"
    and "gap_at es (j - c) c" and "gap_start es (j - c)" and "\<forall>k. \<not> gap_at es k len" and "es \<noteq> []" and "free_item (last es)"
  shows "\<exists>k < length es. gap len c st (drop j es) = Some (snd (es ! k)) \<and> length es < k + len"
  using assms
proof (induction "length es - j" arbitrary: j c st)
  case 0
  then have j: "j = length es" by simp
  have c: "c \<noteq> 0"
  proof
    assume "c = 0"
    then show False using 0(6,8,9) j by (simp add: gap_start_def last_conv_nth)
  qed
  moreover have "\<not> j - c + len \<le> length es"
  proof
    assume fit: "j - c + len \<le> length es"
    then have "gap_at es (j - c) len" using 0(3,5) j by (auto simp: gap_at_def)
    then show False using 0(7) by blast
  qed
  ultimately show ?case using 0(3,4,8) j by (intro exI [of _ "j - c"]) (cases es, auto)
next
  case (Suc n)
  then have j: "j < length es" by simp
  have d: "drop j es = es ! j # drop (Suc j) es" using j by (rule Cons_nth_drop_Suc [symmetric])
  have n: "n = length es - Suc j" using Suc.hyps(2) by simp
  show ?case
  proof (cases "free_item (es ! j)")
    case True
    let ?st = "if st = None then Some (snd (es ! j)) else st"
    have st: "?st = Some (snd (es ! (j - c)))" using Suc.prems(3) by auto
    have g: "gap_at es (j - c) (Suc c)" using Suc.prems(2,4) True j by (auto simp: gap_at_def less_Suc_eq)
    then have ne: "Suc c \<noteq> len" using Suc.prems(6) by metis
    have "\<exists>k < length es. gap len (Suc c) ?st (drop (Suc j) es) = Some (snd (es ! k)) \<and> length es < k + len"
      by (rule Suc.hyps(1) [OF n, of "Suc c" ?st]) (use Suc.prems st g j in simp_all)
    then show ?thesis using True d ne by (simp add: Let_def)
  next
    case False
    have "gap_at es (Suc j) 0" "gap_start es (Suc j)" using j False by (simp_all add: gap_at_def gap_start_def)
    then show ?thesis using Suc.hyps(1) [OF n, of 0 None] Suc.prems(6-8) j False d by simp
  qed
qed

section \<open>Sets around a gap\<close>

lemma free_not_type:
  assumes "free_item e" and "has_type et e"
  shows "et = EndOfDirectory \<or> (\<exists>x. et = Unused x)"
  using assms entry_type_in_use [of "fst e ! 0"] by (auto simp: free_item_def has_type_def)

lemma end_free:
  assumes "is_end_of_directory (fst e)" and "length (fst e) = RAW_ENTRY_LEN"
  shows "free_item e"
proof -
  have "fst e ! 0 = 0" using assms by (simp add: is_end_of_directory_def list_all_length RAW_ENTRY_LEN_def)
  then show ?thesis by (simp add: free_item_def)
qed

lemma dir_sets_all_end: "list_all (\<lambda>e. is_end_of_directory (fst e)) es \<Longrightarrow> dir_sets es = Some []"
  by (cases es) auto

text \<open>Free entries say nothing.\<close>

lemma dir_sets_skip_free:
  assumes "dir_sets (fs @ post) = Some sets" and "list_all free_item fs" and "raw_items fs"
  shows "dir_sets post = Some sets"
  using assms
proof (induction fs)
  case (Cons e fs)
  obtain raw loc where e: "e = (raw, loc)" by (cases e)
  have "entry_type_from (raw ! 0) \<noteq> FileAndDirectory" using Cons.prems(2) free_not_type [of e FileAndDirectory]
    by (auto simp: e has_type_def)
  then show ?case
    using Cons dir_sets_all_end by (auto simp: e split: if_splits)
qed simp

text \<open>The first set of a directory that starts with one.\<close>

lemma dir_sets_first:
  assumes ds: "dir_sets ((raw, loc) # es) = Some sets" and ty: "\<not> is_end_of_directory raw" "entry_type_from (raw ! 0) = FileAndDirectory"
  obtains e2 ns es2 x post where "es = e2 # ns @ es2" and "has_type StreamExtension e2" and "list_all (has_type Filename) ns"
    and "es_details x = details_of (file_dir_from raw) (stream_ext_from (fst e2)) loc"
    and "unat (fd_secondary_count (es_details x)) = Suc (length ns)" and "sets = x # post" and "dir_sets es2 = Some post"
    and "\<And>rest r. dir_sets rest = Some r \<Longrightarrow> dir_sets ((raw, loc) # e2 # ns @ rest) = Some (x # r)"
proof -
  obtain e2 es2 where es: "es = e2 # es2" using ds ty by (cases es) auto
  let ?st = "stream_ext_from (fst e2)"
  define n m x where "n = unat (name_length ?st)" and "m = name_count n" and
    "x = \<lparr>es_details = details_of (file_dir_from raw) ?st loc, es_hash = name_hash ?st, es_name = take n (name_units (take m es2))\<rparr>"
  from ds ty obtain post where c: "has_type StreamExtension e2" "0 < n" "m \<le> length es2"
    "list_all (has_type Filename) (take m es2)" "unat (secondary_count (file_dir_from raw)) = Suc m"
    and post: "dir_sets (drop m es2) = Some post" "sets = x # post"
    by (auto simp: es Let_def n_def m_def x_def split: if_splits)
  have "dir_sets ((raw, loc) # e2 # take m es2 @ rest) = Some (x # r)" if "dir_sets rest = Some r" for rest r
    using that ty c by (simp add: Let_def n_def [symmetric] m_def [symmetric] x_def)
  then show thesis
    using that [of e2 "take m es2" "drop m es2" x post] c post by (simp add: es x_def details_of_def)
qed

text \<open>A gap separates the sets in front of it from those behind it.\<close>

lemma dir_sets_split:
  assumes "dir_sets es = Some sets" and "raw_items es" and "k < length es" and "free_item (es ! k)" and "gap_start es k"
  shows "\<exists>s1 s2. sets = s1 @ s2 \<and> dir_sets (drop k es) = Some s2 \<and>
    (\<forall>rest r. dir_sets rest = Some r \<longrightarrow> dir_sets (take k es @ rest) = Some (s1 @ r))"
  using assms
proof (induction es arbitrary: sets k rule: length_induct)
  case (1 es)
  show ?case
  proof (cases k)
    case 0
    then show ?thesis using 1(2) by auto
  next
    case (Suc k')
    obtain raw loc es' where es: "es = (raw, loc) # es'" using 1(4) by (cases es) auto
    have nend: "\<not> is_end_of_directory raw"
    proof
      assume e: "is_end_of_directory raw"
      then have "list_all (\<lambda>e. is_end_of_directory (fst e)) es" using 1(2) by (auto simp: es split: if_splits)
      then have "free_item (es ! k')"
        using 1(3,4) Suc end_free [of "es ! k'"] by (simp add: list_all_length raw_items_def)
      then show False using 1(6) Suc by (simp add: gap_start_def)
    qed
    show ?thesis
    proof (cases "entry_type_from (raw ! 0) = FileAndDirectory")
      case False
      have ds: "dir_sets es' = Some sets" using 1(2) nend False by (simp add: es)
      have st: "gap_start es' k'" using 1(6) Suc by (cases k') (simp_all add: gap_start_def es)
      show ?thesis
        using 1(1) [rule_format, of es' sets k'] ds st 1(3-5) nend False by (simp add: Suc es)
    next
      case fde: True
      obtain e2 ns es2 x post where c: "es' = e2 # ns @ es2" "has_type StreamExtension e2" "list_all (has_type Filename) ns"
        and post: "sets = x # post" "dir_sets es2 = Some post"
        and set: "\<And>rest r. dir_sets rest = Some r \<Longrightarrow> dir_sets ((raw, loc) # e2 # ns @ rest) = Some (x # r)"
        by (rule dir_sets_first [OF 1(2) [unfolded es] nend fde]) (rule that; assumption)
      have used: "\<not> free_item e2" "i < length ns \<Longrightarrow> \<not> free_item (ns ! i)" for i
        using c(2,3) free_not_type [of e2] free_not_type [of "ns ! i" Filename] by (auto simp: list_all_length)
      have k: "Suc (Suc (length ns)) \<le> k"
      proof (rule ccontr)
        assume "\<not> Suc (Suc (length ns)) \<le> k"
        then have "k' = 0 \<or> (\<exists>i < length ns. k' = Suc i)" using Suc by (cases k') auto
        then show False using 1(5) used by (auto simp: Suc es c(1) nth_append)
      qed
      define k2 where "k2 = k - Suc (Suc (length ns))"
      have k2: "k = Suc (Suc (length ns + k2))" using k by (simp add: k2_def)
      have st: "gap_start es2 k2" using 1(6) by (cases k2) (simp_all add: gap_start_def k2 es c(1) nth_append)
      obtain s1 s2 where s: "post = s1 @ s2" "dir_sets (drop k2 es2) = Some s2"
        "\<And>rest r. dir_sets rest = Some r \<Longrightarrow> dir_sets (take k2 es2 @ rest) = Some (s1 @ r)"
        using 1(1) [rule_format, of es2 post k2] st post(2) 1(3-5) by (auto simp: k2 es c(1))
      have "dir_sets (take k es @ rest) = Some ((x # s1) @ r)" if "dir_sets rest = Some r" for rest r
        using set [OF s(3) [OF that]] by (simp add: k2 es c(1))
      then show ?thesis using s post(1) by (intro exI [of _ "x # s1"] exI [of _ s2]) (auto simp: k2 es c(1))
    qed
  qed
qed

section \<open>The search for a gap\<close>

context reliable_device
begin

lemma find_empty_loop_ok:
  assumes D: "has_dir ly s0 cs"
  shows "walking ly s0 cs es (ch, s) \<Longrightarrow> length es < fuel \<Longrightarrow>
    \<exists>ch' s'. find_empty_loop P fuel len c st (ch, s) = (Ok (gap len c st es), ch', s') \<and> looked ly s0 s'"
proof (induction es arbitrary: ch s fuel c st)
  case Nil
  obtain ch' s' where "chain_next P (ch, s) = (Ok None, ch', s')" "looked ly s0 s'"
    using walking_next(1) [OF D Nil(1)] by blast
  then show ?case using Nil(2) by (cases fuel) (auto simp: andthen_def ret_def)
next
  case (Cons e es)
  obtain fl where fl: "fuel = Suc fl" using Cons.prems(2) by (cases fuel) auto
  obtain raw loc where e: "e = (raw, loc)" by (cases e)
  obtain ch' s' where r: "chain_next P (ch, s) = (Ok (Some e), ch', s')" and w': "walking ly s0 cs es (ch', s')"
    using walking_next(2) [OF D Cons.prems(1) refl] by auto
  let ?st = "if st = None then Some loc else st"
  have step: "find_empty_loop P fuel len c st (ch, s) =
      (if free_item e then (if Suc c = len then (Ok ?st, ch', s') else find_empty_loop P fl len (Suc c) ?st (ch', s'))
       else find_empty_loop P fl len 0 None (ch', s'))"
    using entry_type_in_use [of "raw ! 0"] r
    by (auto simp: fl e andthen_def ret_def free_item_def Let_def split: entry_type.splits)
  show ?case
    using Cons.IH [OF w', of fl "Suc c" ?st] Cons.IH [OF w', of fl 0 None] Cons.prems(2) walking_looked [OF w']
    unfolding step by (auto simp: fl e Let_def)
qed

lemma find_empty_dir_entry_set_ok:
  assumes D: "has_dir ly s cs" and fuel: "dir_size P (fs_details s) cs < fuel" and c: "hd cs = c" and len: "0 < len"
    and g: "gap_at (items_of ly s cs) k0 len"
  obtains k s' where "find_empty_dir_entry_set P fuel c len s = (Ok (dir_location P (fs_details s) cs k), s')"
    and "looked ly s s'" and "gap_at (items_of ly s cs) k len" and "gap_start (items_of ly s cs) k"
proof -
  let ?es = "items_of ly s cs"
  obtain ch' s' where r: "find_empty_loop P fuel len 0 None (chain_new P c (fs_details s), s) = (Ok (gap len 0 None ?es), ch', s')"
    and lk: "looked ly s s'"
    using find_empty_loop_ok [OF D walking_start [OF D], of fuel len 0 None] fuel c by auto
  have "gap_at ?es 0 0" "gap_start ?es 0" by (simp_all add: gap_at_def gap_start_def)
  then obtain k where k: "gap len 0 None ?es = Some (snd (?es ! k))" "gap_at ?es k len" "gap_start ?es k"
    using gap_found [of 0 ?es 0 len None] len g by auto
  have "k < dir_size P (fs_details s) cs" using k(2) len by (simp add: gap_at_def)
  then have "find_empty_dir_entry_set P fuel c len s = (Ok (dir_location P (fs_details s) cs k), s')"
    using r k(1) by (simp add: find_empty_dir_entry_set_def dir_items_nth)
  then show thesis using that lk k by blast
qed

end

section \<open>A new set\<close>

lemma name_raws_Cons:
  "us \<noteq> [] \<Longrightarrow> name_raws us = file_name_serialize \<lparr>fn_flags = 0, file_name = take 15 us @ replicate (15 - length us) 0\<rparr> #
     name_raws (drop 15 us)"
  by (subst name_raws.simps) simp

lemma name_raws_types: "r \<in> set (name_raws us) \<Longrightarrow> entry_type_from (r ! 0) = Filename"
proof (induction us rule: name_raws.induct)
  case (1 us)
  then show ?case by (cases "us = []") (auto simp: name_raws_Cons serialized_types min_def)
qed

lemma name_units_raws:
  assumes "name_count (length us) \<le> length locs"
  shows "take (length us) (name_units (zip (name_raws us) locs)) = us"
  using assms
proof (induction us arbitrary: locs rule: name_raws.induct)
  case (1 us)
  show ?case
  proof (cases "us = []")
    case False
    let ?e = "\<lparr>fn_flags = 0, file_name = take 15 us @ replicate (15 - length us) 0\<rparr>"
    have cnt: "name_count (length us) = Suc (name_count (length (drop 15 us)))"
      using arg_cong [OF name_raws_Cons [OF False], of length] length_name_raws by simp
    then obtain l ls where locs: "locs = l # ls" using 1(2) by (cases locs) auto
    have IH: "take (length us - 15) (name_units (zip (name_raws (drop 15 us)) ls)) = drop 15 us"
      using 1(1) [OF False, of ls] 1(2) cnt by (simp add: locs)
    have "file_name (file_name_from (file_name_serialize ?e)) = file_name ?e"
      by (subst file_name_roundtrip) (simp_all add: secondary_flags_truncate_def min_def)
    then have "name_units (zip (name_raws us) locs) =
        (take 15 us @ replicate (15 - length us) 0) @ name_units (zip (name_raws (drop 15 us)) ls)"
      by (simp add: name_raws_Cons [OF False] locs name_units_def)
    then show ?thesis using IH by (cases "15 \<le> length us") (simp_all add: min_def)
  qed simp
qed

definition checksum_right :: "raw_dir_entry list \<Rightarrow> bool" where
  "checksum_right rs \<longleftrightarrow> set_checksum (file_dir_from (hd rs)) = later_checksum (calc_checksum (hd rs) True 0) (tl rs)"

lemma checksum_right_new:
  "checksum_right (file_dir_serialize (fd\<lparr>set_checksum := later_checksum (calc_checksum (file_dir_serialize fd) True 0) rs\<rparr>) # rs)"
proof -
  let ?c = "later_checksum (calc_checksum (file_dir_serialize fd) True 0) rs"
  have "file_dir_serialize (fd\<lparr>set_checksum := ?c\<rparr>) = put 2 (to_le_bytes 2 ?c) (file_dir_serialize fd)"
    by (simp add: with_checksum put_def)
  then have "calc_checksum (file_dir_serialize (fd\<lparr>set_checksum := ?c\<rparr>)) True 0 = calc_checksum (file_dir_serialize fd) True 0"
    by (simp add: calc_checksum_field)
  moreover have "set_checksum (file_dir_from (file_dir_serialize (fd\<lparr>set_checksum := ?c\<rparr>))) = ?c"
    by (simp add: file_dir_from_def file_dir_layout le16_def)
  ultimately show ?thesis by (simp add: checksum_right_def)
qed

lemma dir_sets_new:
  assumes "us \<noteq> []" and "length us \<le> 255" and "Suc (Suc (name_count (length us))) \<le> length locs"
    and "file_attributes_truncate (fd_file_attributes fd) = fd_file_attributes fd"
    and "secondary_flags_truncate (se_flags st) = se_flags st"
    and "secondary_count fd = of_nat (Suc (name_count (length us)))" and "name_length st = of_nat (length us)"
    and "dir_sets post = Some r"
  shows "dir_sets (zip (file_dir_serialize fd # stream_ext_serialize st # name_raws us) locs @ post) =
    Some (\<lparr>es_details = details_of fd st (hd locs), es_hash = name_hash st, es_name = us\<rparr> # r)"
proof -
  obtain l1 l2 ls where locs: "locs = l1 # l2 # ls" "name_count (length us) \<le> length ls"
    using assms(3) by (cases locs; cases "tl locs") auto
  let ?m = "name_count (length us)" and ?ns = "zip (name_raws us) ls"
  have "Suc ?m < 256" using assms(2) div_le_mono [of "length us + 14" 269 15] by (simp add: name_count_def)
  then have n: "unat (name_length st) = length us" "unat (secondary_count fd) = Suc ?m"
    using assms(2) unfolding assms(6,7) by (simp_all add: unat_of_nat del: of_nat_Suc)
  have len: "length ?ns = ?m" using locs(2) by (simp add: length_name_raws)
  have ty: "list_all (has_type Filename) ?ns"
    using name_raws_types by (auto simp: list_all_iff has_type_def dest: set_zip_leftD)
  have "\<not> is_end_of_directory (file_dir_serialize fd)" by (simp add: is_end_of_directory_def file_dir_layout)
  moreover have "has_type StreamExtension (stream_ext_serialize st, l2)" by (simp add: has_type_def serialized_types)
  ultimately show ?thesis
    using assms(1,8) len ty name_units_raws [OF locs(2)]
    by (simp add: locs(1) Let_def serialized_types file_dir_roundtrip [OF assms(4)] stream_ext_roundtrip [OF assms(5)] n)
qed

section \<open>Creating an entry\<close>

text \<open>The details as they are read back: the entry has no field for the 10 ms increment of the last access.\<close>

definition stored_details :: "file_details \<Rightarrow> file_details" where
  "stored_details d = d\<lparr>fd_accessed := (fd_accessed d)\<lparr>increment_10ms := 0\<rparr>\<rparr>"

lemma put_raws_again:
  assumes "k < length es"
  shows "put_raws k [b] (put_raws k (a # rs) es) = put_raws k (b # rs) es"
  using assms by (simp add: put_raws_def drop_map [symmetric] Cons_nth_drop_Suc [symmetric])

lemma put_raws_sets:
  assumes ds: "dir_sets es = Some sets" and raw: "raw_items es" and g: "gap_at es k (length rs)" "gap_start es k" and rs: "rs \<noteq> []"
    and new: "\<And>post r. dir_sets post = Some r \<Longrightarrow> dir_sets (zip rs (map snd (drop k es)) @ post) = Some (x # r)"
  obtains s1 s2 where "sets = s1 @ s2" and "dir_sets (put_raws k rs es) = Some (s1 @ x # s2)"
proof -
  obtain n where "length rs = Suc n" using rs by (cases rs) auto
  then have k: "k < length es" "free_item (es ! k)" using g(1) by (simp_all add: gap_at_def)
  obtain s1 s2 where s: "sets = s1 @ s2" "dir_sets (drop k es) = Some s2"
    "\<And>rest r. dir_sets rest = Some r \<Longrightarrow> dir_sets (take k es @ rest) = Some (s1 @ r)"
    using dir_sets_split [OF ds raw k g(2)] by blast
  have sp: "drop k es = take (length rs) (drop k es) @ drop (k + length rs) es"
    by (metis append_take_drop_id drop_drop add.commute)
  have "list_all free_item (take (length rs) (drop k es))"
    using g(1) by (auto simp: list_all_length gap_at_def)
  then have "dir_sets (drop (k + length rs) es) = Some s2"
    using dir_sets_skip_free [of "take (length rs) (drop k es)" "drop (k + length rs) es" s2] s(2) sp
      raw_items_take_drop(1) [OF raw_items_take_drop(2) [OF raw]] by metis
  from s(3) [OF new [OF this]] show thesis using that s(1) by (simp add: put_raws_def)
qed

context reliable_device
begin

lemma written_looked: "has_dir ly s cs \<Longrightarrow> looked ly s s' \<Longrightarrow> written ly cs s (items_of ly s cs) s'"
  using has_dir_looked [of ly s cs s'] items_of_looked [of ly s s' cs] by (simp add: dir_written_def only_looked_def)

lemma timestamp_written:
  assumes "written ly cs s0 es s"
  obtains ts s' where "(get_current_timestamp :: ('d, encoded_timestamp, 'e) fs_op) s = (Ok ts, s')" and "written ly cs s0 es s'"
proof (cases "time_provider s")
  case None
  then show thesis using that assms by (simp add: get_current_timestamp_def)
next
  case (Some f)
  have "content_of ly (s\<lparr>clock := Suc (clock s)\<rparr>) u = content_of ly s u" for u by (cases "ly u") (simp_all add: medium_def)
  then have "content_of ly (s\<lparr>clock := Suc (clock s)\<rparr>) = content_of ly s" by blast
  then have "written ly cs s0 es (s\<lparr>clock := Suc (clock s)\<rparr>)"
    using assms unfolding dir_written_def has_directory_def volume_ok_def same_setup_def by simp metis
  then show thesis using that Some by (simp add: get_current_timestamp_def)
qed

text \<open>The entries of a set, written one after the other, and the first one again.\<close>

lemma write_set_ok:
  assumes W: "written ly cs s0 es s" and run: "one_run (fs_details s0) cs" and es: "length es = dir_size P (fs_details s0) cs"
    and k: "k + (2 + name_count (length us)) \<le> dir_size P (fs_details s0) cs"
  obtains ck s' t' where "andthen (writer_add P (file_dir_serialize fd) True (dir_set_writer_new (dir_location P (fs_details s0) cs k))) (\<lambda>w1.
      andthen (writer_add P (stream_ext_serialize se) False w1) (\<lambda>w2.
      andthen (name_entries_loop P (Suc (length us)) us w2) (\<lambda>w3.
      andthen (writer_finish P (file_dir_serialize fd) w3) (\<lambda>_. ret d)))) (s, t) = (Ok d, s', t')"
    and "written ly cs s0 (put_raws k (file_dir_serialize (fd\<lparr>set_checksum := ck\<rparr>) # stream_ext_serialize se # name_raws us) es) s'"
    and "checksum_right (file_dir_serialize (fd\<lparr>set_checksum := ck\<rparr>) # stream_ext_serialize se # name_raws us)"
proof -
  let ?fd = "file_dir_serialize fd" and ?se = "stream_ext_serialize se" and ?fsd = "fs_details s0"
  let ?loc = "dir_location P ?fsd cs k"
  let ?w0 = "dir_set_writer_new ?loc" and ?e1 = "put_raws k [?fd] es" and ?e2 = "put_raws (Suc k) [?se] (put_raws k [?fd] es)"
  let ?w1 = "add_no_write P ?fd True ?w0" let ?w2 = "add_no_write P ?se False ?w1"
  obtain s3 t3 where a1: "writer_add P ?fd True ?w0 (s, t) = (Ok ?w1, s3, t3)" "written ly cs s0 ?e1 s3" "writes_at P ?fsd cs (Suc k) ?w1"
    by (rule writer_add_ok [OF W run, of k ?w0 ?fd]) (use k in \<open>simp_all add: writes_at_def dir_set_writer_new_def RAW_ENTRY_LEN_def\<close>)
  obtain s4 t4 where a2: "writer_add P ?se False ?w1 (s3, t3) = (Ok ?w2, s4, t4)" "written ly cs s0 ?e2 s4" "writes_at P ?fsd cs (Suc (Suc k)) ?w2"
    by (rule writer_add_ok [OF a1(2) run, of "Suc k" ?w1 ?se]) (use k a1(3) in \<open>simp_all add: RAW_ENTRY_LEN_def\<close>)
  let ?e3 = "put_raws (Suc (Suc k)) (name_raws us) ?e2"
  obtain w3 s5 t5 where a3: "name_entries_loop P (Suc (length us)) us ?w2 (s4, t4) = (Ok w3, s5, t5)" "written ly cs s0 ?e3 s5"
    "dw_checksum w3 = later_checksum (dw_checksum ?w2) (name_raws us)" "dw_start w3 = ?loc"
    using name_entries_loop_ok [OF a2(2) run _ a2(3), of us "Suc (length us)" t4] k es
    by (auto simp: add_no_write_def dir_set_writer_new_def)
  let ?fd' = "fd\<lparr>set_checksum := dw_checksum w3\<rparr>"
  obtain s6 t6 where a4: "writer_finish P ?fd w3 (s5, t5) = (Ok (), s6, t6)" "written ly cs s0 (put_raws k [file_dir_serialize ?fd'] ?e3) s6"
    by (rule writer_finish_ok [OF a3(2) run _ a3(4)]) (use k in simp, (rule that; assumption))
  have "?e3 = put_raws k (?fd # ?se # name_raws us) es"
    using put_raws_append [of k "[?fd]" es "?se # name_raws us"] put_raws_append [of "Suc k" "[?se]" ?e1 "name_raws us"] k es by simp
  then have W6: "written ly cs s0 (put_raws k (file_dir_serialize ?fd' # ?se # name_raws us) es) s6"
    using a4(2) put_raws_again [of k es] k es by simp
  have "checksum_right (file_dir_serialize ?fd' # ?se # name_raws us)"
    using checksum_right_new [of fd "?se # name_raws us"] a3(3)
    by (simp add: add_no_write_def dir_set_writer_new_def later_checksum_def)
  with W6 show thesis
    using that unfolding andthen_Ok [where m = "writer_add P _ True _", OF a1(1)] andthen_Ok [where m = "writer_add P _ False _", OF a2(1)]
      andthen_Ok [where m = "name_entries_loop P _ _ _", OF a3(1)] andthen_Ok [where m = "writer_finish P _ _", OF a4(1)]
    by (simp add: ret_def)
qed

lemma create_entry_ok:
  assumes D: "has_dir ly s cs" and run: "one_run (fs_details s) cs" and c: "hd cs = c" and fuel: "dir_size P (fs_details s) cs < fuel"
    and ds: "dir_sets (items_of ly s cs) = Some sets" and nm: "name_error nm = None" "length (encode_utf16 nm) \<le> 255"
    and tr: "file_attributes_truncate attrs = attrs" "secondary_flags_truncate fl = fl"
    and g: "gap_at (items_of ly s cs) k0 (2 + name_count (length (encode_utf16 nm)))"
  obtains d k rs s1 s2 s' t' where "create_file_dir_entry_at P fuel nm c fc attrs fl vl dl (s, t) = (Ok d, s', t')"
    and "written ly cs s (put_raws k rs (items_of ly s cs)) s'"
    and "gap_at (items_of ly s cs) k (length rs)" and "checksum_right rs" and "length rs = 2 + name_count (length (encode_utf16 nm))"
    and "sets = s1 @ s2"
    and "dir_sets (put_raws k rs (items_of ly s cs)) = Some (s1 @ \<lparr>es_details = stored_details d,
      es_hash = units_hash (fs_upcase s) (encode_utf16 nm), es_name = encode_utf16 nm\<rparr> # s2)"
    and "first_cluster d = fc" and "data_length d = dl" and "valid_data_length d = vl" and "attributes d = attrs" and "flags d = fl"
    and "fd_location d = dir_location P (fs_details s) cs k"
proof -
  let ?us = "encode_utf16 nm" and ?es = "items_of ly s cs" and ?fsd = "fs_details s"
  let ?m = "name_count (length ?us)"
  let ?N = "dir_size P ?fsd cs"
  have us: "?us \<noteq> []" using nm(1) by (auto simp: name_error_def split: if_splits)
  have len: "calc_dir_entry_set_len (length ?us) = 2 + ?m" using nm(2) by (simp add: calc_dir_entry_set_len_nat name_count_def)
  obtain k s1 where f: "find_empty_dir_entry_set P fuel c (2 + ?m) s = (Ok (dir_location P ?fsd cs k), s1)"
    and lk: "looked ly s s1" and gk: "gap_at ?es k (2 + ?m)" "gap_start ?es k"
    by (rule find_empty_dir_entry_set_ok [OF D fuel c _ g]) (simp, (rule that; assumption))
  let ?loc = "dir_location P ?fsd cs k"
  obtain ts s2 where ts: "(get_current_timestamp :: ('d, encoded_timestamp, 'e) fs_op) s1 = (Ok ts, s2)" and W2: "written ly cs s ?es s2"
    by (rule timestamp_written [OF written_looked [OF D lk]])
  define sc where "sc = (of_nat (2 + ?m) - 1 :: u8)"
  define fd where "fd = \<lparr>secondary_count = sc, set_checksum = 0,
           fd_file_attributes = attrs, create_timestamp = packed ts,
           last_modified_timestamp = packed ts, last_accessed_timestamp = packed ts,
           create_10ms_increment = increment_10ms ts,
           last_modified_10ms_increment = increment_10ms ts,
           create_utc_offset = utc_offset ts, last_modified_utc_offset = utc_offset ts,
           last_accessed_utc_offset = utc_offset ts\<rparr>"
  define se where "se = \<lparr>se_flags = fl, name_length = of_nat (length ?us), name_hash = units_hash (fs_upcase s) ?us,
    se_valid_data_length = vl, se_first_cluster = fc, se_data_length = dl\<rparr>"
  have kN: "k + (2 + ?m) \<le> ?N" using gk(1) by (simp add: gap_at_def)
  let ?d = "\<lparr>first_cluster = fc, data_length = dl, valid_data_length = vl, attributes = attrs,
          fd_location = ?loc, flags = fl, fd_secondary_count = sc,
          fd_created = ts, fd_modified = ts, fd_accessed = ts\<rparr>"
  have "length ?es = ?N" by simp
  then obtain ck s6 t6 where w: "andthen (writer_add P (file_dir_serialize fd) True (dir_set_writer_new ?loc)) (\<lambda>w1.
      andthen (writer_add P (stream_ext_serialize se) False w1) (\<lambda>w2.
      andthen (name_entries_loop P (Suc (length ?us)) ?us w2) (\<lambda>w3.
      andthen (writer_finish P (file_dir_serialize fd) w3) (\<lambda>_. ret ?d)))) (s2, t) = (Ok ?d, s6, t6)"
    and W6: "written ly cs s (put_raws k (file_dir_serialize (fd\<lparr>set_checksum := ck\<rparr>) # stream_ext_serialize se # name_raws ?us) ?es) s6"
    and ckr: "checksum_right (file_dir_serialize (fd\<lparr>set_checksum := ck\<rparr>) # stream_ext_serialize se # name_raws ?us)"
    by (rule write_set_ok [OF W2 run _ kN])
  let ?fd' = "fd\<lparr>set_checksum := ck\<rparr>" let ?rs = "file_dir_serialize ?fd' # stream_ext_serialize se # name_raws ?us"
  have lrs: "length ?rs = 2 + ?m" by (simp add: length_name_raws)
  let ?x = "\<lparr>es_details = details_of ?fd' se ?loc, es_hash = units_hash (fs_upcase s) ?us, es_name = ?us\<rparr>"
  have hd: "hd (map snd (drop k ?es)) = ?loc" using kN by (simp add: hd_map hd_drop_conv_nth dir_items_nth)
  have new: "dir_sets (zip ?rs (map snd (drop k ?es)) @ post) = Some (?x # r)" if "dir_sets post = Some r" for post r
    using dir_sets_new [OF us nm(2), of "map snd (drop k ?es)" ?fd' se post r] kN tr that hd
    by (simp add: fd_def se_def sc_def)
  obtain x1 x2 where x: "sets = x1 @ x2" "dir_sets (put_raws k ?rs ?es) = Some (x1 @ ?x # x2)"
    by (rule put_raws_sets [OF ds raw_dir_items [OF D] gk(1) [folded lrs] gk(2) _ new]) (simp, assumption, (rule that; assumption))
  have st: "details_of ?fd' se ?loc = stored_details ?d"
    by (simp add: details_of_def stored_details_def fd_def se_def created_def modified_def accessed_def)
  have "create_file_dir_entry_at P fuel nm c fc attrs fl vl dl (s, t) = (Ok ?d, s6, t6)"
  proof -
    have h: "map_err InvalidFileName (encode_utf16_upcase_and_hash nm (fs_upcase s)) (s, t) =
        (Ok (units_hash (fs_upcase s) ?us, length ?us), s, t)" by (simp add: map_err_def hash_name_error nm(1))
    have f': "on_fs (find_empty_dir_entry_set P fuel c (2 + ?m)) (s, t) = (Ok ?loc, s1, t)"
      unfolding on_fs_def zoom_def fst_conv f by simp
    have ts': "on_fs (get_current_timestamp :: ('d, encoded_timestamp, 'e) fs_op) (s1, t) = (Ok ts, s2, t)" by (simp add: on_fs_def zoom_def ts)
    show ?thesis
      unfolding create_file_dir_entry_at_def andthen_gets prod.case andthen_Ok [where m = "map_err _ _", OF h] len Let_def
        andthen_Ok [where m = "on_fs (find_empty_dir_entry_set P fuel c (2 + ?m))", OF f']
        andthen_Ok [where m = "on_fs get_current_timestamp", OF ts'] sc_def [symmetric] fd_def [symmetric] se_def [symmetric]
      by (rule w)
  qed
  then show thesis using that W6 gk(1) [folded lrs] ckr lrs x unfolding st by simp
qed

end

end
