(* ===== verification/Directory_Delete.thy ===== *)
theory Directory_Delete
  imports Directory_Create
begin

text \<open>
  Deleting an entry set (\<open>mark_directory_entry_set_unused\<close> of \<open>file_system.rs\<close>): the type byte of each of its entries
  loses the in-use bit, and the directory has one set less.
\<close>

section \<open>Clearing entries\<close>

definition clear_raw :: "raw_dir_entry \<Rightarrow> raw_dir_entry" where
  "clear_raw raw = raw[0 := raw ! 0 AND 0x7F]"

definition clear_items :: "nat \<Rightarrow> nat \<Rightarrow> items \<Rightarrow> items" where
  "clear_items k n es = put_raws k (map (\<lambda>e. clear_raw (fst e)) (take n (drop k es))) es"

lemma clear_items_Suc:
  assumes "k < length es"
  shows "clear_items k (Suc n) es = clear_items (Suc k) n (put_raws k [clear_raw (fst (es ! k))] es)"
proof -
  let ?r = "clear_raw (fst (es ! k))" and ?f = "\<lambda>e. clear_raw (fst e)"
  have "take (Suc n) (drop k es) = es ! k # take n (drop (Suc k) es)" using assms by (simp add: Cons_nth_drop_Suc [symmetric])
  moreover have "put_raws k [?r] es = es[k := (?r, snd (es ! k))]" using put_raws_Cons [OF assms, of ?r "[]"] by simp
  ultimately show ?thesis using put_raws_Cons [OF assms] by (simp add: clear_items_def)
qed

lemma clear_items_0 [simp]: "clear_items k 0 es = es"
  by (simp add: clear_items_def)

lemma clear_items_Cons [simp]: "clear_items (Suc k) n (e # es) = e # clear_items k n es"
  by (simp add: clear_items_def put_raws_def)

lemma clear_items_append [simp]: "clear_items (length a + k) n (a @ es) = a @ clear_items k n es"
  by (induction a) simp_all

lemma clear_items_front: "clear_items 0 (length a) (a @ es) = map (\<lambda>(raw, loc). (clear_raw raw, loc)) a @ es"
proof -
  have "zip (map (\<lambda>e. clear_raw (fst e)) a) (map snd a @ map snd es) = map (\<lambda>(raw, loc). (clear_raw raw, loc)) a"
    by (induction a) auto
  then show ?thesis by (simp add: clear_items_def put_raws_def)
qed

text \<open>The position of the loop: the step to the next sector is taken at the start of a round.\<close>

definition round_start :: "('d, 'e) platform \<Rightarrow> location \<Rightarrow> location" where
  "round_start P loc = (if dir_entry_offset loc = SIZE P div RAW_ENTRY_LEN
     then \<lparr>sector_id = sector_id loc + 1, dir_entry_offset = 0\<rparr> else loc)"

lemma round_start_next:
  assumes "one_run fsd cs" and "0 < dir_entries_per_block P" and "Suc k < dir_size P fsd cs"
  shows "round_start P ((dir_location P fsd cs k)\<lparr>dir_entry_offset := dir_entry_offset (dir_location P fsd cs k) + 1\<rparr>) =
    dir_location P fsd cs (Suc k)"
  using next_location [OF assms] by (auto simp: round_start_def next_dir_entry_location_def Let_def)

lemma round_start_here:
  assumes "0 < dir_entries_per_block P"
  shows "round_start P (dir_location P fsd cs k) = dir_location P fsd cs k"
  using mod_less_divisor [OF assms, of k] by (simp add: round_start_def dir_location_def dir_entries_per_block_def)

context reliable_device
begin

lemma entry_clear:
  assumes W: "written ly cs s0 es s" and run: "one_run (fs_details s0) cs" and k: "k < dir_size P (fs_details s0) cs"
    and loc: "loc = dir_location P (fs_details s0) cs k" and i: "i = dir_entry_offset loc * RAW_ENTRY_LEN"
  obtains s' where "on_data (update_sector P (sector_id loc) (\<lambda>b. if i < length b then Some (b[i := b ! i AND 0x7F]) else None)) s = (Ok (), s')"
    and "written ly cs s0 (put_raws k [clear_raw (fst (es ! k))] es) s'"
proof -
  let ?fsd = "fs_details s0" and ?b = "content_of ly s (sector_id loc)" and ?j = "dir_entry_offset loc"
  note W' = writtenD [OF W]
  obtain off where V: "vol_ok ly s" and A: "directory_at P ly (capacity (fs_dev s)) off (content_of ly s) ?fsd cs"
    using W'(1,2) by (auto simp: has_directory_def)
  have lb: "length ?b = SIZE P" by (rule volume_sector_length [OF V])
  have j: "?j < length ?b div RAW_ENTRY_LEN" unfolding lb
    using mod_less_divisor [OF directory_atD(4) [OF A], of k] by (simp add: loc dir_location_def dir_entries_per_block_def)
  have il: "i < length ?b" using as_chunks_end [OF j] by (simp add: i mult.commute RAW_ENTRY_LEN_def)
  have es: "fst (es ! k) = as_chunks RAW_ENTRY_LEN ?b ! ?j" "snd (es ! k) = loc" "k < length es"
    using W'(3) k dir_items_nth [OF k, of "content_of ly s"] W'(2) by (auto simp: loc dir_entry_def dir_location_def)
  have b: "as_chunks RAW_ENTRY_LEN (?b[i := ?b ! i AND 0x7F]) = (as_chunks RAW_ENTRY_LEN ?b)[?j := clear_raw (fst (es ! k))]"
    using as_chunks_set [of RAW_ENTRY_LEN 0 ?j ?b "?b ! i AND 0x7F"] j
    by (simp add: es(1) clear_raw_def i mult.commute as_chunks_nth RAW_ENTRY_LEN_def)
  obtain s' where u: "on_data (update_sector P (sector_id loc) (\<lambda>b. if i < length b then Some (b[i := b ! i AND 0x7F]) else None)) s = (Ok (), s')"
    "written ly cs s (es[k := (clear_raw (fst (es ! k)), loc)]) s'"
    by (rule entry_update [of ly s cs k "\<lambda>b. if i < length b then Some (b[i := b ! i AND 0x7F]) else None" "?b[i := ?b ! i AND 0x7F]"
          "clear_raw (fst (es ! k))", unfolded W'(2) W'(3) [unfolded W'(2)], folded loc, OF W'(1) run k _ _ b])
      (use il lb in simp_all)
  have "put_raws k [clear_raw (fst (es ! k))] es = es[k := (clear_raw (fst (es ! k)), loc)]"
    using put_raws_Cons [OF es(3), of _ "[]"] es(2) by simp
  then show thesis using that u(1) written_trans [OF W u(2)] by simp
qed

lemma mark_unused_loop_ok:
  assumes "written ly cs s0 es s" and "one_run (fs_details s0) cs" and "k + n \<le> dir_size P (fs_details s0) cs"
    and "0 < n \<Longrightarrow> round_start P loc = dir_location P (fs_details s0) cs k" and "length es = dir_size P (fs_details s0) cs"
  shows "\<exists>s' t'. mark_unused_loop P n loc (s, t) = (Ok (), s', t') \<and> written ly cs s0 (clear_items k n es) s'"
  using assms
proof (induction n arbitrary: k loc s t es)
  case 0
  then show ?case by (simp add: ret_def)
next
  case (Suc n)
  let ?loc = "dir_location P (fs_details s0) cs k" and ?i = "dir_entry_offset (dir_location P (fs_details s0) cs k) * RAW_ENTRY_LEN"
  let ?es = "put_raws k [clear_raw (fst (es ! k))] es"
  have n0: "0 < dir_entries_per_block P" using writtenD(1) [OF Suc.prems(1)] directory_atD(4) by (auto simp: has_directory_def)
  have k: "k < dir_size P (fs_details s0) cs" using Suc.prems(3) by simp
  obtain s1 where u: "on_data (update_sector P (sector_id ?loc) (\<lambda>b. if ?i < length b then Some (b[?i := b ! ?i AND 0x7F]) else None)) s = (Ok (), s1)"
    and W1: "written ly cs s0 ?es s1" by (rule entry_clear [OF Suc.prems(1,2) k refl refl])
  let ?t = "touched_insert (touched_sector_new TkDir (sector_id ?loc)) t"
  have "mark_unused_loop P (Suc n) loc (s, t) =
      mark_unused_loop P n (?loc\<lparr>dir_entry_offset := dir_entry_offset ?loc + 1\<rparr>) (s1, ?t)"
    using Suc.prems(4) u
    by (simp add: round_start_def [symmetric] Let_def andthen_def on_fs_def zoom_def touch_def modify_def)
  moreover have "\<exists>s' t'. mark_unused_loop P n (?loc\<lparr>dir_entry_offset := dir_entry_offset ?loc + 1\<rparr>) (s1, ?t) = (Ok (), s', t') \<and>
      written ly cs s0 (clear_items (Suc k) n ?es) s'"
    by (rule Suc.IH [OF W1 Suc.prems(2)])
      (use Suc.prems(3,5) k round_start_next [OF Suc.prems(2) n0, of k] in auto)
  ultimately show ?case using clear_items_Suc [of k es n] k Suc.prems(5) by simp
qed

end

section \<open>Removing a set\<close>

lemma cleared_types:
  assumes "entry_type_from (raw ! 0) \<in> {FileAndDirectory, StreamExtension, Filename}" and "raw \<noteq> []"
  shows "\<not> is_end_of_directory (clear_raw raw)" and "entry_type_from (clear_raw raw ! 0) \<noteq> FileAndDirectory"
proof -
  have "raw ! 0 \<in> {0x85, 0xC0, 0xC1}" using assms(1) by (auto simp: entry_type_from_def split: if_splits)
  then have c: "clear_raw raw ! 0 \<in> {0x05, 0x40, 0x41}" using assms(2) by (auto simp: clear_raw_def)
  then have "clear_raw raw ! 0 \<noteq> 0" "0 < length (clear_raw raw)" using assms(2) by (auto simp: clear_raw_def)
  then show "\<not> is_end_of_directory (clear_raw raw)" unfolding is_end_of_directory_def list_all_length by metis
  show "entry_type_from (clear_raw raw ! 0) \<noteq> FileAndDirectory" using c by (auto simp: entry_type_from_def)
qed

lemma dir_sets_cleared:
  assumes "\<And>e. e \<in> set a \<Longrightarrow> fst e \<noteq> [] \<and> entry_type_from (fst e ! 0) \<in> {FileAndDirectory, StreamExtension, Filename}"
  shows "dir_sets (map (\<lambda>(raw, loc). (clear_raw raw, loc)) a @ es) = dir_sets es"
  using assms
proof (induction a)
  case (Cons e a)
  obtain raw loc where e: "e = (raw, loc)" by (cases e)
  have "\<not> is_end_of_directory (clear_raw raw)" "entry_type_from (clear_raw raw ! 0) \<noteq> FileAndDirectory"
    using cleared_types [of raw] Cons.prems [of e] by (auto simp: e)
  then show ?case using Cons by (simp add: e)
qed simp

lemma dir_sets_remove:
  assumes "dir_sets es = Some (s1 @ x # s2)" and "raw_items es"
  shows "\<exists>k. k + Suc (unat (fd_secondary_count (es_details x))) \<le> length es \<and> snd (es ! k) = fd_location (es_details x) \<and>
    dir_sets (clear_items k (Suc (unat (fd_secondary_count (es_details x)))) es) = Some (s1 @ s2)"
  using assms
proof (induction es arbitrary: s1 rule: length_induct)
  case (1 es)
  obtain raw loc es' where es: "es = (raw, loc) # es'" using 1(2) by (cases es) auto
  have nend: "\<not> is_end_of_directory raw" using 1(2) by (auto simp: es split: if_splits)
  show ?case
  proof (cases "entry_type_from (raw ! 0) = FileAndDirectory")
    case False
    then have "dir_sets es' = Some (s1 @ x # s2)" using 1(2) nend by (simp add: es)
    then obtain k where k: "k + Suc (unat (fd_secondary_count (es_details x))) \<le> length es'" "snd (es' ! k) = fd_location (es_details x)"
      "dir_sets (clear_items k (Suc (unat (fd_secondary_count (es_details x)))) es') = Some (s1 @ s2)"
      using 1(1) [rule_format, of es' s1] 1(3) by (auto simp: es)
    then show ?thesis using nend False by (intro exI [of _ "Suc k"]) (simp add: es)
  next
    case fde: True
    obtain e2 ns es2 y post where c: "es' = e2 # ns @ es2" "has_type StreamExtension e2" "list_all (has_type Filename) ns"
      and y': "es_details y = details_of (file_dir_from raw) (stream_ext_from (fst e2)) loc"
      and n: "unat (fd_secondary_count (es_details y)) = Suc (length ns)"
      and post: "s1 @ x # s2 = y # post" "dir_sets es2 = Some post"
      and set: "\<And>rest r. dir_sets rest = Some r \<Longrightarrow> dir_sets ((raw, loc) # e2 # ns @ rest) = Some (y # r)"
      by (rule dir_sets_first [OF 1(2) [unfolded es] nend fde]) (rule that; assumption)
    have y: "fd_location (es_details y) = loc" by (simp add: y' details_of_def)
    show ?thesis
    proof (cases s1)
      case Nil
      let ?a = "(raw, loc) # e2 # ns"
      have x: "x = y" "s2 = post" using post(1) Nil by simp_all
      have raws: "fst e \<noteq> [] \<and> entry_type_from (fst e ! 0) \<in> {FileAndDirectory, StreamExtension, Filename}" if "e \<in> set ?a" for e
      proof -
        have "length (fst e) = RAW_ENTRY_LEN" using that 1(3) by (auto simp: es c(1) raw_items_def list_all_iff)
        then have "fst e \<noteq> []" by (auto simp: RAW_ENTRY_LEN_def)
        then show ?thesis using that c(2,3) fde by (auto simp: has_type_def list_all_iff)
      qed
      have "dir_sets (clear_items 0 (length ?a) (?a @ es2)) = Some post"
        unfolding clear_items_front using dir_sets_cleared [of ?a es2] raws post(2) by simp
      then show ?thesis using y n Nil by (intro exI [of _ 0]) (simp add: es c(1) x)
    next
      case (Cons z s1')
      then have z: "z = y" "dir_sets es2 = Some (s1' @ x # s2)" using post by simp_all
      then obtain k where k: "k + Suc (unat (fd_secondary_count (es_details x))) \<le> length es2" "snd (es2 ! k) = fd_location (es_details x)"
        "dir_sets (clear_items k (Suc (unat (fd_secondary_count (es_details x)))) es2) = Some (s1' @ s2)"
        using 1(1) [rule_format, of es2 s1'] 1(3) by (auto simp: es c(1))
      then show ?thesis using set [OF k(3)]
        by (intro exI [of _ "Suc (Suc (length ns + k))"]) (simp add: es c(1) Cons z)
    qed
  qed
qed

text \<open>The flags of a set that was read are those the code knows.\<close>

lemma dir_sets_flags:
  assumes "dir_sets es = Some sets" and "x \<in> set sets"
  shows "file_attributes_truncate (attributes (es_details x)) = attributes (es_details x)"
    and "secondary_flags_truncate (flags (es_details x)) = flags (es_details x)"
proof -
  have "file_attributes_truncate (attributes (es_details x)) = attributes (es_details x) \<and>
      secondary_flags_truncate (flags (es_details x)) = flags (es_details x)"
    using assms
  proof (induction es arbitrary: sets rule: length_induct)
    case (1 es)
    obtain raw loc es' where es: "es = (raw, loc) # es'" using 1(2,3) by (cases es) auto
    have nend: "\<not> is_end_of_directory raw" using 1(2,3) by (auto simp: es split: if_splits)
    show ?case
    proof (cases "entry_type_from (raw ! 0) = FileAndDirectory")
      case False
      then have "dir_sets es' = Some sets" using 1(2) nend by (simp add: es)
      then show ?thesis using 1(1) [rule_format, of es' sets] 1(3) by (simp add: es)
    next
      case True
      obtain e2 ns es2 y post where c: "es' = e2 # ns @ es2" and y: "es_details y = details_of (file_dir_from raw) (stream_ext_from (fst e2)) loc"
        and post: "sets = y # post" "dir_sets es2 = Some post"
        by (rule dir_sets_first [OF 1(2) [unfolded es] nend True]) (rule that; assumption)
      show ?thesis
      proof (cases "x = y")
        case True
        then show ?thesis by (simp add: y details_of_def file_dir_from_def stream_ext_from_def file_attributes_truncate_def
            secondary_flags_truncate_def and.assoc)
      next
        case False
        then show ?thesis using 1(1) [rule_format, of es2 post] 1(3) post by (simp add: es c)
      qed
    qed
  qed
  then show "file_attributes_truncate (attributes (es_details x)) = attributes (es_details x)"
    and "secondary_flags_truncate (flags (es_details x)) = flags (es_details x)" by blast+
qed

end
