(* ===== verification/Volume_Flush.thy ===== *)
theory Volume_Flush
  imports Directory_Walk
begin

text \<open>
  Writing back (\<open>FileDirty::flush\<close> of \<open>file.rs\<close>, \<open>flush\<close> and \<open>flush_sector\<close> of \<open>slot_cache.rs\<close>) on a volume: it always
  succeeds on a reliable device, and nobody who looks at the volume through its caches notices.
\<close>

section \<open>One cache\<close>

definition slot_key :: "slot \<Rightarrow> bool \<times> u32" where
  "slot_key x = (is_valid x, slot.sector_id x)"

lemma slot_flush_key: "slot_flush P (x, d) = (r, x', d') \<Longrightarrow> slot_key x' = slot_key x"
  by (auto simp: slot_flush_def slot_key_def split: if_splits prod.splits outcome.splits)

lemma flush_slots_keys: "flush_slots P (xs, d) = (r, xs', d') \<Longrightarrow> map slot_key xs' = map slot_key xs"
proof (induction xs arbitrary: d r xs' d')
  case (Cons x xs)
  obtain r1 x1 d1 where f: "slot_flush P (x, d) = (r1, x1, d1)" by (metis prod_cases3)
  obtain r2 xs2 d2 where g: "flush_slots P (xs, d1) = (r2, xs2, d2)" by (metis prod_cases3)
  show ?case using Cons.prems slot_flush_key [OF f] Cons.IH [OF g] by (cases r1) (auto simp: f g)
qed simp

lemma flush_sector_slots_keys: "flush_sector_slots P sec (xs, d) = (r, xs', d') \<Longrightarrow> map slot_key xs' = map slot_key xs"
  by (induction xs arbitrary: r xs' d') (auto split: if_splits prod.splits dest: slot_flush_key)

lemma holds_keys:
  assumes "map slot_key (cache c') = map slot_key (cache c)"
  shows "holds c' t i \<longleftrightarrow> holds c t i"
proof -
  have l: "length (cache c') = length (cache c)" using arg_cong [OF assms, of length] by simp
  have "slot_key (cache c' ! i) = slot_key (cache c ! i)" if "i < length (cache c)"
    using arg_cong [OF assms, of "\<lambda>ks. ks ! i"] that l by simp
  then show ?thesis using l by (auto simp: holds_def slot_key_def)
qed

text \<open>A cache after an operation that its clients do not notice.\<close>

definition same_to_clients :: "('d, 'e) platform \<Rightarrow> ('d \<Rightarrow> u32 \<Rightarrow> block) \<Rightarrow> ('d \<Rightarrow> nat) \<Rightarrow> ('d \<Rightarrow> bool) \<Rightarrow>
    slot_cache \<times> 'd \<Rightarrow> slot_cache \<times> 'd \<Rightarrow> bool" where
  "same_to_clients P sector capacity dev_ok st st' \<longleftrightarrow> cache_ready (SIZE P) sector capacity dev_ok st' \<and>
     cview sector st' = cview sector st \<and> capacity (snd st') = capacity (snd st) \<and>
     (\<forall>t i. holds (fst st') t i \<longleftrightarrow> holds (fst st) t i)"

context reliable_device
begin

lemma flush_sector_slots_total:
  assumes "dev_ok d" and "\<And>x. x \<in> set xs \<Longrightarrow> length (slot_blocks x) = SIZE P"
    and "\<And>x. x \<in> set xs \<Longrightarrow> is_dirty x \<Longrightarrow> unat (slot.sector_id x) < capacity d"
  shows "\<exists>xs' d'. flush_sector_slots P sec (xs, d) = (Ok (), xs', d')"
  using assms
proof (induction xs)
  case (Cons x xs)
  obtain x' d' where "slot_flush P (x, d) = (Ok (), x', d')"
  proof (cases "is_dirty x")
    case True
    then obtain d' where "bd_write P d (slot.sector_id x) (slot_blocks x) = (Ok (), d')"
      using write_returns [of d "slot.sector_id x" "slot_blocks x"] Cons.prems by (metis list.set_intros(1))
    then show thesis using that True by (simp add: slot_flush_def)
  next
    case False
    then show thesis using that by (simp add: slot_flush_def)
  qed
  then show ?case using Cons by fastforce
qed simp

lemma flush_sector_clients:
  assumes "ready (c, d)"
  obtains c' d' where "cache_flush_sector P sec (c, d) = (Ok (), c', d')" and "same_to_clients P sector capacity dev_ok (c, d) (c', d')"
proof -
  have inv: "inv (c, d)" and w: "slots_within (capacity d) c" using assms by (simp_all add: cache_ready_def)
  note I = cache_invD [OF inv]
  have "\<exists>xs d'. flush_sector_slots P sec (cache c, d) = (Ok (), xs, d')"
  proof (rule flush_sector_slots_total [OF I(1)])
    show "length (slot_blocks x) = SIZE P" if "x \<in> set (cache c)" for x using that I(3) by (auto simp: in_set_conv_nth)
    show "unat (slot.sector_id x) < capacity d" if "x \<in> set (cache c)" "is_dirty x" for x
      using that I(6) w by (auto simp: in_set_conv_nth slots_within_def holds_def)
  qed
  then obtain xs d' where f: "flush_sector_slots P sec (cache c, d) = (Ok (), xs, d')" by blast
  then have r: "cache_flush_sector P sec (c, d) = (Ok (), c\<lparr>cache := xs\<rparr>, d')" by (simp add: cache_flush_sector_def)
  have h: "holds (c\<lparr>cache := xs\<rparr>) t i \<longleftrightarrow> holds c t i" for t i
    by (rule holds_keys) (simp add: flush_sector_slots_keys [OF f])
  show thesis
    using that [OF r] flush_sector_ok [OF inv r] w h by (simp add: same_to_clients_def cache_ready_def slots_within_def)
qed

lemma flush_clients:
  assumes "ready (c, d)"
  obtains c' d' where "cache_flush P (c, d) = (Ok (), c', d')" and "same_to_clients P sector capacity dev_ok (c, d) (c', d')"
proof -
  have inv: "inv (c, d)" and w: "slots_within (capacity d) c" using assms by (simp_all add: cache_ready_def)
  obtain c' d' where r: "cache_flush P (c, d) = (Ok (), c', d')" by (rule flush_total [OF assms])
  then have "map slot_key (cache c') = map slot_key (cache c)"
    using flush_slots_keys [of P "cache c" d] by (auto simp: cache_flush_def split: prod.splits)
  then have h: "holds c' t i \<longleftrightarrow> holds c t i" for t i by (rule holds_keys)
  show thesis
    using that [OF r] flush_ok [OF inv r] w h by (simp add: same_to_clients_def cache_ready_def slots_within_def)
qed

section \<open>The caches of a volume\<close>

lemma volume_same:
  assumes V: "vol_ok ly s"
  shows "same_to_clients P sector capacity dev_ok (data_blocks s, fs_dev s) (c', d') \<Longrightarrow> looked ly s (s\<lparr>data_blocks := c', fs_dev := d'\<rparr>)"
    and "same_to_clients P sector capacity dev_ok (fat_cache (fs_fat s), fs_dev s) (c', d') \<Longrightarrow>
      looked ly s (s\<lparr>fs_fat := (fs_fat s)\<lparr>fat_cache := c'\<rparr>, fs_dev := d'\<rparr>)"
    and "same_to_clients P sector capacity dev_ok (alloc_cache (fs_allocator s), fs_dev s) (c', d') \<Longrightarrow>
      looked ly s (s\<lparr>fs_allocator := (fs_allocator s)\<lparr>alloc_cache := c'\<rparr>, fs_dev := d'\<rparr>)"
proof -
  have h: "held_by ly FatRegion (fat_cache (fs_fat s))" "held_by ly BitmapRegion (alloc_cache (fs_allocator s))"
    "held_by ly DataRegion (data_blocks s)" using V by (simp_all add: volume_ok_def)
  show "looked ly s (s\<lparr>data_blocks := c', fs_dev := d'\<rparr>)"
    if S: "same_to_clients P sector capacity dev_ok (data_blocks s, fs_dev s) (c', d')"
    using data_step [OF V, of c' d', OF _ _ _ _ refl] S h(3) by (auto simp: same_to_clients_def only_looked_def held_by_def medium_def fun_eq_iff)
  show "looked ly s (s\<lparr>fs_fat := (fs_fat s)\<lparr>fat_cache := c'\<rparr>, fs_dev := d'\<rparr>)"
    if S: "same_to_clients P sector capacity dev_ok (fat_cache (fs_fat s), fs_dev s) (c', d')"
    using fat_step [OF V, of c' d', OF _ _ _ _ refl] S h(1) by (auto simp: same_to_clients_def only_looked_def held_by_def medium_def fun_eq_iff)
  show "looked ly s (s\<lparr>fs_allocator := (fs_allocator s)\<lparr>alloc_cache := c'\<rparr>, fs_dev := d'\<rparr>)"
    if S: "same_to_clients P sector capacity dev_ok (alloc_cache (fs_allocator s), fs_dev s) (c', d')"
    using alloc_step [OF V, of c' d', OF _ _ _ _ refl] S h(2) by (auto simp: same_to_clients_def only_looked_def held_by_def medium_def fun_eq_iff)
qed

lemma volume_ready:
  assumes "vol_ok ly s"
  shows "ready (fat_cache (fs_fat s), fs_dev s)" and "ready (alloc_cache (fs_allocator s), fs_dev s)" and "ready (data_blocks s, fs_dev s)"
  using assms by (simp_all add: volume_ok_def)

lemma flush_item_ok:
  assumes "vol_ok ly s"
  shows "\<exists>s'. flush_item P item s = (Ok (), s') \<and> looked ly s s'"
proof -
  note R = volume_ready [OF assms] and S = volume_same [OF assms]
  obtain c1 d1 where f: "cache_flush_sector P (ts_sector item) (fat_cache (fs_fat s), fs_dev s) = (Ok (), c1, d1)"
    "same_to_clients P sector capacity dev_ok (fat_cache (fs_fat s), fs_dev s) (c1, d1)" by (rule flush_sector_clients [OF R(1)])
  obtain c2 d2 where a: "cache_flush_sector P (ts_sector item) (alloc_cache (fs_allocator s), fs_dev s) = (Ok (), c2, d2)"
    "same_to_clients P sector capacity dev_ok (alloc_cache (fs_allocator s), fs_dev s) (c2, d2)" by (rule flush_sector_clients [OF R(2)])
  obtain c3 d3 where b: "cache_flush_sector P (ts_sector item) (data_blocks s, fs_dev s) = (Ok (), c3, d3)"
    "same_to_clients P sector capacity dev_ok (data_blocks s, fs_dev s) (c3, d3)" by (rule flush_sector_clients [OF R(3)])
  show ?thesis
    using f(1) a(1) b(1) S(1) [OF b(2)] S(2) [OF f(2)] S(3) [OF a(2)] looked_refl [OF assms]
    by (cases "ts_kind item") (simp_all add: flush_item_def on_data_def on_fat_def on_alloc_def zoom_def fat_flush_sector_def
        fat_zoom_def alloc_flush_sector_def alloc_zoom_def ret_def)
qed

lemma fs_flush_ok:
  assumes V: "vol_ok ly s"
  shows "\<exists>s'. fs_flush P s = (Ok (), s') \<and> looked ly s s'"
proof -
  obtain c1 d1 where f: "cache_flush P (fat_cache (fs_fat s), fs_dev s) = (Ok (), c1, d1)"
    "same_to_clients P sector capacity dev_ok (fat_cache (fs_fat s), fs_dev s) (c1, d1)" by (rule flush_clients [OF volume_ready(1) [OF V]])
  let ?s1 = "s\<lparr>fs_fat := (fs_fat s)\<lparr>fat_cache := c1\<rparr>, fs_dev := d1\<rparr>"
  have l1: "looked ly s ?s1" by (rule volume_same(2) [OF V f(2)])
  note V1 = lookedD(1) [OF l1]
  obtain c2 d2 where a: "cache_flush P (alloc_cache (fs_allocator ?s1), fs_dev ?s1) = (Ok (), c2, d2)"
    "same_to_clients P sector capacity dev_ok (alloc_cache (fs_allocator ?s1), fs_dev ?s1) (c2, d2)" by (rule flush_clients [OF volume_ready(2) [OF V1]])
  let ?s2 = "?s1\<lparr>fs_allocator := (fs_allocator ?s1)\<lparr>alloc_cache := c2\<rparr>, fs_dev := d2\<rparr>"
  have l2: "looked ly ?s1 ?s2" by (rule volume_same(3) [OF V1 a(2)])
  note V2 = lookedD(1) [OF l2]
  obtain c3 d3 where b: "cache_flush P (data_blocks ?s2, fs_dev ?s2) = (Ok (), c3, d3)"
    "same_to_clients P sector capacity dev_ok (data_blocks ?s2, fs_dev ?s2) (c3, d3)" by (rule flush_clients [OF volume_ready(3) [OF V2]])
  have "looked ly s (?s2\<lparr>data_blocks := c3, fs_dev := d3\<rparr>)"
    using looked_trans [OF l1 looked_trans [OF l2 volume_same(1) [OF V2 b(2)]]] .
  then show ?thesis using f(1) a(1) b(1)
    by (auto simp: fs_flush_def andthen_def on_fat_def on_alloc_def on_data_def zoom_def fat_flush_def fat_zoom_def
        alloc_flush_def alloc_zoom_def)
qed

lemma flush_items_ok:
  assumes "vol_ok ly s"
  shows "\<exists>s'. for_each items (flush_item P) s = (Ok (), s') \<and> looked ly s s'"
  using assms
proof (induction items arbitrary: s)
  case Nil
  then show ?case using looked_refl by (simp add: ret_def)
next
  case (Cons item items)
  obtain s1 where f: "flush_item P item s = (Ok (), s1)" "looked ly s s1" using flush_item_ok [OF Cons.prems] by blast
  then show ?case using Cons.IH [OF lookedD(1) [OF f(2)]] looked_trans by (auto simp: andthen_def)
qed

lemma touched_flush_ok:
  assumes "vol_ok ly s"
  obtains s' t' where "touched_flush P (s, t) = (Ok (), s', t')" and "looked ly s s'"
proof -
  obtain s1 where a: "fs_flush P s = (Ok (), s1)" "looked ly s s1" using fs_flush_ok [OF assms] by blast
  obtain s2 where b: "for_each (sectors (touched_sort t)) (flush_item P) s = (Ok (), s2)" "looked ly s s2" using flush_items_ok [OF assms] by blast
  show thesis
    using that a b by (cases "overflowed t") (auto simp: touched_flush_def andthen_def gets_def modify_def on_fs_def zoom_def)
qed

end

end
