(* ===== verification/Directory_Tree.thy ===== *)
theory Directory_Tree
  imports Directory_Delete Volume_Flush
begin

text \<open>
  The directories of a volume as a map from first clusters to lists of entry sets, and the operations of
  \<open>file_system.rs\<close> that change entry sets (\<open>create_file\<close>, \<open>rename\<close>) as operations on that map.
\<close>

section \<open>Directories side by side\<close>

text \<open>Every directory is one run of sectors, and no two share a sector.\<close>

definition apart :: "file_system_details \<Rightarrow> (u32 \<Rightarrow> u32 list) \<Rightarrow> (u32 \<Rightarrow> entry_set list option) \<Rightarrow> bool" where
  "apart fsd chain dirs \<longleftrightarrow> (\<forall>c \<in> dom dirs. one_run fsd (chain c) \<and>
     (\<forall>c' \<in> dom dirs. c' \<noteq> c \<longrightarrow> dir_sectors fsd (chain c) \<inter> dir_sectors fsd (chain c') = {}))"

lemma apart_upd: "dirs c \<noteq> None \<Longrightarrow> apart fsd chain (dirs(c \<mapsto> sets)) \<longleftrightarrow> apart fsd chain dirs"
  by (simp add: apart_def insert_absorb domIff)

lemma dir_items_cong:
  assumes "\<And>q. q < length cs * spc_of fsd \<Longrightarrow> v' (dir_sector fsd cs q) = v (dir_sector fsd cs q)"
  shows "dir_items P fsd cs v' = dir_items P fsd cs v"
  using assms sector_less [of _ P fsd cs] by (auto simp: dir_items_def dir_entry_def)

lemma directory_at_cong:
  assumes D: "directory_at P ly cap off v fsd cs" and same: "\<And>u. ly u = FatRegion \<Longrightarrow> v' u = v u"
  shows "directory_at P ly cap off v' fsd cs"
proof -
  have "fat_entry_at P off v' (cs ! i) = fat_entry_at P off v (cs ! i)" if "i < length cs" for i
    using directory_atD(6) [OF D that] same by (simp add: fat_entry_at_view)
  then show ?thesis using D by (simp add: directory_at_def)
qed

context reliable_device
begin

lemma dir_sectors_data:
  assumes "has_dir ly s cs" and "u \<in> dir_sectors (fs_details s) cs"
  shows "ly u = DataRegion"
  using assms directory_atD(9) by (auto simp: has_directory_def dir_sectors_def)

text \<open>What is written in one directory is not seen in another.\<close>

lemma written_elsewhere:
  assumes W: "written ly cs s es s'" and D: "has_dir ly s cs" and D': "has_dir ly s cs'"
    and dis: "dir_sectors (fs_details s) cs \<inter> dir_sectors (fs_details s) cs' = {}"
  shows "has_dir ly s' cs'" and "items_of ly s' cs' = items_of ly s cs'"
proof -
  note W' = writtenD [OF W] and st = same_setupD [OF writtenD(4) [OF W]]
  have out: "content_of ly s' u = content_of ly s u" if "u \<notin> dir_sectors (fs_details s) cs" for u
    using W that by (simp add: dir_written_def)
  have "dir_sector (fs_details s) cs' q \<in> dir_sectors (fs_details s) cs'" if "q < length cs' * spc_of (fs_details s)" for q
    using that by (auto simp: dir_sectors_def)
  then show "items_of ly s' cs' = items_of ly s cs'"
    unfolding W'(2) using out dis by (intro dir_items_cong) blast
  have "content_of ly s' u = content_of ly s u" if "ly u = FatRegion" for u
    using that out dir_sectors_data [OF D] by (metis region.distinct(3))
  then show "has_dir ly s' cs'"
    using D' W'(1) directory_at_cong unfolding has_directory_def st by blast
qed

lemma tree_written:
  assumes T: "tree ly fuel chain s dirs" and A: "apart (fs_details s) chain dirs" and c: "dirs c = Some sets"
    and W: "written ly (chain c) s es s'" and es: "dir_sets es = Some sets'"
    and ok: "list_all (hashed (fs_upcase s)) sets'"
      "list_all (\<lambda>x. contains (attributes (es_details x)) Directory \<longrightarrow> dirs (first_cluster (es_details x)) \<noteq> None) sets'"
  shows "tree ly fuel chain s' (dirs(c \<mapsto> sets'))" and "apart (fs_details s') chain (dirs(c \<mapsto> sets'))"
proof -
  note W' = writtenD [OF W] and st = same_setupD [OF writtenD(4) [OF W]]
  note D = treeD [OF T c]
  show "apart (fs_details s') chain (dirs(c \<mapsto> sets'))" using A apart_upd [of dirs c] c unfolding st by simp
  have "hd (chain a) = a \<and> has_dir ly s' (chain a) \<and> dir_size P (fs_details s') (chain a) < fuel \<and>
      dir_sets (items_of ly s' (chain a)) = Some r \<and> list_all (hashed (fs_upcase s')) r \<and>
      list_all (\<lambda>x. contains (attributes (es_details x)) Directory \<longrightarrow> (dirs(c \<mapsto> sets')) (first_cluster (es_details x)) \<noteq> None) r"
    if a: "(dirs(c \<mapsto> sets')) a = Some r" for a r
  proof (cases "a = c")
    case True
    then have "r = sets'" using a by simp
    then show ?thesis using True D W'(1,3) es ok st by (auto simp: list_all_iff)
  next
    case False
    then have a': "dirs a = Some r" using a by simp
    note D' = treeD [OF T a']
    have "dir_sectors (fs_details s) (chain c) \<inter> dir_sectors (fs_details s) (chain a) = {}"
      using A False a' c unfolding apart_def by blast
    note E = written_elsewhere [OF W D(2) D'(2) this]
    show ?thesis using E D' st by (auto simp: list_all_iff)
  qed
  then show "tree ly fuel chain s' (dirs(c \<mapsto> sets'))" using W'(1) by (simp add: tree_at_def has_directory_def)
qed

end

section \<open>Finding the directory\<close>

fun resolve_dir :: "(u32 \<Rightarrow> entry_set list option) \<Rightarrow> upcase_table \<Rightarrow> rstr list \<Rightarrow> u32 \<Rightarrow> u32 option" where
  "resolve_dir dirs t [] c = Some c"
| "resolve_dir dirs t (part # rest) c =
     (if name_error part \<noteq> None then None
      else case find (matches t part (Some Directory)) (the (dirs c)) of
        None \<Rightarrow> None
      | Some x \<Rightarrow> resolve_dir dirs t rest (first_cluster (es_details x)))"

context reliable_device
begin

lemma get_or_create_loop_ok:
  assumes "tree ly fuel chain s dirs" and "dirs c \<noteq> None" and "resolve_dir dirs (fs_upcase s) parts c = Some c'"
  shows "\<exists>s'. get_or_create_loop P fuel parts c (s, t) = (Ok c', s', t) \<and> looked ly s s' \<and> dirs c' \<noteq> None"
  using assms
proof (induction parts arbitrary: c s)
  case Nil
  then show ?case using looked_refl by (auto simp: ret_def tree_at_def)
next
  case (Cons part rest)
  obtain sets where sets: "dirs c = Some sets" using Cons.prems(2) by auto
  have nm: "name_error part = None" using Cons.prems(3) by (auto split: if_splits)
  obtain flt where f: "\<And>z :: 'd file_system \<times> file_dirty. exact_name_filter_new part (fs_upcase s) (Some Directory) z = (Ok flt, z)"
    using filter_name_error(2) [OF nm] by metis
  obtain s1 where r: "first_file_entry P fuel c flt s = (Ok (map_option es_details (find (matches (fs_upcase s) part (Some Directory)) sets)), s1)"
    and lk: "looked ly s s1" by (rule lookup_ok [OF Cons.prems(1) sets f])
  obtain x where x: "find (matches (fs_upcase s) part (Some Directory)) sets = Some x"
    "resolve_dir dirs (fs_upcase s) rest (first_cluster (es_details x)) = Some c'"
    using Cons.prems(3) nm sets by (auto split: option.splits)
  have "x \<in> set sets" "contains (attributes (es_details x)) Directory" using x(1) by (auto simp: find_Some_iff matches_def)
  then have "dirs (first_cluster (es_details x)) \<noteq> None" using treeD(6) [OF Cons.prems(1) sets] by blast
  from Cons.IH [OF tree_looked [OF Cons.prems(1) lk] this] obtain s2 where
    "get_or_create_loop P fuel rest (first_cluster (es_details x)) (s1, t) = (Ok c', s2, t)" "looked ly s1 s2" "dirs c' \<noteq> None"
    using x(2) lookedD(4) [OF lk] by auto
  then show ?case using r f x looked_trans [OF lk]
    by (auto simp: andthen_def gets_def map_err_def on_fs_def zoom_def simp del: resolve_dir.simps)
qed

end

section \<open>One set more, one set less\<close>

text \<open>Free entries have become a set with the right checksum.\<close>

definition set_added :: "items \<Rightarrow> items \<Rightarrow> nat \<Rightarrow> bool" where
  "set_added es es' len \<longleftrightarrow> (\<exists>k. gap_at es k len \<and> checksum_right (map fst (take len (drop k es'))) \<and>
     take k es' = take k es \<and> drop (k + len) es' = drop (k + len) es)"

lemma put_raws_added:
  assumes "gap_at es k (length rs)" and "checksum_right rs"
  shows "set_added es (put_raws k rs es) (length rs)"
proof -
  have k: "k + length rs \<le> length es" using assms(1) by (simp add: gap_at_def)
  then have "map fst (take (length rs) (drop k (put_raws k rs es))) = rs"
    by (auto simp: put_raws_def min_def map_fst_zip_take)
  then show ?thesis using assms k by (auto simp: set_added_def put_raws_def min_def)
qed

definition new_set :: "upcase_table \<Rightarrow> rstr \<Rightarrow> file_details \<Rightarrow> entry_set" where
  "new_set t nm d = \<lparr>es_details = stored_details d, es_hash = units_hash t (encode_utf16 nm), es_name = encode_utf16 nm\<rparr>"

lemma hashed_new [simp]: "hashed t (new_set t nm d)"
  by (simp add: hashed_def new_set_def)

lemma new_set_details [simp]:
  "attributes (stored_details d) = attributes d" "first_cluster (stored_details d) = first_cluster d"
  "es_name (new_set t nm d) = encode_utf16 nm" "es_details (new_set t nm d) = stored_details d"
  by (simp_all add: new_set_def stored_details_def)

text \<open>A volume that differs from another one in the sectors of one directory only.\<close>

definition only_dir :: "('d \<Rightarrow> u32 \<Rightarrow> block) \<Rightarrow> ('d \<Rightarrow> nat) \<Rightarrow> layout \<Rightarrow> u32 list \<Rightarrow> 'd file_system \<Rightarrow> 'd file_system \<Rightarrow> bool" where
  "only_dir sector capacity ly cs s s' \<longleftrightarrow> same_setup capacity s s' \<and>
     (\<forall>u. u \<notin> dir_sectors (fs_details s) cs \<longrightarrow> medium sector ly s' u = medium sector ly s u)"

context reliable_device
begin

lemma written_only: "written ly cs s es s' \<Longrightarrow> only_dir sector capacity ly cs s s'"
  by (simp add: dir_written_def only_dir_def)

lemma only_dir_looked:
  assumes "only_dir sector capacity ly cs a b"
  shows "looked ly b c \<Longrightarrow> only_dir sector capacity ly cs a c" and "looked ly z a \<Longrightarrow> only_dir sector capacity ly cs z b"
  using assms same_setup_trans by (auto simp: only_dir_def only_looked_def same_setup_def)

lemma tree_create:
  assumes T: "tree ly fuel chain s dirs" and A: "apart (fs_details s) chain dirs" and c: "dirs c = Some sets"
    and nm: "name_error nm = None" "length (encode_utf16 nm) \<le> 255"
    and tr: "file_attributes_truncate attrs = attrs" "secondary_flags_truncate fl = fl"
    and sub: "contains attrs Directory \<Longrightarrow> dirs fc \<noteq> None"
    and g: "gap_at (items_of ly s (chain c)) k (2 + name_count (length (encode_utf16 nm)))"
  obtains d s1 s2 s' t' where "create_file_dir_entry_at P fuel nm c fc attrs fl vl dl (s, t) = (Ok d, s', t')"
    and "sets = s1 @ s2" and "tree ly fuel chain s' (dirs(c \<mapsto> s1 @ new_set (fs_upcase s) nm d # s2))"
    and "apart (fs_details s') chain (dirs(c \<mapsto> s1 @ new_set (fs_upcase s) nm d # s2))"
    and "only_dir sector capacity ly (chain c) s s'"
    and "set_added (items_of ly s (chain c)) (items_of ly s' (chain c)) (2 + name_count (length (encode_utf16 nm)))"
    and "first_cluster d = fc" and "data_length d = dl" and "valid_data_length d = vl" and "attributes d = attrs" and "flags d = fl"
proof -
  note D = treeD [OF T c]
  have run: "one_run (fs_details s) (chain c)" using A c by (auto simp: apart_def)
  obtain d k' rs s1 s2 s' t' where r: "create_file_dir_entry_at P fuel nm c fc attrs fl vl dl (s, t) = (Ok d, s', t')"
    and W: "written ly (chain c) s (put_raws k' rs (items_of ly s (chain c))) s'"
    and rs: "gap_at (items_of ly s (chain c)) k' (length rs)" "checksum_right rs" "length rs = 2 + name_count (length (encode_utf16 nm))"
    and sp: "sets = s1 @ s2"
    and ds: "dir_sets (put_raws k' rs (items_of ly s (chain c))) = Some (s1 @ new_set (fs_upcase s) nm d # s2)"
    and d: "first_cluster d = fc" "data_length d = dl" "valid_data_length d = vl" "attributes d = attrs" "flags d = fl"
    by (rule create_entry_ok [OF D(2) run D(1) D(3,4) nm tr g, folded new_set_def]) (rule that; assumption)
  let ?sets = "s1 @ new_set (fs_upcase s) nm d # s2"
  have h: "list_all (hashed (fs_upcase s)) ?sets" using D(5) sp by simp
  have "list_all (\<lambda>x. contains (attributes (es_details x)) Directory \<longrightarrow> dirs (first_cluster (es_details x)) \<noteq> None) ?sets"
    using D(6) sub d sp by (auto simp: list_all_iff)
  note T' = tree_written [OF T A c W ds h this]
  have "set_added (items_of ly s (chain c)) (items_of ly s' (chain c)) (2 + name_count (length (encode_utf16 nm)))"
    using put_raws_added [OF rs(1,2)] rs(3) writtenD(3) [OF W] by simp
  then show thesis by (rule that [OF r sp T' written_only [OF W] _ d])
qed

lemma mark_unused_ok:
  assumes W: "written ly cs s0 es s" and run: "one_run (fs_details s0) cs" and ds: "dir_sets es = Some (s1 @ x # s2)"
  obtains es' s' t' where "mark_directory_entry_set_unused P (fd_location (es_details x)) (unat (fd_secondary_count (es_details x)) + 1) (s, t) =
      (Ok (), s', t')" and "written ly cs s0 es' s'" and "dir_sets es' = Some (s1 @ s2)"
proof -
  let ?n = "Suc (unat (fd_secondary_count (es_details x)))" and ?fsd = "fs_details s0"
  note W' = writtenD [OF W]
  have es: "es = dir_items P ?fsd cs (content_of ly s)" using W'(2,3) by simp
  then have len: "length es = dir_size P ?fsd cs" by simp
  have raw: "raw_items es" using raw_dir_items [OF W'(1)] W'(3) by simp
  have n0: "0 < dir_entries_per_block P" using W'(1) directory_atD(4) by (auto simp: has_directory_def)
  obtain k where k: "k + ?n \<le> length es" "snd (es ! k) = fd_location (es_details x)" "dir_sets (clear_items k ?n es) = Some (s1 @ s2)"
    using dir_sets_remove [OF ds raw] by blast
  then have "fd_location (es_details x) = dir_location P ?fsd cs k" using dir_items_nth [of k P ?fsd cs "content_of ly s"] len es by simp
  then have st: "round_start P (fd_location (es_details x)) = dir_location P ?fsd cs k" using round_start_here [OF n0] by simp
  obtain s' t' where "mark_unused_loop P ?n (fd_location (es_details x)) (s, t) = (Ok (), s', t')" "written ly cs s0 (clear_items k ?n es) s'"
    using mark_unused_loop_ok [OF W run _ st len, of ?n t] k(1) len by (auto simp del: mark_unused_loop.simps)
  then show thesis using that k(3) by (simp add: mark_directory_entry_set_unused_def)
qed

lemma tree_unused:
  assumes T: "tree ly fuel chain s dirs" and A: "apart (fs_details s) chain dirs" and c: "dirs c = Some (s1 @ x # s2)"
  obtains s' t' where "mark_directory_entry_set_unused P (fd_location (es_details x)) (unat (fd_secondary_count (es_details x)) + 1) (s, t) =
      (Ok (), s', t')" and "tree ly fuel chain s' (dirs(c \<mapsto> s1 @ s2))" and "apart (fs_details s') chain (dirs(c \<mapsto> s1 @ s2))"
    and "only_dir sector capacity ly (chain c) s s'"
proof -
  note D = treeD [OF T c]
  have run: "one_run (fs_details s) (chain c)" using A c by (auto simp: apart_def)
  obtain es s' t' where r: "mark_directory_entry_set_unused P (fd_location (es_details x)) (unat (fd_secondary_count (es_details x)) + 1) (s, t) =
      (Ok (), s', t')" and W: "written ly (chain c) s es s'" and ds: "dir_sets es = Some (s1 @ s2)"
    by (rule mark_unused_ok [OF written_refl [OF D(2)] run D(4)])
  have "list_all (hashed (fs_upcase s)) (s1 @ s2)" using D(5) by simp
  moreover have "list_all (\<lambda>x. contains (attributes (es_details x)) Directory \<longrightarrow> dirs (first_cluster (es_details x)) \<noteq> None) (s1 @ s2)"
    using D(6) by (auto simp: list_all_iff)
  ultimately show thesis using that [OF r] tree_written [OF T A c W ds] written_only [OF W] by blast
qed

end

end
