(* ===== verification/Directory_Ops.thy ===== *)
theory Directory_Ops
  imports Directory_Tree File_System
begin

text \<open>
  Creating a file and renaming, as the user calls them (\<open>create_file\<close>, \<open>rename\<close> of \<open>file_system.rs\<close>), on the map of
  directories of a volume; the touched sectors are written back at the end.
\<close>

section \<open>Paths\<close>

lemma split_separators_name: "\<forall>c \<in> set nm. \<not> is_separator c \<Longrightarrow> split_separators nm = [nm]"
  by (induction nm) auto

lemma split_separators_nonempty: "split_separators p \<noteq> []"
  by (induction p) (auto split: list.splits)

lemma split_separators_append:
  "is_separator c \<Longrightarrow> split_separators (dir @ c # nm) = split_separators dir @ split_separators nm"
proof (induction dir)
  case (Cons b dir)
  then show ?case using split_separators_nonempty [of dir] by (auto split: list.splits)
qed simp

lemma path_to_iter_split:
  assumes "split_path p = (dir, nm)" and "nm \<noteq> []"
  shows "path_to_iter p = path_to_iter dir @ [trim nm]"
proof (rule split_path_cases [of p], goal_cases)
  case 1
  then show ?case using assms split_separators_name [of p] by (simp add: path_to_iter_def)
next
  case (2 dir' c nm')
  then show ?case using assms split_separators_append [of c dir nm] split_separators_name [of nm] by (simp add: path_to_iter_def)
qed

lemma resolve_snoc:
  "resolve_dir dirs t ps c = Some c' \<Longrightarrow> resolve dirs t attrs (ps @ [p]) c = resolve dirs t attrs [p] c'"
proof (induction ps arbitrary: c)
  case (Cons a ps)
  then obtain x where "name_error a = None" "find (matches t a (Some Directory)) (the (dirs c)) = Some x"
    "resolve_dir dirs t ps (first_cluster (es_details x)) = Some c'" by (auto split: if_splits option.splits)
  then show ?case using Cons.IH by simp
qed simp

lemma find_insert: "\<not> p x \<Longrightarrow> find p (s1 @ x # s2) = find p (s1 @ s2)"
  by (induction s1) auto

lemma find_fresh: "find p (s1 @ s2) = None \<Longrightarrow> p x \<Longrightarrow> find p (s1 @ x # s2) = Some x"
  by (induction s1) (auto split: if_splits)

text \<open>A new file does not change what the directories on a path are.\<close>

lemma resolve_dir_insert:
  assumes "\<not> contains (attributes (es_details x)) Directory" and "dirs a = Some (s1 @ s2)"
  shows "resolve_dir (dirs(a \<mapsto> s1 @ x # s2)) t ps c = resolve_dir dirs t ps c"
proof (induction ps arbitrary: c)
  case (Cons p ps)
  have "find (matches t p (Some Directory)) (the ((dirs(a \<mapsto> s1 @ x # s2)) c)) = find (matches t p (Some Directory)) (the (dirs c))"
    using assms find_insert [of "matches t p (Some Directory)" x s1 s2] by (auto simp: matches_def)
  then show ?case using Cons by (simp split: option.splits)
qed simp

section \<open>Looking up a path\<close>

context reliable_device
begin

abbreviation root_of :: "'d file_system \<Rightarrow> u32" where
  "root_of s \<equiv> fsd_first_cluster_of_root_dir (fs_details s)"

lemma get_leaf_ok:
  assumes "tree ly fuel cls s dirs" and "dirs (root_of s) \<noteq> None"
  obtains s' where "get_leaf_file_entry P fuel path attrs s =
      (resolved (resolve dirs (fs_upcase s) attrs (path_to_iter path) (root_of s)), s')" and "looked ly s s'"
  using leaf_loop_ok [OF assms, of attrs "path_to_iter path"] by (auto simp: get_leaf_file_entry_def andthen_gets)

section \<open>Creating a file\<close>

lemma create_file_ok:
  assumes T: "tree ly fuel cls s dirs" and A: "apart (fs_details s) cls dirs" and root: "dirs (root_of s) \<noteq> None"
    and path: "split_path path = (dir, nm)" "resolve_dir dirs (fs_upcase s) (path_to_iter dir) (root_of s) = Some c" "dirs c = Some sets"
    and nm: "name_error nm = None" "length (encode_utf16 nm) \<le> 255"
    and g: "gap_at (items_of ly s (cls c)) k (2 + name_count (length (encode_utf16 nm)))"
  obtains d s1 s2 s' where "create_file P fuel path s = (Ok d, s')" and "sets = s1 @ s2"
    and "tree ly fuel cls s' (dirs(c \<mapsto> s1 @ new_set (fs_upcase s) nm d # s2))"
    and "apart (fs_details s') cls (dirs(c \<mapsto> s1 @ new_set (fs_upcase s) nm d # s2))"
    and "only_dir sector capacity ly (cls c) s s'"
    and "set_added (items_of ly s (cls c)) (items_of ly s' (cls c)) (2 + name_count (length (encode_utf16 nm)))"
    and "first_cluster d = NO_CLUSTER_ID" and "data_length d = 0" and "valid_data_length d = 0" and "attributes d = Archive"
    and "flags d = default_flags"
proof -
  obtain s1 where r1: "get_or_create_loop P fuel (path_to_iter dir) (root_of s) (s, file_dirty_new) = (Ok c, s1, file_dirty_new)"
    and l1: "looked ly s s1"
    using get_or_create_loop_ok [OF T root path(2)] by blast
  have T1: "tree ly fuel cls s1 dirs" and A1: "apart (fs_details s1) cls dirs"
    using tree_looked [OF T l1] A lookedD(3) [OF l1] by simp_all
  have g1: "gap_at (items_of ly s1 (cls c)) k (2 + name_count (length (encode_utf16 nm)))"
    using g items_of_looked [OF l1] by simp
  have tr: "file_attributes_truncate Archive = Archive" "secondary_flags_truncate default_flags = default_flags"
    "\<not> contains Archive Directory" by code_simp+
  obtain d a b s2 t2 where r2: "create_file_dir_entry_at P fuel nm c NO_CLUSTER_ID Archive default_flags 0 0 (s1, file_dirty_new) = (Ok d, s2, t2)"
    and sp: "sets = a @ b" and T2: "tree ly fuel cls s2 (dirs(c \<mapsto> a @ new_set (fs_upcase s1) nm d # b))"
    and A2: "apart (fs_details s2) cls (dirs(c \<mapsto> a @ new_set (fs_upcase s1) nm d # b))"
    and O: "only_dir sector capacity ly (cls c) s1 s2"
    and S: "set_added (items_of ly s1 (cls c)) (items_of ly s2 (cls c)) (2 + name_count (length (encode_utf16 nm)))"
    and d: "first_cluster d = NO_CLUSTER_ID" "data_length d = 0" "valid_data_length d = 0" "attributes d = Archive" "flags d = default_flags"
    by (rule tree_create [OF T1 A1 path(3) nm tr(1,2) _ g1]) (use tr(3) in simp, (rule that; assumption))
  have "vol_ok ly s2" using T2 by (simp add: tree_at_def)
  then obtain s3 t3 where r3: "touched_flush P (s2, t2) = (Ok (), s3, t3)" and l3: "looked ly s2 s3" by (rule touched_flush_ok)
  have "create_file P fuel path s = (Ok d, s3)"
    by (simp add: create_file_def path(1) with_touched_def get_or_create_directory_def andthen_gets andthen_def gets_def r1 r2 r3 ret_def
        del: get_or_create_loop.simps)
  then show thesis
    using that sp tree_looked [OF T2 l3] A2 S items_of_looked [OF l1] items_of_looked [OF l3] only_dir_looked(1) [OF only_dir_looked(2) [OF O l1] l3] d lookedD(3,4) [OF l1] lookedD(3) [OF l3]
    by simp
qed

section \<open>Renaming\<close>

text \<open>What a path resolves to is in one of the directories.\<close>

lemma resolve_found:
  assumes T: "tree ly fuel cls s dirs" and "resolve dirs t attrs parts c = Inr (Some d)" and "dirs c \<noteq> None"
  shows "\<exists>a sets x. dirs a = Some sets \<and> x \<in> set sets \<and> es_details x = d"
  using assms(2,3)
proof (induction parts arbitrary: c)
  case (Cons p ps)
  obtain sets where sets: "dirs c = Some sets" using Cons.prems(2) by auto
  obtain x where x: "find (matches t p (if ps = [] then attrs else Some Directory)) sets = Some x"
    "if ps = [] then es_details x = d else resolve dirs t attrs ps (first_cluster (es_details x)) = Inr (Some d)"
    using Cons.prems(1) sets by (auto split: option.splits if_splits)
  have xs: "x \<in> set sets" "matches t p (if ps = [] then attrs else Some Directory) x" using x(1) by (auto simp: find_Some_iff)
  show ?case
  proof (cases "ps = []")
    case True
    then show ?thesis using x(2) xs(1) sets by auto
  next
    case False
    then have "dirs (first_cluster (es_details x)) \<noteq> None" using treeD(6) [OF T sets xs(1)] xs(2) by (simp add: matches_def)
    then show ?thesis using Cons.IH x(2) False by simp
  qed
qed simp

lemma find_file_ok:
  assumes T: "tree ly fuel cls s dirs" and root: "dirs (root_of s) \<noteq> None"
  shows "resolve dirs (fs_upcase s) attrs (path_to_iter path) (root_of s) = Inr (Some d) \<Longrightarrow>
      \<exists>s'. find_file_inner P fuel path attrs s = (Ok d, s') \<and> looked ly s s'"
    and "(\<And>d. resolve dirs (fs_upcase s) attrs (path_to_iter path) (root_of s) \<noteq> Inr (Some d)) \<Longrightarrow>
      \<exists>e s'. find_file_inner P fuel path attrs s = (Err e, s') \<and> looked ly s s'"
proof -
  obtain s' where r: "get_leaf_file_entry P fuel path attrs s =
      (resolved (resolve dirs (fs_upcase s) attrs (path_to_iter path) (root_of s)), s')" and lk: "looked ly s s'"
    by (rule get_leaf_ok [OF T root])
  note step = find_file_inner_def andthen_def r resolved_def ret_def fail_def
  show "\<exists>s'. find_file_inner P fuel path attrs s = (Ok d, s') \<and> looked ly s s'"
    if "resolve dirs (fs_upcase s) attrs (path_to_iter path) (root_of s) = Inr (Some d)"
    using that lk by (auto simp: step)
  show "\<exists>e s'. find_file_inner P fuel path attrs s = (Err e, s') \<and> looked ly s s'"
    if "\<And>d. resolve dirs (fs_upcase s) attrs (path_to_iter path) (root_of s) \<noteq> Inr (Some d)"
    using that lk by (cases "resolve dirs (fs_upcase s) attrs (path_to_iter path) (root_of s)")
      (auto simp: step split: option.splits)
qed

text \<open>
  Entry \<open>x\<close>, found under the old path, leaves its directory and an entry with the same content appears under the new
  name; the two directories may be the same one.
\<close>

lemma rename_ok:
  assumes m: "is_mounted s" and T: "tree ly fuel cls s dirs" and A: "apart (fs_details s) cls dirs" and root: "dirs (root_of s) \<noteq> None"
    and old: "resolve dirs (fs_upcase s) None (path_to_iter from_path) (root_of s) = Inr (Some fd)"
    and new: "\<And>d. resolve dirs (fs_upcase s) None (path_to_iter to_path) (root_of s) \<noteq> Inr (Some d)"
    and path: "split_path to_path = (dir, nm)" "resolve_dir dirs (fs_upcase s) (path_to_iter dir) (root_of s) = Some c" "dirs c = Some sets"
    and nm: "name_error nm = None" "length (encode_utf16 nm) \<le> 255"
    and g: "gap_at (items_of ly s (cls c)) k (2 + name_count (length (encode_utf16 nm)))"
  obtains a x f1 f2 s1 s2 d s' where "fs_rename P fuel from_path to_path s = (Ok (), s')"
    and "sets = s1 @ s2" and "x \<in> set (the (dirs a))" and "es_details x = fd"
    and "(dirs(c \<mapsto> s1 @ new_set (fs_upcase s) nm d # s2)) a = Some (f1 @ x # f2)"
    and "tree ly fuel cls s' (dirs(c \<mapsto> s1 @ new_set (fs_upcase s) nm d # s2, a \<mapsto> f1 @ f2))"
    and "apart (fs_details s') cls (dirs(c \<mapsto> s1 @ new_set (fs_upcase s) nm d # s2, a \<mapsto> f1 @ f2))"
    and "first_cluster d = first_cluster fd" and "data_length d = data_length fd"
    and "valid_data_length d = valid_data_length fd" and "attributes d = attributes fd" and "flags d = flags fd"
    and "same_setup capacity s s'"
proof -
  obtain a xs x where x: "dirs a = Some xs" "x \<in> set xs" "es_details x = fd" using resolve_found [OF T old root] by blast
  obtain q1 where r1: "find_file_inner P fuel from_path None s = (Ok fd, q1)" and l1: "looked ly s q1"
    using find_file_ok(1) [OF T root old] by blast
  have T1: "tree ly fuel cls q1 dirs" and root1: "dirs (root_of q1) \<noteq> None" using tree_looked [OF T l1] root lookedD(3) [OF l1] by simp_all
  obtain e q2 where r2: "find_file_inner P fuel to_path None q1 = (Err e, q2)" and l2: "looked ly s q2"
    using find_file_ok(2) [OF T1 root1, of None to_path] new lookedD(3,4) [OF l1] looked_trans [OF l1] by auto
  have T2: "tree ly fuel cls q2 dirs" and root2: "dirs (root_of q2) \<noteq> None" using tree_looked [OF T l2] root lookedD(3) [OF l2] by simp_all
  obtain q3 where r3: "get_or_create_loop P fuel (path_to_iter dir) (root_of q2) (q2, file_dirty_new) = (Ok c, q3, file_dirty_new)"
    and l3: "looked ly s q3"
    using get_or_create_loop_ok [OF T2 root2, of "path_to_iter dir" c] path(2) lookedD(3,4) [OF l2] looked_trans [OF l2] by auto
  have T3: "tree ly fuel cls q3 dirs" and A3: "apart (fs_details q3) cls dirs"
    using tree_looked [OF T l3] A lookedD(3) [OF l3] by simp_all
  have g3: "gap_at (items_of ly q3 (cls c)) k (2 + name_count (length (encode_utf16 nm)))" using g items_of_looked [OF l3] by simp
  have tr: "file_attributes_truncate (attributes fd) = attributes fd" "secondary_flags_truncate (flags fd) = flags fd"
    using dir_sets_flags [OF treeD(4) [OF T x(1)] x(2)] x(3) by simp_all
  have sub: "dirs (first_cluster fd) \<noteq> None" if "contains (attributes fd) Directory"
    using treeD(6) [OF T x(1,2)] x(3) that by simp
  obtain d s1 s2 q4 t4 where r4: "create_file_dir_entry_at P fuel nm c (first_cluster fd) (attributes fd) (flags fd) (valid_data_length fd)
      (data_length fd) (q3, file_dirty_new) = (Ok d, q4, t4)" and sp: "sets = s1 @ s2"
    and T4: "tree ly fuel cls q4 (dirs(c \<mapsto> s1 @ new_set (fs_upcase q3) nm d # s2))"
    and A4: "apart (fs_details q4) cls (dirs(c \<mapsto> s1 @ new_set (fs_upcase q3) nm d # s2))"
    and O4: "only_dir sector capacity ly (cls c) q3 q4"
    and d: "first_cluster d = first_cluster fd" "data_length d = data_length fd" "valid_data_length d = valid_data_length fd"
      "attributes d = attributes fd" "flags d = flags fd"
    by (rule tree_create [OF T3 A3 path(3) nm tr sub g3]) (assumption, (rule that; assumption))
  let ?dirs = "dirs(c \<mapsto> s1 @ new_set (fs_upcase q3) nm d # s2)"
  obtain f1 f2 where f: "?dirs a = Some (f1 @ x # f2)"
  proof -
    have "\<exists>ys. ?dirs a = Some ys \<and> x \<in> set ys" using x(1,2) path(3) sp by auto
    then show thesis using that by (auto dest: split_list)
  qed
  obtain q5 t5 where r5: "mark_directory_entry_set_unused P (fd_location (es_details x)) (unat (fd_secondary_count (es_details x)) + 1) (q4, t4) =
      (Ok (), q5, t5)" and T5: "tree ly fuel cls q5 (?dirs(a \<mapsto> f1 @ f2))" and A5: "apart (fs_details q5) cls (?dirs(a \<mapsto> f1 @ f2))"
    and O5: "only_dir sector capacity ly (cls a) q4 q5"
    by (rule tree_unused [OF T4 A4 f])
  have "vol_ok ly q5" using T5 by (simp add: tree_at_def)
  then obtain q6 t6 where r6: "touched_flush P (q5, t5) = (Ok (), q6, t6)" and l6: "looked ly q5 q6" by (rule touched_flush_ok)
  note mount = mount_mounted [OF m, of P]
  have st: "same_setup capacity s q6"
    using l3 O4 O5 l6 by (auto simp: only_looked_def only_dir_def same_setup_def)
  have "fs_rename P fuel from_path to_path s = (Ok (), q6)"
    using r5 unfolding x(3)
    by (simp add: fs_rename_def path(1) with_touched_def get_or_create_directory_def andthen_def gets_def mount r1 r2 r3 r4 r6
        del: get_or_create_loop.simps)
  then show thesis
    using that [of q6 s1 s2 x a d f1 f2] sp x f tree_looked [OF T5 l6] A5 d st lookedD(4) [OF l3] lookedD(3) [OF l6] by simp
qed

end

end
