(* ===== verification/File_Open.thy ===== *)
theory File_Open
  imports File_Chain Directory_Ops
begin

text \<open>
  Opening a file by its path and reading it whole (\<open>open\<close>, \<open>read\<close> of \<open>file_system.rs\<close>), and \<open>seek\<close> on a file whose
  clusters are linked in the FAT.
\<close>

section \<open>Files as their entry sets describe them\<close>

text \<open>
  The clusters of a file with details \<open>d\<close>: as many as its length asks for, from the first one on, consecutive or linked.
\<close>

definition stored_at :: "('d, 'e) platform \<Rightarrow> ('d \<Rightarrow> u32 \<Rightarrow> block) \<Rightarrow> ('d \<Rightarrow> nat) \<Rightarrow> layout \<Rightarrow> 'd file_system \<Rightarrow> u32 list \<Rightarrow>
    file_details \<Rightarrow> bool" where
  "stored_at P sector capacity ly s cls d \<longleftrightarrow> geometry_ok P (fs_details s) \<and>
     clusters_placed ly (capacity (fs_dev s)) (fs_details s) cls \<and> length cls < 2 ^ 32 \<and>
     length cls = (unat (data_length d) + unat (fsd_cluster_length (fs_details s)) - 1) div unat (fsd_cluster_length (fs_details s)) \<and>
     (cls \<noteq> [] \<longrightarrow> first_cluster d = hd cls) \<and>
     (if contains (flags d) NoFatChain then clusters_follow (first_cluster d) cls
      else \<exists>off. start_of_fat_sector (fs_fat s) = Some off \<and>
        clusters_linked P ly (capacity (fs_dev s)) off (medium sector ly s) cls)"

definition stored_bytes :: "('d, 'e) platform \<Rightarrow> ('d \<Rightarrow> u32 \<Rightarrow> block) \<Rightarrow> layout \<Rightarrow> 'd file_system \<Rightarrow> u32 list \<Rightarrow> file_details \<Rightarrow> u8 list" where
  "stored_bytes P sector ly s cls d =
     map (chain_byte P (medium sector ly s) (fs_details s) cls (valid_data_length d)) [0..<unat (data_length d)]"

lemma clusters_of_length:
  fixes cl dl :: nat
  assumes "0 < cl"
  shows "dl \<le> (dl + cl - 1) div cl * cl" and "0 < dl \<Longrightarrow> (dl + cl - 1) div cl = Suc ((dl - 1) div cl)"
proof -
  show r: "0 < dl \<Longrightarrow> (dl + cl - 1) div cl = Suc ((dl - 1) div cl)"
  proof -
    assume "0 < dl"
    then have "dl + cl - 1 = (dl - 1) + cl" by linarith
    then show ?thesis using assms by (simp only: div_add_self2 [OF less_imp_neq [OF assms, symmetric]] Suc_eq_plus1)
  qed
  show "dl \<le> (dl + cl - 1) div cl * cl"
  proof (cases "dl = 0")
    case False
    have "dl - 1 < Suc ((dl - 1) div cl) * cl" using dividend_less_div_times [OF assms, of "dl - 1"] by simp
    then show ?thesis using r False by (simp add: Suc_le_eq [symmetric] del: mult_Suc)
  qed simp
qed

context reliable_device
begin

text \<open>Following the FAT from one cluster of the list to another.\<close>

lemma walk_fat_ok:
  assumes "vol_ok ly s" and "start_of_fat_sector (fs_fat s) = Some off" and two: "\<forall>c \<in> set cls. 2 \<le> c"
    and "clusters_linked P ly (capacity (fs_dev s)) off (content_of ly s) cls" and "i + k < length cls"
  shows "\<exists>s'. walk_fat P k (cls ! i) s = (Ok (cls ! (i + k)), s') \<and> looked ly s s'"
  using assms(1,2,4,5)
proof (induction k arbitrary: i s)
  case 0
  then show ?case using looked_refl by (auto simp: ret_def)
next
  case (Suc k)
  have L: "fat_sizes_ok P" "ly (fat_sector_of P off (cls ! i)) = FatRegion" "unat (fat_sector_of P off (cls ! i)) < capacity (fs_dev s)"
    "decode_entry (fat_entry_at P off (content_of ly s) (cls ! i)) = Some (cls ! Suc i)"
    using Suc.prems(3,4) by (auto simp: clusters_linked_def)
  have "2 \<le> cls ! i" using two Suc.prems(4) by simp
  from volume_next_cluster [OF Suc.prems(1,2) L(1) this L(2,3)] L(4)
  obtain s1 where r: "on_fat (next_cluster_in_fat_chain P (cls ! i)) s = (Ok (Some (cls ! Suc i)), s1)" and l1: "looked ly s s1"
    by (auto simp: only_looked_def)
  from Suc.IH [of s1 "Suc i"] lookedD [OF l1] Suc.prems(2,3,4)
  obtain s2 where "walk_fat P k (cls ! Suc i) s1 = (Ok (cls ! (Suc i + k)), s2)" "looked ly s1 s2" by auto
  then show ?case using r looked_trans [OF l1] by (auto simp: andthen_def)
qed

section \<open>Opening\<close>

lemma get_stored_chain_ok:
  assumes V: "vol_ok ly s" and S: "stored_at P sector capacity ly s cls d"
  obtains ch s' where "get_stored_chain P d s = (Ok ch, s')" and "looked ly s s'" and "chain_of P sector capacity ly s' cls ch"
    and "ch = StoredEmpty \<longleftrightarrow> cls = []"
proof -
  let ?cl = "fsd_cluster_length (fs_details s)" let ?n = "ucast (div_ceil (data_length d) (ucast ?cl)) :: u32"
  have g: "0 < unat ?cl" and len: "length cls = (unat (data_length d) + unat ?cl - 1) div unat ?cl" "length cls < 2 ^ 32"
    and two: "\<forall>c \<in> set cls. 2 \<le> c" using S by (auto simp: stored_at_def geometry_ok_def clusters_placed_def)
  have cl0: "?cl \<noteq> 0" using g by (simp add: unat_gt_0)
  have "unat (ucast ?cl :: u64) = unat ?cl" by (simp add: unat_ucast_up)
  then have "unat (div_ceil (data_length d) (ucast ?cl)) = length cls"
    using unat_div_ceil [of "ucast ?cl :: u64" "data_length d"] cl0 len(1) by (metis unat_0 unat_eq_0)
  then have n: "unat ?n = length cls" using len(2) by (simp add: unsigned_ucast_eq take_bit_nat_eq_self)
  have step: "get_stored_chain P d s = (if first_cluster d = NO_CLUSTER_ID \<or> ?n = 0 then (Ok StoredEmpty, s)
      else if contains (flags d) NoFatChain then (Ok (StoredContiguous (first_cluster d) ?n), s)
      else andthen (get_cluster_id_at P (data_length d) d) (\<lambda>c. ret (StoredFat (first_cluster d) c ?n)) s)"
    using cl0 by (simp add: get_stored_chain_def andthen_def gets_def assert_that_def ret_def Let_def)
  show thesis
  proof (cases "cls = []")
    case True
    then have "?n = 0" using n by (simp add: unat_eq_0)
    then have "get_stored_chain P d s = (Ok StoredEmpty, s)" unfolding step by simp
    then show thesis using that True looked_refl [OF V] by (simp add: chain_of_def)
  next
    case False
    then have f: "first_cluster d = hd cls" "first_cluster d = cls ! 0" using S by (simp_all add: stored_at_def hd_conv_nth)
    have "2 \<le> first_cluster d" using two False f(1) by simp
    then have nz: "\<not> (first_cluster d = NO_CLUSTER_ID \<or> ?n = 0)" using n False by (auto simp: NO_CLUSTER_ID_def)
    show thesis
    proof (cases "contains (flags d) NoFatChain")
      case True
      then have "get_stored_chain P d s = (Ok (StoredContiguous (first_cluster d) ?n), s)" unfolding step using nz by simp
      moreover have "chain_of P sector capacity ly s cls (StoredContiguous (first_cluster d) ?n)"
        using S True n by (simp add: stored_at_def chain_of_def)
      ultimately show thesis using that looked_refl [OF V] False by blast
    next
      case fat: False
      then obtain off where off: "start_of_fat_sector (fs_fat s) = Some off"
        "clusters_linked P ly (capacity (fs_dev s)) off (content_of ly s) cls" using S by (auto simp: stored_at_def)
      have dl: "0 < unat (data_length d)"
      proof (rule ccontr)
        assume "\<not> ?thesis"
        then show False using len(1) g False by simp
      qed
      then have d1: "unat (data_length d - 1) = unat (data_length d) - 1" by (metis unat_minus_one unat_0 less_irrefl)
      let ?k = "ucast ((data_length d - 1) div ucast ?cl :: u64) :: u32"
      have "unat ((data_length d - 1) div ucast ?cl :: u64) = length cls - 1"
        using clusters_of_length(2) [OF g dl] len(1) by (simp add: unat_div unat_ucast_up d1)
      then have k: "unat ?k = length cls - 1" using len(2) by (simp add: unsigned_ucast_eq take_bit_nat_eq_self)
      have "0 + (length cls - 1) < length cls" using False by simp
      from walk_fat_ok [OF V off(1) two off(2) this] obtain s' where
        w: "walk_fat P (length cls - 1) (first_cluster d) s = (Ok (cls ! (length cls - 1)), s')" and lk: "looked ly s s'"
        using f(2) by auto
      have "data_length d \<noteq> 0" using dl by auto
      then have "get_stored_chain P d s = (Ok (StoredFat (first_cluster d) (cls ! (length cls - 1)) ?n), s')"
        unfolding step using nz fat w cl0 k
        by (simp add: get_cluster_id_at_def andthen_def gets_def assert_that_def ret_def Let_def)
      moreover have "chain_of P sector capacity ly s' cls (StoredFat (first_cluster d) (cls ! (length cls - 1)) ?n)"
        unfolding chain_of_looked [OF lk] using off n False f(1) by (auto simp: chain_of_def)
      ultimately show thesis using that lk False by blast
    qed
  qed
qed

lemma open_read_ok:
  assumes m: "is_mounted s" and T: "tree ly fuel cs s dirs" and root: "dirs (root_of s) \<noteq> None"
    and found: "resolve dirs (fs_upcase s) (Some Archive) (path_to_iter path) (root_of s) = Inr (Some d)"
    and S: "stored_at P sector capacity ly s cls d" and vl: "unat (valid_data_length d) < 2 ^ usize_bits P"
  obtains f s' where "fs_open P fuel path read_options s = (Ok f, s')" and "looked ly s s'"
    and "details f = d" and "cursor f = 0" and "opt_read (open_options f)" and "touched f = file_dirty_new"
    and "0 < data_length d \<Longrightarrow> chained ly cls f s'"
proof -
  obtain s1 where r1: "find_file_inner P fuel path (Some Archive) s = (Ok d, s1)" and l1: "looked ly s s1"
    using find_file_ok(1) [OF T root found] by blast
  have S1: "stored_at P sector capacity ly s1 cls d" using S lookedD [OF l1] by (simp add: stored_at_def)
  obtain ch s2 where r2: "get_stored_chain P d s1 = (Ok ch, s2)" and l2: "looked ly s1 s2"
    and ch: "chain_of P sector capacity ly s2 cls ch" "ch = StoredEmpty \<longleftrightarrow> cls = []"
    by (rule get_stored_chain_ok [OF lookedD(1) [OF l1] S1])
  have lk: "looked ly s s2" by (rule looked_trans [OF l1 l2])
  let ?cl = "fsd_cluster_length (fs_details s2)"
  have g: "geometry_ok P (fs_details s2)" "0 < unat ?cl" using S lookedD(3) [OF lk] by (auto simp: stored_at_def geometry_ok_def)
  have cl0: "?cl \<noteq> 0" using g(2) by auto
  define f where "f = \<lparr>details = d, current_cluster = first_cluster d, remaining_bytes_in_cluster = (if ch = StoredEmpty then 0 else ?cl),
    cursor = 0, open_options = read_options, chain = ch, touched = file_dirty_new\<rparr>"
  note mount = mount_mounted [OF m, of P]
  have opts: "\<not> opt_create_new read_options" "\<not> opt_truncate read_options" "\<not> opt_append read_options" "opt_read read_options"
    by (simp_all add: read_options_def options_read_def open_options_new_def)
  have "file_new d (first_cluster d) ?cl read_options ch s2 = (Ok f, s2)"
    using cl0 opts by (cases ch) (simp_all add: file_new_def f_def andthen_def assert_that_def ret_def)
  then have r: "fs_open P fuel path read_options s = (Ok f, s2)"
    using opts by (simp add: fs_open_def andthen_def mount find_file_or_directory_def r1 r2 gets_def)
  have "chained ly cls f s2" if "0 < data_length d"
  proof -
    have dl: "0 < unat (data_length d)" using that by (simp add: word_less_nat_alt)
    have len: "length cls = (unat (data_length d) + unat ?cl - 1) div unat ?cl" using S lookedD(3) [OF lk] by (simp add: stored_at_def)
    have ne: "cls \<noteq> []" using clusters_of_length(2) [OF g(2) dl] len by auto
    then have "first_cluster d = cls ! 0" using S by (simp add: stored_at_def hd_conv_nth)
    then have "chain_cursor (fs_details s2) cls f" using ch(2) ne g(2) cl0 by (simp add: chain_cursor_def f_def)
    moreover have "unat (data_length d) \<le> length cls * unat ?cl" using clusters_of_length(1) [OF g(2)] len by simp
    ultimately show ?thesis
      using lookedD(1,3,6) [OF lk] g(1) ch(1) S vl by (simp add: chained_file_def f_def stored_at_def)
  qed
  then show thesis using that [OF r lk] opts(4) by (simp add: f_def)
qed

section \<open>Reading a file whole\<close>

lemma close_clean:
  assumes "vol_ok ly s" and "touched f = file_dirty_new"
  obtains f' s' where "file_close P (f, s) = (Ok (), f', s')" and "looked ly s s'"
proof -
  obtain s' t' where r: "touched_flush P (s, touched f) = (Ok (), s', t')" and lk: "looked ly s s'"
    by (rule touched_flush_ok [OF assms(1)])
  have "file_close P (f, s) = (Ok (), f\<lparr>touched := t'\<rparr>, s')"
    using assms(2) r
    by (simp add: file_close_def file_flush_def the_file_def andthen_def gets_def ret_def in_fst_def zoom_def file_dirty_new_def)
  then show thesis using lk by (rule that)
qed

lemma fs_read_ok:
  assumes m: "is_mounted s" and T: "tree ly fuel cs s dirs" and root: "dirs (root_of s) \<noteq> None"
    and found: "resolve dirs (fs_upcase s) (Some Archive) (path_to_iter path) (root_of s) = Inr (Some d)"
    and S: "stored_at P sector capacity ly s cls d"
    and fits: "unat (data_length d) < 2 ^ usize_bits P" "unat (valid_data_length d) < 2 ^ usize_bits P"
  shows "\<exists>s'. fs_read P fuel path s = (Ok (stored_bytes P sector ly s cls d), s') \<and> looked ly s s'"
proof -
  obtain f s1 where r1: "fs_open P fuel path read_options s = (Ok f, s1)" and l1: "looked ly s s1"
    and f: "details f = d" "cursor f = 0" "opt_read (open_options f)" "touched f = file_dirty_new"
      "0 < data_length d \<Longrightarrow> chained ly cls f s1"
    by (rule open_read_ok [OF m T root found S fits(2)]) (rule that; assumption)
  have m1: "is_mounted s1" using m lookedD(7) [OF l1] by simp
  have pre: "cursor f \<le> data_length (details f)" "unat (data_length (details f)) - unat (cursor f) < 2 ^ usize_bits P"
    "cursor f < data_length (details f) \<Longrightarrow> chained ly cls f s1" using f fits(1) by simp_all
  obtain f2 s2 where r2: "read_to_end P [] (f, s1) = (Ok (stored_bytes P sector ly s cls d, unat (data_length d)), f2, s2)"
    and f2: "touched f2 = file_dirty_new" and l2: "s2 = s1 \<or> looked ly s1 s2"
    using chain_file.whole [OF m1 f(3) pre, of "[]"] f lookedD(2,3) [OF l1] by (auto simp: stored_bytes_def)
  have l2': "looked ly s s2" using l1 l2 looked_trans by blast
  obtain f3 s3 where r3: "file_close P (f2, s2) = (Ok (), f3, s3)" and l3: "looked ly s2 s3"
    by (rule close_clean [OF lookedD(1) [OF l2'] f2])
  note mount = mount_mounted [OF m, of P]
  have "fs_read P fuel path s = (Ok (stored_bytes P sector ly s cls d), s3)"
    by (simp add: fs_read_def andthen_def mount r1 with_file_def r2 r3 ret_def)
  then show ?thesis using looked_trans [OF l2' l3] by blast
qed

text \<open>A path that leads nowhere.\<close>

lemma fs_read_missing:
  assumes m: "is_mounted s" and T: "tree ly fuel cs s dirs" and root: "dirs (root_of s) \<noteq> None"
    and found: "resolve dirs (fs_upcase s) (Some Archive) (path_to_iter path) (root_of s) = r" "\<And>d. r \<noteq> Inr (Some d)"
  shows "\<exists>s'. fs_read P fuel path s = (Err (case r of Inl reason \<Rightarrow> InvalidFileName reason | Inr _ \<Rightarrow> FileNotFound), s') \<and> looked ly s s'"
proof -
  obtain s' where l: "get_leaf_file_entry P fuel path (Some Archive) s = (resolved r, s')" and lk: "looked ly s s'"
    using get_leaf_ok [OF T root, of path "Some Archive"] found(1) by metis
  note mount = mount_mounted [OF m, of P]
  have "\<not> opt_create read_options" "\<not> opt_create_new read_options"
    by (simp_all add: read_options_def options_read_def open_options_new_def)
  then have "fs_read P fuel path s = (Err (case r of Inl reason \<Rightarrow> InvalidFileName reason | Inr _ \<Rightarrow> FileNotFound), s')"
    using found(2)
    by (cases r; simp add: fs_read_def fs_open_def andthen_def mount find_file_or_directory_def find_file_inner_def l resolved_def
        fail_def ret_def split: option.split)
  then show ?thesis using lk by blast
qed

section \<open>Seeking in a linked file\<close>

lemma walk_fat_add: "walk_fat P (a + b) c s = andthen (walk_fat P a c) (walk_fat P b) s"
  by (induction a arbitrary: c s) (simp_all add: andthen_def ret_def fail_def split: outcome.split option.split prod.split)

lemma seek_linked_step:
  assumes m: "is_mounted s" and cur: "cur \<le> valid_data_length (details f)" and ch: "chain f = StoredFat first lst n"
    and g: "geometry_ok P (fs_details s)" and k: "unat cur div unat (fsd_cluster_length (fs_details s)) = k" "k < 2 ^ 32"
  shows "file_seek P cur (f, s) = andthen (in_fs (walk_fat P k first)) (\<lambda>c.
     andthen (upd_file (\<lambda>f. f\<lparr>current_cluster := c\<rparr>)) (\<lambda>_. update_remaining_bytes_in_cluster)) (f\<lparr>cursor := cur\<rparr>, s)"
proof -
  let ?cl = "fsd_cluster_length (fs_details s)"
  have cl0: "?cl \<noteq> 0" using g by (auto simp: geometry_ok_def)
  have "unat (cur div ucast ?cl :: u64) = k" using k(1) by (simp add: unat_div unat_ucast_up)
  then have num: "unat (ucast (cur div ucast ?cl :: u64) :: u32) = k" using k(2) by (simp add: unsigned_ucast_eq take_bit_nat_eq_self)
  show ?thesis
    unfolding file_seek_def andthen_Ok [where m = "in_fs (mount P)", OF mounted_mount [OF m]]
    using leD [OF cur] ch cl0 num
    by (simp add: the_file_def andthen_def gets_def upd_file_def modify_def cluster_length_def assert_that_def Let_def)
qed

text \<open>Any position inside the clusters is found.\<close>

lemma seek_linked_ok:
  assumes F: "chained ly cls f s" and m: "is_mounted s" and cur: "cur \<le> valid_data_length (details f)"
    and ch: "chain f = StoredFat first lst n"
    and k: "unat cur div unat (fsd_cluster_length (fs_details s)) < length cls" and n32: "length cls < 2 ^ 32"
  shows "\<exists>f' s'. file_seek P cur (f, s) = (Ok (), f', s') \<and> cursor f' = cur \<and> details f' = details f \<and>
    open_options f' = open_options f \<and> chained ly cls f' s' \<and> looked ly s s'"
proof -
  note D = chained_fileD [OF F]
  let ?cl = "fsd_cluster_length (fs_details s)" let ?k = "unat cur div unat ?cl"
  have cl: "0 < unat ?cl" "?cl \<noteq> 0" using D(2) by (auto simp: geometry_ok_def)
  obtain off where off: "start_of_fat_sector (fs_fat s) = Some off" "first = cls ! 0"
    "clusters_linked P ly (capacity (fs_dev s)) off (content_of ly s) cls" using D(4) ch by (auto simp: chain_of_def hd_conv_nth)
  obtain s' where w: "walk_fat P ?k first s = (Ok (cls ! ?k), s')" and lk: "looked ly s s'"
    using walk_fat_ok [OF D(1) off(1) _ off(3), of 0 ?k] k D(3) off(2) by (auto simp: clusters_placed_def)
  let ?rem = "?cl - ucast (cur mod ucast ?cl :: u64)"
  let ?f = "f\<lparr>cursor := cur, current_cluster := cls ! ?k, remaining_bytes_in_cluster := ?rem\<rparr>"
  have m': "unat cur mod unat ?cl < unat ?cl" using cl(1) by simp
  have rem: "unat ?rem = unat ?cl - unat cur mod unat ?cl"
    using m' cluster_offset_nat [OF cl(1), of cur] by (simp add: unat_sub word_le_nat_alt)
  then have "?rem \<noteq> 0" using m' by (metis unat_0 zero_less_diff less_irrefl)
  then have "chain_cursor (fs_details s) cls ?f" using rem k by (simp add: chain_cursor_def Let_def)
  then have "chained ly cls ?f s'"
    using D lookedD(1,3,6) [OF lk] chain_of_looked [OF lk, of cls "chain f"] by (simp add: chained_file_def)
  moreover have "file_seek P cur (f, s) = (Ok (), ?f, s')"
    unfolding seek_linked_step [OF m cur ch D(2) refl less_trans [OF k n32]]
    using w lookedD(3) [OF lk] cl(2)
    by (simp add: andthen_def in_fs_def zoom_def upd_file_def modify_def update_remaining_bytes_in_cluster_def cluster_length_def
        gets_def assert_that_def)
  ultimately show ?thesis using lk by (intro exI [of _ ?f] exI [of _ s']) simp
qed

text \<open>The end of a file that fills its clusters is not: the walk runs off the chain after the cursor was moved.\<close>

lemma seek_linked_end:
  assumes F: "chained ly cls f s" and m: "is_mounted s" and cur: "cur \<le> valid_data_length (details f)"
    and ch: "chain f = StoredFat first lst n" and full: "unat cur = length cls * unat (fsd_cluster_length (fs_details s))"
    and n32: "length cls < 2 ^ 32"
    and off: "start_of_fat_sector (fs_fat s) = Some off" "ly (fat_sector_of P off (last cls)) = FatRegion"
      "unat (fat_sector_of P off (last cls)) < capacity (fs_dev s)"
      "decode_entry (fat_entry_at P off (content_of ly s) (last cls)) = None"
  shows "\<exists>s'. file_seek P cur (f, s) = (Err EndOfFatChain, f\<lparr>cursor := cur\<rparr>, s') \<and> looked ly s s'"
proof -
  note D = chained_fileD [OF F]
  have ne: "cls \<noteq> []" and fl: "first = cls ! 0" "clusters_linked P ly (capacity (fs_dev s)) off (content_of ly s) cls"
    using D(4) ch off(1) by (auto simp: chain_of_def hd_conv_nth)
  have k: "unat cur div unat (fsd_cluster_length (fs_details s)) = length cls" using full D(2) by (auto simp: geometry_ok_def)
  let ?k = "length cls - 1"
  have len: "length cls = ?k + 1" "last cls = cls ! ?k" using ne by (simp_all add: last_conv_nth)
  obtain s1 where w: "walk_fat P ?k first s = (Ok (last cls), s1)" and l1: "looked ly s s1"
    using walk_fat_ok [OF D(1) off(1) _ fl(2), of 0 ?k] ne D(3) fl(1) len(2) by (auto simp: clusters_placed_def)
  have two: "2 \<le> last cls" and sz: "fat_sizes_ok P" using D(3) ne fl(2) by (simp_all add: clusters_placed_def clusters_linked_def)
  obtain s2 where r: "on_fat (next_cluster_in_fat_chain P (last cls)) s1 = (Ok None, s2)" and l2: "looked ly s1 s2"
    using volume_next_cluster [OF lookedD(1) [OF l1] _ sz two, of off] off lookedD [OF l1] by (auto simp: only_looked_def)
  have "walk_fat P (?k + 1) first s = (Err EndOfFatChain, s2)"
    unfolding walk_fat_add using w r by (simp add: andthen_def fail_def)
  then have "walk_fat P (length cls) first s = (Err EndOfFatChain, s2)" by (simp only: len(1) [symmetric])
  then have "file_seek P cur (f, s) = (Err EndOfFatChain, f\<lparr>cursor := cur\<rparr>, s2)"
    unfolding seek_linked_step [OF m cur ch D(2) k n32] by (simp add: andthen_def in_fs_def zoom_def)
  then show ?thesis using looked_trans [OF l1 l2] by blast
qed

end

end
