(* ===== verification/Directory_Remove.thy ===== *)
theory Directory_Remove
  imports Directory_Ops
begin

text \<open>
  Deleting a file (\<open>remove_file\<close>, \<open>delete_inner\<close> of \<open>file_system.rs\<close>) whose clusters, if it has any, are one run: the run
  is given back to the allocation bitmap and the entry set leaves its directory.
\<close>

section \<open>Changes of the bitmap\<close>

text \<open>The bitmap lies in its own region.\<close>

definition bitmap_region :: "layout \<Rightarrow> allocation_bitmap_slim \<Rightarrow> bool" where
  "bitmap_region ly bm \<longleftrightarrow> (\<forall>u. in_bitmap bm u \<longrightarrow> ly u = BitmapRegion)"

definition volume_allocated :: "('d, 'e) platform \<Rightarrow> ('d \<Rightarrow> u32 \<Rightarrow> block) \<Rightarrow> layout \<Rightarrow> 'd file_system \<Rightarrow> nat \<Rightarrow> bool" where
  "volume_allocated P sector ly s c = cluster_allocated P (first_sector (bitmap (fs_allocator s))) (medium sector ly s) c"

lemma bitmap_region_of:
  assumes "bitmap_ok P cap bm" and "bitmap_region ly bm" and "2 \<le> c" and "c < bitmap_end bm"
  shows "ly (first_sector bm + of_nat ((c - 2) div cps P)) = BitmapRegion"
proof -
  have s: "(c - 2) div cps P < unat (num_sectors bm)"
    by (rule bitmap_sector_less [OF assms(1,3)]) (use assms(1,4) in \<open>auto simp: bitmap_ok_def bitmap_end_def\<close>)
  show ?thesis using assms(2) bitmap_sector_addr(1) [OF assms(1) s] s by (simp add: bitmap_region_def in_bitmap_def)
qed

lemma volume_allocated_cong:
  assumes "bitmap_ok P cap (bitmap (fs_allocator s))" and "bitmap_region ly (bitmap (fs_allocator s))"
    and "2 \<le> c" and "c < bitmap_end (bitmap (fs_allocator s))" and "bitmap (fs_allocator s') = bitmap (fs_allocator s)"
    and "\<And>u. ly u = BitmapRegion \<Longrightarrow> medium sector ly s' u = medium sector ly s u"
  shows "volume_allocated P sector ly s' c = volume_allocated P sector ly s c"
  using bitmap_region_of [OF assms(1-4)] assms(5,6) by (simp add: volume_allocated_def cluster_allocated_def)

text \<open>
  Only the bitmap has changed, and there the run \<open>lo ..< hi\<close> has got the state \<open>x\<close>.
\<close>

definition run_marked :: "('d, 'e) platform \<Rightarrow> ('d \<Rightarrow> u32 \<Rightarrow> block) \<Rightarrow> ('d \<Rightarrow> nat) \<Rightarrow> ('d \<Rightarrow> bool) \<Rightarrow> layout \<Rightarrow> nat \<Rightarrow> nat \<Rightarrow> bool \<Rightarrow>
    'd file_system \<Rightarrow> 'd file_system \<Rightarrow> bool" where
  "run_marked P sector capacity dev_ok ly lo hi x s s' \<longleftrightarrow> volume_ok P sector capacity dev_ok ly s' \<and> same_setup capacity s s' \<and>
     (\<forall>u. ly u \<noteq> BitmapRegion \<longrightarrow> medium sector ly s' u = medium sector ly s u) \<and>
     (\<forall>c. 2 \<le> c \<longrightarrow> c < bitmap_end (bitmap (fs_allocator s)) \<longrightarrow>
        volume_allocated P sector ly s' c = (if lo \<le> c \<and> c < hi then x else volume_allocated P sector ly s c))"

context reliable_device
begin

abbreviation marked :: "layout \<Rightarrow> nat \<Rightarrow> nat \<Rightarrow> bool \<Rightarrow> 'd file_system \<Rightarrow> 'd file_system \<Rightarrow> bool" where
  "marked \<equiv> run_marked P sector capacity dev_ok"

lemma volume_mark:
  assumes V: "vol_ok ly s" and bm: "bitmap_ok P (capacity (fs_dev s)) (bitmap (fs_allocator s))" and ly: "bitmap_region ly (bitmap (fs_allocator s))"
    and run: "2 \<le> unat (run_first_cluster r)" "unat (run_first_cluster r) + unat (run_cluster_count r) \<le> bitmap_end (bitmap (fs_allocator s))"
  obtains s' t' where "on_alloc_fat_t (zoom (\<lambda>(a, f, t, d). (a, t, d)) (\<lambda>(a', t', d') (a, f, t, d). (a', f, t', d')) (mark_allocated P r x)) (s, t) =
      (Ok (), s', t')"
    and "marked ly (unat (run_first_cluster r)) (unat (run_first_cluster r) + unat (run_cluster_count r)) x s s'"
proof -
  let ?a = "fs_allocator s"
  have V': "ready (alloc_cache ?a, fs_dev s)" "held_by ly BitmapRegion (alloc_cache ?a)" using V by (simp_all add: volume_ok_def)
  obtain c' t' d' where m: "mark_allocated P r x (?a, t, fs_dev s) = (Ok (), ?a\<lparr>alloc_cache := c'\<rparr>, t', d')"
    "ready (c', d')" "capacity d' = capacity (fs_dev s)"
    "\<And>c. 2 \<le> c \<Longrightarrow> c < bitmap_end (bitmap ?a) \<Longrightarrow> allocated (?a\<lparr>alloc_cache := c'\<rparr>) d' c =
      (if unat (run_first_cluster r) \<le> c \<and> c < unat (run_first_cluster r) + unat (run_cluster_count r) then x else allocated ?a (fs_dev s) c)"
    "\<And>s'. \<not> in_bitmap (bitmap ?a) s' \<Longrightarrow> view (c', d') s' = view (alloc_cache ?a, fs_dev s) s'"
    "\<And>u i. holds c' u i \<Longrightarrow> in_bitmap (bitmap ?a) u \<or> (\<exists>j. holds (alloc_cache ?a) u j)"
    by (rule mark_allocated_total [OF V'(1) bm run, of x t]) (rule that; assumption)
  have held: "held_by ly BitmapRegion c'" using m(6) V'(2) ly by (fastforce simp: held_by_def bitmap_region_def)
  have out: "view (c', d') u = view (alloc_cache ?a, fs_dev s) u" if "ly u \<noteq> BitmapRegion" for u
    using m(5) that ly by (auto simp: bitmap_region_def)
  let ?s = "s\<lparr>fs_allocator := ?a\<lparr>alloc_cache := c'\<rparr>, fs_dev := d'\<rparr>"
  note S = alloc_step [OF V m(2) held m(3) out refl]
  have "marked ly (unat (run_first_cluster r)) (unat (run_first_cluster r) + unat (run_cluster_count r)) x s ?s"
    using S m(4) bitmap_region_of [OF bm ly] by (simp add: run_marked_def volume_allocated_def cluster_allocated_def medium_def)
  moreover have "on_alloc_fat_t (zoom (\<lambda>(a, f, t, d). (a, t, d)) (\<lambda>(a', t', d') (a, f, t, d). (a', f, t', d')) (mark_allocated P r x)) (s, t) =
      (Ok (), ?s, t')"
    using m(1) by (simp add: on_alloc_fat_t_def zoom_def)
  ultimately show thesis using that by blast
qed

lemma tree_marked:
  assumes T: "tree ly fuel cls s dirs" and M: "marked ly lo hi x s s'"
  shows "tree ly fuel cls s' dirs"
proof -
  have st: "same_setup capacity s s'" and V: "vol_ok ly s'"
    and same: "\<And>u. ly u \<noteq> BitmapRegion \<Longrightarrow> content_of ly s' u = content_of ly s u" using M by (auto simp: run_marked_def)
  note st' = same_setupD [OF st]
  have "has_dir ly s' cs \<and> items_of ly s' cs = items_of ly s cs" if D: "has_dir ly s cs" for cs
  proof -
    obtain off where off: "start_of_fat_sector (fs_fat s) = Some off"
      "directory_at P ly (capacity (fs_dev s)) off (content_of ly s) (fs_details s) cs" using D by (auto simp: has_directory_def)
    have "directory_at P ly (capacity (fs_dev s)) off (content_of ly s') (fs_details s) cs"
      by (rule directory_at_cong [OF off(2)]) (simp add: same)
    moreover have "items_of ly s' cs = items_of ly s cs"
      unfolding st' using directory_atD(9) [OF off(2)] same by (intro dir_items_cong) simp
    ultimately show ?thesis using off(1) V by (auto simp: has_directory_def st')
  qed
  then have "has_dir ly s' (cls c)" "items_of ly s' (cls c) = items_of ly s (cls c)" if "dirs c = Some sets" for c sets
    using treeD(2) [OF T that] by blast+
  then show ?thesis using T V unfolding tree_at_def st' by simp
qed

end

section \<open>Deleting a file\<close>

text \<open>The clusters of a file without a FAT chain: none, or one run.\<close>

definition run_count :: "file_system_details \<Rightarrow> file_details \<Rightarrow> u32" where
  "run_count fsd d = (if first_cluster d = NO_CLUSTER_ID then 0 else ucast (div_ceil (data_length d) (ucast (fsd_cluster_length fsd))))"

definition one_run_file :: "file_system_details \<Rightarrow> allocation_bitmap_slim \<Rightarrow> file_details \<Rightarrow> bool" where
  "one_run_file fsd bm d \<longleftrightarrow> fsd_cluster_length fsd \<noteq> 0 \<and>
     (run_count fsd d = 0 \<or> contains (flags d) NoFatChain \<and> 2 \<le> unat (first_cluster d) \<and>
        unat (first_cluster d) + unat (run_count fsd d) \<le> bitmap_end bm)"

context reliable_device
begin

lemma stored_chain_one_run:
  assumes "one_run_file (fs_details s) bm d"
  shows "get_stored_chain P d s = (Ok (if run_count (fs_details s) d = 0 then StoredEmpty
    else StoredContiguous (first_cluster d) (run_count (fs_details s) d)), s)"
  using assms by (auto simp: get_stored_chain_def one_run_file_def run_count_def andthen_def gets_def assert_that_def ret_def Let_def)

lemma free_run_ok:
  assumes V: "vol_ok ly s" and bm: "bitmap_ok P (capacity (fs_dev s)) (bitmap (fs_allocator s))" and ly: "bitmap_region ly (bitmap (fs_allocator s))"
    and d: "one_run_file (fs_details s) (bitmap (fs_allocator s)) d"
  obtains s' t' where "on_alloc_fat_t (free P (if run_count (fs_details s) d = 0 then StoredEmpty
      else StoredContiguous (first_cluster d) (run_count (fs_details s) d))) (s, t) = (Ok (), s', t')"
    and "marked ly (unat (first_cluster d)) (unat (first_cluster d) + unat (run_count (fs_details s) d)) False s s'"
proof (cases "run_count (fs_details s) d = 0")
  case True
  have "marked ly (unat (first_cluster d)) (unat (first_cluster d)) False s s" using V by (auto simp: run_marked_def)
  then show thesis using that [of s t] True by (simp add: free_def on_alloc_fat_t_def zoom_def ret_def)
next
  case False
  obtain s' t' where "on_alloc_fat_t (zoom (\<lambda>(a, f, t, d). (a, t, d)) (\<lambda>(a', t', d') (a, f, t, d). (a', f, t', d'))
      (mark_allocated P \<lparr>run_first_cluster = first_cluster d, run_cluster_count = run_count (fs_details s) d\<rparr> False)) (s, t) = (Ok (), s', t')"
    "marked ly (unat (first_cluster d)) (unat (first_cluster d) + unat (run_count (fs_details s) d)) False s s'"
    using volume_mark [OF V bm ly, of "\<lparr>run_first_cluster = first_cluster d, run_cluster_count = run_count (fs_details s) d\<rparr>" False t]
      d False by (auto simp: one_run_file_def)
  then show thesis using that False by (simp add: free_def)
qed

lemma remove_file_ok:
  assumes m: "is_mounted s" and T: "tree ly fuel cls s dirs" and A: "apart (fs_details s) cls dirs" and root: "dirs (root_of s) \<noteq> None"
    and old: "resolve dirs (fs_upcase s) (Some Archive) (path_to_iter path) (root_of s) = Inr (Some fd)"
    and nodir: "\<not> contains (attributes fd) Directory"
    and bm: "bitmap_ok P (capacity (fs_dev s)) (bitmap (fs_allocator s))" "bitmap_region ly (bitmap (fs_allocator s))"
    and fd: "one_run_file (fs_details s) (bitmap (fs_allocator s)) fd"
  obtains a x f1 f2 s' where "remove_file P fuel path s = (Ok (), s')"
    and "dirs a = Some (f1 @ x # f2)" and "es_details x = fd"
    and "tree ly fuel cls s' (dirs(a \<mapsto> f1 @ f2))" and "apart (fs_details s') cls (dirs(a \<mapsto> f1 @ f2))" and "same_setup capacity s s'"
    and "\<And>c. 2 \<le> c \<Longrightarrow> c < bitmap_end (bitmap (fs_allocator s)) \<Longrightarrow> volume_allocated P sector ly s' c =
      (volume_allocated P sector ly s c \<and> \<not> (unat (first_cluster fd) \<le> c \<and> c < unat (first_cluster fd) + unat (run_count (fs_details s) fd)))"
proof -
  obtain a xs x where x: "dirs a = Some xs" "x \<in> set xs" "es_details x = fd" using resolve_found [OF T old root] by blast
  obtain f1 f2 where f: "dirs a = Some (f1 @ x # f2)" using x(1,2) by (auto dest: split_list)
  obtain q1 where r1: "find_file_inner P fuel path (Some Archive) s = (Ok fd, q1)" and l1: "looked ly s q1"
    using find_file_ok(1) [OF T root old] by blast
  note L = lookedD [OF l1]
  have al1: "bitmap (fs_allocator q1) = bitmap (fs_allocator s)" using l1 by (simp add: only_looked_def same_setup_def)
  have fd1: "one_run_file (fs_details q1) (bitmap (fs_allocator q1)) fd" using fd L(3) al1 by simp
  note r2 = stored_chain_one_run [OF fd1]
  obtain q2 t2 where r3: "on_alloc_fat_t (free P (if run_count (fs_details q1) fd = 0 then StoredEmpty
      else StoredContiguous (first_cluster fd) (run_count (fs_details q1) fd))) (q1, file_dirty_new) = (Ok (), q2, t2)"
    and M: "marked ly (unat (first_cluster fd)) (unat (first_cluster fd) + unat (run_count (fs_details q1) fd)) False q1 q2"
    by (rule free_run_ok [OF L(1) _ _ fd1, of file_dirty_new]) (use bm L(6) al1 in simp_all)
  have T2: "tree ly fuel cls q2 dirs" by (rule tree_marked [OF tree_looked [OF T l1] M])
  have A2: "apart (fs_details q2) cls dirs" using A M L(3) by (simp add: run_marked_def same_setup_def)
  obtain q3 t3 where r4: "mark_directory_entry_set_unused P (fd_location (es_details x)) (unat (fd_secondary_count (es_details x)) + 1) (q2, t2) =
      (Ok (), q3, t3)" and T3: "tree ly fuel cls q3 (dirs(a \<mapsto> f1 @ f2))" and A3: "apart (fs_details q3) cls (dirs(a \<mapsto> f1 @ f2))"
    and O: "only_dir sector capacity ly (cls a) q2 q3"
    by (rule tree_unused [OF T2 A2 f])
  have "vol_ok ly q3" using T3 by (simp add: tree_at_def)
  then obtain q4 t4 where r5: "touched_flush P (q3, t3) = (Ok (), q4, t4)" and l4: "looked ly q3 q4" by (rule touched_flush_ok)
  note mount = mount_mounted [OF m, of P]
  have "remove_file P fuel path s = (Ok (), q4)"
    using r4 nodir unfolding x(3)
    by (simp add: remove_file_def delete_inner_def confirm_has_no_children_def with_touched_def on_fs_def zoom_def andthen_def mount r1 r2 r3 r5)
  moreover have "volume_allocated P sector ly q4 c = (volume_allocated P sector ly s c \<and>
      \<not> (unat (first_cluster fd) \<le> c \<and> c < unat (first_cluster fd) + unat (run_count (fs_details s) fd)))"
    if "2 \<le> c" "c < bitmap_end (bitmap (fs_allocator s))" for c
  proof -
    have al: "bitmap (fs_allocator q2) = bitmap (fs_allocator q1)" "bitmap (fs_allocator q4) = bitmap (fs_allocator q2)"
      using M O l4 by (simp_all add: run_marked_def only_dir_def only_looked_def same_setup_def)
    have dirs: "u \<notin> dir_sectors (fs_details q2) (cls a)" if "ly u = BitmapRegion" for u
      using dir_sectors_data [OF treeD(2) [OF T2 f]] that by auto
    have "volume_allocated P sector ly q4 c = volume_allocated P sector ly q2 c"
      by (rule volume_allocated_cong [of P "capacity (fs_dev s)"])
        (use bm al al1 that dirs O lookedD(2) [OF l4] in \<open>simp_all add: only_dir_def\<close>)
    moreover have "volume_allocated P sector ly q1 c = volume_allocated P sector ly s c"
      using al1 L(2) by (simp add: volume_allocated_def)
    ultimately show ?thesis using M that al1 L(3) by (auto simp: run_marked_def)
  qed
  moreover have "same_setup capacity s q4"
    using l1 M O l4 by (auto simp: only_looked_def only_dir_def run_marked_def same_setup_def)
  ultimately show thesis
    using that [of q4 a f1 x f2] f x(3) tree_looked [OF T3 l4] A3 lookedD(3) [OF l4] by simp
qed

end

end
