(* ===== verification/File_Append.thy ===== *)
theory File_Append
  imports File_Grow File_Open Directory_Remove
begin

text \<open>
  Opening a file for appending and writing to it (\<open>open\<close> of \<open>file_system.rs\<close>, \<open>File::new\<close> and \<open>write\<close> of \<open>file.rs\<close>), for a
  file of consecutive clusters that is as long as its clusters.
\<close>

section \<open>Two views of a volume\<close>

text \<open>The bitmap lies before the sectors of the data cache.\<close>

definition bitmap_in_front :: "layout \<Rightarrow> allocation_bitmap_slim \<Rightarrow> bool" where
  "bitmap_in_front ly bm \<longleftrightarrow> bitmap_region ly bm \<and>
     (\<forall>u. (ly u = BitmapRegion \<longrightarrow> unat u < bitmap_limit bm) \<and> (ly u = DataRegion \<longrightarrow> bitmap_limit bm \<le> unat u))"

text \<open>A file that fills its clusters, of which there is one at least, and the next cluster is free.\<close>

definition full_file :: "('d, 'e) platform \<Rightarrow> ('d \<Rightarrow> u32 \<Rightarrow> block) \<Rightarrow> 'd file_system \<Rightarrow> file_details \<Rightarrow> bool" where
  "full_file P sector s d \<longleftrightarrow>
     (let fsd = fs_details s; bm = bitmap (fs_allocator s); n = run_count fsd d; lo = unat (first_cluster d) in
      one_run_file fsd bm d \<and> n \<noteq> 0 \<and> valid_data_length d = data_length d \<and>
      unat (data_length d) = unat n * unat (fsd_cluster_length fsd) \<and> bitmap_limit bm \<le> cluster_start fsd lo \<and>
      lo + unat n < bitmap_end bm \<and> cluster_free P sector s (lo + unat n))"

lemma full_fileD:
  assumes "full_file P sector s d"
  shows "one_run_file (fs_details s) (bitmap (fs_allocator s)) d" and "run_count (fs_details s) d \<noteq> 0"
    and "valid_data_length d = data_length d"
    and "unat (data_length d) = unat (run_count (fs_details s) d) * unat (fsd_cluster_length (fs_details s))"
    and "fsd_cluster_length (fs_details s) \<noteq> 0" and "contains (flags d) NoFatChain" and "2 \<le> unat (first_cluster d)"
    and "bitmap_limit (bitmap (fs_allocator s)) \<le> cluster_start (fs_details s) (unat (first_cluster d))"
    and "unat (first_cluster d) + unat (run_count (fs_details s) d) < bitmap_end (bitmap (fs_allocator s))"
    and "cluster_free P sector s (unat (first_cluster d) + unat (run_count (fs_details s) d))"
  using assms by (auto simp: full_file_def Let_def one_run_file_def)

context reliable_device
begin

lemma cluster_free_volume:
  assumes "bitmap_ok P cap (bitmap (fs_allocator s))" and "bitmap_region ly (bitmap (fs_allocator s))"
    and "2 \<le> c" and "c < bitmap_end (bitmap (fs_allocator s))"
  shows "cluster_free P sector s c \<longleftrightarrow> \<not> volume_allocated P sector ly s c"
  using bitmap_region_of [OF assms] by (simp add: cluster_free_def volume_allocated_def cluster_allocated_def medium_def)

lemma volume_ready_looked:
  assumes V: "volume_ready P sector capacity dev_ok s" and f: "bitmap_in_front ly (bitmap (fs_allocator s))" and l: "looked ly s s'"
  shows "volume_ready P sector capacity dev_ok s'"
    and "\<And>c. 2 \<le> c \<Longrightarrow> c < bitmap_end (bitmap (fs_allocator s)) \<Longrightarrow> cluster_free P sector s' c = cluster_free P sector s c"
proof -
  note L = lookedD [OF l] and V' = volume_readyD [OF V]
  have st: "bitmap (fs_allocator s') = bitmap (fs_allocator s)" "2 \<le> unat (next_search_cluster (fs_allocator s'))" "is_mounted s'"
    using l V'(1,5) by (simp_all add: only_looked_def same_setup_def)
  have C: "ready (alloc_cache (fs_allocator s'), fs_dev s')" "data_ready s'"
    "held_by ly BitmapRegion (alloc_cache (fs_allocator s'))" "held_by ly DataRegion (data_blocks s')"
    using L(1) by (simp_all add: volume_ok_def)
  have H: "held_below (bitmap_limit (bitmap (fs_allocator s))) (alloc_cache (fs_allocator s'))"
    "held_from (bitmap_limit (bitmap (fs_allocator s))) (data_blocks s')"
    using C(3,4) f by (auto simp: held_below_def held_from_def held_by_def bitmap_in_front_def)
  show free: "cluster_free P sector s' c = cluster_free P sector s c"
    if "2 \<le> c" "c < bitmap_end (bitmap (fs_allocator s))" for c
  proof -
    have "bitmap_region ly (bitmap (fs_allocator s))" using f by (simp add: bitmap_in_front_def)
    then show ?thesis
      using cluster_free_volume [of "capacity (fs_dev s)" s ly c] cluster_free_volume [of "capacity (fs_dev s)" s' ly c] that V'(4) st(1) L(2)
      by (simp add: volume_allocated_def)
  qed
  show "volume_ready P sector capacity dev_ok s'"
    using V V' st C(1,2) H L(3,6) free by (simp add: volume_ready_def Let_def)
qed

section \<open>Opening for appending\<close>

lemma open_append_ok:
  assumes m: "is_mounted s" and T: "tree ly fuel cs s dirs" and root: "dirs (root_of s) \<noteq> None"
    and found: "resolve dirs (fs_upcase s) (Some Archive) (path_to_iter path) (root_of s) = Inr (Some d)"
    and opts: "opt_append opts" "\<not> opt_create_new opts" "\<not> opt_truncate opts" and F: "full_file P sector s d"
  obtains f s' where "fs_open P fuel path opts s = (Ok f, s')" and "looked ly s s'" and "details f = d" and "open_options f = opts"
    and "cursor f = data_length d" and "chain f = StoredContiguous (first_cluster d) (run_count (fs_details s) d)"
    and "current_cluster f = first_cluster d + run_count (fs_details s) d - 1"
    and "remaining_bytes_in_cluster f = fsd_cluster_length (fs_details s)"
proof -
  let ?cl = "fsd_cluster_length (fs_details s)" and ?n = "run_count (fs_details s) d"
  note F' = full_fileD [OF F]
  obtain s1 where r1: "find_file_inner P fuel path (Some Archive) s = (Ok d, s1)" and l1: "looked ly s s1"
    using find_file_ok(1) [OF T root found] by blast
  have fsd: "fs_details s1 = fs_details s" using lookedD(3) [OF l1] .
  have r2: "get_stored_chain P d s1 = (Ok (StoredContiguous (first_cluster d) ?n), s1)"
    using stored_chain_one_run [of s1 "bitmap (fs_allocator s)" d] F'(1,2) fsd by simp
  have "unat (data_length d mod ucast ?cl) = 0" by (simp add: unat_mod unat_ucast_up F'(4))
  then have z: "data_length d mod ucast ?cl = 0" by (simp only: unat_eq_0)
  define f where "f = \<lparr>details = d, current_cluster = first_cluster d + ?n - 1, remaining_bytes_in_cluster = ?cl,
    cursor = data_length d, open_options = opts, chain = StoredContiguous (first_cluster d) ?n, touched = file_dirty_new\<rparr>"
  have "file_new d (first_cluster d + ?n - 1) ?cl opts (StoredContiguous (first_cluster d) ?n) s1 = (Ok f, s1)"
    using opts(1) F'(3,5) z by (simp add: file_new_def f_def andthen_def assert_that_def ret_def)
  then have "fs_open P fuel path opts s = (Ok f, s1)"
    using opts by (simp add: fs_open_def andthen_def mount_mounted [OF m] find_file_or_directory_def r1 r2 gets_def fsd)
  then show thesis using that l1 by (simp add: f_def)
qed

section \<open>Writing\<close>

text \<open>
  The file has a new cluster, but the bytes, less than a sector, go to the first sector of the cluster before it.
\<close>

lemma append_misplaced:
  assumes V: "volume_ready P sector capacity dev_ok s" and F: "full_file P sector s d"
    and f: "details f = d" "opt_write (open_options f)" "cursor f = data_length d"
      "chain f = StoredContiguous (first_cluster d) (run_count (fs_details s) d)"
      "current_cluster f = first_cluster d + run_count (fs_details s) d - 1"
      "remaining_bytes_in_cluster f = fsd_cluster_length (fs_details s)"
    and buf: "buf \<noteq> []" "length buf < SIZE P" "unat (data_length d) + length buf < 2 ^ usize_bits P"
  obtains f' s' where "file_write P buf (f, s) = (Ok (), f', s')"
    and "unat (data_length (details f')) = unat (data_length d) + length buf"
    and "\<And>j. j < length buf \<Longrightarrow> raw_byte P (data_view s') (fs_details s) (first_cluster d)
      (unat (data_length d) - unat (fsd_cluster_length (fs_details s)) + j) = buf ! j"
    and "\<And>j. j < length buf \<Longrightarrow> raw_byte P (data_view s') (fs_details s) (first_cluster d) (unat (data_length d) + j) =
      raw_byte P (data_view s) (fs_details s) (first_cluster d) (unat (data_length d) + j)"
proof -
  let ?fsd = "fs_details s" and ?bm = "bitmap (fs_allocator s)" and ?first = "first_cluster d" and ?n = "run_count (fs_details s) d"
  let ?cl = "unat (fsd_cluster_length ?fsd)" and ?c = "unat (data_length d)" and ?L = "length buf" and ?m = "bitmap_limit ?bm"
  note V' = volume_readyD [OF V]
  have g: "0 < SIZE P" "SIZE P \<le> ?cl" "0 < ?cl" "fsd_cluster_length ?fsd \<noteq> 0" "?cl mod SIZE P = 0"
    using V'(3) by (auto simp: geometry_ok_def)
  have D: "contains (flags d) NoFatChain" "2 \<le> unat ?first" "?n \<noteq> 0" "valid_data_length d = data_length d" "?c = unat ?n * ?cl"
    "?m \<le> cluster_start ?fsd (unat ?first)" "unat ?first + unat ?n < bitmap_end ?bm" "cluster_free P sector s (unat ?first + unat ?n)"
    using full_fileD [OF F] by simp_all
  have n: "0 < unat ?n" using D(3) by (simp add: unat_gt_0)
  have mono: "cluster_start ?fsd a \<le> cluster_start ?fsd b" if "a \<le> b" for a b
    using that unfolding cluster_start_def by (intro add_left_mono mult_le_mono1) simp
  have run: "run_ok cap ?fsd ?first k" if "unat ?first + unat k \<le> bitmap_end ?bm" "cap = capacity (fs_dev s)" for k cap
    using that D(2) mono [OF that(1)] V'(10,11) bitmap_end_small [OF V'(4)] by (simp add: run_ok_def)
  have rn: "run_ok (capacity (fs_dev s)) ?fsd ?first ?n" by (rule run) (use D(7) in simp_all)
  have cc: "unat (current_cluster f) + 1 = unat ?first + unat ?n"
    using n rn by (simp add: f(5) run_ok_def unat_word_ariths unat_sub word_le_nat_alt)
  text \<open>Positioned as \<open>write\<close> leaves a file at the end of a cluster, it could grow.\<close>
  define f0 where "f0 = f\<lparr>remaining_bytes_in_cluster := 0\<rparr>"
  have f0: "chain f0 = chain f" "touched f0 = touched f" by (simp_all add: f0_def)
  have vl: "unat (valid_data_length d) < 2 ^ usize_bits P" using buf(3) D(4) by simp
  have cap: "cluster_capacity ?fsd f = unat ?n * ?cl"
    using div_mult_self3 [of ?cl "unat ?n" "?cl - 1"] g(3) by (simp add: cluster_capacity_def f(1) D(5))
  have "contiguous_file P (capacity (fs_dev s)) ?fsd ?first ?n f0"
    using V'(3) rn D(5) n g(3) cc vl by (simp add: contiguous_file_def cursor_ok_def f0_def f(1,3,4))
  then have G: "growable P capacity s ?first ?n f0"
    using D(1,6) cap by (simp add: growable_def f0_def f(1) cluster_capacity_def)
  have room: "room_for P sector s f0 1"
    using D(7,8) by (simp add: room_for_def f0_def f(4) free_run_def le_less_Suc_eq)
  obtain r a' t' d' where al: "allocate P (chain f) (of_nat 1) (fs_allocator s, touched f, fs_dev s) = (Ok r, a', t', d')"
    and r: "run_cluster_count r = of_nat 1" "run_len r = 1" "continues r (chain f)"
    and a: "ready (alloc_cache a', d')" "held_below (bitmap_limit (bitmap a')) (alloc_cache a')"
      "capacity d' = capacity (fs_dev s)" "bitmap a' = ?bm" "2 \<le> run_lo r" "unat (next_search_cluster a') = run_lo r + 1"
      "\<And>c. 2 \<le> c \<Longrightarrow> c < bitmap_end ?bm \<Longrightarrow> allocated a' d' c = (run_lo r \<le> c \<and> c < run_lo r + 1 \<or> \<not> cluster_free P sector s c)"
      "\<And>u. ?m \<le> unat u \<Longrightarrow> sector d' u = sector (fs_dev s) u" "dev_ok d'"
    by (rule grow_run [OF V G room, unfolded f0]) (simp, (rule that; assumption))
  define s1 where "s1 = s\<lparr>fs_allocator := a', fs_dev := d'\<rparr>"
  have "2 \<le> unat (next_search_cluster a')" using a(5,6) by simp
  note vol = volume_after_allocation [OF V a(1-4) this a(7-9) s1_def]
  have s1: "fs_details s1 = ?fsd" "capacity (fs_dev s1) = capacity (fs_dev s)" using a(3) by (simp_all add: s1_def)
  let ?f1 = "grown t' r (fsd_cluster_length ?fsd) f" let ?f2 = "update_data_length ?L ?f1"
  have f2: "cursor ?f2 = data_length d" "remaining_bytes_in_cluster ?f2 = fsd_cluster_length ?fsd" "current_cluster ?f2 = current_cluster f"
    by (simp_all add: update_data_length_def Let_def grown_def f(3,4,6))
  have e: "?c + ?L < 2 ^ 64" using D(5) run_bytes_less [of "?n + 1" ?fsd] g(2) buf(2) rn
    by (simp add: run_ok_def unat_word_ariths)
  have dl: "unat (data_length (details ?f2)) = ?c + ?L"
  proof -
    have "unat (data_length d + of_nat ?L) = ?c + ?L" using e by (simp add: unat_word_ariths unat_of_nat)
    then show ?thesis by (simp add: update_data_length_def Let_def grown_def f(1,3,4) D(4) max_def word_le_nat_alt)
  qed
  have pos: "0 < ?L" using buf(1) by simp
  have "1 = (?L + ?cl - 1) div ?cl"
    unfolding clusters_of_length(2) [OF g(3) pos] using buf(2) g(2) by simp
  then have ac: "allocate_clusters_for P ?L (f, s) = (Ok (), ?f1, s1)"
    unfolding s1_def by (rule allocate_clusters_one_run [OF _ g(4) al r(1) _ r(3)]) (use D(1) f(1) in simp)
  have u: "upd_file (update_data_length ?L) (?f1, s1) = (Ok (), ?f2, s1)" by (simp add: upd_file_def modify_def)
  have nx: "next_cluster_if_required P (?f2, s1) = (Ok (), ?f2, s1)"
    using g(4) f2(2) by (simp add: next_cluster_if_required_def the_file_def andthen_def gets_def ret_def)
  have h: "unat (data_length (details f)) \<le> unat ?n * ?cl" "unat (cursor f) + ?L < 2 ^ 64" "unat (cursor f) + ?L < 2 ^ usize_bits P"
    "cluster_capacity ?fsd f < unat (cursor f) + ?L" "unat (cursor f) + ?L - cluster_capacity ?fsd f = ?L"
    using D(5) e buf(3) pos by (simp_all add: f(1,3) cap)
  have w: "file_write P buf (f, s) = andthen (write_partial_sector P buf) (write_body P buf) (?f2, s1)"
    unfolding file_write_steps [OF V'(1) f(2) buf(1) g(3) h(1-3)] if_P [OF h(4)] h(5)
      andthen_Ok [where m = "allocate_clusters_for P ?L", OF ac]
      andthen_Ok [where m = "upd_file (update_data_length ?L)", OF u]
      andthen_Ok [where m = "next_cluster_if_required P", OF nx] ..
  let ?p = "(unat ?n - 1) * ?cl"
  have p: "?c - ?cl = ?p" by (simp add: D(5) diff_mult_distrib)
  have pc: "?p < unat ?n * ?cl" "?p mod ?cl = unat (cursor ?f2) mod ?cl" "unat (current_cluster ?f2) = unat ?first + ?p div ?cl"
    using n g(3) cc by (simp_all add: f2(1,3) D(5))
  have al0: "unat (cursor ?f2) mod SIZE P = 0"
    unfolding f2(1) D(5) using g(5) by (metis mod_mult_right_eq mod_0 mult_0_right)
  have pre: "geometry_ok P (fs_details s1)" "run_ok (capacity (fs_dev s1)) (fs_details s1) ?first ?n"
    "?p < unat ?n * unat (fsd_cluster_length (fs_details s1))"
    "?p mod unat (fsd_cluster_length (fs_details s1)) = unat (cursor ?f2) mod unat (fsd_cluster_length (fs_details s1))"
    "unat (current_cluster ?f2) = unat ?first + ?p div unat (fsd_cluster_length (fs_details s1))"
    "?L = min ?L (SIZE P - unat (cursor ?f2) mod SIZE P)"
    using V'(3) rn pc al0 buf(2) by (simp_all add: s1)
  obtain t c' d'' where wp: "write_partial_sector P buf (?f2, s1) =
      (Ok ?L, move_file_cursor ?L (?f2\<lparr>touched := t\<rparr>), s1\<lparr>data_blocks := c', fs_dev := d''\<rparr>)"
    and st: "stored P ?fsd ?first ?n (data_view s1) ?p buf (view (c', d''))"
    using write_partial_ok [OF pre(1-5) buf(1) disjI2 [OF buf(2)] volume_readyD(8) [OF vol(1)] pre(6)] s1(1)
    by (metis take_all order_refl)
  let ?s' = "s1\<lparr>data_blocks := c', fs_dev := d''\<rparr>" let ?f' = "move_file_cursor ?L (?f2\<lparr>touched := t\<rparr>)"
  have res: "file_write P buf (f, s) = (Ok (), ?f', ?s')"
    unfolding w by (simp add: andthen_def wp write_body_def ret_def)
  have new: "raw_byte P (data_view ?s') ?fsd ?first (?c - ?cl + j) = buf ! j" if "j < ?L" for j
  proof -
    have "?p + j < ?p + ?cl" using that buf(2) g(2) by simp
    also have "\<dots> = unat ?n * ?cl" using n by (cases "unat ?n") simp_all
    finally show ?thesis using stored_nth [OF st that] by (simp add: p)
  qed
  have old: "raw_byte P (data_view ?s') ?fsd ?first (?c + j) = raw_byte P (data_view s) ?fsd ?first (?c + j)" if "j < ?L" for j
  proof -
    let ?sec = "byte_sector P ?fsd ?first (?c + j)"
    have n1: "unat (?n + 1) = unat ?n + 1" using rn by (simp add: run_ok_def unat_word_ariths)
    have rn1: "run_ok (capacity (fs_dev s)) ?fsd ?first (?n + 1)" by (rule run) (use D(7) n1 in simp_all)
    have "?c + j < unat (?n + 1) * ?cl" using that buf(2) g(2) D(5) n1 by simp
    from byte_sector_in_run(1) [OF V'(3) rn1 this]
    have sec: "unat ?sec = cluster_start ?fsd (unat ?first) + (?c + j) div SIZE P" .
    have "(?c + j) div SIZE P \<ge> unat ?n * unat (fsd_sectors_per_cluster ?fsd)"
      using V'(3) by (simp add: geometry_ok_def D(5) algebra_simps less_eq_div_iff_mult_less_eq)
    then have out: "\<not> in_run ?fsd ?first ?n ?sec" and m: "?m \<le> unat ?sec"
      using sec D(6) by (simp_all add: in_run_def cluster_start_def algebra_simps)
    have "data_view s1 ?sec = data_view s ?sec" by (rule vol(2)) (use m in simp_all)
    then have "view (c', d'') ?sec = data_view s ?sec" using stored_outside [OF st out] by simp
    then show ?thesis by (simp add: raw_byte_def)
  qed
  have "unat (data_length (details ?f')) = ?c + ?L" using dl by (simp add: move_file_cursor_def)
  then show thesis using that [OF res] new old by blast
qed

end

end
