(* ===== verification/Directory_Listing.thy ===== *)
theory Directory_Listing
  imports Directory_Ops Utf
begin

text \<open>
  Listing a directory (\<open>read_dir\<close> of \<open>file_system.rs\<close>, \<open>DirectoryIterator::next_entry\<close> of \<open>directory.rs\<close>): asking for
  the next entry until there is none delivers every entry set once, in order, with its decoded name.
\<close>

text \<open>The loop of a caller, \<open>while let Some(entry) = directory.next_entry(..)\<close>.\<close>

fun drain_entries :: "('d, 'e) platform \<Rightarrow> nat \<Rightarrow> u8 list \<Rightarrow> nat \<Rightarrow> ('d, (file_details \<times> rstr) list, 'e) chain_op" where
  "drain_entries P fuel buf 0 = (\<lambda>st. (OutOfFuel, st))"
| "drain_entries P fuel buf (Suc n) =
     andthen (next_entry P fuel buf) (\<lambda>r. case r of
       None \<Rightarrow> ret []
     | Some e \<Rightarrow> andthen (drain_entries P fuel buf n) (\<lambda>es. ret (e # es)))"

definition named :: "entry_set \<Rightarrow> rstr \<Rightarrow> bool" where
  "named x nm \<longleftrightarrow> (\<forall>c \<in> set nm. scalar_value c) \<and> es_name x = encode_utf16 nm"

text \<open>A name length is a byte.\<close>

lemma dir_sets_name_length: "dir_sets es = Some sets \<Longrightarrow> x \<in> set sets \<Longrightarrow> length (es_name x) \<le> 255"
proof (induction es arbitrary: sets rule: dir_sets.induct)
  case (2 raw loc es)
  show ?case
  proof (cases "is_end_of_directory raw \<or> entry_type_from (raw ! 0) \<noteq> FileAndDirectory")
    case True
    then show ?thesis using 2 by (auto split: if_splits)
  next
    case False
    then obtain e2 es2 where es: "es = e2 # es2" using 2(3) by (cases es) auto
    let ?st = "stream_ext_from (fst e2)"
    define n m y where "n = unat (name_length ?st)" and "m = name_count n" and
      "y = \<lparr>es_details = details_of (file_dir_from raw) ?st loc, es_hash = name_hash ?st, es_name = take n (name_units (take m es2))\<rparr>"
    let ?ok = "has_type StreamExtension e2 \<and> 0 < n \<and> m \<le> length es2 \<and> list_all (has_type Filename) (take m es2) \<and>
      unat (secondary_count (file_dir_from raw)) = Suc m"
    have ok: "?ok" "map_option (Cons y) (dir_sets (drop m es2)) = Some sets"
      using 2(3) False unfolding n_def m_def y_def es by (auto simp: Let_def split: if_splits)
    then obtain post where post: "dir_sets (drop m es2) = Some post" "sets = y # post" by auto
    have n: "n \<le> 255" using unat_less_length [of "name_length ?st"] by (simp add: n_def)
    show ?thesis
    proof (cases "x \<in> set post")
      case True
      show ?thesis
        by (rule 2(2) [OF _ _ es refl n_def m_def ok(1) post(1) True]) (use False in auto)
    next
      case False
      then show ?thesis using post(2) 2(4) n by (simp add: y_def)
    qed
  qed
qed simp

lemma passes_all [simp]: "passes all_pass_filter t x"
  by (simp add: passes_def all_pass_filter_def)

lemma resolve_dir_leaf:
  assumes "resolve_dir dirs t ps c = Some c'" and "ps \<noteq> []"
  shows "\<exists>d. resolve dirs t (Some Directory) ps c = Inr (Some d) \<and> first_cluster d = c' \<and> contains (attributes d) Directory"
  using assms
proof (induction ps arbitrary: c)
  case (Cons p ps)
  then obtain x where x: "name_error p = None" "find (matches t p (Some Directory)) (the (dirs c)) = Some x"
    "resolve_dir dirs t ps (first_cluster (es_details x)) = Some c'" by (auto split: if_splits option.splits)
  then have "contains (attributes (es_details x)) Directory" by (auto simp: find_Some_iff matches_def)
  then show ?case using x Cons.IH by (cases "ps = []") auto
qed simp

context reliable_device
begin

lemma next_entry_ok:
  assumes D: "has_dir ly s0 cs" and w: "walking ly s0 cs es (ch, s)" and fuel: "length es < fuel"
    and ds: "dir_sets es = Some sets" and raw: "raw_items es" and buf: "765 \<le> length buf"
  shows "sets = [] \<Longrightarrow> \<exists>ch' s'. next_entry P fuel buf (ch, s) = (Ok None, ch', s') \<and> looked ly s0 s'"
    and "sets = x # post \<Longrightarrow> named x nm \<Longrightarrow> \<exists>ch' s' rest. next_entry P fuel buf (ch, s) = (Ok (Some (es_details x, nm)), ch', s') \<and>
      walking ly s0 cs rest (ch', s') \<and> dir_sets rest = Some post \<and> raw_items rest \<and> length rest < length es"
proof -
  let ?t = "fs_upcase s0"
  have F: "finds_set all_pass_filter ?t True es sets" by (rule scan_finds_set [OF ds raw])
  have dw: "dropWhile (\<lambda>x. \<not> passes all_pass_filter ?t x) sets = sets" by (cases sets) simp_all
  obtain ch' s' where r: "next_file_entry P fuel all_pass_filter (Some buf) (ch, s) =
      (found_entry (scan_entries all_pass_filter ?t True es) (Some buf), ch', s')" and lk: "looked ly s0 s'"
    and w': "\<And>d units rest. scan_entries all_pass_filter ?t True es = Some (d, units, rest) \<Longrightarrow> walking ly s0 cs rest (ch', s')"
    using next_file_entry_ok [OF D w fuel, of all_pass_filter "Some buf"] by auto
  show "\<exists>ch' s'. next_entry P fuel buf (ch, s) = (Ok None, ch', s') \<and> looked ly s0 s'" if "sets = []"
    using that F r lk unfolding finds_set_def dw by (auto simp: next_entry_def andthen_def found_entry_def ret_def)
  show "\<exists>ch' s' rest. next_entry P fuel buf (ch, s) = (Ok (Some (es_details x, nm)), ch', s') \<and>
      walking ly s0 cs rest (ch', s') \<and> dir_sets rest = Some post \<and> raw_items rest \<and> length rest < length es"
    if x: "sets = x # post" and nm: "named x nm"
  proof -
    obtain rest where sc: "scan_entries all_pass_filter ?t True es = Some (es_details x, es_name x, rest)"
      and rest: "dir_sets rest = Some post" "raw_items rest" "length rest < length es"
      using F x unfolding finds_set_def dw by auto
    have e: "es_name x = encode_utf16 nm" "\<forall>c \<in> set nm. scalar_value c" using nm by (simp_all add: named_def)
    have "length (encode_utf16 nm) \<le> 255" using dir_sets_name_length [OF ds, of x] x e(1) by simp
    then have "length (encode_utf8 nm) \<le> length buf" using utf8_length_bound [of nm] buf by linarith
    then have dec: "(decode_utf16_to_utf8 (es_name x) buf :: (nat, 'e exfat_error) outcome \<times> u8 list) =
        (Ok (length (encode_utf8 nm)), encode_utf8 nm @ drop (length (encode_utf8 nm)) buf)"
      unfolding e(1) by (rule name_roundtrip [OF e(2)])
    have "next_entry P fuel buf (ch, s) = (Ok (Some (es_details x, nm)), ch', s')"
      using r sc dec from_encode_utf8 [OF e(2)] by (simp add: next_entry_def andthen_def found_entry_def ret_def)
    then show ?thesis using w' [OF sc] rest by blast
  qed
qed

lemma drain_entries_ok:
  assumes D: "has_dir ly s0 cs" and "walking ly s0 cs es (ch, s)" and "length es < fuel" and "dir_sets es = Some sets"
    and "raw_items es" and buf: "765 \<le> length buf" and "list_all2 named sets nms" and "length sets < n"
  shows "\<exists>ch' s'. drain_entries P fuel buf n (ch, s) = (Ok (zip (map es_details sets) nms), ch', s') \<and> looked ly s0 s'"
  using assms(2-5,7,8)
proof (induction n arbitrary: es sets nms ch s)
  case (Suc n)
  note ok = next_entry_ok [OF D Suc.prems(1-4) buf]
  show ?case
  proof (cases sets)
    case Nil
    then show ?thesis using ok(1) by (auto simp: andthen_def ret_def)
  next
    case (Cons x post)
    then obtain nm nms' where nm: "nms = nm # nms'" "named x nm" "list_all2 named post nms'"
      using Suc.prems(5) by (auto simp: list_all2_Cons1)
    obtain ch1 s1 rest where r: "next_entry P fuel buf (ch, s) = (Ok (Some (es_details x, nm)), ch1, s1)"
      and w: "walking ly s0 cs rest (ch1, s1)" "dir_sets rest = Some post" "raw_items rest" "length rest < length es"
      using ok(2) [OF Cons nm(2)] by blast
    obtain ch2 s2 where "drain_entries P fuel buf n (ch1, s1) = (Ok (zip (map es_details post) nms'), ch2, s2)" "looked ly s0 s2"
      using Suc.IH [OF w(1) _ w(2,3) nm(3)] w(4) Suc.prems(2,6) Cons by auto
    then show ?thesis using r Cons nm(1) by (auto simp: andthen_def ret_def)
  qed
qed simp

lemma list_directory_ok:
  assumes m: "is_mounted s" and T: "tree ly fuel cls s dirs" and root: "dirs (root_of s) \<noteq> None"
    and path: "resolve_dir dirs (fs_upcase s) (path_to_iter path) (root_of s) = Some c" "dirs c = Some sets"
    and names: "list_all2 named sets nms" and buf: "765 \<le> length buf" and n: "length sets < n"
  shows "\<exists>ch s1 ch' s2. read_dir P fuel path s = (Ok ch, s1) \<and> looked ly s s1 \<and>
    drain_entries P fuel buf n (ch, s1) = (Ok (zip (map es_details sets) nms), ch', s2) \<and> looked ly s s2"
proof -
  note mount = mount_mounted [OF m, of P]
  have V: "vol_ok ly s" using T by (simp add: tree_at_def)
  obtain s1 where r: "read_dir P fuel path s = (Ok (chain_new P c (fs_details s1)), s1)" and l1: "looked ly s s1"
  proof (cases "path_to_iter path = []")
    case True
    then have "read_dir P fuel path s = (Ok (chain_new P c (fs_details s)), s)"
      using path(1) mount by (simp add: read_dir_def directory_list_def is_root_directory_def andthen_def gets_def)
    then show thesis using that looked_refl [OF V] by blast
  next
    case False
    obtain d where d: "resolve dirs (fs_upcase s) (Some Directory) (path_to_iter path) (root_of s) = Inr (Some d)"
      "first_cluster d = c" "contains (attributes d) Directory" using resolve_dir_leaf [OF path(1) False] by blast
    obtain s1 where g: "get_leaf_file_entry P fuel path (Some Directory) s = (Ok (Some d), s1)" and lk: "looked ly s s1"
      using get_leaf_ok [OF T root, of path "Some Directory"] d(1) by (auto simp: resolved_def)
    have "read_dir P fuel path s = (Ok (chain_new P c (fs_details s1)), s1)"
      using False mount g d by (simp add: read_dir_def directory_list_def is_root_directory_def andthen_def gets_def ret_def)
    then show thesis using that lk by blast
  qed
  note T1 = treeD [OF tree_looked [OF T l1] path(2)]
  obtain ch' s2 where "drain_entries P fuel buf n (chain_new P c (fs_details s1), s1) = (Ok (zip (map es_details sets) nms), ch', s2)"
    "looked ly s1 s2"
    using drain_entries_ok [where fuel = fuel, OF T1(2) walking_start [OF T1(2)] _ T1(4) raw_dir_items [OF T1(2)] buf names n] T1(1,3) by auto
  then show ?thesis using r l1 looked_trans [OF l1] by blast
qed

end

end
