(* ===== verification/Mounting.thy ===== *)
theory Mounting
  imports Directory_Walk
begin

text \<open>
  What \<open>mount\<close> establishes (\<open>mount\<close>, \<open>read_file_system_metadata\<close> of \<open>file_system.rs\<close>): the geometry of the boot sector, the
  start of the FAT, the place of the bitmap and the up-case table of the root directory, over caches that are still
  empty, so that the volume shows what the device holds.
\<close>

text \<open>
  A device with a valid boot sector \<open>b\<close> whose root directory names, in its first sector, a bitmap, a volume label and an
  up-case table.
\<close>

definition mountable :: "('d, 'e) platform \<Rightarrow> ('d \<Rightarrow> u32 \<Rightarrow> block) \<Rightarrow> ('d \<Rightarrow> nat) \<Rightarrow> 'd \<Rightarrow> boot_sector \<Rightarrow>
    allocation_bitmap_dir_entry \<Rightarrow> upcase_table_dir_entry \<Rightarrow> bool" where
  "mountable P sector capacity d b be ue \<longleftrightarrow>
     (let fsd = details_new b; root = fsd_first_cluster_of_root_dir fsd in
      0 < capacity d \<and> (\<forall>x :: 'd. boot_sector_try_from (sector d 0) x = (Ok b, x)) \<and>
      2 \<le> root \<and> unat (heap_sector fsd root) < capacity d \<and>
      (\<exists>label. \<forall>x :: 'd. scan_root (as_chunks RAW_ENTRY_LEN (sector d (heap_sector fsd root)))
         \<lparr>re_bitmap = None, re_label = None, re_upcase = None\<rparr> x =
           (Ok \<lparr>re_bitmap = Some be, re_label = Some label, re_upcase = Some ue\<rparr> :: (root_entries, 'e exfat_error) outcome, x)) \<and>
      2 \<le> ut_first_cluster ue \<and> unat (heap_sector fsd (ut_first_cluster ue)) < capacity d \<and> 2 \<le> ab_first_cluster be)"

definition loaded_upcase :: "block \<Rightarrow> upcase_table" where
  "loaded_upcase block = (let chars = map from_le_bytes (as_chunks 2 block); n = min (length (mapping upcase_default)) (length chars) in
     upcase_default\<lparr>mapping := take n chars @ drop n (mapping upcase_default)\<rparr>)"

text \<open>The state of a mounted volume whose caches are empty.\<close>

definition mounted_as :: "('d, 'e) platform \<Rightarrow> ('d \<Rightarrow> u32 \<Rightarrow> block) \<Rightarrow> 'd \<Rightarrow> boot_sector \<Rightarrow> allocation_bitmap_dir_entry \<Rightarrow>
    upcase_table_dir_entry \<Rightarrow> 'd file_system \<Rightarrow> bool" where
  "mounted_as P sector d b be ue s \<longleftrightarrow> is_mounted s \<and> fs_details s = details_new b \<and>
     start_of_fat_sector (fs_fat s) = Some (fsd_fat_offset (details_new b)) \<and>
     bitmap (fs_allocator s) = \<lparr>first_sector = heap_sector (details_new b) (ab_first_cluster be),
       num_sectors = ucast (div_ceil (ab_data_length be) (of_nat (SIZE P))),
       bitmap_cluster_count = fsd_cluster_count (details_new b)\<rparr> \<and>
     fs_upcase s = loaded_upcase (sector d (heap_sector (details_new b) (ut_first_cluster ue)))"

context reliable_device
begin

lemma metadata_ok:
  assumes d: "dev_ok d" and sz: "0 < SIZE P" "SIZE P < 2 ^ 64" and M: "mountable P sector capacity d b be ue"
  obtains d' where "read_file_system_metadata P d = (Ok \<lparr>md_details = details_new b,
      md_upcase_table = loaded_upcase (sector d (heap_sector (details_new b) (ut_first_cluster ue))),
      md_bitmap_first_cluster = ab_first_cluster be, md_bitmap_num_sectors = ucast (div_ceil (ab_data_length be) (of_nat (SIZE P)))\<rparr>, d')"
    and "dev_ok d'" and "capacity d' = capacity d" and "sector d' = sector d"
proof -
  let ?fsd = "details_new b" let ?root = "fsd_first_cluster_of_root_dir ?fsd"
  obtain label where m: "unat (0 :: u32) < capacity d" "\<And>x :: 'd. boot_sector_try_from (sector d 0) x = (Ok b, x)" "2 \<le> ?root"
    "unat (heap_sector ?fsd ?root) < capacity d"
    "\<And>x :: 'd. scan_root (as_chunks RAW_ENTRY_LEN (sector d (heap_sector ?fsd ?root)))
         \<lparr>re_bitmap = None, re_label = None, re_upcase = None\<rparr> x =
           (Ok \<lparr>re_bitmap = Some be, re_label = Some label, re_upcase = Some ue\<rparr> :: (root_entries, 'e exfat_error) outcome, x)"
    "2 \<le> ut_first_cluster ue" "unat (heap_sector ?fsd (ut_first_cluster ue)) < capacity d" "2 \<le> ab_first_cluster be"
    using M by (auto simp: mountable_def Let_def)
  obtain d1 where r1: "io_read P 0 d = (Ok (sector d 0), d1)" "dev_ok d1" "capacity d1 = capacity d" "sector d1 = sector d"
    by (rule io_read_returns [OF d m(1)])
  obtain d2 where r2: "io_read P (heap_sector ?fsd ?root) d1 = (Ok (sector d (heap_sector ?fsd ?root)), d2)" "dev_ok d2"
    "capacity d2 = capacity d" "sector d2 = sector d"
    using io_read_returns [OF r1(2), of "heap_sector ?fsd ?root"] m(4) r1(3,4) by auto
  obtain d3 where r3: "io_read P (heap_sector ?fsd (ut_first_cluster ue)) d2 = (Ok (sector d (heap_sector ?fsd (ut_first_cluster ue))), d3)"
    "dev_ok d3" "capacity d3 = capacity d" "sector d3 = sector d"
    using io_read_returns [OF r2(2), of "heap_sector ?fsd (ut_first_cluster ue)"] m(7) r2(3,4) by auto
  have s0: "(of_nat (SIZE P) :: u64) \<noteq> 0" using sz by (simp add: word_unat_eq_iff unat_of_nat)
  have boot: "read_boot_sector P 0 d = (Ok b, d1)" by (simp add: read_boot_sector_def andthen_def r1(1) map_err_def m(2))
  have up: "upcase_load P ue ?fsd upcase_default d2 = (Ok (loaded_upcase (sector d (heap_sector ?fsd (ut_first_cluster ue)))), d3)"
    by (simp add: upcase_load_def andthen_def get_heap_sector [OF m(6)] r3(1) ret_def loaded_upcase_def Let_def)
  have "read_file_system_metadata P d = (Ok \<lparr>md_details = ?fsd,
      md_upcase_table = loaded_upcase (sector d (heap_sector ?fsd (ut_first_cluster ue))),
      md_bitmap_first_cluster = ab_first_cluster be, md_bitmap_num_sectors = ucast (div_ceil (ab_data_length be) (of_nat (SIZE P)))\<rparr>, d3)"
    using s0 by (simp add: read_file_system_metadata_def andthen_def boot get_heap_sector [OF m(3)] r2(1) m(5) up Let_def
        allocation_bitmap_new_def assert_that_def ret_def)
  then show thesis using that r3 by blast
qed

lemma mount_ok:
  assumes d: "dev_ok d" and sz: "0 < SIZE P" "SIZE P < 2 ^ 64" and n: "0 < n" and M: "mountable P sector capacity d b be ue"
  shows "\<exists>s. mount P (file_system_new P n d) = (Ok (), s) \<and> mounted_as P sector d b be ue s \<and> capacity (fs_dev s) = capacity d \<and>
    (\<forall>ly. vol_ok ly s \<and> content_of ly s = sector d)"
proof -
  let ?fsd = "details_new b" let ?up = "loaded_upcase (sector d (heap_sector ?fsd (ut_first_cluster ue)))"
  let ?num = "ucast (div_ceil (ab_data_length be) (of_nat (SIZE P))) :: u32"
  have two: "2 \<le> ab_first_cluster be" using M by (simp add: mountable_def Let_def)
  obtain d' where r: "read_file_system_metadata P d = (Ok \<lparr>md_details = ?fsd, md_upcase_table = ?up,
      md_bitmap_first_cluster = ab_first_cluster be, md_bitmap_num_sectors = ?num\<rparr>, d')"
    and d': "dev_ok d'" "capacity d' = capacity d" "sector d' = sector d" by (rule metadata_ok [OF d sz M])
  define s where "s = (file_system_new P n d)\<lparr>fs_dev := d', fs_details := ?fsd,
    fs_fat := (fat_new (SIZE P) n)\<lparr>start_of_fat_sector := Some (fsd_fat_offset ?fsd)\<rparr>,
    fs_allocator := (allocator_new (SIZE P) n)\<lparr>bitmap := \<lparr>first_sector = heap_sector ?fsd (ab_first_cluster be), num_sectors = ?num,
      bitmap_cluster_count = fsd_cluster_count ?fsd\<rparr>\<rparr>, fs_upcase := ?up, is_mounted := True\<rparr>"
  have "mount P (file_system_new P n d) = (Ok (), s)"
    by (simp add: mount_def andthen_def gets_def zoom_def modify_def file_system_new_def r get_heap_sector [OF two] s_def allocator_new_def)
  moreover have "mounted_as P sector d b be ue s" by (simp add: mounted_as_def s_def fat_new_def allocator_new_def)
  moreover have "ready (slot_cache_new (SIZE P) n, d')" using n d'(1) by (rule cache_ready_new)
  then have "vol_ok ly s" for ly
    by (simp add: volume_ok_def s_def fat_new_def allocator_new_def file_system_new_def held_by_def)
  moreover have "content_of ly s = sector d" for ly
  proof
    show "content_of ly s u = sector d u" for u
      using d'(3) by (cases "ly u") (simp_all add: medium_def s_def fat_new_def allocator_new_def file_system_new_def cview_new)
  qed
  ultimately show ?thesis using d'(2) by (intro exI [of _ s]) (simp add: s_def)
qed

text \<open>A sector 0 that is no boot sector: nothing is mounted.\<close>

lemma mount_refused:
  assumes d: "dev_ok d" and cap: "0 < capacity d" and sz: "512 \<le> SIZE P" and bad: "\<not> boot_sector_ok (sector d 0)"
  shows "\<exists>e d'. mount P (file_system_new P n d) = (Err (NotExFat e), (file_system_new P n d)\<lparr>fs_dev := d'\<rparr>) \<and> sector d' = sector d"
proof -
  have c0: "unat (0 :: u32) < capacity d" using cap by simp
  obtain d1 where r1: "io_read P 0 d = (Ok (sector d 0), d1)" "dev_ok d1" "capacity d1 = capacity d" "sector d1 = sector d"
    by (rule io_read_returns [OF d c0])
  have len: "512 \<le> length (sector d 0)" using sector_length [OF d] sz by simp
  obtain e where e: "boot_sector_try_from (sector d 0) d1 = (Err e, d1)"
    using boot_sector_reject [OF len bad, of d1] by blast
  then have "read_file_system_metadata P d = (Err (NotExFat e), d1)"
    by (simp add: read_file_system_metadata_def read_boot_sector_def andthen_def r1(1) map_err_def)
  then show ?thesis
    using r1(4) by (intro exI [of _ e] exI [of _ d1]) (simp add: mount_def andthen_def gets_def zoom_def file_system_new_def)
qed

end

end
