(* ===== verification/Directory_Make.thy ===== *)
theory Directory_Make
  imports Directory_Remove Allocation_Search
begin

text \<open>
  Making a directory (\<open>create_directory\<close>, \<open>get_or_create_directory\<close> of \<open>file_system.rs\<close>): a free cluster is taken and cleared,
  and an entry set for it is added to the directory it is made in.
\<close>

section \<open>Searching the bitmap of a volume\<close>

text \<open>The search only brings sectors of the bitmap into the cache.\<close>

definition bitmap_cached :: "allocator \<Rightarrow> allocator \<Rightarrow> bool" where
  "bitmap_cached a a' \<longleftrightarrow> bitmap a' = bitmap a \<and>
     (\<forall>u i. holds (alloc_cache a') u i \<longrightarrow> in_bitmap (bitmap a) u \<or> (\<exists>j. holds (alloc_cache a) u j))"

lemma bitmap_cached_refl [simp]: "bitmap_cached a a"
  by (auto simp: bitmap_cached_def)

lemma bitmap_cached_trans: "bitmap_cached a b \<Longrightarrow> bitmap_cached b c \<Longrightarrow> bitmap_cached a c"
  unfolding bitmap_cached_def by metis

lemma scan_finish_state: "snd (scan_finish policy sc st) = st"
  by (auto simp: scan_finish_def ret_def fail_def split: prod.split option.split)

lemma andthen_state: "(\<And>x st. snd (f x st) = st) \<Longrightarrow> snd (andthen m f st) = snd (m st)"
  by (auto simp: andthen_def split: prod.split outcome.split)

context reliable_device
begin

lemma scan_sectors_cached:
  assumes "ready (alloc_cache a, d)" and "bitmap_ok P (capacity d) (bitmap a)" and "\<forall>s \<in> set ss. s < unat (num_sectors (bitmap a))"
    and "scan_sectors P fr en num policy ss sc (a, d) = (r, a', d')"
  shows "bitmap_cached a a'"
  using assms
proof (induction ss arbitrary: sc a d)
  case Nil
  then show ?case by (simp add: ret_def)
next
  case (Cons s ss)
  let ?sec = "first_sector (bitmap a) + of_nat s"
  have s: "s < unat (num_sectors (bitmap a))" using Cons.prems(3) by simp
  obtain st' where rd: "read_sector P ?sec (alloc_cache a, d) = (Ok (view (alloc_cache a, d) ?sec), st')"
    "ready st'" "capacity (snd st') = capacity d"
    using store.rd_ok [of "(alloc_cache a, d)" ?sec] Cons.prems(1) bitmap_sector_addr [OF Cons.prems(2) s] by auto
  obtain c1 d1 where st': "st' = (c1, d1)" by (cases st')
  let ?a1 = "a\<lparr>alloc_cache := c1\<rparr>"
  have "in_bitmap (bitmap a) ?sec" using bitmap_sector_addr(1) [OF Cons.prems(2) s] s by (simp add: in_bitmap_def)
  then have one: "bitmap_cached a ?a1"
    using read_sector_holds [OF Cons.prems(1) rd(1)] unfolding st' by (fastforce simp: bitmap_cached_def)
  let ?r = "scan_each (scan_chunk fr en num policy) (as_chunks 4 (view (alloc_cache a, d) ?sec)) sc"
  have step: "scan_sectors P fr en num policy (s # ss) sc (a, d) =
      (case ?r of ScanNext sc' \<Rightarrow> scan_sectors P fr en num policy ss sc' (?a1, d1) | r \<Rightarrow> (Ok r, ?a1, d1))"
    using rd(1) by (simp add: andthen_def gets_def alloc_zoom_def zoom_def st' ret_def split: scan_result.split)
  show ?case
  proof (cases ?r)
    case (ScanNext sc')
    then have "bitmap_cached ?a1 a'"
      using Cons.IH [of ?a1 d1 sc'] Cons.prems rd(2,3) step by (simp add: st')
    then show ?thesis by (rule bitmap_cached_trans [OF one])
  qed (use Cons.prems(4) step one in auto)
qed

lemma find_from_cached:
  assumes "ready (alloc_cache a, d)" and "bitmap_ok P (capacity d) (bitmap a)"
    and "find_free_clusters_from P fr num policy (a, d) = (r, a', d')"
  shows "bitmap_cached a a'"
proof (cases "fr < FIRST_CLUSTER_ID \<or> CLUSTERS_PER_SECTOR P = 0 \<or> FIRST_CLUSTER_ID + bitmap_cluster_count (bitmap a) \<le> fr \<or>
    num_sectors (bitmap a) \<le> bp_sector (bitmap_pos_of P fr)")
  case True
  then show ?thesis using assms(3)
    by (auto simp: find_free_clusters_from_def fail_def andthen_def assert_that_def gets_def Let_def split: if_splits)
next
  case False
  let ?ss = "[unat (bp_sector (bitmap_pos_of P fr))..<unat (num_sectors (bitmap a))]"
  let ?sc = "\<lparr>sc_cluster = first_cluster_of P (bp_sector (bitmap_pos_of P fr)), sc_first = None, sc_count = 0, sc_longest = None\<rparr>"
  obtain r1 a1 d1 where sc: "scan_sectors P fr (FIRST_CLUSTER_ID + bitmap_cluster_count (bitmap a)) num policy ?ss ?sc (a, d) = (r1, a1, d1)"
    by (cases "scan_sectors P fr (FIRST_CLUSTER_ID + bitmap_cluster_count (bitmap a)) num policy ?ss ?sc (a, d)")
  have "snd (case_scan_result ret (scan_finish policy) (scan_finish policy) x st) = st" for x and st :: "allocator \<times> 'd"
    by (cases x) (simp_all add: ret_def scan_finish_state)
  note fin = andthen_state [OF this]
  have tr: "andthen (assert_that True) f = f ()" for f :: "unit \<Rightarrow> (allocator \<times> 'd, allocated_run, 'e exfat_error) op"
    by (simp add: fun_eq_iff andthen_def assert_that_def)
  have "snd (find_free_clusters_from P fr num policy (a, d)) = (a1, d1)"
    using False sc
    by (simp add: find_free_clusters_from_def tr Let_def fin)
  then have "a' = a1" using assms(3) by simp
  then show ?thesis using scan_sectors_cached [OF assms(1,2) _ sc] by simp
qed

lemma find_free_clusters_cached:
  assumes "ready (alloc_cache a, d)" and "bitmap_ok P (capacity d) (bitmap a)" and "4 dvd SIZE P"
    and lo: "2 \<le> unat (next_search_cluster a)" and f: "find_free_clusters P None num policy (a, d) = (r, a', d')"
  shows "bitmap_cached a a'"
proof -
  let ?fr = "next_search_cluster a"
  obtain res c1 d1 where g: "find_free_clusters_from P ?fr num policy (a, d) = (res, a\<lparr>alloc_cache := c1\<rparr>, d1)"
    "ready (c1, d1)" "capacity d1 = capacity d"
    using find_free_clusters_from_total [OF assms(1-3) lo, of num policy] by (elim exE conjE)
  let ?a1 = "a\<lparr>alloc_cache := c1\<rparr>"
  have one: "bitmap_cached a ?a1" by (rule find_from_cached [OF assms(1,2) g(1)])
  obtain r2 a2 d2 where h: "find_free_clusters_from P FIRST_CLUSTER_ID num policy (?a1, d1) = (r2, a2, d2)"
    by (cases "find_free_clusters_from P FIRST_CLUSTER_ID num policy (?a1, d1)")
  have "bitmap_cached ?a1 a2" by (rule find_from_cached [OF _ _ h]) (use g assms(2) in simp_all)
  then have two: "bitmap_cached a a2" by (rule bitmap_cached_trans [OF one])
  have "bitmap_cached b (b\<lparr>next_search_cluster := k\<rparr>)" for b k by (auto simp: bitmap_cached_def)
  then have nx: "bitmap_cached a (b\<lparr>next_search_cluster := k\<rparr>)" if "bitmap_cached a b" for b k by (rule bitmap_cached_trans [OF that])
  let ?again = "res = Err DiskFull \<and> FIRST_CLUSTER_ID < ?fr"
  have "find_free_clusters P None num policy (a, d) = andthen (\<lambda>st. if ?again then (r2, a2, d2) else (res, ?a1, d1)) (\<lambda>run.
     andthen (modify (\<lambda>(a, d). (a\<lparr>next_search_cluster := run_first_cluster run + run_cluster_count run\<rparr>, d))) (\<lambda>_. ret run)) (a, d)"
    using g(1) h by (simp add: find_free_clusters_def andthen_def gets_def)
  then show ?thesis using f one two nx
    by (cases ?again; cases res; cases r2) (auto simp: andthen_def modify_def ret_def)
qed

text \<open>One free cluster is found, if there is one, and nothing is changed.\<close>

lemma volume_find_one:
  assumes V: "vol_ok ly s" and bm: "bitmap_ok P (capacity (fs_dev s)) (bitmap (fs_allocator s))" and ly: "bitmap_region ly (bitmap (fs_allocator s))"
    and sz: "4 dvd SIZE P" and lo: "2 \<le> unat (next_search_cluster (fs_allocator s))"
    and free: "2 \<le> c0" "c0 < bitmap_end (bitmap (fs_allocator s))" "\<not> volume_allocated P sector ly s c0"
  obtains run s' where "on_alloc (find_free_clusters P None 1 LongestRun) s = (Ok run, s')" and "looked ly s s'"
    and "run_cluster_count run = 1" and "2 \<le> run_lo run" and "run_lo run < bitmap_end (bitmap (fs_allocator s))"
    and "\<not> volume_allocated P sector ly s (run_lo run)"
proof -
  let ?a = "fs_allocator s"
  have V': "ready (alloc_cache ?a, fs_dev s)" "held_by ly BitmapRegion (alloc_cache ?a)" using V by (simp_all add: volume_ok_def)
  have al: "allocated ?a (fs_dev s) c = volume_allocated P sector ly s c" if "2 \<le> c" "c < bitmap_end (bitmap ?a)" for c
    using bitmap_region_of [OF bm ly that] by (simp add: volume_allocated_def cluster_allocated_def medium_def)
  obtain res c' nx d' where f: "find_free_clusters P None 1 LongestRun (?a, fs_dev s) = (res, ?a\<lparr>alloc_cache := c', next_search_cluster := nx\<rparr>, d')"
    "ready (c', d')" "view (c', d') = view (alloc_cache ?a, fs_dev s)" "capacity d' = capacity (fs_dev s)"
    and r: "(\<exists>r. res = Ok r \<and> nx = run_first_cluster r + run_cluster_count r \<and>
        (search_ok (search_of ?a (fs_dev s) (unat (next_search_cluster ?a)) 1 LongestRun) r \<or>
         search_ok (search_of ?a (fs_dev s) 2 1 LongestRun) r \<and>
         (\<forall>c. unat (next_search_cluster ?a) \<le> c \<longrightarrow> c < bitmap_end (bitmap ?a) \<longrightarrow> allocated ?a (fs_dev s) c))) \<or>
     res = Err DiskFull \<and> nx = next_search_cluster ?a \<and> (\<forall>c. 2 \<le> c \<longrightarrow> c < bitmap_end (bitmap ?a) \<longrightarrow> allocated ?a (fs_dev s) c)"
    using find_free_clusters_total [OF V'(1) bm sz lo, of None 1 LongestRun] by auto
  have "bitmap_cached ?a (?a\<lparr>alloc_cache := c', next_search_cluster := nx\<rparr>)" by (rule find_free_clusters_cached [OF V'(1) bm sz lo f(1)])
  then have held: "held_by ly BitmapRegion c'" using V'(2) ly by (fastforce simp: held_by_def bitmap_region_def bitmap_cached_def)
  define s' where "s' = s\<lparr>fs_allocator := ?a\<lparr>alloc_cache := c', next_search_cluster := nx\<rparr>, fs_dev := d'\<rparr>"
  obtain run fr where run: "res = Ok run" "search_ok (search_of ?a (fs_dev s) fr 1 LongestRun) run" "2 \<le> fr"
    and nx: "nx = run_first_cluster run + run_cluster_count run" using r free al lo by auto
  have g: "good_run (search_of ?a (fs_dev s) fr 1 LongestRun) run" using run(2) by (simp add: search_ok_def)
  then have len: "run_len run = 1" and lo: "2 \<le> run_lo run" and hi: "run_lo run < bitmap_end (bitmap ?a)"
    and fr: "\<not> allocated ?a (fs_dev s) (run_lo run)" using run(3) by (auto simp: good_run_def free_run_def)
  have one: "run_cluster_count run = 1" using len by (simp add: word_unat_eq_iff)
  have "run_lo run + 1 < 2 ^ 32" using hi bm by (simp add: bitmap_ok_def bitmap_end_def)
  then have two: "2 \<le> unat nx" using lo one by (simp add: nx unat_word_ariths mod_less)
  note S = alloc_step [OF V f(2) held f(4) _ refl]
  have "vol_ok ly s' = vol_ok ly (s\<lparr>fs_allocator := ?a\<lparr>alloc_cache := c'\<rparr>, fs_dev := d'\<rparr>)"
    "content_of ly s' = content_of ly (s\<lparr>fs_allocator := ?a\<lparr>alloc_cache := c'\<rparr>, fs_dev := d'\<rparr>)"
    by (simp_all add: s'_def volume_ok_def medium_def fun_eq_iff split: region.split)
  moreover have "ly u = BitmapRegion \<Longrightarrow> content_of ly s u = view (alloc_cache ?a, fs_dev s) u" for u
    by (simp add: medium_def)
  ultimately have "vol_ok ly s' \<and> content_of ly s' = content_of ly s \<and> same_setup capacity s s'"
    using S f(3,4) two by (auto simp: s'_def same_setup_def fun_eq_iff)
  then have lk: "looked ly s s'" by (simp add: only_looked_def s'_def)
  have "on_alloc (find_free_clusters P None 1 LongestRun) s = (Ok run, s')" using f(1) run(1) by (simp add: on_alloc_def zoom_def s'_def)
  then show thesis by (rule that [OF _ lk one lo hi]) (use fr al [OF lo hi] in simp)
qed

section \<open>Clearing a cluster\<close>

lemma zero_sectors_ok:
  assumes "vol_ok ly s" and "\<forall>u \<in> set us. ly u = DataRegion \<and> unat u < capacity (fs_dev s)"
  shows "\<exists>s' t'. for_each us (\<lambda>sec. andthen (on_fs (on_data (update_sector P sec (\<lambda>b. Some (replicate (length b) 0))))) (\<lambda>_. touch TkDir sec)) (s, t) =
      (Ok (), s', t') \<and> vol_ok ly s' \<and> same_setup capacity s s' \<and>
    content_of ly s' = (\<lambda>u. if u \<in> set us then replicate (SIZE P) 0 else content_of ly s u)"
  using assms
proof (induction us arbitrary: s t)
  case (Cons u us)
  have u: "ly u = DataRegion" "unat u < capacity (fs_dev s)" using Cons.prems(2) by simp_all
  have "ready (data_blocks s, fs_dev s)" using Cons.prems(1) by (simp add: volume_ok_def)
  then have len: "length (content_of ly s u) = SIZE P" using u(1) store.content_length by (simp add: medium_def)
  obtain s1 where r: "on_data (update_sector P u (\<lambda>b. Some (replicate (length b) 0))) s = (Ok (), s1)" and s1: "vol_ok ly s1"
    "content_of ly s1 = (content_of ly s)(u := replicate (SIZE P) 0)" "same_setup capacity s s1"
    by (rule volume_update [OF Cons.prems(1) u, of "\<lambda>b. Some (replicate (length b) 0)" "replicate (SIZE P) 0"]) (use len in simp_all)
  let ?t = "touched_insert (touched_sector_new TkDir u) t"
  obtain s2 t2 where r2: "for_each us (\<lambda>sec. andthen (on_fs (on_data (update_sector P sec (\<lambda>b. Some (replicate (length b) 0))))) (\<lambda>_. touch TkDir sec))
      (s1, ?t) = (Ok (), s2, t2)" and s2: "vol_ok ly s2" "same_setup capacity s1 s2"
      "content_of ly s2 = (\<lambda>u. if u \<in> set us then replicate (SIZE P) 0 else content_of ly s1 u)"
    using Cons.IH [OF s1(1), of ?t] Cons.prems(2) same_setupD(5) [OF s1(3)] by auto
  have "content_of ly s2 = (\<lambda>v. if v \<in> set (u # us) then replicate (SIZE P) 0 else content_of ly s v)"
    using s2(3) s1(2) by (auto simp: fun_eq_iff)
  moreover have "same_setup capacity s s2" by (rule same_setup_trans [OF s1(3) s2(2)])
  moreover have "for_each (u # us) (\<lambda>sec. andthen (on_fs (on_data (update_sector P sec (\<lambda>b. Some (replicate (length b) 0))))) (\<lambda>_. touch TkDir sec))
      (s, t) = (Ok (), s2, t2)"
  proof -
    have "andthen (on_fs (on_data (update_sector P u (\<lambda>b. Some (replicate (length b) 0))))) (\<lambda>_. touch TkDir u) (s, t) = (Ok (), s1, ?t)"
      using r by (simp add: andthen_def on_fs_def zoom_def touch_def modify_def)
    then show ?thesis unfolding for_each.simps by (subst andthen_def) (use r2 in simp)
  qed
  ultimately show ?case using s2(1) by blast
qed (simp add: ret_def)

end

text \<open>The sectors of one cluster that does not reach the end of the sector numbers.\<close>

lemma cluster_sectors:
  assumes "unat (heap_sector fsd c) + spc_of fsd < 2 ^ 32"
  shows "q < spc_of fsd \<Longrightarrow> unat (dir_sector fsd [c] q) = unat (heap_sector fsd c) + q" and "one_run fsd [c]"
    and "set (map of_nat [unat (heap_sector fsd c)..<unat (heap_sector fsd c + fsd_sectors_per_cluster fsd)]) = dir_sectors fsd [c]"
proof -
  let ?h = "heap_sector fsd c" let ?n = "spc_of fsd"
  have addr: "unat (dir_sector fsd [c] q) = unat ?h + q" if "q < ?n" for q
  proof -
    have "unat (of_nat q :: u32) = q" using that assms by (simp add: unat_of_nat)
    then show ?thesis using that assms by (simp add: dir_sector_def unat_add_no_overflow)
  qed
  then show "q < ?n \<Longrightarrow> unat (dir_sector fsd [c] q) = unat ?h + q" .
  show "one_run fsd [c]" unfolding one_run_def by (rule exI [of _ "unat ?h"]) (use addr in simp)
  have top: "unat (?h + fsd_sectors_per_cluster fsd) = unat ?h + ?n" using assms by (simp add: unat_word_ariths)
  have inv: "of_nat (unat u) = u" for u :: u32 by simp
  have "dir_sector fsd [c] q = of_nat (unat ?h + q)" if "q < ?n" for q using addr [OF that] inv by metis
  then have "dir_sectors fsd [c] = (\<lambda>q. of_nat (unat ?h + q)) ` {0..<?n}" by (auto simp: dir_sectors_def)
  also have "\<dots> = of_nat ` (plus (unat ?h) ` {0..<?n})" by (simp only: image_image)
  also have "plus (unat ?h) ` {0..<?n} = {unat ?h..<unat ?h + ?n}" by (simp add: image_add_atLeastLessThan add.commute)
  finally show "set (map of_nat [unat ?h..<unat (?h + fsd_sectors_per_cluster fsd)]) = dir_sectors fsd [c]" by (simp add: top)
qed

section \<open>One directory more\<close>

lemma dir_sets_empty: "list_all (\<lambda>e. is_end_of_directory (fst e)) es \<Longrightarrow> dir_sets es = Some []"
  by (cases es) auto

text \<open>
  A cluster that can become a directory: it is in no directory, lies on the device, and its FAT entry does not lead on.
\<close>

definition fresh_cluster :: "('d, 'e) platform \<Rightarrow> ('d \<Rightarrow> u32 \<Rightarrow> block) \<Rightarrow> ('d \<Rightarrow> nat) \<Rightarrow> layout \<Rightarrow> nat \<Rightarrow> (u32 \<Rightarrow> u32 list) \<Rightarrow>
    'd file_system \<Rightarrow> (u32 \<Rightarrow> entry_set list option) \<Rightarrow> u32 \<Rightarrow> bool" where
  "fresh_cluster P sector capacity ly fuel cls s dirs c \<longleftrightarrow> dirs c = None \<and>
     (\<exists>off. start_of_fat_sector (fs_fat s) = Some off \<and>
        directory_at P ly (capacity (fs_dev s)) off (medium sector ly s) (fs_details s) [c]) \<and>
     unat (heap_sector (fs_details s) c) + spc_of (fs_details s) < 2 ^ 32 \<and> dir_size P (fs_details s) [c] < fuel \<and>
     (\<forall>a \<in> dom dirs. dir_sectors (fs_details s) [c] \<inter> dir_sectors (fs_details s) (cls a) = {})"

context reliable_device
begin

lemma zero_cluster_ok:
  assumes V: "vol_ok ly s" and F: "fresh_cluster P sector capacity ly fuel cls s dirs c"
  obtains s' t' where "zero_cluster P c (s, t) = (Ok (), s', t')" and "written ly [c] s (items_of ly s' [c]) s'"
    and "dir_sets (items_of ly s' [c]) = Some []"
proof -
  let ?fsd = "fs_details s"
  obtain off where off: "start_of_fat_sector (fs_fat s) = Some off"
    "directory_at P ly (capacity (fs_dev s)) off (content_of ly s) ?fsd [c]"
    and top: "unat (heap_sector ?fsd c) + spc_of ?fsd < 2 ^ 32" using F by (auto simp: fresh_cluster_def)
  note D = directory_atD [OF off(2)] and S = cluster_sectors [OF top]
  let ?us = "map of_nat [unat (heap_sector ?fsd c)..<unat (heap_sector ?fsd c + fsd_sectors_per_cluster ?fsd)] :: u32 list"
  have "\<forall>u \<in> set ?us. ly u = DataRegion \<and> unat u < capacity (fs_dev s)"
    unfolding S(3) using off(2) by (auto simp: dir_sectors_def directory_at_def)
  from zero_sectors_ok [OF V this, of t] obtain s' t' where
    z: "for_each ?us (\<lambda>sec. andthen (on_fs (on_data (update_sector P sec (\<lambda>b. Some (replicate (length b) 0))))) (\<lambda>_. touch TkDir sec)) (s, t) = (Ok (), s', t')"
    and s': "vol_ok ly s'" "same_setup capacity s s'"
      "content_of ly s' = (\<lambda>u. if u \<in> dir_sectors ?fsd [c] then replicate (SIZE P) 0 else content_of ly s u)"
    unfolding S(3) by auto
  note st = same_setupD [OF s'(2)]
  have two: "2 \<le> c" using D(5) [of 0] by simp
  have r: "zero_cluster P c (s, t) = (Ok (), s', t')"
    unfolding zero_cluster_def andthen_gets prod.case andthen_Ok [where m = "get_heap_sector_id ?fsd c", OF get_heap_sector [OF two]] by (rule z)
  have "content_of ly s' u = content_of ly s u" if "ly u = FatRegion" for u
    using that D(9) by (auto simp: s'(3) dir_sectors_def)
  then have "directory_at P ly (capacity (fs_dev s)) off (content_of ly s') ?fsd [c]" by (rule directory_at_cong [OF off(2)])
  then have W: "written ly [c] s (items_of ly s' [c]) s'" using s' off(1) by (auto simp: dir_written_def has_directory_def st)
  have pos: "0 < dir_size P ?fsd [c]" "0 < dir_entries_per_block P" using D(3,4) by (simp_all add: dir_size_def)
  have "is_end_of_directory (dir_entry P ?fsd [c] (content_of ly s') k)" if k: "k < dir_size P ?fsd [c]" for k
  proof -
    have q: "k div dir_entries_per_block P < length [c] * spc_of ?fsd" by (rule sector_less [OF k])
    have m: "k mod dir_entries_per_block P < SIZE P div RAW_ENTRY_LEN" using pos(2) by (simp add: dir_entries_per_block_def)
    have "dir_sector ?fsd [c] (k div dir_entries_per_block P) \<in> dir_sectors ?fsd [c]" using q by (auto simp: dir_sectors_def)
    then show ?thesis using m by (simp add: dir_entry_def s'(3) as_chunks_nth is_end_of_directory_def list_all_length)
  qed
  then have "list_all (\<lambda>e. is_end_of_directory (fst e)) (items_of ly s' [c])" by (simp add: dir_items_def st(1) list_all_length)
  then have "dir_sets (items_of ly s' [c]) = Some []" by (rule dir_sets_empty)
  then show thesis using that r W by blast
qed

lemma tree_new:
  assumes T: "tree ly fuel cls s dirs" and A: "apart (fs_details s) cls dirs" and F: "fresh_cluster P sector capacity ly fuel cls s dirs c"
    and W: "written ly [c] s es s'" and es: "dir_sets es = Some []"
  shows "tree ly fuel (cls(c := [c])) s' (dirs(c \<mapsto> []))" and "apart (fs_details s') (cls(c := [c])) (dirs(c \<mapsto> []))"
proof -
  note W' = writtenD [OF W] and st = same_setupD [OF writtenD(4) [OF W]]
  have new: "dirs c = None" "has_dir ly s [c]" "dir_size P (fs_details s) [c] < fuel" "one_run (fs_details s) [c]"
    and dis: "\<And>a. dirs a \<noteq> None \<Longrightarrow> dir_sectors (fs_details s) [c] \<inter> dir_sectors (fs_details s) (cls a) = {}"
    using F T cluster_sectors(2) by (auto simp: fresh_cluster_def has_directory_def tree_at_def)
  show "apart (fs_details s') (cls(c := [c])) (dirs(c \<mapsto> []))"
    using A new(1,4) dis unfolding apart_def st by (auto simp: dom_def)
  have "hd ((cls(c := [c])) a) = a \<and> has_dir ly s' ((cls(c := [c])) a) \<and> dir_size P (fs_details s') ((cls(c := [c])) a) < fuel \<and>
      dir_sets (items_of ly s' ((cls(c := [c])) a)) = Some r \<and> list_all (hashed (fs_upcase s')) r \<and>
      list_all (\<lambda>x. contains (attributes (es_details x)) Directory \<longrightarrow> (dirs(c \<mapsto> [])) (first_cluster (es_details x)) \<noteq> None) r"
    if a: "(dirs(c \<mapsto> [])) a = Some r" for a r
  proof (cases "a = c")
    case True
    then show ?thesis using a new(3) W'(1,3) es by (simp add: st)
  next
    case False
    then have a': "dirs a = Some r" using a by simp
    have "dir_sectors (fs_details s) [c] \<inter> dir_sectors (fs_details s) (cls a) = {}" using dis a' by simp
    note E = written_elsewhere [OF W new(2) treeD(2) [OF T a'] this] and D = treeD [OF T a']
    show ?thesis using False E D by (auto simp: st list_all_iff)
  qed
  then show "tree ly fuel (cls(c := [c])) s' (dirs(c \<mapsto> []))" using W'(1) by (simp add: tree_at_def has_directory_def)
qed

lemma fresh_after:
  assumes F: "fresh_cluster P sector capacity ly fuel cls s dirs c" and st: "same_setup capacity s s'"
    and same: "\<And>u. ly u \<noteq> BitmapRegion \<Longrightarrow> content_of ly s' u = content_of ly s u"
  shows "fresh_cluster P sector capacity ly fuel cls s' dirs c"
proof -
  obtain off where off: "start_of_fat_sector (fs_fat s) = Some off"
    "directory_at P ly (capacity (fs_dev s)) off (content_of ly s) (fs_details s) [c]" using F by (auto simp: fresh_cluster_def)
  have "directory_at P ly (capacity (fs_dev s)) off (content_of ly s') (fs_details s) [c]"
    by (rule directory_at_cong [OF off(2)]) (use same in simp)
  then show ?thesis using F off(1) unfolding fresh_cluster_def same_setupD [OF st] by blast
qed

lemma volume_mark_run:
  assumes "vol_ok ly s" and "bitmap_ok P (capacity (fs_dev s)) (bitmap (fs_allocator s))" and "bitmap_region ly (bitmap (fs_allocator s))"
    and "2 \<le> run_lo r" and "run_lo r + run_len r \<le> bitmap_end (bitmap (fs_allocator s))"
  obtains s' t' where "on_alloc_t (mark_allocated P r x) (s, t) = (Ok (), s', t')" and "marked ly (run_lo r) (run_lo r + run_len r) x s s'"
proof -
  obtain s' t' where "on_alloc_fat_t (zoom (\<lambda>(a, f, t, d). (a, t, d)) (\<lambda>(a', t', d') (a, f, t, d). (a', f, t', d')) (mark_allocated P r x)) (s, t) =
      (Ok (), s', t')" and m: "marked ly (run_lo r) (run_lo r + run_len r) x s s'" by (rule volume_mark [OF assms])
  then have "on_alloc_t (mark_allocated P r x) (s, t) = (Ok (), s', t')"
    by (auto simp: on_alloc_fat_t_def on_alloc_t_def zoom_def split: prod.splits)
  then show thesis using m by (rule that)
qed

end

text \<open>
  There is a free cluster, and every free cluster can become a directory.
\<close>

definition room_for_directory :: "('d, 'e) platform \<Rightarrow> ('d \<Rightarrow> u32 \<Rightarrow> block) \<Rightarrow> ('d \<Rightarrow> nat) \<Rightarrow> layout \<Rightarrow> nat \<Rightarrow> (u32 \<Rightarrow> u32 list) \<Rightarrow>
    'd file_system \<Rightarrow> (u32 \<Rightarrow> entry_set list option) \<Rightarrow> bool" where
  "room_for_directory P sector capacity ly fuel cls s dirs \<longleftrightarrow>
     (let bm = bitmap (fs_allocator s) in
      bitmap_ok P (capacity (fs_dev s)) bm \<and> bitmap_region ly bm \<and> 4 dvd SIZE P \<and> 2 \<le> unat (next_search_cluster (fs_allocator s)) \<and>
      (\<exists>c \<ge> 2. c < bitmap_end bm \<and> \<not> volume_allocated P sector ly s c) \<and>
      (\<forall>c. 2 \<le> unat c \<longrightarrow> unat c < bitmap_end bm \<longrightarrow> \<not> volume_allocated P sector ly s (unat c) \<longrightarrow>
        fresh_cluster P sector capacity ly fuel cls s dirs c))"

text \<open>
  What has changed once the free cluster \<open>c\<close> is taken: its bit in the bitmap and the sectors \<open>S\<close>.
\<close>

definition cluster_taken :: "('d, 'e) platform \<Rightarrow> ('d \<Rightarrow> u32 \<Rightarrow> block) \<Rightarrow> ('d \<Rightarrow> nat) \<Rightarrow> layout \<Rightarrow> u32 set \<Rightarrow> u32 \<Rightarrow>
    'd file_system \<Rightarrow> 'd file_system \<Rightarrow> bool" where
  "cluster_taken P sector capacity ly S c s s' \<longleftrightarrow> same_setup capacity s s' \<and>
     (\<forall>u. ly u \<noteq> BitmapRegion \<longrightarrow> u \<notin> S \<longrightarrow> medium sector ly s' u = medium sector ly s u) \<and>
     2 \<le> unat c \<and> unat c < bitmap_end (bitmap (fs_allocator s)) \<and> \<not> volume_allocated P sector ly s (unat c) \<and>
     (\<forall>k \<ge> 2. k < bitmap_end (bitmap (fs_allocator s)) \<longrightarrow> volume_allocated P sector ly s' k = (k = unat c \<or> volume_allocated P sector ly s k))"

context reliable_device
begin

lemma take_cluster_ok:
  assumes T: "tree ly fuel cls s dirs" and A: "apart (fs_details s) cls dirs" and R: "room_for_directory P sector capacity ly fuel cls s dirs"
  obtains run s1 s2 t2 s3 t3 where "on_alloc (find_free_clusters P None 1 LongestRun) s = (Ok run, s1)"
    and "on_alloc_t (mark_allocated P run True) (s1, t) = (Ok (), s2, t2)"
    and "zero_cluster P (run_first_cluster run) (s2, t2) = (Ok (), s3, t3)" and "dirs (run_first_cluster run) = None"
    and "tree ly fuel (cls(run_first_cluster run := [run_first_cluster run])) s3 (dirs(run_first_cluster run \<mapsto> []))"
    and "apart (fs_details s3) (cls(run_first_cluster run := [run_first_cluster run])) (dirs(run_first_cluster run \<mapsto> []))"
    and "cluster_taken P sector capacity ly (dir_sectors (fs_details s) [run_first_cluster run]) (run_first_cluster run) s s3"
proof -
  let ?bm = "bitmap (fs_allocator s)"
  obtain c0 where bm: "bitmap_ok P (capacity (fs_dev s)) ?bm" "bitmap_region ly ?bm" "4 dvd SIZE P"
    "2 \<le> unat (next_search_cluster (fs_allocator s))" and c0: "2 \<le> c0" "c0 < bitmap_end ?bm" "\<not> volume_allocated P sector ly s c0"
    and fresh: "\<And>c. 2 \<le> unat c \<Longrightarrow> unat c < bitmap_end ?bm \<Longrightarrow> \<not> volume_allocated P sector ly s (unat c) \<Longrightarrow>
      fresh_cluster P sector capacity ly fuel cls s dirs c" using R by (auto simp: room_for_directory_def Let_def)
  have V: "vol_ok ly s" using T by (simp add: tree_at_def)
  obtain run s1 where f: "on_alloc (find_free_clusters P None 1 LongestRun) s = (Ok run, s1)" and l1: "looked ly s s1"
    and run: "run_cluster_count run = 1" "2 \<le> run_lo run" "run_lo run < bitmap_end ?bm" "\<not> volume_allocated P sector ly s (run_lo run)"
    by (rule volume_find_one [OF V bm c0])
  let ?c = "run_first_cluster run"
  note L = lookedD [OF l1]
  have st1: "same_setup capacity s s1" and al1: "bitmap (fs_allocator s1) = ?bm" using l1 by (simp_all add: only_looked_def same_setup_def)
  obtain s2 t2 where m: "on_alloc_t (mark_allocated P run True) (s1, t) = (Ok (), s2, t2)"
    and M: "marked ly (run_lo run) (run_lo run + run_len run) True s1 s2"
    by (rule volume_mark_run [OF L(1), of run True t]) (use bm run L(6) al1 in simp_all)
  have st2: "same_setup capacity s s2" and V2: "vol_ok ly s2"
    and same2: "\<And>u. ly u \<noteq> BitmapRegion \<Longrightarrow> content_of ly s2 u = content_of ly s u"
    using M st1 L(2) same_setup_trans by (auto simp: run_marked_def)
  have F2: "fresh_cluster P sector capacity ly fuel cls s2 dirs ?c" by (rule fresh_after [OF fresh [OF run(2-4)] st2 same2])
  have T2: "tree ly fuel cls s2 dirs" by (rule tree_marked [OF tree_looked [OF T l1] M])
  have A2: "apart (fs_details s2) cls dirs" using A same_setupD(1) [OF st2] by simp
  obtain s3 t3 where z: "zero_cluster P ?c (s2, t2) = (Ok (), s3, t3)" and W: "written ly [?c] s2 (items_of ly s3 [?c]) s3"
    and e: "dir_sets (items_of ly s3 [?c]) = Some []" by (rule zero_cluster_ok [OF V2 F2])
  have out: "content_of ly s3 u = content_of ly s2 u" if "u \<notin> dir_sectors (fs_details s) [?c]" for u
    using W that same_setupD(1) [OF st2] by (simp add: dir_written_def)
  have bit: "content_of ly s3 u = content_of ly s2 u" if "ly u = BitmapRegion" for u
  proof (rule out)
    have "has_dir ly s2 [?c]" using F2 V2 by (auto simp: fresh_cluster_def has_directory_def)
    from dir_sectors_data [OF this] show "u \<notin> dir_sectors (fs_details s) [?c]" using that same_setupD(1) [OF st2] by auto
  qed
  have al: "bitmap (fs_allocator s3) = bitmap (fs_allocator s2)" "bitmap (fs_allocator s2) = ?bm"
    using writtenD(4) [OF W] st2 by (simp_all add: same_setup_def)
  have "volume_allocated P sector ly s3 k = (k = unat ?c \<or> volume_allocated P sector ly s k)" if k: "2 \<le> k" "k < bitmap_end ?bm" for k
  proof -
    have "volume_allocated P sector ly s3 k = volume_allocated P sector ly s2 k"
      by (rule volume_allocated_cong [of P "capacity (fs_dev s)"]) (use bm al k bit in simp_all)
    moreover have "volume_allocated P sector ly s1 k = volume_allocated P sector ly s k" using al1 L(2) by (simp add: volume_allocated_def)
    ultimately show ?thesis using M k al1 run(1) by (auto simp: run_marked_def)
  qed
  then have "cluster_taken P sector capacity ly (dir_sectors (fs_details s) [?c]) ?c s s3"
    using run out same2 same_setup_trans [OF st2 writtenD(4) [OF W]] by (simp add: cluster_taken_def)
  moreover have "dirs ?c = None" using F2 by (simp add: fresh_cluster_def)
  ultimately show thesis using that f m z tree_new [OF T2 A2 F2 W e] by blast
qed

lemma room_looked:
  assumes "room_for_directory P sector capacity ly fuel cls s dirs" and l: "looked ly s s'"
  shows "room_for_directory P sector capacity ly fuel cls s' dirs"
proof -
  note L = lookedD [OF l]
  have st: "same_setup capacity s s'" using l by (simp add: only_looked_def)
  have bm: "bitmap (fs_allocator s') = bitmap (fs_allocator s)" using st by (simp add: same_setup_def)
  have "volume_allocated P sector ly s' c = volume_allocated P sector ly s c" for c using bm L(2) by (simp add: volume_allocated_def)
  moreover have "fresh_cluster P sector capacity ly fuel cls s dirs c \<Longrightarrow> fresh_cluster P sector capacity ly fuel cls s' dirs c" for c
    by (rule fresh_after [OF _ st]) (use L(2) in simp_all)
  moreover have "2 \<le> unat (next_search_cluster (fs_allocator s')) \<and> capacity (fs_dev s') = capacity (fs_dev s)"
    using assms(1) st by (simp add: room_for_directory_def same_setup_def Let_def)
  ultimately show ?thesis using assms(1) by (simp add: room_for_directory_def Let_def bm)
qed

lemma apart_sectors:
  assumes "apart fsd cls dirs" and "dirs a \<noteq> None" and "dirs b \<noteq> None" and "a \<noteq> b"
  shows "dir_sectors fsd (cls a) \<inter> dir_sectors fsd (cls b) = {}"
  using assms by (auto simp: apart_def dom_def)

lemma volume_allocated_looked: "looked ly s s' \<Longrightarrow> volume_allocated P sector ly s' k = volume_allocated P sector ly s k"
  by (simp add: volume_allocated_def only_looked_def same_setup_def)

lemma cluster_taken_looked:
  assumes "cluster_taken P sector capacity ly S c a b"
  shows "looked ly z a \<Longrightarrow> cluster_taken P sector capacity ly S c z b" and "looked ly b e \<Longrightarrow> cluster_taken P sector capacity ly S c a e"
proof -
  show "cluster_taken P sector capacity ly S c z b" if "looked ly z a"
    using assms volume_allocated_looked [OF that] that same_setup_trans [of capacity z a b]
    by (simp add: cluster_taken_def only_looked_def same_setup_def)
  show "cluster_taken P sector capacity ly S c a e" if "looked ly b e"
    using assms volume_allocated_looked [OF that] that same_setup_trans [of capacity a b e]
    by (simp add: cluster_taken_def only_looked_def same_setup_def)
qed

lemma cluster_taken_dir:
  assumes C: "cluster_taken P sector capacity ly S c a b" and O: "only_dir sector capacity ly cs b e" and D: "has_dir ly b cs"
    and bm: "bitmap_ok P cap (bitmap (fs_allocator a))" "bitmap_region ly (bitmap (fs_allocator a))"
  shows "cluster_taken P sector capacity ly (S \<union> dir_sectors (fs_details a) cs) c a e"
proof -
  have st: "same_setup capacity a b" "same_setup capacity b e" using C O by (simp_all add: cluster_taken_def only_dir_def)
  have al: "bitmap (fs_allocator b) = bitmap (fs_allocator a)" "bitmap (fs_allocator e) = bitmap (fs_allocator b)"
    "fs_details b = fs_details a" using st by (simp_all add: same_setup_def)
  have out: "content_of ly e u = content_of ly b u" if "u \<notin> dir_sectors (fs_details a) cs" for u
    using O that al(3) by (simp add: only_dir_def)
  have "content_of ly e u = content_of ly b u" if "ly u = BitmapRegion" for u
    by (rule out) (use dir_sectors_data [OF D, of u] that al(3) in auto)
  then have "volume_allocated P sector ly e k = volume_allocated P sector ly b k" if "2 \<le> k" "k < bitmap_end (bitmap (fs_allocator a))" for k
    using volume_allocated_cong [of P cap b ly k e] bm al that by simp
  then show ?thesis using C out same_setup_trans [OF st] by (simp add: cluster_taken_def)
qed

text \<open>Making the last directory of a path.\<close>

lemma make_directory_ok:
  assumes T: "tree ly fuel cls s dirs" and A: "apart (fs_details s) cls dirs" and R: "room_for_directory P sector capacity ly fuel cls s dirs"
    and c: "dirs c = Some sets" and nm: "name_error nm = None" "length (encode_utf16 nm) \<le> 255"
    and none: "find (matches (fs_upcase s) nm (Some Directory)) sets = None"
    and g: "gap_at (items_of ly s (cls c)) k (2 + name_count (length (encode_utf16 nm)))"
  obtains fc d s1 s2 s' t' where "get_or_create_loop P fuel [nm] c (s, t) = (Ok fc, s', t')" and "sets = s1 @ s2" and "dirs fc = None"
    and "tree ly fuel (cls(fc := [fc])) s' (dirs(fc \<mapsto> [], c \<mapsto> s1 @ new_set (fs_upcase s) nm d # s2))"
    and "apart (fs_details s') (cls(fc := [fc])) (dirs(fc \<mapsto> [], c \<mapsto> s1 @ new_set (fs_upcase s) nm d # s2))"
    and "cluster_taken P sector capacity ly (dir_sectors (fs_details s) [fc] \<union> dir_sectors (fs_details s) (cls c)) fc s s'"
    and "first_cluster d = fc" and "attributes d = Directory" and "flags d = default_flags"
    and "data_length d = ucast (fsd_cluster_length (fs_details s))" and "valid_data_length d = data_length d"
proof -
  obtain flt where f: "\<And>z :: 'd file_system \<times> file_dirty. exact_name_filter_new nm (fs_upcase s) (Some Directory) z = (Ok flt, z)"
    using filter_name_error(2) [OF nm(1)] by metis
  obtain q1 where r1: "first_file_entry P fuel c flt s = (Ok None, q1)" and l1: "looked ly s q1"
    using lookup_ok [OF T c f] none by auto
  note L = lookedD [OF l1]
  have T1: "tree ly fuel cls q1 dirs" and A1: "apart (fs_details q1) cls dirs" using tree_looked [OF T l1] A L(3) by simp_all
  have R1: "room_for_directory P sector capacity ly fuel cls q1 dirs" by (rule room_looked [OF R l1])
  obtain run q2 q3 t3 q4 t4 where r2: "on_alloc (find_free_clusters P None 1 LongestRun) q1 = (Ok run, q2)"
    "on_alloc_t (mark_allocated P run True) (q2, t) = (Ok (), q3, t3)" "zero_cluster P (run_first_cluster run) (q3, t3) = (Ok (), q4, t4)"
    and new: "dirs (run_first_cluster run) = None"
    and T4: "tree ly fuel (cls(run_first_cluster run := [run_first_cluster run])) q4 (dirs(run_first_cluster run \<mapsto> []))"
    and A4: "apart (fs_details q4) (cls(run_first_cluster run := [run_first_cluster run])) (dirs(run_first_cluster run \<mapsto> []))"
    and C: "cluster_taken P sector capacity ly (dir_sectors (fs_details q1) [run_first_cluster run]) (run_first_cluster run) q1 q4"
    by (rule take_cluster_ok [OF T1 A1 R1, of t])
  let ?fc = "run_first_cluster run" let ?cls = "cls(?fc := [?fc])" let ?dirs = "dirs(?fc \<mapsto> [])"
  have ne: "c \<noteq> ?fc" using new c by auto
  then have c4: "?dirs c = Some sets" "?cls c = cls c" using c by simp_all
  have st: "same_setup capacity q1 q4" using C by (simp add: cluster_taken_def)
  note st' = same_setupD [OF st]
  have dis: "dir_sectors (fs_details q1) [?fc] \<inter> dir_sectors (fs_details q1) (cls c) = {}"
    using apart_sectors [OF A4, of ?fc c] ne c st'(1) by simp
  have items: "items_of ly q4 (cls c) = items_of ly s (cls c)"
  proof -
    have "has_dir ly q1 (cls c)" by (rule treeD(2) [OF T1 c])
    note data = dir_sectors_data [OF this]
    have "content_of ly q4 (dir_sector (fs_details q1) (cls c) q) = content_of ly q1 (dir_sector (fs_details q1) (cls c) q)"
      if "q < length (cls c) * spc_of (fs_details q1)" for q
    proof -
      have u: "dir_sector (fs_details q1) (cls c) q \<in> dir_sectors (fs_details q1) (cls c)" using that by (auto simp: dir_sectors_def)
      then have "dir_sector (fs_details q1) (cls c) q \<notin> dir_sectors (fs_details q1) [?fc]" using dis by blast
      then show ?thesis using C data [OF u] by (simp add: cluster_taken_def)
    qed
    then have "dir_items P (fs_details q1) (cls c) (content_of ly q4) = items_of ly q1 (cls c)" by (rule dir_items_cong)
    then show ?thesis using items_of_looked [OF l1] st'(1) by simp
  qed
  have tr: "file_attributes_truncate Directory = Directory" "secondary_flags_truncate default_flags = default_flags" by code_simp+
  let ?cl = "ucast (fsd_cluster_length (fs_details q4))"
  obtain d s1 s2 q5 t5 where r3: "create_file_dir_entry_at P fuel nm c ?fc Directory default_flags ?cl ?cl (q4, t4) = (Ok d, q5, t5)"
    and sp: "sets = s1 @ s2" and T5: "tree ly fuel ?cls q5 (?dirs(c \<mapsto> s1 @ new_set (fs_upcase q4) nm d # s2))"
    and A5: "apart (fs_details q5) ?cls (?dirs(c \<mapsto> s1 @ new_set (fs_upcase q4) nm d # s2))"
    and O: "only_dir sector capacity ly (?cls c) q4 q5"
    and d: "first_cluster d = ?fc" "data_length d = ?cl" "valid_data_length d = ?cl" "attributes d = Directory" "flags d = default_flags"
    by (rule tree_create [OF T4 A4 c4(1) nm tr, where fc = ?fc and k = k and vl = ?cl and dl = ?cl and t = t4])
      (use g items c4 in simp, use g items c4 in simp, (rule that; assumption))
  have up: "fs_upcase q4 = fs_upcase s" "fs_details q4 = fs_details s" using st' L(3,4) by simp_all
  have "get_or_create_loop P fuel [nm] c (s, t) = (Ok ?fc, q5, t5)"
    using f r1 r2 r3 by (simp add: andthen_def gets_def map_err_def on_fs_def zoom_def ret_def)
  moreover have "cluster_taken P sector capacity ly (dir_sectors (fs_details s) [?fc] \<union> dir_sectors (fs_details s) (cls c)) ?fc s q5"
  proof (rule cluster_taken_dir)
    show "cluster_taken P sector capacity ly (dir_sectors (fs_details s) [?fc]) ?fc s q4"
      using cluster_taken_looked(1) [OF C l1] L(3) by simp
    show "only_dir sector capacity ly (cls c) q4 q5" "has_dir ly q4 (cls c)" using O treeD(2) [OF T4 c4(1)] c4(2) by simp_all
    show "bitmap_ok P (capacity (fs_dev s)) (bitmap (fs_allocator s))" "bitmap_region ly (bitmap (fs_allocator s))"
      using R by (simp_all add: room_for_directory_def Let_def)
  qed
  ultimately show thesis using that sp new T5 A5 d up by simp
qed

text \<open>The directories of the path that exist are walked through.\<close>

lemma get_or_create_snoc:
  assumes "tree ly fuel cls s dirs" and "dirs c \<noteq> None" and "resolve_dir dirs (fs_upcase s) parts c = Some c'"
  obtains s1 where "looked ly s s1" and "dirs c' \<noteq> None"
    and "get_or_create_loop P fuel (parts @ [nm]) c (s, t) = get_or_create_loop P fuel [nm] c' (s1, t)"
  using assms
proof (induction parts arbitrary: c s thesis)
  case Nil
  have "looked ly s s" by (rule looked_refl) (use Nil.prems(2) in \<open>simp add: tree_at_def\<close>)
  then show ?case by (rule Nil.prems(1)) (use Nil.prems in \<open>auto simp del: get_or_create_loop.simps\<close>)
next
  case (Cons part rest)
  obtain sets where sets: "dirs c = Some sets" using Cons.prems(3) by auto
  have pt: "name_error part = None" using Cons.prems(4) by (auto split: if_splits)
  obtain flt where f: "\<And>z :: 'd file_system \<times> file_dirty. exact_name_filter_new part (fs_upcase s) (Some Directory) z = (Ok flt, z)"
    using filter_name_error(2) [OF pt] by metis
  obtain s1 where r: "first_file_entry P fuel c flt s = (Ok (map_option es_details (find (matches (fs_upcase s) part (Some Directory)) sets)), s1)"
    and lk: "looked ly s s1" by (rule lookup_ok [OF Cons.prems(2) sets f])
  obtain x where x: "find (matches (fs_upcase s) part (Some Directory)) sets = Some x"
    "resolve_dir dirs (fs_upcase s) rest (first_cluster (es_details x)) = Some c'"
    using Cons.prems(4) pt sets by (auto split: option.splits)
  have "x \<in> set sets" "contains (attributes (es_details x)) Directory" using x(1) by (auto simp: find_Some_iff matches_def)
  then have "dirs (first_cluster (es_details x)) \<noteq> None" using treeD(6) [OF Cons.prems(2) sets] by blast
  from Cons.IH [OF _ tree_looked [OF Cons.prems(2) lk] this] obtain s2 where s2: "looked ly s1 s2" "dirs c' \<noteq> None"
    "get_or_create_loop P fuel (rest @ [nm]) (first_cluster (es_details x)) (s1, t) = get_or_create_loop P fuel [nm] c' (s2, t)"
    using x(2) lookedD(4) [OF lk] by auto
  have "get_or_create_loop P fuel ((part # rest) @ [nm]) c (s, t) =
      get_or_create_loop P fuel (rest @ [nm]) (first_cluster (es_details x)) (s1, t)"
    unfolding append_Cons using r f x by (subst get_or_create_loop.simps(2)) (simp add: andthen_def gets_def map_err_def on_fs_def zoom_def)
  then show ?case using Cons.prems(1) looked_trans [OF lk s2(1)] s2(2,3) by metis
qed

lemma create_directory_ok:
  assumes m: "is_mounted s" and T: "tree ly fuel cls s dirs" and A: "apart (fs_details s) cls dirs" and root: "dirs (root_of s) \<noteq> None"
    and R: "room_for_directory P sector capacity ly fuel cls s dirs"
    and path: "path_to_iter path = ps @ [nm]" "resolve_dir dirs (fs_upcase s) ps (root_of s) = Some c" "dirs c = Some sets"
    and nm: "name_error nm = None" "length (encode_utf16 nm) \<le> 255"
    and none: "find (matches (fs_upcase s) nm (Some Directory)) sets = None"
    and g: "gap_at (items_of ly s (cls c)) k (2 + name_count (length (encode_utf16 nm)))"
  obtains fc d s1 s2 s' where "create_directory P fuel path s = (Ok (), s')" and "sets = s1 @ s2" and "dirs fc = None"
    and "tree ly fuel (cls(fc := [fc])) s' (dirs(fc \<mapsto> [], c \<mapsto> s1 @ new_set (fs_upcase s) nm d # s2))"
    and "apart (fs_details s') (cls(fc := [fc])) (dirs(fc \<mapsto> [], c \<mapsto> s1 @ new_set (fs_upcase s) nm d # s2))"
    and "cluster_taken P sector capacity ly (dir_sectors (fs_details s) [fc] \<union> dir_sectors (fs_details s) (cls c)) fc s s'"
    and "first_cluster d = fc" and "attributes d = Directory" and "flags d = default_flags"
    and "data_length d = ucast (fsd_cluster_length (fs_details s))" and "valid_data_length d = data_length d"
proof -
  obtain q1 where l1: "looked ly s q1" and r1: "get_or_create_loop P fuel (ps @ [nm]) (root_of s) (s, file_dirty_new) =
      get_or_create_loop P fuel [nm] c (q1, file_dirty_new)"
    by (rule get_or_create_snoc [OF T root path(2)])
  note L = lookedD [OF l1]
  have T1: "tree ly fuel cls q1 dirs" and A1: "apart (fs_details q1) cls dirs" using tree_looked [OF T l1] A L(3) by simp_all
  obtain fc d s1 s2 q2 t2 where r2: "get_or_create_loop P fuel [nm] c (q1, file_dirty_new) = (Ok fc, q2, t2)" and sp: "sets = s1 @ s2"
    and new: "dirs fc = None" and T2: "tree ly fuel (cls(fc := [fc])) q2 (dirs(fc \<mapsto> [], c \<mapsto> s1 @ new_set (fs_upcase q1) nm d # s2))"
    and A2: "apart (fs_details q2) (cls(fc := [fc])) (dirs(fc \<mapsto> [], c \<mapsto> s1 @ new_set (fs_upcase q1) nm d # s2))"
    and C: "cluster_taken P sector capacity ly (dir_sectors (fs_details q1) [fc] \<union> dir_sectors (fs_details q1) (cls c)) fc q1 q2"
    and d: "first_cluster d = fc" "attributes d = Directory" "flags d = default_flags"
      "data_length d = ucast (fsd_cluster_length (fs_details q1))" "valid_data_length d = data_length d"
    by (rule make_directory_ok [OF T1 A1 room_looked [OF R l1] path(3) nm, of k file_dirty_new])
      (use none g L(4) items_of_looked [OF l1] in simp, use none g L(4) items_of_looked [OF l1] in simp, (rule that; assumption))
  have "vol_ok ly q2" using T2 by (simp add: tree_at_def)
  then obtain q3 t3 where r3: "touched_flush P (q2, t2) = (Ok (), q3, t3)" and l3: "looked ly q2 q3" by (rule touched_flush_ok)
  have "create_directory P fuel path s = (Ok (), q3)"
    by (simp add: create_directory_def mount_mounted [OF m] path(1) with_touched_def get_or_create_directory_def andthen_def gets_def
        r1 r2 r3 del: get_or_create_loop.simps)
  then show thesis
    using that sp new tree_looked [OF T2 l3] A2 lookedD(3) [OF l3] L(3,4) d
      cluster_taken_looked(2) [OF cluster_taken_looked(1) [OF C l1] l3] by simp
qed

text \<open>A directory that is there already is left alone.\<close>

lemma create_directory_there:
  assumes m: "is_mounted s" and T: "tree ly fuel cls s dirs" and root: "dirs (root_of s) \<noteq> None"
    and path: "resolve_dir dirs (fs_upcase s) (path_to_iter path) (root_of s) = Some c"
  obtains s' where "create_directory P fuel path s = (Ok (), s')" and "looked ly s s'"
proof -
  obtain q1 where r1: "get_or_create_loop P fuel (path_to_iter path) (root_of s) (s, file_dirty_new) = (Ok c, q1, file_dirty_new)"
    and l1: "looked ly s q1" using get_or_create_loop_ok [OF T root path] by blast
  obtain q2 t2 where r2: "touched_flush P (q1, file_dirty_new) = (Ok (), q2, t2)" and l2: "looked ly q1 q2"
    by (rule touched_flush_ok [OF lookedD(1) [OF l1]])
  have "create_directory P fuel path s = (Ok (), q2)"
    by (simp add: create_directory_def mount_mounted [OF m] with_touched_def get_or_create_directory_def andthen_def gets_def
        r1 r2 del: get_or_create_loop.simps)
  then show thesis by (rule that [OF _ looked_trans [OF l1 l2]])
qed

text \<open>The way to the new directory is the way to the directory it is made in.\<close>

lemma resolve_dir_new:
  assumes T: "tree ly fuel cls s dirs" and c: "dirs c = Some (s1 @ s2)" and new: "dirs fc = None"
    and none: "find (matches t nm (Some Directory)) (s1 @ s2) = None"
    and "dirs a \<noteq> None" and "resolve_dir dirs t ps a = Some c'"
  shows "resolve_dir (dirs(fc \<mapsto> [], c \<mapsto> s1 @ new_set t nm d # s2)) t ps a = Some c'"
  using assms(5,6)
proof (induction ps arbitrary: a)
  case (Cons p ps)
  let ?x = "new_set t nm d" let ?dirs = "dirs(fc \<mapsto> [], c \<mapsto> s1 @ ?x # s2)"
  obtain sets where a: "dirs a = Some sets" using Cons.prems(1) by auto
  obtain y where y: "name_error p = None" "find (matches t p (Some Directory)) sets = Some y"
    "resolve_dir dirs t ps (first_cluster (es_details y)) = Some c'" using Cons.prems(2) a by (auto split: if_splits option.splits)
  have "find (matches t p (Some Directory)) (the (?dirs a)) = Some y"
  proof (cases "a = c")
    case True
    have "matches t p (Some Directory) = matches t nm (Some Directory)" if "matches t p (Some Directory) ?x"
      using that by (simp add: fun_eq_iff matches_def)
    then have "\<not> matches t p (Some Directory) ?x" using none y(2) a c True by auto
    then show ?thesis using find_insert [of "matches t p (Some Directory)" ?x s1 s2] y(2) a c True by simp
  qed (use a y(2) new in auto)
  moreover have "y \<in> set sets" "contains (attributes (es_details y)) Directory" using y(2) by (auto simp: find_Some_iff matches_def)
  ultimately show ?case using Cons.IH [OF _ y(3)] treeD(6) [OF T a] y(1) by (simp del: fun_upd_apply)
qed simp

end

end
