(* ===== verification/Directory_Example.thy ===== *)
theory Directory_Example
  imports Directory_Remove
begin

text \<open>
  A small volume for the witnesses: sectors of 64 bytes, two entries each; the FAT in sector 1, the bitmap in sector 2,
  clusters of four sectors from sector 3 on. The root directory, cluster 2, has one directory \<open>d\<close>, cluster 3, and that one
  has the file \<open>a\<close>, which fills one cluster, cluster 4; cluster 5 is free. Letters fold to upper case.
\<close>

definition ex_dir_platform :: "(dummy_device, unit) platform" where
  "ex_dir_platform = dummy_platform 64 64"

definition ex_upcase :: upcase_table where
  "ex_upcase = \<lparr>mapping = map (\<lambda>i. if 97 \<le> i \<and> i \<le> 122 then of_nat (i - 32) else of_nat i) [0..<128]\<rparr>"

definition ex_set :: "rstr \<Rightarrow> file_attributes \<Rightarrow> u32 \<Rightarrow> u64 \<Rightarrow> raw_dir_entry list" where
  "ex_set nm attrs first len =
     file_dir_serialize \<lparr>secondary_count = 2, set_checksum = 0, fd_file_attributes = attrs, create_timestamp = 0,
       last_modified_timestamp = 0, last_accessed_timestamp = 0, create_10ms_increment = 0, last_modified_10ms_increment = 0,
       create_utc_offset = 0, last_modified_utc_offset = 0, last_accessed_utc_offset = 0\<rparr> #
     stream_ext_serialize \<lparr>se_flags = 3, name_length = of_nat (length nm), name_hash = units_hash ex_upcase (encode_utf16 nm),
       se_valid_data_length = len, se_first_cluster = first, se_data_length = len\<rparr> # name_raws (encode_utf16 nm)"

definition ex_cluster :: "raw_dir_entry list \<Rightarrow> block list" where
  "ex_cluster rs = map (\<lambda>i. take 64 (drop (64 * i) (concat rs @ replicate 256 0))) [0..<4]"

definition ex_blocks :: "block list" where
  "ex_blocks = [replicate 64 0, concat (map (to_le_bytes 4) [0xFFFFFFF8, 0xFFFFFFFF, 0xFFFFFFFF, 0xFFFFFFFF :: u32]) @ replicate 48 0,
     7 # replicate 63 0] @ ex_cluster (ex_set (rstr_of ''d'') Directory 3 256) @ ex_cluster (ex_set (rstr_of ''a'') Archive 4 256) @ replicate 4 (replicate 64 9) @ replicate 4 (replicate 64 5)"

definition ex_volume :: "dummy_device file_system" where
  "ex_volume = \<lparr>fs_dev = \<lparr>blocks = ex_blocks, write_count = 0\<rparr>, is_mounted = True,
     fs_details = \<lparr>fsd_cluster_heap_offset = 3, fsd_fat_offset = 1, fsd_sectors_per_cluster = 4, fsd_cluster_length = 256,
       fsd_cluster_count = 4, fsd_first_cluster_of_root_dir = 2\<rparr>,
     fs_upcase = ex_upcase,
     fs_allocator = \<lparr>bitmap = \<lparr>first_sector = 2, num_sectors = 1, bitmap_cluster_count = 4\<rparr>, alloc_cache = slot_cache_new 64 2,
       next_search_cluster = 2\<rparr>,
     fs_fat = \<lparr>start_of_fat_sector = Some 1, fat_cache = slot_cache_new 64 2\<rparr>,
     data_blocks = slot_cache_new 64 2, time_provider = None, clock = 0\<rparr>"

definition ex_layout :: layout where
  "ex_layout u = (if u = 0 \<or> u = 1 then FatRegion else if u = 2 then BitmapRegion else DataRegion)"

definition ex_clusters :: "u32 \<Rightarrow> u32 list" where
  "ex_clusters c = [c]"

definition ex_items :: "u32 \<Rightarrow> items" where
  "ex_items c = dir_items ex_dir_platform (fs_details ex_volume) [c] (dummy_sector 64 (fs_dev ex_volume))"

definition ex_dirs :: "u32 \<Rightarrow> entry_set list option" where
  "ex_dirs c = (if c = 2 \<or> c = 3 then dir_sets (ex_items c) else None)"

lemma ex_dir_reliable: "reliable_device ex_dir_platform (dummy_sector 64) dummy_capacity (dummy_ok 64)"
  unfolding ex_dir_platform_def by (rule dummy.reliable_device_axioms)

lemma ex_dir_platform_simps [simp]:
  "SIZE ex_dir_platform = 64" "dir_entries_per_block ex_dir_platform = 2" "num_entries ex_dir_platform = 16"
  by (simp_all add: ex_dir_platform_def dir_entries_per_block_def RAW_ENTRY_LEN_def num_entries_def ENTRY_SIZE_def)

lemma ex_volume_simps [simp]:
  "is_mounted ex_volume" "fs_upcase ex_volume = ex_upcase"
  "start_of_fat_sector (fs_fat ex_volume) = Some 1" "fat_cache (fs_fat ex_volume) = slot_cache_new 64 2"
  "alloc_cache (fs_allocator ex_volume) = slot_cache_new 64 2" "data_blocks ex_volume = slot_cache_new 64 2"
  "bitmap (fs_allocator ex_volume) = \<lparr>first_sector = 2, num_sectors = 1, bitmap_cluster_count = 4\<rparr>"
  "fsd_first_cluster_of_root_dir (fs_details ex_volume) = 2" "fsd_sectors_per_cluster (fs_details ex_volume) = 4"
  "fsd_cluster_heap_offset (fs_details ex_volume) = 3" "fsd_cluster_length (fs_details ex_volume) = 256"
  by (simp_all add: ex_volume_def)

lemma ex_dev: "fs_dev ex_volume = \<lparr>blocks = ex_blocks, write_count = 0\<rparr>"
  by (simp add: ex_volume_def)

lemma ex_blocks_length: "length ex_blocks = 19" "list_all (\<lambda>b. length b = 64) ex_blocks"
  by code_simp+

lemma ex_capacity [simp]: "dummy_capacity (fs_dev ex_volume) = 19"
  by (simp add: dummy_capacity_def ex_dev ex_blocks_length)

lemma ex_dir_volume_ok: "volume_ok ex_dir_platform (dummy_sector 64) dummy_capacity (dummy_ok 64) ex_layout ex_volume"
proof -
  have "dummy_ok 64 (fs_dev ex_volume)" by (simp add: dummy_ok_def ex_dev ex_blocks_length)
  then have "cache_ready 64 (dummy_sector 64) dummy_capacity (dummy_ok 64) (slot_cache_new 64 2, fs_dev ex_volume)"
    by (intro cache_ready_new) simp_all
  then show ?thesis by (simp add: volume_ok_def held_by_def)
qed

lemma ex_medium: "medium (dummy_sector 64) ex_layout ex_volume = dummy_sector 64 (fs_dev ex_volume)"
proof
  show "medium (dummy_sector 64) ex_layout ex_volume u = dummy_sector 64 (fs_dev ex_volume) u" for u
    by (cases "ex_layout u") (simp_all add: medium_def cview_new)
qed

lemma ex_fat_entries:
  "decode_entry (fat_entry_at ex_dir_platform 1 (dummy_sector 64 (fs_dev ex_volume)) 2) = None"
  "decode_entry (fat_entry_at ex_dir_platform 1 (dummy_sector 64 (fs_dev ex_volume)) 3) = None"
  "decode_entry (fat_entry_at ex_dir_platform 1 (dummy_sector 64 (fs_dev ex_volume)) 5) = None"
  by code_simp+

lemma ex_dir_sector: "q < 4 \<Longrightarrow> c = 2 \<or> c = 3 \<or> c = 5 \<Longrightarrow> unat (dir_sector (fs_details ex_volume) [c] q) = 3 + 4 * (unat c - 2) + q"
proof -
  assume q: "q < 4" and c: "c = 2 \<or> c = 3 \<or> c = 5"
  have "q \<in> {0, 1, 2, 3}" using q by auto
  then show ?thesis using c by (auto simp: dir_sector_def heap_sector_def)
qed

lemma ex_has_directory:
  assumes "c = 2 \<or> c = 3 \<or> c = 5"
  shows "has_directory ex_dir_platform (dummy_sector 64) dummy_capacity (dummy_ok 64) ex_layout ex_volume [c]"
proof -
  have sec: "ex_layout (dir_sector (fs_details ex_volume) [c] q) = DataRegion" "unat (dir_sector (fs_details ex_volume) [c] q) < 19"
    if "q < 4" for q
    using ex_dir_sector [OF that assms] that assms by (auto simp: ex_layout_def word_unat_eq_iff)
  have "fat_sector_of ex_dir_platform 1 c = 1" using assms by (auto simp: fat_sector_of_def)
  then have "directory_at ex_dir_platform ex_layout (dummy_capacity (fs_dev ex_volume)) 1 (medium (dummy_sector 64) ex_layout ex_volume)
      (fs_details ex_volume) [c]"
    using assms ex_fat_entries sec unfolding directory_at_def ex_medium
    by (auto simp: fat_sizes_ok_def ENTRY_SIZE_def RAW_ENTRY_LEN_def ex_layout_def)
  then show ?thesis using ex_dir_volume_ok by (simp add: has_directory_def)
qed

text \<open>What the entry sets say, by their names.\<close>

definition ex_says :: "entry_set \<Rightarrow> u16 list \<times> file_attributes \<times> u32 \<times> u64 \<times> general_secondary_flags \<times> bool" where
  "ex_says x = (es_name x, attributes (es_details x), first_cluster (es_details x), data_length (es_details x), flags (es_details x),
     hashed ex_upcase x)"

lemma ex_dirs_say:
  "map_option (map ex_says) (ex_dirs 2) = Some [([100], Directory, 3, 256, 3, True)]"
  "map_option (map ex_says) (ex_dirs 3) = Some [([97], Archive, 4, 256, 3, True)]"
  by code_simp+

lemma ex_dirsE:
  obtains d a where "ex_dirs 2 = Some [d]" and "ex_says d = ([100], Directory, 3, 256, 3, True)"
    and "ex_dirs 3 = Some [a]" and "ex_says a = ([97], Archive, 4, 256, 3, True)"
  using ex_dirs_say by auto

lemma ex_gap:
  "list_all free_item (take 3 (drop 3 (ex_items 2)))" "list_all free_item (take 3 (drop 3 (ex_items 3)))"
  by code_simp+

lemma ex_tree: "tree_at ex_dir_platform (dummy_sector 64) dummy_capacity (dummy_ok 64) ex_layout 9 ex_clusters ex_volume ex_dirs"
proof -
  have c: "c = 2 \<or> c = 3" "dir_sets (ex_items c) = Some sets" if "ex_dirs c = Some sets" for c sets
    using that by (auto simp: ex_dirs_def split: if_splits)
  have "list_all (hashed ex_upcase) sets \<and>
      list_all (\<lambda>x. contains (attributes (es_details x)) Directory \<longrightarrow> ex_dirs (first_cluster (es_details x)) \<noteq> None) sets"
    if s: "ex_dirs c = Some sets" for c sets
  proof -
    have "\<not> contains Archive Directory" by code_simp
    moreover obtain d a where "ex_dirs 2 = Some [d]" "ex_says d = ([100], Directory, 3, 256, 3, True)"
      "ex_dirs 3 = Some [a]" "ex_says a = ([97], Archive, 4, 256, 3, True)" by (rule ex_dirsE)
    ultimately show ?thesis using c(1) [OF s] s by (auto simp: ex_says_def)
  qed
  moreover have "has_directory ex_dir_platform (dummy_sector 64) dummy_capacity (dummy_ok 64) ex_layout ex_volume [c]"
    if "ex_dirs c = Some sets" for c sets using ex_has_directory c(1) [OF that] by blast
  ultimately show ?thesis
    using ex_dir_volume_ok c unfolding tree_at_def ex_medium
    by (auto simp: ex_clusters_def dir_size_def ex_items_def)
qed

lemma ex_apart: "apart (fs_details ex_volume) ex_clusters ex_dirs"
proof -
  have dom: "c = 2 \<or> c = 3" if "c \<in> dom ex_dirs" for c using that by (auto simp: ex_dirs_def split: if_splits)
  have "one_run (fs_details ex_volume) [c]" if "c = 2 \<or> c = 3 \<or> c = 5" for c
    unfolding one_run_def by (rule exI [of _ "3 + 4 * (unat c - 2)"]) (use ex_dir_sector [OF _ that] in simp)
  moreover have "dir_sectors (fs_details ex_volume) [2] \<inter> dir_sectors (fs_details ex_volume) [3] = {}"
  proof -
    have "dir_sector (fs_details ex_volume) [2] p \<noteq> dir_sector (fs_details ex_volume) [3] q" if "p < 4" "q < 4" for p q
      using ex_dir_sector [OF that(1), of 2] ex_dir_sector [OF that(2), of 3] that by auto
    then show ?thesis by (auto simp: dir_sectors_def)
  qed
  ultimately show ?thesis unfolding apart_def ex_clusters_def using dom by (metis Int_commute)
qed

end
