(* ===== verification/Properties_Directory.thy ===== *)
theory Properties_Directory
  imports Directory_Example
begin

text \<open>
  Properties of the directory operations the user calls: looking up a path, creating, renaming and removing a file, on a
  volume whose directories are known as a map from first clusters to lists of entry sets.
\<close>

section \<open>The directories of a volume\<close>

definition volume_tree :: "('d, 'e) platform \<Rightarrow> ('d \<Rightarrow> u32 \<Rightarrow> block) \<Rightarrow> ('d \<Rightarrow> nat) \<Rightarrow> ('d \<Rightarrow> bool) \<Rightarrow> layout \<Rightarrow> nat \<Rightarrow>
    (u32 \<Rightarrow> u32 list) \<Rightarrow> 'd file_system \<Rightarrow> (u32 \<Rightarrow> entry_set list option) \<Rightarrow> bool" where
  "volume_tree P sector capacity dev_ok ly fuel cls s dirs \<longleftrightarrow> is_mounted s \<and> tree_at P sector capacity dev_ok ly fuel cls s dirs \<and>
     apart (fs_details s) cls dirs \<and> dirs (fsd_first_cluster_of_root_dir (fs_details s)) \<noteq> None"

text \<open>The path names an entry \<open>nm\<close> to be made in the existing directory \<open>c\<close>, which has room for it.\<close>

definition room_at :: "('d, 'e) platform \<Rightarrow> ('d \<Rightarrow> u32 \<Rightarrow> block) \<Rightarrow> layout \<Rightarrow> (u32 \<Rightarrow> u32 list) \<Rightarrow> 'd file_system \<Rightarrow>
    (u32 \<Rightarrow> entry_set list option) \<Rightarrow> rstr \<Rightarrow> u32 \<Rightarrow> rstr \<Rightarrow> bool" where
  "room_at P sector ly cls s dirs path c nm \<longleftrightarrow>
     (\<exists>dir. split_path path = (dir, nm) \<and>
        resolve_dir dirs (fs_upcase s) (path_to_iter dir) (fsd_first_cluster_of_root_dir (fs_details s)) = Some c) \<and>
     name_error nm = None \<and> length (encode_utf16 nm) \<le> 255 \<and>
     (\<exists>k. gap_at (dir_items P (fs_details s) (cls c) (medium sector ly s)) k (2 + name_count (length (encode_utf16 nm))))"

abbreviation found_at :: "'d file_system \<Rightarrow> (u32 \<Rightarrow> entry_set list option) \<Rightarrow> file_attributes option \<Rightarrow> rstr \<Rightarrow> string + file_details option" where
  "found_at s dirs attrs path \<equiv> resolve dirs (fs_upcase s) attrs (path_to_iter path) (fsd_first_cluster_of_root_dir (fs_details s))"

lemma volume_treeD:
  assumes "volume_tree P sector capacity dev_ok ly fuel cls s dirs"
  shows "is_mounted s" and "tree_at P sector capacity dev_ok ly fuel cls s dirs" and "apart (fs_details s) cls dirs"
    and "dirs (fsd_first_cluster_of_root_dir (fs_details s)) \<noteq> None"
  using assms by (simp_all add: volume_tree_def)

lemma gap_at_take: "gap_at es k len \<longleftrightarrow> k + len \<le> length es \<and> list_all free_item (take len (drop k es))"
proof -
  have "(\<forall>j. k \<le> j \<longrightarrow> j < k + len \<longrightarrow> free_item (es ! j)) \<longleftrightarrow> list_all free_item (take len (drop k es))" if "k + len \<le> length es"
    using that by (auto simp: list_all_length) (metis add_diff_inverse_nat add_less_cancel_left not_less)
  then show ?thesis by (auto simp: gap_at_def)
qed

section \<open>Looking up\<close>

text \<open>
  C9: looking up a path. Whatever the caches hold, \<open>get_leaf_file_entry\<close> computes the plain resolution of the path on the
  lists of entry sets: part by part, by name up to case, the last part with the attributes asked for and all others as
  directories; a part that is no name is refused with its reason. Nothing on the volume changes.
\<close>

theorem path_lookup_exact:
  assumes "reliable_device P sector capacity dev_ok" and "volume_tree P sector capacity dev_ok ly fuel cls s dirs"
  shows "\<exists>s'. get_leaf_file_entry P fuel path attrs s = (resolved (found_at s dirs attrs path), s') \<and>
    only_looked P sector capacity dev_ok ly s s'"
  using reliable_device.get_leaf_ok [OF assms(1) volume_treeD(2,4) [OF assms(2)]] by metis

lemma ex_volume_tree: "volume_tree ex_dir_platform (dummy_sector 64) dummy_capacity (dummy_ok 64) ex_layout 9 ex_clusters ex_volume ex_dirs"
proof -
  have "ex_dirs 2 \<noteq> None" using ex_dirs_say(1) by auto
  then show ?thesis using ex_tree ex_apart by (simp add: volume_tree_def)
qed

lemma ex_paths:
  "path_to_iter (rstr_of ''D/A'') = [rstr_of ''D'', rstr_of ''A'']" "path_to_iter (rstr_of ''d/a'') = [rstr_of ''d'', rstr_of ''a'']"
  "path_to_iter (rstr_of ''b'') = [rstr_of ''b'']" "path_to_iter [] = []" "path_to_iter (rstr_of ''d'') = [rstr_of ''d'']"
  "split_path (rstr_of ''b'') = ([], rstr_of ''b'')" "split_path (rstr_of '' b'') = ([], rstr_of '' b'')"
  "path_to_iter (rstr_of '' b'') = [rstr_of ''b'']"
  by code_simp+

lemma ex_names:
  "list_all (\<lambda>nm. name_error nm = None) [rstr_of ''D'', rstr_of ''A'', rstr_of ''d'', rstr_of ''a'', rstr_of ''b'', rstr_of '' b'']"
  "map (\<lambda>nm. map (upcase ex_upcase) (encode_utf16 nm)) [rstr_of ''D'', rstr_of ''A'', rstr_of ''d'', rstr_of ''a'', rstr_of ''b''] =
    [[68], [65], [68], [65], [66]]"
  "map (upcase ex_upcase) [100] = [68]" "map (upcase ex_upcase) [97] = [65]"
  "map encode_utf16 [rstr_of ''b'', rstr_of '' b''] = [[98], [32, 98]]" "trim (rstr_of ''b'') = rstr_of ''b''" "trim (rstr_of '' b'') = rstr_of ''b''"
  "\<not> contains Archive Directory" "contains Archive Archive" "contains Directory Directory" "\<not> contains Directory Archive"
  by code_simp+

theorem path_lookup_exact_witness:
  "\<exists>d s'. get_leaf_file_entry ex_dir_platform 9 (rstr_of ''D/A'') None ex_volume = (Ok (Some d), s') \<and> first_cluster d = 4"
proof -
  obtain d a where da: "ex_dirs 2 = Some [d]" "ex_says d = ([100], Directory, 3, 256, 3, True)"
    "ex_dirs 3 = Some [a]" "ex_says a = ([97], Archive, 4, 256, 3, True)" by (rule ex_dirsE)
  have "found_at ex_volume ex_dirs None (rstr_of ''D/A'') = Inr (Some (es_details a))"
    using da ex_names by (simp add: ex_paths matches_def ex_says_def)
  then show ?thesis
    using path_lookup_exact [OF ex_dir_reliable ex_volume_tree, of "rstr_of ''D/A''" None] da(4)
    by (auto simp: resolved_def ex_says_def)
qed

section \<open>Creating\<close>

lemma trim_split: "\<exists>a b. nm = a @ trim nm @ b"
proof -
  let ?d = "dropWhile is_whitespace nm"
  have "?d = rev (dropWhile is_whitespace (rev ?d)) @ rev (takeWhile is_whitespace (rev ?d))"
    by (metis rev_append rev_rev_ident takeWhile_dropWhile_id)
  then show ?thesis using takeWhile_dropWhile_id [of is_whitespace nm] unfolding trim_def by metis
qed

lemma trim_shorter:
  assumes "trim nm \<noteq> nm"
  shows "length (encode_utf16 (trim nm)) < length (encode_utf16 nm)"
proof -
  obtain a b where ab: "nm = a @ trim nm @ b" using trim_split by blast
  then have "a \<noteq> [] \<or> b \<noteq> []" using assms by auto
  moreover have "length cs \<le> length (encode_utf16 cs)" for cs by (induction cs) (auto simp: encode_utf16_def encode_utf16_char_def Let_def)
  ultimately have "0 < length (encode_utf16 a) + length (encode_utf16 b)"
    by (metis add_gr_0 le_zero_eq length_greater_0_conv neq0_conv)
  moreover have "length (encode_utf16 nm) = length (encode_utf16 a) + length (encode_utf16 (trim nm)) + length (encode_utf16 b)"
    by (subst ab) (simp add: encode_utf16_def)
  ultimately show ?thesis by linarith
qed

lemma found_after_create:
  assumes "split_path path = (dir, nm)" and "resolve_dir dirs t (path_to_iter dir) root = Some c" and "dirs c = Some (s1 @ s2)"
    and "name_error nm = None" and "\<not> contains (attributes (es_details x)) Directory"
  shows "resolve (dirs(c \<mapsto> s1 @ x # s2)) t attrs (path_to_iter path) root = resolve (dirs(c \<mapsto> s1 @ x # s2)) t attrs [trim nm] c"
proof -
  have "nm \<noteq> []" using assms(4) by (auto simp: name_error_def encode_utf16_def split: if_splits)
  then show ?thesis
    using path_to_iter_split [OF assms(1)] resolve_snoc [of "dirs(c \<mapsto> s1 @ x # s2)" t "path_to_iter dir" root c]
      resolve_dir_insert [where dirs = dirs and a = c, OF assms(5,3), of t "path_to_iter dir" root] assms(2) by simp
qed

lemma leaf_volume:
  assumes "reliable_device P sector capacity dev_ok" and "volume_tree P sector capacity dev_ok ly fuel cls s dirs"
    and "found_at s dirs attrs path = r"
  shows "\<exists>s'. get_leaf_file_entry P fuel path attrs s = (resolved r, s')"
proof -
  obtain s' where "get_leaf_file_entry P fuel path attrs s = (resolved (found_at s dirs attrs path), s')"
    by (rule reliable_device.get_leaf_ok [OF assms(1) volume_treeD(2,4) [OF assms(2)]])
  then show ?thesis unfolding assms(3) by blast
qed

lemma create_file_volume:
  assumes R: "reliable_device P sector capacity dev_ok" and V: "volume_tree P sector capacity dev_ok ly fuel cls s dirs"
    and room: "room_at P sector ly cls s dirs path c nm" and c: "dirs c = Some sets"
  obtains d s1 s2 s' where "create_file P fuel path s = (Ok d, s')" and "sets = s1 @ s2"
    and "first_cluster d = NO_CLUSTER_ID" and "data_length d = 0" and "valid_data_length d = 0" and "attributes d = Archive"
    and "volume_tree P sector capacity dev_ok ly fuel cls s' (dirs(c \<mapsto> s1 @ new_set (fs_upcase s) nm d # s2))"
    and "only_dir sector capacity ly (cls c) s s'"
    and "set_added (dir_items P (fs_details s) (cls c) (medium sector ly s)) (dir_items P (fs_details s') (cls c) (medium sector ly s'))
      (2 + name_count (length (encode_utf16 nm)))"
    and "\<And>attrs. found_at s' (dirs(c \<mapsto> s1 @ new_set (fs_upcase s) nm d # s2)) attrs path =
      resolve (dirs(c \<mapsto> s1 @ new_set (fs_upcase s) nm d # s2)) (fs_upcase s) attrs [trim nm] c"
proof -
  note T = volume_treeD [OF V]
  let ?root = "fsd_first_cluster_of_root_dir (fs_details s)"
  obtain dir k where r: "split_path path = (dir, nm)" "resolve_dir dirs (fs_upcase s) (path_to_iter dir) ?root = Some c"
    "name_error nm = None" "length (encode_utf16 nm) \<le> 255"
    "gap_at (dir_items P (fs_details s) (cls c) (medium sector ly s)) k (2 + name_count (length (encode_utf16 nm)))"
    using room by (auto simp: room_at_def)
  obtain d s1 s2 s' where cr: "create_file P fuel path s = (Ok d, s')" "sets = s1 @ s2"
    and T': "tree_at P sector capacity dev_ok ly fuel cls s' (dirs(c \<mapsto> s1 @ new_set (fs_upcase s) nm d # s2))"
    and A': "apart (fs_details s') cls (dirs(c \<mapsto> s1 @ new_set (fs_upcase s) nm d # s2))"
    and O: "only_dir sector capacity ly (cls c) s s'"
    and S: "set_added (dir_items P (fs_details s) (cls c) (medium sector ly s)) (dir_items P (fs_details s') (cls c) (medium sector ly s'))
      (2 + name_count (length (encode_utf16 nm)))"
    and d: "first_cluster d = NO_CLUSTER_ID" "data_length d = 0" "valid_data_length d = 0" "attributes d = Archive"
    by (rule reliable_device.create_file_ok [OF R T(2,3,4) r(1,2) c r(3,4,5)]) (rule that; assumption)
  let ?x = "new_set (fs_upcase s) nm d" let ?dirs = "dirs(c \<mapsto> s1 @ ?x # s2)"
  have st: "fs_details s' = fs_details s" "fs_upcase s' = fs_upcase s" "is_mounted s' = is_mounted s"
    using O by (auto simp: only_dir_def same_setup_def)
  have V': "volume_tree P sector capacity dev_ok ly fuel cls s' ?dirs" using T T' A' by (simp add: volume_tree_def st)
  have "found_at s' ?dirs attrs path = resolve ?dirs (fs_upcase s) attrs [trim nm] c" for attrs
    using found_after_create [OF r(1,2) _ r(3), of s1 s2 ?x attrs] c cr(2) d(4) ex_names(8) by (simp add: st)
  then show thesis by (rule that [OF cr d V' O S])
qed

text \<open>
  C4: creating a file in an existing directory with a gap for it, under a valid name of at most 255 units. It succeeds; the new entry set, with the given name, its hash and
  an empty file, is written over free entries with the right checksum and stands between the sets that were there, which
  keep their order; no sector outside that directory changes its content, the volume is as well-formed as before, and, if
  the name is new and not padded with blanks, looking up the path finds the new file.
\<close>

theorem create_file_listed:
  assumes "reliable_device P sector capacity dev_ok" and "volume_tree P sector capacity dev_ok ly fuel cls s dirs"
    and "room_at P sector ly cls s dirs path c nm" and "dirs c = Some sets"
  shows "\<exists>d s1 s2 s'. create_file P fuel path s = (Ok d, s') \<and> sets = s1 @ s2 \<and>
    first_cluster d = NO_CLUSTER_ID \<and> data_length d = 0 \<and> valid_data_length d = 0 \<and> attributes d = Archive \<and>
    volume_tree P sector capacity dev_ok ly fuel cls s' (dirs(c \<mapsto> s1 @ new_set (fs_upcase s) nm d # s2)) \<and>
    only_dir sector capacity ly (cls c) s s' \<and>
    set_added (dir_items P (fs_details s) (cls c) (medium sector ly s)) (dir_items P (fs_details s') (cls c) (medium sector ly s'))
      (2 + name_count (length (encode_utf16 nm))) \<and>
    (trim nm = nm \<and> find (matches (fs_upcase s) nm None) sets = None \<longrightarrow>
      (\<exists>s''. get_leaf_file_entry P fuel path None s' = (Ok (Some (stored_details d)), s'')))"
proof -
  obtain d s1 s2 s' where c: "create_file P fuel path s = (Ok d, s')" "sets = s1 @ s2"
    and d: "first_cluster d = NO_CLUSTER_ID" "data_length d = 0" "valid_data_length d = 0" "attributes d = Archive"
    and V: "volume_tree P sector capacity dev_ok ly fuel cls s' (dirs(c \<mapsto> s1 @ new_set (fs_upcase s) nm d # s2))"
    and O: "only_dir sector capacity ly (cls c) s s'"
    and S: "set_added (dir_items P (fs_details s) (cls c) (medium sector ly s)) (dir_items P (fs_details s') (cls c) (medium sector ly s'))
      (2 + name_count (length (encode_utf16 nm)))"
    and f: "\<And>attrs. found_at s' (dirs(c \<mapsto> s1 @ new_set (fs_upcase s) nm d # s2)) attrs path =
      resolve (dirs(c \<mapsto> s1 @ new_set (fs_upcase s) nm d # s2)) (fs_upcase s) attrs [trim nm] c"
    by (rule create_file_volume [OF assms]) (rule that; assumption)
  let ?x = "new_set (fs_upcase s) nm d" let ?dirs = "dirs(c \<mapsto> s1 @ ?x # s2)"
  have look: "\<exists>s''. get_leaf_file_entry P fuel path None s' = (Ok (Some (stored_details d)), s'')"
    if "trim nm = nm" "find (matches (fs_upcase s) nm None) sets = None"
  proof -
    have "name_error nm = None" using assms(3) by (simp add: room_at_def)
    then have "found_at s' ?dirs None path = Inr (Some (stored_details d))"
      using f that find_fresh [of "matches (fs_upcase s) nm None" s1 s2 ?x] c(2) by (simp add: matches_def)
    from leaf_volume [OF assms(1) V this] show ?thesis by (simp add: resolved_def)
  qed
  show ?thesis
    by (rule exI [of _ d], rule exI [of _ s1], rule exI [of _ s2], rule exI [of _ s'], intro conjI impI)
      (use c d V O S look in simp_all)
qed

lemma ex_room:
  "room_at ex_dir_platform (dummy_sector 64) ex_layout ex_clusters ex_volume ex_dirs (rstr_of ''b'') 2 (rstr_of ''b'')"
  "room_at ex_dir_platform (dummy_sector 64) ex_layout ex_clusters ex_volume ex_dirs (rstr_of '' b'') 2 (rstr_of '' b'')"
proof -
  have l: "length (ex_items 2) = 8" by (simp add: ex_items_def dir_size_def)
  have n: "name_count (Suc 0) = 1" "name_count (Suc (Suc 0)) = 1" by (simp_all add: name_count_def)
  have "gap_at (dir_items ex_dir_platform (fs_details ex_volume) (ex_clusters 2) (medium (dummy_sector 64) ex_layout ex_volume)) 3 3"
    using ex_gap(1) l unfolding ex_medium by (simp add: gap_at_take ex_items_def ex_clusters_def)
  then have "\<exists>k. gap_at (dir_items ex_dir_platform (fs_details ex_volume) (ex_clusters 2) (medium (dummy_sector 64) ex_layout ex_volume)) k 3" ..
  then show "room_at ex_dir_platform (dummy_sector 64) ex_layout ex_clusters ex_volume ex_dirs (rstr_of ''b'') 2 (rstr_of ''b'')"
    and "room_at ex_dir_platform (dummy_sector 64) ex_layout ex_clusters ex_volume ex_dirs (rstr_of '' b'') 2 (rstr_of '' b'')"
    using ex_names(1,5) n by (simp_all add: room_at_def ex_paths numeral_3_eq_3)
qed

theorem create_file_listed_witness:
  "\<exists>d s' s''. create_file ex_dir_platform 9 (rstr_of ''b'') ex_volume = (Ok d, s') \<and>
    get_leaf_file_entry ex_dir_platform 9 (rstr_of ''b'') None s' = (Ok (Some (stored_details d)), s'')"
proof -
  obtain d where d: "ex_dirs 2 = Some [d]" "ex_says d = ([100], Directory, 3, 256, 3, True)" by (rule ex_dirsE)
  have "find (matches ex_upcase (rstr_of ''b'') None) [d] = None" using d(2) ex_names by (simp add: matches_def ex_says_def)
  then show ?thesis
    using create_file_listed [OF ex_dir_reliable ex_volume_tree ex_room(1) d(1)] ex_names(6) by (auto simp: ex_volume_simps)
qed

text \<open>
  C34: a name padded with blanks is stored as it is given, but a lookup trims the parts of a path. The file that
  \<open>create_file\<close> has just made, with success, cannot be found under its path: opening it with \<open>create\<close> makes one more entry
  every time.
\<close>

theorem padded_name_not_found:
  assumes "reliable_device P sector capacity dev_ok" and "volume_tree P sector capacity dev_ok ly fuel cls s dirs"
    and "room_at P sector ly cls s dirs path c nm" and "dirs c = Some sets"
    and "trim nm \<noteq> nm" and "name_error (trim nm) = None" and "find (matches (fs_upcase s) (trim nm) attrs) sets = None"
  shows "\<exists>d s' s''. create_file P fuel path s = (Ok d, s') \<and> get_leaf_file_entry P fuel path attrs s' = (Ok None, s'')"
proof -
  obtain d s1 s2 s' where c: "create_file P fuel path s = (Ok d, s')" "sets = s1 @ s2"
    and V: "volume_tree P sector capacity dev_ok ly fuel cls s' (dirs(c \<mapsto> s1 @ new_set (fs_upcase s) nm d # s2))"
    and f: "\<And>attrs. found_at s' (dirs(c \<mapsto> s1 @ new_set (fs_upcase s) nm d # s2)) attrs path =
      resolve (dirs(c \<mapsto> s1 @ new_set (fs_upcase s) nm d # s2)) (fs_upcase s) attrs [trim nm] c"
    by (rule create_file_volume [OF assms(1-4)]) (rule that; assumption)
  let ?x = "new_set (fs_upcase s) nm d" let ?dirs = "dirs(c \<mapsto> s1 @ ?x # s2)"
  have "\<not> matches (fs_upcase s) (trim nm) attrs ?x"
    using trim_shorter [OF assms(5)] by (auto simp: matches_def dest: map_eq_imp_length_eq)
  then have "found_at s' ?dirs attrs path = Inr None"
    using f assms(6,7) find_insert [of "matches (fs_upcase s) (trim nm) attrs" ?x s1 s2] c(2) by simp
  from leaf_volume [OF assms(1) V this] c(1) show ?thesis by (auto simp: resolved_def)
qed

theorem padded_name_not_found_witness:
  "\<exists>d s' s''. create_file ex_dir_platform 9 (rstr_of '' b'') ex_volume = (Ok d, s') \<and>
    get_leaf_file_entry ex_dir_platform 9 (rstr_of '' b'') None s' = (Ok None, s'')"
proof -
  obtain d where d: "ex_dirs 2 = Some [d]" "ex_says d = ([100], Directory, 3, 256, 3, True)" by (rule ex_dirsE)
  have "find (matches ex_upcase (rstr_of ''b'') None) [d] = None" using d(2) ex_names by (simp add: matches_def ex_says_def)
  moreover have "rstr_of ''b'' \<noteq> rstr_of '' b''" by code_simp
  ultimately show ?thesis
    using padded_name_not_found [OF ex_dir_reliable ex_volume_tree ex_room(2) d(1), of None] ex_names(1,7) by simp
qed

text \<open>
  C35: a directory that has no run of free entries long enough, but ends with a free one. \<open>find_empty_dir_entry_set\<close>
  does not report that the directory is full: it returns the start of the run at the end, from where the entries asked
  for reach beyond the last entry of the directory.
\<close>

theorem short_gap_accepted:
  assumes "reliable_device P sector capacity dev_ok" and "volume_tree P sector capacity dev_ok ly fuel cls s dirs" and "dirs c = Some sets"
    and "\<forall>k. \<not> gap_at (dir_items P (fs_details s) (cls c) (medium sector ly s)) k len"
    and "free_item (last (dir_items P (fs_details s) (cls c) (medium sector ly s)))"
  shows "\<exists>k s'. find_empty_dir_entry_set P fuel c len s = (Ok (dir_location P (fs_details s) (cls c) k), s') \<and>
    k < dir_size P (fs_details s) (cls c) \<and> dir_size P (fs_details s) (cls c) < k + len"
proof -
  note D = reliable_device.treeD [OF assms(1) volume_treeD(2) [OF assms(2)] assms(3)]
  let ?es = "dir_items P (fs_details s) (cls c) (medium sector ly s)"
  obtain ch s' where r: "find_empty_loop P fuel len 0 None (chain_new P c (fs_details s), s) = (Ok (gap len 0 None ?es), ch, s')"
    using reliable_device.find_empty_loop_ok [OF assms(1) D(2) reliable_device.walking_start [OF assms(1) D(2)], of fuel len 0 None] D(1,3)
    by auto
  obtain off where A: "directory_at P ly (capacity (fs_dev s)) off (medium sector ly s) (fs_details s) (cls c)"
    using D(2) by (auto simp: has_directory_def)
  have "0 < length ?es" using directory_atD(1,3,4) [OF A] by (simp add: dir_size_def)
  then have ne: "?es \<noteq> []" by blast
  have "gap_at ?es 0 0" "gap_start ?es 0" by (simp_all add: gap_at_def gap_start_def)
  then obtain k where "k < length ?es" "gap len 0 None ?es = Some (snd (?es ! k))" "length ?es < k + len"
    using gap_short [of 0 ?es 0 None len] assms(4,5) ne by auto
  then show ?thesis using r by (auto simp: find_empty_dir_entry_set_def dir_items_nth)
qed

theorem short_gap_accepted_witness:
  "\<exists>k s'. find_empty_dir_entry_set ex_dir_platform 9 3 6 ex_volume = (Ok (dir_location ex_dir_platform (fs_details ex_volume) [3] k), s') \<and>
    k < 8 \<and> 8 < k + 6"
proof -
  obtain a where a: "ex_dirs 3 = Some [a]" by (rule ex_dirsE)
  have items: "dir_items ex_dir_platform (fs_details ex_volume) (ex_clusters 3) (medium (dummy_sector 64) ex_layout ex_volume) = ex_items 3"
    unfolding ex_medium by (simp add: ex_items_def ex_clusters_def)
  have "\<not> free_item (ex_items 3 ! 2)" "free_item (ex_items 3 ! 7)" by code_simp+
  moreover have l: "length (ex_items 3) = 8" by (simp add: ex_items_def dir_size_def)
  ultimately have "\<forall>k. \<not> gap_at (ex_items 3) k 6" "free_item (last (ex_items 3))"
    using last_conv_nth [of "ex_items 3"] by (fastforce simp: gap_at_def)+
  then show ?thesis
    using short_gap_accepted [OF ex_dir_reliable ex_volume_tree a, of 6] unfolding items by (simp add: ex_clusters_def dir_size_def)
qed

section \<open>Renaming\<close>

text \<open>
  C5: renaming, or moving, an entry to a path that is not taken, in an existing directory with a gap for it, under a valid
  name of at most 255 units. It succeeds; the
  entry set \<open>x\<close> that the old path named leaves its directory and a set with the new name and the same first cluster,
  lengths, attributes and flags stands in the directory of the new path, which may be the same one; all other sets of
  all directories keep their place, and the volume is as well-formed as before.
\<close>

theorem rename_moves_entry:
  assumes "reliable_device P sector capacity dev_ok" and "volume_tree P sector capacity dev_ok ly fuel cls s dirs"
    and "found_at s dirs None from_path = Inr (Some fd)" and "\<forall>d. found_at s dirs None to_path \<noteq> Inr (Some d)"
    and "room_at P sector ly cls s dirs to_path c nm" and "dirs c = Some sets"
  shows "\<exists>a x f1 f2 s1 s2 d s'. fs_rename P fuel from_path to_path s = (Ok (), s') \<and>
    sets = s1 @ s2 \<and> x \<in> set (the (dirs a)) \<and> es_details x = fd \<and>
    (dirs(c \<mapsto> s1 @ new_set (fs_upcase s) nm d # s2)) a = Some (f1 @ x # f2) \<and>
    volume_tree P sector capacity dev_ok ly fuel cls s' (dirs(c \<mapsto> s1 @ new_set (fs_upcase s) nm d # s2, a \<mapsto> f1 @ f2)) \<and>
    first_cluster d = first_cluster fd \<and> data_length d = data_length fd \<and> valid_data_length d = valid_data_length fd \<and>
    attributes d = attributes fd \<and> flags d = flags fd"
proof -
  note T = volume_treeD [OF assms(2)]
  let ?root = "fsd_first_cluster_of_root_dir (fs_details s)"
  obtain dir k where r: "split_path to_path = (dir, nm)" "resolve_dir dirs (fs_upcase s) (path_to_iter dir) ?root = Some c"
    "name_error nm = None" "length (encode_utf16 nm) \<le> 255"
    "gap_at (dir_items P (fs_details s) (cls c) (medium sector ly s)) k (2 + name_count (length (encode_utf16 nm)))"
    using assms(5) by (auto simp: room_at_def)
  have free: "found_at s dirs None to_path \<noteq> Inr (Some d)" for d using assms(4) by blast
  obtain a x f1 f2 s1 s2 d s' where q: "fs_rename P fuel from_path to_path s = (Ok (), s')" "sets = s1 @ s2"
    "x \<in> set (the (dirs a))" "es_details x = fd" "(dirs(c \<mapsto> s1 @ new_set (fs_upcase s) nm d # s2)) a = Some (f1 @ x # f2)"
    "first_cluster d = first_cluster fd" "data_length d = data_length fd" "valid_data_length d = valid_data_length fd"
    "attributes d = attributes fd" "flags d = flags fd"
    and T': "tree_at P sector capacity dev_ok ly fuel cls s' (dirs(c \<mapsto> s1 @ new_set (fs_upcase s) nm d # s2, a \<mapsto> f1 @ f2))"
    and A': "apart (fs_details s') cls (dirs(c \<mapsto> s1 @ new_set (fs_upcase s) nm d # s2, a \<mapsto> f1 @ f2))"
    and st: "same_setup capacity s s'"
    by (rule reliable_device.rename_ok [OF assms(1) T(1-4) assms(3) free r(1,2) assms(6) r(3-5)]) (rule that; assumption)
  have "volume_tree P sector capacity dev_ok ly fuel cls s' (dirs(c \<mapsto> s1 @ new_set (fs_upcase s) nm d # s2, a \<mapsto> f1 @ f2))"
    using T(1,4) T' A' st by (simp add: volume_tree_def same_setup_def)
  with q show ?thesis
    by (intro exI [of _ a] exI [of _ x] exI [of _ f1] exI [of _ f2] exI [of _ s1] exI [of _ s2] exI [of _ d] exI [of _ s'] conjI)
qed

theorem rename_moves_entry_witness:
  "\<exists>s' dirs. fs_rename ex_dir_platform 9 (rstr_of ''d/a'') (rstr_of ''b'') ex_volume = (Ok (), s') \<and>
    volume_tree ex_dir_platform (dummy_sector 64) dummy_capacity (dummy_ok 64) ex_layout 9 ex_clusters s' dirs \<and>
    dirs 3 = Some [] \<and> length (the (dirs 2)) = 2"
proof -
  obtain d a where da: "ex_dirs 2 = Some [d]" "ex_says d = ([100], Directory, 3, 256, 3, True)"
    "ex_dirs 3 = Some [a]" "ex_says a = ([97], Archive, 4, 256, 3, True)" by (rule ex_dirsE)
  have old: "found_at ex_volume ex_dirs None (rstr_of ''d/a'') = Inr (Some (es_details a))"
    and new: "\<forall>d. found_at ex_volume ex_dirs None (rstr_of ''b'') \<noteq> Inr (Some d)"
    using da ex_names by (simp_all add: ex_paths matches_def ex_says_def)
  obtain p x f1 f2 s1 s2 e s' where q: "fs_rename ex_dir_platform 9 (rstr_of ''d/a'') (rstr_of ''b'') ex_volume = (Ok (), s')"
    "[d] = s1 @ s2" "x \<in> set (the (ex_dirs p))" "es_details x = es_details a"
    "(ex_dirs(2 \<mapsto> s1 @ new_set ex_upcase (rstr_of ''b'') e # s2)) p = Some (f1 @ x # f2)"
    "volume_tree ex_dir_platform (dummy_sector 64) dummy_capacity (dummy_ok 64) ex_layout 9 ex_clusters s'
      (ex_dirs(2 \<mapsto> s1 @ new_set ex_upcase (rstr_of ''b'') e # s2, p \<mapsto> f1 @ f2))"
    using rename_moves_entry [OF ex_dir_reliable ex_volume_tree old new ex_room(1) da(1)] by (auto simp: ex_volume_simps)
  have "p = 3"
  proof -
    have "p = 2 \<or> p = 3" using q(5) by (auto simp: ex_dirs_def split: if_splits)
    moreover have "p \<noteq> 2" using q(3,4) da by (auto simp: ex_says_def)
    ultimately show ?thesis by blast
  qed
  then have "f1 @ f2 = []" "length (s1 @ new_set ex_upcase (rstr_of ''b'') e # s2) = 2"
    using q(5) da(3) arg_cong [OF q(2), of length] by (auto simp: Cons_eq_append_conv append_eq_Cons_conv)
  then show ?thesis using q(1,6) \<open>p = 3\<close>
    by (intro exI [of _ s'] exI [of _ "ex_dirs(2 \<mapsto> s1 @ new_set ex_upcase (rstr_of ''b'') e # s2, p \<mapsto> f1 @ f2)"]) simp
qed

section \<open>Removing\<close>

text \<open>
  C6: removing a file that has no FAT chain. It succeeds; the entry set the path named leaves its directory, all others
  keep their place, the clusters of the file and no others become free, and the volume is as well-formed as before.
\<close>

theorem remove_file_frees:
  assumes "reliable_device P sector capacity dev_ok" and "volume_tree P sector capacity dev_ok ly fuel cls s dirs"
    and "found_at s dirs (Some Archive) path = Inr (Some fd)" and "\<not> contains (attributes fd) Directory"
    and "bitmap_ok P (capacity (fs_dev s)) (bitmap (fs_allocator s))" and "bitmap_region ly (bitmap (fs_allocator s))"
    and "one_run_file (fs_details s) (bitmap (fs_allocator s)) fd"
  shows "\<exists>a x f1 f2 s'. remove_file P fuel path s = (Ok (), s') \<and> dirs a = Some (f1 @ x # f2) \<and> es_details x = fd \<and>
    volume_tree P sector capacity dev_ok ly fuel cls s' (dirs(a \<mapsto> f1 @ f2)) \<and>
    (\<forall>c. 2 \<le> c \<longrightarrow> c < bitmap_end (bitmap (fs_allocator s)) \<longrightarrow> volume_allocated P sector ly s' c =
      (volume_allocated P sector ly s c \<and>
        \<not> (unat (first_cluster fd) \<le> c \<and> c < unat (first_cluster fd) + unat (run_count (fs_details s) fd))))"
proof -
  note T = volume_treeD [OF assms(2)]
  obtain a x f1 f2 s' where q: "remove_file P fuel path s = (Ok (), s')" "dirs a = Some (f1 @ x # f2)" "es_details x = fd"
    and T': "tree_at P sector capacity dev_ok ly fuel cls s' (dirs(a \<mapsto> f1 @ f2))" and A': "apart (fs_details s') cls (dirs(a \<mapsto> f1 @ f2))"
    and st: "same_setup capacity s s'"
    and al: "\<And>c. 2 \<le> c \<Longrightarrow> c < bitmap_end (bitmap (fs_allocator s)) \<Longrightarrow> volume_allocated P sector ly s' c =
      (volume_allocated P sector ly s c \<and>
        \<not> (unat (first_cluster fd) \<le> c \<and> c < unat (first_cluster fd) + unat (run_count (fs_details s) fd)))"
    by (rule reliable_device.remove_file_ok [OF assms(1) T(1-4) assms(3-7)]) (rule that; assumption)
  have "volume_tree P sector capacity dev_ok ly fuel cls s' (dirs(a \<mapsto> f1 @ f2))"
    using T(1,4) T' A' st by (simp add: volume_tree_def same_setup_def)
  with q al show ?thesis
    by (intro exI [of _ a] exI [of _ x] exI [of _ f1] exI [of _ f2] exI [of _ s'] conjI allI impI)
qed

theorem remove_file_frees_witness:
  "\<exists>s' dirs. remove_file ex_dir_platform 9 (rstr_of ''d/a'') ex_volume = (Ok (), s') \<and>
    volume_tree ex_dir_platform (dummy_sector 64) dummy_capacity (dummy_ok 64) ex_layout 9 ex_clusters s' dirs \<and>
    dirs 3 = Some [] \<and> volume_allocated ex_dir_platform (dummy_sector 64) ex_layout ex_volume 4 \<and>
    \<not> volume_allocated ex_dir_platform (dummy_sector 64) ex_layout s' 4"
proof -
  obtain d a where da: "ex_dirs 2 = Some [d]" "ex_says d = ([100], Directory, 3, 256, 3, True)"
    "ex_dirs 3 = Some [a]" "ex_says a = ([97], Archive, 4, 256, 3, True)" by (rule ex_dirsE)
  have old: "found_at ex_volume ex_dirs (Some Archive) (rstr_of ''d/a'') = Inr (Some (es_details a))"
    using da ex_names by (simp add: ex_paths matches_def ex_says_def)
  have nodir: "\<not> contains (attributes (es_details a)) Directory" using da(4) ex_names by (simp add: ex_says_def)
  have bm: "bitmap_ok ex_dir_platform (dummy_capacity (fs_dev ex_volume)) (bitmap (fs_allocator ex_volume))"
    "bitmap_region ex_layout (bitmap (fs_allocator ex_volume))"
    by (auto simp: bitmap_ok_def alloc_sizes_ok_def cps_def bitmap_region_def in_bitmap_def ex_layout_def word_unat_eq_iff)
  have cnt: "ucast (div_ceil (256 :: u64) (ucast (256 :: u32))) = (1 :: u32)" by code_simp
  have nf: "contains (3 :: u8) NoFatChain" "(4 :: u32) \<noteq> NO_CLUSTER_ID" by code_simp+
  have run: "run_count (fs_details ex_volume) (es_details a) = 1" using da(4) cnt nf by (simp add: run_count_def ex_says_def)
  then have one: "one_run_file (fs_details ex_volume) (bitmap (fs_allocator ex_volume)) (es_details a)"
    using da(4) nf by (simp add: one_run_file_def ex_says_def bitmap_end_def)
  have al: "volume_allocated ex_dir_platform (dummy_sector 64) ex_layout ex_volume 4"
    unfolding volume_allocated_def ex_medium by code_simp
  obtain p x f1 f2 s' where q: "remove_file ex_dir_platform 9 (rstr_of ''d/a'') ex_volume = (Ok (), s')"
    "ex_dirs p = Some (f1 @ x # f2)" "es_details x = es_details a"
    "volume_tree ex_dir_platform (dummy_sector 64) dummy_capacity (dummy_ok 64) ex_layout 9 ex_clusters s' (ex_dirs(p \<mapsto> f1 @ f2))"
    "\<not> volume_allocated ex_dir_platform (dummy_sector 64) ex_layout s' 4"
    using remove_file_frees [OF ex_dir_reliable ex_volume_tree old nodir bm one] da(4) run
    by (auto simp: ex_says_def bitmap_end_def)
  have "p = 2 \<or> p = 3" using q(2) by (auto simp: ex_dirs_def split: if_splits)
  moreover have "p \<noteq> 2" using q(2,3) da by (auto simp: ex_says_def Cons_eq_append_conv)
  ultimately have "p = 3" "f1 @ f2 = []" using q(2) da(3) by (auto simp: Cons_eq_append_conv)
  then show ?thesis using q al by (intro exI [of _ s'] exI [of _ "ex_dirs(p \<mapsto> f1 @ f2)"]) simp
qed

end
