(* ===== verification/Properties_Volume.thy ===== *)
theory Properties_Volume
  imports File_Append Directory_Listing Mounting Directory_Make Properties_Directory
begin

text \<open>
  Properties of a whole volume: what mounting establishes, reading a file by its path, listing a directory, reading an open file
  and seeking in it, whether its clusters are consecutive or linked in the FAT, appending to a file that fills its
  clusters, and making a directory.
\<close>

section \<open>Reading by path\<close>

text \<open>
  C7: reading a file by its path. On a well-formed volume, whatever the caches hold, \<open>read\<close> of a path that resolves to a
  file returns the bytes of the clusters its entry set names, consecutive or linked in the FAT, up to the data length, with
  zeros after the valid data length; a path that resolves to nothing is \<open>FileNotFound\<close>, one with a part that is no name
  is refused with its reason. The volume is not changed.
\<close>

theorem read_path_content:
  assumes "reliable_device P sector capacity dev_ok" and "volume_tree P sector capacity dev_ok ly fuel cls s dirs"
  shows "\<exists>s'. only_looked P sector capacity dev_ok ly s s' \<and> (case found_at s dirs (Some Archive) path of
      Inl reason \<Rightarrow> fs_read P fuel path s = (Err (InvalidFileName reason), s')
    | Inr None \<Rightarrow> fs_read P fuel path s = (Err FileNotFound, s')
    | Inr (Some d) \<Rightarrow> \<forall>ch. stored_at P sector capacity ly s ch d \<and> unat (data_length d) < 2 ^ usize_bits P \<and>
        unat (valid_data_length d) < 2 ^ usize_bits P \<longrightarrow> fs_read P fuel path s = (Ok (stored_bytes P sector ly s ch d), s'))"
proof -
  note T = volume_treeD(1,2,4) [OF assms(2)]
  have lk: "only_looked P sector capacity dev_ok ly s s"
    using reliable_device.looked_refl [OF assms(1)] T(2) by (simp add: tree_at_def)
  have miss: "\<exists>s'. fs_read P fuel path s = (Err (case r of Inl reason \<Rightarrow> InvalidFileName reason | Inr _ \<Rightarrow> FileNotFound), s') \<and>
      only_looked P sector capacity dev_ok ly s s'"
    if "found_at s dirs (Some Archive) path = r" "\<And>d. r \<noteq> Inr (Some d)" for r
    by (rule reliable_device.fs_read_missing [OF assms(1) T that])
  have hit: "\<exists>s'. only_looked P sector capacity dev_ok ly s s' \<and>
      (\<forall>ch. stored_at P sector capacity ly s ch d \<and> unat (data_length d) < 2 ^ usize_bits P \<and>
        unat (valid_data_length d) < 2 ^ usize_bits P \<longrightarrow> fs_read P fuel path s = (Ok (stored_bytes P sector ly s ch d), s'))"
    if "found_at s dirs (Some Archive) path = Inr (Some d)" for d
  proof (cases "\<exists>ch. stored_at P sector capacity ly s ch d \<and> unat (data_length d) < 2 ^ usize_bits P \<and>
        unat (valid_data_length d) < 2 ^ usize_bits P")
    case True
    note ok = reliable_device.fs_read_ok [OF assms(1) T that]
    from True obtain ch s' where ch: "stored_at P sector capacity ly s ch d" "unat (data_length d) < 2 ^ usize_bits P"
      "unat (valid_data_length d) < 2 ^ usize_bits P"
      and s': "fs_read P fuel path s = (Ok (stored_bytes P sector ly s ch d), s')" "only_looked P sector capacity dev_ok ly s s'"
      using ok by blast
    have "fs_read P fuel path s = (Ok (stored_bytes P sector ly s ch' d), s')" if "stored_at P sector capacity ly s ch' d" for ch'
      using ok [OF that ch(2,3)] s'(1) by auto
    then show ?thesis using s'(2) by blast
  next
    case False
    then show ?thesis using lk by blast
  qed
  show ?thesis
  proof (cases "found_at s dirs (Some Archive) path")
    case (Inl reason)
    then show ?thesis using miss [OF Inl] by auto
  next
    case (Inr o')
    then show ?thesis using miss [OF Inr] hit by (cases o') auto
  qed
qed

lemma ex_valid: "map_option (map (\<lambda>x. valid_data_length (es_details x))) (ex_dirs 3) = Some [256]"
  by code_simp

lemma ex_file_sector: "q < 4 \<Longrightarrow> unat (dir_sector (fs_details ex_volume) [4] q) = 11 + q"
proof -
  assume "q < 4"
  then have "q \<in> {0, 1, 2, 3}" by auto
  then show ?thesis by (auto simp: dir_sector_def heap_sector_def)
qed

lemma ex_stored:
  assumes "first_cluster d = 4" and "data_length d = 256" and "flags d = 3"
  shows "stored_at ex_dir_platform (dummy_sector 64) dummy_capacity ex_layout ex_volume [4] d"
proof -
  have sec: "ex_layout (dir_sector (fs_details ex_volume) [4] q) = DataRegion" "unat (dir_sector (fs_details ex_volume) [4] q) < 19"
    if "q < 4" for q
    using ex_file_sector [OF that] that by (auto simp: ex_layout_def word_unat_eq_iff)
  have "contains (3 :: general_secondary_flags) NoFatChain" "usize_bits ex_dir_platform = 64"
    by (simp_all add: contains_def NoFatChain_def ex_dir_platform_def)
  then show ?thesis using assms sec
    by (simp add: stored_at_def geometry_ok_def clusters_placed_def clusters_follow_def)
qed

lemma ex_file_bytes:
  assumes "data_length d = 256" and "valid_data_length d = 256"
  shows "stored_bytes ex_dir_platform (dummy_sector 64) ex_layout ex_volume [4] d = replicate 256 9"
proof -
  have blk: "length ex_blocks = 19" "list_all (\<lambda>q. ex_blocks ! (11 + q) = replicate 64 9) [0..<4]" by (simp add: ex_blocks_length) code_simp
  have sec: "dummy_sector 64 (fs_dev ex_volume) (dir_sector (fs_details ex_volume) [4] q) = replicate 64 9" if q: "q < 4" for q
  proof -
    have "ex_blocks ! (11 + q) = replicate 64 9" using blk(2) q unfolding list_all_iff set_upt by (metis atLeastLessThan_iff le0)
    then show ?thesis using ex_file_sector [OF q] q blk(1) by (simp add: dummy_sector_def ex_dev)
  qed
  have "i div 64 < 4" if "i < 256" for i :: nat using that by (simp add: less_mult_imp_div_less)
  then show ?thesis using assms sec
    by (intro nth_equalityI) (simp_all add: stored_bytes_def chain_byte_def ex_medium)
qed

theorem read_path_content_witness:
  "\<exists>s'. fs_read ex_dir_platform 9 (rstr_of ''D/A'') ex_volume = (Ok (replicate 256 9), s')"
proof -
  obtain d a where da: "ex_dirs 2 = Some [d]" "ex_says d = ([100], Directory, 3, 256, 3, True)"
    "ex_dirs 3 = Some [a]" "ex_says a = ([97], Archive, 4, 256, 3, True)" by (rule ex_dirsE)
  let ?d = "es_details a"
  have v: "valid_data_length ?d = 256" using ex_valid da(3) by simp
  have f: "found_at ex_volume ex_dirs (Some Archive) (rstr_of ''D/A'') = Inr (Some ?d)"
    using da ex_names by (simp add: ex_paths matches_def ex_says_def)
  have S: "stored_at ex_dir_platform (dummy_sector 64) dummy_capacity ex_layout ex_volume [4] ?d"
    using da(4) by (intro ex_stored) (simp_all add: ex_says_def)
  have u: "usize_bits ex_dir_platform = 64" by (simp add: ex_dir_platform_def)
  have B: "stored_bytes ex_dir_platform (dummy_sector 64) ex_layout ex_volume [4] ?d = replicate 256 9"
    using da(4) v by (intro ex_file_bytes) (simp_all add: ex_says_def)
  show ?thesis
    using read_path_content [OF ex_dir_reliable ex_volume_tree, of "rstr_of ''D/A''"] f S u v da(4)
    by (auto simp: ex_says_def B [symmetric])
qed

section \<open>Listing\<close>

text \<open>
  C10: listing a directory. On a well-formed volume \<open>read_dir\<close> of a path to a directory succeeds, and asking for the next
  entry until there is none delivers each entry set of that directory exactly once, in the order they are stored, with
  its details and its decoded name, and then the end; the volume is not changed. A name buffer of 765 bytes is enough for
  every name.
\<close>

theorem directory_listing_complete:
  assumes "reliable_device P sector capacity dev_ok" and "volume_tree P sector capacity dev_ok ly fuel cls s dirs"
    and "resolve_dir dirs (fs_upcase s) (path_to_iter path) (fsd_first_cluster_of_root_dir (fs_details s)) = Some c"
    and "dirs c = Some sets" and "list_all2 named sets nms" and "765 \<le> length buf" and "length sets < n"
  shows "\<exists>ch s1 ch' s2. read_dir P fuel path s = (Ok ch, s1) \<and> only_looked P sector capacity dev_ok ly s s1 \<and>
    drain_entries P fuel buf n (ch, s1) = (Ok (zip (map es_details sets) nms), ch', s2) \<and>
    only_looked P sector capacity dev_ok ly s s2"
  by (rule reliable_device.list_directory_ok [OF assms(1) volume_treeD(1,2,4) [OF assms(2)] assms(3-7)])

theorem directory_listing_complete_witness:
  "\<exists>ch s1 d st. read_dir ex_dir_platform 9 (rstr_of ''D'') ex_volume = (Ok ch, s1) \<and> first_cluster d = 4 \<and>
    drain_entries ex_dir_platform 9 (replicate 765 0) 2 (ch, s1) = (Ok [(d, rstr_of ''a'')], st)"
proof -
  obtain d a where da: "ex_dirs 2 = Some [d]" "ex_says d = ([100], Directory, 3, 256, 3, True)"
    "ex_dirs 3 = Some [a]" "ex_says a = ([97], Archive, 4, 256, 3, True)" by (rule ex_dirsE)
  have p: "path_to_iter (rstr_of ''D'') = [rstr_of ''D'']" "encode_utf16 (rstr_of ''a'') = [97]"
    "list_all scalar_value (rstr_of ''a'')" by code_simp+
  have r: "resolve_dir ex_dirs (fs_upcase ex_volume) (path_to_iter (rstr_of ''D'')) (fsd_first_cluster_of_root_dir (fs_details ex_volume)) = Some 3"
    using da ex_names by (simp add: p matches_def ex_says_def)
  have n: "list_all2 named [a] [rstr_of ''a'']" using da(4) p by (simp add: named_def ex_says_def list_all_iff)
  have "first_cluster (es_details a) = 4" using da(4) by (simp add: ex_says_def)
  then show ?thesis
    using directory_listing_complete [OF ex_dir_reliable ex_volume_tree r da(3) n, of "replicate 765 0" 2] by auto
qed

section \<open>Mounting\<close>

text \<open>
  C8: mounting. On a reliable device whose sector 0 is a valid boot sector and whose root directory names a bitmap, a
  volume label and an up-case table in its first sector, \<open>mount\<close> of a new file system succeeds; the geometry, the start of
  the FAT, the place of the bitmap and the up-case table are those on the device, the caches are empty and agree with it,
  so the volume shows what the device holds, and a read through the new file system is one through the mounted one. A
  sector 0 that is no boot sector is refused as \<open>NotExFat\<close> and nothing is mounted.
\<close>

theorem mount_establishes:
  assumes R: "reliable_device P sector capacity dev_ok" and d: "dev_ok d" and sz: "512 \<le> SIZE P" "SIZE P < 2 ^ 64" and n: "0 < n"
  shows "(mountable P sector capacity d b be ue \<longrightarrow> (\<exists>s. mount P (file_system_new P n d) = (Ok (), s) \<and>
      mounted_as P sector d b be ue s \<and> capacity (fs_dev s) = capacity d \<and>
      (\<forall>ly. volume_ok P sector capacity dev_ok ly s \<and> medium sector ly s = sector d) \<and>
      (\<forall>fuel path. fs_read P fuel path (file_system_new P n d) = fs_read P fuel path s))) \<and>
    (0 < capacity d \<and> \<not> boot_sector_ok (sector d 0) \<longrightarrow> (\<exists>e d'. mount P (file_system_new P n d) =
      (Err (NotExFat e), (file_system_new P n d)\<lparr>fs_dev := d'\<rparr>) \<and> sector d' = sector d))"
proof (intro conjI impI)
  assume "mountable P sector capacity d b be ue"
  moreover have "0 < SIZE P" using sz(1) by simp
  ultimately obtain s where s: "mount P (file_system_new P n d) = (Ok (), s)"
    "mounted_as P sector d b be ue s" "capacity (fs_dev s) = capacity d"
    "\<forall>ly. volume_ok P sector capacity dev_ok ly s \<and> medium sector ly s = sector d"
    using reliable_device.mount_ok [OF R d _ sz(2) n] by blast
  have "mount P s = (Ok (), s)" using s(2) by (simp add: mounted_as_def mount_mounted)
  then have "fs_read P fuel path (file_system_new P n d) = fs_read P fuel path s" for fuel path
    using s(1) by (simp add: fs_read_def andthen_def)
  then show "\<exists>s. mount P (file_system_new P n d) = (Ok (), s) \<and>
    mounted_as P sector d b be ue s \<and> capacity (fs_dev s) = capacity d \<and>
    (\<forall>ly. volume_ok P sector capacity dev_ok ly s \<and> medium sector ly s = sector d) \<and>
    (\<forall>fuel path. fs_read P fuel path (file_system_new P n d) = fs_read P fuel path s)" using s by blast
qed (use reliable_device.mount_refused [OF R d _ sz(1)] in blast)

text \<open>A device to mount: the FAT in sector 1, clusters of one sector from sector 2 on, the root directory, the bitmap, the table.\<close>

definition ex_mount_boot :: "u8 list" where
  "ex_mount_boot = [0xeb, 0x76, 0x90] @ exfat_name @ replicate 69 0 @ [1, 0, 0, 0, 1, 0, 0, 0, 2, 0, 0, 0, 3, 0, 0, 0, 2, 0, 0, 0] @
     replicate 8 0 @ [9, 0] @ replicate 400 0 @ [0x55, 0xaa]"

definition ex_mount_root :: "u8 list" where
  "ex_mount_root = (0x81 # replicate 19 0 @ [3, 0, 0, 0, 1] @ replicate 7 0) @ (0x83 # replicate 31 0) @
     (0x82 # replicate 19 0 @ [4, 0, 0, 0, 0, 1] @ replicate 6 0) @ replicate 416 0"

definition ex_mount_device :: dummy_device where
  "ex_mount_device = \<lparr>blocks = [ex_mount_boot, replicate 512 0, ex_mount_root, 7 # replicate 511 0, replicate 512 0], write_count = 0\<rparr>"

definition ex_mount_parsed :: boot_sector where
  "ex_mount_parsed = \<lparr>partition_offset = 0, volume_length = 0, fat_offset = 1, fat_length = 1, cluster_heap_offset = 2, cluster_count = 3,
     first_cluster_of_root_dir = 2, volume_serial_number = 0, file_system_revision = 0, boot_volume_flags = 0, bytes_per_sector = 512,
     sectors_per_cluster = 1, number_of_fats = 0, drive_select = 0, percent_in_use = 0\<rparr>"

definition ex_mount_bitmap :: allocation_bitmap_dir_entry where
  "ex_mount_bitmap = \<lparr>ab_bitmap_flags = 0, ab_first_cluster = 3, ab_data_length = 1\<rparr>"

definition ex_mount_table :: upcase_table_dir_entry where
  "ex_mount_table = \<lparr>ut_table_checksum = 0, ut_first_cluster = 4, ut_data_length = 256\<rparr>"

lemma ex_mount_boot_parsed: "boot_sector_try_from ex_mount_boot (x :: dummy_device) = (Ok ex_mount_parsed, x)"
  by code_simp

lemma ex_mount_root_parsed:
  "scan_root (as_chunks RAW_ENTRY_LEN ex_mount_root) \<lparr>re_bitmap = None, re_label = None, re_upcase = None\<rparr> (x :: dummy_device) =
     (Ok \<lparr>re_bitmap = Some ex_mount_bitmap, re_label = Some [], re_upcase = Some ex_mount_table\<rparr> :: (root_entries, unit exfat_error) outcome, x)"
  by code_simp

lemma ex_mount_device_ok: "dummy_ok 512 ex_mount_device" "dummy_capacity ex_mount_device = 5"
  "dummy_sector 512 ex_mount_device 0 = ex_mount_boot" "dummy_sector 512 ex_mount_device 2 = ex_mount_root"
proof -
  have "length exfat_name = 8" by code_simp
  then have "length ex_mount_boot = 512" "length ex_mount_root = 512" by (simp_all add: ex_mount_boot_def ex_mount_root_def)
  then show "dummy_ok 512 ex_mount_device" "dummy_capacity ex_mount_device = 5" "dummy_sector 512 ex_mount_device 0 = ex_mount_boot"
    "dummy_sector 512 ex_mount_device 2 = ex_mount_root"
    by (simp_all add: ex_mount_device_def dummy_ok_def dummy_capacity_def dummy_sector_def)
qed

lemma ex_mountable:
  "mountable (dummy_platform 512 64) (dummy_sector 512) dummy_capacity ex_mount_device ex_mount_parsed ex_mount_bitmap ex_mount_table"
proof -
  have sec: "heap_sector (details_new ex_mount_parsed) 2 = 2" "heap_sector (details_new ex_mount_parsed) 4 = 4"
    "fsd_first_cluster_of_root_dir (details_new ex_mount_parsed) = 2"
    by (simp_all add: heap_sector_def details_new_def ex_mount_parsed_def)
  show ?thesis
    by (simp add: mountable_def sec ex_mount_device_ok ex_mount_boot_parsed ex_mount_root_parsed ex_mount_bitmap_def ex_mount_table_def)
qed

theorem mount_establishes_witness:
  "(\<exists>s. mount (dummy_platform 512 64) (file_system_new (dummy_platform 512 64) 4 ex_mount_device) = (Ok (), s) \<and>
     is_mounted s \<and> start_of_fat_sector (fs_fat s) = Some 1) \<and>
   (\<exists>e s. mount (dummy_platform 512 64) (file_system_new (dummy_platform 512 64) 4
     \<lparr>blocks = [replicate 512 0], write_count = 0\<rparr>) = (Err (NotExFat e), s))"
proof -
  let ?bad = "\<lparr>blocks = [replicate 512 0], write_count = 0\<rparr> :: dummy_device"
  have bad: "dummy_ok 512 ?bad" "0 < dummy_capacity ?bad" "\<not> boot_sector_ok (dummy_sector 512 ?bad 0)"
    by (simp_all add: dummy_ok_def dummy_capacity_def dummy_sector_def boot_sector_ok_def)
  note ok = mount_establishes [OF dummy.reliable_device_axioms ex_mount_device_ok(1), of 64 4 ex_mount_parsed ex_mount_bitmap ex_mount_table]
  show ?thesis
  proof
    show "\<exists>s. mount (dummy_platform 512 64) (file_system_new (dummy_platform 512 64) 4 ex_mount_device) = (Ok (), s) \<and>
      is_mounted s \<and> start_of_fat_sector (fs_fat s) = Some 1"
      using ok ex_mountable by (auto simp: mounted_as_def details_new_def ex_mount_parsed_def)
    show "\<exists>e s. mount (dummy_platform 512 64) (file_system_new (dummy_platform 512 64) 4 ?bad) = (Err (NotExFat e), s)"
      using mount_establishes [OF dummy.reliable_device_axioms bad(1), of 64 4 ex_mount_parsed ex_mount_bitmap ex_mount_table] bad(2,3) by auto
  qed
qed

section \<open>Reading an open file\<close>

text \<open>
  C13: reading from an open file, opened for reading whatever its other options, not at its end, its clusters consecutive or
  linked in the FAT, its valid data length less than \<open>2 ^ usize_bits\<close> (beyond that the loop of \<open>read\<close> may stand still).
  Into a buffer that is not empty \<open>read\<close> returns; it delivers the bytes of the content from the cursor on, as many as the
  buffer and the file allow, across sectors and clusters and with zeros past the valid data; the rest of the buffer is
  untouched, the cursor moves by that many bytes, and neither the file nor the volume changes.
\<close>

theorem file_read_content:
  assumes "reliable_device P sector capacity dev_ok" and "chained_file P sector capacity dev_ok ly cls f s"
    and "is_mounted s" and "opt_read (open_options f)" and "cursor f < data_length (details f)"
    and "buf \<noteq> []" and "length buf < 2 ^ 64" and "k = min (length buf) (unat (data_length (details f)) - unat (cursor f))"
  shows "\<exists>f' s'. file_read P buf (f, s) =
      (Ok (Some k, take k (drop (unat (cursor f)) (stored_bytes P sector ly s cls (details f))) @ drop k buf), f', s') \<and>
    unat (cursor f') = unat (cursor f) + k \<and> details f' = details f \<and> open_options f' = open_options f \<and>
    chained_file P sector capacity dev_ok ly cls f' s' \<and> only_looked P sector capacity dev_ok ly s s'"
proof -
  let ?B = "chain_byte P (medium sector ly s) (fs_details s) cls (valid_data_length (details f))"
  obtain f' s' where r: "file_read P buf (f, s) =
      (Ok (Some k, map ?B [unat (cursor f)..<unat (cursor f) + k] @ drop k buf), f', s')"
    "unat (cursor f') = unat (cursor f) + k" "details f' = details f" "open_options f' = open_options f"
    "chained_file P sector capacity dev_ok ly cls f' s'" "only_looked P sector capacity dev_ok ly s s'"
    using readable_file.read [OF reliable_device.chained_readable [OF assms(1)] assms(2-8)] by blast
  have "unat (cursor f) + k \<le> unat (data_length (details f))" using assms(5,8) by (simp add: word_less_nat_alt)
  then have "take k (drop (unat (cursor f)) (stored_bytes P sector ly s cls (details f))) = map ?B [unat (cursor f)..<unat (cursor f) + k]"
    by (simp add: stored_bytes_def take_map drop_map)
  then show ?thesis using r by auto
qed

text \<open>
  C26: \<open>read_to_end\<close> of such a file, or of one that is empty or at its end, the bytes to the end being fewer than
  \<open>2 ^ usize_bits\<close> too. It ends within the rounds its loop is given, and appends everything from the cursor to the end of the
  file, nothing at the end; then the cursor stands at the end, and the volume is unchanged.
\<close>

theorem read_to_end_content:
  assumes "reliable_device P sector capacity dev_ok" and "volume_ok P sector capacity dev_ok ly s"
    and "is_mounted s" and "opt_read (open_options f)" and "cursor f \<le> data_length (details f)"
    and "unat (data_length (details f)) - unat (cursor f) < 2 ^ usize_bits P"
    and "cursor f < data_length (details f) \<longrightarrow> chained_file P sector capacity dev_ok ly cls f s"
  shows "\<exists>f' s'. read_to_end P buf (f, s) =
      (Ok (buf @ drop (unat (cursor f)) (stored_bytes P sector ly s cls (details f)),
           unat (data_length (details f)) - unat (cursor f)), f', s') \<and>
    cursor f' = data_length (details f) \<and> details f' = details f \<and> only_looked P sector capacity dev_ok ly s s'"
proof -
  note R = reliable_device.chained_readable [OF assms(1)]
  have "only_looked P sector capacity dev_ok ly s s" by (rule reliable_device.looked_refl [OF assms(1,2)])
  then show ?thesis
    using readable_file.whole [OF R assms(3-6), of ly cls buf] assms(7) by (auto simp: stored_bytes_def drop_map)
qed

section \<open>Seeking\<close>

text \<open>
  C32: \<open>seek\<close> in a file whose clusters are linked in the FAT. Every position inside the clusters, up to the valid data
  length, is found: the cursor is there, in the cluster and with the bytes left that belong to it. The end of a file that
  fills its clusters is not: the walk along the FAT runs off the chain and the call fails with \<open>EndOfFatChain\<close>, after the
  cursor was already moved.
\<close>

theorem seek_linked_file:
  assumes R: "reliable_device P sector capacity dev_ok" and F: "chained_file P sector capacity dev_ok ly cls f s"
    and m: "is_mounted s" and cur: "cur \<le> valid_data_length (details f)" and ch: "chain f = StoredFat first lst n"
    and n32: "length cls < 2 ^ 32"
  shows "(unat cur < length cls * unat (fsd_cluster_length (fs_details s)) \<longrightarrow>
      (\<exists>f' s'. file_seek P cur (f, s) = (Ok (), f', s') \<and> cursor f' = cur \<and> details f' = details f \<and>
        open_options f' = open_options f \<and> chained_file P sector capacity dev_ok ly cls f' s' \<and>
        only_looked P sector capacity dev_ok ly s s')) \<and>
    (unat cur = length cls * unat (fsd_cluster_length (fs_details s)) \<and> start_of_fat_sector (fs_fat s) = Some off \<and>
        ly (fat_sector_of P off (last cls)) = FatRegion \<and> unat (fat_sector_of P off (last cls)) < capacity (fs_dev s) \<and>
        decode_entry (fat_entry_at P off (medium sector ly s) (last cls)) = None \<longrightarrow>
      (\<exists>s'. file_seek P cur (f, s) = (Err EndOfFatChain, f\<lparr>cursor := cur\<rparr>, s') \<and>
        only_looked P sector capacity dev_ok ly s s'))"
  using reliable_device.seek_linked_ok [OF R F m cur ch less_mult_imp_div_less n32]
    reliable_device.seek_linked_end [OF R F m cur ch _ n32] by blast

text \<open>A file of one cluster, read over the cluster of the directory \<open>d\<close>.\<close>

definition ex_linked_file :: open_file where
  "ex_linked_file = \<lparr>details = \<lparr>first_cluster = 3, data_length = 256, valid_data_length = 256, attributes = Archive,
     fd_location = \<lparr>sector_id = 3, dir_entry_offset = 0\<rparr>, flags = 1, fd_secondary_count = 2, fd_created = encoded_timestamp_default,
     fd_modified = encoded_timestamp_default, fd_accessed = encoded_timestamp_default\<rparr>,
     current_cluster = 3, remaining_bytes_in_cluster = 256, cursor = 0, open_options = read_options,
     chain = StoredFat 3 3 1, touched = file_dirty_new\<rparr>"

lemma ex_linked: "chained_file ex_dir_platform (dummy_sector 64) dummy_capacity (dummy_ok 64) ex_layout [3] ex_linked_file ex_volume"
proof -
  have sec: "ex_layout (dir_sector (fs_details ex_volume) [3] q) = DataRegion" "unat (dir_sector (fs_details ex_volume) [3] q) < 19"
    if "q < 4" for q
    using ex_dir_sector [OF that, of 3] that by (auto simp: ex_layout_def word_unat_eq_iff)
  then show ?thesis using ex_dir_volume_ok
    by (simp add: chained_file_def geometry_ok_def clusters_placed_def chain_of_def clusters_linked_def chain_cursor_def ex_linked_file_def
        fat_sizes_ok_def ENTRY_SIZE_def ex_dir_platform_def)
qed

lemma ex_linked_bytes:
  "take 3 (stored_bytes ex_dir_platform (dummy_sector 64) ex_layout ex_volume [3] (details ex_linked_file)) = [133, 2, 0]"
  "drop 253 (stored_bytes ex_dir_platform (dummy_sector 64) ex_layout ex_volume [3] (details ex_linked_file)) = [0, 0, 0]"
  unfolding stored_bytes_def ex_medium by code_simp+

lemma ex_linked_simps [simp]:
  "opt_read (open_options ex_linked_file)" "cursor ex_linked_file = 0" "data_length (details ex_linked_file) = 256"
  "usize_bits ex_dir_platform = 64"
  by (simp_all add: ex_linked_file_def read_options_def options_read_def open_options_new_def ex_dir_platform_def)

theorem file_read_content_witness:
  "\<exists>f' s'. file_read ex_dir_platform [7, 7, 7] (ex_linked_file, ex_volume) = (Ok (Some 3, [133, 2, 0]), f', s') \<and> unat (cursor f') = 3 \<and>
    \<not> opt_write (open_options ex_linked_file)"
proof -
  have "\<not> opt_write (open_options ex_linked_file)"
    by (simp add: ex_linked_file_def read_options_def options_read_def open_options_new_def)
  then show ?thesis
    using file_read_content [OF ex_dir_reliable ex_linked, of "[7, 7, 7]" 3] ex_linked_bytes(1) by auto
qed

theorem read_to_end_content_witness:
  "\<exists>bs f' s'. read_to_end ex_dir_platform [] (ex_linked_file, ex_volume) = (Ok (bs, 256), f', s') \<and>
    take 3 bs = [133, 2, 0] \<and> drop 253 bs = [0, 0, 0]"
  using read_to_end_content [OF ex_dir_reliable ex_dir_volume_ok, of ex_linked_file "[3]" "[]"] ex_linked ex_linked_bytes by auto

theorem seek_linked_file_witness:
  "(\<exists>f' s'. file_seek ex_dir_platform 100 (ex_linked_file, ex_volume) = (Ok (), f', s') \<and> cursor f' = 100) \<and>
   (\<exists>s'. file_seek ex_dir_platform 256 (ex_linked_file, ex_volume) = (Err EndOfFatChain, ex_linked_file\<lparr>cursor := 256\<rparr>, s'))"
proof -
  have f: "valid_data_length (details ex_linked_file) = 256" "chain ex_linked_file = StoredFat 3 3 1"
    by (simp_all add: ex_linked_file_def)
  have "fat_sector_of ex_dir_platform 1 3 = 1" by (simp add: fat_sector_of_def)
  then show ?thesis
    using seek_linked_file [OF ex_dir_reliable ex_linked _ _ f(2), of 100 1] seek_linked_file [OF ex_dir_reliable ex_linked _ _ f(2), of 256 1]
      ex_fat_entries(2) by (auto simp: f ex_medium ex_layout_def)
qed

section \<open>Appending\<close>

text \<open>
  C31: appending to a file of consecutive clusters that fills them. \<open>open\<close> with the append option puts the cursor behind the
  last byte, but gives the file its last cluster with a whole cluster left in it; so when less than a sector is written,
  and there is a free cluster behind the file to take, \<open>write\<close> reports success and the file gets longer, but the bytes
  overwrite the start of the cluster that was the last one, and where they belong the medium keeps its old bytes.
\<close>

theorem append_overwrites_last_cluster:
  assumes "reliable_device P sector capacity dev_ok" and "volume_tree P sector capacity dev_ok ly fuel cls s dirs"
    and "volume_ready P sector capacity dev_ok s" and "bitmap_in_front ly (bitmap (fs_allocator s))"
    and "found_at s dirs (Some Archive) path = Inr (Some d)" and "full_file P sector s d"
    and "opt_append opts" and "opt_write opts" and "\<not> opt_create_new opts" and "\<not> opt_truncate opts"
    and "buf \<noteq> []" and "length buf < SIZE P" and "unat (data_length d) + length buf < 2 ^ usize_bits P"
  shows "\<exists>f s1 f' s'. fs_open P fuel path opts s = (Ok f, s1) \<and> cursor f = data_length d \<and>
    file_write P buf (f, s1) = (Ok (), f', s') \<and> unat (data_length (details f')) = unat (data_length d) + length buf \<and>
    (\<forall>j < length buf.
      raw_byte P (cview sector (data_blocks s', fs_dev s')) (fs_details s) (first_cluster d)
        (unat (data_length d) - unat (fsd_cluster_length (fs_details s)) + j) = buf ! j \<and>
      raw_byte P (cview sector (data_blocks s', fs_dev s')) (fs_details s) (first_cluster d) (unat (data_length d) + j) =
      raw_byte P (cview sector (data_blocks s1, fs_dev s1)) (fs_details s) (first_cluster d) (unat (data_length d) + j))"
proof -
  note T = volume_treeD(1,2,4) [OF assms(2)]
  obtain f s1 where o: "fs_open P fuel path opts s = (Ok f, s1)" and l: "only_looked P sector capacity dev_ok ly s s1"
    and f: "details f = d" "open_options f = opts" "cursor f = data_length d"
      "chain f = StoredContiguous (first_cluster d) (run_count (fs_details s) d)"
      "current_cluster f = first_cluster d + run_count (fs_details s) d - 1"
      "remaining_bytes_in_cluster f = fsd_cluster_length (fs_details s)"
    by (rule reliable_device.open_append_ok [OF assms(1) T assms(5,7,9,10,6)]) (rule that; assumption)
  note V = reliable_device.volume_ready_looked [OF assms(1,3,4) l]
  have st: "fs_details s1 = fs_details s" "bitmap (fs_allocator s1) = bitmap (fs_allocator s)"
    using l by (simp_all add: only_looked_def same_setup_def)
  have "full_file P sector s1 d" using assms(6) V(2) full_fileD(7,9) [OF assms(6)] by (simp add: full_file_def Let_def st)
  then obtain f' s' where w: "file_write P buf (f, s1) = (Ok (), f', s')"
    "unat (data_length (details f')) = unat (data_length d) + length buf"
    and b: "\<And>j. j < length buf \<Longrightarrow> raw_byte P (cview sector (data_blocks s', fs_dev s')) (fs_details s) (first_cluster d)
        (unat (data_length d) - unat (fsd_cluster_length (fs_details s)) + j) = buf ! j"
      "\<And>j. j < length buf \<Longrightarrow> raw_byte P (cview sector (data_blocks s', fs_dev s')) (fs_details s) (first_cluster d) (unat (data_length d) + j) =
        raw_byte P (cview sector (data_blocks s1, fs_dev s1)) (fs_details s) (first_cluster d) (unat (data_length d) + j)"
    using reliable_device.append_misplaced [OF assms(1) V(1), of d f buf] f assms(8,11-13) unfolding st by metis
  then show ?thesis using o f(3) by blast
qed

lemma ex_volume_ready:
  "volume_ready ex_dir_platform (dummy_sector 64) dummy_capacity (dummy_ok 64) ex_volume"
  "bitmap_in_front ex_layout (bitmap (fs_allocator ex_volume))"
proof -
  let ?bm = "bitmap (fs_allocator ex_volume)"
  have lim: "bitmap_limit ?bm = 3" "bitmap_end ?bm = 6" by (simp_all add: bitmap_limit_def bitmap_end_def)
  have bm: "bitmap_ok ex_dir_platform (dummy_capacity (fs_dev ex_volume)) ?bm" "bitmap_region ex_layout ?bm"
    by (auto simp: bitmap_ok_def alloc_sizes_ok_def cps_def bitmap_region_def in_bitmap_def ex_layout_def word_unat_eq_iff)
  have "3 \<le> unat u" if "u \<noteq> 0" "u \<noteq> 1" "u \<noteq> 2" for u :: u32
  proof -
    have "unat u \<noteq> 0" "unat u \<noteq> 1" "unat u \<noteq> 2" using that by (simp_all add: word_unat_eq_iff)
    then show ?thesis by linarith
  qed
  then show "bitmap_in_front ex_layout ?bm" using bm(2) unfolding bitmap_in_front_def lim by (auto simp: ex_layout_def)
  have "cache_ready 64 (dummy_sector 64) dummy_capacity (dummy_ok 64) (slot_cache_new 64 2, fs_dev ex_volume)"
    using ex_dir_volume_ok by (simp add: volume_ok_def)
  moreover have "next_search_cluster (fs_allocator ex_volume) = 2" "usize_bits ex_dir_platform = 64"
    by (simp_all add: ex_volume_def ex_dir_platform_def)
  moreover have "held_below 3 (slot_cache_new 64 2)" "held_from 3 (slot_cache_new 64 2)"
    by (simp_all add: held_below_def held_from_def)
  ultimately show "volume_ready ex_dir_platform (dummy_sector 64) dummy_capacity (dummy_ok 64) ex_volume"
    using bm(1) unfolding volume_ready_def Let_def lim by (simp add: geometry_ok_def cluster_start_def)
qed

lemma ex_free:
  "map (volume_allocated ex_dir_platform (dummy_sector 64) ex_layout ex_volume) [2, 3, 4, 5] = [True, True, True, False]"
  unfolding volume_allocated_def ex_medium by code_simp

lemma ex_full:
  assumes "first_cluster d = 4" and "data_length d = 256" and "valid_data_length d = 256" and "flags d = 3"
  shows "full_file ex_dir_platform (dummy_sector 64) ex_volume d" and "run_count (fs_details ex_volume) d = 1"
proof -
  have cnt: "ucast (div_ceil (256 :: u64) (ucast (256 :: u32))) = (1 :: u32)" by code_simp
  have nf: "contains (3 :: u8) NoFatChain" "(4 :: u32) \<noteq> NO_CLUSTER_ID" by code_simp+
  show n: "run_count (fs_details ex_volume) d = 1" using assms cnt nf by (simp add: run_count_def)
  have "bitmap_ok ex_dir_platform (dummy_capacity (fs_dev ex_volume)) (bitmap (fs_allocator ex_volume))"
    "bitmap_region ex_layout (bitmap (fs_allocator ex_volume))"
    using ex_volume_ready by (simp_all add: volume_ready_def Let_def bitmap_in_front_def)
  from reliable_device.cluster_free_volume [OF ex_dir_reliable this, of 5]
  have "cluster_free ex_dir_platform (dummy_sector 64) ex_volume 5" using ex_free by (simp add: bitmap_end_def)
  then show "full_file ex_dir_platform (dummy_sector 64) ex_volume d"
    using assms n nf by (simp add: full_file_def Let_def one_run_file_def bitmap_end_def bitmap_limit_def cluster_start_def)
qed

theorem append_overwrites_last_cluster_witness:
  "\<exists>f s1 f' s'. fs_open ex_dir_platform 9 (rstr_of ''D/A'') (options_write True (options_append True open_options_new)) ex_volume = (Ok f, s1) \<and>
    file_write ex_dir_platform [1, 2] (f, s1) = (Ok (), f', s') \<and> unat (data_length (details f')) = 258 \<and>
    raw_byte ex_dir_platform (cview (dummy_sector 64) (data_blocks s', fs_dev s')) (fs_details ex_volume) 4 0 = 1"
proof -
  obtain d a where da: "ex_dirs 2 = Some [d]" "ex_says d = ([100], Directory, 3, 256, 3, True)"
    "ex_dirs 3 = Some [a]" "ex_says a = ([97], Archive, 4, 256, 3, True)" by (rule ex_dirsE)
  let ?d = "es_details a" let ?o = "options_write True (options_append True open_options_new)"
  have v: "valid_data_length ?d = 256" using ex_valid da(3) by simp
  have f: "found_at ex_volume ex_dirs (Some Archive) (rstr_of ''D/A'') = Inr (Some ?d)"
    using da ex_names by (simp add: ex_paths matches_def ex_says_def)
  have F: "full_file ex_dir_platform (dummy_sector 64) ex_volume ?d" using da(4) v by (intro ex_full) (simp_all add: ex_says_def)
  have o: "opt_append ?o" "opt_write ?o" "\<not> opt_create_new ?o" "\<not> opt_truncate ?o"
    by (simp_all add: options_write_def options_append_def open_options_new_def)
  have b: "[1, 2] \<noteq> ([] :: u8 list)" "length [1, 2 :: u8] < SIZE ex_dir_platform"
    "unat (data_length ?d) + length [1, 2 :: u8] < 2 ^ usize_bits ex_dir_platform" "first_cluster ?d = 4" "data_length ?d = 256"
    using da(4) by (simp_all add: ex_says_def)
  from append_overwrites_last_cluster [OF ex_dir_reliable ex_volume_tree ex_volume_ready f F o b(1-3)] show ?thesis
    unfolding b(4,5) by (fastforce dest: spec [of _ 0])
qed

section \<open>Making a directory\<close>

text \<open>
  The last part \<open>nm\<close> of the path names no directory in the existing directory \<open>c\<close>, which has room for an entry set, and
  there is a cluster to be had.
\<close>

definition new_directory_at :: "('d, 'e) platform \<Rightarrow> ('d \<Rightarrow> u32 \<Rightarrow> block) \<Rightarrow> ('d \<Rightarrow> nat) \<Rightarrow> layout \<Rightarrow> nat \<Rightarrow> (u32 \<Rightarrow> u32 list) \<Rightarrow>
    'd file_system \<Rightarrow> (u32 \<Rightarrow> entry_set list option) \<Rightarrow> rstr \<Rightarrow> u32 \<Rightarrow> rstr \<Rightarrow> bool" where
  "new_directory_at P sector capacity ly fuel cls s dirs path c nm \<longleftrightarrow>
     (\<exists>ps. path_to_iter path = ps @ [nm] \<and>
        resolve_dir dirs (fs_upcase s) ps (fsd_first_cluster_of_root_dir (fs_details s)) = Some c) \<and>
     name_error nm = None \<and> length (encode_utf16 nm) \<le> 255 \<and>
     find (matches (fs_upcase s) nm (Some Directory)) (the (dirs c)) = None \<and>
     (\<exists>k. gap_at (dir_items P (fs_details s) (cls c) (medium sector ly s)) k (2 + name_count (length (encode_utf16 nm)))) \<and>
     room_for_directory P sector capacity ly fuel cls s dirs"

lemma create_directory_volume:
  assumes R: "reliable_device P sector capacity dev_ok" and V: "volume_tree P sector capacity dev_ok ly fuel cls s dirs"
    and N: "new_directory_at P sector capacity ly fuel cls s dirs path c nm" and c: "dirs c = Some sets"
  obtains fc d s1 s2 s' s'' where "create_directory P fuel path s = (Ok (), s')" and "sets = s1 @ s2" and "dirs fc = None"
    and "first_cluster d = fc" and "attributes d = Directory" and "data_length d = ucast (fsd_cluster_length (fs_details s))"
    and "volume_tree P sector capacity dev_ok ly fuel (cls(fc := [fc])) s' (dirs(fc \<mapsto> [], c \<mapsto> s1 @ new_set (fs_upcase s) nm d # s2))"
    and "cluster_taken P sector capacity ly (dir_sectors (fs_details s) [fc] \<union> dir_sectors (fs_details s) (cls c)) fc s s'"
    and "get_leaf_file_entry P fuel path (Some Directory) s' = (Ok (Some (stored_details d)), s'')"
proof -
  note T = volume_treeD [OF V]
  let ?root = "fsd_first_cluster_of_root_dir (fs_details s)"
  obtain ps k where n: "path_to_iter path = ps @ [nm]" "resolve_dir dirs (fs_upcase s) ps ?root = Some c"
    "name_error nm = None" "length (encode_utf16 nm) \<le> 255" "find (matches (fs_upcase s) nm (Some Directory)) sets = None"
    "gap_at (dir_items P (fs_details s) (cls c) (medium sector ly s)) k (2 + name_count (length (encode_utf16 nm)))"
    "room_for_directory P sector capacity ly fuel cls s dirs" using N c by (auto simp: new_directory_at_def)
  obtain fc d s1 s2 s' where cr: "create_directory P fuel path s = (Ok (), s')" "sets = s1 @ s2" "dirs fc = None"
    and T': "tree_at P sector capacity dev_ok ly fuel (cls(fc := [fc])) s' (dirs(fc \<mapsto> [], c \<mapsto> s1 @ new_set (fs_upcase s) nm d # s2))"
    and A': "apart (fs_details s') (cls(fc := [fc])) (dirs(fc \<mapsto> [], c \<mapsto> s1 @ new_set (fs_upcase s) nm d # s2))"
    and C: "cluster_taken P sector capacity ly (dir_sectors (fs_details s) [fc] \<union> dir_sectors (fs_details s) (cls c)) fc s s'"
    and d: "first_cluster d = fc" "attributes d = Directory" "data_length d = ucast (fsd_cluster_length (fs_details s))"
    by (rule reliable_device.create_directory_ok [OF R T n(7,1,2) c n(3-6)]) (rule that; assumption)
  let ?x = "new_set (fs_upcase s) nm d" let ?dirs = "dirs(fc \<mapsto> [], c \<mapsto> s1 @ ?x # s2)"
  have st: "fs_details s' = fs_details s" "fs_upcase s' = fs_upcase s" "is_mounted s' = is_mounted s"
    using C by (simp_all add: cluster_taken_def same_setup_def)
  have V': "volume_tree P sector capacity dev_ok ly fuel (cls(fc := [fc])) s' ?dirs" using T T' A' by (simp add: volume_tree_def st)
  have "resolve_dir ?dirs (fs_upcase s) ps ?root = Some c"
    by (rule reliable_device.resolve_dir_new [OF R T(2) _ cr(3) _ T(4) n(2)]) (use c cr(2) n(5) in simp_all)
  then have "found_at s' ?dirs (Some Directory) path = Inr (Some (stored_details d))"
    using resolve_snoc [of ?dirs "fs_upcase s" ps ?root c "Some Directory" nm] find_fresh [of "matches (fs_upcase s) nm (Some Directory)" s1 s2 ?x]
      n(1,3,5) cr(2) d(2) ex_names(10) by (simp add: st matches_def)
  from leaf_volume [OF R V' this] show thesis using that [OF cr d V' C] by (auto simp: resolved_def)
qed

text \<open>
  C21: making a directory. If the path leads to a directory already, \<open>create_directory\<close> succeeds and changes nothing. If only
  its last part, a valid name of at most 255 units, is no directory yet, the directory before it has a gap for the entry set,
  some cluster is free, and no free cluster belongs to a directory, lies off the device or has a FAT entry that leads on
  (which the code would follow), it succeeds: one free cluster is marked in the bitmap and cleared, and holds an empty
  directory from then on; an entry set for it, of the length of a cluster, stands in the directory the path leads to,
  between the sets that were there; apart from the bitmap no sector outside these two directories changes its content,
  the volume is as well-formed as before, and looking up the path as a directory finds the new one. A file of the same
  name is not noticed.
\<close>

theorem create_directory_listed:
  assumes "reliable_device P sector capacity dev_ok" and "volume_tree P sector capacity dev_ok ly fuel cls s dirs"
  shows "(resolve_dir dirs (fs_upcase s) (path_to_iter path) (fsd_first_cluster_of_root_dir (fs_details s)) \<noteq> None \<longrightarrow>
      (\<exists>s'. create_directory P fuel path s = (Ok (), s') \<and> only_looked P sector capacity dev_ok ly s s')) \<and>
    (\<forall>c nm sets. new_directory_at P sector capacity ly fuel cls s dirs path c nm \<longrightarrow> dirs c = Some sets \<longrightarrow>
      (\<exists>fc d s1 s2 s' s''. create_directory P fuel path s = (Ok (), s') \<and> sets = s1 @ s2 \<and> dirs fc = None \<and>
        first_cluster d = fc \<and> attributes d = Directory \<and> data_length d = ucast (fsd_cluster_length (fs_details s)) \<and>
        volume_tree P sector capacity dev_ok ly fuel (cls(fc := [fc])) s'
          (dirs(fc \<mapsto> [], c \<mapsto> s1 @ new_set (fs_upcase s) nm d # s2)) \<and>
        cluster_taken P sector capacity ly (dir_sectors (fs_details s) [fc] \<union> dir_sectors (fs_details s) (cls c)) fc s s' \<and>
        get_leaf_file_entry P fuel path (Some Directory) s' = (Ok (Some (stored_details d)), s'')))"
proof (intro conjI allI impI, goal_cases)
  case 1
  then show ?case
    using reliable_device.create_directory_there [OF assms(1) volume_treeD(1,2,4) [OF assms(2)], of path] by blast
next
  case (2 c nm sets)
  show ?case
    by (rule create_directory_volume [OF assms 2]) (intro exI conjI; assumption)
qed

lemma ex_make:
  "new_directory_at ex_dir_platform (dummy_sector 64) dummy_capacity ex_layout 9 ex_clusters ex_volume ex_dirs (rstr_of ''b'') 2 (rstr_of ''b'')"
proof -
  let ?fsd = "fs_details ex_volume" let ?bm = "bitmap (fs_allocator ex_volume)"
  have bm: "bitmap_ok ex_dir_platform (dummy_capacity (fs_dev ex_volume)) ?bm" "bitmap_region ex_layout ?bm" "bitmap_end ?bm = 6"
    by (auto simp: bitmap_ok_def alloc_sizes_ok_def cps_def bitmap_region_def in_bitmap_def ex_layout_def word_unat_eq_iff bitmap_end_def)
  have free: "volume_allocated ex_dir_platform (dummy_sector 64) ex_layout ex_volume k \<longleftrightarrow> k \<noteq> 5" if "2 \<le> k" "k < 6" for k
  proof -
    have "k = 2 \<or> k = 3 \<or> k = 4 \<or> k = 5" using that by arith
    then show ?thesis using ex_free by auto
  qed
  have sec: "dir_sector ?fsd [5] p \<noteq> dir_sector ?fsd [a] q" if "p < 4" "q < 4" "a = 2 \<or> a = 3" for p q a
    using ex_dir_sector [OF that(1), of 5] ex_dir_sector [OF that(2), of a] that by auto
  have "dir_sectors ?fsd [5] \<inter> dir_sectors ?fsd (ex_clusters a) = {}" if "a \<in> dom ex_dirs" for a
  proof -
    have "a = 2 \<or> a = 3" using that by (auto simp: ex_dirs_def split: if_splits)
    then show ?thesis using sec by (auto simp: dir_sectors_def ex_clusters_def)
  qed
  moreover have "heap_sector ?fsd 5 = 15" "ex_dirs 5 = None" by (simp_all add: heap_sector_def ex_dirs_def)
  moreover have "\<exists>off. start_of_fat_sector (fs_fat ex_volume) = Some off \<and> directory_at ex_dir_platform ex_layout (dummy_capacity (fs_dev ex_volume)) off
      (medium (dummy_sector 64) ex_layout ex_volume) ?fsd [5]" using ex_has_directory [of 5] unfolding has_directory_def by blast
  ultimately have fresh: "fresh_cluster ex_dir_platform (dummy_sector 64) dummy_capacity ex_layout 9 ex_clusters ex_volume ex_dirs 5"
    unfolding fresh_cluster_def by (simp add: dir_size_def)
  have five: "c = 5" if "2 \<le> unat c" "unat c < 6" "\<not> volume_allocated ex_dir_platform (dummy_sector 64) ex_layout ex_volume (unat c)" for c :: u32
    using free [OF that(1,2)] that(3) by (simp add: word_unat_eq_iff)
  have "\<exists>k \<ge> 2. k < 6 \<and> \<not> volume_allocated ex_dir_platform (dummy_sector 64) ex_layout ex_volume k"
    by (rule exI [of _ 5]) (use free in simp)
  moreover have "next_search_cluster (fs_allocator ex_volume) = 2" by (simp add: ex_volume_def)
  ultimately have room: "room_for_directory ex_dir_platform (dummy_sector 64) dummy_capacity ex_layout 9 ex_clusters ex_volume ex_dirs"
    using bm fresh five unfolding room_for_directory_def Let_def bm(3) by auto
  obtain d where d: "ex_dirs 2 = Some [d]" "ex_says d = ([100], Directory, 3, 256, 3, True)" by (rule ex_dirsE)
  have "find (matches ex_upcase (rstr_of ''b'') (Some Directory)) [d] = None" using d(2) ex_names by (simp add: matches_def ex_says_def)
  then show ?thesis
    using room d(1) ex_room(1) ex_names by (simp add: new_directory_at_def room_at_def ex_paths)
qed

theorem create_directory_listed_witness:
  "\<exists>d s' s''. create_directory ex_dir_platform 9 (rstr_of ''b'') ex_volume = (Ok (), s') \<and>
    get_leaf_file_entry ex_dir_platform 9 (rstr_of ''b'') (Some Directory) s' = (Ok (Some (stored_details d)), s'') \<and>
    attributes d = Directory"
proof -
  obtain d where d: "ex_dirs 2 = Some [d]" using ex_dirsE by metis
  from create_directory_listed [OF ex_dir_reliable ex_volume_tree] ex_make d show ?thesis by blast
qed

end
