(* ===== verification/Bisync.thy ===== *)
theory Bisync
  imports Exfat_Prelude
begin

text \<open>
  The attribute macros that make one source serve the blocking and the asynchronous variant (\<open>macros/src/lib.rs\<close>): in
  \<open>blocking\<close>, \<open>bisync\<close> strips \<open>async\<close>, \<open>async move\<close> and \<open>.await\<close> from the tokens of an item; in \<open>asynchronous\<close> it leaves the
  item alone and \<open>only_sync\<close> deletes it.
\<close>

section \<open>Tokens\<close>

text \<open>The token trees of the compiler's interface to procedural macros; spans are opaque.\<close>

datatype delimiter = Parenthesis | Brace | Bracket | NoDelimiter

datatype spacing = Joint | Alone

datatype 'p token_tree =
    Group delimiter "'p token_tree list" 'p
  | Ident string 'p
  | Punct char spacing 'p
  | Literal string 'p

type_synonym 'p token_stream = "'p token_tree list"

text \<open>
  \<open>to_string\<close>. How the compiler prints a group (blanks, delimiters) is a parameter.
\<close>

type_synonym 'p group_printer = "delimiter \<Rightarrow> 'p token_stream \<Rightarrow> string"

primrec to_string :: "'p group_printer \<Rightarrow> 'p token_tree \<Rightarrow> string" where
  "to_string pr (Group d ts sp) = pr d ts"
| "to_string pr (Ident s sp) = s"
| "to_string pr (Punct c a sp) = [c]"
| "to_string pr (Literal s sp) = s"

section \<open>The macros\<close>

definition internal_noop :: "'p token_stream \<Rightarrow> 'p token_stream \<Rightarrow> 'p token_stream" where
  "internal_noop attr item = item"

definition internal_delete :: "'p token_stream \<Rightarrow> 'p token_stream \<Rightarrow> 'p token_stream" where
  "internal_delete attr item = []"

lemma size_inner: "i < length tokens \<Longrightarrow> tokens ! i = Group d inner sp \<Longrightarrow> size_list size inner < size_list size tokens"
  using size_list_estimation' [of "tokens ! i" tokens "size_list size inner + 1" size] nth_mem [of i tokens] by simp

text \<open>The loop over the tokens, from index \<open>i\<close> on, with the tokens pushed so far.\<close>

function strip_loop :: "'p group_printer \<Rightarrow> 'p token_stream \<Rightarrow> 'p token_stream \<Rightarrow> nat \<Rightarrow> 'p token_stream \<Rightarrow> 'p token_stream" where
  "strip_loop pr attr tokens i new =
     (if i < length tokens
      then (case tokens ! i of
        Group d inner sp \<Rightarrow>
          let new_inner = strip_loop pr attr inner 0 [] in
          strip_loop pr attr tokens (i + 1) (new @ [Group d new_inner sp])
      | Ident s sp \<Rightarrow>
          if s = ''async''
          then strip_loop pr attr tokens
            ((if i + 1 < length tokens \<and> to_string pr (tokens ! (i + 1)) = ''move'' then i + 1 else i) + 1) new
          else strip_loop pr attr tokens (i + 1) (new @ [tokens ! i])
      | Punct c a sp \<Rightarrow>
          if c = CHR ''.'' \<and> i + 1 < length tokens \<and> to_string pr (tokens ! (i + 1)) = ''await''
          then strip_loop pr attr tokens (i + 2) new
          else strip_loop pr attr tokens (i + 1) (new @ [tokens ! i])
      | Literal s sp \<Rightarrow> strip_loop pr attr tokens (i + 1) (new @ [tokens ! i]))
      else new)"
  by pat_completeness auto
termination
  by (relation "(\<lambda>(pr, attr, tokens, i, new). size_list size tokens) <*mlex*> measure (\<lambda>(pr, attr, tokens, i, new). length tokens - i)")
    (auto simp: wf_mlex intro: mlex_less mlex_leq size_inner)

declare strip_loop.simps [simp del]

definition internal_strip_async :: "'p group_printer \<Rightarrow> 'p token_stream \<Rightarrow> 'p token_stream \<Rightarrow> 'p token_stream" where
  "internal_strip_async pr attr item = strip_loop pr attr item 0 []"

section \<open>What the loop computes\<close>

text \<open>The same as a recursion over the list.\<close>

function strip :: "'p group_printer \<Rightarrow> 'p token_stream \<Rightarrow> 'p token_stream" where
  "strip pr [] = []"
| "strip pr (t # ts) = (case t of
     Group d inner sp \<Rightarrow> Group d (strip pr inner) sp # strip pr ts
   | Ident s sp \<Rightarrow> if s = ''async'' then strip pr (if ts \<noteq> [] \<and> to_string pr (hd ts) = ''move'' then tl ts else ts) else t # strip pr ts
   | Punct c a sp \<Rightarrow> if c = CHR ''.'' \<and> ts \<noteq> [] \<and> to_string pr (hd ts) = ''await'' then strip pr (tl ts) else t # strip pr ts
   | Literal s sp \<Rightarrow> t # strip pr ts)"
  by pat_completeness auto
termination
proof (relation "measure (\<lambda>(pr, ts). size_list size ts)", goal_cases)
  case (4 pr t ts s sp)
  then show ?case by (cases ts) simp_all
next
  case (6 pr t ts c a sp)
  then show ?case by (cases ts) simp_all
qed auto

lemma strip_loop_eq: "strip_loop pr attr tokens i new = new @ strip pr (drop i tokens)"
proof (induction pr attr tokens i new rule: strip_loop.induct)
  case (1 pr attr tokens i new)
  show ?case
  proof (cases "i < length tokens")
    case True
    then have d: "drop i tokens = tokens ! i # drop (Suc i) tokens" by (simp add: Cons_nth_drop_Suc)
    have nxt: "(drop (Suc i) tokens \<noteq> []) = (Suc i < length tokens)" "Suc i < length tokens \<Longrightarrow> hd (drop (Suc i) tokens) = tokens ! Suc i"
      "tl (drop (Suc i) tokens) = drop (Suc (Suc i)) tokens"
      by (auto simp: hd_drop_conv_nth tl_drop drop_Suc nth_tl)
    show ?thesis
      using 1 [OF True] unfolding strip_loop.simps [of pr attr tokens i new] d using True nxt
      by (auto simp: Let_def split: token_tree.split)
  next
    case False
    then show ?thesis by (simp add: strip_loop.simps)
  qed
qed

text \<open>All tokens, those inside groups included.\<close>

fun deep :: "'p token_stream \<Rightarrow> 'p token_stream" where
  "deep [] = []"
| "deep (t # ts) = t # (case t of Group d inner sp \<Rightarrow> deep inner | _ \<Rightarrow> []) @ deep ts"

text \<open>Every \<open>await\<close> stands behind a dot, as the grammar of the language demands.\<close>

definition dot :: "'p token_tree \<Rightarrow> bool" where
  "dot t \<longleftrightarrow> (case t of Punct c a sp \<Rightarrow> c = CHR ''.'' | _ \<Rightarrow> False)"

definition is_word :: "string \<Rightarrow> 'p token_tree \<Rightarrow> bool" where
  "is_word s t \<longleftrightarrow> (case t of Ident s' sp \<Rightarrow> s' = s | _ \<Rightarrow> False)"

fun dotted :: "bool \<Rightarrow> 'p token_stream \<Rightarrow> bool" where
  "dotted after [] = True"
| "dotted after (t # ts) = ((is_word ''await'' t \<longrightarrow> after) \<and> (case t of Group d inner sp \<Rightarrow> dotted False inner | _ \<Rightarrow> True) \<and> dotted (dot t) ts)"

text \<open>The tokens that are never stripped.\<close>

primrec kept :: "'p token_tree \<Rightarrow> bool" where
  "kept (Group d ts sp) = False"
| "kept (Ident s sp) = (s \<notin> {''async'', ''move'', ''await''})"
| "kept (Punct c a sp) = (c \<noteq> CHR ''.'')"
| "kept (Literal s sp) = True"

lemma deep_tl: "set (deep (tl ts)) \<subseteq> set (deep ts)"
  by (cases ts) auto

lemma strip_no_async: "t \<in> set (deep (strip pr ts)) \<Longrightarrow> \<not> is_word ''async'' t"
  by (induction pr ts rule: strip.induct) (auto simp: is_word_def split: token_tree.splits if_splits)

lemma not_dot: "to_string pr t = ''move'' \<or> to_string pr t = ''await'' \<Longrightarrow> \<not> dot t"
  by (cases t) (auto simp: dot_def)

lemma dotted_head: "dotted True ts \<Longrightarrow> ts = [] \<or> to_string pr (hd ts) \<noteq> ''await'' \<Longrightarrow> dotted False ts"
  by (cases ts) (auto simp: is_word_def split: token_tree.splits)

lemma dotted_tl: "dotted after ts \<Longrightarrow> ts \<noteq> [] \<Longrightarrow> to_string pr (hd ts) = ''move'' \<or> to_string pr (hd ts) = ''await'' \<Longrightarrow> dotted False (tl ts)"
  using not_dot [of pr "hd ts"] by (cases ts) auto

lemma strip_no_await: "dotted False ts \<Longrightarrow> t \<in> set (deep (strip pr ts)) \<Longrightarrow> \<not> is_word ''await'' t"
proof (induction pr ts rule: strip.induct)
  case (2 pr u ts)
  show ?case
  proof (cases u)
    case (Group d inner sp)
    then show ?thesis using 2 by (auto simp: is_word_def dot_def)
  next
    case (Ident s sp)
    then show ?thesis using 2 dotted_tl [of False ts pr] by (auto simp: is_word_def dot_def split: if_splits)
  next
    case (Punct c a sp)
    then show ?thesis using 2 dotted_tl [of True ts pr] dotted_head [of ts pr]
      by (cases "c = CHR ''.''") (auto simp: is_word_def dot_def split: if_splits)
  next
    case (Literal s sp)
    then show ?thesis using 2 by (auto simp: is_word_def dot_def)
  qed
qed simp

lemma strip_same:
  "\<forall>t \<in> set (deep ts). \<not> is_word ''async'' t \<and> to_string pr t \<noteq> ''await'' \<Longrightarrow> strip pr ts = ts"
proof (induction pr ts rule: strip.induct)
  case (2 pr t ts)
  then show ?case by (cases ts; cases t) (auto simp: is_word_def)
qed simp

lemma strip_keeps:
  "\<forall>t \<in> set (deep ts). to_string pr t \<in> {''move'', ''await''} \<longrightarrow> is_word (to_string pr t) t \<Longrightarrow>
    filter kept (deep (strip pr ts)) = filter kept (deep ts)"
proof (induction pr ts rule: strip.induct)
  case (2 pr u ts)
  have skip: "filter kept (deep (tl ts)) = filter kept (deep ts)" if ne: "ts \<noteq> []" and hd: "to_string pr (hd ts) \<in> {''move'', ''await''}"
  proof -
    obtain v vs where v: "ts = v # vs" using ne by (cases ts) auto
    then have "is_word (to_string pr v) v" using hd 2(8) by (elim ballE [of _ _ v]) simp_all
    then show ?thesis using hd v by (cases v) (auto simp: is_word_def)
  qed
  have tl: "\<forall>t \<in> set (deep (tl ts)). to_string pr t \<in> {''move'', ''await''} \<longrightarrow> is_word (to_string pr t) t"
    using 2(8) deep_tl [of ts] by auto
  have rest: "\<forall>t \<in> set (deep ts). to_string pr t \<in> {''move'', ''await''} \<longrightarrow> is_word (to_string pr t) t" using 2(8) by simp
  show ?case
  proof (cases u)
    case (Group d inner sp)
    then have "\<forall>t \<in> set (deep inner). to_string pr t \<in> {''move'', ''await''} \<longrightarrow> is_word (to_string pr t) t" using 2(8) by simp
    then show ?thesis using 2(1,2) [OF Group] rest Group by simp
  next
    case (Ident s sp)
    then show ?thesis using 2(3,4) [OF Ident] rest tl skip by simp
  next
    case (Punct c a sp)
    then show ?thesis using 2(5,6) [OF Punct] rest tl skip by simp
  next
    case (Literal s sp)
    then show ?thesis using 2(7) [OF Literal] rest by simp
  qed
qed simp

section \<open>Correctness\<close>

text \<open>
  C39: the stripping macro. In the blocking variant of an item no \<open>async\<close> is left at any depth, and no \<open>await\<close> either if
  each one stood behind a dot; an item with neither is unchanged; and all that is taken away are the words \<open>async\<close>, \<open>move\<close>,
  \<open>await\<close> and dots: every other token is kept, in order, provided a group or literal never prints as one of these words. The
  two other macros keep the whole item and nothing of it.
\<close>

theorem strip_async_correct:
  "let item' = internal_strip_async pr attr item in
    (\<forall>t \<in> set (deep item'). \<not> is_word ''async'' t) \<and>
    (dotted False item \<longrightarrow> (\<forall>t \<in> set (deep item'). \<not> is_word ''await'' t)) \<and>
    ((\<forall>t \<in> set (deep item). \<not> is_word ''async'' t \<and> to_string pr t \<noteq> ''await'') \<longrightarrow> item' = item) \<and>
    ((\<forall>t \<in> set (deep item). to_string pr t \<in> {''move'', ''await''} \<longrightarrow> is_word (to_string pr t) t) \<longrightarrow>
      filter kept (deep item') = filter kept (deep item)) \<and>
    internal_noop attr item = item \<and> internal_delete attr item = []"
proof -
  have "internal_strip_async pr attr item = strip pr item" by (simp add: internal_strip_async_def strip_loop_eq)
  then show ?thesis
    using strip_no_async [of _ pr item] strip_no_await [of item _ pr] strip_same [of item pr] strip_keeps [of item pr]
    by (simp add: Let_def internal_noop_def internal_delete_def)
qed

text \<open>\<open>async fn f() { g().await; }\<close>\<close>

definition ex_item :: "unit token_stream" where
  "ex_item = [Ident ''async'' (), Ident ''fn'' (), Ident ''f'' (), Group Parenthesis [] (),
     Group Brace [Ident ''g'' (), Group Parenthesis [] (), Punct CHR ''.'' Alone (), Ident ''await'' (), Punct CHR '';'' Alone ()] ()]"

definition ex_printer :: "unit group_printer" where
  "ex_printer d ts = ''()''"

theorem strip_async_correct_witness:
  "list_all (\<lambda>t. \<not> is_word ''await'' t) (deep (internal_strip_async ex_printer [] ex_item)) \<and>
   filter kept (deep (internal_strip_async ex_printer [] ex_item)) = [Ident ''fn'' (), Ident ''f'' (), Ident ''g'' (), Punct CHR '';'' Alone ()]"
proof -
  have "dotted False ex_item"
    "list_all (\<lambda>t. to_string ex_printer t \<in> {''move'', ''await''} \<longrightarrow> is_word (to_string ex_printer t) t) (deep ex_item)"
    "filter kept (deep ex_item) = [Ident ''fn'' (), Ident ''f'' (), Ident ''g'' (), Punct CHR '';'' Alone ()]" by code_simp+
  then show ?thesis using strip_async_correct [of ex_printer "[]" ex_item] by (simp add: Let_def list_all_iff)
qed

end
