(* ===== verification/Example_Devices.thy ===== *)
theory Example_Devices
  imports Directory Handles
begin

text \<open>
  The devices the repository itself runs the file system on, besides the one of the tests: the disk image in memory of the
  examples (\<open>examples/common/blocking.rs\<close>) and the SD card of the demo (\<open>demos/embassy-demo/src/sdmmc_fs.rs\<close>). Both are
  reliable devices, so every property of the file system holds on them.
\<close>

section \<open>The image in memory\<close>

definition BLOCK_SIZE :: nat where
  "BLOCK_SIZE = 512"

text \<open>\<open>Inner\<close>; the lock around it is never contended here. The trace output of \<open>print\<close> is left out.\<close>

record inner =
  image :: "u8 list"
  sector_offset :: u32
  data_block :: block
  last_sector :: "u32 option"

text \<open>The number as \<open>format!\<close> prints it.\<close>

fun decimal :: "nat \<Rightarrow> string" where
  "decimal n = (if n < 10 then [char_of (48 + n)] else decimal (n div 10) @ [char_of (48 + n mod 10)])"

declare decimal.simps [simp del]

definition inner_read_sector :: "inner \<Rightarrow> u32 \<Rightarrow> block \<Rightarrow> (unit, string) outcome \<times> block \<times> inner" where
  "inner_read_sector g lba b =
     (let with_offset = lba + sector_offset g;
          g' = (if last_sector g = Some with_offset then g else g\<lparr>last_sector := Some with_offset\<rparr>);
          pos = unat with_offset * BLOCK_SIZE in
      if pos + BLOCK_SIZE \<le> length (image g') \<and> length b = BLOCK_SIZE
      then (Ok (), take BLOCK_SIZE (drop pos (image g')), g')
      else (Panic, b, g'))"

definition inner_write_sector :: "inner \<Rightarrow> u32 \<Rightarrow> block \<Rightarrow> (unit, string) outcome \<times> inner" where
  "inner_write_sector g lba b =
     (let with_offset = lba + sector_offset g;
          start = unat with_offset * BLOCK_SIZE;
          stop = start + BLOCK_SIZE; max_len = length (image g) in
      if stop \<le> max_len
      then (if length b = BLOCK_SIZE
            then (Ok (), g\<lparr>image := take start (image g) @ b @ drop stop (image g), last_sector := None\<rparr>)
            else (Panic, g))
      else (Err (''attempt to write past end of image of len '' @ decimal max_len @ '': '' @ decimal stop), g))"

definition image_platform :: "(inner, string) platform" where
  "image_platform = \<lparr>SIZE = BLOCK_SIZE, usize_bits = 64, bd_read = inner_read_sector, bd_write = inner_write_sector\<rparr>"

text \<open>The sectors of the image and how many there are; the image has no more than a sector number can address.\<close>

definition image_sector :: "inner \<Rightarrow> u32 \<Rightarrow> block" where
  "image_sector g s = (let pos = unat (s + sector_offset g) * BLOCK_SIZE in
     if pos + BLOCK_SIZE \<le> length (image g) then take BLOCK_SIZE (drop pos (image g)) else replicate BLOCK_SIZE 0)"

definition image_capacity :: "inner \<Rightarrow> nat" where
  "image_capacity g = length (image g) div BLOCK_SIZE - unat (sector_offset g)"

definition image_ok :: "inner \<Rightarrow> bool" where
  "image_ok g \<longleftrightarrow> length (image g) div BLOCK_SIZE \<le> 2 ^ 32"

lemma image_within:
  assumes "image_ok g" and "unat s < image_capacity g"
  shows "unat (s + sector_offset g) * BLOCK_SIZE + BLOCK_SIZE \<le> length (image g)"
proof -
  have lt: "unat s + unat (sector_offset g) < length (image g) div BLOCK_SIZE" using assms(2) by (simp add: image_capacity_def)
  also have "\<dots> \<le> 2 ^ 32" using assms(1) by (simp add: image_ok_def)
  finally have "unat (s + sector_offset g) = unat s + unat (sector_offset g)" by (simp add: unat_word_ariths)
  then have "Suc (unat (s + sector_offset g)) * BLOCK_SIZE \<le> length (image g) div BLOCK_SIZE * BLOCK_SIZE"
    using lt by (intro mult_le_mono1) simp
  also have "\<dots> \<le> length (image g)" by (rule div_times_less_eq_dividend)
  finally show ?thesis by simp
qed

text \<open>Replacing one aligned block leaves the others.\<close>

lemma aligned_block:
  assumes "length b = n" and "j * n + n \<le> length xs" and "i \<noteq> j"
  shows "take n (drop (i * n) (take (j * n) xs @ b @ drop (j * n + n) xs)) = take n (drop (i * n) xs)"
proof -
  have "i * n + n \<le> j * n \<or> j * n + n \<le> i * n"
  proof (cases "i < j")
    case True
    then have "Suc i * n \<le> j * n" by (intro mult_le_mono1) simp
    then show ?thesis by simp
  next
    case False
    then have "Suc j * n \<le> i * n" using assms(3) by (intro mult_le_mono1) simp
    then show ?thesis by simp
  qed
  then show ?thesis
  proof
    assume "i * n + n \<le> j * n"
    moreover from this have "n - (j * n - i * n) = 0" "n - (length xs - i * n) = 0" "i * n - j * n = 0" using assms(2) by linarith+
    ultimately show ?thesis using assms by (simp add: drop_take min_absorb1)
  next
    assume "j * n + n \<le> i * n"
    moreover from this have "j * n - i * n = 0" by linarith
    ultimately show ?thesis using assms by (simp add: drop_take)
  qed
qed

interpretation image_device: reliable_device image_platform image_sector image_capacity image_ok
proof (unfold_locales, goal_cases)
  case (1 d s)
  then show ?case by (simp add: image_sector_def image_platform_def Let_def)
next
  case (2 d s b r b' d')
  then show ?case
    by (auto simp: image_platform_def inner_read_sector_def image_ok_def image_capacity_def image_sector_def Let_def split: if_splits)
next
  case (3 d s b b' d')
  then show ?case by (auto simp: image_platform_def inner_read_sector_def image_sector_def Let_def split: if_splits)
next
  case (4 d b s r d')
  have "t + sector_offset d \<noteq> s + sector_offset d" if "t \<noteq> s" for t using that by simp
  then have "unat (t + sector_offset d) \<noteq> unat (s + sector_offset d)" if "t \<noteq> s" for t using that by (simp only: word_unat_eq_iff [symmetric]) simp
  then show ?case using 4
    by (auto simp: image_platform_def inner_write_sector_def image_ok_def image_capacity_def image_sector_def Let_def aligned_block
        simp del: take_append drop_append split: if_splits)
next
  case (5 d b s d')
  then show ?case by (auto simp: image_platform_def inner_write_sector_def image_sector_def Let_def split: if_splits)
next
  case (6 d s b)
  then show ?case using image_within [of d s] by (simp add: image_platform_def inner_read_sector_def Let_def)
next
  case (7 d s b)
  then show ?case using image_within [of d s] by (simp add: image_platform_def inner_write_sector_def Let_def)
qed

section \<open>The SD card\<close>

text \<open>
  The driver of the card and the parser of the master boot record are crates of their own, so they are parameters: reading
  and writing sectors of the card is a platform, \<open>sd_reacquire\<close> is \<open>StorageDevice::reacquire\<close>, \<open>sd_read_block\<close> its \<open>read_block\<close>,
  and \<open>mbr_first\<close> the address of the first entry of the partition table in a sector, if it has one. Of the errors of the
  driver the source names eight.
\<close>

datatype sdmmc_error =
    SdBadClock | SdCrc | SdNoCard | SdSignalingSwitchFailed | SdSoftwareTimeout | SdTimeout | SdUnsupportedCardType
  | SdUnsupportedCardVersion | SdOther nat

datatype sd_error = SdIo sdmmc_error | SdExfat fs_error

record 's sd_card =
  sd_io :: "('s, sdmmc_error) platform"
  sd_reacquire :: "'s \<Rightarrow> (unit, sdmmc_error) outcome \<times> 's"
  sd_read_block :: "'s \<Rightarrow> u32 \<Rightarrow> (block, sdmmc_error) outcome \<times> 's"
  mbr_first :: "block \<Rightarrow> u32 option"

record 's sd_block_device =
  storage :: 's
  sd_offset :: u32
  is_init :: bool

definition sd_new :: "'s \<Rightarrow> 's sd_block_device" where
  "sd_new st = \<lparr>storage = st, sd_offset = 0, is_init = False\<rparr>"

definition on_storage :: "('s, 'a, 'x) op \<Rightarrow> ('s sd_block_device, 'a, 'x) op" where
  "on_storage = zoom storage (\<lambda>st d. d\<lparr>storage := st\<rparr>)"

definition read_mbr :: "'s sd_card \<Rightarrow> ('s sd_block_device, u32, sd_error) op" where
  "read_mbr C =
     andthen (map_err SdIo (on_storage (\<lambda>st. sd_read_block C st 0))) (\<lambda>data_block.
     case mbr_first C data_block of None \<Rightarrow> panic | Some offset \<Rightarrow> ret offset)"

definition sd_init :: "'s sd_card \<Rightarrow> ('s sd_block_device, unit, sd_error) op" where
  "sd_init C =
     andthen (gets is_init) (\<lambda>initialised.
     if initialised then ret ()
     else andthen (map_err SdIo (on_storage (sd_reacquire C))) (\<lambda>_.
     andthen (read_mbr C) (\<lambda>offset.
     modify (\<lambda>d. d\<lparr>sd_offset := offset, is_init := True\<rparr>))))"

text \<open>After an error that means the card is gone, the next access starts over.\<close>

definition card_lost :: "sdmmc_error \<Rightarrow> bool" where
  "card_lost e \<longleftrightarrow> e = SdNoCard \<or> e = SdTimeout"

definition sd_result :: "(unit, sdmmc_error) outcome \<Rightarrow> 's sd_block_device \<Rightarrow> (unit, sd_error) outcome \<times> 's sd_block_device" where
  "sd_result r d = (case r of
     Ok u \<Rightarrow> (Ok u, d)
   | Err e \<Rightarrow> (Err (SdIo e), if card_lost e then d\<lparr>is_init := False\<rparr> else d)
   | Panic \<Rightarrow> (Panic, d)
   | OutOfFuel \<Rightarrow> (OutOfFuel, d))"

definition sd_read :: "'s sd_card \<Rightarrow> 's sd_block_device \<Rightarrow> u32 \<Rightarrow> block \<Rightarrow> (unit, sd_error) outcome \<times> block \<times> 's sd_block_device" where
  "sd_read C d lba b = (case sd_init C d of
     (Ok _, d1) \<Rightarrow>
       let block_idx = sd_offset d1 + lba;
           (r, b', st') = bd_read (sd_io C) (storage d1) block_idx b;
           (r', d') = sd_result r (d1\<lparr>storage := st'\<rparr>) in (r', b', d')
   | (Err e, d1) \<Rightarrow> (Err e, b, d1)
   | (Panic, d1) \<Rightarrow> (Panic, b, d1)
   | (OutOfFuel, d1) \<Rightarrow> (OutOfFuel, b, d1))"

definition sd_write :: "'s sd_card \<Rightarrow> 's sd_block_device \<Rightarrow> u32 \<Rightarrow> block \<Rightarrow> (unit, sd_error) outcome \<times> 's sd_block_device" where
  "sd_write C d lba b = (case sd_init C d of
     (Ok _, d1) \<Rightarrow>
       let block_idx = sd_offset d1 + lba in
       if block_idx = 0 then (Panic, d1)
       else (case bd_write (sd_io C) (storage d1) block_idx b of (r, st') \<Rightarrow> sd_result r (d1\<lparr>storage := st'\<rparr>))
   | (Err e, d1) \<Rightarrow> (Err e, d1)
   | (Panic, d1) \<Rightarrow> (Panic, d1)
   | (OutOfFuel, d1) \<Rightarrow> (OutOfFuel, d1))"

definition sd_platform :: "'s sd_card \<Rightarrow> ('s sd_block_device, sd_error) platform" where
  "sd_platform C = \<lparr>SIZE = SIZE (sd_io C), usize_bits = usize_bits (sd_io C), bd_read = sd_read C, bd_write = sd_write C\<rparr>"

text \<open>\<open>impl BlockDeviceError for Error\<close>\<close>

definition sd_errors :: "sd_error device_error" where
  "sd_errors = \<lparr>to_error_code = (\<lambda>e. case e of
       SdIo SdBadClock \<Rightarrow> 1 | SdIo SdCrc \<Rightarrow> 2 | SdIo SdNoCard \<Rightarrow> 3 | SdIo SdSignalingSwitchFailed \<Rightarrow> 4 | SdIo SdSoftwareTimeout \<Rightarrow> 5
     | SdIo SdTimeout \<Rightarrow> 6 | SdIo SdUnsupportedCardType \<Rightarrow> 7 | SdIo SdUnsupportedCardVersion \<Rightarrow> 8 | _ \<Rightarrow> 0),
     no_card = (\<lambda>e. e = SdIo SdNoCard \<or> e = SdIo SdTimeout)\<rparr>"

text \<open>
  What is relied on of the card: acquiring it and reading a block leave its sectors alone, and reading a block delivers it.
  The first partition begins at \<open>off\<close>, behind the master boot record.
\<close>

definition card_ok :: "'s sd_card \<Rightarrow> ('s \<Rightarrow> u32 \<Rightarrow> block) \<Rightarrow> ('s \<Rightarrow> nat) \<Rightarrow> ('s \<Rightarrow> bool) \<Rightarrow> bool" where
  "card_ok C sector capacity dev_ok \<longleftrightarrow>
     (\<forall>st. dev_ok st \<longrightarrow> (\<exists>st'. sd_reacquire C st = (Ok (), st') \<and> dev_ok st' \<and> capacity st' = capacity st \<and> sector st' = sector st)) \<and>
     (\<forall>st u. dev_ok st \<longrightarrow> unat u < capacity st \<longrightarrow>
        (\<exists>st'. sd_read_block C st u = (Ok (sector st u), st') \<and> dev_ok st' \<and> capacity st' = capacity st \<and> sector st' = sector st))"

definition partition_sector :: "u32 \<Rightarrow> ('s \<Rightarrow> u32 \<Rightarrow> block) \<Rightarrow> 's sd_block_device \<Rightarrow> u32 \<Rightarrow> block" where
  "partition_sector off sector d u = sector (storage d) (off + u)"

definition partition_capacity :: "u32 \<Rightarrow> ('s \<Rightarrow> nat) \<Rightarrow> 's sd_block_device \<Rightarrow> nat" where
  "partition_capacity off capacity d = capacity (storage d) - unat off"

definition partition_ok :: "'s sd_card \<Rightarrow> u32 \<Rightarrow> ('s \<Rightarrow> u32 \<Rightarrow> block) \<Rightarrow> ('s \<Rightarrow> nat) \<Rightarrow> ('s \<Rightarrow> bool) \<Rightarrow> 's sd_block_device \<Rightarrow> bool" where
  "partition_ok C off sector capacity dev_ok d \<longleftrightarrow> dev_ok (storage d) \<and> 0 < capacity (storage d) \<and> capacity (storage d) \<le> 2 ^ 32 \<and>
     mbr_first C (sector (storage d) 0) = Some off \<and> (is_init d \<longrightarrow> sd_offset d = off)"

lemma sd_init_ok:
  assumes C: "card_ok C sector capacity dev_ok" and d: "partition_ok C off sector capacity dev_ok d"
  obtains st' where "sd_init C d = (Ok (), \<lparr>storage = st', sd_offset = off, is_init = True\<rparr>)" and "dev_ok st'"
    and "capacity st' = capacity (storage d)" and "sector st' = sector (storage d)"
proof (cases "is_init d")
  case True
  then have "sd_init C d = (Ok (), \<lparr>storage = storage d, sd_offset = off, is_init = True\<rparr>)"
    using d by (cases d) (simp add: sd_init_def andthen_def gets_def ret_def partition_ok_def)
  then show thesis by (rule that) (use d in \<open>simp_all add: partition_ok_def\<close>)
next
  case False
  have P: "dev_ok (storage d)" "unat (0 :: u32) < capacity (storage d)" "mbr_first C (sector (storage d) 0) = Some off"
    using d by (simp_all add: partition_ok_def)
  obtain s1 where s1: "sd_reacquire C (storage d) = (Ok (), s1)" "dev_ok s1" "capacity s1 = capacity (storage d)"
    "sector s1 = sector (storage d)" using C P(1) by (auto simp: card_ok_def)
  obtain s2 where s2: "sd_read_block C s1 0 = (Ok (sector s1 0), s2)" "dev_ok s2" "capacity s2 = capacity s1" "sector s2 = sector s1"
    using C s1(2) P(2) s1(3) unfolding card_ok_def by metis
  have "sd_init C d = (Ok (), \<lparr>storage = s2, sd_offset = off, is_init = True\<rparr>)"
    using False s1 s2 P(3)
    by (cases d) (simp add: sd_init_def read_mbr_def on_storage_def andthen_def gets_def map_err_def zoom_def modify_def ret_def)
  then show thesis using that s1 s2 by simp
qed

lemma sd_result_frame: "sd_result r d = (r', d') \<Longrightarrow> storage d' = storage d \<and> sd_offset d' = sd_offset d \<and> (is_init d' \<longrightarrow> is_init d)"
  by (auto simp: sd_result_def split: outcome.splits if_splits)

lemma sd_result_Ok: "fst (sd_result r d) = Ok () \<longleftrightarrow> r = Ok ()"
  by (cases r) (simp_all add: sd_result_def)

text \<open>A partition behind the master boot record of a working card is a working device, and the record stays as it is.\<close>

lemma sd_read_step:
  assumes R: "reliable_device (sd_io C) sector capacity dev_ok" and C: "card_ok C sector capacity dev_ok" and d: "partition_ok C off sector capacity dev_ok d"
    and r: "sd_read C d u b = (r, b', d')"
  shows "partition_ok C off sector capacity dev_ok d'" and "capacity (storage d') = capacity (storage d)"
    and "sector (storage d') = sector (storage d)" and "length b' = length b"
    and "r = Ok () \<Longrightarrow> b' = sector (storage d) (off + u)"
    and "unat (off + u) < capacity (storage d) \<Longrightarrow> length b = SIZE (sd_io C) \<Longrightarrow> r = Ok ()"
proof -
  note B = reliable_device.axioms(1) [OF R]
  obtain s1 where i: "sd_init C d = (Ok (), \<lparr>storage = s1, sd_offset = off, is_init = True\<rparr>)" and s1: "dev_ok s1"
    "capacity s1 = capacity (storage d)" "sector s1 = sector (storage d)" by (rule sd_init_ok [OF C d])
  obtain r1 s2 where io2: "bd_read (sd_io C) s1 (off + u) b = (r1, b', s2)"
    and res: "sd_result r1 (\<lparr>storage = s2, sd_offset = off, is_init = True\<rparr>) = (r, d')"
    using r by (auto simp: sd_read_def i Let_def split: prod.splits)
  note f = block_device.read_frame [OF B s1(1) io2] sd_result_frame [OF res]
  have ok: "r = Ok () \<longleftrightarrow> r1 = Ok ()" using sd_result_Ok res by (metis fst_conv)
  show "capacity (storage d') = capacity (storage d)" "sector (storage d') = sector (storage d)" "length b' = length b"
    using f s1 by simp_all
  then show "partition_ok C off sector capacity dev_ok d'" using f d by (simp add: partition_ok_def)
  show "r = Ok () \<Longrightarrow> b' = sector (storage d) (off + u)" using ok block_device.read_data [OF B s1(1), of "off + u" b] io2 s1(3) by simp
  show "unat (off + u) < capacity (storage d) \<Longrightarrow> length b = SIZE (sd_io C) \<Longrightarrow> r = Ok ()"
    using ok reliable_device.read_total [OF R s1(1), of "off + u" b] io2 s1(2) by simp
qed

lemma sd_write_step:
  assumes R: "reliable_device (sd_io C) sector capacity dev_ok" and C: "card_ok C sector capacity dev_ok" and d: "partition_ok C off sector capacity dev_ok d"
    and r: "sd_write C d u b = (r, d')" and b: "length b = SIZE (sd_io C)"
  shows "partition_ok C off sector capacity dev_ok d'" and "capacity (storage d') = capacity (storage d)"
    and "\<forall>v. v \<noteq> off + u \<longrightarrow> sector (storage d') v = sector (storage d) v"
    and "sector (storage d') 0 = sector (storage d) 0"
    and "r = Ok () \<Longrightarrow> sector (storage d') (off + u) = b"
    and "unat (off + u) < capacity (storage d) \<Longrightarrow> off + u \<noteq> 0 \<Longrightarrow> r = Ok ()"
proof -
  note B = reliable_device.axioms(1) [OF R]
  obtain s1 where i: "sd_init C d = (Ok (), \<lparr>storage = s1, sd_offset = off, is_init = True\<rparr>)" and s1: "dev_ok s1"
    "capacity s1 = capacity (storage d)" "sector s1 = sector (storage d)" by (rule sd_init_ok [OF C d])
  let ?d1 = "\<lparr>storage = s1, sd_offset = off, is_init = True\<rparr>"
  let ?goals = "partition_ok C off sector capacity dev_ok d' \<and> capacity (storage d') = capacity (storage d) \<and>
    (\<forall>v. v \<noteq> off + u \<longrightarrow> sector (storage d') v = sector (storage d) v) \<and> sector (storage d') 0 = sector (storage d) 0 \<and>
    (r = Ok () \<longrightarrow> sector (storage d') (off + u) = b) \<and> (unat (off + u) < capacity (storage d) \<longrightarrow> off + u \<noteq> 0 \<longrightarrow> r = Ok ())"
  have ?goals
  proof (cases "off + u = 0")
    case True
    then have "r = Panic" "d' = ?d1" using r by (simp_all add: sd_write_def i)
    then show ?thesis using s1 d True by (simp add: partition_ok_def)
  next
    case False
    obtain r1 s2 where io2: "bd_write (sd_io C) s1 (off + u) b = (r1, s2)"
      and res: "sd_result r1 (\<lparr>storage = s2, sd_offset = off, is_init = True\<rparr>) = (r, d')"
      using r False by (auto simp: sd_write_def i Let_def split: prod.splits)
    note f = block_device.write_frame [OF B s1(1) b io2] sd_result_frame [OF res]
    have ok: "r = Ok () \<longleftrightarrow> r1 = Ok ()" using sd_result_Ok res by (metis fst_conv)
    have "sector s2 0 = sector s1 0" using f False by metis
    moreover from this have "partition_ok C off sector capacity dev_ok d'" using f d s1 by (simp add: partition_ok_def)
    moreover have "r = Ok () \<longrightarrow> sector (storage d') (off + u) = b" using ok block_device.write_data [OF B s1(1) b, of "off + u"] io2 f by simp
    moreover have "unat (off + u) < capacity (storage d) \<longrightarrow> r = Ok ()"
      using ok reliable_device.write_total [OF R s1(1), of "off + u" b] io2 s1(2) b by simp
    ultimately show ?thesis using f s1 by simp
  qed
  then show "partition_ok C off sector capacity dev_ok d'" and "capacity (storage d') = capacity (storage d)"
    and "\<forall>v. v \<noteq> off + u \<longrightarrow> sector (storage d') v = sector (storage d) v"
    and "sector (storage d') 0 = sector (storage d) 0"
    and "r = Ok () \<Longrightarrow> sector (storage d') (off + u) = b"
    and "unat (off + u) < capacity (storage d) \<Longrightarrow> off + u \<noteq> 0 \<Longrightarrow> r = Ok ()" by simp_all
qed

lemma partition_within:
  assumes "partition_ok C off sector capacity dev_ok d" and "unat u < partition_capacity off capacity d" and "off \<noteq> 0"
  shows "unat (off + u) < capacity (storage d)" and "off + u \<noteq> 0"
proof -
  have lt: "unat off + unat u < capacity (storage d)" using assms(2) by (simp add: partition_capacity_def)
  also have "\<dots> \<le> 2 ^ 32" using assms(1) by (simp add: partition_ok_def)
  finally have "unat (off + u) = unat off + unat u" by (simp add: unat_word_ariths)
  then show "unat (off + u) < capacity (storage d)" "off + u \<noteq> 0" using lt assms(3) by (auto simp: word_unat_eq_iff)
qed

lemma sd_card_device:
  assumes R: "reliable_device (sd_io C) sector capacity dev_ok" and C: "card_ok C sector capacity dev_ok" and off: "off \<noteq> 0"
  shows "reliable_device (sd_platform C) (partition_sector off sector) (partition_capacity off capacity)
    (partition_ok C off sector capacity dev_ok)"
proof (unfold_locales, goal_cases)
  case (1 d s)
  then have "dev_ok (storage d)" by (simp add: partition_ok_def)
  then show ?case
    using block_device.sector_length [OF reliable_device.axioms(1) [OF R]] by (simp add: sd_platform_def partition_sector_def)
next
  case (2 d s b r b' d')
  then show ?case using sd_read_step(1-4) [OF R C, of off d s b r b' d']
    by (auto simp: sd_platform_def partition_sector_def partition_capacity_def fun_eq_iff)
next
  case (3 d s b b' d')
  then show ?case using sd_read_step(5) [OF R C, of off d s b "Ok ()" b' d']
    by (simp add: sd_platform_def partition_sector_def)
next
  case (4 d b s r d')
  then show ?case using sd_write_step(1-3) [OF R C, of off d s b r d']
    by (simp add: sd_platform_def partition_sector_def partition_capacity_def)
next
  case (5 d b s d')
  then show ?case using sd_write_step(5) [OF R C, of off d s b "Ok ()" d']
    by (simp add: sd_platform_def partition_sector_def)
next
  case (6 d s b)
  then show ?case
    using sd_read_step(6) [OF R C 6(1), of s b] partition_within [OF 6(1,2) off]
    by (cases "sd_read C d s b") (simp add: sd_platform_def)
next
  case (7 d s b)
  then show ?case
    using sd_write_step(6) [OF R C 7(1), of s b] partition_within [OF 7(1,2) off]
    by (cases "sd_write C d s b") (simp add: sd_platform_def)
qed

text \<open>
  C24: the SD card of the demo as a block device. If the driver serves the card and the first partition begins behind the
  master boot record, \<open>SdBlockDevice\<close>, initialised or not, is a reliable device whose sectors are those of the partition:
  the first access acquires the card and reads the record, and every later one is shifted by its offset. Whatever is
  written, and however that ends, sector 0 of the card keeps its content.
\<close>

theorem sd_card_reliable:
  assumes "reliable_device (sd_io C) sector capacity dev_ok" and "card_ok C sector capacity dev_ok" and "off \<noteq> 0"
  shows "reliable_device (sd_platform C) (partition_sector off sector) (partition_capacity off capacity)
      (partition_ok C off sector capacity dev_ok) \<and>
    (\<forall>st. dev_ok st \<and> 0 < capacity st \<and> capacity st \<le> 2 ^ 32 \<and> mbr_first C (sector st 0) = Some off \<longrightarrow>
      partition_ok C off sector capacity dev_ok (sd_new st)) \<and>
    (\<forall>d u b r d'. partition_ok C off sector capacity dev_ok d \<and> length b = SIZE (sd_io C) \<and> sd_write C d u b = (r, d') \<longrightarrow>
      sector (storage d') 0 = sector (storage d) 0)"
proof (intro conjI allI impI)
  fix st
  assume "dev_ok st \<and> 0 < capacity st \<and> capacity st \<le> 2 ^ 32 \<and> mbr_first C (sector st 0) = Some off"
  then show "partition_ok C off sector capacity dev_ok (sd_new st)" by (simp add: partition_ok_def sd_new_def)
qed (use sd_card_device [OF assms] sd_write_step(4) [OF assms(1,2)] in blast)+

text \<open>A card in memory, its partition from sector 1 on.\<close>

definition ex_card :: "inner sd_card" where
  "ex_card = \<lparr>sd_io = \<lparr>SIZE = BLOCK_SIZE, usize_bits = 64,
       bd_read = (\<lambda>d s b. case inner_read_sector d s b of (r, b', d') \<Rightarrow> (map_outcome id (\<lambda>_. SdTimeout) r, b', d')),
       bd_write = (\<lambda>d s b. case inner_write_sector d s b of (r, d') \<Rightarrow> (map_outcome id (\<lambda>_. SdTimeout) r, d'))\<rparr>,
     sd_reacquire = (\<lambda>st. (Ok (), st)),
     sd_read_block = (\<lambda>st u. case inner_read_sector st u (replicate BLOCK_SIZE 0) of (r, b, st') \<Rightarrow>
       (case r of Ok _ \<Rightarrow> (Ok b, st') | Err e \<Rightarrow> (Err SdTimeout, st') | Panic \<Rightarrow> (Panic, st') | OutOfFuel \<Rightarrow> (OutOfFuel, st'))),
     mbr_first = (\<lambda>b. Some 1)\<rparr>"

definition ex_card_image :: inner where
  "ex_card_image = \<lparr>image = replicate 512 7 @ replicate 512 8 @ replicate 512 9, sector_offset = 0, data_block = replicate 512 0, last_sector = None\<rparr>"

lemma map_outcome_Ok [simp]: "map_outcome id f r = Ok u \<longleftrightarrow> r = Ok u"
  by (cases r) auto

lemma ex_card_reliable: "reliable_device (sd_io ex_card) image_sector image_capacity image_ok" "card_ok ex_card image_sector image_capacity image_ok"
proof -
  show "reliable_device (sd_io ex_card) image_sector image_capacity image_ok"
  proof (unfold_locales, goal_cases)
    case (1 d s)
    then show ?case using image_device.sector_length by (simp add: ex_card_def image_platform_def)
  next
    case (2 d s b r b' d')
    then show ?case using image_device.read_frame [of d s b] by (auto simp: ex_card_def image_platform_def split: prod.splits)
  next
    case (3 d s b b' d')
    then show ?case using image_device.read_data [of d s b] by (auto simp: ex_card_def image_platform_def split: prod.splits)
  next
    case (4 d b s r d')
    then show ?case using image_device.write_frame [of d b s] by (auto simp: ex_card_def image_platform_def split: prod.splits)
  next
    case (5 d b s d')
    then show ?case using image_device.write_data [of d b s] by (auto simp: ex_card_def image_platform_def split: prod.splits)
  next
    case (6 d s b)
    then show ?case using image_device.read_total [of d s b] by (auto simp: ex_card_def image_platform_def split: prod.splits)
  next
    case (7 d s b)
    then show ?case using image_device.write_total [of d s b] by (auto simp: ex_card_def image_platform_def split: prod.splits)
  qed
  have "\<exists>st'. inner_read_sector st u (replicate BLOCK_SIZE 0) = (Ok (), image_sector st u, st') \<and> image_ok st' \<and>
      image_capacity st' = image_capacity st \<and> image_sector st' = image_sector st" if "image_ok st" "unat u < image_capacity st" for st u
    using image_device.read_returns [OF that, of "replicate BLOCK_SIZE 0"] by (fastforce simp: image_platform_def)
  then show "card_ok ex_card image_sector image_capacity image_ok" by (fastforce simp: card_ok_def ex_card_def)
qed

theorem sd_card_reliable_witness:
  "\<exists>d'. sd_read ex_card (sd_new ex_card_image) 1 (replicate 512 0) = (Ok (), replicate 512 9, d')"
proof -
  have len: "length (image ex_card_image) = 1536" by (simp add: ex_card_image_def)
  have st: "image_ok ex_card_image" "image_capacity ex_card_image = 3"
    using len by (simp_all add: image_ok_def image_capacity_def BLOCK_SIZE_def ex_card_image_def)
  have "mbr_first ex_card (image_sector ex_card_image 0) = Some 1" by (simp add: ex_card_def)
  with st sd_card_reliable [OF ex_card_reliable, of 1]
  have R: "reliable_device (sd_platform ex_card) (partition_sector 1 image_sector) (partition_capacity 1 image_capacity)
      (partition_ok ex_card 1 image_sector image_capacity image_ok)"
    and ok: "partition_ok ex_card 1 image_sector image_capacity image_ok (sd_new ex_card_image)" by auto
  have cap: "unat (1 :: u32) < partition_capacity 1 image_capacity (sd_new ex_card_image)"
    using st by (simp add: partition_capacity_def sd_new_def)
  have sz: "SIZE (sd_platform ex_card) = 512" "bd_read (sd_platform ex_card) = sd_read ex_card"
    by (simp_all add: sd_platform_def ex_card_def BLOCK_SIZE_def)
  have "partition_sector 1 image_sector (sd_new ex_card_image) 1 = replicate 512 9"
    using len by (simp add: partition_sector_def image_sector_def sd_new_def BLOCK_SIZE_def ex_card_image_def Let_def)
  then show ?thesis
    using reliable_device.read_returns [OF R ok cap, of "replicate 512 0"] by (auto simp: sz)
qed

end
