(* ===== verification/Demo_Logger.thy ===== *)
theory Demo_Logger
  imports Reply_Pool
begin

text \<open>
  The clock and the log writer of the demo (\<open>time.rs\<close>, \<open>helpers.rs\<close>, \<open>backup_ram.rs\<close>, \<open>logger_fs.rs\<close> under
  \<open>demos/embassy-demo/src\<close>): a client of the file-system actor that appends its log sector by sector, and the time provider
  it hands to the file system.
\<close>

section \<open>The clock\<close>

definition bcd2bin :: "u8 \<Rightarrow> u8" where
  "bcd2bin x = (x AND 0x0f) + drop_bit 4 x * 10"

text \<open>The registers of the real-time clock as they are read: sub-seconds, time, date.\<close>

record rtc_sample =
  rtc_ssr :: u32
  rtc_tr :: u32
  rtc_dr :: u32

type_synonym calendar = "u32 \<times> u32 \<times> u32 \<times> u32 \<times> u32 \<times> u32"

definition rtc_fields :: "u32 \<Rightarrow> u32 \<Rightarrow> calendar" where
  "rtc_fields tr dr =
     (let bcd = (\<lambda>x :: u32. ucast (bcd2bin (ucast x)) :: u32) in
      (2000 + bcd (drop_bit 16 dr AND 0xff), bcd (drop_bit 8 dr AND 0x1f), bcd (dr AND 0x3f),
       bcd (drop_bit 16 tr AND 0x3f), bcd (drop_bit 8 tr AND 0x7f), bcd (tr AND 0x7f)))"

text \<open>
  \<open>read_rtc_calendar\<close>: the time and date registers are read twice, and once more if they differ.
\<close>

definition read_rtc_calendar :: "(nat \<Rightarrow> rtc_sample) \<Rightarrow> calendar" where
  "read_rtc_calendar rtc =
     (if rtc_tr (rtc 0) = rtc_tr (rtc 1) \<and> rtc_dr (rtc 0) = rtc_dr (rtc 1)
      then rtc_fields (rtc_tr (rtc 0)) (rtc_dr (rtc 0))
      else rtc_fields (rtc_tr (rtc 2)) (rtc_dr (rtc 2)))"

definition prediv_s :: u32 where "prediv_s = 255"

text \<open>
  \<open>read_rtc_calendar_and_ssr_stable\<close>: pairs of samples until the two of a pair agree; the loop has no bound, so it has fuel.
\<close>

fun read_rtc_stable :: "nat \<Rightarrow> (nat \<Rightarrow> rtc_sample) \<Rightarrow> nat \<Rightarrow> (calendar \<times> u32) option" where
  "read_rtc_stable 0 rtc i = None"
| "read_rtc_stable (Suc fuel) rtc i =
     (let x = rtc i; y = rtc (i + 1) in
      if rtc_tr x = rtc_tr y \<and> rtc_dr x = rtc_dr y \<and> rtc_ssr x = rtc_ssr y
      then Some (rtc_fields (rtc_tr x) (rtc_dr x), rtc_ssr x)
      else read_rtc_stable fuel rtc (i + 2))"

definition rtc_timestamp_now :: "nat \<Rightarrow> (nat \<Rightarrow> rtc_sample) \<Rightarrow> timestamp option" where
  "rtc_timestamp_now fuel rtc = map_option (\<lambda>((y, mo, d, h, mi, s), ssr).
     let centis = ucast ((prediv_s - ssr) * 100 div (prediv_s + 1));
         ts = \<lparr>year = ucast y, month = ucast mo, day = ucast d, hour = ucast h, minute = ucast mi, second = ucast s, centis = centis,
           utc_offset_15min = Some 0\<rparr> in
     if timestamp_is_valid ts then ts else timestamp_default) (read_rtc_stable fuel rtc 0)"

text \<open>Two digits are decoded.\<close>

lemma bcd2bin_digits:
  assumes "a < 10" and "b < 10"
  shows "unat (bcd2bin (of_nat (16 * a + b))) = 10 * a + b"
proof -
  have "a \<in> {0, 1, 2, 3, 4, 5, 6, 7, 8, 9}" "b \<in> {0, 1, 2, 3, 4, 5, 6, 7, 8, 9}" using assms by auto
  then show ?thesis by (elim insertE emptyE) (simp_all add: bcd2bin_def)
qed

text \<open>The clock stands still over one pair of reads some time: then the loop returns.\<close>

lemma read_rtc_stable_returns:
  assumes "rtc (i + 2 * k) = rtc (i + 2 * k + 1)"
  shows "read_rtc_stable (Suc k) rtc i \<noteq> None"
  using assms
proof (induction k arbitrary: i)
  case (Suc k)
  have "read_rtc_stable (Suc k) rtc (i + 2) \<noteq> None"
    by (rule Suc.IH) (use Suc.prems in \<open>simp only: mult_Suc_right add.assoc [symmetric]\<close>)
  then show ?case unfolding read_rtc_stable.simps(2) [of "Suc k" rtc i] Let_def by (simp del: read_rtc_stable.simps not_None_eq)
qed (simp add: Let_def del: not_None_eq)

text \<open>What the file system gets is always a valid time.\<close>

lemma rtc_timestamp_valid: "rtc_timestamp_now fuel rtc = Some ts \<Longrightarrow> timestamp_is_valid ts"
proof -
  have "timestamp_is_valid timestamp_default" by code_simp
  then show "rtc_timestamp_now fuel rtc = Some ts \<Longrightarrow> timestamp_is_valid ts"
    by (auto simp: rtc_timestamp_now_def Let_def split: if_splits prod.splits)
qed

section \<open>Filling sectors\<close>

definition BLOCK_LEN :: nat where "BLOCK_LEN = 512"

text \<open>\<open>LoggerHelper\<close>: the bytes left in the current sector of the file, never zero.\<close>

record logger_helper = remainder :: nat

definition calc_remainder :: "nat \<Rightarrow> nat" where
  "calc_remainder file_len = BLOCK_LEN - file_len mod BLOCK_LEN"

definition helper_new :: "nat \<Rightarrow> logger_helper" where
  "helper_new file_len = \<lparr>remainder = calc_remainder file_len\<rparr>"

definition update_remainder :: "nat \<Rightarrow> nat \<Rightarrow> logger_helper \<Rightarrow> logger_helper" where
  "update_remainder len_a len_b h = h\<lparr>remainder := calc_remainder (BLOCK_LEN - remainder h + (len_a + len_b))\<rparr>"

definition to_write :: "nat \<Rightarrow> nat \<Rightarrow> logger_helper \<Rightarrow> (nat \<times> nat) option \<times> logger_helper" where
  "to_write len_a len_b h =
     (if len_a + len_b \<ge> remainder h
      then let a = min len_a (remainder h); left = remainder h - a;
               b = (if left > 0 then min len_b left else 0) in
        (Some (a, b), h\<lparr>remainder := BLOCK_LEN\<rparr>)
      else (None, h))"

text \<open>The helper knows how far the file, of length \<open>n\<close>, is from its next sector boundary.\<close>

definition tracks :: "logger_helper \<Rightarrow> nat \<Rightarrow> bool" where
  "tracks h n \<longleftrightarrow> remainder h = BLOCK_LEN - n mod BLOCK_LEN"

lemma tracks_new: "tracks (helper_new n) n"
  by (simp add: tracks_def helper_new_def calc_remainder_def)

lemma tracks_bounds: "tracks h n \<Longrightarrow> 0 < remainder h \<and> remainder h \<le> BLOCK_LEN"
  by (simp add: tracks_def BLOCK_LEN_def)

lemma tracks_update: "tracks h n \<Longrightarrow> tracks (update_remainder len_a len_b h) (n + len_a + len_b)"
  by (simp add: tracks_def update_remainder_def calc_remainder_def BLOCK_LEN_def mod_simps add.assoc)

lemma to_write_fills:
  assumes h: "tracks h n" and w: "to_write len_a len_b h = (Some (a, b), h')"
  shows "a \<le> len_a" and "b \<le> len_b" and "a + b = remainder h" and "(n + a + b) mod BLOCK_LEN = 0" and "tracks h' (n + a + b)"
proof -
  show ab: "a \<le> len_a" "b \<le> len_b" "a + b = remainder h" using w by (auto simp: to_write_def Let_def split: if_splits)
  have "n mod BLOCK_LEN \<le> BLOCK_LEN" by (simp add: BLOCK_LEN_def)
  then have "n + a + b = n - n mod BLOCK_LEN + BLOCK_LEN" using ab(3) h mod_less_eq_dividend [of n BLOCK_LEN] by (simp add: tracks_def)
  then have "n + a + b = (n div BLOCK_LEN + 1) * BLOCK_LEN" by (simp add: minus_mod_eq_div_mult)
  then show "(n + a + b) mod BLOCK_LEN = 0" by (simp only: mod_mult_self2_is_0)
  then show "tracks h' (n + a + b)" using w by (auto simp: tracks_def to_write_def Let_def split: if_splits)
qed

lemma to_write_waits: "to_write len_a len_b h = (None, h') \<Longrightarrow> len_a + len_b < remainder h \<and> h' = h"
  by (auto simp: to_write_def Let_def split: if_splits)

section \<open>The backup memory\<close>

record backup_ram =
  magic :: u32
  version :: u32
  daily_reset_counter :: u32
  daily_log_bytes :: u64

definition backup_zeroed :: backup_ram where
  "backup_zeroed = \<lparr>magic = 0, version = 0, daily_reset_counter = 0, daily_log_bytes = 0\<rparr>"

definition BACKUP_MAGIC :: u32 where "BACKUP_MAGIC = 0x4252414D"
definition BACKUP_VERSION :: u32 where "BACKUP_VERSION = 1"

definition init_if_needed :: "backup_ram \<Rightarrow> backup_ram" where
  "init_if_needed br = (if magic br \<noteq> BACKUP_MAGIC \<or> version br \<noteq> BACKUP_VERSION
     then backup_zeroed\<lparr>magic := BACKUP_MAGIC, version := BACKUP_VERSION\<rparr> else br)"

definition MAX_LOG_BYTES_PER_DAY :: u64 where "MAX_LOG_BYTES_PER_DAY = 1024 * 1024"

definition daily_limit_exceeded :: "nat \<Rightarrow> backup_ram \<Rightarrow> bool \<times> backup_ram" where
  "daily_limit_exceeded num_bytes br =
     (daily_log_bytes br > MAX_LOG_BYTES_PER_DAY, br\<lparr>daily_log_bytes := daily_log_bytes br + of_nat num_bytes\<rparr>)"

section \<open>Writing the log\<close>

text \<open>
  One call of a client, from its request to its reply, with the actor serving it: the state is the manager.
\<close>

definition demand :: "('d, 'e) platform \<Rightarrow> 'e device_error \<Rightarrow> nat \<Rightarrow> nat \<Rightarrow> 'a call \<Rightarrow> ('d, 'a, fs_error) mgr_op" where
  "demand P E N fuel call = (case call of (request, decode) \<Rightarrow>
     andthen (actor_serve P E N fuel request) (\<lambda>reply m. case reply of Inl r \<Rightarrow> (decode r, m) | Inr e \<Rightarrow> (Err e, m)))"

definition demand_write :: "('d, 'e) platform \<Rightarrow> 'e device_error \<Rightarrow> nat \<Rightarrow> nat \<Rightarrow> u32 \<Rightarrow> u8 list \<Rightarrow> ('d, unit, fs_error) mgr_op" where
  "demand_write P E N fuel handle buffer = (case handle_write handle buffer of None \<Rightarrow> ret () | Some call \<Rightarrow> demand P E N fuel call)"

text \<open>
  The logger: its helper, the backup memory and the bytes of the log buffer not yet released, in the two parts of the
  grant of the \<open>defmt_persist\<close> consumer; releasing takes bytes from the front.
\<close>

record 'd log_state =
  lg_helper :: logger_helper
  lg_backup :: backup_ram
  lg_a :: "u8 list"
  lg_b :: "u8 list"
  lg_manager :: "'d fs_manager"

definition on_manager :: "('d, 'a, fs_error) mgr_op \<Rightarrow> ('d log_state, 'a, fs_error) op" where
  "on_manager = zoom lg_manager (\<lambda>m s. s\<lparr>lg_manager := m\<rparr>)"

definition release :: "nat \<Rightarrow> ('d log_state, unit, fs_error) op" where
  "release n = modify (\<lambda>s. s\<lparr>lg_a := drop n (lg_a s), lg_b := drop (n - length (lg_a s)) (lg_b s)\<rparr>)"

definition release_all :: "('d log_state, unit, fs_error) op" where
  "release_all = modify (\<lambda>s. s\<lparr>lg_a := [], lg_b := []\<rparr>)"

definition write_to_file :: "('d, 'e) platform \<Rightarrow> 'e device_error \<Rightarrow> nat \<Rightarrow> nat \<Rightarrow> bool \<Rightarrow> u32 \<Rightarrow> ('d log_state, unit, fs_error) op" where
  "write_to_file P E N fuel force_flush handle =
     andthen (gets (\<lambda>s. (lg_a s, lg_b s))) (\<lambda>(a, b).
     if a @ b = []
     then (if force_flush then on_manager (demand P E N fuel (handle_flush handle)) else ret ())
     else
       andthen (gets (\<lambda>s. fst (daily_limit_exceeded (length a + length b) (lg_backup s)))) (\<lambda>exceeded.
       andthen (modify (\<lambda>s. s\<lparr>lg_backup := snd (daily_limit_exceeded (length a + length b) (lg_backup s))\<rparr>)) (\<lambda>_.
       if exceeded then release_all
       else if force_flush
       then andthen (modify (\<lambda>s. s\<lparr>lg_helper := update_remainder (length a) (length b) (lg_helper s)\<rparr>)) (\<lambda>_.
         andthen (on_manager (demand_write P E N fuel handle a)) (\<lambda>_.
         andthen (on_manager (demand_write P E N fuel handle b)) (\<lambda>_.
         andthen (on_manager (demand P E N fuel (handle_flush handle))) (\<lambda>_.
         release_all))))
       else
         andthen (gets (\<lambda>s. fst (to_write (length a) (length b) (lg_helper s)))) (\<lambda>plan.
         andthen (modify (\<lambda>s. s\<lparr>lg_helper := snd (to_write (length a) (length b) (lg_helper s))\<rparr>)) (\<lambda>_.
         case plan of
           None \<Rightarrow> ret ()
         | Some (write_a, write_b) \<Rightarrow>
           andthen (on_manager (demand_write P E N fuel handle (take write_a a))) (\<lambda>_.
           andthen (on_manager (demand_write P E N fuel handle (take write_b b))) (\<lambda>_.
           andthen (on_manager (demand P E N fuel (handle_flush handle))) (\<lambda>_.
           release (write_a + write_b)))))))))"

text \<open>
  What is taken out of the buffer, without a forced flush and below the daily limit, is what fills the current sector of
  the file, or nothing; the helper keeps track of the file.
\<close>

lemma on_manager_Ok:
  "on_manager m s = (Ok x, s') \<Longrightarrow> \<exists>m'. m (lg_manager s) = (Ok x, m') \<and> s' = s\<lparr>lg_manager := m'\<rparr>"
  by (auto simp: on_manager_def zoom_def split: prod.splits)

lemma write_to_file_sector:
  assumes ok: "write_to_file P E N fuel False handle s = (Ok (), s')" and h: "tracks (lg_helper s) n"
    and limit: "daily_log_bytes (lg_backup s) \<le> MAX_LOG_BYTES_PER_DAY"
  shows "\<exists>k. lg_a s' @ lg_b s' = drop k (lg_a s @ lg_b s) \<and> k \<le> length (lg_a s @ lg_b s) \<and> tracks (lg_helper s') (n + k) \<and>
    (k = 0 \<and> lg_manager s' = lg_manager s \<or> (n + k) mod BLOCK_LEN = 0)"
proof (cases "lg_a s @ lg_b s = []")
  case True
  then have "s' = s" using ok by (auto simp: write_to_file_def andthen_def gets_def ret_def)
  then show ?thesis using h by (intro exI [of _ 0]) simp
next
  case False
  let ?a = "lg_a s" let ?b = "lg_b s"
  let ?br = "(lg_backup s)\<lparr>daily_log_bytes := daily_log_bytes (lg_backup s) + of_nat (length ?a + length ?b)\<rparr>"
  obtain plan h' where w: "to_write (length ?a) (length ?b) (lg_helper s) = (plan, h')" by (cases "to_write (length ?a) (length ?b) (lg_helper s)")
  define s1 where "s1 = s\<lparr>lg_backup := ?br, lg_helper := h'\<rparr>"
  have step: "write_to_file P E N fuel False handle s = (case plan of
           None \<Rightarrow> ret ()
         | Some (write_a, write_b) \<Rightarrow>
           andthen (on_manager (demand_write P E N fuel handle (take write_a ?a))) (\<lambda>_.
           andthen (on_manager (demand_write P E N fuel handle (take write_b ?b))) (\<lambda>_.
           andthen (on_manager (demand P E N fuel (handle_flush handle))) (\<lambda>_.
           release (write_a + write_b))))) s1"
    using False limit w
    by (auto simp add: write_to_file_def andthen_def gets_def modify_def daily_limit_exceeded_def s1_def linorder_not_less [symmetric])
  show ?thesis
  proof (cases plan)
    case None
    then have "s' = s1" "h' = lg_helper s" using ok w to_write_waits [of "length ?a" "length ?b" "lg_helper s" h'] unfolding step by (simp_all add: ret_def)
    then show ?thesis using h by (intro exI [of _ 0]) (simp add: s1_def)
  next
    case (Some p)
    obtain x y where p: "p = (x, y)" by (cases p)
    note f = to_write_fills [OF h w [unfolded Some p]]
    obtain m where s': "s' = s1\<lparr>lg_manager := m, lg_a := drop (x + y) ?a, lg_b := drop (x + y - length ?a) ?b\<rparr>"
      using ok unfolding step Some p
      by (auto simp: andthen_def release_def modify_def s1_def split: prod.splits outcome.splits dest!: on_manager_Ok)
    then show ?thesis using f by (intro exI [of _ "x + y"]) (simp add: s1_def add.assoc)
  qed
qed

text \<open>
  A call that writes nothing because the sector is not full yet counts its bytes towards the daily limit all the same,
  and the next call counts them again.
\<close>

lemma waiting_bytes_counted:
  assumes "lg_a s @ lg_b s \<noteq> []" and "daily_log_bytes (lg_backup s) \<le> MAX_LOG_BYTES_PER_DAY"
    and "length (lg_a s) + length (lg_b s) < remainder (lg_helper s)"
  shows "write_to_file P E N fuel False handle s = (Ok (), s\<lparr>lg_backup := (lg_backup s)
    \<lparr>daily_log_bytes := daily_log_bytes (lg_backup s) + of_nat (length (lg_a s) + length (lg_b s))\<rparr>\<rparr>)"
  using assms
  by (simp add: write_to_file_def andthen_def gets_def modify_def daily_limit_exceeded_def to_write_def ret_def linorder_not_less [symmetric])

end
