(* ===== verification/Spec2Isabelle.thy ===== *)
theory Spec2Isabelle
  imports Properties_Allocation Properties_Names Properties_System Properties_Volume Bisync Example_Devices Demo_Logger
begin

text \<open>
  A verification library for \<^emph>\<open>exfat-slim\<close>, an exFAT file system driver for embedded systems (the crate under
  \<open>src/src\<close>). A volume lives on a block device of numbered sectors. The driver caches sectors in three slot caches, one
  for the file allocation table (FAT), one for the allocation bitmap and one for directories and data; it resolves paths
  through chains of 32-byte directory entries, keeps the clusters of a file either consecutive or linked in the FAT,
  and reads and writes open files through a cursor. A front end lets several tasks share one file system through
  requests to an actor.

  \<^bold>\<open>How the code is modelled.\<close> Every function of the source is a definition of the same name where Isabelle allows it,
  a function from a state to an outcome and a state (theory \<open>Exfat_Prelude\<close>): \<open>Ok\<close>, \<open>Err\<close> with the error of the
  source, \<open>Panic\<close> for what panics in every build (an index out of range, \<open>unwrap\<close>, \<open>assert!\<close>, a division by zero),
  and \<open>OutOfFuel\<close> for a loop that needs fuel. The \<open>?\<close> operator is \<open>andthen\<close>; the state after an error is the one the
  code leaves behind. Integers are words of their width and wrap, as in a release build; \<open>usize\<close> is a natural number,
  cut to \<open>usize_bits\<close> of the platform where the source casts to it. Structs are records, enums datatypes, and part of a
  larger state is reached with \<open>zoom\<close>. The asynchronous and blocking variants that the macro \<open>bisync\<close> generates are one
  model.

  \<^bold>\<open>The theories\<close>, from the bottom:

  \<^item> \<open>Exfat_Prelude\<close>: outcomes, state operations, slices, little-endian numbers, word arithmetic.
  \<^item> \<open>Block_Device\<close> (\<open>block_device.rs\<close>, \<open>error.rs\<close>, \<open>test_utils.rs\<close>): the device trait as a record \<open>platform\<close>, its
    contract as the locales \<open>block_device\<close> and \<open>reliable_device\<close>, interpreted on \<open>DummyBlockDevice\<close>.
  \<^item> \<open>Slot_Cache\<close> (\<open>slot_cache.rs\<close>): slots with a clock hand; the invariant, the abstraction \<open>cview\<close> to the medium the
    client sees, and its refinement by reading, updating, writing through and flushing. \<open>Sector_Store\<close> states what the
    clients of a cache rely on as a locale, provided by the cache on every reliable device.
  \<^item> \<open>Touched\<close> (\<open>FileDirty\<close> of \<open>file.rs\<close>): the bounded set of sectors to write back.
  \<^item> \<open>Fat\<close> (\<open>fat.rs\<close>), \<open>Allocation\<close> and \<open>Allocation_Search\<close> (\<open>allocation.rs\<close>): entries of the FAT, bits of the
    bitmap, marking of runs by sector-wise chunks, the word-wise search under both policies, allocating and freeing.
  \<^item> \<open>Boot_Sector\<close> (\<open>boot_sector.rs\<close>, parts of \<open>utils.rs\<close>): parsing, validation, geometry, volume flags.
  \<^item> \<open>Timestamp\<close>, \<open>Names\<close>, \<open>Utf\<close> (\<open>timestamp.rs\<close>, \<open>utils.rs\<close>, \<open>upcase_table.rs\<close>): packed dates, up-casing, name
    hashes, UTF-16 and UTF-8, paths.
  \<^item> \<open>Entry_Format\<close>, \<open>Directory_Chain\<close> (\<open>directory_entry.rs\<close>), \<open>Directory\<close> (\<open>directory.rs\<close>, \<open>mount\<close>): the entries as
    bytes, walking them over sectors and clusters, writing entry sets, filters, resolving paths, mounting.
  \<^item> \<open>Fs_State\<close>, \<open>Fs_Ops\<close>, \<open>File_System\<close> (\<open>file_system.rs\<close>): the state of a volume, its write-back, and the internal
    and public operations.
  \<^item> \<open>File\<close> (\<open>file.rs\<close>): options, open files, cursor, reading, writing, seeking, growing, flushing, copying.
  \<^item> \<open>File_Content\<close>, \<open>File_Write\<close>: where the bytes of a file of consecutive clusters are, what a read returns and what
    a write changes. What reading relies on of a file is the locale \<open>readable_file\<close>, provided for files of consecutive
    clusters there and for files as lists of clusters, consecutive or linked, in \<open>File_Chain\<close>. \<open>File_Contract\<close> states a file
    as a list of bytes with a position, as the locale \<open>random_access_file\<close>, and shows that \<open>read\<close>, \<open>write\<close> and \<open>seek\<close> satisfy it
    on every reliable device. \<open>File_Grow\<close> shows what a write does that needs new clusters in one run, \<open>File_Append\<close> what
    becomes of the first write to a full file opened for appending.
  \<^item> \<open>Volume_View\<close>, \<open>Volume_Flush\<close>: a mounted volume as one medium, a layout saying which cache a sector belongs to;
    reads, updates and write-backs through any of the caches on it.
  \<^item> \<open>Directory_Walk\<close>, \<open>Directory_Scan\<close>, \<open>Directory_Sets\<close>, \<open>Name_Filter\<close>, \<open>Directory_Lookup\<close>: the walk over a directory
    delivers the list of its entries; the search for a name computes a plain search of that list; a well-formed list is a
    list of entry sets (\<open>dir_sets\<close>); a path resolves on the map from first clusters to lists of sets (\<open>resolve\<close>).
  \<^item> \<open>Directory_Write\<close>, \<open>Directory_Create\<close>, \<open>Directory_Delete\<close>, \<open>Directory_Tree\<close>, \<open>Directory_Ops\<close>, \<open>Directory_Remove\<close>: the
    writer of entry sets and the clearing of entries on the list of entries, the search for a gap, one set more or less
    in the list of sets, directories side by side, and \<open>create_file\<close>, \<open>rename\<close> and \<open>remove_file\<close> on the map of
    directories; \<open>Directory_Make\<close> adds \<open>create_directory\<close>. \<open>Directory_Example\<close> is the volume of their witnesses.
  \<^item> \<open>File_Open\<close>, \<open>Directory_Listing\<close>, \<open>Mounting\<close>: opening a file by its path and reading it whole, seeking along the FAT,
    listing a directory to its end, and what \<open>mount\<close> makes of a device.
  \<^item> \<open>Handles\<close>, \<open>Fs_Manager\<close>, \<open>Reply_Pool\<close> (\<open>fs.rs\<close>): tables of handles, the manager and every arm of its request
    loop, reply slots and the calls of clients. The channel, semaphore and signals of \<open>embassy-sync\<close> are a record
    \<open>embassy\<close> of operations with their documented laws as the hypothesis \<open>embassy_ok\<close>.
  \<^item> \<open>Manager_Invariant\<close>, \<open>Actor\<close>, \<open>Actor_Replies\<close>, \<open>Actor_Runs\<close>, \<open>Actor_Progress\<close>: the invariant of the manager, the system of \<open>n\<close> clients
    and the actor as the step relation \<open>fs_step\<close>, calls that are dropped included, the invariants of its reachable states,
    a run in which a reply is lost, and the steps of the actor that lead to a reply.
  \<^item> \<open>Bisync\<close> (\<open>macros/src/lib.rs\<close>): the attribute macros on token trees. \<open>Example_Devices\<close> (\<open>examples/common/blocking.rs\<close>,
    \<open>demos/embassy-demo/src/sdmmc_fs.rs\<close>): the disk image in memory and the SD card as reliable devices. \<open>Demo_Logger\<close>
    (\<open>helpers.rs\<close>, \<open>logger_fs.rs\<close>, \<open>backup_ram.rs\<close>, \<open>time.rs\<close> of the demo): the log writer, a client of the actor, and the clock.
  \<^item> \<open>Properties_Storage\<close>, \<open>Properties_Allocation\<close>, \<open>Properties_Names\<close>, \<open>Properties_Files\<close>, \<open>Properties_Growth\<close>,
    \<open>Properties_Directory\<close>, \<open>Properties_Volume\<close>, \<open>Properties_Actor\<close>, \<open>Properties_System\<close>: the properties, C1 to C40 with the
    ones of \<open>Bisync\<close> and \<open>Example_Devices\<close>, each with a witness on a concrete input where it has hypotheses.

  \<^bold>\<open>What is shown.\<close> Mounting takes over what the device says of itself (C8). The caches refine the medium: what is read is
  what was last written, evictions included; an unmount leaves on the device what the caches showed, although three
  caches are written back over one device. The allocator only hands out free clusters inside the heap and marks exactly
  those; its search meets its policy and fails only on a full volume. The FAT entry set is the one read. Formats
  round-trip: directory entries, timestamps; names match up to case only. The directories of a volume are lists of entry
  sets: looking up a path is a search of these lists and changes nothing, listing delivers them in order, creating adds
  one set, making a directory adds one set and an empty list, renaming moves one, removing takes one away and frees its
  clusters, and nothing else changes, under the assumptions below; where the code breaks this is stated too (C34, C35). A
  file is a list of bytes: reading, by path (C7) or from an open file (C13, C26), returns it whatever way its clusters are
  kept; writes to a file of consecutive clusters splice into it at the cursor, and what is written is read back (C1, C2); a
  write behind the last cluster takes exactly the clusters it needs (C3); the calls outside the conditions of these
  properties for which the code breaks them are stated as well (C30 to C33). The actor is linearizable: the manager is what the requests served one after the
  other make of it, and with no more clients than reply slots every client gets the reply to its own request, slots are
  never shared, a dropped call keeps its slot for good (C19), and the actor brings a waiting client its reply within a
  bounded number of its steps, unless it halts (C27); with more clients, tasks whose call was dropped counted, replies get
  lost (C20), because the guard of the semaphore is dropped at once. The card's removal invalidates all handles.
  Errors leave the state as the code leaves it. The devices of the examples and the demo are reliable devices, so all this
  holds on them. The macro that makes the blocking variant takes away \<open>async\<close>, a \<open>move\<close> behind it and \<open>.await\<close>, and keeps the
  other tokens.

  \<^bold>\<open>Fuel and bounds.\<close> The loop of \<open>read\<close> has as many rounds as the buffer has bytes: every round copies one at least.
  The loop of \<open>allocate_clusters_for\<close> has one round per cluster. Loops over one entry set are bounded by the number of
  entries. Walks over a directory take fuel from the caller because a corrupt FAT can be cyclic. The clock hand of the
  cache, the scan for a free handle, the search of the bitmap and the closing of files at shutdown are shown to end.

  \<^bold>\<open>Assumptions of the file properties.\<close> Those about writing are about files of consecutive clusters, with the cursor within
  the valid data and a tail that does not start a cluster (C30 and C33 show what happens otherwise); those about reading and
  seeking are about files linked in the FAT too, and ask for the option to read only. All are on a device that serves
  every request within its capacity, with the clusters inside the device, and for lengths below \<open>2 ^ usize_bits\<close>, to which
  the code casts; C3 is about a write that needs new clusters and finds them in one run, C1 and C2 about writes that need
  none. The volume property C14 assumes that no sector is in two caches, which is how an exFAT
  volume is laid out.

  \<^bold>\<open>Assumptions of the directory properties.\<close> Every cache holds only sectors of its region; the clusters of a directory
  are linked in the FAT, which is how the code walks them; directories share no sector. For the operations that write,
  the sectors of a directory are consecutive, which the code assumes within an entry set, the directory of the new
  entry exists and has a gap for it, and a name has at most 255 units; a free cluster that becomes a directory has a FAT
  entry that does not lead on. The fuel exceeds the number of entries of any
  directory, so the walks always end.

  \<^bold>\<open>Assumptions of the actor properties.\<close> The laws of the channel, semaphore and signals; that there are no more clients
  than reply slots, where replies are concerned; a client whose call was dropped makes no further call, and a task that goes
  on after a dropped call counts as another client. A permit is given back in the step that takes it, as the code
  drops the guard.

  \<^bold>\<open>Not modelled.\<close> \<open>lib.rs\<close> and \<open>mocks.rs\<close> (feature selection, logging, the choice of synchronous primitives), the
  formatting of values for \<open>defmt\<close> and \<open>Debug\<close>, trace output; of the demo the hardware setup, the endless loops of its tasks
  and what the \<open>chrono\<close> crate computes; the example programs, which only call the library. Not proved, though modelled:
  writes to files linked in the FAT, and removing directories on the map of directories.
\<close>

end
